(* ===== verification/Prelude.thy ===== *)
theory Prelude
imports Main "HOL-Library.Word" "HOL-Library.Product_Lexorder" "HOL-Library.Sublist"
begin

text \<open>
  Shared material of the development: identifiers and instants, the exceptions of the
  service, results of fallible statements, and the relational operations the SQL of the
  service is made of (a table is the list of its rows; SELECT ... WHERE is a filter,
  ORDER BY ... LIMIT a sorted prefix, UPDATE ... WHERE a conditional map, and rowcount the
  number of rows the predicate selects).
\<close>

section \<open>Identifiers and instants\<close>

text \<open>
  A UUID is its 128-bit value; PostgreSQL and Python both order UUIDs by that value. An
  instant (timestamptz, and a Python datetime in UTC) is a number of microseconds since
  1970-01-01T00:00:00Z; both have exactly microsecond resolution.
\<close>

type_synonym uuid = "128 word"
type_synonym time = int

definition usec :: int where "usec = 1000000"

definition minutes :: "int \<Rightarrow> time" where "minutes n = n * 60 * usec"

definition seconds :: "int \<Rightarrow> time" where "seconds n = n * usec"

definition hours :: "int \<Rightarrow> time" where "hours n = n * 3600 * usec"

definition days :: "int \<Rightarrow> time" where "days n = n * 86400 * usec"

named_theorems time_units "definitions of the units of time"

lemmas time_unit_defs [time_units] =
  usec_def minutes_def seconds_def hours_def days_def

section \<open>Exceptions\<close>

text \<open>
  The exception classes raised by the service and by the libraries it calls. Two modules
  declare a class NotFoundError and two a class InvalidWindowError; those of
  app.resources.service carry the prefix R. IntegrityError carries the SQLSTATE and the
  constraint name, which the code inspects. Messages are kept only where one function
  raises the same class with several of them.
\<close>

datatype exn =
    NotFoundError
  | RNotFoundError
  | ResourceInactive
  | SlotConflict
  | InvalidWindowError string
  | RInvalidWindowError string
  | VersionMismatch
  | TooLate
  | InvalidState
  | SlotAvailable
  | AlreadyWaitlisted
  | AlreadyBooked
  | WaitlistFull
  | ResourceInUse
  | LastAdminError
  | ConsentRequiredError
  | IdempotencyKeyRequired
  | IdempotencyKeyInvalid
  | IdempotencyKeyMismatch
  | IncompleteIdempotencyRecord
  | AuthRequiredError
  | InvalidTokenError
  | ForbiddenError
  | InvalidCredentialsError
  | InvalidRefreshError
  | OriginRejectedError
  | ObjectNotFoundError
  | PreconditionRequiredError
  | InvalidIfMatchError
  | InvalidInvitationError
  | EmailExistsError
  | RateLimitExceeded int
  | RequestValidationError
  | HTTPException nat string "(string \<times> string) list"
  | IntegrityError string string
  | DBAPIError string
  | RuntimeError
  | ValueError
  | OverflowError
  | KeyError
  | MultipleResultsFound
  | NoResultFound
  | InvalidRequestError
  | EmailDeliveryError string

type_synonym 'a result = "exn + 'a"

section \<open>Sequencing of fallible statements\<close>

text \<open>
  An exception skips the rest of the function; nothing of the state it may have changed
  survives, because the caller's transaction (or savepoint) rolls back.
\<close>

definition bind_r :: "'a result \<Rightarrow> ('a \<Rightarrow> 'b result) \<Rightarrow> 'b result" where
  "bind_r m f = (case m of Inl e \<Rightarrow> Inl e | Inr x \<Rightarrow> f x)"

lemma bind_r_simps [simp]:
  "bind_r (Inl e) f = Inl e"
  "bind_r (Inr x) f = f x"
  by (simp_all add: bind_r_def)

lemma bind_r_Inr: "bind_r m f = Inr y \<longleftrightarrow> (\<exists>x. m = Inr x \<and> f x = Inr y)"
  by (cases m) simp_all

lemma if_Inl_Inr [simp]:
  "(if c then Inl e else m) = Inr y \<longleftrightarrow> \<not> c \<and> m = Inr y"
  "(if c then m else Inl e) = Inr y \<longleftrightarrow> c \<and> m = Inr y"
  by auto

lemma bind_r_InrE:
  assumes "bind_r m f = Inr y"
  obtains x where "m = Inr x" and "f x = Inr y"
  using assms by (auto simp: bind_r_Inr)

lemma bind_r_Inl: "bind_r m f = Inl e \<longleftrightarrow> m = Inl e \<or> (\<exists>x. m = Inr x \<and> f x = Inl e)"
  by (cases m) auto

lemma bind_r_cong [fundef_cong]:
  "m = m' \<Longrightarrow> (\<And>x. m' = Inr x \<Longrightarrow> f x = g x) \<Longrightarrow> bind_r m f = bind_r m' g"
  by (cases m') simp_all

definition raise_if :: "bool \<Rightarrow> exn \<Rightarrow> unit result" where
  "raise_if c e = (if c then Inl e else Inr ())"

lemma raise_if_simps [simp]:
  "raise_if c e = Inr u \<longleftrightarrow> \<not> c"
  "raise_if c e = Inl e' \<longleftrightarrow> c \<and> e' = e"
  by (auto simp: raise_if_def)

section \<open>Relational operations\<close>

text \<open>
  scalar_one_or_none: SQLAlchemy returns the only row, None for no row, and raises
  MultipleResultsFound for two or more.
\<close>

definition scalar_one_or_none :: "'a list \<Rightarrow> 'a option result" where
  "scalar_one_or_none rows =
     (case rows of [] \<Rightarrow> Inr None | [r] \<Rightarrow> Inr (Some r) | _ \<Rightarrow> Inl MultipleResultsFound)"

definition update_where :: "('r \<Rightarrow> bool) \<Rightarrow> ('r \<Rightarrow> 'r) \<Rightarrow> 'r list \<Rightarrow> 'r list" where
  "update_where P f t = map (\<lambda>r. if P r then f r else r) t"

definition rowcount :: "('r \<Rightarrow> bool) \<Rightarrow> 'r list \<Rightarrow> nat" where
  "rowcount P t = length (filter P t)"

text \<open>SELECT ... ORDER BY key LIMIT n OFFSET k.\<close>

definition order_limit :: "('r \<Rightarrow> 'k::linorder) \<Rightarrow> nat \<Rightarrow> nat \<Rightarrow> 'r list \<Rightarrow> 'r list" where
  "order_limit key n k rows = take n (drop k (sort_key key rows))"

text \<open>
  app.resources.schemas.Page and the pair of queries behind it: the number of rows that match,
  and one page of them in a total order.
\<close>

record 'v listing =
  p_items :: "'v list"
  p_total :: nat
  p_limit :: nat
  p_offset :: nat

definition list_page ::
  "('r \<Rightarrow> bool) \<Rightarrow> ('r \<Rightarrow> 'k::linorder) \<Rightarrow> ('r \<Rightarrow> 'v) \<Rightarrow> nat \<Rightarrow> nat \<Rightarrow> 'r list \<Rightarrow> 'v listing" where
  "list_page P key view n k t =
     \<lparr>p_items = map view (order_limit key n k (filter P t)), p_total = length (filter P t),
      p_limit = n, p_offset = k\<rparr>"

lemma list_page_simps [simp]:
  "p_total (list_page P key view n k t) = length (filter P t)"
  "p_limit (list_page P key view n k t) = n"
  "p_offset (list_page P key view n k t) = k"
  by (simp_all add: list_page_def)

lemma take_pages: "concat (map (\<lambda>i. take n (drop (i * n) xs)) [0..<k]) = take (k * n) xs"
proof (induction k)
  case 0
  then show ?case by simp
next
  case (Suc k)
  have "take (Suc k * n) xs = take (k * n) xs @ take n (drop (k * n) xs)"
    using take_add [of "k * n" n xs] by (simp add: add.commute)
  with Suc show ?case by simp
qed

text \<open>Walking the pages of a table that does not change lists every match once, in order.\<close>

lemma pages_cover:
  assumes "length (filter P t) \<le> k * n"
  shows "concat (map (\<lambda>i. p_items (list_page P key view n (i * n) t)) [0..<k])
    = map view (sort_key key (filter P t))"
proof -
  have "concat (map (\<lambda>i. p_items (list_page P key view n (i * n) t)) [0..<k])
      = map view (concat (map (\<lambda>i. take n (drop (i * n) (sort_key key (filter P t)))) [0..<k]))"
    by (simp add: list_page_def order_limit_def map_concat o_def)
  also have "\<dots> = map view (take (k * n) (sort_key key (filter P t)))" unfolding take_pages ..
  also have "\<dots> = map view (sort_key key (filter P t))" using assms by simp
  finally show ?thesis .
qed

lemma list_page_members:
  "v \<in> set (p_items (list_page P key view n k t)) \<Longrightarrow> \<exists>r \<in> set t. P r \<and> v = view r"
  by (auto simp: list_page_def order_limit_def dest!: in_set_takeD in_set_dropD)

text \<open>The first error a row-wise check reports, in table order.\<close>

fun first_error :: "('r \<Rightarrow> exn option) \<Rightarrow> 'r list \<Rightarrow> exn option" where
  "first_error chk [] = None"
| "first_error chk (r # rs) =
     (case chk r of Some e \<Rightarrow> Some e | None \<Rightarrow> first_error chk rs)"

lemma first_error_None: "first_error chk rs = None \<longleftrightarrow> (\<forall>r \<in> set rs. chk r = None)"
  by (induction rs) (auto split: option.splits)

lemma scalar_one_or_none_simps [simp]:
  "scalar_one_or_none [] = Inr None"
  "scalar_one_or_none [r] = Inr (Some r)"
  by (simp_all add: scalar_one_or_none_def)

lemma scalar_None: "scalar_one_or_none rows = Inr None \<longleftrightarrow> rows = []"
  by (auto simp: scalar_one_or_none_def split: list.splits)

lemma scalar_Some: "scalar_one_or_none rows = Inr (Some r) \<longleftrightarrow> rows = [r]"
  by (auto simp: scalar_one_or_none_def split: list.splits)

text \<open>With a key that no two rows share, a lookup by key finds at most one row.\<close>

lemma filter_key_distinct:
  assumes "distinct (map key t)" and "r \<in> set t" and "key r = i"
  shows "filter (\<lambda>x. key x = i) t = [r]"
  using assms
proof (induction t)
  case Nil
  then show ?case by simp
next
  case (Cons a t)
  show ?case
  proof (cases "key a = i")
    case True
    with Cons.prems have "a = r" by (auto simp: image_iff)
    moreover have "filter (\<lambda>x. key x = i) t = []"
      using Cons.prems True by (auto simp: filter_empty_conv image_iff)
    ultimately show ?thesis using True by simp
  next
    case False
    with Cons show ?thesis by auto
  qed
qed

lemma filter_key_and_distinct:
  assumes "distinct (map key t)" and "r \<in> set t" and "key r = i" and "P r"
  shows "filter (\<lambda>x. key x = i \<and> P x) t = [r]"
proof -
  have "filter (\<lambda>x. key x = i \<and> P x) t = filter P (filter (\<lambda>x. key x = i) t)"
    by (simp add: conj_commute)
  then show ?thesis using assms by (simp add: filter_key_distinct)
qed

lemma distinct_key_eq:
  assumes "distinct (map key t)" "r \<in> set t" "s \<in> set t" "key r = key s"
  shows "r = s"
  using assms by (meson distinct_map inj_onD)

lemma scalar_key_cases:
  assumes "distinct (map key t)"
  shows "(\<exists>r. r \<in> set t \<and> key r = i \<and> P r \<and>
            scalar_one_or_none (filter (\<lambda>x. key x = i \<and> P x) t) = Inr (Some r))
       \<or> (\<not> (\<exists>r. r \<in> set t \<and> key r = i \<and> P r) \<and>
            scalar_one_or_none (filter (\<lambda>x. key x = i \<and> P x) t) = Inr None)"
proof (cases "\<exists>r. r \<in> set t \<and> key r = i \<and> P r")
  case True
  then obtain r where r: "r \<in> set t" "key r = i" "P r" by blast
  from filter_key_and_distinct [where key = key and P = P, OF assms r] r
  show ?thesis by auto
next
  case False
  then show ?thesis by (auto simp: scalar_None filter_empty_conv)
qed

subsection \<open>Updates\<close>

lemma set_update_where:
  "set (update_where P f t) = {r \<in> set t. \<not> P r} \<union> f ` {r \<in> set t. P r}"
  by (auto simp: update_where_def)

lemma in_update_whereE:
  assumes "x \<in> set (update_where P f t)"
  obtains r where "r \<in> set t" "P r" "x = f r" | "x \<in> set t" "\<not> P x"
  using assms by (auto simp: set_update_where)

lemma length_update_where [simp]: "length (update_where P f t) = length t"
  by (simp add: update_where_def)

lemma map_update_where:
  "(\<And>r. r \<in> set t \<Longrightarrow> P r \<Longrightarrow> g (f r) = g r) \<Longrightarrow> map g (update_where P f t) = map g t"
  by (simp add: update_where_def)

lemma update_where_none: "(\<And>r. r \<in> set t \<Longrightarrow> \<not> P r) \<Longrightarrow> update_where P f t = t"
  by (simp add: update_where_def map_idI)

lemma filter_update_where:
  "filter Q (update_where P f t)
     = update_where P f (filter (\<lambda>r. if P r then Q (f r) else Q r) t)"
  by (induction t) (simp_all add: update_where_def)

lemma rowcount_pos: "0 < rowcount P t \<longleftrightarrow> (\<exists>r \<in> set t. P r)"
  by (auto simp: rowcount_def filter_empty_conv)

lemma rowcount_key_one:
  assumes "distinct (map key t)" "r \<in> set t" "key r = i" "P r"
  shows "rowcount (\<lambda>x. key x = i \<and> P x) t = 1"
  using filter_key_and_distinct [where key = key and P = P, OF assms] by (simp add: rowcount_def)

subsection \<open>Rows with a version: the optimistic-concurrency contract\<close>

text \<open>
  Every guarded mutation of the service is an UPDATE ... WHERE id = i AND version = v that
  also increments the version. The contract: such an update changes at most one row, it
  changes exactly the row whose version the caller pinned, and a second caller that pinned
  the same version finds no row.
\<close>

locale versioned_row =
  fixes key :: "'r \<Rightarrow> uuid" and ver :: "'r \<Rightarrow> int" and bump :: "'r \<Rightarrow> 'r"
  assumes key_bump: "key (bump r) = key r"
    and ver_bump: "ver (bump r) = ver r + 1"
begin

lemma keys_kept: "map key (update_where (\<lambda>r. key r = i \<and> ver r = v) bump t) = map key t"
  by (rule map_update_where) (simp add: key_bump)

lemma pinned_once:
  assumes "distinct (map key t)"
  shows "rowcount (\<lambda>r. key r = i \<and> ver r = v) t \<le> 1"
proof (cases "\<exists>r \<in> set t. key r = i \<and> ver r = v")
  case True
  then obtain r where r: "r \<in> set t" "key r = i" "ver r = v" by blast
  from rowcount_key_one [where key = key and P = "\<lambda>r. ver r = v", OF assms r]
  show ?thesis by simp
next
  case False
  then have "filter (\<lambda>r. key r = i \<and> ver r = v) t = []" by (auto simp: filter_empty_conv)
  then show ?thesis by (simp add: rowcount_def)
qed

lemma second_writer_loses:
  "rowcount (\<lambda>r. key r = i \<and> ver r = v)
     (update_where (\<lambda>r. key r = i \<and> ver r = v) bump t) = 0"
proof -
  have "\<not> (key x = i \<and> ver x = v)"
    if "x \<in> set (update_where (\<lambda>r. key r = i \<and> ver r = v) bump t)" for x
    using that by (rule in_update_whereE) (simp_all add: ver_bump)
  then have "filter (\<lambda>r. key r = i \<and> ver r = v)
      (update_where (\<lambda>r. key r = i \<and> ver r = v) bump t) = []"
    unfolding filter_empty_conv by blast
  then show ?thesis by (simp only: rowcount_def list.size)
qed

lemma others_untouched:
  "r \<in> set t \<Longrightarrow> key r \<noteq> i \<Longrightarrow> r \<in> set (update_where (\<lambda>r. key r = i \<and> ver r = v) bump t)"
  by (auto simp: set_update_where)

end

end
