(* ===== verification/Wire.thy ===== *)
theory Wire
imports Prelude
begin

text \<open>
  Values as the service writes and reads them on the wire and in JSON columns: JSON
  itself, UUIDs in their canonical text form (str(uuid) and uuid.UUID(text)) and UTC
  instants in the one format the service emits, "%Y-%m-%dT%H:%M:%S.%fZ". The calendar
  conversion is the proleptic Gregorian one of Python's datetime module, and the format
  writes four digits for a year from 1000 on. The round trip at the end says that a UUID
  stored as text is read back unchanged.
\<close>

section \<open>JSON\<close>

datatype json =
    JNull
  | JBool bool
  | JInt int
  | JStr string
  | JArr "json list"
  | JObj "(string \<times> json) list"

text \<open>dict.get on a JSON object.\<close>

fun json_get :: "json \<Rightarrow> string \<Rightarrow> json option" where
  "json_get (JObj kvs) k = map_of kvs k"
| "json_get _ k = None"

fun json_str :: "json option \<Rightarrow> string option" where
  "json_str (Some (JStr s)) = Some s"
| "json_str _ = None"

section \<open>Digits\<close>

fun digits :: "nat \<Rightarrow> nat \<Rightarrow> nat \<Rightarrow> nat list" where
  "digits b 0 n = []"
| "digits b (Suc k) n = digits b k (n div b) @ [n mod b]"

definition undigits :: "nat \<Rightarrow> nat list \<Rightarrow> nat" where
  "undigits b ds = foldl (\<lambda>a d. a * b + d) 0 ds"

lemma length_digits [simp]: "length (digits b k n) = k"
  by (induction k arbitrary: n) simp_all

lemma digits_bound: "0 < b \<Longrightarrow> d \<in> set (digits b k n) \<Longrightarrow> d < b"
  by (induction k arbitrary: n) auto

lemma undigits_snoc: "undigits b (ds @ [d]) = undigits b ds * b + d"
  by (simp add: undigits_def)

lemma undigits_digits: "undigits b (digits b k n) = n mod b ^ k"
proof (induction k arbitrary: n)
  case 0
  then show ?case by (simp add: undigits_def)
next
  case (Suc k)
  have "undigits b (digits b (Suc k) n) = (n div b mod b ^ k) * b + n mod b"
    by (simp add: undigits_snoc Suc)
  also have "\<dots> = n mod (b * b ^ k)"
    by (simp add: mod_mult2_eq mult.commute)
  finally show ?case by simp
qed

text \<open>Digit characters, lower case as Python prints them; both cases are read.\<close>

definition hexchars :: string where "hexchars = ''0123456789abcdef''"

definition hexdigit :: "nat \<Rightarrow> char" where "hexdigit n = hexchars ! n"

definition hexval :: "char \<Rightarrow> nat option" where
  "hexval c =
     (let n = of_char c :: nat in
      if 48 \<le> n \<and> n \<le> 57 then Some (n - 48)
      else if 97 \<le> n \<and> n \<le> 102 then Some (n - 87)
      else if 65 \<le> n \<and> n \<le> 70 then Some (n - 55)
      else None)"

lemma hexval_table: "\<forall>n \<in> set [0..<16]. hexval (hexdigit n) = Some n"
  by code_simp

lemma hexval_hexdigit: "n < 16 \<Longrightarrow> hexval (hexdigit n) = Some n"
  using hexval_table by simp

section \<open>UUID text\<close>

definition uuid_hex :: "uuid \<Rightarrow> string" where
  "uuid_hex u = map hexdigit (digits 16 32 (unat u))"

text \<open>str(uuid): the 32 digits in groups of 8, 4, 4, 4 and 12.\<close>

definition uuid_str :: "uuid \<Rightarrow> string" where
  "uuid_str u =
     (let h = uuid_hex u in
      take 8 h @ ''-'' @ take 4 (drop 8 h) @ ''-'' @ take 4 (drop 12 h) @ ''-''
        @ take 4 (drop 16 h) @ ''-'' @ drop 20 h)"

text \<open>
  uuid.UUID(hex): remove every "urn:" and "uuid:", strip braces, remove hyphens, require
  32 characters, and read int(hex, 16), which admits surrounding whitespace, a sign, a 0x
  prefix and single underscores between digits; the value must fit 128 bits.
\<close>

fun remove_all :: "string \<Rightarrow> string \<Rightarrow> string" where
  "remove_all pat [] = []"
| "remove_all pat (c # s) =
     (if pat \<noteq> [] \<and> prefix pat (c # s) then remove_all pat (drop (length pat - 1) s)
      else c # remove_all pat s)"

definition strip_chars :: "(char \<Rightarrow> bool) \<Rightarrow> string \<Rightarrow> string" where
  "strip_chars P s = rev (dropWhile P (rev (dropWhile P s)))"

definition py_space :: "char \<Rightarrow> bool" where
  "py_space c =
     (let n = of_char c :: nat in
      9 \<le> n \<and> n \<le> 13 \<or> 28 \<le> n \<and> n \<le> 32 \<or> n = 133 \<or> n = 160)"

definition py_strip :: "string \<Rightarrow> string" where
  "py_strip s = strip_chars py_space s"

text \<open>Digits with single underscores between them; the flag says an underscore may stand here.\<close>

fun scan_hex :: "bool \<Rightarrow> nat \<Rightarrow> string \<Rightarrow> nat option" where
  "scan_hex ok a [] = (if ok then Some a else None)"
| "scan_hex ok a (c # s) =
     (if c = CHR ''_'' then (if ok \<and> s \<noteq> [] then scan_hex False a s else None)
      else (case hexval c of None \<Rightarrow> None | Some d \<Rightarrow> scan_hex True (a * 16 + d) s))"

definition scan_prefixed :: "string \<Rightarrow> nat option" where
  "scan_prefixed s =
     (if prefix ''0x'' s \<or> prefix ''0X'' s
      then (let r = drop 2 s in
            if r = [] then None
            else if hd r = CHR ''_'' then scan_hex False 0 (tl r) else scan_hex False 0 r)
      else scan_hex False 0 s)"

definition int16 :: "string \<Rightarrow> int option" where
  "int16 s0 =
     (let s = py_strip s0 in
      case s of
        [] \<Rightarrow> None
      | c # r \<Rightarrow>
          if c = CHR ''-'' then map_option (\<lambda>n. - int n) (scan_prefixed r)
          else if c = CHR ''+'' then map_option int (scan_prefixed r)
          else map_option int (scan_prefixed s))"

definition parse_uuid :: "string \<Rightarrow> uuid option" where
  "parse_uuid s0 =
     (let s1 = remove_all ''uuid:'' (remove_all ''urn:'' s0);
          s2 = filter (\<lambda>c. c \<noteq> CHR ''-'') (strip_chars (\<lambda>c. c = CHR ''{'' \<or> c = CHR ''}'') s1)
      in if length s2 \<noteq> 32 then None
         else (case int16 s2 of
                 None \<Rightarrow> None
               | Some n \<Rightarrow> if 0 \<le> n \<and> n < 2 ^ 128 then Some (word_of_int n) else None))"

text \<open>uuid.version: None unless the variant is RFC 4122; then the version nibble.\<close>

definition uuid_version :: "uuid \<Rightarrow> int option" where
  "uuid_version u =
     (let n = uint u in
      if (n div 2 ^ 62) mod 4 = 2 then Some ((n div 2 ^ 76) mod 16) else None)"

section \<open>The calendar\<close>

definition is_leap :: "int \<Rightarrow> bool" where
  "is_leap y = (y mod 4 = 0 \<and> (y mod 100 \<noteq> 0 \<or> y mod 400 = 0))"

definition days_before_year :: "int \<Rightarrow> int" where
  "days_before_year y = (let y' = y - 1 in y' * 365 + y' div 4 - y' div 100 + y' div 400)"

definition month_starts :: "int list" where
  "month_starts = [0, 0, 31, 59, 90, 120, 151, 181, 212, 243, 273, 304, 334]"

definition month_days :: "int list" where
  "month_days = [0, 31, 28, 31, 30, 31, 30, 31, 31, 30, 31, 30, 31]"

definition days_before_month :: "bool \<Rightarrow> int \<Rightarrow> int" where
  "days_before_month leap m = month_starts ! nat m + (if m > 2 \<and> leap then 1 else 0)"

definition ymd2ord :: "int \<Rightarrow> int \<Rightarrow> int \<Rightarrow> int" where
  "ymd2ord y m d = days_before_year y + days_before_month (is_leap y) m + d"

text \<open>Month and day from the day of the year, counted from 0.\<close>

definition month_day :: "bool \<Rightarrow> int \<Rightarrow> int \<times> int" where
  "month_day leap n =
     (let m = (n + 50) div 32;
          p = days_before_month leap m
      in if p > n
         then (m - 1, n - (p - (month_days ! nat (m - 1) + (if m - 1 = 2 \<and> leap then 1 else 0))) + 1)
         else (m, n - p + 1))"

definition ord2ymd :: "int \<Rightarrow> int \<times> int \<times> int" where
  "ord2ymd n0 =
     (let n = n0 - 1;
          n400 = n div 146097; a = n mod 146097;
          n100 = a div 36524; b = a mod 36524;
          n4 = b div 1461; c = b mod 1461;
          n1 = c div 365; e = c mod 365;
          y = n400 * 400 + 1 + n100 * 100 + n4 * 4 + n1
      in if n1 = 4 \<or> n100 = 4 then (y - 1, 12, 31)
         else (case month_day (n1 = 3 \<and> (n4 \<noteq> 24 \<or> n100 = 3)) e of (m, d) \<Rightarrow> (y, m, d)))"

text \<open>The ordinal of 1970-01-01.\<close>

definition epoch_ord :: int where "epoch_ord = 719163"

section \<open>Instants as text\<close>

definition dec :: "nat \<Rightarrow> int \<Rightarrow> string" where
  "dec w n = map hexdigit (digits 10 w (nat n))"

definition format_rfc3339_utc :: "time \<Rightarrow> string" where
  "format_rfc3339_utc t =
     (let s = t div 1000000; us = t mod 1000000; dn = s div 86400; r = s mod 86400
      in case ord2ymd (dn + epoch_ord) of (y, m, d) \<Rightarrow>
        dec 4 y @ ''-'' @ dec 2 m @ ''-'' @ dec 2 d @ ''T'' @ dec 2 (r div 3600) @ '':''
          @ dec 2 (r div 60 mod 60) @ '':'' @ dec 2 (r mod 60) @ ''.'' @ dec 6 us @ ''Z'')"

definition decval :: "char \<Rightarrow> nat option" where
  "decval c = (case hexval c of None \<Rightarrow> None | Some d \<Rightarrow> if d < 10 then Some d else None)"

definition undec :: "string \<Rightarrow> int option" where
  "undec s =
     (if s \<noteq> [] \<and> (\<forall>c \<in> set s. decval c \<noteq> None)
      then Some (int (undigits 10 (map (\<lambda>c. the (decval c)) s))) else None)"

text \<open>
  datetime.fromisoformat on texts of that one format (27 characters); the date and time
  fields must be in range. Other formats of that function are not needed for the payloads
  the service writes.
\<close>

definition parse_rfc3339_utc :: "string \<Rightarrow> time option" where
  "parse_rfc3339_utc s =
     (if length s = 27 \<and> s ! 4 = CHR ''-'' \<and> s ! 7 = CHR ''-'' \<and> s ! 10 = CHR ''T''
         \<and> s ! 13 = CHR '':'' \<and> s ! 16 = CHR '':'' \<and> s ! 19 = CHR ''.'' \<and> s ! 26 = CHR ''Z''
      then (case (undec (take 4 s), undec (take 2 (drop 5 s)), undec (take 2 (drop 8 s)),
                  undec (take 2 (drop 11 s)), undec (take 2 (drop 14 s)),
                  undec (take 2 (drop 17 s)), undec (take 6 (drop 20 s))) of
              (Some y, Some m, Some d, Some hh, Some mi, Some ss, Some us) \<Rightarrow>
                if 1 \<le> y \<and> 1 \<le> m \<and> m \<le> 12 \<and> 1 \<le> d
                   \<and> d \<le> month_days ! nat m + (if m = 2 \<and> is_leap y then 1 else 0)
                   \<and> hh < 24 \<and> mi < 60 \<and> ss < 60
                then Some ((((ymd2ord y m d - epoch_ord) * 24 + hh) * 60 + mi) * 60 * 1000000
                           + ss * 1000000 + us)
                else None
            | _ \<Rightarrow> None)
      else None)"

section \<open>Round trip of UUIDs\<close>

definition is_hexchar :: "char \<Rightarrow> bool" where
  "is_hexchar c = (c \<in> set hexchars)"

lemma hexchar_table:
  "\<forall>c \<in> set hexchars. \<not> py_space c \<and> c \<noteq> CHR ''-'' \<and> c \<noteq> CHR ''_'' \<and> c \<noteq> CHR ''x'' \<and> c \<noteq> CHR ''X''
     \<and> c \<noteq> CHR ''u'' \<and> c \<noteq> CHR ''{'' \<and> c \<noteq> CHR ''}'' \<and> c \<noteq> CHR ''+''"
  by code_simp

lemma hexdigit_hexchar: "n < 16 \<Longrightarrow> hexdigit n \<in> set hexchars"
  unfolding hexdigit_def by (rule nth_mem) (simp add: hexchars_def)

lemma set_uuid_hex: "set (uuid_hex u) \<subseteq> set hexchars"
  using digits_bound [of 16 _ 32 "unat u"] by (auto simp: uuid_hex_def intro: hexdigit_hexchar)

lemma length_uuid_hex [simp]: "length (uuid_hex u) = 32"
  by (simp add: uuid_hex_def)

lemma remove_all_absent: "pat \<noteq> [] \<Longrightarrow> hd pat \<notin> set s \<Longrightarrow> remove_all pat s = s"
  by (induction s) (auto simp: neq_Nil_conv)

lemma strip_chars_absent:
  assumes "\<forall>c \<in> set s. \<not> P c"
  shows "strip_chars P s = s"
proof -
  have "dropWhile P s = s" "dropWhile P (rev s) = rev s"
    using assms by (simp_all add: dropWhile_eq_self_iff last_rev hd_in_set)
      (metis hd_in_set list.set_sel(1) set_rev rev_is_Nil_conv)+
  then show ?thesis by (simp add: strip_chars_def)
qed

lemma set_uuid_str: "set (uuid_str u) \<subseteq> set hexchars \<union> {CHR ''-''}"
  using set_uuid_hex [of u] by (auto simp: uuid_str_def Let_def dest!: in_set_takeD in_set_dropD)

lemma filter_uuid_str: "filter (\<lambda>c. c \<noteq> CHR ''-'') (uuid_str u) = uuid_hex u"
proof -
  let ?h = "uuid_hex u"
  have keep: "filter (\<lambda>c. c \<noteq> CHR ''-'') xs = xs" if "set xs \<subseteq> set ?h" for xs
    using that set_uuid_hex [of u] hexchar_table by (auto simp: filter_id_conv)
  have parts: "take 8 ?h @ take 4 (drop 8 ?h) @ take 4 (drop 12 ?h) @ take 4 (drop 16 ?h)
      @ drop 20 ?h = ?h"
  proof -
    have split: "take n (drop k ?h) @ drop (k + n) ?h = drop k ?h" for n k
      by (metis add.commute append_take_drop_id drop_drop)
    show ?thesis
      using split [of 4 8] split [of 4 12] split [of 4 16] append_take_drop_id [of 8 ?h] by simp
  qed
  have "set (take n (drop k ?h)) \<subseteq> set ?h" "set (take n ?h) \<subseteq> set ?h" "set (drop k ?h) \<subseteq> set ?h" for n k
    by (auto dest: in_set_takeD in_set_dropD)
  then show ?thesis using keep parts by (simp add: uuid_str_def Let_def)
qed

lemma scan_hex_digits:
  assumes "\<forall>d \<in> set ds. d < 16"
  shows "scan_hex ok a (map hexdigit ds)
    = (if ds = [] then (if ok then Some a else None) else Some (foldl (\<lambda>a d. a * 16 + d) a ds))"
  using assms
proof (induction ds arbitrary: ok a)
  case Nil
  then show ?case by simp
next
  case (Cons d ds)
  then have "hexdigit d \<noteq> CHR ''_''" "hexval (hexdigit d) = Some d"
    using hexdigit_hexchar [of d] hexchar_table by (auto simp: hexval_hexdigit)
  with Cons show ?case by simp
qed

lemma not_prefix_absent: "c \<notin> set s \<Longrightarrow> c \<in> set p \<Longrightarrow> \<not> prefix p s"
  by (auto simp: prefix_def)

lemma int16_uuid_hex: "int16 (uuid_hex u) = Some (uint u)"
proof -
  let ?ds = "digits 16 32 (unat u)"
  have lt: "\<forall>d \<in> set ?ds. d < 16" by (simp add: digits_bound)
  have hex: "\<forall>c \<in> set (uuid_hex u). c \<in> set hexchars" using set_uuid_hex by blast
  then have strip: "py_strip (uuid_hex u) = uuid_hex u"
    using hexchar_table by (auto simp: py_strip_def intro!: strip_chars_absent)
  obtain c r where cr: "uuid_hex u = c # r"
    by (metis length_uuid_hex length_0_conv list.exhaust zero_neq_numeral)
  have c: "c \<noteq> CHR ''-''" "c \<noteq> CHR ''+''" using hex hexchar_table cr by auto
  have "CHR ''x'' \<notin> set (uuid_hex u)" "CHR ''X'' \<notin> set (uuid_hex u)"
    using hex hexchar_table by blast+
  note absent = this
  have "\<not> prefix ''0x'' (uuid_hex u)" by (rule not_prefix_absent [OF absent(1)]) simp
  moreover have "\<not> prefix ''0X'' (uuid_hex u)" by (rule not_prefix_absent [OF absent(2)]) simp
  ultimately have "scan_prefixed (uuid_hex u) = scan_hex False 0 (uuid_hex u)"
    by (simp add: scan_prefixed_def)
  also have "\<dots> = Some (undigits 16 ?ds)"
  proof -
    have "?ds \<noteq> []" by (metis length_digits list.size(3) zero_neq_numeral)
    then show ?thesis unfolding uuid_hex_def undigits_def scan_hex_digits [OF lt] by (simp only: if_False)
  qed
  also have "undigits 16 ?ds = unat u"
  proof -
    have "unat u < 16 ^ 32" using unsigned_less [where w = u and 'a = nat] by simp
    then show ?thesis unfolding undigits_digits by (rule mod_less)
  qed
  finally have "scan_prefixed (uuid_hex u) = Some (unat u)" .
  with strip cr c show ?thesis by (simp add: int16_def)
qed

lemma parse_uuid_str: "parse_uuid (uuid_str u) = Some u"
proof -
  have absent: "CHR ''u'' \<notin> set (uuid_str u)" "\<forall>c \<in> set (uuid_str u). c \<noteq> CHR ''{'' \<and> c \<noteq> CHR ''}''"
    using set_uuid_str [of u] hexchar_table by auto
  have "remove_all ''uuid:'' (remove_all ''urn:'' (uuid_str u)) = uuid_str u"
    using absent by (simp add: remove_all_absent)
  moreover have "strip_chars (\<lambda>c. c = CHR ''{'' \<or> c = CHR ''}'') (uuid_str u) = uuid_str u"
    using absent by (intro strip_chars_absent) auto
  moreover have "uint u < 2 ^ 128" using unsigned_less [where w = u and 'a = int] by simp
  ultimately show ?thesis
    by (simp add: parse_uuid_def Let_def filter_uuid_str int16_uuid_hex)
qed

end
