(* ===== verification/Schema.thy ===== *)
theory Schema
imports Wire
begin

text \<open>
  The PostgreSQL schema of the service, as app/*/models.py and the Alembic revisions
  declare it: one record per table row, CHECK constraints as row predicates, UNIQUE and
  EXCLUDE constraints as table predicates, the trigger on bookings, and the INSERT and
  UPDATE statements, which raise IntegrityError with the SQLSTATE and the constraint name.
  A nullable column is an option; a comparison with NULL selects no row. The database
  record also holds what a statement may read from outside: the database clock, the
  random sources and the start of the current transaction.
\<close>

section \<open>Rows\<close>

datatype role = Member | Admin

record user =
  u_id :: uuid
  u_email :: string
  u_password_hash :: string
  u_display_name :: string
  u_role :: role
  u_enabled :: bool
  u_version :: int
  u_created_at :: time
  u_updated_at :: time

record invitation =
  i_id :: uuid
  i_email :: string
  i_token_hash :: string
  i_role :: role
  i_created_by :: "uuid option"
  i_created_at :: time
  i_expires_at :: time
  i_consumed_at :: "time option"

record refresh_token =
  t_id :: uuid
  t_user_id :: uuid
  t_token_hash :: string
  t_family_id :: uuid
  t_parent_id :: "uuid option"
  t_created_at :: time
  t_expires_at :: time
  t_family_expires_at :: time
  t_used_at :: "time option"
  t_revoked_at :: "time option"

record resource =
  r_id :: uuid
  r_name :: string
  r_description :: string
  r_location :: string
  r_active :: bool
  r_version :: int
  r_created_at :: time
  r_updated_at :: time

text \<open>
  A tstzrange with bounds [): empty when its upper bound does not exceed its lower one.
  The operator && on two ranges: they have an instant in common.
\<close>

record trange =
  lower :: time
  upper :: time

definition isempty :: "trange \<Rightarrow> bool" where "isempty r = (upper r \<le> lower r)"

definition overlaps :: "trange \<Rightarrow> trange \<Rightarrow> bool" where
  "overlaps r s = (\<not> isempty r \<and> \<not> isempty s \<and> lower r < upper s \<and> lower s < upper r)"

datatype booking_kind = Reservation | Blackout

datatype booking_status = BPending | BConfirmed | BOffered | BCancelled | BExpired

record booking =
  b_id :: uuid
  b_resource_id :: uuid
  b_user_id :: "uuid option"
  b_created_by :: "uuid option"
  b_kind :: booking_kind
  b_range :: trange
  b_status :: booking_status
  b_expires_at :: "time option"
  b_cancellation_reason :: "string option"
  b_version :: int
  b_created_at :: time
  b_updated_at :: time

datatype wait_status = WWaiting | WOffered | WAccepted | WCancelled | WExpired

record wait_entry =
  w_id :: uuid
  w_user_id :: uuid
  w_resource_id :: uuid
  w_range :: trange
  w_status :: wait_status
  w_offered_booking_id :: "uuid option"
  w_version :: int
  w_created_at :: time
  w_updated_at :: time

record idem_key =
  k_user_id :: uuid
  k_key :: uuid
  k_request_hash :: string
  k_response_status :: "int option"
  k_response_body :: "json option"
  k_response_headers :: "(string \<times> string) list option"
  k_created_at :: time
  k_expires_at :: time

datatype event_type = EBookingConfirmed | EBookingCancelled | EWaitlistOffered | EHoldExpired

datatype outbox_status = OPending | OProcessing | ODelivered | ODead

record outbox_row =
  o_id :: uuid
  o_event_type :: event_type
  o_aggregate_id :: uuid
  o_aggregate_version :: int
  o_payload :: json
  o_status :: outbox_status
  o_attempts :: int
  o_occurred_at :: time
  o_available_at :: time
  o_lease_until :: "time option"
  o_lease_token :: "uuid option"
  o_delivered_at :: "time option"
  o_last_error :: "string option"

datatype delivery_state = DPending | DSent | DSkipped

record delivery =
  d_id :: uuid
  d_event_id :: uuid
  d_recipient_id :: uuid
  d_channel :: string
  d_state :: delivery_state
  d_provider_message_id :: "string option"
  d_sent_at :: "time option"

record audit_row =
  a_id :: uuid
  a_actor_id :: "uuid option"
  a_action :: string
  a_target_type :: string
  a_target_id :: "uuid option"
  a_request_id :: uuid
  a_details :: json
  a_created_at :: time

record feedback_row =
  f_id :: uuid
  f_user_id :: uuid
  f_rating :: int
  f_task_completed :: bool
  f_difficulty :: string
  f_improvement :: string
  f_consent_version :: string
  f_created_at :: time

record rate_row =
  l_scope :: string
  l_identity_hash :: string
  l_window_start :: time
  l_count :: int

record heartbeat_row =
  h_seen_at :: time
  h_expiry_scan_at :: time

section \<open>The database\<close>

text \<open>
  worker_heartbeat has at most one row, named 'primary'. clock n is the n-th value that
  clock_timestamp() returns, uuid_src n the n-th UUID that uuid.uuid4() draws and
  urandom_src n the n-th token os.urandom yields after base64 encoding; ticks, drawn and
  urandomed count how many were taken. tx_now is now(), the start of the current
  transaction.
\<close>

record db =
  users :: "user list"
  invitations :: "invitation list"
  refresh_tokens :: "refresh_token list"
  resources :: "resource list"
  bookings :: "booking list"
  waitlist :: "wait_entry list"
  idem_keys :: "idem_key list"
  outbox :: "outbox_row list"
  deliveries :: "delivery list"
  audit_log :: "audit_row list"
  feedback :: "feedback_row list"
  rate_limits :: "rate_row list"
  heartbeat :: "heartbeat_row option"
  clock :: "nat \<Rightarrow> time"
  ticks :: nat
  uuid_src :: "nat \<Rightarrow> uuid"
  drawn :: nat
  urandom_src :: "nat \<Rightarrow> string"
  urandomed :: nat
  tx_now :: time

definition clock_timestamp :: "db \<Rightarrow> time \<times> db" where
  "clock_timestamp w = (clock w (ticks w), w\<lparr>ticks := Suc (ticks w)\<rparr>)"

definition uuid4 :: "db \<Rightarrow> uuid \<times> db" where
  "uuid4 w = (uuid_src w (drawn w), w\<lparr>drawn := Suc (drawn w)\<rparr>)"

definition urandom_token :: "db \<Rightarrow> string \<times> db" where
  "urandom_token w = (urandom_src w (urandomed w), w\<lparr>urandomed := Suc (urandomed w)\<rparr>)"

text \<open>
  transaction_dependency: the handler runs in one transaction that begins now; an
  exception rolls every statement of it back, so the database is as before.
\<close>

definition begin_tx :: "db \<Rightarrow> db" where
  "begin_tx w = w\<lparr>tx_now := clock w (ticks w), ticks := Suc (ticks w)\<rparr>"

definition in_transaction :: "(db \<Rightarrow> ('a \<times> db) result) \<Rightarrow> db \<Rightarrow> 'a result \<times> db" where
  "in_transaction f w =
     (case f (begin_tx w) of Inl e \<Rightarrow> (Inl e, w) | Inr (x, w') \<Rightarrow> (Inr x, w'))"

text \<open>An empty database whose clock reads t forever and whose UUIDs count up from 1.\<close>

definition empty_db :: "time \<Rightarrow> db" where
  "empty_db t =
     \<lparr>users = [], invitations = [], refresh_tokens = [], resources = [], bookings = [],
      waitlist = [], idem_keys = [], outbox = [], deliveries = [], audit_log = [], feedback = [],
      rate_limits = [], heartbeat = None, clock = (\<lambda>_. t), ticks = 0,
      uuid_src = (\<lambda>n. of_nat (Suc n)), drawn = 0, urandom_src = (\<lambda>_. []), urandomed = 0,
      tx_now = t\<rparr>"

section \<open>Constraints\<close>

definition check :: "bool \<Rightarrow> string \<Rightarrow> exn option" where
  "check ok name = (if ok then None else Some (IntegrityError ''23514'' name))"

fun first_some :: "'a option list \<Rightarrow> 'a option" where
  "first_some [] = None"
| "first_some (Some x # _) = Some x"
| "first_some (None # xs) = first_some xs"

lemma first_some_None: "first_some xs = None \<longleftrightarrow> (\<forall>x \<in> set xs. x = None)"
  by (induction xs rule: first_some.induct) auto

lemma check_None [simp]: "check ok name = None \<longleftrightarrow> ok"
  by (simp add: check_def)

subsection \<open>bookings\<close>

definition active_booking :: "booking \<Rightarrow> bool" where
  "active_booking b = (b_status b \<in> {BConfirmed, BOffered})"

definition booking_check :: "booking \<Rightarrow> exn option" where
  "booking_check b = first_some
     [check (case b_cancellation_reason b of None \<Rightarrow> True | Some s \<Rightarrow> length s \<le> 500)
        ''bookings_cancellation_reason_check'',
      check (b_kind b = Reservation \<and> b_user_id b \<noteq> None
             \<or> b_kind b = Blackout \<and> b_user_id b = None \<and> b_status b \<in> {BConfirmed, BCancelled})
        ''bookings_kind_user_status_check'',
      check (case b_expires_at b of
               Some t \<Rightarrow> b_status b = BOffered \<and> t \<le> lower (b_range b)
             | None \<Rightarrow> b_status b \<noteq> BOffered)
        ''bookings_offered_expiry_check'',
      check (\<not> isempty (b_range b)) ''bookings_time_range_check'',
      check (b_version b > 0) ''bookings_version_check'']"

text \<open>EXCLUDE USING gist (resource_id WITH =, time_range WITH &&) WHERE status is active.\<close>

definition booking_conflict :: "booking \<Rightarrow> booking \<Rightarrow> bool" where
  "booking_conflict b c =
     (active_booking b \<and> active_booking c \<and> b_resource_id b = b_resource_id c
      \<and> overlaps (b_range b) (b_range c))"

definition no_overlap :: "booking list \<Rightarrow> bool" where
  "no_overlap t = sorted_wrt (\<lambda>b c. \<not> booking_conflict b c) t"

text \<open>The trigger guard_booking_update, BEFORE UPDATE FOR EACH ROW.\<close>

definition booking_transition :: "booking_status \<Rightarrow> booking_status \<Rightarrow> bool" where
  "booking_transition old new =
     (old = BPending \<and> new \<in> {BConfirmed, BCancelled, BExpired}
      \<or> old = BOffered \<and> new \<in> {BConfirmed, BCancelled, BExpired}
      \<or> old = BConfirmed \<and> new = BCancelled)"

definition guard_booking_update :: "booking \<Rightarrow> booking \<Rightarrow> exn option" where
  "guard_booking_update old new =
     (if (b_resource_id new, b_user_id new, b_kind new, b_range new, b_created_by new)
         \<noteq> (b_resource_id old, b_user_id old, b_kind old, b_range old, b_created_by old)
      then Some (IntegrityError ''23514'' '''')
      else if b_status new \<noteq> b_status old \<and> \<not> booking_transition (b_status old) (b_status new)
      then Some (IntegrityError ''23514'' '''')
      else if b_version new \<noteq> b_version old + 1
      then Some (IntegrityError ''23514'' '''')
      else None)"

definition insert_booking :: "booking \<Rightarrow> db \<Rightarrow> db result" where
  "insert_booking b w =
     (case booking_check b of Some e \<Rightarrow> Inl e | None \<Rightarrow>
      if b_id b \<in> b_id ` set (bookings w) then Inl (IntegrityError ''23505'' ''bookings_pkey'')
      else if \<exists>c \<in> set (bookings w). booking_conflict b c
        then Inl (IntegrityError ''23P01'' ''bookings_no_overlap'')
      else if b_resource_id b \<notin> r_id ` set (resources w)
        then Inl (IntegrityError ''23503'' ''bookings_resource_id_fkey'')
      else if (case b_user_id b of None \<Rightarrow> False | Some u \<Rightarrow> u \<notin> u_id ` set (users w))
        then Inl (IntegrityError ''23503'' ''bookings_user_id_fkey'')
      else (case b_created_by b of
              None \<Rightarrow> Inl (IntegrityError ''23502'' '''')
            | Some u \<Rightarrow>
                if u \<notin> u_id ` set (users w)
                then Inl (IntegrityError ''23503'' ''bookings_created_by_fkey'')
                else Inr (w\<lparr>bookings := bookings w @ [b]\<rparr>)))"

text \<open>
  UPDATE bookings SET ... WHERE P, with its rowcount. Every updated row passes the trigger
  and the CHECK constraints; the exclusion constraint holds for the table after it.
\<close>

definition update_bookings ::
  "(booking \<Rightarrow> bool) \<Rightarrow> (booking \<Rightarrow> booking) \<Rightarrow> db \<Rightarrow> (nat \<times> db) result" where
  "update_bookings P f w =
     (case first_error (\<lambda>b. first_some [guard_booking_update b (f b), booking_check (f b)])
             (filter P (bookings w)) of
        Some e \<Rightarrow> Inl e
      | None \<Rightarrow>
          (let t = update_where P f (bookings w) in
           if no_overlap t then Inr (rowcount P (bookings w), w\<lparr>bookings := t\<rparr>)
           else Inl (IntegrityError ''23P01'' ''bookings_no_overlap'')))"

subsection \<open>waitlist_entries\<close>

definition active_entry :: "wait_entry \<Rightarrow> bool" where
  "active_entry e = (w_status e \<in> {WWaiting, WOffered})"

definition entry_check :: "wait_entry \<Rightarrow> exn option" where
  "entry_check e = first_some
     [check (w_status e \<notin> {WOffered, WAccepted} \<or> w_offered_booking_id e \<noteq> None)
        ''waitlist_entries_offered_booking_check'',
      check (\<not> isempty (w_range e)) ''waitlist_entries_time_range_check'',
      check (w_version e > 0) ''waitlist_entries_version_check'']"

text \<open>The unique partial index waitlist_active_unique_idx and the UNIQUE of offered_booking_id.\<close>

definition same_active_entry :: "wait_entry \<Rightarrow> wait_entry \<Rightarrow> bool" where
  "same_active_entry d e =
     (active_entry d \<and> active_entry e \<and> w_user_id d = w_user_id e
      \<and> w_resource_id d = w_resource_id e \<and> w_range d = w_range e)"

definition same_offer :: "wait_entry \<Rightarrow> wait_entry \<Rightarrow> bool" where
  "same_offer d e =
     (w_offered_booking_id d \<noteq> None \<and> w_offered_booking_id d = w_offered_booking_id e)"

definition entries_unique :: "wait_entry list \<Rightarrow> bool" where
  "entries_unique t = sorted_wrt (\<lambda>d e. \<not> same_active_entry d e \<and> \<not> same_offer d e) t"

definition offer_fk_ok :: "db \<Rightarrow> wait_entry \<Rightarrow> bool" where
  "offer_fk_ok w e =
     (case w_offered_booking_id e of None \<Rightarrow> True | Some b \<Rightarrow> b \<in> b_id ` set (bookings w))"

definition insert_entry :: "wait_entry \<Rightarrow> db \<Rightarrow> db result" where
  "insert_entry e w =
     (case entry_check e of Some x \<Rightarrow> Inl x | None \<Rightarrow>
      if w_id e \<in> w_id ` set (waitlist w)
        then Inl (IntegrityError ''23505'' ''waitlist_entries_pkey'')
      else if \<exists>d \<in> set (waitlist w). same_offer d e
        then Inl (IntegrityError ''23505'' ''waitlist_entries_offered_booking_id_key'')
      else if \<exists>d \<in> set (waitlist w). same_active_entry d e
        then Inl (IntegrityError ''23505'' ''waitlist_active_unique_idx'')
      else if w_user_id e \<notin> u_id ` set (users w)
        then Inl (IntegrityError ''23503'' ''waitlist_entries_user_id_fkey'')
      else if w_resource_id e \<notin> r_id ` set (resources w)
        then Inl (IntegrityError ''23503'' ''waitlist_entries_resource_id_fkey'')
      else if \<not> offer_fk_ok w e
        then Inl (IntegrityError ''23503'' ''waitlist_entries_offered_booking_id_fkey'')
      else Inr (w\<lparr>waitlist := waitlist w @ [e]\<rparr>))"

definition update_entries ::
  "(wait_entry \<Rightarrow> bool) \<Rightarrow> (wait_entry \<Rightarrow> wait_entry) \<Rightarrow> db \<Rightarrow> (nat \<times> db) result" where
  "update_entries P f w =
     (case first_error (\<lambda>e. entry_check (f e)) (filter P (waitlist w)) of
        Some x \<Rightarrow> Inl x
      | None \<Rightarrow>
          (let t = update_where P f (waitlist w) in
           if \<not> entries_unique t
             then Inl (IntegrityError ''23505'' ''waitlist_active_unique_idx'')
           else if \<exists>e \<in> set (filter P (waitlist w)). \<not> offer_fk_ok w (f e)
             then Inl (IntegrityError ''23503'' ''waitlist_entries_offered_booking_id_fkey'')
           else Inr (rowcount P (waitlist w), w\<lparr>waitlist := t\<rparr>)))"

subsection \<open>outbox\<close>

definition outbox_check :: "outbox_row \<Rightarrow> exn option" where
  "outbox_check r = first_some
     [check (o_attempts r \<ge> 0) ''outbox_attempts_check'',
      check (o_status r = OProcessing \<and> o_lease_until r \<noteq> None \<and> o_lease_token r \<noteq> None
             \<or> o_status r \<noteq> OProcessing \<and> o_lease_until r = None \<and> o_lease_token r = None)
        ''outbox_lease_check'',
      check (case o_payload r of JObj _ \<Rightarrow> True | _ \<Rightarrow> False) ''outbox_payload_check'']"

definition same_event :: "outbox_row \<Rightarrow> outbox_row \<Rightarrow> bool" where
  "same_event r s =
     (o_aggregate_id r = o_aggregate_id s \<and> o_aggregate_version r = o_aggregate_version s
      \<and> o_event_type r = o_event_type s)"

definition insert_outbox :: "outbox_row \<Rightarrow> db \<Rightarrow> db result" where
  "insert_outbox r w =
     (case outbox_check r of Some e \<Rightarrow> Inl e | None \<Rightarrow>
      if o_id r \<in> o_id ` set (outbox w) then Inl (IntegrityError ''23505'' ''outbox_pkey'')
      else if \<exists>s \<in> set (outbox w). same_event r s
        then Inl (IntegrityError ''23505'' ''outbox_aggregate_id_aggregate_version_event_type_key'')
      else if o_aggregate_id r \<notin> b_id ` set (bookings w)
        then Inl (IntegrityError ''23503'' ''outbox_aggregate_id_fkey'')
      else Inr (w\<lparr>outbox := outbox w @ [r]\<rparr>))"

text \<open>The updates of the outbox never set its identity columns, so only the CHECKs can fail.\<close>

definition update_outbox ::
  "(outbox_row \<Rightarrow> bool) \<Rightarrow> (outbox_row \<Rightarrow> outbox_row) \<Rightarrow> db \<Rightarrow> (nat \<times> db) result" where
  "update_outbox P f w =
     (case first_error (\<lambda>r. outbox_check (f r)) (filter P (outbox w)) of
        Some e \<Rightarrow> Inl e
      | None \<Rightarrow> Inr (rowcount P (outbox w), w\<lparr>outbox := update_where P f (outbox w)\<rparr>))"

end
