(* ===== verification/Windows.thy ===== *)
theory Windows
imports Schema
begin

text \<open>
  The window policies: validate_booking_window (app/bookings/service.py), the availability
  window (app/resources/service.py) and validate_blackout_window (app/admin/service.py),
  on Python datetimes with their UTC offset, the raises in the order of the code. Each
  policy is then characterised by the arithmetic of the instants alone.
\<close>

section \<open>Python datetimes\<close>

text \<open>
  A datetime is its wall-clock reading in microseconds, counted as if it were UTC, and its
  utcoffset(); tzinfo is None for a naive one. datetime covers the years 1 to 9999:
  arithmetic that leaves them raises OverflowError.
\<close>

record datetime =
  wall :: int
  utcoffset :: "int option"

definition min_instant :: time where "min_instant = (1 - epoch_ord) * 86400 * usec"

definition max_instant :: time where "max_instant = (3652059 - epoch_ord + 1) * 86400 * usec - 1"

definition in_calendar :: "int \<Rightarrow> bool" where
  "in_calendar t = (min_instant \<le> t \<and> t \<le> max_instant)"

definition dt_add :: "time \<Rightarrow> int \<Rightarrow> time result" where
  "dt_add t d = (if in_calendar (t + d) then Inr (t + d) else Inl OverflowError)"

text \<open>dt.astimezone(timezone.utc) of an aware datetime, as an instant.\<close>

definition astimezone_utc :: "int \<Rightarrow> int \<Rightarrow> time result" where
  "astimezone_utc w off = dt_add w (- off)"

text \<open>An instant as the driver returns it: an aware datetime in UTC.\<close>

definition utc_datetime :: "time \<Rightarrow> datetime" where
  "utc_datetime t = \<lparr>wall = t, utcoffset = Some 0\<rparr>"

definition dt_microsecond :: "time \<Rightarrow> int" where "dt_microsecond t = t mod usec"

definition dt_second :: "time \<Rightarrow> int" where "dt_second t = t div usec mod 60"

definition dt_minute :: "time \<Rightarrow> int" where "dt_minute t = t div (60 * usec) mod 60"

text \<open>dt.replace(minute=m, second=0, microsecond=0) on a UTC datetime.\<close>

definition replace_minute :: "time \<Rightarrow> int \<Rightarrow> time" where
  "replace_minute t m = t div (3600 * usec) * (3600 * usec) + minutes m"

definition off_boundary :: "time \<Rightarrow> bool" where
  "off_boundary t = (dt_second t \<noteq> 0 \<or> dt_microsecond t \<noteq> 0 \<or> dt_minute t \<notin> {0, 30})"

text \<open>now if now.tzinfo is not None else now.replace(tzinfo=timezone.utc), then to UTC.\<close>

definition as_utc_now :: "datetime \<Rightarrow> time result" where
  "as_utc_now n = astimezone_utc (wall n) (case utcoffset n of None \<Rightarrow> 0 | Some off \<Rightarrow> off)"

section \<open>The booking window\<close>

definition validate_booking_window ::
  "datetime \<Rightarrow> datetime \<Rightarrow> datetime \<Rightarrow> (time \<times> time) result" where
  "validate_booking_window starts_at ends_at now =
     (case (utcoffset starts_at, utcoffset ends_at) of
        (Some so, Some eo) \<Rightarrow>
          bind_r (astimezone_utc (wall starts_at) so) (\<lambda>s.
          bind_r (astimezone_utc (wall ends_at) eo) (\<lambda>e.
          if off_boundary s then Inl (InvalidWindowError ''starts_at boundary'')
          else if off_boundary e then Inl (InvalidWindowError ''ends_at boundary'')
          else if e \<le> s then Inl (InvalidWindowError ''ends_at must be strictly greater'')
          else if e - s < minutes 30 \<or> e - s > hours 4
            then Inl (InvalidWindowError ''Booking duration'')
          else
          bind_r (as_utc_now now) (\<lambda>n.
          bind_r (dt_add n (minutes 15)) (\<lambda>soonest.
          if s < soonest then Inl (InvalidWindowError ''at least 15 minutes'')
          else
          bind_r (dt_add n (days 90)) (\<lambda>latest.
          if s > latest then Inl (InvalidWindowError ''at most 90 days'')
          else Inr (s, e))))))
      | _ \<Rightarrow> Inl (InvalidWindowError ''explicit timezone offset''))"

section \<open>The availability window\<close>

text \<open>
  A query parameter is a text, read by datetime.fromisoformat (a parameter of the model:
  None where it raises), or already a datetime.
\<close>

datatype timestamp_arg = TStr string | TDatetime datetime

definition parse_and_validate_timestamp ::
  "(string \<Rightarrow> datetime option) \<Rightarrow> timestamp_arg \<Rightarrow> time result" where
  "parse_and_validate_timestamp fromisoformat val =
     bind_r (case val of
               TStr s \<Rightarrow> (case fromisoformat s of
                            None \<Rightarrow> Inl (RInvalidWindowError ''Invalid timestamp format'')
                          | Some d \<Rightarrow> Inr d)
             | TDatetime d \<Rightarrow> Inr d)
       (\<lambda>dt. case utcoffset dt of
          None \<Rightarrow> Inl (RInvalidWindowError ''explicit timezone offset'')
        | Some off \<Rightarrow>
            bind_r (astimezone_utc (wall dt) off) (\<lambda>u.
            if off_boundary u then Inl (RInvalidWindowError ''Timestamp boundary'') else Inr u))"

definition validate_window ::
  "(string \<Rightarrow> datetime option) \<Rightarrow> timestamp_arg \<Rightarrow> timestamp_arg \<Rightarrow> (time \<times> time) result" where
  "validate_window fromisoformat starts_at ends_at =
     bind_r (parse_and_validate_timestamp fromisoformat starts_at) (\<lambda>s.
     bind_r (parse_and_validate_timestamp fromisoformat ends_at) (\<lambda>e.
     if e \<le> s then Inl (RInvalidWindowError ''ends_at must be strictly greater'')
     else if e - s > days 7 then Inl (RInvalidWindowError ''cannot exceed 7 days'')
     else Inr (s, e)))"

section \<open>The blackout window\<close>

definition validate_blackout_window ::
  "datetime \<Rightarrow> datetime \<Rightarrow> datetime \<Rightarrow> (time \<times> time) result" where
  "validate_blackout_window starts_at ends_at now =
     (case (utcoffset starts_at, utcoffset ends_at) of
        (Some so, Some eo) \<Rightarrow>
          bind_r (astimezone_utc (wall starts_at) so) (\<lambda>s.
          bind_r (astimezone_utc (wall ends_at) eo) (\<lambda>e.
          if off_boundary s then Inl (InvalidWindowError ''starts_at boundary'')
          else if off_boundary e then Inl (InvalidWindowError ''ends_at boundary'')
          else if e \<le> s then Inl (InvalidWindowError ''ends_at must be strictly greater'')
          else if e - s < minutes 30 \<or> e - s > days 30
            then Inl (InvalidWindowError ''Blackout duration'')
          else
          bind_r (as_utc_now now) (\<lambda>n.
          if e \<le> n then Inl (InvalidWindowError ''ends_at must be in the future'')
          else if s < replace_minute n (if dt_minute n < 30 then 0 else 30)
            then Inl (InvalidWindowError ''before current 30-minute window'')
          else Inr (s, e))))
      | _ \<Rightarrow> Inl (InvalidWindowError ''explicit timezone offset''))"

section \<open>The policies in arithmetic\<close>

lemma off_boundary_iff: "off_boundary t \<longleftrightarrow> t mod minutes 30 \<noteq> 0"
proof -
  have m: "t mod 60000000 = 1000000 * (t div 1000000 mod 60) + t mod 1000000"
    using zmod_zmult2_eq [of 60 t 1000000] by simp
  have h: "t mod 1800000000 = 60000000 * (t div 60000000 mod 30) + t mod 60000000"
    using zmod_zmult2_eq [of 30 t 60000000] by simp
  have half: "x mod 60 \<in> {0, 30} \<longleftrightarrow> x mod 30 = 0" for x :: int
  proof -
    have "x mod 60 = 30 * (x div 30 mod 2) + x mod 30"
      using zmod_zmult2_eq [of 2 x 30] by simp
    moreover have "0 \<le> x mod 30" "x mod 30 < 30" by simp_all
    ultimately show ?thesis by (cases "x div 30 mod 2 = 0") auto
  qed
  have pos: "0 \<le> t div 60000000 mod 30" "0 \<le> t mod 60000000" "0 \<le> t div 1000000 mod 60"
      "0 \<le> t mod 1000000"
    by simp_all
  have "60000000 * a + (1000000 * b + c) = 0 \<longleftrightarrow> a = 0 \<and> b = 0 \<and> c = 0"
    if "0 \<le> a" "0 \<le> b" "0 \<le> c" for a b c :: int
    using that by (simp add: add_nonneg_eq_0_iff)
  from this [OF pos(1,3,4)] have "t mod 1800000000 = 0 \<longleftrightarrow>
      t div 60000000 mod 30 = 0 \<and> t div 1000000 mod 60 = 0 \<and> t mod 1000000 = 0"
    unfolding h m .
  then show ?thesis
    unfolding off_boundary_def dt_second_def dt_microsecond_def dt_minute_def minutes_def usec_def
    using half [of "t div 60000000"] by auto
qed

lemma aligned_diff:
  assumes "\<not> off_boundary s" "\<not> off_boundary e" "s < e"
  shows "minutes 30 \<le> e - s"
proof -
  have "(e - s) mod minutes 30 = 0"
    using assms mod_diff_eq [of e "minutes 30" s] by (simp add: off_boundary_iff)
  moreover have "0 < e - s" using assms by simp
  ultimately show ?thesis by (metis leI mod_pos_pos_trivial order_less_imp_le order_less_irrefl)
qed

lemma current_half_hour:
  "replace_minute n (if dt_minute n < 30 then 0 else 30) = n - n mod minutes 30"
proof -
  define p where "p = n div 1800000000"
  define q where "q = n div 60000000"
  have p: "p = q div 30" and hour: "n div 3600000000 = p div 2"
    using zdiv_zmult2_eq [of 30 n 60000000] zdiv_zmult2_eq [of 2 n 1800000000]
    by (simp_all add: p_def q_def)
  have "q mod 60 = 30 * (p mod 2) + q mod 30"
    using zmod_zmult2_eq [of 2 q 30] by (simp add: p)
  then have m: "q mod 60 < 30 \<longleftrightarrow> p mod 2 = 0"
    using pos_mod_bound [of 30 q] pos_mod_sign [of 30 q] by (cases "p mod 2 = 0") auto
  have "(p div 2) * 3600000000 + (if p mod 2 = 0 then 0 else 1800000000) = p * 1800000000"
  proof (cases "p mod 2 = 0")
    case True
    then have "p = p div 2 * 2" by presburger
    then have "p div 2 * 3600000000 = p * 1800000000" by linarith
    with True show ?thesis by simp
  next
    case False
    then have "p = p div 2 * 2 + 1" by presburger
    then have "p div 2 * 3600000000 + 1800000000 = p * 1800000000" by linarith
    with False show ?thesis by simp
  qed
  moreover have "n - n mod 1800000000 = p * 1800000000"
    by (simp add: p_def minus_mod_eq_div_mult)
  ultimately have "n div 3600000000 * 3600000000
      + (if n div 60000000 mod 60 < 30 then 0 else 1800000000) = n - n mod 1800000000"
    by (simp add: hour m flip: q_def)
  then show ?thesis
    by (auto simp: replace_minute_def dt_minute_def minutes_def usec_def)
qed

lemma dt_add_Inr [simp]: "dt_add t d = Inr u \<longleftrightarrow> in_calendar u \<and> u = t + d"
  by (auto simp: dt_add_def)

lemma astimezone_Inr [simp]:
  "astimezone_utc w off = Inr u \<longleftrightarrow> in_calendar u \<and> u = w - off"
  by (auto simp: astimezone_utc_def)

definition instant :: "datetime \<Rightarrow> time option" where
  "instant d = (case utcoffset d of None \<Rightarrow> None | Some off \<Rightarrow>
     if in_calendar (wall d - off) then Some (wall d - off) else None)"

lemma instant_Some:
  "instant d = Some t \<longleftrightarrow> (\<exists>off. utcoffset d = Some off \<and> t = wall d - off \<and> in_calendar t)"
  by (auto simp: instant_def split: option.splits)

lemma as_utc_now_utc [simp]: "as_utc_now (utc_datetime t) = Inr u \<longleftrightarrow> in_calendar t \<and> u = t"
  by (auto simp: as_utc_now_def utc_datetime_def)

lemma in_calendar_between: "in_calendar t \<Longrightarrow> in_calendar u \<Longrightarrow> t \<le> x \<Longrightarrow> x \<le> u \<Longrightarrow> in_calendar x"
  by (simp add: in_calendar_def)

text \<open>
  A booking window is accepted exactly when both ends carry an offset, name instants of
  the calendar on the half hour, lie 30 minutes (the least aligned distance) to 4 hours
  apart, and the start is between 15 minutes and 90 days from now; the result is the two
  instants in UTC, whatever offsets were used to write them.
\<close>

theorem validate_booking_window_iff:
  "validate_booking_window starts_at ends_at now = Inr (s, e) \<longleftrightarrow>
     instant starts_at = Some s \<and> instant ends_at = Some e \<and>
     s mod minutes 30 = 0 \<and> e mod minutes 30 = 0 \<and> s < e \<and> e - s \<le> hours 4 \<and>
     (\<exists>t. as_utc_now now = Inr t \<and> in_calendar (t + days 90) \<and>
          t + minutes 15 \<le> s \<and> s \<le> t + days 90)"
    (is "?L \<longleftrightarrow> ?R")
proof
  assume ?L
  then show ?R
    unfolding validate_booking_window_def
    by (auto simp: bind_r_Inr off_boundary_iff instant_Some split: option.splits if_splits)
next
  assume R: ?R
  then obtain t where t: "as_utc_now now = Inr t" "in_calendar (t + days 90)"
      "t + minutes 15 \<le> s" "s \<le> t + days 90" by blast
  have cal: "in_calendar t" using t(1) by (auto simp: as_utc_now_def)
  have "minutes 30 \<le> e - s" using R by (intro aligned_diff) (simp_all add: off_boundary_iff)
  moreover have "in_calendar (t + minutes 15)"
    using in_calendar_between [OF cal t(2)] by (simp add: minutes_def days_def usec_def)
  ultimately show ?L
    using R t unfolding validate_booking_window_def
    by (auto simp: bind_r_Inr off_boundary_iff instant_Some split: option.splits)
qed

text \<open>
  An availability window is accepted exactly when both arguments read as instants on the
  half hour and the window is nonempty and at most 7 days long.
\<close>

theorem validate_window_iff:
  "validate_window fromiso a b = Inr (s, e) \<longleftrightarrow>
     (\<exists>d d'. (a = TDatetime d \<or> (\<exists>x. a = TStr x \<and> fromiso x = Some d)) \<and>
             (b = TDatetime d' \<or> (\<exists>x. b = TStr x \<and> fromiso x = Some d')) \<and>
             instant d = Some s \<and> instant d' = Some e) \<and>
     s mod minutes 30 = 0 \<and> e mod minutes 30 = 0 \<and> s < e \<and> e - s \<le> days 7"
proof -
  have arg: "parse_and_validate_timestamp fromiso v = Inr u \<longleftrightarrow>
      (\<exists>d. (v = TDatetime d \<or> (\<exists>x. v = TStr x \<and> fromiso x = Some d)) \<and> instant d = Some u)
      \<and> u mod minutes 30 = 0" for v u
    unfolding parse_and_validate_timestamp_def
    by (auto simp: bind_r_Inr off_boundary_iff instant_Some
          split: timestamp_arg.splits option.splits if_splits)
  show ?thesis
    unfolding validate_window_def
    by (auto simp: bind_r_Inr arg mod_eq_0_iff_dvd split: if_splits)
qed

text \<open>
  A blackout window is accepted exactly when both ends are instants on the half hour, it
  lasts at most 30 days, ends in the future and starts no earlier than the half hour that
  is running now (which the code computes by replacing the minute field).
\<close>

theorem validate_blackout_window_iff:
  "validate_blackout_window starts_at ends_at now = Inr (s, e) \<longleftrightarrow>
     instant starts_at = Some s \<and> instant ends_at = Some e \<and>
     s mod minutes 30 = 0 \<and> e mod minutes 30 = 0 \<and> s < e \<and> e - s \<le> days 30 \<and>
     (\<exists>t. as_utc_now now = Inr t \<and> t < e \<and> t - t mod minutes 30 \<le> s)"
    (is "?L \<longleftrightarrow> ?R")
proof
  assume ?L
  then show ?R
    unfolding validate_blackout_window_def
    by (auto simp: bind_r_Inr off_boundary_iff instant_Some current_half_hour
          split: option.splits if_splits)
next
  assume R: ?R
  have "minutes 30 \<le> e - s" using R by (intro aligned_diff) (simp_all add: off_boundary_iff)
  then show ?L
    using R unfolding validate_blackout_window_def
    by (auto simp: bind_r_Inr off_boundary_iff instant_Some current_half_hour
          split: option.splits)
qed

text \<open>Windows the policies accept are nonempty ranges.\<close>

lemma booking_window_nonempty:
  "validate_booking_window a b n = Inr (s, e) \<Longrightarrow> \<not> isempty \<lparr>lower = s, upper = e\<rparr>"
  by (simp only: validate_booking_window_iff) (simp add: isempty_def)

end
