(* ===== verification/Text.thy ===== *)
theory Text
imports Windows
begin

text \<open>
  Python text operations the service uses: case, stripping, and the two regular-expression
  substitutions of sanitize_error_category (app/notifications/outbox.py). Texts are lists
  of the 256 characters of Latin-1; the character classes are Python's on that range.
\<close>

section \<open>Characters\<close>

definition code :: "char \<Rightarrow> nat" where "code c = of_char c"

text \<open>str.lower() on Latin-1.\<close>

definition lower_char :: "char \<Rightarrow> char" where
  "lower_char c =
     (let n = code c in
      if 65 \<le> n \<and> n \<le> 90 \<or> 192 \<le> n \<and> n \<le> 222 \<and> n \<noteq> 215 then char_of (n + 32) else c)"

definition py_lower :: "string \<Rightarrow> string" where "py_lower s = map lower_char s"

text \<open>The class [A-Za-z0-9._~+/-].\<close>

definition bearer_char :: "char \<Rightarrow> bool" where
  "bearer_char c =
     (let n = code c in
      65 \<le> n \<and> n \<le> 90 \<or> 97 \<le> n \<and> n \<le> 122 \<or> 48 \<le> n \<and> n \<le> 57 \<or> c \<in> set ''._~+/-'')"

section \<open>Redaction\<close>

text \<open>
  (?i)(password|passwd|pwd|secret|token|auth)\s*[:=]\s*\S+ at the head of a text: the
  keyword as written and the rest behind the match. No keyword is a prefix of another and
  the classes of neighbouring parts are disjoint, so matching never backtracks.
\<close>

definition secret_keywords :: "string list" where
  "secret_keywords = [''password'', ''passwd'', ''pwd'', ''secret'', ''token'', ''auth'']"

definition match_secret :: "string \<Rightarrow> (string \<times> string) option" where
  "match_secret s =
     (case filter (\<lambda>k. prefix k (py_lower s)) secret_keywords of
        [] \<Rightarrow> None
      | k # _ \<Rightarrow>
          (let r1 = dropWhile py_space (drop (length k) s) in
           if r1 \<noteq> [] \<and> (hd r1 = CHR '':'' \<or> hd r1 = CHR ''='') then
             (let r2 = dropWhile py_space (tl r1) in
              if r2 = [] then None
              else Some (take (length k) s, dropWhile (\<lambda>c. \<not> py_space c) r2))
           else None))"

lemma length_dropWhile_le: "length (dropWhile P xs) \<le> length xs"
  by (induction xs) auto

lemma match_secret_shorter: "match_secret s = Some (k, r) \<Longrightarrow> length r < length s"
proof -
  assume m: "match_secret s = Some (k, r)"
  then obtain kw ks where f: "filter (\<lambda>k. prefix k (py_lower s)) secret_keywords = kw # ks"
    by (cases "filter (\<lambda>k. prefix k (py_lower s)) secret_keywords") (simp_all add: match_secret_def)
  have kw: "r = dropWhile (\<lambda>c. \<not> py_space c)
        (dropWhile py_space (tl (dropWhile py_space (drop (length kw) s))))"
      "dropWhile py_space (drop (length kw) s) \<noteq> []"
    using m unfolding match_secret_def f Let_def
    by (auto split: if_splits simp del: dropWhile_eq_Nil_conv)
  let ?r1 = "dropWhile py_space (drop (length kw) s)"
  have "length r \<le> length (tl ?r1)"
    unfolding kw(1) by (rule le_trans [OF length_dropWhile_le length_dropWhile_le])
  also have "\<dots> < length ?r1" using kw(2) by simp
  also have "\<dots> \<le> length s" using length_dropWhile_le [of py_space "drop (length kw) s"] by simp
  finally show ?thesis .
qed

function sub_secret :: "string \<Rightarrow> string" where
  "sub_secret [] = []"
| "sub_secret (c # s) =
     (case match_secret (c # s) of
        Some (k, r) \<Rightarrow> k @ ''=[REDACTED]'' @ sub_secret r
      | None \<Rightarrow> c # sub_secret s)"
  by pat_completeness auto
termination
  by (relation "measure length") (auto dest: match_secret_shorter)

text \<open>(?i)bearer\s+[A-Za-z0-9._~+/-]+ at the head of a text: the rest behind the match.\<close>

definition match_bearer :: "string \<Rightarrow> string option" where
  "match_bearer s =
     (if prefix ''bearer'' (py_lower s) then
        (let r1 = drop 6 s; r2 = dropWhile py_space r1 in
         if r1 \<noteq> [] \<and> py_space (hd r1) \<and> r2 \<noteq> [] \<and> bearer_char (hd r2)
         then Some (dropWhile bearer_char r2) else None)
      else None)"

lemma match_bearer_shorter: "match_bearer s = Some r \<Longrightarrow> length r < length s"
proof -
  assume "match_bearer s = Some r"
  then have r: "r = dropWhile bearer_char (dropWhile py_space (drop 6 s))" "drop 6 s \<noteq> []"
    by (auto simp: match_bearer_def Let_def split: if_splits)
  have "length r \<le> length (drop 6 s)"
    unfolding r(1) by (rule le_trans [OF length_dropWhile_le length_dropWhile_le])
  then show ?thesis using r(2) by simp
qed

function sub_bearer :: "string \<Rightarrow> string" where
  "sub_bearer [] = []"
| "sub_bearer (c # s) =
     (case match_bearer (c # s) of
        Some r \<Rightarrow> ''Bearer [REDACTED]'' @ sub_bearer r
      | None \<Rightarrow> c # sub_bearer s)"
  by pat_completeness auto
termination
  by (relation "measure length") (auto dest: match_bearer_shorter)

definition clean_char :: "char \<Rightarrow> char" where
  "clean_char c = (if 32 \<le> code c \<or> code c = 10 \<or> code c = 9 then c else CHR '' '')"

definition sanitize_error_category :: "string \<Rightarrow> string" where
  "sanitize_error_category error =
     (if error = [] then []
      else py_strip (take 500 (map clean_char (sub_bearer (sub_secret error)))))"

section \<open>What sanitising guarantees\<close>

lemma set_strip_chars: "set (strip_chars P s) \<subseteq> set s"
  unfolding strip_chars_def by (auto dest!: set_dropWhileD)

lemma length_strip_chars: "length (strip_chars P s) \<le> length s"
proof -
  have "length (dropWhile P (rev (dropWhile P s))) \<le> length (dropWhile P s)"
    using length_dropWhile_le [of P "rev (dropWhile P s)"] by simp
  with length_dropWhile_le [of P s] show ?thesis by (simp add: strip_chars_def)
qed

lemma strip_chars_ends:
  assumes "strip_chars P s \<noteq> []"
  shows "\<not> P (hd (strip_chars P s))" "\<not> P (last (strip_chars P s))"
proof -
  let ?d = "dropWhile P s" and ?e = "dropWhile P (rev (dropWhile P s))"
  have e: "?e \<noteq> []" using assms by (simp add: strip_chars_def)
  then have d: "?d \<noteq> []" by (metis dropWhile.simps(1) rev.simps(1))
  have "\<not> P (hd ?e)" using e by (rule hd_dropWhile)
  then show "\<not> P (last (strip_chars P s))" using e by (simp add: strip_chars_def last_rev)
  have "last ?e = last (rev ?d)" using e by (metis dropWhile_eq_drop last_drop not_le drop_eq_Nil)
  then show "\<not> P (hd (strip_chars P s))"
    using e d hd_dropWhile [OF d] by (simp add: strip_chars_def hd_rev last_rev)
qed

lemma code_clean_char: "32 \<le> code (clean_char c) \<or> code (clean_char c) = 10 \<or> code (clean_char c) = 9"
  by (auto simp: clean_char_def code_def)

text \<open>
  Whatever error text comes in, the stored category has at most 500 characters, no
  control character but tab and newline, and no whitespace at either end.
\<close>

theorem sanitize_error_category_shape:
  "length (sanitize_error_category e) \<le> 500 \<and>
   set (sanitize_error_category e) \<subseteq> {c. 32 \<le> code c \<or> code c = 10 \<or> code c = 9} \<and>
   dropWhile py_space (sanitize_error_category e) = sanitize_error_category e \<and>
   dropWhile py_space (rev (sanitize_error_category e)) = rev (sanitize_error_category e)"
proof (cases "e = []")
  case True
  then show ?thesis by (simp add: sanitize_error_category_def)
next
  case False
  let ?m = "map clean_char (sub_bearer (sub_secret e))"
  let ?r = "strip_chars py_space (take 500 ?m)"
  have s: "sanitize_error_category e = ?r"
    using False by (simp add: sanitize_error_category_def py_strip_def)
  have "length ?r \<le> 500"
    using length_strip_chars [of py_space "take 500 ?m"] by simp
  moreover have "set ?r \<subseteq> set ?m"
    using set_strip_chars [of py_space "take 500 ?m"] set_take_subset [of 500 ?m] by blast
  then have "set ?r \<subseteq> {c. 32 \<le> code c \<or> code c = 10 \<or> code c = 9}"
    using code_clean_char by auto
  moreover have "dropWhile py_space ?r = ?r \<and> dropWhile py_space (rev ?r) = rev ?r"
    using strip_chars_ends [of py_space "take 500 ?m"]
    by (simp only: dropWhile_eq_self_iff hd_rev rev_is_Nil_conv) blast
  ultimately show ?thesis unfolding s by blast
qed

text \<open>
  A credential with a scheme word behind a keyword survives: the first substitution takes
  only the scheme word, and the second no longer finds it. So does a quoted JSON key.
\<close>

theorem sanitize_error_category_leaks:
  "sanitize_error_category ''X-Auth: Bearer s3cr3t'' = ''X-Auth=[REDACTED] s3cr3t''"
  "sanitize_error_category ''{\"password\": \"hunter2\"}'' = ''{\"password\": \"hunter2\"}''"
  by code_simp+

end
