(* ===== verification/Outbox.thy ===== *)
theory Outbox
imports Text
begin

text \<open>
  The transactional outbox (app/notifications/outbox.py): append_event, the lease
  operations of the dispatcher, backoff and recovery of stale leases. Each operation is one
  transaction. The locale fenced_leases is what the dispatcher relies on; it is interpreted
  on the operations here.
\<close>

section \<open>Appending an event\<close>

definition event_name :: "event_type \<Rightarrow> string" where
  "event_name t =
     (case t of EBookingConfirmed \<Rightarrow> ''booking_confirmed'' | EBookingCancelled \<Rightarrow> ''booking_cancelled''
      | EWaitlistOffered \<Rightarrow> ''waitlist_offered'' | EHoldExpired \<Rightarrow> ''hold_expired'')"

definition fmt_rfc3339_utc :: "time option \<Rightarrow> json" where
  "fmt_rfc3339_utc t = (case t of None \<Rightarrow> JNull | Some x \<Rightarrow> JStr (format_rfc3339_utc x))"

definition event_payload :: "booking \<Rightarrow> json" where
  "event_payload b = JObj
     [(''schema_version'', JInt 1),
      (''booking_id'', JStr (uuid_str (b_id b))),
      (''recipient_id'', case b_user_id b of None \<Rightarrow> JNull | Some u \<Rightarrow> JStr (uuid_str u)),
      (''resource_id'', JStr (uuid_str (b_resource_id b))),
      (''starts_at'', fmt_rfc3339_utc (Some (lower (b_range b)))),
      (''ends_at'', fmt_rfc3339_utc (Some (upper (b_range b)))),
      (''expires_at'', fmt_rfc3339_utc (b_expires_at b))]"

text \<open>The columns the code leaves out take their server defaults: attempts 0 and now().\<close>

definition append_event ::
  "event_type \<Rightarrow> booking \<Rightarrow> time option \<Rightarrow> db \<Rightarrow> (uuid \<times> db) result" where
  "append_event et b now w =
     (let (event_id, w1) = uuid4 w;
          at = (case now of None \<Rightarrow> tx_now w | Some t \<Rightarrow> t);
          event = \<lparr>o_id = event_id, o_event_type = et, o_aggregate_id = b_id b,
                   o_aggregate_version = b_version b, o_payload = event_payload b,
                   o_status = OPending, o_attempts = 0, o_occurred_at = at, o_available_at = at,
                   o_lease_until = None, o_lease_token = None, o_delivered_at = None,
                   o_last_error = None\<rparr>
      in bind_r (insert_outbox event w1) (\<lambda>w2. Inr (event_id, w2)))"

section \<open>Leases\<close>

record lease =
  l_event :: uuid
  l_token :: uuid
  l_type :: event_type
  l_payload :: json
  l_attempts :: int

definition outbox_order :: "outbox_row \<Rightarrow> time \<times> time \<times> uuid" where
  "outbox_order r = (o_available_at r, o_occurred_at r, o_id r)"

definition due :: "time \<Rightarrow> outbox_row \<Rightarrow> bool" where
  "due now r = (o_status r = OPending \<and> o_available_at r \<le> now)"

text \<open>
  SELECT ... FOR UPDATE SKIP LOCKED passes over the rows other dispatchers hold locked at
  that moment; locked says which.
\<close>

definition claim_batch ::
  "(outbox_row \<Rightarrow> bool) \<Rightarrow> time \<Rightarrow> db \<Rightarrow> (lease list \<times> db) result" where
  "claim_batch locked now w =
     (case order_limit outbox_order 1 0 (filter (\<lambda>r. due now r \<and> \<not> locked r) (outbox w)) of
        [] \<Rightarrow> Inr ([], w)
      | row # _ \<Rightarrow>
          (let (new_token, w1) = uuid4 w;
               new_attempts = o_attempts row + 1
           in bind_r (update_outbox (\<lambda>r. o_id r = o_id row \<and> o_status r = OPending)
                (\<lambda>r. r\<lparr>o_status := OProcessing, o_attempts := new_attempts,
                       o_lease_token := Some new_token,
                       o_lease_until := Some (now + seconds 60)\<rparr>) w1)
              (\<lambda>(_, w2). Inr ([\<lparr>l_event = o_id row, l_token = new_token,
                 l_type = o_event_type row, l_payload = o_payload row,
                 l_attempts = new_attempts\<rparr>], w2))))"

text \<open>The fence of every completion: the row is still processing under this lease's token.\<close>

definition owned :: "lease \<Rightarrow> outbox_row \<Rightarrow> bool" where
  "owned l r = (o_id r = l_event l \<and> o_lease_token r = Some (l_token l) \<and> o_status r = OProcessing)"

definition renew_lease :: "lease \<Rightarrow> time \<Rightarrow> db \<Rightarrow> (bool \<times> db) result" where
  "renew_lease l now w =
     bind_r (update_outbox (owned l) (\<lambda>r. r\<lparr>o_lease_until := Some (now + seconds 60)\<rparr>) w)
       (\<lambda>(n, w'). Inr (n = 1, w'))"

definition acknowledge :: "lease \<Rightarrow> time \<Rightarrow> db \<Rightarrow> (bool \<times> db) result" where
  "acknowledge l now w =
     bind_r (update_outbox (owned l)
       (\<lambda>r. r\<lparr>o_status := ODelivered, o_delivered_at := Some now, o_lease_token := None,
              o_lease_until := None\<rparr>) w)
       (\<lambda>(n, w'). Inr (n = 1, w'))"

definition compute_backoff_seconds :: "uuid \<Rightarrow> int \<Rightarrow> int" where
  "compute_backoff_seconds event_id attempt =
     (let safe_attempt = max 1 attempt;
          base = min 3600 (5 * 2 ^ nat (safe_attempt - 1));
          jitter = uint event_id mod 5
      in base + jitter)"

definition fail_lease :: "lease \<Rightarrow> string \<Rightarrow> time \<Rightarrow> db \<Rightarrow> (bool \<times> db) result" where
  "fail_lease l error_category now w =
     (let sanitized = sanitize_error_category error_category;
          dead = (l_attempts l \<ge> 8);
          new_available =
            (if dead then now else now + seconds (compute_backoff_seconds (l_event l) (l_attempts l)))
      in bind_r (update_outbox (owned l)
           (\<lambda>r. r\<lparr>o_status := (if dead then ODead else OPending), o_available_at := new_available,
                  o_lease_token := None, o_lease_until := None, o_last_error := Some sanitized\<rparr>) w)
         (\<lambda>(n, w'). Inr (n = 1, w')))"

definition stale :: "time \<Rightarrow> outbox_row \<Rightarrow> bool" where
  "stale now r =
     (o_status r = OProcessing \<and> (case o_lease_until r of None \<Rightarrow> False | Some t \<Rightarrow> t \<le> now))"

definition recover_stale_leases :: "time \<Rightarrow> db \<Rightarrow> (nat \<times> db) result" where
  "recover_stale_leases now w =
     bind_r (update_outbox (\<lambda>r. stale now r \<and> o_attempts r \<ge> 8)
       (\<lambda>r. r\<lparr>o_status := ODead, o_lease_token := None, o_lease_until := None\<rparr>) w) (\<lambda>(n, w1).
     bind_r (update_outbox (\<lambda>r. stale now r \<and> o_attempts r < 8)
       (\<lambda>r. r\<lparr>o_status := OPending, o_lease_token := None, o_lease_until := None,
              o_available_at := now\<rparr>) w1) (\<lambda>(m, w2).
     Inr (n + m, w2)))"

text \<open>The part of retry_event (app/admin/service.py) that puts a dead event back in the queue.\<close>

definition requeue_dead :: "uuid \<Rightarrow> time \<Rightarrow> db \<Rightarrow> (outbox_row \<times> db) result" where
  "requeue_dead event_id now w =
     bind_r (scalar_one_or_none (filter (\<lambda>r. o_id r = event_id) (outbox w))) (\<lambda>row.
     case row of
       None \<Rightarrow> Inl RNotFoundError
     | Some r \<Rightarrow>
         if o_status r \<noteq> ODead then Inl InvalidState
         else
           (let f = (\<lambda>r. r\<lparr>o_status := OPending, o_attempts := 0, o_available_at := now,
                       o_last_error := None, o_lease_token := None, o_lease_until := None\<rparr>)
            in bind_r (update_outbox (\<lambda>x. o_id x = event_id) f w) (\<lambda>(_, w').
               Inr (f r, w'))))"

section \<open>Rows the operations keep well formed\<close>

definition outbox_ok :: "outbox_row list \<Rightarrow> bool" where
  "outbox_ok t = (distinct (map o_id t) \<and> (\<forall>r \<in> set t. outbox_check r = None))"

lemma outbox_check_iff:
  "outbox_check r = None \<longleftrightarrow>
     0 \<le> o_attempts r \<and>
     ((o_status r = OProcessing) = (o_lease_until r \<noteq> None)) \<and>
     ((o_status r = OProcessing) = (o_lease_token r \<noteq> None)) \<and>
     (\<exists>kvs. o_payload r = JObj kvs)"
  by (auto simp: outbox_check_def first_some_None split: json.splits)

lemma outbox_okD: "outbox_ok t \<Longrightarrow> r \<in> set t \<Longrightarrow> outbox_check r = None"
  by (simp add: outbox_ok_def)

text \<open>An update of a well-formed outbox whose rows stay well formed goes through.\<close>

lemma update_outbox_runs:
  assumes "\<And>r. r \<in> set (outbox w) \<Longrightarrow> P r \<Longrightarrow> outbox_check (f r) = None"
  shows "update_outbox P f w
    = Inr (rowcount P (outbox w), w\<lparr>outbox := update_where P f (outbox w)\<rparr>)"
proof -
  have "first_error (\<lambda>r. outbox_check (f r)) (filter P (outbox w)) = None"
    using assms by (simp add: first_error_None)
  then show ?thesis by (simp add: update_outbox_def)
qed

lemma outbox_ok_update:
  assumes "outbox_ok t" "\<And>r. r \<in> set t \<Longrightarrow> P r \<Longrightarrow> outbox_check (f r) = None"
    and "\<And>r. r \<in> set t \<Longrightarrow> P r \<Longrightarrow> o_id (f r) = o_id r"
  shows "outbox_ok (update_where P f t)"
proof -
  have "map o_id (update_where P f t) = map o_id t"
    using assms(3) by (intro map_update_where) auto
  then show ?thesis using assms by (auto simp: outbox_ok_def set_update_where)
qed

text \<open>The fenced updates: what they do on a well-formed outbox, and their row count.\<close>

lemma owned_unique:
  assumes "outbox_ok t"
  shows "rowcount (owned l) t = (if \<exists>r \<in> set t. owned l r then 1 else 0)"
proof (cases "\<exists>r \<in> set t. owned l r")
  case True
  then obtain r where r: "r \<in> set t" "owned l r" by blast
  let ?Q = "\<lambda>r. o_lease_token r = Some (l_token l) \<and> o_status r = OProcessing"
  have "owned l = (\<lambda>x. o_id x = l_event l \<and> ?Q x)" by (auto simp: owned_def)
  moreover have "rowcount (\<lambda>x. o_id x = l_event l \<and> ?Q x) t = 1"
    using assms r by (intro rowcount_key_one [where P = ?Q]) (auto simp: outbox_ok_def owned_def)
  ultimately show ?thesis using True by simp
next
  case False
  then show ?thesis by (auto simp: rowcount_def filter_empty_conv)
qed

definition owns :: "lease \<Rightarrow> db \<Rightarrow> bool" where
  "owns l w = (\<exists>r \<in> set (outbox w). owned l r)"

lemma owned_update_runs:
  assumes "outbox_ok (outbox w)"
    and "\<And>r. outbox_check r = None \<Longrightarrow> owned l r \<Longrightarrow> outbox_check (f r) = None"
  shows "bind_r (update_outbox (owned l) f w) (\<lambda>(n, w'). Inr (n = 1, w'))
    = Inr (owns l w, w\<lparr>outbox := update_where (owned l) f (outbox w)\<rparr>)"
  using assms update_outbox_runs [of w "owned l" f] owned_unique [OF assms(1), of l]
  by (simp add: outbox_okD owns_def)

lemma renew_lease_eq:
  assumes "outbox_ok (outbox w)"
  shows "renew_lease l now w = Inr (owns l w, w\<lparr>outbox :=
    update_where (owned l) (\<lambda>r. r\<lparr>o_lease_until := Some (now + seconds 60)\<rparr>) (outbox w)\<rparr>)"
  unfolding renew_lease_def using assms
  by (intro owned_update_runs) (auto simp: outbox_check_iff owned_def)

lemma acknowledge_eq:
  assumes "outbox_ok (outbox w)"
  shows "acknowledge l now w = Inr (owns l w, w\<lparr>outbox :=
    update_where (owned l)
      (\<lambda>r. r\<lparr>o_status := ODelivered, o_delivered_at := Some now, o_lease_token := None,
             o_lease_until := None\<rparr>) (outbox w)\<rparr>)"
  unfolding acknowledge_def using assms
  by (intro owned_update_runs) (auto simp: outbox_check_iff owned_def)

lemma fail_lease_eq:
  assumes "outbox_ok (outbox w)"
  shows "fail_lease l c now w = Inr (owns l w, w\<lparr>outbox :=
    update_where (owned l)
      (\<lambda>r. r\<lparr>o_status := (if l_attempts l \<ge> 8 then ODead else OPending),
             o_available_at := (if l_attempts l \<ge> 8 then now
               else now + seconds (compute_backoff_seconds (l_event l) (l_attempts l))),
             o_lease_token := None, o_lease_until := None,
             o_last_error := Some (sanitize_error_category c)\<rparr>) (outbox w)\<rparr>)"
  unfolding fail_lease_def Let_def using assms
  by (intro owned_update_runs) (auto simp: outbox_check_iff owned_def)

lemma order_limit_1:
  "order_limit key 1 0 rows = [] \<longleftrightarrow> rows = []"
  "order_limit key 1 0 rows = r # rs \<Longrightarrow> r \<in> set rows \<and> rs = [] \<and> (\<forall>x \<in> set rows. key r \<le> key x)"
proof -
  show "order_limit key 1 0 rows = [] \<longleftrightarrow> rows = []"
    by (auto simp: order_limit_def take_Suc dest: arg_cong [where f = set])
  assume "order_limit key 1 0 rows = r # rs"
  then obtain ys where ys: "sort_key key rows = r # ys" and rs: "rs = []"
    by (cases "sort_key key rows") (auto simp: order_limit_def)
  have "sorted (map key (r # ys))" unfolding ys [symmetric] by simp
  moreover have "set (r # ys) = set rows" unfolding ys [symmetric] by simp
  ultimately show "r \<in> set rows \<and> rs = [] \<and> (\<forall>x \<in> set rows. key r \<le> key x)"
    using rs by auto
qed

definition take_lease :: "uuid \<Rightarrow> time \<Rightarrow> outbox_row \<Rightarrow> outbox_row" where
  "take_lease tok now r = r\<lparr>o_status := OProcessing, o_attempts := o_attempts r + 1,
     o_lease_token := Some tok, o_lease_until := Some (now + seconds 60)\<rparr>"

text \<open>A claim takes a least due row, and nothing when no unlocked row is due.\<close>

lemma claim_batch_cases:
  assumes ok: "outbox_ok (outbox w)"
  shows "(\<forall>r \<in> set (outbox w). \<not> (due now r \<and> \<not> lk r)) \<and> claim_batch lk now w = Inr ([], w)
    \<or> (\<exists>row \<in> set (outbox w). due now row \<and> \<not> lk row
        \<and> (\<forall>r \<in> set (outbox w). due now r \<longrightarrow> \<not> lk r \<longrightarrow> outbox_order row \<le> outbox_order r)
        \<and> claim_batch lk now w =
            Inr ([\<lparr>l_event = o_id row, l_token = uuid_src w (drawn w), l_type = o_event_type row,
                   l_payload = o_payload row, l_attempts = o_attempts row + 1\<rparr>],
                 w\<lparr>drawn := Suc (drawn w), outbox := update_where (\<lambda>r. o_id r = o_id row)
                     (take_lease (uuid_src w (drawn w)) now) (outbox w)\<rparr>))"
    (is "?none \<or> ?one")
proof (cases "order_limit outbox_order 1 0 (filter (\<lambda>r. due now r \<and> \<not> lk r) (outbox w))")
  case Nil
  then have "filter (\<lambda>r. due now r \<and> \<not> lk r) (outbox w) = []"
    by (simp only: order_limit_1(1))
  then show ?thesis using Nil by (simp add: claim_batch_def filter_empty_conv)
next
  case (Cons row rs)
  from order_limit_1(2) [OF this]
  have row: "row \<in> set (outbox w)" "due now row" "\<not> lk row" "rs = []"
    and least: "\<forall>r \<in> set (outbox w). due now r \<longrightarrow> \<not> lk r \<longrightarrow> outbox_order row \<le> outbox_order r"
    by auto
  let ?tok = "uuid_src w (drawn w)"
  let ?P = "\<lambda>r. o_id r = o_id row \<and> o_status r = OPending"
  let ?f = "\<lambda>r. r\<lparr>o_status := OProcessing, o_attempts := o_attempts row + 1,
                   o_lease_token := Some ?tok, o_lease_until := Some (now + seconds 60)\<rparr>"
  have only: "r = row" if "r \<in> set (outbox w)" "o_id r = o_id row" for r
    using ok that row(1) by (auto simp: outbox_ok_def intro: distinct_key_eq)
  have "update_where ?P ?f (outbox w)
      = update_where (\<lambda>r. o_id r = o_id row) (take_lease ?tok now) (outbox w)"
    unfolding update_where_def using only row(2) by (auto simp: take_lease_def due_def)
  moreover have "update_outbox ?P ?f (w\<lparr>drawn := Suc (drawn w)\<rparr>) = Inr (rowcount ?P (outbox w),
      w\<lparr>drawn := Suc (drawn w), outbox := update_where ?P ?f (outbox w)\<rparr>)"
    using only row(1) outbox_okD [OF ok row(1)]
    by (subst update_outbox_runs) (auto simp: outbox_check_iff)
  ultimately have "claim_batch lk now w = Inr ([\<lparr>l_event = o_id row, l_token = ?tok,
        l_type = o_event_type row, l_payload = o_payload row, l_attempts = o_attempts row + 1\<rparr>],
      w\<lparr>drawn := Suc (drawn w), outbox := update_where (\<lambda>r. o_id r = o_id row)
          (take_lease ?tok now) (outbox w)\<rparr>)"
    using Cons by (simp add: claim_batch_def uuid4_def)
  then show ?thesis using row least by blast
qed

definition recover_row :: "time \<Rightarrow> outbox_row \<Rightarrow> outbox_row" where
  "recover_row now r =
     (if \<not> stale now r then r
      else if o_attempts r \<ge> 8
        then r\<lparr>o_status := ODead, o_lease_token := None, o_lease_until := None\<rparr>
      else r\<lparr>o_status := OPending, o_lease_token := None, o_lease_until := None,
             o_available_at := now\<rparr>)"

text \<open>The two updates of recovery act together as one pass over the rows.\<close>

lemma recover_eq:
  assumes ok: "outbox_ok (outbox w)"
  shows "recover_stale_leases now w
    = Inr (rowcount (stale now) (outbox w), w\<lparr>outbox := map (recover_row now) (outbox w)\<rparr>)"
proof -
  let ?D = "\<lambda>r. stale now r \<and> o_attempts r \<ge> 8"
  let ?L = "\<lambda>r. stale now r \<and> o_attempts r < 8"
  let ?d = "\<lambda>r. r\<lparr>o_status := ODead, o_lease_token := None, o_lease_until := None\<rparr>"
  let ?l = "\<lambda>r. r\<lparr>o_status := OPending, o_lease_token := None, o_lease_until := None,
              o_available_at := now\<rparr>"
  let ?t = "update_where ?D ?d (outbox w)"
  have "update_outbox ?D ?d w = Inr (rowcount ?D (outbox w), w\<lparr>outbox := ?t\<rparr>)"
    using ok by (intro update_outbox_runs) (auto simp: outbox_check_iff dest: outbox_okD)
  moreover have ok': "outbox_ok ?t"
    using ok by (rule outbox_ok_update) (auto simp: outbox_check_iff dest: outbox_okD [OF ok])
  have "update_outbox ?L ?l (w\<lparr>outbox := ?t\<rparr>) = Inr (rowcount ?L (outbox (w\<lparr>outbox := ?t\<rparr>)),
      w\<lparr>outbox := ?t, outbox := update_where ?L ?l (outbox (w\<lparr>outbox := ?t\<rparr>))\<rparr>)"
    by (rule update_outbox_runs) (auto simp: outbox_check_iff dest: outbox_okD [OF ok'])
  then have "update_outbox ?L ?l (w\<lparr>outbox := ?t\<rparr>)
      = Inr (rowcount ?L ?t, w\<lparr>outbox := update_where ?L ?l ?t\<rparr>)" by simp
  moreover have "update_where ?L ?l ?t = map (recover_row now) (outbox w)"
    by (auto simp: update_where_def recover_row_def stale_def)
  moreover have "rowcount ?D (outbox w) + rowcount ?L ?t = rowcount (stale now) (outbox w)"
  proof -
    have "rowcount ?L (update_where ?D ?d t) = rowcount ?L t" for t
      unfolding rowcount_def update_where_def by (induction t) (auto simp: stale_def)
    moreover have "rowcount ?D t + rowcount ?L t = rowcount (stale now) t" for t
      unfolding rowcount_def by (induction t) auto
    ultimately show ?thesis by simp
  qed
  ultimately show ?thesis by (simp add: recover_stale_leases_def)
qed

definition requeue_row :: "time \<Rightarrow> outbox_row \<Rightarrow> outbox_row" where
  "requeue_row now r = r\<lparr>o_status := OPending, o_attempts := 0, o_available_at := now,
     o_last_error := None, o_lease_token := None, o_lease_until := None\<rparr>"

lemma requeue_dead_eq:
  assumes ok: "outbox_ok (outbox w)"
  shows "(\<forall>r \<in> set (outbox w). o_id r \<noteq> i) \<and> requeue_dead i now w = Inl RNotFoundError
    \<or> (\<exists>r \<in> set (outbox w). o_id r = i \<and> o_status r \<noteq> ODead
         \<and> requeue_dead i now w = Inl InvalidState)
    \<or> (\<exists>r \<in> set (outbox w). o_id r = i \<and> o_status r = ODead \<and> requeue_dead i now w
         = Inr (requeue_row now r,
                w\<lparr>outbox := update_where (\<lambda>x. o_id x = i) (requeue_row now) (outbox w)\<rparr>))"
proof (cases "\<exists>r \<in> set (outbox w). o_id r = i")
  case True
  then obtain r where r: "r \<in> set (outbox w)" "o_id r = i" by blast
  have f: "filter (\<lambda>x. o_id x = i) (outbox w) = [r]"
    using ok r by (intro filter_key_distinct) (auto simp: outbox_ok_def)
  have "update_outbox (\<lambda>x. o_id x = i) (requeue_row now) w = Inr (rowcount (\<lambda>x. o_id x = i) (outbox w),
      w\<lparr>outbox := update_where (\<lambda>x. o_id x = i) (requeue_row now) (outbox w)\<rparr>)"
    by (rule update_outbox_runs) (auto simp: outbox_check_iff requeue_row_def dest: outbox_okD [OF ok])
  moreover have "requeue_dead i now w = (if o_status r \<noteq> ODead then Inl InvalidState
      else bind_r (update_outbox (\<lambda>x. o_id x = i) (requeue_row now) w)
             (\<lambda>(_, w'). Inr (requeue_row now r, w')))"
    unfolding requeue_dead_def f requeue_row_def Let_def by simp
  ultimately have "requeue_dead i now w = (if o_status r \<noteq> ODead then Inl InvalidState
      else Inr (requeue_row now r,
                w\<lparr>outbox := update_where (\<lambda>x. o_id x = i) (requeue_row now) (outbox w)\<rparr>))"
    by simp
  then show ?thesis using r by (cases "o_status r = ODead") auto
next
  case False
  then have "filter (\<lambda>x. o_id x = i) (outbox w) = []" by (auto simp: filter_empty_conv)
  then show ?thesis using False by (simp add: requeue_dead_def)
qed

section \<open>Fencing: the interface and its client lemma\<close>

text \<open>
  A store of leases under concurrent operations: step runs one operation as a transaction
  and tells whether it reported ownership; settles l says that the operation is a completion
  (acknowledge or fail) under lease l. An issued lease that is not owned is never owned
  again, and a completion succeeds exactly for the owner and ends the ownership. All of it
  as long as the state is sane: tokens are random, and sane says that none came up twice.
\<close>

fun run_log :: "('op \<Rightarrow> 's \<Rightarrow> bool \<times> 's) \<Rightarrow> 'op list \<Rightarrow> 's \<Rightarrow> ('op \<times> bool) list \<times> 's" where
  "run_log stp [] s = ([], s)"
| "run_log stp (p # ps) s =
     (let (b, s1) = stp p s; (bs, s2) = run_log stp ps s1 in ((p, b) # bs, s2))"

definition successes :: "('op \<Rightarrow> bool) \<Rightarrow> ('op \<times> bool) list \<Rightarrow> nat" where
  "successes Q lg = length (filter (\<lambda>(p, b). Q p \<and> b) lg)"

locale fenced_leases =
  fixes sane :: "'s \<Rightarrow> bool"
    and inv :: "'s \<Rightarrow> bool"
    and issued_to :: "'l \<Rightarrow> 's \<Rightarrow> bool"
    and owner :: "'l \<Rightarrow> 's \<Rightarrow> bool"
    and stp :: "'op \<Rightarrow> 's \<Rightarrow> bool \<times> 's"
    and settles :: "'l \<Rightarrow> 'op \<Rightarrow> bool"
  assumes sane_back: "sane (snd (stp p s)) \<Longrightarrow> sane s"
    and step_inv: "inv s \<Longrightarrow> sane (snd (stp p s)) \<Longrightarrow> inv (snd (stp p s))"
    and step_issued: "inv s \<Longrightarrow> issued_to l s \<Longrightarrow> issued_to l (snd (stp p s))"
    and no_regain: "inv s \<Longrightarrow> sane (snd (stp p s)) \<Longrightarrow> issued_to l s \<Longrightarrow> \<not> owner l s
      \<Longrightarrow> \<not> owner l (snd (stp p s))"
    and settle_fst: "inv s \<Longrightarrow> issued_to l s \<Longrightarrow> settles l p \<Longrightarrow> fst (stp p s) = owner l s"
    and settle_releases: "inv s \<Longrightarrow> issued_to l s \<Longrightarrow> settles l p \<Longrightarrow> \<not> owner l (snd (stp p s))"
begin

lemma run_sane_back: "sane (snd (run_log stp ps s)) \<Longrightarrow> sane s"
  by (induction ps arbitrary: s) (auto simp: split_beta Let_def dest: sane_back)

lemma run_inv: "inv s \<Longrightarrow> sane (snd (run_log stp ps s)) \<Longrightarrow> inv (snd (run_log stp ps s))"
  by (induction ps arbitrary: s) (auto simp: split_beta Let_def intro: step_inv dest: run_sane_back)

lemma successes_Cons:
  "successes Q (fst (run_log stp (p # ps) s))
     = (if Q p \<and> fst (stp p s) then 1 else 0) + successes Q (fst (run_log stp ps (snd (stp p s))))"
  by (auto simp: successes_def split_beta Let_def)

lemma lost_stays_lost:
  "inv s \<Longrightarrow> issued_to l s \<Longrightarrow> \<not> owner l s \<Longrightarrow> sane (snd (run_log stp ps s)) \<Longrightarrow>
   successes (settles l) (fst (run_log stp ps s)) = 0"
proof (induction ps arbitrary: s)
  case Nil
  then show ?case by (simp add: successes_def)
next
  case (Cons p ps)
  have end_sane: "sane (snd (run_log stp ps (snd (stp p s))))"
    using Cons.prems by (simp add: split_beta Let_def)
  note now_sane = run_sane_back [OF this]
  have "successes (settles l) (fst (run_log stp ps (snd (stp p s)))) = 0"
    using Cons.prems now_sane end_sane
    by (intro Cons.IH) (auto intro: step_inv step_issued dest: no_regain)
  moreover have "\<not> (settles l p \<and> fst (stp p s))" using Cons.prems settle_fst by blast
  ultimately show ?case unfolding successes_Cons by simp
qed

lemma settled_once:
  "inv s \<Longrightarrow> issued_to l s \<Longrightarrow> sane (snd (run_log stp ps s)) \<Longrightarrow>
   successes (settles l) (fst (run_log stp ps s)) \<le> 1"
proof (induction ps arbitrary: s)
  case Nil
  then show ?case by (simp add: successes_def)
next
  case (Cons p ps)
  let ?s = "snd (stp p s)"
  have end_sane: "sane (snd (run_log stp ps ?s))"
    using Cons.prems by (simp add: split_beta Let_def)
  note s = step_inv [OF Cons.prems(1) run_sane_back [OF this]] step_issued [OF Cons.prems(1,2)]
  show ?case
  proof (cases "settles l p \<and> fst (stp p s)")
    case True
    then have "successes (settles l) (fst (run_log stp ps ?s)) = 0"
      using lost_stays_lost [OF s] end_sane settle_releases [OF Cons.prems(1,2)] by blast
    with True show ?thesis unfolding successes_Cons by simp
  next
    case False
    then show ?thesis using Cons.IH [OF s end_sane] unfolding successes_Cons by (simp only: if_False)
  qed
qed

end

section \<open>Dispatch histories\<close>

text \<open>
  The database with the leases handed out so far. A history is any interleaving of claims,
  renewals, completions of handed-out leases, recoveries, retries of dead events and newly
  appended events; each operation is a transaction of its own.
\<close>

record dispatch =
  store :: db
  issued :: "lease list"

datatype lease_op =
    Claim "outbox_row \<Rightarrow> bool" time
  | Renew lease time
  | Ack lease time
  | Fail lease string time
  | Recover time
  | Requeue uuid time
  | Append event_type booking "time option"

definition commit :: "dispatch \<Rightarrow> (bool \<times> db) result \<Rightarrow> bool \<times> dispatch" where
  "commit s m = (case m of Inl e \<Rightarrow> (False, s) | Inr (b, w) \<Rightarrow> (b, s\<lparr>store := w\<rparr>))"

fun lease_step :: "lease_op \<Rightarrow> dispatch \<Rightarrow> bool \<times> dispatch" where
  "lease_step (Claim lk now) s =
     (case claim_batch lk now (store s) of
        Inl e \<Rightarrow> (False, s)
      | Inr (ls, w) \<Rightarrow> (ls \<noteq> [], s\<lparr>store := w, issued := issued s @ ls\<rparr>))"
| "lease_step (Renew l now) s =
     (if l \<in> set (issued s) then commit s (renew_lease l now (store s)) else (False, s))"
| "lease_step (Ack l now) s =
     (if l \<in> set (issued s) then commit s (acknowledge l now (store s)) else (False, s))"
| "lease_step (Fail l c now) s =
     (if l \<in> set (issued s) then commit s (fail_lease l c now (store s)) else (False, s))"
| "lease_step (Recover now) s =
     commit s (bind_r (recover_stale_leases now (store s)) (\<lambda>(n, w). Inr (n > 0, w)))"
| "lease_step (Requeue i now) s =
     commit s (bind_r (requeue_dead i now (store s)) (\<lambda>(r, w). Inr (True, w)))"
| "lease_step (Append et b now) s =
     commit s (bind_r (append_event et b now (store s)) (\<lambda>(i, w). Inr (True, w)))"

fun completes :: "lease \<Rightarrow> lease_op \<Rightarrow> bool" where
  "completes l (Ack l' now) = (l' = l)"
| "completes l (Fail l' c now) = (l' = l)"
| "completes l _ = False"

definition attempts_ok :: "outbox_row \<Rightarrow> bool" where
  "attempts_ok r =
     (case o_status r of
        OPending \<Rightarrow> o_attempts r \<le> 7
      | OProcessing \<Rightarrow> 1 \<le> o_attempts r \<and> o_attempts r \<le> 8
      | ODelivered \<Rightarrow> 1 \<le> o_attempts r \<and> o_attempts r \<le> 8
      | ODead \<Rightarrow> o_attempts r = 8)"

definition used_tokens :: "db \<Rightarrow> uuid set" where
  "used_tokens w = uuid_src w ` {..<drawn w}"

text \<open>No UUID came up twice so far.\<close>

definition no_collision :: "db \<Rightarrow> bool" where
  "no_collision w = inj_on (uuid_src w) {..<drawn w}"

definition dispatch_inv :: "dispatch \<Rightarrow> bool" where
  "dispatch_inv s =
     (outbox_ok (outbox (store s)) \<and>
      (\<forall>r \<in> set (outbox (store s)). attempts_ok r \<and>
         (\<forall>t. o_lease_token r = Some t \<longrightarrow> t \<in> used_tokens (store s)) \<and>
         (\<forall>l \<in> set (issued s). owned l r \<longrightarrow> o_attempts r = l_attempts l)) \<and>
      (\<forall>l \<in> set (issued s). l_token l \<in> used_tokens (store s)))"

text \<open>A row update that gives no new token: all operations but the claim.\<close>

definition no_new_token :: "outbox_row \<Rightarrow> outbox_row \<Rightarrow> bool" where
  "no_new_token r r' =
     (o_id r' = o_id r \<and> outbox_check r' = None \<and> attempts_ok r' \<and>
      (o_lease_token r' = None \<or> o_lease_token r' = o_lease_token r \<and> o_attempts r' = o_attempts r))"

lemma owned_back:
  assumes "outbox_check r = None" "no_new_token r r'" "owned l r'"
  shows "owned l r" "o_attempts r' = o_attempts r"
  using assms by (auto simp: no_new_token_def owned_def outbox_check_iff)

lemma dispatch_inv_map:
  assumes inv: "dispatch_inv s"
    and g: "\<And>r. r \<in> set (outbox (store s)) \<Longrightarrow> no_new_token r (g r)"
    and w: "outbox w = map g (outbox (store s))" "uuid_src w = uuid_src (store s)"
      "drawn w = drawn (store s)"
  shows "dispatch_inv (s\<lparr>store := w\<rparr>)" "owns l w \<Longrightarrow> owns l (store s)"
proof -
  have ids: "map o_id (map g (outbox (store s))) = map o_id (outbox (store s))"
    using g by (simp add: no_new_token_def)
  have ok: "outbox_check r = None" if "r \<in> set (outbox (store s))" for r
    using inv that by (auto simp: dispatch_inv_def dest: outbox_okD)
  have out: "outbox_ok (map g (outbox (store s)))"
    using inv g ids by (simp only: dispatch_inv_def outbox_ok_def) (auto simp: no_new_token_def)
  have row: "attempts_ok (g r) \<and> (\<forall>t. o_lease_token (g r) = Some t \<longrightarrow> t \<in> used_tokens (store s)) \<and>
      (\<forall>l \<in> set (issued s). owned l (g r) \<longrightarrow> o_attempts (g r) = l_attempts l)"
    if r: "r \<in> set (outbox (store s))" for r
    using inv r g [OF r] owned_back [OF ok [OF r] g [OF r]]
    by (auto simp: dispatch_inv_def no_new_token_def)
  show "dispatch_inv (s\<lparr>store := w\<rparr>)"
    using inv out row w by (auto simp: dispatch_inv_def used_tokens_def)
  show "owns l w \<Longrightarrow> owns l (store s)"
    using owned_back(1) [OF ok g] w by (auto simp: owns_def)
qed

lemma no_new_token_refl: "outbox_check r = None \<Longrightarrow> attempts_ok r \<Longrightarrow> no_new_token r r"
  by (simp add: no_new_token_def)

lemma dispatch_invD:
  assumes "dispatch_inv s" "r \<in> set (outbox (store s))"
  shows "outbox_check r = None" "attempts_ok r"
    "l \<in> set (issued s) \<Longrightarrow> owned l r \<Longrightarrow> o_attempts r = l_attempts l"
    "o_lease_token r = Some t \<Longrightarrow> t \<in> used_tokens (store s)"
  using assms by (auto simp: dispatch_inv_def dest: outbox_okD)

lemma dispatch_inv_ok: "dispatch_inv s \<Longrightarrow> outbox_ok (outbox (store s))"
  by (simp add: dispatch_inv_def)

text \<open>A fenced update of an issued lease: what it reports and what it leaves.\<close>

lemma fenced_update:
  assumes inv: "dispatch_inv s"
    and f: "\<And>r. r \<in> set (outbox (store s)) \<Longrightarrow> owned l r \<Longrightarrow> no_new_token r (f r)"
  defines "w \<equiv> (store s)\<lparr>outbox := update_where (owned l) f (outbox (store s))\<rparr>"
  shows "dispatch_inv (s\<lparr>store := w\<rparr>)"
    and "owns l' w \<Longrightarrow> owns l' (store s)"
proof -
  have g: "no_new_token r (if owned l r then f r else r)" if "r \<in> set (outbox (store s))" for r
    using f [OF that] dispatch_invD(1,2) [OF inv that] by (simp add: no_new_token_refl)
  have w: "outbox w = map (\<lambda>r. if owned l r then f r else r) (outbox (store s))"
      "uuid_src w = uuid_src (store s)" "drawn w = drawn (store s)"
    by (simp_all add: w_def update_where_def)
  show "dispatch_inv (s\<lparr>store := w\<rparr>)" by (rule dispatch_inv_map(1) [OF inv g w])
  show "owns l' w \<Longrightarrow> owns l' (store s)" by (rule dispatch_inv_map(2) [OF inv g w])
qed

lemma released:
  "(\<And>r. o_lease_token (f r) = None) \<Longrightarrow>
   \<not> owns l (w\<lparr>outbox := update_where (owned l) f (outbox w)\<rparr>)"
  by (auto simp: owns_def set_update_where) (simp add: owned_def)

lemma owned_attempts:
  assumes "dispatch_inv s" "r \<in> set (outbox (store s))" "l \<in> set (issued s)" "owned l r"
  shows "1 \<le> o_attempts r" "o_attempts r \<le> 8" "l_attempts l = o_attempts r"
  using dispatch_invD [OF assms(1,2)] assms(3,4) by (auto simp: attempts_ok_def owned_def)

lemma settle_no_new_token:
  assumes "dispatch_inv s" "r \<in> set (outbox (store s))" "l \<in> set (issued s)" "owned l r"
  shows
    "no_new_token r (r\<lparr>o_lease_until := Some t\<rparr>)"
    "no_new_token r (r\<lparr>o_status := ODelivered, o_delivered_at := Some now, o_lease_token := None,
       o_lease_until := None\<rparr>)"
    "no_new_token r (r\<lparr>o_status := (if l_attempts l \<ge> 8 then ODead else OPending),
       o_available_at := t', o_lease_token := None, o_lease_until := None, o_last_error := e\<rparr>)"
  using dispatch_invD(1,2) [OF assms(1,2)] owned_attempts [OF assms] assms(4)
  by (auto simp: no_new_token_def outbox_check_iff attempts_ok_def owned_def)

lemma settle_step:
  assumes inv: "dispatch_inv s" and l: "l \<in> set (issued s)" and p: "completes l p"
  shows "dispatch_inv (snd (lease_step p s))"
    "fst (lease_step p s) = owns l (store s)"
    "\<not> owns l (store (snd (lease_step p s)))"
    "issued (snd (lease_step p s)) = issued s"
    "owns l' (store (snd (lease_step p s))) \<Longrightarrow> owns l' (store s)"
proof -
  note ok = dispatch_inv_ok [OF inv]
  obtain f where f: "\<And>r. r \<in> set (outbox (store s)) \<Longrightarrow> owned l r \<Longrightarrow> no_new_token r (f r)"
      "\<And>r. o_lease_token (f r) = None"
      "lease_step p s = (owns l (store s),
         s\<lparr>store := (store s)\<lparr>outbox := update_where (owned l) f (outbox (store s))\<rparr>\<rparr>)"
  proof (cases p)
    case (Ack l2 now)
    with p have "l2 = l" by simp
    then show ?thesis
      using that [of "\<lambda>r. r\<lparr>o_status := ODelivered, o_delivered_at := Some now,
          o_lease_token := None, o_lease_until := None\<rparr>"]
        settle_no_new_token(2) [OF inv _ l] Ack l acknowledge_eq [OF ok]
      by (simp add: commit_def)
  next
    case (Fail l2 c now)
    with p have "l2 = l" by simp
    then show ?thesis
      using that [of "\<lambda>r. r\<lparr>o_status := (if l_attempts l \<ge> 8 then ODead else OPending),
             o_available_at := (if l_attempts l \<ge> 8 then now
               else now + seconds (compute_backoff_seconds (l_event l) (l_attempts l))),
             o_lease_token := None, o_lease_until := None,
             o_last_error := Some (sanitize_error_category c)\<rparr>"]
        settle_no_new_token(3) [OF inv _ l] Fail l fail_lease_eq [OF ok]
      by (simp add: commit_def)
  qed (use p in simp_all)
  show "dispatch_inv (snd (lease_step p s))"
    "fst (lease_step p s) = owns l (store s)"
    "\<not> owns l (store (snd (lease_step p s)))"
    "issued (snd (lease_step p s)) = issued s"
    "owns l' (store (snd (lease_step p s))) \<Longrightarrow> owns l' (store s)"
    using fenced_update [OF inv f(1)] released [where f = f] f(2) unfolding f(3) by auto
qed

lemma recover_no_new_token:
  "outbox_check r = None \<Longrightarrow> attempts_ok r \<Longrightarrow> no_new_token r (recover_row now r)"
  by (auto simp: recover_row_def no_new_token_def outbox_check_iff attempts_ok_def stale_def)

lemma requeue_no_new_token:
  "outbox_check r = None \<Longrightarrow> no_new_token r (requeue_row now r)"
  by (auto simp: requeue_row_def no_new_token_def outbox_check_iff attempts_ok_def)

lemma used_tokens_Suc:
  "used_tokens (w\<lparr>drawn := Suc (drawn w), outbox := t\<rparr>)
     = insert (uuid_src w (drawn w)) (used_tokens w)"
  by (auto simp: used_tokens_def lessThan_Suc)

lemma next_token_unused:
  "no_collision (w\<lparr>drawn := Suc (drawn w), outbox := t\<rparr>) \<Longrightarrow>
   uuid_src w (drawn w) \<notin> used_tokens w"
  by (auto simp: used_tokens_def no_collision_def lessThan_Suc inj_on_def)

lemma claim_step:
  assumes inv: "dispatch_inv s"
    and sane: "no_collision (store (snd (lease_step (Claim lk now) s)))"
  shows "dispatch_inv (snd (lease_step (Claim lk now) s)) \<and>
    set (issued s) \<subseteq> set (issued (snd (lease_step (Claim lk now) s))) \<and>
    (\<forall>l \<in> set (issued s). owns l (store (snd (lease_step (Claim lk now) s))) \<longrightarrow> owns l (store s))"
proof -
  let ?w = "store s" and ?tok = "uuid_src (store s) (drawn (store s))"
  from claim_batch_cases [OF dispatch_inv_ok [OF inv], of now lk]
  show ?thesis
  proof (elim disjE conjE bexE)
    assume "claim_batch lk now ?w = Inr ([], ?w)"
    then show ?thesis using inv by simp
  next
    fix row :: outbox_row
    let ?P = "\<lambda>r. o_id r = o_id row" and ?f = "take_lease ?tok now"
    let ?l = "\<lparr>l_event = o_id row, l_token = ?tok, l_type = o_event_type row,
                l_payload = o_payload row, l_attempts = o_attempts row + 1\<rparr>"
    let ?t = "update_where ?P ?f (outbox ?w)"
    assume row: "row \<in> set (outbox ?w)" "due now row"
      and claim: "claim_batch lk now ?w
        = Inr ([?l], ?w\<lparr>drawn := Suc (drawn ?w), outbox := ?t\<rparr>)"
    have unused: "?tok \<notin> used_tokens ?w"
      using sane claim next_token_unused [where w = ?w and t = ?t] by simp
    have only: "r = row" if "r \<in> set (outbox ?w)" "o_id r = o_id row" for r
      using dispatch_inv_ok [OF inv] that row(1) by (auto simp: outbox_ok_def intro: distinct_key_eq)
    have new: "outbox_check (?f row) = None" "attempts_ok (?f row)" "o_lease_token (?f row) = Some ?tok"
      using dispatch_invD [OF inv row(1)] row(2)
      by (auto simp: take_lease_def outbox_check_iff attempts_ok_def due_def)
    have rows: "x = ?f row \<or> x \<in> set (outbox ?w) \<and> o_id x \<noteq> o_id row" if "x \<in> set ?t" for x
      using that only by (auto simp: set_update_where)
    have tok: "\<And>l. l \<in> set (issued s) \<Longrightarrow> l_token l \<noteq> ?tok"
        "\<And>r. r \<in> set (outbox ?w) \<Longrightarrow> o_lease_token r \<noteq> Some ?tok"
      using inv unused dispatch_invD(4) [OF inv] by (auto simp: dispatch_inv_def)
    have old: "owned l x \<Longrightarrow> x \<in> set (outbox ?w)" if "x \<in> set ?t" "l \<in> set (issued s)" for x l
      using rows [OF that(1)] tok(1) [OF that(2)] new(3) by (auto simp: owned_def)
    have attempts: "o_attempts x = l_attempts l"
      if "x \<in> set ?t" "l \<in> set (issued s) \<union> {?l}" "owned l x" for x l
    proof (cases "l = ?l")
      case True
      then have "x = ?f row" using rows [OF that(1)] that(3) by (auto simp: owned_def)
      then show ?thesis using True by (simp add: take_lease_def)
    next
      case False
      then show ?thesis using that old dispatch_invD(3) [OF inv] by blast
    qed
    have row_ok: "attempts_ok x \<and> (\<forall>t. o_lease_token x = Some t \<longrightarrow> t \<in> insert ?tok (used_tokens ?w))"
      if "x \<in> set ?t" for x
      using rows [OF that] new(2,3) dispatch_invD(2,4) [OF inv] by auto
    have issued_ok: "l_token l \<in> insert ?tok (used_tokens ?w)" if "l \<in> set (issued s) \<union> {?l}" for l
      using that inv by (auto simp: dispatch_inv_def)
    have "outbox_ok ?t"
      using dispatch_inv_ok [OF inv] only new(1)
      by (intro outbox_ok_update) (auto simp: take_lease_def)
    then have "dispatch_inv (s\<lparr>store := ?w\<lparr>drawn := Suc (drawn ?w), outbox := ?t\<rparr>,
        issued := issued s @ [?l]\<rparr>)"
      unfolding dispatch_inv_def
    proof (intro conjI ballI)
    qed (use attempts row_ok issued_ok in \<open>simp_all add: used_tokens_Suc\<close>)
    then show ?thesis using claim old by (auto simp: owns_def)
  qed
qed

lemma append_event_cases:
  "(\<exists>e. append_event et b now w = Inl e) \<or>
   (\<exists>r. append_event et b now w
        = Inr (uuid_src w (drawn w), w\<lparr>drawn := Suc (drawn w), outbox := outbox w @ [r]\<rparr>) \<and>
      o_id r \<notin> o_id ` set (outbox w) \<and> outbox_check r = None \<and> o_status r = OPending \<and>
      o_attempts r = 0 \<and> o_lease_token r = None)"
  unfolding append_event_def insert_outbox_def uuid4_def Let_def
  by (auto split: option.split)

lemma append_step:
  assumes inv: "dispatch_inv s"
  shows "dispatch_inv (snd (lease_step (Append et b now) s)) \<and>
    issued (snd (lease_step (Append et b now) s)) = issued s \<and>
    (\<forall>l. owns l (store (snd (lease_step (Append et b now) s))) \<longrightarrow> owns l (store s))"
  using append_event_cases [of et b now "store s"]
proof (elim disjE exE conjE)
  fix e
  assume "append_event et b now (store s) = Inl e"
  then show ?thesis using inv by (simp add: commit_def)
next
  fix r
  let ?w = "store s"
  assume ap: "append_event et b now ?w = Inr (uuid_src ?w (drawn ?w),
        ?w\<lparr>drawn := Suc (drawn ?w), outbox := outbox ?w @ [r]\<rparr>)"
    and r: "o_id r \<notin> o_id ` set (outbox ?w)" "outbox_check r = None" "o_status r = OPending"
      "o_attempts r = 0" "o_lease_token r = None"
  have "outbox_ok (outbox ?w @ [r])"
    using dispatch_inv_ok [OF inv] r(1,2) by (auto simp: outbox_ok_def)
  then have "dispatch_inv (s\<lparr>store := ?w\<lparr>drawn := Suc (drawn ?w), outbox := outbox ?w @ [r]\<rparr>\<rparr>)"
    using inv r by (auto simp: dispatch_inv_def used_tokens_Suc attempts_ok_def owned_def)
  then show ?thesis using ap r by (auto simp: commit_def owns_def owned_def)
qed

lemma lease_step_safe:
  assumes inv: "dispatch_inv s" and sane: "no_collision (store (snd (lease_step p s)))"
  shows "dispatch_inv (snd (lease_step p s)) \<and> set (issued s) \<subseteq> set (issued (snd (lease_step p s))) \<and>
    (\<forall>l \<in> set (issued s). owns l (store (snd (lease_step p s))) \<longrightarrow> owns l (store s))"
proof -
  note ok = dispatch_inv_ok [OF inv]
  have settled: ?thesis if "l \<in> set (issued s)" "completes l p" for l
    using settle_step(1,4) [OF inv that] by (auto dest: settle_step(5) [OF inv that])
  show ?thesis
  proof (cases p)
    case (Claim lk now)
    then show ?thesis using claim_step inv sane by blast
  next
    case (Renew l now)
    show ?thesis
    proof (cases "l \<in> set (issued s)")
      case True
      have f: "no_new_token r (r\<lparr>o_lease_until := Some (now + seconds 60)\<rparr>)"
        if "r \<in> set (outbox (store s))" "owned l r" for r
        using settle_no_new_token(1) [OF inv that(1) True that(2)] .
      let ?w = "(store s)\<lparr>outbox := update_where (owned l)
          (\<lambda>r. r\<lparr>o_lease_until := Some (now + seconds 60)\<rparr>) (outbox (store s))\<rparr>"
      have step: "snd (lease_step p s) = s\<lparr>store := ?w\<rparr>"
        using Renew True by (simp add: renew_lease_eq [OF ok] commit_def)
      have "dispatch_inv (s\<lparr>store := ?w\<rparr>)" using inv f by (rule fenced_update(1))
      moreover have "owns l' (store s)" if "owns l' ?w" for l'
        using inv f that by (rule fenced_update(2))
      ultimately show ?thesis unfolding step by simp
    qed (use Renew inv in simp)
  next
    case (Ack l now)
    then show ?thesis using settled [of l] inv by (cases "l \<in> set (issued s)") simp_all
  next
    case (Fail l c now)
    then show ?thesis using settled [of l] inv by (cases "l \<in> set (issued s)") simp_all
  next
    case (Recover now)
    have g: "no_new_token r (recover_row now r)" if "r \<in> set (outbox (store s))" for r
      using dispatch_invD(1,2) [OF inv that] by (rule recover_no_new_token)
    let ?w = "(store s)\<lparr>outbox := map (recover_row now) (outbox (store s))\<rparr>"
    have "dispatch_inv (s\<lparr>store := ?w\<rparr>) \<and> (\<forall>l. owns l ?w \<longrightarrow> owns l (store s))"
      using dispatch_inv_map [where w = ?w, OF inv g] by simp
    then show ?thesis using Recover by (simp add: recover_eq [OF ok] commit_def)
  next
    case (Requeue i now)
    have g: "no_new_token r (if o_id r = i then requeue_row now r else r)"
      if "r \<in> set (outbox (store s))" for r
      using dispatch_invD(1,2) [OF inv that]
      by (simp add: requeue_no_new_token no_new_token_refl)
    let ?w = "(store s)\<lparr>outbox := update_where (\<lambda>r. o_id r = i) (requeue_row now) (outbox (store s))\<rparr>"
    have "dispatch_inv (s\<lparr>store := ?w\<rparr>) \<and> (\<forall>l. owns l ?w \<longrightarrow> owns l (store s))"
      using dispatch_inv_map [where w = ?w, OF inv g] by (simp add: update_where_def)
    then show ?thesis
      using requeue_dead_eq [OF ok, of i now] Requeue inv by (auto simp: commit_def)
  next
    case (Append et b now)
    then show ?thesis using append_step [OF inv, of et b now] by auto
  qed
qed

lemma update_outbox_frame:
  "update_outbox P f w = Inr (n, w') \<Longrightarrow> uuid_src w' = uuid_src w \<and> drawn w' = drawn w"
  by (auto simp: update_outbox_def split: option.splits)

lemma claim_batch_frame:
  "claim_batch lk now w = Inr (ls, w') \<Longrightarrow> uuid_src w' = uuid_src w \<and> drawn w \<le> drawn w'"
  unfolding claim_batch_def
  by (auto simp: bind_r_Inr uuid4_def Let_def split: list.splits dest!: update_outbox_frame)

lemma lease_step_sane_back:
  assumes "no_collision (store (snd (lease_step p s)))"
  shows "no_collision (store s)"
proof -
  have "uuid_src (store (snd (lease_step p s))) = uuid_src (store s)
      \<and> drawn (store s) \<le> drawn (store (snd (lease_step p s)))"
  proof (cases p)
    case (Claim lk now)
    then show ?thesis
      using claim_batch_frame [of lk now "store s"] by (auto split: sum.splits)
  next
    case (Append et b now)
    then show ?thesis using append_event_cases [of et b now "store s"] by (auto simp: commit_def)
  qed (auto simp: commit_def renew_lease_def acknowledge_def fail_lease_def recover_stale_leases_def
      requeue_dead_def bind_r_Inr Let_def split: sum.splits option.splits if_splits
      dest!: update_outbox_frame)
  then show ?thesis
    using assms inj_on_subset [of "uuid_src (store s)"] by (auto simp: no_collision_def lessThan_subset_iff)
qed

lemma lease_step_issued: "set (issued s) \<subseteq> set (issued (snd (lease_step p s)))"
  by (cases p) (auto simp: commit_def split: sum.splits)

interpretation outbox_leases: fenced_leases
  "\<lambda>s. no_collision (store s)" dispatch_inv "\<lambda>l s. l \<in> set (issued s)" "\<lambda>l s. owns l (store s)"
  lease_step completes
proof
  fix p :: lease_op and s :: dispatch and l :: lease
  show "no_collision (store (snd (lease_step p s))) \<Longrightarrow> no_collision (store s)"
    by (rule lease_step_sane_back)
  show "dispatch_inv s \<Longrightarrow> no_collision (store (snd (lease_step p s))) \<Longrightarrow>
      dispatch_inv (snd (lease_step p s))"
    by (simp add: lease_step_safe)
  show "l \<in> set (issued s) \<Longrightarrow> l \<in> set (issued (snd (lease_step p s)))"
    using lease_step_issued by blast
  show "dispatch_inv s \<Longrightarrow> no_collision (store (snd (lease_step p s))) \<Longrightarrow> l \<in> set (issued s) \<Longrightarrow>
      \<not> owns l (store s) \<Longrightarrow> \<not> owns l (store (snd (lease_step p s)))"
    using lease_step_safe by blast
  show "dispatch_inv s \<Longrightarrow> l \<in> set (issued s) \<Longrightarrow> completes l p \<Longrightarrow>
      fst (lease_step p s) = owns l (store s)"
    by (rule settle_step(2))
  show "dispatch_inv s \<Longrightarrow> l \<in> set (issued s) \<Longrightarrow> completes l p \<Longrightarrow>
      \<not> owns l (store (snd (lease_step p s)))"
    by (rule settle_step(3))
qed

section \<open>Properties\<close>

text \<open>
  C18: whatever operations interleave (claims by other workers, renewals, recovery of stale
  leases, retries, new events), one handed-out lease completes its event at most once: of
  all acknowledge and fail_lease calls under it at most one reports success. The premise
  says that no two of the random UUIDs drawn in the history are equal.
\<close>

theorem outbox_settled_once:
  assumes "dispatch_inv s" and "l \<in> set (issued s)"
    and "no_collision (store (snd (run_log lease_step ps s)))"
  shows "successes (completes l) (fst (run_log lease_step ps s)) \<le> 1"
  using assms by (rule outbox_leases.settled_once)

text \<open>An event that dispatcher A holds under a lease that has run out at time 100.\<close>

definition ex_row :: outbox_row where
  "ex_row = \<lparr>o_id = 7, o_event_type = EHoldExpired, o_aggregate_id = 8, o_aggregate_version = 2,
     o_payload = JObj [], o_status = OProcessing, o_attempts = 1, o_occurred_at = 0,
     o_available_at = 0, o_lease_until = Some 60, o_lease_token = Some 1, o_delivered_at = None,
     o_last_error = None\<rparr>"

definition ex_lease :: lease where
  "ex_lease = \<lparr>l_event = 7, l_token = 1, l_type = EHoldExpired, l_payload = JObj [], l_attempts = 1\<rparr>"

definition ex_dispatch :: dispatch where
  "ex_dispatch = \<lparr>store = (empty_db 0)\<lparr>outbox := [ex_row], drawn := 1\<rparr>, issued = [ex_lease]\<rparr>"

lemma ex_dispatch_inv: "dispatch_inv ex_dispatch"
  by (simp add: dispatch_inv_def ex_dispatch_def ex_row_def ex_lease_def outbox_ok_def
      outbox_check_iff attempts_ok_def owned_def used_tokens_def empty_db_def)

definition ex_ops :: "lease_op list" where
  "ex_ops = [Recover 100, Claim (\<lambda>_. False) 100, Ack ex_lease 101, Ack ex_lease 102]"

lemma ex_ops_sane: "no_collision (store (snd (run_log lease_step ex_ops ex_dispatch)))"
  unfolding no_collision_def by code_simp

theorem outbox_settled_once_witness:
  "successes (completes ex_lease) (fst (run_log lease_step ex_ops ex_dispatch)) \<le> 1"
  by (rule outbox_settled_once [OF ex_dispatch_inv _ ex_ops_sane]) (simp add: ex_dispatch_def)

text \<open>
  In every such history the attempt counter of an event stays within the eight attempts
  of the policy: a waiting event has used at most 7, a leased or delivered one between 1 and
  8, and an event is dead only with exactly 8.
\<close>

theorem outbox_attempts_bounded:
  assumes "dispatch_inv s" and "no_collision (store (snd (run_log lease_step ps s)))"
  shows "\<forall>r \<in> set (outbox (store (snd (run_log lease_step ps s)))).
    0 \<le> o_attempts r \<and> o_attempts r \<le> 8 \<and>
    (o_status r = OPending \<longrightarrow> o_attempts r \<le> 7) \<and>
    (o_status r \<in> {OProcessing, ODelivered} \<longrightarrow> 1 \<le> o_attempts r) \<and>
    (o_status r = ODead \<longrightarrow> o_attempts r = 8)"
proof
  fix r
  assume r: "r \<in> set (outbox (store (snd (run_log lease_step ps s))))"
  have "dispatch_inv (snd (run_log lease_step ps s))"
    using assms by (rule outbox_leases.run_inv)
  from dispatch_invD(1,2) [OF this r] show "0 \<le> o_attempts r \<and> o_attempts r \<le> 8 \<and>
    (o_status r = OPending \<longrightarrow> o_attempts r \<le> 7) \<and>
    (o_status r \<in> {OProcessing, ODelivered} \<longrightarrow> 1 \<le> o_attempts r) \<and>
    (o_status r = ODead \<longrightarrow> o_attempts r = 8)"
    by (auto simp: attempts_ok_def outbox_check_iff split: outbox_status.splits)
qed

theorem outbox_attempts_bounded_witness:
  "o_attempts (hd (outbox (store (snd (run_log lease_step ex_ops ex_dispatch))))) = 2 \<and>
   2 \<le> (8::int)"
proof -
  have "outbox (store (snd (run_log lease_step ex_ops ex_dispatch))) \<noteq> []" by code_simp
  from bspec [OF outbox_attempts_bounded [OF ex_dispatch_inv ex_ops_sane] hd_in_set [OF this]]
  have "o_attempts (hd (outbox (store (snd (run_log lease_step ex_ops ex_dispatch))))) \<le> 8" by simp
  moreover have "o_attempts (hd (outbox (store (snd (run_log lease_step ex_ops ex_dispatch))))) = 2"
    by code_simp
  ultimately show ?thesis by simp
qed

text \<open>
  Retries back off exponentially: below the limit of eight attempts the delay after
  attempt a is 5 * 2^(a-1) seconds plus the event's own jitter of 0 to 4 seconds (the cap of
  3600 is never reached), so the delays of one event strictly increase.
\<close>

theorem compute_backoff_seconds_below_limit:
  assumes "1 \<le> a" "a < 8"
  shows "compute_backoff_seconds e a = 5 * 2 ^ nat (a - 1) + uint e mod 5 \<and>
    5 \<le> compute_backoff_seconds e a \<and> compute_backoff_seconds e a \<le> 324 \<and>
    compute_backoff_seconds e a < compute_backoff_seconds e (a + 1)"
proof -
  have j: "0 \<le> uint e mod 5" "uint e mod 5 \<le> 4" by simp_all
  from assms have "a = 1 \<or> a = 2 \<or> a = 3 \<or> a = 4 \<or> a = 5 \<or> a = 6 \<or> a = 7" by arith
  then show ?thesis using j by (elim disjE) (simp_all add: compute_backoff_seconds_def)
qed

theorem compute_backoff_seconds_below_limit_witness:
  "compute_backoff_seconds 12 7 = 322 \<and> compute_backoff_seconds 12 7 < compute_backoff_seconds 12 8"
  using compute_backoff_seconds_below_limit [of 7 12] by simp

text \<open>
  A claim hands out one lease, on a least due event in the order of availability,
  occurrence and id among those no other dispatcher holds locked, and hands out nothing
  exactly when no such event is due; the event is then processing under a fresh token for 60
  seconds with one more attempt, and every other event is as before.
\<close>

theorem claim_batch_least_due:
  assumes "outbox_ok (outbox w)"
  shows "\<exists>ls w'. claim_batch lk now w = Inr (ls, w') \<and>
    (ls = [] \<longleftrightarrow> (\<forall>r \<in> set (outbox w). \<not> (due now r \<and> \<not> lk r))) \<and>
    (\<forall>l \<in> set ls. \<exists>row \<in> set (outbox w). ls = [l] \<and> due now row \<and> \<not> lk row \<and>
       (\<forall>r \<in> set (outbox w). due now r \<longrightarrow> \<not> lk r \<longrightarrow> outbox_order row \<le> outbox_order r) \<and>
       l_event l = o_id row \<and> l_attempts l = o_attempts row + 1 \<and> owns l w' \<and>
       outbox w' = map (\<lambda>r. if o_id r = o_id row
         then r\<lparr>o_status := OProcessing, o_attempts := o_attempts r + 1,
                o_lease_token := Some (l_token l), o_lease_until := Some (now + seconds 60)\<rparr>
         else r) (outbox w))"
  using claim_batch_cases [OF assms, of now lk]
proof (elim disjE conjE bexE)
  fix row :: outbox_row
  let ?tok = "uuid_src w (drawn w)"
  let ?l = "\<lparr>l_event = o_id row, l_token = ?tok, l_type = o_event_type row,
              l_payload = o_payload row, l_attempts = o_attempts row + 1\<rparr>"
  let ?w = "w\<lparr>drawn := Suc (drawn w),
              outbox := update_where (\<lambda>r. o_id r = o_id row) (take_lease ?tok now) (outbox w)\<rparr>"
  assume row: "row \<in> set (outbox w)" "due now row" "\<not> lk row"
    and least: "\<forall>r \<in> set (outbox w). due now r \<longrightarrow> \<not> lk r \<longrightarrow> outbox_order row \<le> outbox_order r"
    and claim: "claim_batch lk now w = Inr ([?l], ?w)"
  have "owned ?l (take_lease ?tok now row)" by (simp add: owned_def take_lease_def)
  then have "owns ?l ?w" using row(1) by (auto simp: owns_def set_update_where)
  moreover have "outbox ?w = map (\<lambda>r. if o_id r = o_id row
      then r\<lparr>o_status := OProcessing, o_attempts := o_attempts r + 1,
             o_lease_token := Some (l_token ?l), o_lease_until := Some (now + seconds 60)\<rparr>
      else r) (outbox w)"
    by (simp add: update_where_def take_lease_def)
  ultimately show ?thesis
    using row least by (intro exI [of _ "[?l]"] exI [of _ ?w] conjI claim ballI) auto
qed auto

theorem claim_batch_least_due_witness:
  "\<exists>w'. claim_batch (\<lambda>_. False) 100 (store ex_dispatch) = Inr ([], w')"
proof -
  have ok: "outbox_ok [ex_row]" by (simp add: outbox_ok_def outbox_check_iff ex_row_def)
  have s: "outbox (store ex_dispatch) = [ex_row]" by (simp add: ex_dispatch_def)
  have "\<not> due 100 ex_row" by (simp add: due_def ex_row_def)
  with claim_batch_least_due [of "store ex_dispatch" "\<lambda>_. False" 100] ok s
  show "\<exists>w'. claim_batch (\<lambda>_. False) 100 (store ex_dispatch) = Inr ([], w')" by auto
qed

text \<open>
  Recovery takes every processing event whose lease has run out back, to the dead
  letters at eight attempts and to the queue (available now) below, reports how many, leaves
  every other event as it was, and run again at the same time finds nothing.
\<close>

theorem recover_stale_leases_complete:
  assumes "outbox_ok (outbox w)"
  shows "\<exists>w'. recover_stale_leases now w = Inr (length (filter (stale now) (outbox w)), w') \<and>
    (\<forall>r \<in> set (outbox w'). \<not> stale now r) \<and>
    (\<forall>r \<in> set (outbox w). \<not> stale now r \<longrightarrow> r \<in> set (outbox w')) \<and>
    (\<forall>r \<in> set (outbox w). stale now r \<longrightarrow> (\<exists>r' \<in> set (outbox w'). o_id r' = o_id r \<and>
       o_lease_token r' = None \<and> o_status r' = (if o_attempts r \<ge> 8 then ODead else OPending))) \<and>
    recover_stale_leases now w' = Inr (0, w')"
proof -
  let ?w = "w\<lparr>outbox := map (recover_row now) (outbox w)\<rparr>"
  have eq: "recover_stale_leases now w = Inr (length (filter (stale now) (outbox w)), ?w)"
    using recover_eq [OF assms, of now] by (simp add: rowcount_def)
  have none: "\<not> stale now (recover_row now r)" for r
    by (simp add: recover_row_def stale_def)
  have "map o_id (outbox ?w) = map o_id (outbox w)" by (simp add: recover_row_def)
  then have ok: "outbox_ok (outbox ?w)"
    using assms by (auto simp: outbox_ok_def recover_row_def outbox_check_iff stale_def
        simp del: map_map split: if_splits)
  have twice: "map (recover_row now) (outbox ?w) = outbox ?w"
    using none by (auto simp: recover_row_def)
  have "filter (stale now) (outbox ?w) = []" using none by (auto simp: filter_empty_conv)
  then have again: "recover_stale_leases now ?w = Inr (0, ?w)"
    using recover_eq [OF ok, of now] twice by (simp add: rowcount_def)
  have taken: "\<exists>r' \<in> set (outbox ?w). o_id r' = o_id r \<and> o_lease_token r' = None \<and>
      o_status r' = (if o_attempts r \<ge> 8 then ODead else OPending)"
    if "r \<in> set (outbox w)" "stale now r" for r
    using that by (intro bexI [of _ "recover_row now r"]) (auto simp: recover_row_def)
  have kept: "r \<in> set (outbox ?w)" if "r \<in> set (outbox w)" "\<not> stale now r" for r
    using that by (auto simp: image_iff recover_row_def intro!: bexI [of _ r])
  have fresh: "\<forall>r \<in> set (outbox ?w). \<not> stale now r" using none by simp
  show ?thesis
    using eq fresh again taken kept by (intro exI [of _ ?w] conjI ballI impI) blast+
qed

theorem recover_stale_leases_complete_witness:
  "\<exists>w'. recover_stale_leases 100 (store ex_dispatch) = Inr (1, w')"
proof -
  have ok: "outbox_ok (outbox (store ex_dispatch))"
    using ex_dispatch_inv by (rule dispatch_inv_ok)
  have "length (filter (stale 100) (outbox (store ex_dispatch))) = 1" by code_simp
  with recover_stale_leases_complete [OF ok, of 100] show ?thesis by auto
qed

end
