(* ===== verification/Wellformed.thy ===== *)
theory Wellformed
imports Outbox
begin

text \<open>
  The invariant of the booking tables: the constraints the database itself enforces, and the
  two that only the service maintains, namely the link between offered entries and offered
  bookings and the order of event versions. With it, the lemmas that say when the single
  statements go through: an insert or update whose row obeys the constraints succeeds, and
  its effect on the table.
\<close>

section \<open>The invariant\<close>

definition booking_fks :: "db \<Rightarrow> booking \<Rightarrow> bool" where
  "booking_fks w b =
     (b_resource_id b \<in> r_id ` set (resources w) \<and>
      (case b_user_id b of None \<Rightarrow> True | Some u \<Rightarrow> u \<in> u_id ` set (users w)) \<and>
      (case b_created_by b of None \<Rightarrow> False | Some u \<Rightarrow> u \<in> u_id ` set (users w)))"

definition bookings_ok :: "db \<Rightarrow> bool" where
  "bookings_ok w =
     (distinct (map b_id (bookings w)) \<and> no_overlap (bookings w) \<and>
      (\<forall>b \<in> set (bookings w). booking_check b = None \<and> booking_fks w b))"

definition entry_fks :: "db \<Rightarrow> wait_entry \<Rightarrow> bool" where
  "entry_fks w e =
     (w_user_id e \<in> u_id ` set (users w) \<and> w_resource_id e \<in> r_id ` set (resources w) \<and>
      offer_fk_ok w e)"

definition entries_ok :: "db \<Rightarrow> bool" where
  "entries_ok w =
     (distinct (map w_id (waitlist w)) \<and> entries_unique (waitlist w) \<and>
      (\<forall>e \<in> set (waitlist w). entry_check e = None \<and> entry_fks w e))"

definition events_ok :: "db \<Rightarrow> bool" where
  "events_ok w =
     (outbox_ok (outbox w) \<and> sorted_wrt (\<lambda>r s. \<not> same_event r s) (outbox w) \<and>
      (\<forall>r \<in> set (outbox w). \<exists>b \<in> set (bookings w).
         o_aggregate_id r = b_id b \<and> o_aggregate_version r \<le> b_version b))"

text \<open>An offered entry and its booking name the same user, resource and window.\<close>

definition offer_of :: "wait_entry \<Rightarrow> booking \<Rightarrow> bool" where
  "offer_of e b =
     (w_offered_booking_id e = Some (b_id b) \<and> b_kind b = Reservation \<and>
      b_user_id b = Some (w_user_id e) \<and> b_resource_id b = w_resource_id e \<and>
      b_range b = w_range e)"

definition offers_linked :: "db \<Rightarrow> bool" where
  "offers_linked w =
     ((\<forall>e \<in> set (waitlist w). w_status e = WOffered \<longrightarrow>
         (\<exists>b \<in> set (bookings w). b_status b = BOffered \<and> offer_of e b)) \<and>
      (\<forall>b \<in> set (bookings w). b_status b = BOffered \<longrightarrow>
         (\<exists>e \<in> set (waitlist w). w_status e = WOffered \<and> offer_of e b)))"

definition people_ok :: "db \<Rightarrow> bool" where
  "people_ok w = (distinct (map u_id (users w)) \<and> distinct (map r_id (resources w)))"

definition db_ok :: "db \<Rightarrow> bool" where
  "db_ok w = (people_ok w \<and> bookings_ok w \<and> entries_ok w \<and> events_ok w \<and> offers_linked w)"

lemma db_okD:
  assumes "db_ok w"
  shows "people_ok w" "bookings_ok w" "entries_ok w" "events_ok w" "offers_linked w"
  using assms by (simp_all add: db_ok_def)

text \<open>The invariant reads only the five tables: ticks of the clock and new UUIDs keep it.\<close>

definition same_tables :: "db \<Rightarrow> db \<Rightarrow> bool" where
  "same_tables w w' =
     (users w' = users w \<and> resources w' = resources w \<and> bookings w' = bookings w \<and>
      waitlist w' = waitlist w \<and> outbox w' = outbox w)"

lemma db_ok_same: "same_tables w w' \<Longrightarrow> db_ok w' = db_ok w"
  by (simp add: same_tables_def db_ok_def people_ok_def bookings_ok_def entries_ok_def events_ok_def
      offers_linked_def booking_fks_def entry_fks_def offer_fk_ok_def cong: option.case_cong)

lemma same_tables_simps [simp]:
  "same_tables w w"
  "same_tables w (w\<lparr>ticks := n\<rparr>)"
  "same_tables w (w\<lparr>drawn := n\<rparr>)"
  "same_tables w (w\<lparr>tx_now := t\<rparr>)"
  "same_tables w (w\<lparr>audit_log := a\<rparr>)"
  by (simp_all add: same_tables_def)

lemma fks_frame [simp]:
  "booking_fks (w\<lparr>bookings := t\<rparr>) b = booking_fks w b"
  "booking_fks (w\<lparr>waitlist := t'\<rparr>) b = booking_fks w b"
  "booking_fks (w\<lparr>outbox := t''\<rparr>) b = booking_fks w b"
  "booking_fks (w\<lparr>drawn := n\<rparr>) b = booking_fks w b"
  "booking_fks (w\<lparr>ticks := n\<rparr>) b = booking_fks w b"
  "entry_fks (w\<lparr>waitlist := t'\<rparr>) e = entry_fks w e"
  "entry_fks (w\<lparr>outbox := t''\<rparr>) e = entry_fks w e"
  "entry_fks (w\<lparr>drawn := n\<rparr>) e = entry_fks w e"
  "entry_fks (w\<lparr>ticks := n\<rparr>) e = entry_fks w e"
  by (simp_all add: booking_fks_def entry_fks_def offer_fk_ok_def cong: option.case_cong)

section \<open>Fresh UUIDs\<close>

definition ids :: "db \<Rightarrow> uuid set" where
  "ids w = b_id ` set (bookings w) \<union> w_id ` set (waitlist w) \<union> o_id ` set (outbox w)
     \<union> a_id ` set (audit_log w)"

text \<open>The next k UUIDs are distinct and none of them is in use.\<close>

definition fresh_ids :: "nat \<Rightarrow> db \<Rightarrow> bool" where
  "fresh_ids k w =
     (inj_on (\<lambda>j. uuid_src w (drawn w + j)) {..<k} \<and>
      (\<forall>j < k. uuid_src w (drawn w + j) \<notin> ids w))"

lemma fresh_ids_next: "fresh_ids k w \<Longrightarrow> 0 < k \<Longrightarrow> uuid_src w (drawn w) \<notin> ids w"
  by (auto simp: fresh_ids_def dest: spec [of _ 0])

lemma fresh_ids_mono: "fresh_ids k w \<Longrightarrow> j \<le> k \<Longrightarrow> fresh_ids j w"
  by (auto simp: fresh_ids_def intro: inj_on_subset)

lemma fresh_ids_draw:
  assumes "fresh_ids (Suc k) w" "uuid_src w' = uuid_src w" "drawn w' = Suc (drawn w)"
    and "ids w' \<subseteq> insert (uuid_src w (drawn w)) (ids w)"
  shows "fresh_ids k w'"
proof -
  have j: "uuid_src w' (drawn w' + j) = uuid_src w (drawn w + Suc j)" for j
    using assms(2,3) by simp
  have inj: "uuid_src w (drawn w + a) = uuid_src w (drawn w + b) \<Longrightarrow> a < Suc k \<Longrightarrow> b < Suc k \<Longrightarrow> a = b"
    for a b using assms(1) by (auto simp: fresh_ids_def inj_on_def)
  have "inj_on (\<lambda>j. uuid_src w' (drawn w' + j)) {..<k}"
    unfolding j by (rule inj_onI) (drule inj; simp)
  moreover have "uuid_src w' (drawn w' + i) \<notin> ids w'" if "i < k" for i
  proof
    assume "uuid_src w' (drawn w' + i) \<in> ids w'"
    with assms(4) have "uuid_src w (drawn w + Suc i) \<in> insert (uuid_src w (drawn w)) (ids w)"
      unfolding j by blast
    moreover have "uuid_src w (drawn w + Suc i) \<notin> ids w"
      using assms(1) that unfolding fresh_ids_def by blast
    ultimately show False using inj [of "Suc i" 0] that by simp
  qed
  ultimately show ?thesis by (simp add: fresh_ids_def)
qed

text \<open>Two UUIDs drawn and put to use.\<close>

lemma fresh_ids_draw2:
  assumes "fresh_ids (Suc (Suc k)) w" "uuid_src w' = uuid_src w" "drawn w' = Suc (Suc (drawn w))"
    and "ids w' \<subseteq> insert (uuid_src w (drawn w)) (insert (uuid_src w (Suc (drawn w))) (ids w))"
  shows "fresh_ids k w'"
proof -
  have inj: "uuid_src w (drawn w + a) = uuid_src w (drawn w + b) \<Longrightarrow> a < Suc (Suc k) \<Longrightarrow>
      b < Suc (Suc k) \<Longrightarrow> a = b" for a b
    using assms(1) by (auto simp: fresh_ids_def inj_on_def)
  have j: "uuid_src w' (drawn w' + j) = uuid_src w (drawn w + Suc (Suc j))" for j
    using assms(2,3) by simp
  have "inj_on (\<lambda>j. uuid_src w' (drawn w' + j)) {..<k}"
    unfolding j by (rule inj_onI) (drule inj; simp)
  moreover have "uuid_src w' (drawn w' + i) \<notin> ids w'" if "i < k" for i
  proof
    assume "uuid_src w' (drawn w' + i) \<in> ids w'"
    with assms(4) have "uuid_src w (drawn w + Suc (Suc i)) \<in> insert (uuid_src w (drawn w))
        (insert (uuid_src w (Suc (drawn w))) (ids w))"
      unfolding j by blast
    moreover have "uuid_src w (drawn w + Suc (Suc i)) \<notin> ids w"
      using assms(1) that unfolding fresh_ids_def by blast
    ultimately show False using inj [of "Suc (Suc i)" 0] inj [of "Suc (Suc i)" 1] that by auto
  qed
  ultimately show ?thesis by (simp add: fresh_ids_def)
qed

lemma fresh_ids_same:
  "uuid_src w' = uuid_src w \<Longrightarrow> drawn w' = drawn w \<Longrightarrow> ids w' \<subseteq> ids w \<Longrightarrow> fresh_ids k w \<Longrightarrow> fresh_ids k w'"
  by (auto simp: fresh_ids_def)

section \<open>Tables under row-wise updates\<close>

lemma sorted_wrt_map_mono:
  assumes "sorted_wrt R xs"
    and "\<And>x y. x \<in> set xs \<Longrightarrow> y \<in> set xs \<Longrightarrow> R x y \<Longrightarrow> R (g x) (g y)"
  shows "sorted_wrt R (map g xs)"
  using assms by (induction xs) auto

lemma sorted_wrt_map_distinct:
  assumes "sorted_wrt R xs" "distinct xs"
    and "\<And>x y. x \<in> set xs \<Longrightarrow> y \<in> set xs \<Longrightarrow> x \<noteq> y \<Longrightarrow> R x y \<Longrightarrow> R (g x) (g y)"
  shows "sorted_wrt R (map g xs)"
  using assms by (induction xs) auto

text \<open>An UPDATE by id and pinned version, where the version is the current one.\<close>

lemma pinned_update:
  assumes "distinct (map key t)" "r \<in> set t" "key r = i" "ver r = v"
  shows "update_where (\<lambda>x. key x = i \<and> ver x = v) f t = update_where (\<lambda>x. key x = i) f t"
    "rowcount (\<lambda>x. key x = i \<and> ver x = v) t = 1"
    "filter (\<lambda>x. key x = i \<and> ver x = v) t = [r]"
proof -
  have "x = r" if "x \<in> set t" "key x = i" for x
    using distinct_key_eq [OF assms(1) that(1) assms(2)] that(2) assms(3) by simp
  then show "update_where (\<lambda>x. key x = i \<and> ver x = v) f t = update_where (\<lambda>x. key x = i) f t"
    using assms(4) by (auto simp: update_where_def)
  show "rowcount (\<lambda>x. key x = i \<and> ver x = v) t = 1"
    using assms by (rule rowcount_key_one [where P = "\<lambda>x. ver x = v"])
  show "filter (\<lambda>x. key x = i \<and> ver x = v) t = [r]"
    using assms by (rule filter_key_and_distinct [where P = "\<lambda>x. ver x = v"])
qed

subsection \<open>bookings\<close>

lemma overlaps_sym: "overlaps r s = overlaps s r"
  by (auto simp: overlaps_def)

lemma conflict_sym: "booking_conflict b c = booking_conflict c b"
  by (auto simp: booking_conflict_def overlaps_sym)

lemma booking_check_iff:
  "booking_check b = None \<longleftrightarrow>
     (\<forall>s. b_cancellation_reason b = Some s \<longrightarrow> length s \<le> 500) \<and>
     ((b_kind b = Reservation) = (b_user_id b \<noteq> None)) \<and>
     (b_kind b = Blackout \<longrightarrow> b_status b \<in> {BConfirmed, BCancelled}) \<and>
     ((b_status b = BOffered) = (b_expires_at b \<noteq> None)) \<and>
     (\<forall>t. b_expires_at b = Some t \<longrightarrow> t \<le> lower (b_range b)) \<and>
     \<not> isempty (b_range b) \<and> 0 < b_version b"
  by (cases "b_kind b")
    (auto simp: booking_check_def first_some_None split: option.splits)

lemma bookings_okD:
  assumes "bookings_ok w" "b \<in> set (bookings w)"
  shows "booking_check b = None" "booking_fks w b"
  using assms by (simp_all add: bookings_ok_def)

lemma no_overlapD:
  assumes "no_overlap t" "b \<in> set t" "c \<in> set t" "b_id b \<noteq> b_id c"
  shows "\<not> booking_conflict b c"
proof -
  obtain i j where ij: "i < length t" "j < length t" "t ! i = b" "t ! j = c"
    using assms(2,3) by (auto simp: in_set_conv_nth)
  with assms(4) have "i < j \<or> j < i" by (metis linorder_neqE_nat)
  then show ?thesis
    using assms(1) ij conflict_sym unfolding no_overlap_def sorted_wrt_iff_nth_less by blast
qed

lemma insert_booking_runs:
  assumes "booking_check b = None" "b_id b \<notin> b_id ` set (bookings w)" "booking_fks w b"
    and "\<forall>c \<in> set (bookings w). \<not> booking_conflict b c"
  shows "insert_booking b w = Inr (w\<lparr>bookings := bookings w @ [b]\<rparr>)"
  using assms by (auto simp: insert_booking_def booking_fks_def split: option.splits)

lemma insert_booking_Inr:
  "insert_booking b w = Inr w' \<longleftrightarrow>
     booking_check b = None \<and> b_id b \<notin> b_id ` set (bookings w) \<and> booking_fks w b \<and>
     (\<forall>c \<in> set (bookings w). \<not> booking_conflict b c) \<and> w' = w\<lparr>bookings := bookings w @ [b]\<rparr>"
  by (auto simp: insert_booking_def booking_fks_def split: option.splits)

lemma no_overlap_snoc:
  "no_overlap (t @ [b]) \<longleftrightarrow> no_overlap t \<and> (\<forall>c \<in> set t. \<not> booking_conflict b c)"
  using conflict_sym by (auto simp: no_overlap_def sorted_wrt_append)

text \<open>
  A row update that the trigger and the checks admit and that does not newly activate the
  row: the statement goes through and keeps the table well formed.
\<close>

definition booking_step :: "booking \<Rightarrow> booking \<Rightarrow> bool" where
  "booking_step b b' =
     (guard_booking_update b b' = None \<and> booking_check b' = None \<and> b_id b' = b_id b \<and>
      (active_booking b' \<longrightarrow> active_booking b))"

lemma booking_stepD:
  assumes "booking_step b b'"
  shows "guard_booking_update b b' = None" "booking_check b' = None" "b_id b' = b_id b"
    "active_booking b' \<Longrightarrow> active_booking b"
  using assms by (simp_all add: booking_step_def)

lemma booking_step_conflict:
  "booking_step b b' \<Longrightarrow> booking_step c c' \<Longrightarrow> booking_conflict b' c' \<Longrightarrow> booking_conflict b c"
  by (auto simp: booking_step_def booking_conflict_def guard_booking_update_def split: if_splits)

lemma booking_step_fks: "booking_step b b' \<Longrightarrow> booking_fks w b' = booking_fks w b"
  by (auto simp: booking_step_def booking_fks_def guard_booking_update_def split: if_splits)

lemma conflict_kept:
  assumes "no_overlap t" "\<And>b. b \<in> set t \<Longrightarrow> P b \<Longrightarrow> booking_step b (f b)"
  shows "no_overlap (update_where P f t)"
  unfolding no_overlap_def update_where_def
proof (rule sorted_wrt_map_mono)
  show "sorted_wrt (\<lambda>b c. \<not> booking_conflict b c) t" using assms(1) by (simp add: no_overlap_def)
  fix x y
  assume "x \<in> set t" "y \<in> set t" "\<not> booking_conflict x y"
  then show "\<not> booking_conflict (if P x then f x else x) (if P y then f y else y)"
    using assms(2) [of x] assms(2) [of y]
    by (auto simp: booking_step_def booking_conflict_def guard_booking_update_def split: if_splits)
qed

lemma update_bookings_runs:
  assumes ok: "bookings_ok w" and f: "\<And>b. b \<in> set (bookings w) \<Longrightarrow> P b \<Longrightarrow> booking_step b (f b)"
  shows "update_bookings P f w = Inr (rowcount P (bookings w),
      w\<lparr>bookings := update_where P f (bookings w)\<rparr>)"
    "bookings_ok (w\<lparr>bookings := update_where P f (bookings w)\<rparr>)"
proof -
  have no: "no_overlap (update_where P f (bookings w))"
    using ok f by (intro conflict_kept) (auto simp: bookings_ok_def)
  have "first_error (\<lambda>b. first_some [guard_booking_update b (f b), booking_check (f b)])
      (filter P (bookings w)) = None"
    using f by (auto simp: first_error_None first_some_None booking_step_def)
  with no show "update_bookings P f w = Inr (rowcount P (bookings w),
      w\<lparr>bookings := update_where P f (bookings w)\<rparr>)"
    by (simp add: update_bookings_def)
  have "map b_id (update_where P f (bookings w)) = map b_id (bookings w)"
    using f by (intro map_update_where) (auto simp: booking_step_def)
  then show "bookings_ok (w\<lparr>bookings := update_where P f (bookings w)\<rparr>)"
    using ok no booking_step_fks [OF f] booking_stepD(2) [OF f] unfolding bookings_ok_def
    by (auto simp: set_update_where)
qed

subsection \<open>waitlist_entries\<close>

lemma entry_check_iff:
  "entry_check e = None \<longleftrightarrow>
     (w_status e \<in> {WOffered, WAccepted} \<longrightarrow> w_offered_booking_id e \<noteq> None) \<and>
     \<not> isempty (w_range e) \<and> 0 < w_version e"
  by (auto simp: entry_check_def first_some_None)

lemma entries_okD:
  assumes "entries_ok w" "e \<in> set (waitlist w)"
  shows "entry_check e = None" "entry_fks w e"
  using assms by (simp_all add: entries_ok_def)

text \<open>
  A row update of entries: identity and window stay, the row does not become active, and the
  booking it points at stays or was none and is pointed at by no other entry.
\<close>

definition entry_step :: "db \<Rightarrow> wait_entry \<Rightarrow> wait_entry \<Rightarrow> bool" where
  "entry_step w e e' =
     (entry_check e' = None \<and> w_id e' = w_id e \<and> w_user_id e' = w_user_id e \<and>
      w_resource_id e' = w_resource_id e \<and> w_range e' = w_range e \<and>
      (active_entry e' \<longrightarrow> active_entry e) \<and>
      (w_offered_booking_id e' = w_offered_booking_id e \<or>
       (\<exists>b. w_offered_booking_id e' = Some b \<and> b \<in> b_id ` set (bookings w) \<and>
            (\<forall>d \<in> set (waitlist w). w_offered_booking_id d \<noteq> Some b))))"

lemma entry_stepD:
  assumes "entry_step w e e'"
  shows "entry_check e' = None" "w_id e' = w_id e" "w_user_id e' = w_user_id e"
    "w_resource_id e' = w_resource_id e" "w_range e' = w_range e"
    "active_entry e' \<Longrightarrow> active_entry e"
  using assms by (simp_all add: entry_step_def)

lemma entry_step_fks: "entry_step w e e' \<Longrightarrow> entry_fks w e \<Longrightarrow> entry_fks w e'"
  by (auto simp: entry_step_def entry_fks_def offer_fk_ok_def)

lemma update_one_entry_runs:
  assumes ok: "entries_ok w" and e: "e \<in> set (waitlist w)" and f: "entry_step w e (f e)"
  shows "update_entries (\<lambda>x. w_id x = w_id e \<and> w_version x = w_version e) f w
      = Inr (1, w\<lparr>waitlist := update_where (\<lambda>x. w_id x = w_id e) f (waitlist w)\<rparr>)"
    "entries_ok (w\<lparr>waitlist := update_where (\<lambda>x. w_id x = w_id e) f (waitlist w)\<rparr>)"
proof -
  let ?P = "\<lambda>x. w_id x = w_id e" and ?Q = "\<lambda>x. w_id x = w_id e \<and> w_version x = w_version e"
  let ?t = "update_where ?P f (waitlist w)"
  have dist: "distinct (map w_id (waitlist w))" using ok by (simp add: entries_ok_def)
  have only: "x = e" if "x \<in> set (waitlist w)" "w_id x = w_id e" for x
    using distinct_key_eq [OF dist that(1) e that(2)] .
  note pin = pinned_update [where ver = w_version, OF dist e refl refl]
  have uniq: "entries_unique ?t"
    unfolding entries_unique_def update_where_def
  proof (rule sorted_wrt_map_distinct)
    show "sorted_wrt (\<lambda>d e. \<not> same_active_entry d e \<and> \<not> same_offer d e) (waitlist w)"
      using ok by (simp add: entries_ok_def entries_unique_def)
    show "distinct (waitlist w)" using dist by (simp add: distinct_map)
    fix x y
    let ?g = "\<lambda>x. if w_id x = w_id e then f x else x"
    assume xy: "x \<in> set (waitlist w)" "y \<in> set (waitlist w)" "x \<noteq> y"
      and R: "\<not> same_active_entry x y \<and> \<not> same_offer x y"
    have new: "w_offered_booking_id (f e) = w_offered_booking_id e \<or>
        (\<forall>d \<in> set (waitlist w). w_offered_booking_id d \<noteq> w_offered_booking_id (f e))"
      using f by (auto simp: entry_step_def)
    consider "x = e" "w_id y \<noteq> w_id e" | "y = e" "w_id x \<noteq> w_id e" | "w_id x \<noteq> w_id e" "w_id y \<noteq> w_id e"
      using only [OF xy(1)] only [OF xy(2)] xy(3) by blast
    then show "\<not> same_active_entry (?g x) (?g y) \<and> \<not> same_offer (?g x) (?g y)"
    proof cases
      case 1
      then show ?thesis
        using R xy(2) new entry_stepD(3-6) [OF f] by (auto simp: same_active_entry_def same_offer_def)
    next
      case 2
      then show ?thesis
        using R xy(1) new entry_stepD(3-6) [OF f] by (auto simp: same_active_entry_def same_offer_def)
    next
      case 3
      then show ?thesis using R by simp
    qed
  qed
  have "first_error (\<lambda>e. entry_check (f e)) (filter ?Q (waitlist w)) = None"
    unfolding pin(3) using entry_stepD(1) [OF f] by simp
  moreover have "offer_fk_ok w (f e)"
    using entry_step_fks [OF f] entries_okD(2) [OF ok e] by (simp add: entry_fks_def)
  ultimately show "update_entries ?Q f w = Inr (1, w\<lparr>waitlist := ?t\<rparr>)"
    unfolding update_entries_def pin using uniq by simp
  have "map w_id ?t = map w_id (waitlist w)"
    using only entry_stepD(2) [OF f] by (intro map_update_where) auto
  then show "entries_ok (w\<lparr>waitlist := ?t\<rparr>)"
    using ok uniq only entry_stepD(1) [OF f] entry_step_fks [OF f] unfolding entries_ok_def
    by (auto simp: set_update_where)
qed

lemma entries_unique_snoc:
  "entries_unique (t @ [e]) \<longleftrightarrow>
     entries_unique t \<and> (\<forall>d \<in> set t. \<not> same_active_entry d e \<and> \<not> same_offer d e)"
  by (auto simp: entries_unique_def sorted_wrt_append)

lemma insert_entry_Inr:
  "insert_entry e w = Inr w' \<longleftrightarrow>
     entry_check e = None \<and> w_id e \<notin> w_id ` set (waitlist w) \<and> entry_fks w e \<and>
     (\<forall>d \<in> set (waitlist w). \<not> same_active_entry d e \<and> \<not> same_offer d e) \<and>
     w' = w\<lparr>waitlist := waitlist w @ [e]\<rparr>"
  by (auto simp: insert_entry_def entry_fks_def split: option.splits)

text \<open>New bookings leave the entries' references valid.\<close>

lemma entries_ok_more_bookings:
  assumes "entries_ok w" "b_id ` set (bookings w) \<subseteq> b_id ` set t"
  shows "entries_ok (w\<lparr>bookings := t\<rparr>)"
  using assms by (auto simp: entries_ok_def entry_fks_def offer_fk_ok_def split: option.splits)

subsection \<open>outbox\<close>

lemma event_row_check:
  "outbox_check \<lparr>o_id = i, o_event_type = et, o_aggregate_id = a, o_aggregate_version = v,
     o_payload = event_payload b, o_status = OPending, o_attempts = 0, o_occurred_at = t,
     o_available_at = t, o_lease_until = None, o_lease_token = None, o_delivered_at = None,
     o_last_error = None\<rparr> = None"
  by (simp add: outbox_check_iff event_payload_def)

text \<open>
  An event of a stored booking, at a version no earlier event of it has, goes in.
\<close>

lemma append_event_runs:
  assumes ok: "events_ok w" and b: "b \<in> set (bookings w)"
    and new: "\<forall>r \<in> set (outbox w). o_aggregate_id r = b_id b \<longrightarrow> o_aggregate_version r < b_version b"
    and fresh: "uuid_src w (drawn w) \<notin> o_id ` set (outbox w)"
  shows "\<exists>r. append_event et b now w = Inr (uuid_src w (drawn w),
        w\<lparr>drawn := Suc (drawn w), outbox := outbox w @ [r]\<rparr>) \<and>
      o_id r = uuid_src w (drawn w) \<and>
      o_event_type r = et \<and> o_aggregate_id r = b_id b \<and> o_aggregate_version r = b_version b \<and>
      o_status r = OPending \<and> o_payload r = event_payload b \<and>
      events_ok (w\<lparr>drawn := Suc (drawn w), outbox := outbox w @ [r]\<rparr>)"
proof -
  let ?at = "case now of None \<Rightarrow> tx_now w | Some t \<Rightarrow> t"
  define r where "r = \<lparr>o_id = uuid_src w (drawn w), o_event_type = et, o_aggregate_id = b_id b,
     o_aggregate_version = b_version b,
     o_payload = event_payload b, o_status = OPending, o_attempts = 0, o_occurred_at = ?at,
     o_available_at = ?at, o_lease_until = None, o_lease_token = None, o_delivered_at = None,
     o_last_error = None\<rparr>"
  have chk: "outbox_check r = None" unfolding r_def by (rule event_row_check)
  have nosame: "\<not> same_event s r \<and> \<not> same_event r s" if "s \<in> set (outbox w)" for s
    using new that by (auto simp: same_event_def r_def)
  have fk: "o_aggregate_id r \<in> b_id ` set (bookings w)" using b by (simp add: r_def)
  have "insert_outbox r (w\<lparr>drawn := Suc (drawn w)\<rparr>)
      = Inr (w\<lparr>drawn := Suc (drawn w), outbox := outbox w @ [r]\<rparr>)"
    using chk nosame fk fresh by (auto simp: insert_outbox_def r_def)
  then have run: "append_event et b now w = Inr (uuid_src w (drawn w),
        w\<lparr>drawn := Suc (drawn w), outbox := outbox w @ [r]\<rparr>)"
    by (simp add: append_event_def uuid4_def Let_def r_def)
  have "events_ok (w\<lparr>drawn := Suc (drawn w), outbox := outbox w @ [r]\<rparr>)"
    using ok chk nosame fresh b
    by (auto simp: events_ok_def outbox_ok_def sorted_wrt_append r_def)
  with run show ?thesis by (intro exI [of _ r]) (simp add: r_def)
qed

text \<open>Bookings may be added and their versions may grow.\<close>

lemma events_ok_bookings:
  assumes "events_ok w"
    and "\<And>b. b \<in> set (bookings w) \<Longrightarrow> \<exists>b' \<in> set t. b_id b' = b_id b \<and> b_version b \<le> b_version b'"
  shows "events_ok (w\<lparr>bookings := t\<rparr>)"
proof -
  have "\<exists>b' \<in> set t. o_aggregate_id r = b_id b' \<and> o_aggregate_version r \<le> b_version b'"
    if r: "r \<in> set (outbox w)" for r
  proof -
    obtain b where b: "b \<in> set (bookings w)" "o_aggregate_id r = b_id b"
        "o_aggregate_version r \<le> b_version b"
      using assms(1) r by (auto simp: events_ok_def)
    with assms(2) [OF b(1)] show ?thesis by (metis order_trans)
  qed
  then show ?thesis using assms(1) by (simp add: events_ok_def)
qed

section \<open>Frames\<close>

text \<open>What a component of the invariant does not read does not matter to it.\<close>

lemma bookings_ok_frame [simp]:
  "bookings_ok (w\<lparr>waitlist := es\<rparr>) = bookings_ok w"
  "bookings_ok (w\<lparr>outbox := os\<rparr>) = bookings_ok w"
  "bookings_ok (w\<lparr>drawn := n\<rparr>) = bookings_ok w"
  "bookings_ok (w\<lparr>ticks := n\<rparr>) = bookings_ok w"
  "bookings_ok (w\<lparr>audit_log := as\<rparr>) = bookings_ok w"
  by (simp_all add: bookings_ok_def booking_fks_def cong: option.case_cong)

lemma entries_ok_frame [simp]:
  "entries_ok (w\<lparr>outbox := os\<rparr>) = entries_ok w"
  "entries_ok (w\<lparr>drawn := n\<rparr>) = entries_ok w"
  "entries_ok (w\<lparr>ticks := n\<rparr>) = entries_ok w"
  "entries_ok (w\<lparr>audit_log := as\<rparr>) = entries_ok w"
  by (simp_all add: entries_ok_def entry_fks_def offer_fk_ok_def cong: option.case_cong)

lemma events_ok_frame [simp]:
  "events_ok (w\<lparr>waitlist := es\<rparr>) = events_ok w"
  "events_ok (w\<lparr>drawn := n\<rparr>) = events_ok w"
  "events_ok (w\<lparr>ticks := n\<rparr>) = events_ok w"
  "events_ok (w\<lparr>audit_log := as\<rparr>) = events_ok w"
  by (simp_all add: events_ok_def)

lemma offers_linked_frame [simp]:
  "offers_linked (w\<lparr>outbox := os\<rparr>) = offers_linked w"
  "offers_linked (w\<lparr>drawn := n\<rparr>) = offers_linked w"
  "offers_linked (w\<lparr>ticks := n\<rparr>) = offers_linked w"
  "offers_linked (w\<lparr>audit_log := as\<rparr>) = offers_linked w"
  by (simp_all add: offers_linked_def)

lemma people_ok_frame [simp]:
  "people_ok (w\<lparr>bookings := bs\<rparr>) = people_ok w"
  "people_ok (w\<lparr>waitlist := es\<rparr>) = people_ok w"
  "people_ok (w\<lparr>outbox := os\<rparr>) = people_ok w"
  "people_ok (w\<lparr>drawn := n\<rparr>) = people_ok w"
  "people_ok (w\<lparr>ticks := n\<rparr>) = people_ok w"
  "people_ok (w\<lparr>audit_log := as\<rparr>) = people_ok w"
  by (simp_all add: people_ok_def)

lemma db_ok_frame [simp]:
  "db_ok (w\<lparr>drawn := n\<rparr>) = db_ok w"
  "db_ok (w\<lparr>ticks := n\<rparr>) = db_ok w"
  "db_ok (w\<lparr>audit_log := as\<rparr>) = db_ok w"
  by (simp_all add: db_ok_def)

lemma ids_frame [simp]:
  "ids (w\<lparr>ticks := n\<rparr>) = ids w"
  "ids (w\<lparr>drawn := n\<rparr>) = ids w"
  by (simp_all add: ids_def)

lemma update_entries_cong:
  assumes "\<And>x. x \<in> set (waitlist w) \<Longrightarrow> P x = Q x"
  shows "update_entries P f w = update_entries Q f w"
proof -
  have "filter P (waitlist w) = filter Q (waitlist w)" using assms by (rule filter_cong [OF refl])
  moreover have "update_where P f (waitlist w) = update_where Q f (waitlist w)"
    using assms by (auto simp: update_where_def)
  ultimately show ?thesis unfolding update_entries_def rowcount_def by (simp only:)
qed

lemma events_fk: "events_ok w \<Longrightarrow> r \<in> set (outbox w) \<Longrightarrow> o_aggregate_id r \<in> b_id ` set (bookings w)"
  unfolding events_ok_def by (metis imageI)

lemma events_version:
  assumes "bookings_ok w" "events_ok w" "r \<in> set (outbox w)" "b \<in> set (bookings w)" "o_aggregate_id r = b_id b"
  shows "o_aggregate_version r \<le> b_version b"
proof -
  obtain c where c: "c \<in> set (bookings w)" "o_aggregate_id r = b_id c" "o_aggregate_version r \<le> b_version c"
    using assms(2,3) by (auto simp: events_ok_def)
  then have "c = b" using assms(1,4,5) by (auto simp: bookings_ok_def intro: distinct_key_eq)
  with c show ?thesis by simp
qed

section \<open>The link between offers and bookings\<close>

lemma image_update_where:
  assumes "\<And>r. g (f r) = g r"
  shows "g ` set (update_where P f t) = g ` set t"
proof -
  have "map g (update_where P f t) = map g t" using assms by (intro map_update_where)
  then show ?thesis by (metis list.set_map)
qed

lemma offers_linked_new:
  assumes linked: "offers_linked w"
    and only: "\<And>x. x \<in> set (waitlist w) \<Longrightarrow> w_id x = w_id e \<Longrightarrow> x = e"
    and e: "e \<in> set (waitlist w)" "w_status e = WWaiting"
    and pair: "offer_of (f e) ob" "w_status (f e) = WOffered" "b_status ob = BOffered"
  shows "offers_linked (w\<lparr>bookings := bookings w @ [ob],
      waitlist := update_where (\<lambda>x. w_id x = w_id e) f (waitlist w)\<rparr>)"
proof -
  let ?t = "update_where (\<lambda>x. w_id x = w_id e) f (waitlist w)"
  have fe: "f e \<in> set ?t" using e(1) by (auto simp: set_update_where)
  have "\<exists>b \<in> set (bookings w @ [ob]). b_status b = BOffered \<and> offer_of x b"
    if x: "x \<in> set ?t" "w_status x = WOffered" for x
  proof -
    have "x = f e \<or> x \<in> set (waitlist w)" using x only by (auto simp: set_update_where)
    then show ?thesis
    proof
      assume "x = f e"
      then show ?thesis using pair by auto
    next
      assume "x \<in> set (waitlist w)"
      then show ?thesis using linked x(2) by (auto simp: offers_linked_def)
    qed
  qed
  moreover have "\<exists>x \<in> set ?t. w_status x = WOffered \<and> offer_of x b"
    if b: "b \<in> set (bookings w @ [ob])" "b_status b = BOffered" for b
  proof (cases "b = ob")
    case True
    then show ?thesis using pair fe by blast
  next
    case False
    with b linked obtain x where x: "x \<in> set (waitlist w)" "w_status x = WOffered" "offer_of x b"
      by (auto simp: offers_linked_def)
    then have "w_id x \<noteq> w_id e" using only [of x] e(2) by auto
    with x have "x \<in> set ?t" by (auto simp: set_update_where)
    with x show ?thesis by blast
  qed
  ultimately show ?thesis by (simp add: offers_linked_def)
qed

text \<open>An entry that is and stays without an offer does not matter to the link.\<close>

lemma offers_linked_other:
  assumes linked: "offers_linked w" and e: "e \<in> set (waitlist w)"
    and only: "\<And>x. x \<in> set (waitlist w) \<Longrightarrow> w_id x = w_id e \<Longrightarrow> x = e"
    and f: "w_status e \<noteq> WOffered" "w_status (f e) \<noteq> WOffered"
  shows "offers_linked (w\<lparr>waitlist := update_where (\<lambda>x. w_id x = w_id e) f (waitlist w)\<rparr>)"
proof -
  let ?t = "update_where (\<lambda>x. w_id x = w_id e) f (waitlist w)"
  have same: "x \<in> set ?t \<and> w_status x = WOffered \<longleftrightarrow> x \<in> set (waitlist w) \<and> w_status x = WOffered" for x
    using only f by (fastforce simp: set_update_where)
  then show ?thesis using linked unfolding offers_linked_def by (simp add: Ball_def Bex_def) (metis same)
qed

end
