(* ===== verification/Promotion.thy ===== *)
theory Promotion
imports Wellformed
begin

text \<open>
  promote_waiters (app/waitlist/service.py): the scan of a resource's waiting entries in
  keyset pages, the decision on one entry, and the savepoint in which an offer is made. The
  resource row is locked for the whole scan, so no other transaction interferes with it; the
  fallback on the argument now is never taken, because clock_timestamp() is never NULL.
\<close>

section \<open>One entry\<close>

text \<open>UPDATE ... SET status='expired' WHERE id and version, for the entry as read.\<close>

definition expired_entry :: "time \<Rightarrow> wait_entry \<Rightarrow> wait_entry" where
  "expired_entry db_now x =
     x\<lparr>w_status := WExpired, w_version := w_version x + 1, w_updated_at := db_now\<rparr>"

definition offered_entry :: "uuid \<Rightarrow> time \<Rightarrow> wait_entry \<Rightarrow> wait_entry" where
  "offered_entry bid offer_now x =
     x\<lparr>w_status := WOffered, w_offered_booking_id := Some bid, w_version := w_version x + 1,
       w_updated_at := offer_now\<rparr>"

interpretation expired_row: versioned_row w_id w_version "expired_entry t" for t
  by unfold_locales (simp_all add: expired_entry_def)

interpretation offered_row: versioned_row w_id w_version "offered_entry b t" for b t
  by unfold_locales (simp_all add: offered_entry_def)

definition pinned_entry :: "wait_entry \<Rightarrow> wait_entry \<Rightarrow> bool" where
  "pinned_entry e x = (w_id x = w_id e \<and> w_version x = w_version e)"

definition offer_deadline :: "time \<Rightarrow> wait_entry \<Rightarrow> time" where
  "offer_deadline offer_now e =
     (if offer_now + minutes 15 > lower (w_range e) then lower (w_range e)
      else offer_now + minutes 15)"

definition offered_booking :: "uuid \<Rightarrow> uuid \<Rightarrow> time \<Rightarrow> wait_entry \<Rightarrow> db \<Rightarrow> booking" where
  "offered_booking bid resource_id offer_now e w =
     \<lparr>b_id = bid, b_resource_id = resource_id, b_user_id = Some (w_user_id e),
      b_created_by = Some (w_user_id e), b_kind = Reservation, b_range = w_range e,
      b_status = BOffered, b_expires_at = Some (offer_deadline offer_now e),
      b_cancellation_reason = None, b_version = 1, b_created_at = tx_now w,
      b_updated_at = tx_now w\<rparr>"

text \<open>The body of the savepoint: booking, entry and event, or none of them.\<close>

definition attempt_offer :: "booking \<Rightarrow> time \<Rightarrow> wait_entry \<Rightarrow> db \<Rightarrow> db result" where
  "attempt_offer ob offer_now e w =
     bind_r (insert_booking ob w) (\<lambda>w1.
     bind_r (update_entries (\<lambda>x. pinned_entry e x \<and> w_status x = WWaiting)
               (offered_entry (b_id ob) offer_now) w1) (\<lambda>(n, w2).
     if n \<noteq> 1 then Inl RuntimeError
     else bind_r (append_event EWaitlistOffered ob (Some offer_now) w2) (\<lambda>(_, w3). Inr w3)))"

text \<open>The exceptions of the savepoint that count as a conflict and skip the entry.\<close>

definition is_conflict :: "exn \<Rightarrow> bool" where
  "is_conflict x = (x = IntegrityError ''23P01'' ''bookings_no_overlap'' \<or> x = RuntimeError)"

text \<open>
  The offer of a free window to an entry: a new clock sample dates it, and the attempt runs
  in the savepoint. An exclusion conflict and a moved entry version roll the savepoint back
  and skip the entry; any other exception leaves the function.
\<close>

definition offer_or_skip :: "uuid \<Rightarrow> wait_entry \<Rightarrow> db \<Rightarrow> (uuid option \<times> db) result" where
  "offer_or_skip resource_id e w =
     (let (offer_now, w2) = clock_timestamp w;
          (bid, w3) = uuid4 w2;
          ob = offered_booking bid resource_id offer_now e w3
      in case attempt_offer ob offer_now e w3 of
           Inr w4 \<Rightarrow> Inr (Some bid, w4)
         | Inl x \<Rightarrow> if is_conflict x then Inr (None, w3) else Inl x)"

text \<open>One pass of the loop body, with the id of the offered booking if an offer was made.\<close>

definition process_entry :: "uuid \<Rightarrow> wait_entry \<Rightarrow> db \<Rightarrow> (uuid option \<times> db) result" where
  "process_entry resource_id e w =
     (let (db_now, w1) = clock_timestamp w in
      bind_r (scalar_one_or_none (map u_enabled (filter (\<lambda>u. u_id u = w_user_id e) (users w1))))
        (\<lambda>owner_enabled.
      if owner_enabled \<noteq> Some True \<or> lower (w_range e) < db_now + minutes 15 then
        bind_r (update_entries (pinned_entry e) (expired_entry db_now) w1) (\<lambda>(_, w2).
        Inr (None, w2))
      else if \<exists>b \<in> set (bookings w1). b_resource_id b = resource_id \<and> active_booking b
                \<and> overlaps (b_range b) (w_range e)
        then Inr (None, w1)
      else offer_or_skip resource_id e w1))"

fun process_entries :: "uuid \<Rightarrow> wait_entry list \<Rightarrow> db \<Rightarrow> (uuid list \<times> db) result" where
  "process_entries resource_id [] w = Inr ([], w)"
| "process_entries resource_id (e # es) w =
     bind_r (process_entry resource_id e w) (\<lambda>(got, w1).
     bind_r (process_entries resource_id es w1) (\<lambda>(ids, w2).
     Inr ((case got of None \<Rightarrow> ids | Some i \<Rightarrow> i # ids), w2)))"

section \<open>Progress of the scan\<close>

definition wait_order :: "wait_entry \<Rightarrow> time \<times> uuid" where
  "wait_order e = (w_created_at e, w_id e)"

text \<open>The WHERE clause of a page: waiting entries of the resource beyond the keyset cursor.\<close>

definition beyond :: "uuid \<Rightarrow> (time \<times> uuid) option \<Rightarrow> wait_entry \<Rightarrow> bool" where
  "beyond resource_id cursor e =
     (w_resource_id e = resource_id \<and> w_status e = WWaiting \<and>
      (case cursor of None \<Rightarrow> True
       | Some (c, i) \<Rightarrow> w_created_at e > c \<or> w_created_at e = c \<and> w_id e > i))"

definition page :: "nat \<Rightarrow> uuid \<Rightarrow> (time \<times> uuid) option \<Rightarrow> db \<Rightarrow> wait_entry list" where
  "page page_size resource_id cursor w =
     order_limit wait_order page_size 0 (filter (beyond resource_id cursor) (waitlist w))"

text \<open>
  What handling an entry may do to the waitlist: rows stay in place and keep id, owner,
  resource, window and creation time, and no row becomes waiting.
\<close>

definition entry_fate :: "wait_entry \<Rightarrow> wait_entry \<Rightarrow> bool" where
  "entry_fate x y =
     (w_id y = w_id x \<and> w_user_id y = w_user_id x \<and> w_resource_id y = w_resource_id x \<and>
      w_range y = w_range x \<and> w_created_at y = w_created_at x \<and> (y = x \<or> w_status y \<noteq> WWaiting))"

definition waitlist_fate :: "db \<Rightarrow> db \<Rightarrow> bool" where
  "waitlist_fate w w' = list_all2 entry_fate (waitlist w) (waitlist w')"

lemma entry_fate_refl: "entry_fate x x"
  by (simp add: entry_fate_def)

lemma entry_fate_trans: "entry_fate x y \<Longrightarrow> entry_fate y z \<Longrightarrow> entry_fate x z"
  by (auto simp: entry_fate_def)

lemma waitlist_fate_refl: "waitlist w' = waitlist w \<Longrightarrow> waitlist_fate w w'"
  by (simp add: waitlist_fate_def list_all2_same entry_fate_refl)

lemma waitlist_fate_trans: "waitlist_fate w w' \<Longrightarrow> waitlist_fate w' w'' \<Longrightarrow> waitlist_fate w w''"
  unfolding waitlist_fate_def by (rule list_all2_trans [OF entry_fate_trans])

lemma waitlist_fate_update:
  assumes "\<And>x. x \<in> set (waitlist w) \<Longrightarrow> P x \<Longrightarrow> entry_fate x (f x)"
    and "waitlist w' = update_where P f (waitlist w)"
  shows "waitlist_fate w w'"
  using assms(1) unfolding waitlist_fate_def assms(2) update_where_def list_all2_map2
  by (intro list.rel_refl_strong) (auto simp: entry_fate_refl)

lemma update_entries_Inr:
  "update_entries P f w = Inr (n, w') \<Longrightarrow>
   w' = w\<lparr>waitlist := update_where P f (waitlist w)\<rparr> \<and> n = rowcount P (waitlist w)"
  by (auto simp: update_entries_def Let_def split: option.splits)

lemma append_event_Inr:
  "append_event et b now w = Inr (i, w') \<Longrightarrow>
   \<exists>r. w' = w\<lparr>drawn := Suc (drawn w), outbox := outbox w @ [r]\<rparr>"
  using append_event_cases [of et b now w] by auto

lemma attempt_offer_Inr:
  assumes "attempt_offer ob t e w = Inr w'"
  shows "\<exists>r. w' = w\<lparr>bookings := bookings w @ [ob],
    waitlist := update_where (\<lambda>x. pinned_entry e x \<and> w_status x = WWaiting)
      (offered_entry (b_id ob) t) (waitlist w),
    drawn := Suc (drawn w), outbox := outbox w @ [r]\<rparr>"
  using assms unfolding attempt_offer_def
  by (auto simp: bind_r_Inr insert_booking_Inr dest!: update_entries_Inr append_event_Inr)

text \<open>The four outcomes of one entry, as statements about the database.\<close>

lemma process_entry_cases:
  assumes "process_entry rid e w = Inr (got, w')"
  obtains
    (expire) "got = None" "w' = w\<lparr>ticks := Suc (ticks w),
        waitlist := update_where (pinned_entry e) (expired_entry (clock w (ticks w))) (waitlist w)\<rparr>"
      "(\<forall>u \<in> set (users w). u_id u = w_user_id e \<longrightarrow> \<not> u_enabled u)
        \<or> lower (w_range e) < clock w (ticks w) + minutes 15"
  | (blocked) "got = None" "w' = w\<lparr>ticks := Suc (ticks w)\<rparr>"
      "\<exists>b \<in> set (bookings w). b_resource_id b = rid \<and> active_booking b
         \<and> overlaps (b_range b) (w_range e)"
      "\<exists>u \<in> set (users w). u_id u = w_user_id e \<and> u_enabled u"
      "clock w (ticks w) + minutes 15 \<le> lower (w_range e)"
  | (skipped) "got = None" "w' = w\<lparr>ticks := Suc (Suc (ticks w)), drawn := Suc (drawn w)\<rparr>"
      "\<exists>x. attempt_offer
         (offered_booking (uuid_src w (drawn w)) rid (clock w (Suc (ticks w))) e w)
         (clock w (Suc (ticks w))) e w' = Inl x"
      "\<not> (\<exists>b \<in> set (bookings w). b_resource_id b = rid \<and> active_booking b
         \<and> overlaps (b_range b) (w_range e))"
  | (offered) r where "got = Some (uuid_src w (drawn w))"
      "w' = w\<lparr>ticks := Suc (Suc (ticks w)),
         bookings := bookings w @
           [offered_booking (uuid_src w (drawn w)) rid (clock w (Suc (ticks w))) e w],
         waitlist := update_where (\<lambda>x. pinned_entry e x \<and> w_status x = WWaiting)
           (offered_entry (uuid_src w (drawn w)) (clock w (Suc (ticks w)))) (waitlist w),
         drawn := Suc (Suc (drawn w)), outbox := outbox w @ [r]\<rparr>"
      "attempt_offer (offered_booking (uuid_src w (drawn w)) rid (clock w (Suc (ticks w))) e w)
         (clock w (Suc (ticks w))) e
         (w\<lparr>ticks := Suc (Suc (ticks w)), drawn := Suc (drawn w)\<rparr>) = Inr w'"
      "\<exists>u \<in> set (users w). u_id u = w_user_id e \<and> u_enabled u"
      "clock w (ticks w) + minutes 15 \<le> lower (w_range e)"
      "\<not> (\<exists>b \<in> set (bookings w). b_resource_id b = rid \<and> active_booking b
         \<and> overlaps (b_range b) (w_range e))"
proof -
  let ?db_now = "clock w (ticks w)" and ?t = "clock w (Suc (ticks w))"
  let ?w1 = "w\<lparr>ticks := Suc (ticks w)\<rparr>" and ?bid = "uuid_src w (drawn w)"
  let ?w3 = "w\<lparr>ticks := Suc (Suc (ticks w)), drawn := Suc (drawn w)\<rparr>"
  let ?ob = "offered_booking ?bid rid ?t e w"
  let ?busy = "\<exists>b \<in> set (bookings w). b_resource_id b = rid \<and> active_booking b
         \<and> overlaps (b_range b) (w_range e)"
  have ob: "offered_booking ?bid rid ?t e ?w3 = ?ob" by (simp add: offered_booking_def)
  let ?step = "\<lambda>own. if own \<noteq> Some True \<or> lower (w_range e) < ?db_now + minutes 15 then
        bind_r (update_entries (pinned_entry e) (expired_entry ?db_now) ?w1) (\<lambda>(_, w2). Inr (None, w2))
      else if ?busy then Inr (None, ?w1) else offer_or_skip rid e ?w1"
  have offer: "offer_or_skip rid e ?w1 = (case attempt_offer ?ob ?t e ?w3 of
              Inr w4 \<Rightarrow> Inr (Some ?bid, w4)
            | Inl x \<Rightarrow> if is_conflict x then Inr (None, ?w3) else Inl x)"
    by (simp add: offer_or_skip_def clock_timestamp_def uuid4_def Let_def ob
        cong: sum.case_cong if_cong)
  have "process_entry rid e w
      = bind_r (scalar_one_or_none (map u_enabled (filter (\<lambda>u. u_id u = w_user_id e) (users w)))) ?step"
    by (simp add: process_entry_def clock_timestamp_def cong: if_cong)
  with assms obtain own where own: "scalar_one_or_none
        (map u_enabled (filter (\<lambda>u. u_id u = w_user_id e) (users w))) = Inr own"
      and step: "?step own = Inr (got, w')"
    by (auto elim: bind_r_InrE)
  show ?thesis
  proof (cases "own \<noteq> Some True \<or> lower (w_range e) < ?db_now + minutes 15")
    case True
    have "own = Some True \<or> (\<forall>u \<in> set (users w). u_id u = w_user_id e \<longrightarrow> \<not> u_enabled u)"
      using own by (cases own) (auto simp: scalar_None scalar_Some filter_empty_conv empty_filter_conv
          filter_eq_Cons_iff)
    with True step show ?thesis
      by (intro expire) (auto simp: bind_r_Inr dest!: update_entries_Inr)
  next
    case False
    note run = step [unfolded if_not_P [OF False]]
    have enabled: "\<exists>u \<in> set (users w). u_id u = w_user_id e \<and> u_enabled u"
      using own False by (auto simp: scalar_Some filter_eq_Cons_iff map_eq_Cons_conv)
    have early: "?db_now + minutes 15 \<le> lower (w_range e)" using False by simp
    show ?thesis
    proof (cases ?busy)
      case True
      then have "Inr (None, ?w1) = (Inr (got, w') :: (uuid option \<times> db) result)"
        using run by (simp only: if_P)
      then have "got = None" "w' = ?w1" by simp_all
      then show ?thesis using blocked [OF _ _ True enabled early] by blast
    next
      case free: False
      note run = run [unfolded if_not_P [OF free]]
      show ?thesis
      proof (cases "attempt_offer ?ob ?t e ?w3")
        case (Inl x)
        with run offer free show ?thesis by (intro skipped) (auto split: if_splits)
      next
        case (Inr w4)
        with run offer have "got = Some ?bid" "w' = w4" by auto
        with attempt_offer_Inr [OF Inr] Inr False free enabled show ?thesis
          by (auto intro!: offered simp: offered_booking_def)
      qed
    qed
  qed
qed

lemma process_entry_fate:
  assumes "process_entry rid e w = Inr (got, w')"
  shows "waitlist_fate w w'"
  using assms
proof (cases rule: process_entry_cases)
  case expire
  then show ?thesis
    by (intro waitlist_fate_update [where P = "pinned_entry e"])
      (auto simp: entry_fate_def expired_entry_def)
next
  case (offered r)
  then show ?thesis
    by (intro waitlist_fate_update [where P = "\<lambda>x. pinned_entry e x \<and> w_status x = WWaiting"])
      (auto simp: entry_fate_def offered_entry_def)
qed (auto intro: waitlist_fate_refl)

lemma process_entries_fate: "process_entries rid es w = Inr (got, w') \<Longrightarrow> waitlist_fate w w'"
proof (induction es arbitrary: w got)
  case Nil
  then show ?case by (simp add: waitlist_fate_refl)
next
  case (Cons e es)
  then show ?case
    by (auto simp: bind_r_Inr dest!: process_entry_fate intro: waitlist_fate_trans)
qed

lemma length_filter_fate:
  assumes "list_all2 entry_fate xs ys"
  shows "length (filter (beyond rid c) ys) \<le> length (filter (beyond rid c) xs)"
  using assms by (induction rule: list_all2_induct) (auto simp: entry_fate_def beyond_def)

lemma order_limit_subset: "set (order_limit key n 0 xs) \<subseteq> set xs"
  by (auto simp: order_limit_def dest: in_set_takeD)

lemma page_members: "e \<in> set (page n rid c w) \<Longrightarrow> e \<in> set (waitlist w) \<and> beyond rid c e"
  using order_limit_subset unfolding page_def by fastforce

lemma beyond_later:
  assumes "beyond rid c e" "beyond rid (Some (wait_order e)) x"
  shows "beyond rid c x"
  using assms by (auto simp: beyond_def wait_order_def split: option.splits)

lemma beyond_shrinks:
  assumes "e \<in> set xs" "beyond rid c e"
  shows "length (filter (beyond rid (Some (wait_order e))) xs) < length (filter (beyond rid c) xs)"
proof -
  have sub: "filter (beyond rid (Some (wait_order e))) xs
      = filter (beyond rid (Some (wait_order e))) (filter (beyond rid c) xs)"
    using beyond_later [OF assms(2)] by (auto intro: filter_cong)
  have "\<not> beyond rid (Some (wait_order e)) e" by (auto simp: beyond_def wait_order_def)
  then show ?thesis
    using assms by (subst sub, intro length_filter_less [where x = e]) auto
qed

section \<open>The paged scan\<close>

function promote_pages ::
  "nat \<Rightarrow> uuid \<Rightarrow> (time \<times> uuid) option \<Rightarrow> db \<Rightarrow> (uuid list \<times> db) result" where
  "promote_pages page_size resource_id cursor w =
     (let entries = page page_size resource_id cursor w in
      if entries = [] then Inr ([], w)
      else bind_r (process_entries resource_id entries w) (\<lambda>(got, w1).
        if length entries < page_size then Inr (got, w1)
        else bind_r (promote_pages page_size resource_id (Some (wait_order (last entries))) w1)
               (\<lambda>(more, w2). Inr (got @ more, w2))))"
  by pat_completeness auto
termination
proof (relation "measure (\<lambda>(n, rid, c, w). length (filter (beyond rid c) (waitlist w)))")
  fix n rid c w entries x got w1
  assume e: "entries = page n rid c w" "entries \<noteq> []"
    and run: "process_entries rid entries w = Inr x" "(got, w1) = x"
  have "length (filter (beyond rid (Some (wait_order (last entries)))) (waitlist w1))
      \<le> length (filter (beyond rid (Some (wait_order (last entries)))) (waitlist w))"
    using process_entries_fate [of rid entries w got w1] run
    by (intro length_filter_fate) (simp add: waitlist_fate_def)
  also have "\<dots> < length (filter (beyond rid c) (waitlist w))"
    using page_members [of "last entries" n rid c w] e by (intro beyond_shrinks) auto
  finally show "((n, rid, Some (wait_order (last entries)), w1), n, rid, c, w)
      \<in> measure (\<lambda>(n, rid, c, w). length (filter (beyond rid c) (waitlist w)))"
    by simp
qed simp

declare promote_pages.simps [simp del]

definition page_size :: nat where "page_size = 100"

definition promote_waiters :: "uuid \<Rightarrow> db \<Rightarrow> (uuid list \<times> db) result" where
  "promote_waiters resource_id w = promote_pages page_size resource_id None w"

section \<open>Paging changes nothing\<close>

text \<open>Handling entries leaves the rows of all other entries as they were.\<close>

definition untouched :: "uuid set \<Rightarrow> db \<Rightarrow> db \<Rightarrow> bool" where
  "untouched S w w' =
     list_all2 (\<lambda>x y. w_id y = w_id x \<and> w_created_at y = w_created_at x \<and> (w_id x \<notin> S \<longrightarrow> y = x))
       (waitlist w) (waitlist w')"

lemma untouched_refl: "waitlist w' = waitlist w \<Longrightarrow> untouched S w w'"
  by (simp add: untouched_def list_all2_same)

lemma untouched_trans: "untouched S w w' \<Longrightarrow> untouched T w' w'' \<Longrightarrow> untouched (S \<union> T) w w''"
  unfolding untouched_def by (erule (1) list_all2_trans [rotated]) auto

lemma untouched_update:
  assumes "\<And>x. P x \<Longrightarrow> w_id x \<in> S \<and> w_id (f x) = w_id x \<and> w_created_at (f x) = w_created_at x"
    and "waitlist w' = update_where P f (waitlist w)"
  shows "untouched S w w'"
  using assms(1) unfolding untouched_def assms(2) update_where_def list_all2_map2
  by (intro list.rel_refl_strong) auto

lemma process_entry_untouched:
  assumes "process_entry rid e w = Inr (got, w')"
  shows "untouched {w_id e} w w'"
  using assms
proof (cases rule: process_entry_cases)
  case expire
  then show ?thesis
    by (intro untouched_update [where P = "pinned_entry e"])
      (auto simp: pinned_entry_def expired_entry_def)
next
  case (offered r)
  then show ?thesis
    by (intro untouched_update [where P = "\<lambda>x. pinned_entry e x \<and> w_status x = WWaiting"])
      (auto simp: pinned_entry_def offered_entry_def)
qed (auto intro: untouched_refl)

lemma process_entries_untouched:
  "process_entries rid es w = Inr (got, w') \<Longrightarrow> untouched (w_id ` set es) w w'"
proof (induction es arbitrary: w got)
  case Nil
  then show ?case by (simp add: untouched_refl)
next
  case (Cons e es)
  then obtain got1 w1 got2 where "process_entry rid e w = Inr (got1, w1)"
      "process_entries rid es w1 = Inr (got2, w')"
    by (auto simp: bind_r_Inr)
  from untouched_trans [OF process_entry_untouched [OF this(1)] Cons.IH [OF this(2)]]
  show ?case by simp
qed

lemma untouched_ids: "untouched S w w' \<Longrightarrow> map w_id (waitlist w') = map w_id (waitlist w)"
  unfolding untouched_def by (induction rule: list_all2_induct) auto

lemma untouched_beyond:
  assumes "untouched S w w'" "\<And>x. x \<in> set (waitlist w) \<Longrightarrow> w_id x \<in> S \<Longrightarrow> wait_order x \<le> k"
  shows "filter (beyond rid (Some k)) (waitlist w') = filter (beyond rid (Some k)) (waitlist w)"
  using assms unfolding untouched_def
proof (induction rule: list_all2_induct)
  case (Cons x xs y ys)
  have "beyond rid (Some k) y = beyond rid (Some k) x \<and> (beyond rid (Some k) x \<longrightarrow> y = x)"
  proof (cases "w_id x \<in> S")
    case True
    then have "wait_order x \<le> k" using Cons.prems by simp
    then show ?thesis using Cons.hyps(1)
      by (cases k) (auto simp: beyond_def wait_order_def)
  qed (use Cons.hyps(1) in simp)
  then show ?case using Cons by auto
qed simp

lemma process_entries_append:
  "process_entries rid (xs @ ys) w =
     bind_r (process_entries rid xs w) (\<lambda>(got, w1).
     bind_r (process_entries rid ys w1) (\<lambda>(more, w2). Inr (got @ more, w2)))"
proof (induction xs arbitrary: w)
  case Nil
  then show ?case by (cases "process_entries rid ys w") auto
next
  case (Cons x xs)
  then show ?case
    by (cases "process_entry rid x w")
      (auto simp: bind_r_def split: sum.splits option.splits)
qed

text \<open>In a strictly sorted list, what lies beyond the last of the first n is the rest.\<close>

lemma filter_beyond_take:
  fixes key :: "'a \<Rightarrow> 'k::linorder"
  assumes "sorted_wrt (<) (map key L)" "0 < n" "n \<le> length L"
  shows "filter (\<lambda>x. key x > key (last (take n L))) L = drop n L"
proof -
  let ?e = "last (take n L)"
  have "take n L \<noteq> []" using assms by auto
  then have e: "?e = L ! (n - 1)" using assms by (simp add: last_conv_nth min_def)
  have lt: "key (L ! i) < key (L ! j)" if "i < j" "j < length L" for i j
    using assms(1) that by (auto simp: sorted_wrt_iff_nth_less)
  have "filter (\<lambda>x. key x > key ?e) (take n L) = []"
  proof (unfold filter_empty_conv, rule ballI)
    fix x
    assume "x \<in> set (take n L)"
    then obtain i where "i < n" "x = L ! i" using assms(3) by (auto simp: in_set_conv_nth)
    moreover have "i = n - 1 \<or> i < n - 1" using \<open>i < n\<close> by arith
    moreover have "n - 1 < length L" using assms(2,3) by simp
    ultimately show "\<not> key x > key ?e"
      using lt [of i "n - 1"] unfolding e by (metis less_asym less_irrefl)
  qed
  moreover have "filter (\<lambda>x. key x > key ?e) (drop n L) = drop n L"
    unfolding filter_id_conv
  proof
    fix x
    assume "x \<in> set (drop n L)"
    then obtain i where "i < length L - n" "x = drop n L ! i" by (auto simp: in_set_conv_nth)
    then have "n + i < length L" "x = L ! (n + i)" using assms(3) by simp_all
    then show "key x > key ?e" using lt [of "n - 1" "n + i"] assms(2) unfolding e by simp
  qed
  ultimately have "filter (\<lambda>x. key x > key ?e) (take n L @ drop n L) = drop n L"
    by (simp only: filter_append) simp
  then show ?thesis by (simp only: append_take_drop_id)
qed

lemma beyond_after:
  assumes "beyond rid c e"
  shows "beyond rid (Some (wait_order e)) x \<longleftrightarrow> beyond rid c x \<and> wait_order e < wait_order x"
  using assms by (auto simp: beyond_def wait_order_def split: option.splits)

definition queue_of :: "uuid \<Rightarrow> (time \<times> uuid) option \<Rightarrow> db \<Rightarrow> wait_entry list" where
  "queue_of rid c w = sort_key wait_order (filter (beyond rid c) (waitlist w))"

lemma queue_sorted:
  assumes "distinct (map w_id (waitlist w))"
  shows "sorted_wrt (<) (map wait_order (queue_of rid c w))"
proof -
  have "distinct (map w_id (filter (beyond rid c) (waitlist w)))"
    using assms by (rule distinct_map_filter)
  then have "distinct (map wait_order (filter (beyond rid c) (waitlist w)))"
    by (auto simp: distinct_map inj_on_def wait_order_def)
  then have "distinct (map wait_order (queue_of rid c w))"
    by (simp add: queue_of_def distinct_map)
  then show ?thesis by (simp add: queue_of_def strict_sorted_iff)
qed

theorem promote_pages_queue:
  assumes "0 < n" "distinct (map w_id (waitlist w))"
  shows "promote_pages n rid c w = process_entries rid (queue_of rid c w) w"
  using assms
proof (induction n rid c w rule: promote_pages.induct)
  case (1 n rid c w)
  let ?L = "queue_of rid c w"
  have pg: "page n rid c w = take n ?L" by (simp add: page_def order_limit_def queue_of_def)
  show ?case
  proof (cases "length ?L < n")
    case True
    then have all: "take n ?L = ?L" by simp
    show ?thesis
    proof (cases "?L = []")
      case True
      then show ?thesis by (subst promote_pages.simps) (simp add: pg)
    next
      case False
      then show ?thesis
        by (subst promote_pages.simps, unfold pg all Let_def)
          (use True in \<open>cases "process_entries rid ?L w"; auto\<close>)
    qed
  next
    case False
    then have len: "length (take n ?L) = n" and ne: "take n ?L \<noteq> []" using "1.prems"(1) by auto
    let ?k = "wait_order (last (take n ?L))"
    have "last (take n ?L) \<in> set (page n rid c w)" using ne pg by simp
    then have bey: "beyond rid c (last (take n ?L))" using page_members by blast
    have rest: "queue_of rid (Some ?k) w1 = drop n ?L \<and> distinct (map w_id (waitlist w1))"
      if run: "process_entries rid (take n ?L) w = Inr (got, w1)" for got w1
    proof -
      note un = process_entries_untouched [OF run]
      have "wait_order x \<le> ?k" if x: "x \<in> set (waitlist w)" "w_id x \<in> w_id ` set (take n ?L)" for x
      proof -
        obtain y where y: "y \<in> set (take n ?L)" "w_id y = w_id x" using x(2) by auto
        then have "y \<in> set (waitlist w)" using page_members unfolding pg [symmetric] by blast
        then have "y = x" using y(2) x(1) "1.prems"(2) by (metis distinct_key_eq)
        then obtain i where i: "i < n" "i < length ?L" "?L ! i = x"
          using y(1) by (auto simp: in_set_conv_nth)
        have "last (take n ?L) = ?L ! (n - 1)" using len ne by (simp add: last_conv_nth)
        then show ?thesis
          using queue_sorted [OF "1.prems"(2), of rid c] i len
          by (cases "i = n - 1") (auto simp: sorted_wrt_iff_nth_less intro!: less_imp_le)
      qed
      then have "filter (beyond rid (Some ?k)) (waitlist w1) = filter (beyond rid (Some ?k)) (waitlist w)"
        using un by (intro untouched_beyond)
      also have "\<dots> = filter (\<lambda>x. ?k < wait_order x) (filter (beyond rid c) (waitlist w))"
        by (simp add: beyond_after [OF bey] conj_commute cong: filter_cong)
      finally have "queue_of rid (Some ?k) w1 = filter (\<lambda>x. ?k < wait_order x) ?L"
        by (simp add: queue_of_def filter_sort)
      also have "\<dots> = drop n ?L"
        using queue_sorted [OF "1.prems"(2)] "1.prems"(1) len by (intro filter_beyond_take) auto
      finally show ?thesis using untouched_ids [OF un] "1.prems"(2) by simp
    qed
    show ?thesis
    proof (cases "process_entries rid (take n ?L) w")
      case (Inl x)
      then show ?thesis
        using ne process_entries_append [of rid "take n ?L" "drop n ?L" w]
        by (subst promote_pages.simps) (simp add: pg)
    next
      case (Inr p)
      obtain got w1 where p: "p = (got, w1)" by (cases p)
      note r = rest [OF Inr [unfolded p]]
      have "promote_pages n rid (Some ?k) w1 = process_entries rid (queue_of rid (Some ?k) w1) w1"
        using "1.IH" [OF refl _ Inr [folded pg] p [symmetric] _ "1.prems"(1)] ne len r unfolding pg
        by simp
      then have "promote_pages n rid (Some ?k) w1 = process_entries rid (drop n ?L) w1"
        using r by simp
      then show ?thesis
        using Inr p ne len process_entries_append [of rid "take n ?L" "drop n ?L" w]
        unfolding promote_pages.simps [of n rid c w] pg Let_def by simp
    qed
  qed
qed

lemma promote_waiters_queue:
  "distinct (map w_id (waitlist w)) \<Longrightarrow>
   promote_waiters rid w = process_entries rid (queue_of rid None w) w"
  unfolding promote_waiters_def by (rule promote_pages_queue) (simp_all add: page_size_def)

section \<open>An offer goes through\<close>

lemma attempt_offer_free:
  fixes t :: time
  assumes ok: "db_ok w" and e: "e \<in> set (waitlist w)" "w_status e = WWaiting" "w_resource_id e = rid"
    and bid: "bid \<notin> b_id ` set (bookings w)" and fresh: "uuid_src w (drawn w) \<notin> o_id ` set (outbox w)"
  defines "ob \<equiv> offered_booking bid rid t e w"
  assumes noconf: "\<forall>c \<in> set (bookings w). \<not> booking_conflict ob c"
  shows "\<exists>w'. attempt_offer ob t e w = Inr w' \<and> db_ok w' \<and> ids w' \<subseteq> insert bid (insert (uuid_src w (drawn w)) (ids w))"
proof -
  note parts = db_okD [OF ok]
  let ?w1 = "w\<lparr>bookings := bookings w @ [ob]\<rparr>"
  let ?f = "offered_entry bid t"
  let ?w2 = "?w1\<lparr>waitlist := update_where (\<lambda>x. w_id x = w_id e) ?f (waitlist w)\<rparr>"
  have obid: "b_id ob = bid" by (simp add: ob_def offered_booking_def)
  have chk_e: "entry_check e = None" "entry_fks w e"
    using entries_okD [OF parts(3) e(1)] by auto
  have obchk: "booking_check ob = None"
    using chk_e(1) by (auto simp: ob_def offered_booking_def booking_check_iff entry_check_iff offer_deadline_def)
  have obfks: "booking_fks w ob"
    using chk_e(2) e(3) by (auto simp: ob_def offered_booking_def booking_fks_def entry_fks_def)
  have new: "b_id ob \<notin> b_id ` set (bookings w)" using bid by (simp add: obid)
  have ins: "insert_booking ob w = Inr ?w1" using obchk new obfks noconf by (rule insert_booking_runs)
  have b1: "bookings_ok ?w1"
    using parts(2) obchk obfks noconf new by (auto simp: bookings_ok_def no_overlap_snoc)
  have e1: "entries_ok ?w1" using parts(3) by (rule entries_ok_more_bookings) auto
  have noref: "w_offered_booking_id d \<noteq> Some bid" if "d \<in> set (waitlist w)" for d
    using entries_okD(2) [OF parts(3) that] bid by (auto simp: entry_fks_def offer_fk_ok_def)
  have step: "entry_step ?w1 e (?f e)"
    using chk_e(1) e(2) noref
    by (auto simp: entry_step_def offered_entry_def entry_check_iff active_entry_def obid)
  have only: "x = e" if "x \<in> set (waitlist w)" "w_id x = w_id e" for x
    using parts(3) that e(1) by (auto simp: entries_ok_def intro: distinct_key_eq)
  have "update_entries (\<lambda>x. pinned_entry e x \<and> w_status x = WWaiting) ?f ?w1
      = update_entries (\<lambda>x. w_id x = w_id e \<and> w_version x = w_version e) ?f ?w1"
    by (rule update_entries_cong) (use only e(2) in \<open>auto simp: pinned_entry_def\<close>)
  also have "\<dots> = Inr (1, ?w2)" using update_one_entry_runs(1) [where f = ?f, OF e1 _ step] e(1) by simp
  finally have upd: "update_entries (\<lambda>x. pinned_entry e x \<and> w_status x = WWaiting) ?f ?w1 = Inr (1, ?w2)" .
  have e2: "entries_ok ?w2" using update_one_entry_runs(2) [where f = ?f, OF e1 _ step] e(1) by simp
  have v2: "events_ok ?w2"
    using events_ok_bookings [OF parts(4), of "bookings w @ [ob]"] by auto
  have noev: "\<forall>r \<in> set (outbox ?w2). o_aggregate_id r = b_id ob \<longrightarrow> o_aggregate_version r < b_version ob"
  proof (intro ballI impI)
    fix r
    assume "r \<in> set (outbox ?w2)" "o_aggregate_id r = b_id ob"
    then show "o_aggregate_version r < b_version ob"
      using events_fk [OF parts(4), of r] new by simp
  qed
  have "uuid_src ?w2 (drawn ?w2) \<notin> o_id ` set (outbox ?w2)" using fresh by simp
  from append_event_runs [OF v2 _ noev this, of EWaitlistOffered "Some t"]
  obtain r where app: "append_event EWaitlistOffered ob (Some t) ?w2
        = Inr (uuid_src w (drawn w), ?w2\<lparr>drawn := Suc (drawn w), outbox := outbox w @ [r]\<rparr>)"
      and rid: "o_id r = uuid_src w (drawn w)"
      and v3: "events_ok (?w2\<lparr>drawn := Suc (drawn w), outbox := outbox w @ [r]\<rparr>)"
    by auto
  let ?w3 = "?w2\<lparr>drawn := Suc (drawn w), outbox := outbox w @ [r]\<rparr>"
  have run: "attempt_offer ob t e w = Inr ?w3"
    using ins upd app by (simp add: attempt_offer_def obid)
  have of: "offer_of (?f e) ob"
    using e(3) by (simp add: offer_of_def offered_entry_def ob_def offered_booking_def)
  have "offers_linked ?w2"
    using offers_linked_new [where f = ?f, OF parts(5) _ e(1,2) of] only
    by (simp add: ob_def offered_booking_def offered_entry_def)
  then have linked: "offers_linked ?w3" by simp
  have "db_ok ?w3"
    using parts(1) b1 e2 v3 linked unfolding db_ok_def by simp
  moreover have "ids ?w3 \<subseteq> insert bid (insert (uuid_src w (drawn w)) (ids w))"
    using rid obid by (auto simp: ids_def image_update_where offered_entry_def)
  ultimately show ?thesis using run by blast
qed

lemma attempt_offer_runs:
  assumes ok: "db_ok w" and e: "e \<in> set (waitlist w)" "w_status e = WWaiting" "w_resource_id e = rid"
    and free: "\<not> (\<exists>b \<in> set (bookings w). b_resource_id b = rid \<and> active_booking b
      \<and> overlaps (b_range b) (w_range e))"
    and bid: "bid \<notin> ids w" and fresh: "uuid_src w (drawn w) \<notin> ids w"
  shows "\<exists>w'. attempt_offer (offered_booking bid rid t e w) t e w = Inr w' \<and> db_ok w' \<and>
    ids w' \<subseteq> insert bid (insert (uuid_src w (drawn w)) (ids w))"
proof (rule attempt_offer_free [OF ok e])
  show "bid \<notin> b_id ` set (bookings w)" "uuid_src w (drawn w) \<notin> o_id ` set (outbox w)"
    using bid fresh by (auto simp: ids_def)
  show "\<forall>c \<in> set (bookings w). \<not> booking_conflict (offered_booking bid rid t e w) c"
    using free overlaps_sym by (auto simp: booking_conflict_def offered_booking_def)
qed

text \<open>An offer that went through, whatever UUIDs were drawn, left the database well formed.\<close>

lemma attempt_offer_keeps:
  assumes ok: "db_ok w" and e: "e \<in> set (waitlist w)" "w_status e = WWaiting" "w_resource_id e = rid"
    and run: "attempt_offer (offered_booking bid rid t e w) t e w = Inr w'"
  shows "db_ok w'"
proof -
  let ?ob = "offered_booking bid rid t e w"
  have "uuid_src w (drawn w) \<notin> o_id ` set (outbox w)" "insert_booking ?ob w = Inr (w\<lparr>bookings := bookings w @ [?ob]\<rparr>)"
    using run unfolding attempt_offer_def
    by (auto simp: bind_r_Inr insert_booking_Inr append_event_def uuid4_def Let_def insert_outbox_def
        dest!: update_entries_Inr split: option.splits)
  then have "\<exists>w'. attempt_offer ?ob t e w = Inr w' \<and> db_ok w' \<and>
      ids w' \<subseteq> insert bid (insert (uuid_src w (drawn w)) (ids w))"
    using attempt_offer_free [OF ok e] by (auto simp: insert_booking_Inr offered_booking_def)
  with run show ?thesis by auto
qed

section \<open>The scan on a well-formed database\<close>

definition blocked_by :: "uuid \<Rightarrow> wait_entry \<Rightarrow> booking \<Rightarrow> bool" where
  "blocked_by rid e b = (b_resource_id b = rid \<and> active_booking b \<and> overlaps (b_range b) (w_range e))"

text \<open>
  The three fates of an entry: it expires (its owner is disabled or its window is too
  close), it stays waiting behind an active booking, or it is offered a new booking.
\<close>

definition fate :: "uuid \<Rightarrow> wait_entry \<Rightarrow> db \<Rightarrow> booking list \<Rightarrow> wait_entry \<Rightarrow> bool" where
  "fate rid e w obs x =
     (obs = [] \<and> w_status x = WExpired \<and>
        ((\<forall>u \<in> set (users w). u_id u = w_user_id e \<longrightarrow> \<not> u_enabled u)
         \<or> lower (w_range e) < clock w (ticks w) + minutes 15)
      \<or> obs = [] \<and> x = e \<and> (\<exists>b \<in> set (bookings w). blocked_by rid e b)
      \<or> w_status x = WOffered \<and> \<not> (\<exists>b \<in> set (bookings w). blocked_by rid e b)
        \<and> (\<exists>ob. obs = [ob] \<and> offer_of x ob \<and> b_status ob = BOffered \<and> b_resource_id ob = rid
             \<and> b_range ob = w_range e \<and> (\<exists>t. b_expires_at ob = Some (offer_deadline t e))))"

lemma process_entry_frame:
  assumes "process_entry rid e w = Inr (got, w')"
  shows "users w' = users w" "resources w' = resources w" "uuid_src w' = uuid_src w"
    "clock w' = clock w"
  using assms by (cases rule: process_entry_cases; simp)+

lemma process_entry_ok:
  assumes ok: "db_ok w" and e: "e \<in> set (waitlist w)" "w_status e = WWaiting" "w_resource_id e = rid"
    and fresh: "fresh_ids (Suc (Suc k)) w"
  shows "\<exists>got w' obs x. process_entry rid e w = Inr (got, w') \<and> db_ok w' \<and> fresh_ids k w' \<and>
    bookings w' = bookings w @ obs \<and> map b_id obs = (case got of None \<Rightarrow> [] | Some i \<Rightarrow> [i]) \<and>
    x \<in> set (waitlist w') \<and> w_id x = w_id e \<and> fate rid e w obs x"
proof -
  let ?bid = "uuid_src w (drawn w)" and ?t = "clock w (Suc (ticks w))" and ?db_now = "clock w (ticks w)"
  let ?ob = "offered_booking ?bid rid ?t e w"
  let ?w1 = "w\<lparr>ticks := Suc (ticks w)\<rparr>"
  let ?w3 = "w\<lparr>ticks := Suc (Suc (ticks w)), drawn := Suc (drawn w)\<rparr>"
  note parts = db_okD [OF ok]
  have only: "x = e" if "x \<in> set (waitlist w)" "w_id x = w_id e" for x
    using parts(3) that e(1) by (auto simp: entries_ok_def intro: distinct_key_eq)
  have bid: "?bid \<notin> ids ?w3" using fresh_ids_next [OF fresh] by simp
  have fresh3: "fresh_ids (Suc k) ?w3" using fresh by (rule fresh_ids_draw) (auto simp: ids_def)
  note bid2 = fresh_ids_next [OF fresh3]
  have expire_run: "update_entries (pinned_entry e) (expired_entry ?db_now) ?w1
      = Inr (1, ?w1\<lparr>waitlist := update_where (\<lambda>x. w_id x = w_id e) (expired_entry ?db_now) (waitlist w)\<rparr>)"
    and expire_ok: "entries_ok (?w1\<lparr>waitlist := update_where (\<lambda>x. w_id x = w_id e) (expired_entry ?db_now) (waitlist w)\<rparr>)"
  proof -
    have "entry_step ?w1 e (expired_entry ?db_now e)"
      using entries_okD [OF parts(3) e(1)]
      by (auto simp: entry_step_def expired_entry_def entry_check_iff active_entry_def)
    from update_one_entry_runs [where f = "expired_entry ?db_now" and w = ?w1, OF _ _ this] parts(3) e(1)
    show "update_entries (pinned_entry e) (expired_entry ?db_now) ?w1
      = Inr (1, ?w1\<lparr>waitlist := update_where (\<lambda>x. w_id x = w_id e) (expired_entry ?db_now) (waitlist w)\<rparr>)"
      "entries_ok (?w1\<lparr>waitlist := update_where (\<lambda>x. w_id x = w_id e) (expired_entry ?db_now) (waitlist w)\<rparr>)"
      by (simp_all add: pinned_entry_def [abs_def])
  qed
  obtain own where own: "scalar_one_or_none
        (map u_enabled (filter (\<lambda>u. u_id u = w_user_id e) (users w))) = Inr own"
  proof -
    have "distinct (map u_id (users w))" using parts(1) by (simp add: people_ok_def)
    from scalar_key_cases [OF this, of "w_user_id e" "\<lambda>_. True"]
    show ?thesis using that by (auto simp: scalar_Some scalar_None)
  qed
  have ob3: "offered_booking ?bid rid ?t e ?w3 = ?ob" by (simp add: offered_booking_def)
  have offer: "\<exists>w4. attempt_offer ?ob ?t e ?w3 = Inr w4 \<and> db_ok w4 \<and>
      ids w4 \<subseteq> insert ?bid (insert (uuid_src ?w3 (drawn ?w3)) (ids ?w3))"
    if free: "\<not> (\<exists>b \<in> set (bookings w). blocked_by rid e b)"
  proof -
    have "\<not> (\<exists>b \<in> set (bookings ?w3). b_resource_id b = rid \<and> active_booking b
        \<and> overlaps (b_range b) (w_range e))"
      using free by (simp add: blocked_by_def)
    from attempt_offer_runs [of ?w3 e rid ?bid ?t, OF _ _ e(2,3) this bid bid2] ok e(1) ob3
    show ?thesis by simp
  qed
  have total: "\<exists>p. process_entry rid e w = Inr p"
  proof (cases "own \<noteq> Some True \<or> lower (w_range e) < ?db_now + minutes 15")
    case True
    then show ?thesis using own expire_run by (simp add: process_entry_def clock_timestamp_def)
  next
    case late: False
    show ?thesis
    proof (cases "\<exists>b \<in> set (bookings w). blocked_by rid e b")
      case True
      then show ?thesis using late own
        by (auto simp: process_entry_def clock_timestamp_def blocked_by_def)
    next
      case False
      from offer [OF this] obtain w4 where "attempt_offer ?ob ?t e ?w3 = Inr w4" by blast
      then have "offer_or_skip rid e ?w1 = Inr (Some ?bid, w4)"
        by (simp add: offer_or_skip_def clock_timestamp_def uuid4_def ob3)
      then show ?thesis using late own False
        by (auto simp: process_entry_def clock_timestamp_def blocked_by_def)
    qed
  qed
  then obtain got w' where run: "process_entry rid e w = Inr (got, w')" by auto
  from run show ?thesis
  proof (cases rule: process_entry_cases)
    case expire
    have upd: "update_where (pinned_entry e) (expired_entry ?db_now) (waitlist w)
        = update_where (\<lambda>x. w_id x = w_id e) (expired_entry ?db_now) (waitlist w)"
      using only by (auto simp: update_where_def pinned_entry_def)
    have ids: "ids w' \<subseteq> ids w"
      using expire(2) by (auto simp: ids_def image_update_where expired_entry_def)
    have "db_ok w'"
      unfolding expire(2) upd db_ok_def using parts expire_ok
        offers_linked_other [where w = ?w1 and e = e and f = "expired_entry ?db_now"] e(1,2) only
      by (simp add: expired_entry_def)
    moreover have "fresh_ids k w'"
      using fresh_ids_same [OF _ _ ids fresh] fresh_ids_mono expire(2) by simp
    moreover have "expired_entry ?db_now e \<in> set (waitlist w')"
      using expire(2) e(1) by (auto simp: set_update_where pinned_entry_def)
    moreover have "fate rid e w [] (expired_entry ?db_now e)"
      using expire(3) by (auto simp: fate_def expired_entry_def)
    ultimately show ?thesis
      using run expire(1,2)
      by (intro exI [of _ got] exI [of _ w'] exI [of _ "[]"] exI [of _ "expired_entry ?db_now e"])
        (simp add: expired_entry_def)
  next
    case blocked
    have "fresh_ids k w'"
      using fresh_ids_same [of w' w "Suc (Suc k)"] fresh fresh_ids_mono [of "Suc (Suc k)" w' k] blocked(2)
      by simp
    moreover have "fate rid e w [] e" using blocked(3) by (auto simp: fate_def blocked_by_def)
    ultimately show ?thesis
      using run blocked(1,2) ok e(1)
      by (intro exI [of _ got] exI [of _ w'] exI [of _ "[]"] exI [of _ e]) simp
  next
    case skipped
    then show ?thesis using offer by (auto simp: blocked_by_def)
  next
    case (offered r)
    have free: "\<not> (\<exists>b \<in> set (bookings w). blocked_by rid e b)"
      using offered(6) by (simp add: blocked_by_def)
    from offer [OF free] offered(3)
    have ok': "db_ok w'" and ids: "ids w' \<subseteq> insert ?bid (insert (uuid_src ?w3 (drawn ?w3)) (ids ?w3))"
      by auto
    have "fresh_ids k w'"
    proof (rule fresh_ids_draw2 [OF fresh])
      show "uuid_src w' = uuid_src w" "drawn w' = Suc (Suc (drawn w))" using offered(2) by simp_all
      show "ids w' \<subseteq> insert (uuid_src w (drawn w)) (insert (uuid_src w (Suc (drawn w))) (ids w))"
        using ids by simp
    qed
    moreover have "offered_entry ?bid ?t e \<in> set (waitlist w')"
      using offered(2) e(1,2) by (auto simp: set_update_where pinned_entry_def)
    moreover have "fate rid e w [?ob] (offered_entry ?bid ?t e)"
      using free e(3)
      by (auto simp: fate_def offered_entry_def offer_of_def offered_booking_def)
    ultimately show ?thesis
      using run offered(1,2) ok'
      by (intro exI [of _ got] exI [of _ w'] exI [of _ "[?ob]"] exI [of _ "offered_entry ?bid ?t e"])
        (simp add: offered_entry_def offered_booking_def)
  qed
qed

lemma untouched_kept:
  assumes "untouched S w w'" "x \<in> set (waitlist w)" "w_id x \<notin> S"
  shows "x \<in> set (waitlist w')"
proof -
  obtain i where i: "i < length (waitlist w)" "waitlist w ! i = x"
    using assms(2) by (auto simp: in_set_conv_nth)
  then have "i < length (waitlist w')" "waitlist w' ! i = x"
    using assms(1,3) unfolding untouched_def by (auto simp: list_all2_conv_all_nth)
  then show ?thesis by auto
qed

lemma process_entry_ticks: "process_entry rid e w = Inr (got, w') \<Longrightarrow> ticks w \<le> ticks w'"
  by (erule process_entry_cases) simp_all

text \<open>
  The history of a scan: each entry with the database on its turn and the booking it was
  offered. Bookings are only ever added, so what an earlier entry saw a later one sees too.
\<close>

type_synonym turn = "wait_entry \<times> db \<times> booking list"

definition turn_ok :: "uuid \<Rightarrow> db \<Rightarrow> db \<Rightarrow> turn \<Rightarrow> bool" where
  "turn_ok rid w w' u =
     (case u of (e, w0, obs) \<Rightarrow>
        users w0 = users w \<and> clock w0 = clock w \<and> ticks w \<le> ticks w0 \<and>
        set (bookings w) \<subseteq> set (bookings w0) \<and> set (bookings w0 @ obs) \<subseteq> set (bookings w') \<and>
        (\<exists>x \<in> set (waitlist w'). w_id x = w_id e \<and> fate rid e w0 obs x))"

definition before :: "turn \<Rightarrow> turn \<Rightarrow> bool" where
  "before u v = (set (bookings (fst (snd u)) @ snd (snd u)) \<subseteq> set (bookings (fst (snd v))))"

lemma turn_ok_later:
  assumes "turn_ok rid w1 w' u" "users w1 = users w" "clock w1 = clock w" "ticks w \<le> ticks w1"
    "set (bookings w) \<subseteq> set (bookings w1)"
  shows "turn_ok rid w w' u"
  using assms by (auto simp: turn_ok_def split: prod.splits)

lemma process_entries_ok:
  assumes "db_ok w" "distinct (map w_id es)" "fresh_ids (2 * length es) w"
    and "\<forall>e \<in> set es. e \<in> set (waitlist w) \<and> w_status e = WWaiting \<and> w_resource_id e = rid"
  shows "\<exists>got w' obs tr. process_entries rid es w = Inr (got, w') \<and> db_ok w' \<and>
    bookings w' = bookings w @ obs \<and> map b_id obs = got \<and> obs = concat (map (\<lambda>u. snd (snd u)) tr) \<and>
    map fst tr = es \<and> (\<forall>u \<in> set tr. turn_ok rid w w' u) \<and> sorted_wrt before tr"
  using assms
proof (induction es arbitrary: w)
  case Nil
  then show ?case by simp
next
  case (Cons e es)
  have e: "e \<in> set (waitlist w)" "w_status e = WWaiting" "w_resource_id e = rid"
    and fresh: "fresh_ids (Suc (Suc (2 * length es))) w"
    using Cons.prems by auto
  from process_entry_ok [OF Cons.prems(1) e fresh]
  obtain got1 w1 obs1 x1 where step: "process_entry rid e w = Inr (got1, w1)" "db_ok w1"
      "fresh_ids (2 * length es) w1" "bookings w1 = bookings w @ obs1"
      "map b_id obs1 = (case got1 of None \<Rightarrow> [] | Some i \<Rightarrow> [i])"
      "x1 \<in> set (waitlist w1)" "w_id x1 = w_id e" "fate rid e w obs1 x1"
    by blast
  note un = process_entry_untouched [OF step(1)]
  note frame = process_entry_frame [OF step(1)] process_entry_ticks [OF step(1)]
  have "\<forall>y \<in> set es. y \<in> set (waitlist w1) \<and> w_status y = WWaiting \<and> w_resource_id y = rid"
  proof
    fix y
    assume y: "y \<in> set es"
    then have "w_id y \<noteq> w_id e" using Cons.prems(2) by (auto simp: image_iff)
    then show "y \<in> set (waitlist w1) \<and> w_status y = WWaiting \<and> w_resource_id y = rid"
      using untouched_kept [OF un] Cons.prems(4) y by auto
  qed
  with Cons.IH [OF step(2) _ step(3)] Cons.prems(2)
  obtain got2 w' obs2 tr where rest: "process_entries rid es w1 = Inr (got2, w')" "db_ok w'"
      "bookings w' = bookings w1 @ obs2" "map b_id obs2 = got2"
      "obs2 = concat (map (\<lambda>u. snd (snd u)) tr)" "map fst tr = es"
      "\<forall>u \<in> set tr. turn_ok rid w1 w' u" "sorted_wrt before tr"
    by auto
  let ?u = "(e, w, obs1)"
  have "x1 \<in> set (waitlist w')"
    using untouched_kept [OF process_entries_untouched [OF rest(1)] step(6)] step(7) Cons.prems(2)
    by auto
  then have u: "turn_ok rid w w' ?u"
    using step rest(3) by (auto simp: turn_ok_def)
  have later: "turn_ok rid w w' v" if "v \<in> set tr" for v
  proof (rule turn_ok_later [OF _ frame(1,4,5)])
    show "turn_ok rid w1 w' v" using rest(7) that by blast
    show "set (bookings w) \<subseteq> set (bookings w1)" using step(4) by simp
  qed
  have "before ?u v" if "v \<in> set tr" for v
  proof -
    have "turn_ok rid w1 w' v" using rest(7) that by blast
    then show ?thesis using step(4) by (cases v) (auto simp: before_def turn_ok_def)
  qed
  then have "sorted_wrt before (?u # tr)" using rest(8) by simp
  moreover have "process_entries rid (e # es) w
      = Inr ((case got1 of None \<Rightarrow> got2 | Some i \<Rightarrow> i # got2), w')"
    using step(1) rest(1) by simp
  moreover have "map b_id (obs1 @ obs2) = (case got1 of None \<Rightarrow> got2 | Some i \<Rightarrow> i # got2)"
    using step(5) rest(4) by (auto split: option.splits)
  ultimately show ?case
    using rest(2,3,5,6) step(4) u later
    by (intro exI [of _ "case got1 of None \<Rightarrow> got2 | Some i \<Rightarrow> i # got2"] exI [of _ w']
        exI [of _ "obs1 @ obs2"] exI [of _ "?u # tr"]) simp
qed

text \<open>A scan that returns keeps the database well formed, fresh UUIDs or not.\<close>

lemma expired_keeps:
  assumes ok: "db_ok w" and e: "e \<in> set (waitlist w)" "w_status e = WWaiting"
  shows "db_ok (w\<lparr>ticks := n, waitlist := update_where (pinned_entry e) (expired_entry t) (waitlist w)\<rparr>)"
proof -
  let ?w1 = "w\<lparr>ticks := n\<rparr>"
  note parts = db_okD [OF ok]
  have only: "x = e" if "x \<in> set (waitlist w)" "w_id x = w_id e" for x
    using parts(3) that e(1) by (auto simp: entries_ok_def intro: distinct_key_eq)
  have upd: "update_where (pinned_entry e) (expired_entry t) (waitlist w)
      = update_where (\<lambda>x. w_id x = w_id e) (expired_entry t) (waitlist w)"
    using only by (auto simp: update_where_def pinned_entry_def)
  have step: "entry_step ?w1 e (expired_entry t e)"
    using entries_okD [OF parts(3) e(1)]
    by (auto simp: entry_step_def expired_entry_def entry_check_iff active_entry_def)
  have "entries_ok (?w1\<lparr>waitlist := update_where (\<lambda>x. w_id x = w_id e) (expired_entry t) (waitlist w)\<rparr>)"
    using update_one_entry_runs(2) [where f = "expired_entry t" and w = ?w1, OF _ _ step] parts(3) e(1)
    by simp
  then show ?thesis
    unfolding upd db_ok_def
    using parts offers_linked_other [where w = ?w1 and e = e and f = "expired_entry t"] e only
    by (simp add: expired_entry_def)
qed

lemma process_entry_keeps:
  assumes ok: "db_ok w" and e: "e \<in> set (waitlist w)" "w_status e = WWaiting" "w_resource_id e = rid"
    and run: "process_entry rid e w = Inr (got, w')"
  shows "db_ok w'"
  using run
proof (cases rule: process_entry_cases)
  case expire
  then show ?thesis using expired_keeps [OF ok e(1,2)] by simp
next
  case (offered r)
  let ?w3 = "w\<lparr>ticks := Suc (Suc (ticks w)), drawn := Suc (drawn w)\<rparr>"
  have "db_ok ?w3" "e \<in> set (waitlist ?w3)" using ok e(1) by simp_all
  moreover have "offered_booking i rid t e ?w3 = offered_booking i rid t e w" for i t
    by (simp add: offered_booking_def)
  ultimately show ?thesis using attempt_offer_keeps [OF _ _ e(2,3)] offered(3) by metis
qed (use ok in simp_all)

lemma process_entries_keeps:
  assumes "db_ok w" "distinct (map w_id es)"
    and "\<forall>e \<in> set es. e \<in> set (waitlist w) \<and> w_status e = WWaiting \<and> w_resource_id e = rid"
    and "process_entries rid es w = Inr (got, w')"
  shows "db_ok w'"
  using assms
proof (induction es arbitrary: w got)
  case Nil
  then show ?case by simp
next
  case (Cons e es)
  obtain got1 w1 got2 where step: "process_entry rid e w = Inr (got1, w1)"
    and rest: "process_entries rid es w1 = Inr (got2, w')"
    using Cons.prems(4) by (auto simp: bind_r_Inr)
  have ok1: "db_ok w1" using process_entry_keeps [OF Cons.prems(1) _ _ _ step] Cons.prems(3) by auto
  have "y \<in> set (waitlist w1)" if y: "y \<in> set es" for y
  proof -
    have "w_id y \<noteq> w_id e" using Cons.prems(2) y by (auto simp: image_iff)
    then show ?thesis using untouched_kept [OF process_entry_untouched [OF step]] Cons.prems(3) y by auto
  qed
  then show ?case using Cons.IH [OF ok1 _ _ rest] Cons.prems(2,3) by auto
qed

lemma promote_waiters_keeps:
  assumes ok: "db_ok w" and run: "promote_waiters rid w = Inr (got, w')"
  shows "db_ok w'"
proof -
  have d: "distinct (map w_id (waitlist w))" using db_okD(3) [OF ok] by (simp add: entries_ok_def)
  show ?thesis
  proof (rule process_entries_keeps [OF ok])
    show "process_entries rid (queue_of rid None w) w = Inr (got, w')"
      using run promote_waiters_queue [OF d] by simp
    show "distinct (map w_id (queue_of rid None w))"
      using distinct_map_filter [OF d] by (simp add: queue_of_def distinct_map)
    show "\<forall>e \<in> set (queue_of rid None w). e \<in> set (waitlist w) \<and> w_status e = WWaiting \<and> w_resource_id e = rid"
      by (auto simp: queue_of_def beyond_def)
  qed
qed

text \<open>What a scan leaves alone, and what it only adds to.\<close>

definition grows :: "db \<Rightarrow> db \<Rightarrow> bool" where
  "grows w w' =
     (users w' = users w \<and> resources w' = resources w \<and> uuid_src w' = uuid_src w \<and>
      clock w' = clock w \<and> audit_log w' = audit_log w \<and> tx_now w' = tx_now w \<and> ticks w \<le> ticks w' \<and>
      prefix (bookings w) (bookings w') \<and> prefix (outbox w) (outbox w'))"

lemma process_entry_grows: "process_entry rid e w = Inr (got, w') \<Longrightarrow> grows w w'"
  by (erule process_entry_cases) (simp_all add: grows_def)

lemma process_entries_grows: "process_entries rid es w = Inr (got, w') \<Longrightarrow> grows w w'"
proof (induction es arbitrary: w got)
  case Nil
  then show ?case by (simp add: grows_def)
next
  case (Cons e es)
  then show ?case by (fastforce simp: bind_r_Inr grows_def dest: process_entry_grows intro: prefix_order.trans)
qed

lemma promote_pages_grows: "promote_pages n rid c w = Inr (got, w') \<Longrightarrow> grows w w'"
proof (induction n rid c w arbitrary: got rule: promote_pages.induct)
  case (1 n rid c w)
  show ?case
  proof (cases "page n rid c w = []")
    case True
    then show ?thesis using 1(2) by (subst (asm) promote_pages.simps) (simp add: grows_def)
  next
    case False
    from 1(2) False obtain got1 w1 where run: "process_entries rid (page n rid c w) w = Inr (got1, w1)"
      by (subst (asm) promote_pages.simps) (auto simp: Let_def bind_r_Inr)
    note g = process_entries_grows [OF run]
    show ?thesis
    proof (cases "length (page n rid c w) < n")
      case True
      then show ?thesis using 1(2) False run g by (subst (asm) promote_pages.simps) simp
    next
      case long: False
      with 1(2) False run obtain got2 where
        "promote_pages n rid (Some (wait_order (last (page n rid c w)))) w1 = Inr (got2, w')"
        by (subst (asm) promote_pages.simps) (auto simp: Let_def bind_r_Inr)
      from 1(1) [OF refl False run refl long this] g show ?thesis
        by (auto simp: grows_def intro: prefix_order.trans)
    qed
  qed
qed

lemma promote_waiters_grows: "promote_waiters rid w = Inr (got, w') \<Longrightarrow> grows w w'"
  unfolding promote_waiters_def by (rule promote_pages_grows)

lemma promote_waiters_settled:
  assumes ok: "db_ok w" and run: "promote_waiters rid w = Inr (got, w')"
    and e: "e \<in> set (waitlist w)" "w_status e \<noteq> WWaiting"
  shows "e \<in> set (waitlist w')"
proof -
  have d: "distinct (map w_id (waitlist w))" using db_okD(3) [OF ok] by (simp add: entries_ok_def)
  have "process_entries rid (queue_of rid None w) w = Inr (got, w')"
    using run promote_waiters_queue [OF d] by simp
  note un = process_entries_untouched [OF this]
  have "x \<noteq> e \<and> x \<in> set (waitlist w)" if "x \<in> set (queue_of rid None w)" for x
    using that e(2) by (auto simp: queue_of_def beyond_def)
  then have "w_id e \<notin> w_id ` set (queue_of rid None w)"
    using distinct_key_eq [OF d _ e(1)] by fastforce
  then show ?thesis using untouched_kept [OF un e(1)] by blast
qed

section \<open>Properties\<close>

definition waiting_on :: "uuid \<Rightarrow> db \<Rightarrow> wait_entry list" where
  "waiting_on rid w = filter (\<lambda>e. w_resource_id e = rid \<and> w_status e = WWaiting) (waitlist w)"

lemma queue_of_waiting: "queue_of rid None w = sort_key wait_order (waiting_on rid w)"
  by (simp add: queue_of_def waiting_on_def beyond_def cong: filter_cong)

lemma promote_waiters_run:
  assumes "db_ok w" "fresh_ids (2 * length (waiting_on rid w)) w"
  shows "\<exists>got w' obs tr. promote_waiters rid w = Inr (got, w') \<and> db_ok w' \<and>
    bookings w' = bookings w @ obs \<and> map b_id obs = got \<and> obs = concat (map (\<lambda>u. snd (snd u)) tr) \<and>
    map fst tr = queue_of rid None w \<and> (\<forall>u \<in> set tr. turn_ok rid w w' u) \<and> sorted_wrt before tr"
proof -
  have d: "distinct (map w_id (waitlist w))"
    using db_okD(3) [OF assms(1)] by (simp add: entries_ok_def)
  have "distinct (map w_id (queue_of rid None w))"
    using distinct_map_filter [OF d] by (simp add: queue_of_def distinct_map)
  moreover have "fresh_ids (2 * length (queue_of rid None w)) w"
    using assms(2) by (simp add: queue_of_waiting)
  moreover have "\<forall>e \<in> set (queue_of rid None w).
      e \<in> set (waitlist w) \<and> w_status e = WWaiting \<and> w_resource_id e = rid"
    by (simp add: queue_of_waiting waiting_on_def)
  ultimately show ?thesis
    unfolding promote_waiters_queue [OF d] by (rule process_entries_ok [OF assms(1)])
qed

text \<open>
  C8: scanning in keyset pages of 100 while rows change under the scan (each offered or
  expired row leaves the WHERE clause of the later pages) handles exactly the entries that
  waited at the start, once each, in order of creation time and id: the paged loop, which
  terminates, equals one pass over that sorted list.
\<close>

theorem promote_waiters_one_pass:
  assumes "distinct (map w_id (waitlist w))"
  shows "promote_waiters rid w = process_entries rid (sort_key wait_order
    (filter (\<lambda>e. w_resource_id e = rid \<and> w_status e = WWaiting) (waitlist w))) w"
  using promote_waiters_queue [OF assms] by (simp add: queue_of_waiting waiting_on_def)

text \<open>
  C7: on a well-formed database a promotion always returns (no constraint, trigger or
  cardinality error escapes it), keeps the database well formed, and the ids it returns are
  those of the bookings it added: offered reservations on the resource, each linked to an
  entry that waited, on a window that was free, expiring 15 minutes after a clock sample or
  at the start of the window, whichever is earlier.
\<close>

theorem promote_waiters_total:
  assumes "db_ok w" "fresh_ids (2 * length (waiting_on rid w)) w"
  shows "\<exists>got w' obs. promote_waiters rid w = Inr (got, w') \<and> db_ok w' \<and>
    bookings w' = bookings w @ obs \<and> map b_id obs = got \<and>
    (\<forall>b \<in> set obs. b_status b = BOffered \<and> b_resource_id b = rid \<and>
       (\<exists>e \<in> set (waiting_on rid w). \<exists>x \<in> set (waitlist w'). w_id x = w_id e \<and>
          w_status x = WOffered \<and> offer_of x b \<and>
          \<not> (\<exists>c \<in> set (bookings w). blocked_by rid e c) \<and>
          (\<exists>t. b_expires_at b = Some (min (t + minutes 15) (lower (w_range e))))))"
proof -
  obtain got w' obs tr where run: "promote_waiters rid w = Inr (got, w')" "db_ok w'"
      "bookings w' = bookings w @ obs" "map b_id obs = got"
      "obs = concat (map (\<lambda>u. snd (snd u)) tr)" "map fst tr = queue_of rid None w"
      "\<forall>u \<in> set tr. turn_ok rid w w' u"
    using promote_waiters_run [OF assms] by blast
  have "b_status b = BOffered \<and> b_resource_id b = rid \<and>
       (\<exists>e \<in> set (waiting_on rid w). \<exists>x \<in> set (waitlist w'). w_id x = w_id e \<and>
          w_status x = WOffered \<and> offer_of x b \<and>
          \<not> (\<exists>c \<in> set (bookings w). blocked_by rid e c) \<and>
          (\<exists>t. b_expires_at b = Some (min (t + minutes 15) (lower (w_range e)))))"
    if "b \<in> set obs" for b
  proof -
    from that run(5) obtain e w0 obs0 where u: "(e, w0, obs0) \<in> set tr" "b \<in> set obs0" by auto
    then have "e \<in> set (map fst tr)" by force
    then have e: "e \<in> set (waiting_on rid w)" using run(6) by (simp add: queue_of_waiting)
    have "turn_ok rid w w' (e, w0, obs0)" using run(7) u(1) by blast
    then obtain x where x: "x \<in> set (waitlist w')" "w_id x = w_id e" "fate rid e w0 obs0 x"
        "set (bookings w) \<subseteq> set (bookings w0)"
      by (auto simp: turn_ok_def)
    with u(2) obtain t where "w_status x = WOffered" "offer_of x b" "b_status b = BOffered"
        "b_resource_id b = rid" "b_expires_at b = Some (offer_deadline t e)"
        "\<not> (\<exists>c \<in> set (bookings w0). blocked_by rid e c)"
      by (auto simp: fate_def)
    moreover have "offer_deadline t e = min (t + minutes 15) (lower (w_range e))"
      by (simp add: offer_deadline_def)
    ultimately show ?thesis using e x by auto
  qed
  then show ?thesis using run(1-4) by blast
qed

lemma work_conserved:
  assumes "db_ok w" "fresh_ids (2 * length (waiting_on rid w)) w"
    and "promote_waiters rid w = Inr (got, w')"
  shows "\<forall>e \<in> set (waiting_on rid w'). \<exists>b \<in> set (bookings w'). blocked_by rid e b"
proof
  fix x
  assume x: "x \<in> set (waiting_on rid w')"
  obtain tr where run: "db_ok w'" "map fst tr = queue_of rid None w"
      "\<forall>u \<in> set tr. turn_ok rid w w' u"
    using promote_waiters_run [OF assms(1,2)] assms(3) by auto
  have d: "distinct (map w_id (waitlist w))" and d': "distinct (map w_id (waitlist w'))"
    using db_okD(3) assms(1) run(1) by (auto simp: entries_ok_def)
  have "waitlist_fate w w'"
    using process_entries_fate assms(3) promote_waiters_queue [OF d, of rid] by fastforce
  then obtain i where i: "i < length (waitlist w)" "waitlist w' ! i = x" "entry_fate (waitlist w ! i) x"
    using x unfolding waitlist_fate_def waiting_on_def
    by (auto simp: list_all2_conv_all_nth in_set_conv_nth)
  have wx: "w_status x = WWaiting" "w_resource_id x = rid" "x \<in> set (waitlist w')"
    using x by (auto simp: waiting_on_def)
  with i have "x = waitlist w ! i" by (auto simp: entry_fate_def)
  then have "x \<in> set (waiting_on rid w)" using i(1) wx by (auto simp: waiting_on_def)
  then have "x \<in> set (map fst tr)" using run(2) by (simp add: queue_of_waiting)
  then obtain w0 obs where u: "(x, w0, obs) \<in> set tr" by auto
  have "turn_ok rid w w' (x, w0, obs)" using run(3) u by blast
  then obtain y where y: "y \<in> set (waitlist w')" "w_id y = w_id x" "fate rid x w0 obs y"
      "set (bookings w0) \<subseteq> set (bookings w')"
    by (auto simp: turn_ok_def)
  have "y = x" using distinct_key_eq [OF d' y(1) wx(3) y(2)] .
  then show "\<exists>b \<in> set (bookings w'). blocked_by rid x b"
    using y(3,4) wx(1) by (auto simp: fate_def)
qed

text \<open>
  C5: a promotion leaves no capacity unused: whoever still waits for the resource afterwards
  is blocked by an active booking of it that overlaps the requested window.
\<close>

theorem promote_waiters_work_conserving:
  assumes "db_ok w" "fresh_ids (2 * length (waiting_on rid w)) w"
    and "promote_waiters rid w = Inr (got, w')"
  shows "\<forall>e \<in> set (waiting_on rid w'). \<exists>b \<in> set (bookings w'). blocked_by rid e b"
  using assms by (rule work_conserved)


text \<open>
  A small database for the witnesses: a resource with two waiting members who want the same
  free window, at noon of a day, the window in the afternoon.
\<close>

definition ex_user :: "uuid \<Rightarrow> role \<Rightarrow> user" where
  "ex_user i r = \<lparr>u_id = i, u_email = ''a@b.c'', u_password_hash = [], u_display_name = ''A'',
     u_role = r, u_enabled = True, u_version = 1, u_created_at = 0, u_updated_at = 0\<rparr>"

definition ex_resource :: resource where
  "ex_resource = \<lparr>r_id = 1000, r_name = ''Lab'', r_description = [], r_location = ''L'',
     r_active = True, r_version = 1, r_created_at = 0, r_updated_at = 0\<rparr>"

definition ex_entry :: "uuid \<Rightarrow> uuid \<Rightarrow> time \<Rightarrow> wait_entry" where
  "ex_entry i u c = \<lparr>w_id = i, w_user_id = u, w_resource_id = 1000,
     w_range = \<lparr>lower = hours 14, upper = hours 15\<rparr>, w_status = WWaiting,
     w_offered_booking_id = None, w_version = 1, w_created_at = c, w_updated_at = c\<rparr>"

definition ex_db :: db where
  "ex_db = (empty_db (hours 12))\<lparr>users := [ex_user 101 Member, (ex_user 102 Member)\<lparr>u_enabled := False\<rparr>],
     resources := [ex_resource], waitlist := [ex_entry 201 101 5, ex_entry 202 102 3]\<rparr>"

lemma ex_db_ok: "db_ok ex_db"
  by (simp add: db_ok_def people_ok_def bookings_ok_def entries_ok_def events_ok_def offers_linked_def
      no_overlap_def entries_unique_def outbox_ok_def ex_db_def empty_db_def ex_user_def
      ex_resource_def ex_entry_def entry_check_iff entry_fks_def offer_fk_ok_def isempty_def
      same_active_entry_def same_offer_def time_units)

lemma ex_draws: "distinct (map (\<lambda>j. of_nat (Suc j) :: uuid) [0..<10]) \<and>
    (\<forall>j \<in> set [0..<10]. (of_nat (Suc j) :: uuid) \<notin> {201, 202})"
  by code_simp

lemma ex_db_fresh: "fresh_ids 10 ex_db"
proof -
  have "inj_on (\<lambda>j. of_nat (Suc j) :: uuid) (set [0..<10])" using ex_draws by (simp only: distinct_map)
  moreover have "set [0..<10] = {..<10::nat}" by (simp only: set_upt atLeast0LessThan)
  ultimately show ?thesis
    using ex_draws by (auto simp: fresh_ids_def ids_def ex_db_def empty_db_def ex_entry_def)
qed

lemma ex_db_waiting: "length (waiting_on 1000 ex_db) = 2"
  by code_simp

lemma ex_db_fresh4: "fresh_ids (2 * length (waiting_on 1000 ex_db)) ex_db"
  unfolding ex_db_waiting by (rule fresh_ids_mono [OF ex_db_fresh]) simp

lemma ex_db_result:
  "case promote_waiters 1000 ex_db of Inl x \<Rightarrow> False
   | Inr (got, w) \<Rightarrow> got = [1] \<and> map w_status (waitlist w) = [WOffered, WExpired]
       \<and> map w_id (waitlist w) = [201, 202]"
  by code_simp

theorem promote_waiters_one_pass_witness:
  "promote_waiters 1000 ex_db = process_entries 1000 [ex_entry 202 102 3, ex_entry 201 101 5] ex_db"
proof -
  have "distinct (map w_id (waitlist ex_db))" using db_okD(3) [OF ex_db_ok] by (simp add: entries_ok_def)
  from promote_waiters_one_pass [OF this, of 1000] show ?thesis
    by (simp add: ex_db_def ex_entry_def wait_order_def empty_db_def)
qed

theorem promote_waiters_total_witness:
  "\<exists>got w'. promote_waiters 1000 ex_db = Inr (got, w') \<and> db_ok w'"
  using promote_waiters_total [OF ex_db_ok ex_db_fresh4] by blast

theorem promote_waiters_work_conserving_witness:
  "\<exists>got w'. promote_waiters 1000 ex_db = Inr (got, w') \<and>
     (\<forall>e \<in> set (waiting_on 1000 w'). \<exists>b \<in> set (bookings w'). blocked_by 1000 e b)"
proof -
  obtain got w' where r: "promote_waiters 1000 ex_db = Inr (got, w')"
    using ex_db_result by (auto split: sum.splits)
  from r promote_waiters_work_conserving [OF ex_db_ok ex_db_fresh4 r] show ?thesis by blast
qed


end
