(* ===== verification/Scope.thy ===== *)
theory Scope
imports Wellformed
begin

text \<open>
  The authorization scope a route hands to its service (app/auth/dependencies.py): policies
  and their roles, the If-Match precondition and its round trip with the ETag the service
  emits, and the resolution of the caller's own booking or waitlist entry. Also
  append_audit_log (app/admin/audit.py), which the services call under that scope.
\<close>

section \<open>Policies and scopes\<close>

datatype policy = PPublic | PAuthenticated | POwnBooking | POwnWaitlist | PAdmin | PMetrics

text \<open>
  predicates is a dictionary in the code; these are the keys the services read. A missing
  key is None, an empty tuple the empty list.
\<close>

record scope =
  principal_id :: "uuid option"
  scope_policy :: policy
  object_id :: "uuid option"
  scope_resource_id :: "uuid option"
  expected_version :: "int option"
  booking_preds :: "(booking \<Rightarrow> bool) list option"
  waitlist_preds :: "(wait_entry \<Rightarrow> bool) list option"
  allow_running :: bool
  audit :: bool
  request_id :: "uuid option"

definition conj_preds :: "('r \<Rightarrow> bool) list \<Rightarrow> 'r \<Rightarrow> bool" where
  "conj_preds ps r = list_all (\<lambda>p. p r) ps"

lemma conj_preds_simps [simp]:
  "conj_preds [] r"
  "conj_preds (p # ps) r \<longleftrightarrow> p r \<and> conj_preds ps r"
  by (simp_all add: conj_preds_def)

text \<open>The role half of a policy: fails closed for policies without a rule.\<close>

definition enforce_policy_role :: "policy \<Rightarrow> role option \<Rightarrow> unit result" where
  "enforce_policy_role pol r =
     (case pol of
        PAdmin \<Rightarrow> raise_if (r \<notin> {Some Admin}) ForbiddenError
      | PAuthenticated \<Rightarrow> raise_if (r \<notin> {Some Member, Some Admin}) ForbiddenError
      | POwnBooking \<Rightarrow> raise_if (r \<notin> {Some Member, Some Admin}) ForbiddenError
      | POwnWaitlist \<Rightarrow> raise_if (r \<notin> {Some Member, Some Admin}) ForbiddenError
      | _ \<Rightarrow> Inl ForbiddenError)"

definition policy_registry :: "(string \<times> policy) list" where
  "policy_registry =
     [(''E01'', PPublic), (''E02'', PPublic), (''E03'', PPublic), (''E04'', PPublic),
      (''E05'', PAuthenticated), (''E06'', PAuthenticated), (''E07'', PAuthenticated),
      (''E08'', PAuthenticated), (''E09'', PAuthenticated), (''E10'', POwnBooking),
      (''E11'', POwnBooking), (''E12'', POwnBooking), (''E13'', PAuthenticated),
      (''E14'', POwnWaitlist), (''E15'', POwnWaitlist), (''E16'', POwnWaitlist),
      (''E17'', PAdmin), (''E18'', PAdmin), (''E19'', PAdmin), (''E20'', PAdmin),
      (''E21'', PAdmin), (''E22'', PAdmin), (''E23'', PAdmin), (''E24'', PAdmin),
      (''E25'', PAdmin), (''E26'', PAdmin), (''E27'', PAdmin), (''E28'', PAdmin),
      (''E29'', PAdmin), (''E30'', PAdmin), (''E31'', PAdmin), (''E32'', PAdmin),
      (''E33'', PAuthenticated), (''E34'', PAdmin), (''E35'', PPublic), (''E36'', PPublic),
      (''E37'', PMetrics)]"

section \<open>If-Match\<close>

text \<open>str(n) of a natural number, and the ETag header of version n.\<close>

fun nat_str :: "nat \<Rightarrow> string" where
  "nat_str n = (if n < 10 then [hexdigit n] else nat_str (n div 10) @ [hexdigit (n mod 10)])"

declare nat_str.simps [simp del]

definition etag :: "int \<Rightarrow> string" where
  "etag v = ''\"'' @ nat_str (nat v) @ ''\"''"

text \<open>
  The pattern ^\"(0|[1-9][0-9]*)\"$ on the stripped header. int() of more than 4300 digits
  raises ValueError (the interpreter's limit on conversions).
\<close>

definition is_digit :: "char \<Rightarrow> bool" where
  "is_digit c = (48 \<le> code c \<and> code c \<le> 57)"

definition strong_etag_digits :: "string \<Rightarrow> string option" where
  "strong_etag_digits s =
     (if length s \<ge> 3 \<and> hd s = CHR 34 \<and> last s = CHR 34 then
        (let ds = butlast (tl s) in
         if list_all is_digit ds \<and> (ds = ''0'' \<or> hd ds \<noteq> CHR ''0'') then Some ds else None)
      else None)"

definition parse_if_match :: "string option \<Rightarrow> int result" where
  "parse_if_match header =
     (case header of
        None \<Rightarrow> Inl PreconditionRequiredError
      | Some h \<Rightarrow>
          if py_strip h = [] then Inl PreconditionRequiredError
          else (case strong_etag_digits (py_strip h) of
                  None \<Rightarrow> Inl InvalidIfMatchError
                | Some ds \<Rightarrow>
                    if length ds > 4300 then Inl ValueError
                    else (case undec ds of None \<Rightarrow> Inl ValueError | Some n \<Rightarrow> Inr n)))"

section \<open>Own objects\<close>

record request =
  req_method :: string
  req_path :: string
  req_id_param :: "string option"
  req_if_match :: "string option"
  req_authorization :: "string option"
  req_request_id :: "string option"

definition own_scope :: "policy \<Rightarrow> uuid \<Rightarrow> scope" where
  "own_scope pol p =
     \<lparr>principal_id = Some p, scope_policy = pol, object_id = None, scope_resource_id = None,
      expected_version = None, booking_preds = None, waitlist_preds = None, allow_running = False,
      audit = False, request_id = None\<rparr>"

definition resolve_own_booking_scope :: "request \<Rightarrow> uuid \<Rightarrow> db \<Rightarrow> scope result" where
  "resolve_own_booking_scope rq p w =
     (let sc = (own_scope POwnBooking p)\<lparr>booking_preds := Some [\<lambda>b. b_user_id b = Some p]\<rparr> in
      case req_id_param rq of
        None \<Rightarrow> Inr sc
      | Some raw \<Rightarrow>
          bind_r (if req_method rq \<noteq> ''GET'' then bind_r (parse_if_match (req_if_match rq)) (\<lambda>v. Inr (Some v))
                  else Inr None) (\<lambda>ver.
          case parse_uuid raw of
            None \<Rightarrow> Inl RequestValidationError
          | Some bid \<Rightarrow>
              bind_r (scalar_one_or_none (filter
                (\<lambda>b. b_id b = bid \<and> b_kind b = Reservation \<and> b_user_id b = Some p) (bookings w)))
                (\<lambda>row. case row of
                   None \<Rightarrow> Inl ObjectNotFoundError
                 | Some b \<Rightarrow> Inr (sc\<lparr>object_id := Some (b_id b),
                     scope_resource_id := Some (b_resource_id b), expected_version := ver\<rparr>))))"

definition resolve_own_waitlist_scope :: "request \<Rightarrow> uuid \<Rightarrow> db \<Rightarrow> scope result" where
  "resolve_own_waitlist_scope rq p w =
     (let sc = (own_scope POwnWaitlist p)\<lparr>waitlist_preds := Some [\<lambda>e. w_user_id e = p]\<rparr> in
      case req_id_param rq of
        None \<Rightarrow> Inr sc
      | Some raw \<Rightarrow>
          bind_r (if req_method rq \<noteq> ''GET'' then bind_r (parse_if_match (req_if_match rq)) (\<lambda>v. Inr (Some v))
                  else Inr None) (\<lambda>ver.
          case parse_uuid raw of
            None \<Rightarrow> Inl RequestValidationError
          | Some eid \<Rightarrow>
              bind_r (scalar_one_or_none (filter
                (\<lambda>e. w_id e = eid \<and> w_user_id e = p) (waitlist w)))
                (\<lambda>row. case row of
                   None \<Rightarrow> Inl ObjectNotFoundError
                 | Some e \<Rightarrow> Inr (sc\<lparr>object_id := Some (w_id e),
                     scope_resource_id := Some (w_resource_id e), expected_version := ver\<rparr>))))"

section \<open>The audit log\<close>

definition insert_audit :: "audit_row \<Rightarrow> db \<Rightarrow> db result" where
  "insert_audit a w =
     (if a_id a \<in> a_id ` set (audit_log w) then Inl (IntegrityError ''23505'' ''audit_log_pkey'')
      else if (case a_actor_id a of None \<Rightarrow> False | Some u \<Rightarrow> u \<notin> u_id ` set (users w))
        then Inl (IntegrityError ''23503'' ''audit_log_actor_id_fkey'')
      else Inr (w\<lparr>audit_log := audit_log w @ [a]\<rparr>))"

text \<open>Every caller passes the request id as a UUID and the time.\<close>

definition append_audit_log ::
  "string \<Rightarrow> string \<Rightarrow> uuid option \<Rightarrow> uuid option \<Rightarrow> uuid \<Rightarrow> json \<Rightarrow> time \<Rightarrow> db \<Rightarrow> (audit_row \<times> db) result"
  where
  "append_audit_log action target_type target_id actor_id req details now w =
     (let (aid, w1) = uuid4 w;
          entry = \<lparr>a_id = aid, a_actor_id = actor_id, a_action = action, a_target_type = target_type,
                   a_target_id = target_id, a_request_id = req, a_details = details,
                   a_created_at = now\<rparr>
      in bind_r (insert_audit entry w1) (\<lambda>w2. Inr (entry, w2)))"

text \<open>scope.predicates.get(request_id) or uuid.uuid4().\<close>

definition request_id_or_new :: "scope \<Rightarrow> db \<Rightarrow> uuid \<times> db" where
  "request_id_or_new sc w = (case request_id sc of Some r \<Rightarrow> (r, w) | None \<Rightarrow> uuid4 w)"

section \<open>The ETag round trip\<close>

definition digit_val :: "char \<Rightarrow> nat" where "digit_val c = the (decval c)"

lemma digit_char_table:
  "\<forall>n \<in> set [0..<10]. is_digit (hexdigit n) \<and> decval (hexdigit n) = Some n \<and>
     (hexdigit n = CHR ''0'') = (n = 0)"
  by code_simp

lemma digit_char: "n < 10 \<Longrightarrow> is_digit (hexdigit n) \<and> decval (hexdigit n) = Some n \<and>
     (hexdigit n = CHR ''0'') = (n = 0)"
  using digit_char_table by simp

lemma is_digit_hexdigit:
  assumes "is_digit c"
  shows "\<exists>n < 10. c = hexdigit n"
proof -
  have c: "c = char_of (code c)" by (simp add: code_def)
  have "\<forall>k \<in> set [48..<58]. char_of (k::nat) = hexdigit (k - 48)" by code_simp
  moreover have "code c \<in> set [48..<58]" unfolding set_upt using assms by (simp add: is_digit_def)
  ultimately have "char_of (code c) = hexdigit (code c - 48)" by blast
  then have "c = hexdigit (code c - 48)" using c by simp
  moreover have "code c - 48 < 10" using assms by (auto simp: is_digit_def)
  ultimately show ?thesis by blast
qed

lemma undec_digits:
  assumes "list_all is_digit ds" "ds \<noteq> []"
  shows "undec ds = Some (int (undigits 10 (map digit_val ds)))"
proof -
  have "\<forall>c \<in> set ds. decval c \<noteq> None"
    using assms(1) is_digit_hexdigit digit_char unfolding list_all_iff by fastforce
  then show ?thesis using assms(2) by (simp add: undec_def digit_val_def [abs_def])
qed

text \<open>nat_str prints the canonical decimal numeral, and every such numeral is printed.\<close>

definition canonical :: "string \<Rightarrow> bool" where
  "canonical ds = (ds \<noteq> [] \<and> list_all is_digit ds \<and> (ds = ''0'' \<or> hd ds \<noteq> CHR ''0''))"

lemma nat_str_canonical: "canonical (nat_str n) \<and> undigits 10 (map digit_val (nat_str n)) = n"
proof (induction n rule: nat_str.induct)
  case (1 n)
  show ?case
  proof (cases "n < 10")
    case True
    then show ?thesis
      using digit_char [OF True] by (subst (1 2) nat_str.simps)
        (auto simp: canonical_def digit_val_def undigits_def hexdigit_def hexchars_def)
  next
    case False
    let ?q = "n div 10"
    note IH = 1 [OF False]
    have q: "nat_str ?q \<noteq> ''0''"
    proof
      assume "nat_str ?q = ''0''"
      moreover have "digit_val (CHR ''0'') = 0" by code_simp
      ultimately have "?q = 0" using IH by (simp add: undigits_def)
      then show False using False by simp
    qed
    have "n mod 10 < 10" by simp
    note d = digit_char [OF this]
    have step: "nat_str n = nat_str ?q @ [hexdigit (n mod 10)]"
      using False by (subst nat_str.simps) simp
    have "digit_val (hexdigit (n mod 10)) = n mod 10" using d by (simp add: digit_val_def)
    then have "undigits 10 (map digit_val (nat_str n)) = n"
      using IH unfolding step by (simp add: undigits_snoc)
    moreover have "canonical (nat_str n)"
      using IH q d unfolding step by (auto simp: canonical_def)
    ultimately show ?thesis by blast
  qed
qed

lemma nat_str_undigits:
  "canonical ds \<Longrightarrow> nat_str (undigits 10 (map digit_val ds)) = ds"
proof (induction ds rule: rev_induct)
  case Nil
  then show ?case by (simp add: canonical_def)
next
  case (snoc c ds)
  obtain n where n: "n < 10" "c = hexdigit n"
    using snoc.prems is_digit_hexdigit by (auto simp: canonical_def)
  have v: "digit_val c = n" using digit_char [OF n(1)] n(2) by (simp add: digit_val_def)
  show ?case
  proof (cases "ds = []")
    case True
    then show ?thesis using n v by (subst nat_str.simps) (simp add: undigits_def)
  next
    case False
    then have hd: "hd ds \<noteq> CHR ''0''" and dig: "list_all is_digit ds"
      using snoc.prems by (auto simp: canonical_def)
    then have can: "canonical ds" using False by (simp add: canonical_def)
    let ?m = "undigits 10 (map digit_val ds)"
    note IH = snoc.IH [OF can]
    have "?m \<noteq> 0"
    proof
      assume "?m = 0"
      then have "ds = nat_str 0" using IH by simp
      then have "ds = ''0''" by (simp add: nat_str.simps [of 0] hexdigit_def hexchars_def)
      then show False using hd by simp
    qed
    then have "\<not> ?m * 10 + n < 10" by simp
    then have "nat_str (?m * 10 + n) = nat_str ?m @ [hexdigit n]"
      using n(1) by (subst nat_str.simps) simp
    then show ?thesis using IH v n(2) by (simp add: undigits_snoc)
  qed
qed

lemma strong_etag_digits_iff:
  "strong_etag_digits s = Some ds \<longleftrightarrow> canonical ds \<and> s = ''\"'' @ ds @ ''\"''"
proof
  assume a: "strong_etag_digits s = Some ds"
  then have s: "length s \<ge> 3" "hd s = CHR 34" "last s = CHR 34" "ds = butlast (tl s)"
      "list_all is_digit ds" "ds = ''0'' \<or> hd ds \<noteq> CHR ''0''"
    by (auto simp: strong_etag_digits_def Let_def split: if_splits)
  obtain x t where xt: "s = x # t" using s(1) by (cases s) auto
  then have t: "t \<noteq> []" using s(1) by auto
  then have "t = butlast t @ [last t]" by simp
  moreover have "last t = CHR 34" using s(3) xt t by simp
  ultimately have "t = ds @ ''\"''" using s(4) xt by (metis list.sel(3))
  then have "s = ''\"'' @ ds @ ''\"''" using xt s(2) by simp
  moreover have "ds \<noteq> []" using s(1,4) xt t by (auto simp: butlast_conv_take)
  ultimately show "canonical ds \<and> s = ''\"'' @ ds @ ''\"''" using s(5,6) by (simp add: canonical_def)
next
  assume "canonical ds \<and> s = ''\"'' @ ds @ ''\"''"
  then show "strong_etag_digits s = Some ds"
    by (auto simp: strong_etag_digits_def canonical_def Let_def butlast_append Suc_le_eq)
qed

text \<open>
  An If-Match header reads as version v exactly when, stripped of surrounding
  whitespace, it is the ETag the service emits for v (of at most 4300 digits): every emitted
  ETag reads back, and no weak, unquoted, multiple, signed or zero-padded form is accepted.
\<close>

theorem parse_if_match_iff:
  "parse_if_match (Some h) = Inr v \<longleftrightarrow>
     0 \<le> v \<and> py_strip h = etag v \<and> length (nat_str (nat v)) \<le> 4300"
proof
  assume a: "parse_if_match (Some h) = Inr v"
  then obtain ds where ds: "strong_etag_digits (py_strip h) = Some ds" "length ds \<le> 4300" "undec ds = Some v"
    by (auto simp: parse_if_match_def split: option.splits if_splits)
  then have can: "canonical ds" and h: "py_strip h = ''\"'' @ ds @ ''\"''"
    by (simp_all only: strong_etag_digits_iff)
  then have v: "v = int (undigits 10 (map digit_val ds))"
    using ds(3) undec_digits [of ds] by (simp add: canonical_def)
  then have "nat_str (nat v) = ds" using nat_str_undigits [OF can] by simp
  then show "0 \<le> v \<and> py_strip h = etag v \<and> length (nat_str (nat v)) \<le> 4300"
    using v h ds(2) by (simp add: etag_def)
next
  assume b: "0 \<le> v \<and> py_strip h = etag v \<and> length (nat_str (nat v)) \<le> 4300"
  have can: "canonical (nat_str (nat v))" and val: "undigits 10 (map digit_val (nat_str (nat v))) = nat v"
    using nat_str_canonical by auto
  have "strong_etag_digits (py_strip h) = Some (nat_str (nat v))"
    using b can by (simp add: strong_etag_digits_iff etag_def)
  moreover have "undec (nat_str (nat v)) = Some v"
    using can val b undec_digits [of "nat_str (nat v)"] by (simp add: canonical_def)
  moreover have "py_strip h \<noteq> []" using b by (simp add: etag_def)
  ultimately show "parse_if_match (Some h) = Inr v" using b by (simp add: parse_if_match_def)
qed

text \<open>
  A well-formed entity tag of more than 4300 digits is not rejected as malformed: the
  conversion raises ValueError, which nothing between the route and the generic handler
  catches.
\<close>

theorem parse_if_match_overlong:
  "parse_if_match (Some (''\"'' @ replicate 4301 CHR ''1'' @ ''\"'')) = Inl ValueError"
proof -
  let ?d = "replicate 4301 CHR ''1''"
  have one: "is_digit (CHR ''1'')" "\<not> py_space (CHR 34)" by code_simp+
  have "canonical ?d" using one(1) by (simp add: canonical_def list_all_iff)
  moreover have strip: "py_strip (''\"'' @ ?d @ ''\"'') = ''\"'' @ ?d @ ''\"''"
    using one(2) by (simp add: py_strip_def strip_chars_def)
  ultimately have digits: "strong_etag_digits (py_strip (''\"'' @ ?d @ ''\"'')) = Some ?d"
    by (simp only: strong_etag_digits_iff)
  have "length ?d > 4300" by (simp only: length_replicate)
  then show ?thesis
    unfolding parse_if_match_def option.case(2) digits using strip by (simp only: if_True) simp
qed

section \<open>Writing the audit log succeeds\<close>

lemma append_audit_total:
  assumes fresh: "fresh_ids (Suc k) w" and actor: "\<forall>p. actor_id = Some p \<longrightarrow> p \<in> u_id ` set (users w)"
  shows "\<exists>a. append_audit_log act ty tid actor_id req d t w
      = Inr (a, w\<lparr>drawn := Suc (drawn w), audit_log := audit_log w @ [a]\<rparr>) \<and>
    a_action a = act \<and> a_target_id a = tid \<and> a_actor_id a = actor_id \<and>
    fresh_ids k (w\<lparr>drawn := Suc (drawn w), audit_log := audit_log w @ [a]\<rparr>)"
proof -
  let ?a = "\<lparr>a_id = uuid_src w (drawn w), a_actor_id = actor_id, a_action = act, a_target_type = ty,
      a_target_id = tid, a_request_id = req, a_details = d, a_created_at = t\<rparr>"
  have "uuid_src w (drawn w) \<notin> a_id ` set (audit_log w)" using fresh_ids_next [OF fresh] by (auto simp: ids_def)
  then have run: "append_audit_log act ty tid actor_id req d t w
      = Inr (?a, w\<lparr>drawn := Suc (drawn w), audit_log := audit_log w @ [?a]\<rparr>)"
    using actor by (auto simp: append_audit_log_def uuid4_def Let_def insert_audit_def split: option.splits)
  have "fresh_ids k (w\<lparr>drawn := Suc (drawn w), audit_log := audit_log w @ [?a]\<rparr>)"
    using fresh by (rule fresh_ids_draw) (auto simp: ids_def)
  with run show ?thesis by (intro exI [of _ ?a]) simp
qed

lemma request_id_fresh:
  assumes "fresh_ids (Suc k) w"
  shows "fresh_ids k (snd (request_id_or_new sc w))"
proof (cases "request_id sc")
  case None
  have "fresh_ids k (w\<lparr>drawn := Suc (drawn w)\<rparr>)"
    using assms by (rule fresh_ids_draw) (auto simp: ids_def)
  then show ?thesis using None by (simp add: request_id_or_new_def uuid4_def)
next
  case (Some r)
  then show ?thesis using fresh_ids_mono [OF assms] by (simp add: request_id_or_new_def)
qed

text \<open>What writing an audit entry touches: the audit log and the supply of UUIDs.\<close>

definition audited :: "db \<Rightarrow> db \<Rightarrow> bool" where
  "audited w w' = (\<exists>n as. w' = w\<lparr>drawn := n, audit_log := audit_log w @ as\<rparr>)"

lemma request_id_audited: "request_id_or_new sc w = (r, w') \<Longrightarrow> \<exists>n. w' = w\<lparr>drawn := n\<rparr>"
  by (auto simp: request_id_or_new_def uuid4_def split: option.splits intro: exI [of _ "drawn w"])

lemma append_audit_audited:
  "append_audit_log act ty tid actor_id req d t w = Inr (x, w') \<Longrightarrow> audited w w'"
  by (auto simp: append_audit_log_def uuid4_def Let_def insert_audit_def bind_r_Inr audited_def
      split: if_splits option.splits)

end
