(* ===== verification/Holds.thy ===== *)
theory Holds
imports Promotion Scope
begin

text \<open>
  The rows an offer consists of, an offered booking and an offered entry, change together:
  when the offer is accepted, declined, cancelled or expires. These lemmas say that such a
  pair of updates goes through on a well-formed database, in either order, and that the
  event appended for the booking's new version is accepted.
\<close>

section \<open>One booking\<close>

definition pinned_booking :: "booking \<Rightarrow> booking \<Rightarrow> bool" where
  "pinned_booking b x = (b_id x = b_id b \<and> b_version x = b_version b)"

text \<open>The status changes the service makes, each with a new version and time.\<close>

definition restatus :: "booking_status \<Rightarrow> time \<Rightarrow> booking \<Rightarrow> booking" where
  "restatus st now b =
     b\<lparr>b_status := st, b_expires_at := None, b_version := b_version b + 1, b_updated_at := now\<rparr>"

definition entry_restatus :: "wait_status \<Rightarrow> time \<Rightarrow> wait_entry \<Rightarrow> wait_entry" where
  "entry_restatus st now e =
     e\<lparr>w_status := st, w_version := w_version e + 1, w_updated_at := now\<rparr>"

interpretation restatus_row: versioned_row b_id b_version "restatus st t" for st t
  by unfold_locales (simp_all add: restatus_def)

interpretation entry_restatus_row: versioned_row w_id w_version "entry_restatus st t" for st t
  by unfold_locales (simp_all add: entry_restatus_def)

lemma restatus_simps [simp]:
  "b_id (restatus st t b) = b_id b" "b_version (restatus st t b) = b_version b + 1"
  "b_status (restatus st t b) = st" "b_resource_id (restatus st t b) = b_resource_id b"
  "b_range (restatus st t b) = b_range b" "b_kind (restatus st t b) = b_kind b"
  "b_user_id (restatus st t b) = b_user_id b" "b_created_by (restatus st t b) = b_created_by b"
  "b_expires_at (restatus st t b) = None"
  "b_cancellation_reason (restatus st t b) = b_cancellation_reason b"
  by (simp_all add: restatus_def)

lemma entry_restatus_simps [simp]:
  "w_id (entry_restatus st t e) = w_id e" "w_status (entry_restatus st t e) = st"
  "w_version (entry_restatus st t e) = w_version e + 1"
  "w_user_id (entry_restatus st t e) = w_user_id e"
  "w_resource_id (entry_restatus st t e) = w_resource_id e"
  "w_range (entry_restatus st t e) = w_range e"
  "w_offered_booking_id (entry_restatus st t e) = w_offered_booking_id e"
  "w_created_at (entry_restatus st t e) = w_created_at e"
  by (simp_all add: entry_restatus_def)

lemma restatus_step:
  assumes "booking_check b = None" "booking_transition (b_status b) st" "active_booking b"
    and "b_kind b = Reservation \<or> st = BCancelled"
  shows "booking_step b (restatus st t b)"
  using assms
  by (auto simp: booking_step_def guard_booking_update_def booking_check_iff booking_transition_def
      active_booking_def)

lemma entry_restatus_step:
  assumes "entry_check e = None" "st \<notin> {WWaiting, WOffered}"
    and "st = WAccepted \<longrightarrow> w_offered_booking_id e \<noteq> None"
  shows "entry_step w e (entry_restatus st t e)"
  using assms by (auto simp: entry_step_def entry_check_iff active_entry_def)

lemma update_one_booking_runs:
  assumes ok: "bookings_ok w" and b: "b \<in> set (bookings w)" and f: "booking_step b (f b)"
  shows "update_bookings (pinned_booking b) f w
      = Inr (1, w\<lparr>bookings := update_where (\<lambda>x. b_id x = b_id b) f (bookings w)\<rparr>)"
    "bookings_ok (w\<lparr>bookings := update_where (\<lambda>x. b_id x = b_id b) f (bookings w)\<rparr>)"
proof -
  have dist: "distinct (map b_id (bookings w))" using ok by (simp add: bookings_ok_def)
  note pin = pinned_update [where ver = b_version, OF dist b refl refl]
  have only: "x = b" if "x \<in> set (bookings w)" "b_id x = b_id b" for x
    using distinct_key_eq [OF dist that(1) b that(2)] .
  have step: "booking_step x (f x)" if "x \<in> set (bookings w)" "pinned_booking b x" for x
    using only that f by (auto simp: pinned_booking_def)
  note run = update_bookings_runs [where P = "pinned_booking b" and f = f, OF ok step]
  have eq: "pinned_booking b = (\<lambda>x. b_id x = b_id b \<and> b_version x = b_version b)"
    by (simp add: pinned_booking_def [abs_def])
  have u: "update_where (pinned_booking b) f (bookings w)
      = update_where (\<lambda>x. b_id x = b_id b) f (bookings w)"
    unfolding eq by (rule pin(1))
  have r: "rowcount (pinned_booking b) (bookings w) = 1" unfolding eq by (rule pin(2))
  show "update_bookings (pinned_booking b) f w
      = Inr (1, w\<lparr>bookings := update_where (\<lambda>x. b_id x = b_id b) f (bookings w)\<rparr>)"
    by (rule run(1) [unfolded r u])
  show "bookings_ok (w\<lparr>bookings := update_where (\<lambda>x. b_id x = b_id b) f (bookings w)\<rparr>)"
    by (rule run(2) [unfolded u])
qed

text \<open>Entries and events stay well formed when one booking moves on.\<close>

lemma others_ok_booking_moved:
  assumes "b \<in> set (bookings w)" "bookings_ok w" "b_id (f b) = b_id b" "b_version b \<le> b_version (f b)"
  defines "w' \<equiv> w\<lparr>bookings := update_where (\<lambda>x. b_id x = b_id b) f (bookings w)\<rparr>"
  shows "entries_ok w \<Longrightarrow> entries_ok w'" "events_ok w \<Longrightarrow> events_ok w'"
proof -
  let ?t = "update_where (\<lambda>x. b_id x = b_id b) f (bookings w)"
  have only: "x = b" if "x \<in> set (bookings w)" "b_id x = b_id b" for x
    using assms(1,2) that by (auto simp: bookings_ok_def intro: distinct_key_eq)
  have "\<exists>x' \<in> set ?t. b_id x' = b_id x \<and> b_version x \<le> b_version x'" if "x \<in> set (bookings w)" for x
  proof (cases "b_id x = b_id b")
    case True
    with only that have "x = b" by blast
    then show ?thesis using assms(1,3,4) by (auto simp: set_update_where)
  next
    case False
    then show ?thesis using that by (auto simp: set_update_where)
  qed
  note grow = this
  have "b_id ` set (bookings w) \<subseteq> b_id ` set ?t"
  proof (rule image_subsetI)
    fix x
    assume "x \<in> set (bookings w)"
    then obtain x' where "x' \<in> set ?t" "b_id x' = b_id x" using grow by blast
    then show "b_id x \<in> b_id ` set ?t" by (metis imageI)
  qed
  then show "entries_ok w \<Longrightarrow> entries_ok w'"
    unfolding w'_def by (intro entries_ok_more_bookings)
  show "events_ok w \<Longrightarrow> events_ok w'"
    unfolding w'_def using grow by (intro events_ok_bookings)
qed

text \<open>The event of a booking's new version: no event of it can have that version yet.\<close>

lemma new_version_event:
  assumes "bookings_ok w" "events_ok w" "b \<in> set (bookings w)"
    and "b_id b' = b_id b" "b_version b < b_version b'"
  shows "\<forall>r \<in> set (outbox w). o_aggregate_id r = b_id b' \<longrightarrow> o_aggregate_version r < b_version b'"
  using events_version [OF assms(1,2)] assms(3-5) by (metis order_le_less_trans)

section \<open>The two rows of an offer\<close>

text \<open>At most one entry points at a booking.\<close>

lemma entry_of_booking:
  assumes "entries_ok w" "x \<in> set (waitlist w)" "y \<in> set (waitlist w)"
    and "w_offered_booking_id x = w_offered_booking_id y" "w_offered_booking_id x \<noteq> None"
  shows "x = y"
proof (rule ccontr)
  assume "x \<noteq> y"
  obtain i where i: "i < length (waitlist w)" "waitlist w ! i = x"
    using assms(2) by (auto simp: in_set_conv_nth)
  obtain j where j: "j < length (waitlist w)" "waitlist w ! j = y"
    using assms(3) by (auto simp: in_set_conv_nth)
  have "i < j \<or> j < i" using i j \<open>x \<noteq> y\<close> by (metis linorder_neqE_nat)
  moreover have "same_offer x y" "same_offer y x" using assms(4,5) by (auto simp: same_offer_def)
  ultimately show False
    using assms(1) i j unfolding entries_ok_def entries_unique_def sorted_wrt_iff_nth_less by metis
qed

lemma offers_linked_settled:
  assumes ok: "db_ok w" and b: "b \<in> set (bookings w)"
    and e: "e \<in> set (waitlist w)" "w_status e = WOffered" "offer_of e b"
    and f: "b_status (f b) \<noteq> BOffered" and g: "w_status (g e) \<noteq> WOffered"
  shows "offers_linked (w\<lparr>bookings := update_where (\<lambda>x. b_id x = b_id b) f (bookings w),
      waitlist := update_where (\<lambda>x. w_id x = w_id e) g (waitlist w)\<rparr>)"
proof -
  let ?bs = "update_where (\<lambda>x. b_id x = b_id b) f (bookings w)"
  let ?es = "update_where (\<lambda>x. w_id x = w_id e) g (waitlist w)"
  note parts = db_okD [OF ok]
  have onlyb: "x = b" if "x \<in> set (bookings w)" "b_id x = b_id b" for x
    using parts(2) b that by (auto simp: bookings_ok_def intro: distinct_key_eq)
  have onlye: "x = e" if "x \<in> set (waitlist w)" "w_id x = w_id e" for x
    using parts(3) e(1) that by (auto simp: entries_ok_def intro: distinct_key_eq)
  have eb: "w_offered_booking_id e = Some (b_id b)" using e(3) by (simp add: offer_of_def)
  have single: "x = e" if "x \<in> set (waitlist w)" "w_offered_booking_id x = Some (b_id b)" for x
    using entry_of_booking [OF parts(3) that(1) e(1)] that(2) eb by simp
  have "\<exists>c \<in> set ?bs. b_status c = BOffered \<and> offer_of x c" if x: "x \<in> set ?es" "w_status x = WOffered" for x
  proof -
    have x': "x \<in> set (waitlist w)" "x \<noteq> e"
    proof -
      from x(1) have "x \<in> set (waitlist w) \<and> w_id x \<noteq> w_id e \<or> (\<exists>y \<in> set (waitlist w). w_id y = w_id e \<and> x = g y)"
        by (auto simp: set_update_where)
      then have "x \<in> set (waitlist w) \<and> w_id x \<noteq> w_id e" using x(2) g onlye by blast
      then show "x \<in> set (waitlist w)" "x \<noteq> e" by auto
    qed
    then obtain c where c: "c \<in> set (bookings w)" "b_status c = BOffered" "offer_of x c"
      using parts(5) x(2) by (auto simp: offers_linked_def)
    have "b_id c \<noteq> b_id b" using single [OF x'(1)] x'(2) c(3) by (auto simp: offer_of_def)
    then have "c \<in> set ?bs" using c(1) by (auto simp: set_update_where)
    with c show ?thesis by blast
  qed
  moreover have "\<exists>x \<in> set ?es. w_status x = WOffered \<and> offer_of x c" if c: "c \<in> set ?bs" "b_status c = BOffered" for c
  proof -
    have c': "c \<in> set (bookings w)" "c \<noteq> b"
    proof -
      from c(1) have "c \<in> set (bookings w) \<and> b_id c \<noteq> b_id b \<or> (\<exists>y \<in> set (bookings w). b_id y = b_id b \<and> c = f y)"
        by (auto simp: set_update_where)
      then have "c \<in> set (bookings w) \<and> b_id c \<noteq> b_id b" using c(2) f onlyb by blast
      then show "c \<in> set (bookings w)" "c \<noteq> b" by auto
    qed
    then obtain x where x: "x \<in> set (waitlist w)" "w_status x = WOffered" "offer_of x c"
      using parts(5) c(2) by (auto simp: offers_linked_def)
    have "b_id c \<noteq> b_id b" using c' onlyb by blast
    then have "x \<noteq> e" using x(3) eb by (auto simp: offer_of_def)
    then have "w_id x \<noteq> w_id e" using onlye x(1) by blast
    then have "x \<in> set ?es" using x(1) by (auto simp: set_update_where)
    with x show ?thesis by blast
  qed
  ultimately show ?thesis by (simp add: offers_linked_def)
qed

text \<open>No offered entry points at a booking that is not offered.\<close>

lemma offered_entry_booking:
  assumes "db_ok w" "e \<in> set (waitlist w)" "w_status e = WOffered"
  obtains b where "b \<in> set (bookings w)" "b_status b = BOffered" "offer_of e b"
    "\<And>c. c \<in> set (bookings w) \<Longrightarrow> w_offered_booking_id e = Some (b_id c) \<Longrightarrow> c = b"
proof -
  obtain b where b: "b \<in> set (bookings w)" "b_status b = BOffered" "offer_of e b"
    using db_okD(5) [OF assms(1)] assms(2,3) by (auto simp: offers_linked_def)
  have "c = b" if "c \<in> set (bookings w)" "w_offered_booking_id e = Some (b_id c)" for c
    using db_okD(2) [OF assms(1)] b that
    by (auto simp: bookings_ok_def offer_of_def intro: distinct_key_eq)
  with b show ?thesis by (rule that)
qed

lemma offered_booking_entry:
  assumes "db_ok w" "b \<in> set (bookings w)" "b_status b = BOffered"
  obtains e where "e \<in> set (waitlist w)" "w_status e = WOffered" "offer_of e b"
    "\<And>d. d \<in> set (waitlist w) \<Longrightarrow> w_offered_booking_id d = Some (b_id b) \<Longrightarrow> d = e"
proof -
  obtain e where e: "e \<in> set (waitlist w)" "w_status e = WOffered" "offer_of e b"
    using db_okD(5) [OF assms(1)] assms(2,3) by (auto simp: offers_linked_def)
  have "d = e" if "d \<in> set (waitlist w)" "w_offered_booking_id d = Some (b_id b)" for d
    using entry_of_booking [OF db_okD(3) [OF assms(1)] that(1) e(1)] that(2) e(3)
    by (simp add: offer_of_def)
  with e show ?thesis by (rule that)
qed

text \<open>session.refresh of a booking: the row is read again by its primary key.\<close>

definition refresh_booking :: "uuid \<Rightarrow> db \<Rightarrow> booking result" where
  "refresh_booking i w =
     (case find (\<lambda>b. b_id b = i) (bookings w) of None \<Rightarrow> Inl InvalidRequestError | Some b \<Rightarrow> Inr b)"

text \<open>The guarded updates of one row, which must hit exactly the row as it was read.\<close>

definition guarded_booking :: "booking \<Rightarrow> (booking \<Rightarrow> booking) \<Rightarrow> db \<Rightarrow> db result" where
  "guarded_booking b f w =
     bind_r (update_bookings (pinned_booking b) f w) (\<lambda>(n, w').
     if n \<noteq> 1 then Inl RuntimeError else Inr w')"

definition guarded_entry :: "wait_entry \<Rightarrow> (wait_entry \<Rightarrow> wait_entry) \<Rightarrow> db \<Rightarrow> db result" where
  "guarded_entry e f w =
     bind_r (update_entries (pinned_entry e) f w) (\<lambda>(n, w').
     if n \<noteq> 1 then Inl RuntimeError else Inr w')"

text \<open>
  The expiry of a hold: its entry, if there is one, and the booking expire, and the event is
  appended from the booking as it now is.
\<close>

definition expire_hold :: "wait_entry option \<Rightarrow> booking \<Rightarrow> time \<Rightarrow> db \<Rightarrow> db result" where
  "expire_hold e b db_now w =
     bind_r (case e of None \<Rightarrow> Inr w | Some x \<Rightarrow> guarded_entry x (entry_restatus WExpired db_now) w) (\<lambda>w1.
     bind_r (guarded_booking b (restatus BExpired db_now) w1) (\<lambda>w2.
     bind_r (refresh_booking (b_id b) w2) (\<lambda>b'.
     bind_r (append_event EHoldExpired b' (Some db_now) w2) (\<lambda>(_, w3).
     Inr w3))))"

section \<open>Settling\<close>

text \<open>A booking moves on, alone or together with the entry it is offered to.\<close>

lemma booking_step_version: "booking_step b b' \<Longrightarrow> b_version b' = b_version b + 1"
  by (auto simp: booking_step_def guard_booking_update_def split: if_splits)

lemma offers_linked_booking:
  assumes linked: "offers_linked w" and f: "b_id (f b) = b_id b" "b_status (f b) \<noteq> BOffered"
    and b: "b \<in> set (bookings w)" "b_status b \<noteq> BOffered"
    and only: "\<And>x. x \<in> set (bookings w) \<Longrightarrow> b_id x = b_id b \<Longrightarrow> x = b"
  shows "offers_linked (w\<lparr>bookings := update_where (\<lambda>x. b_id x = b_id b) f (bookings w)\<rparr>)"
proof -
  let ?t = "update_where (\<lambda>x. b_id x = b_id b) f (bookings w)"
  have same: "x \<in> set ?t \<and> b_status x = BOffered \<longleftrightarrow> x \<in> set (bookings w) \<and> b_status x = BOffered" for x
    using only f b by (fastforce simp: set_update_where)
  then show ?thesis using linked unfolding offers_linked_def by (simp add: Ball_def Bex_def) (metis same)
qed

lemma db_ok_booking_moved:
  assumes ok: "db_ok w" and b: "b \<in> set (bookings w)" "b_status b \<noteq> BOffered"
    and f: "booking_step b (f b)" "b_status (f b) \<noteq> BOffered"
  shows "db_ok (w\<lparr>bookings := update_where (\<lambda>x. b_id x = b_id b) f (bookings w)\<rparr>)"
proof -
  note parts = db_okD [OF ok] and step = booking_stepD [OF f(1)] booking_step_version [OF f(1)]
  have only: "x = b" if "x \<in> set (bookings w)" "b_id x = b_id b" for x
    using parts(2) b(1) that by (auto simp: bookings_ok_def intro: distinct_key_eq)
  show ?thesis
    using parts others_ok_booking_moved [where f = f, OF b(1) parts(2)] step
      update_one_booking_runs(2) [where f = f, OF parts(2) b(1) f(1)]
      offers_linked_booking [where f = f, OF parts(5) step(3) f(2) b only]
    by (simp add: db_ok_def)
qed

lemma db_ok_pair_moved:
  assumes ok: "db_ok w" and b: "b \<in> set (bookings w)"
    and e: "e \<in> set (waitlist w)" "w_status e = WOffered" "offer_of e b"
    and f: "booking_step b (f b)" "b_status (f b) \<noteq> BOffered"
    and g: "entry_step w e (g e)" "w_status (g e) \<noteq> WOffered"
  shows "db_ok (w\<lparr>bookings := update_where (\<lambda>x. b_id x = b_id b) f (bookings w),
      waitlist := update_where (\<lambda>x. w_id x = w_id e) g (waitlist w)\<rparr>)"
proof -
  note parts = db_okD [OF ok] and step = booking_stepD [OF f(1)] booking_step_version [OF f(1)]
  let ?w1 = "w\<lparr>waitlist := update_where (\<lambda>x. w_id x = w_id e) g (waitlist w)\<rparr>"
  have b': "b \<in> set (bookings ?w1)" using b by simp
  have e1: "entries_ok ?w1" using update_one_entry_runs(2) [where f = g, OF parts(3) e(1) g(1)] .
  have bk: "bookings_ok ?w1" using parts(2) by simp
  have step1: "b_version b \<le> b_version (f b)" using step by simp
  have swap: "?w1\<lparr>bookings := t\<rparr> = w\<lparr>bookings := t, waitlist := waitlist ?w1\<rparr>" for t by simp
  have "entries_ok (w\<lparr>bookings := update_where (\<lambda>x. b_id x = b_id b) f (bookings w), waitlist := waitlist ?w1\<rparr>)"
    using others_ok_booking_moved(1) [where f = f, OF b' bk step(3) step1 e1] unfolding swap by simp
  moreover have "events_ok (w\<lparr>bookings := update_where (\<lambda>x. b_id x = b_id b) f (bookings w)\<rparr>)"
    using others_ok_booking_moved(2) [where f = f, OF b parts(2) step(3) step1 parts(4)] .
  ultimately show ?thesis
    using parts(1) update_one_booking_runs(2) [where f = f, OF parts(2) b f(1)]
      offers_linked_settled [where f = f and g = g, OF ok b e f(2) g(2)]
    by (simp add: db_ok_def)
qed

text \<open>An event of a stored booking that went in keeps the database well formed.\<close>

lemma append_event_keeps:
  assumes ok: "db_ok w" and b: "b \<in> set (bookings w)" and run: "append_event et b now w = Inr (i, w')"
  shows "db_ok w'"
proof -
  obtain r where r: "w' = w\<lparr>drawn := Suc (drawn w), outbox := outbox w @ [r]\<rparr>"
    "o_aggregate_id r = b_id b" "o_aggregate_version r = b_version b" "outbox_check r = None"
    "o_id r \<notin> o_id ` set (outbox w)" "\<forall>s \<in> set (outbox w). \<not> same_event r s"
    using run unfolding append_event_def
    by (auto simp: bind_r_Inr uuid4_def Let_def insert_outbox_def split: option.splits if_splits)
  have "\<forall>s \<in> set (outbox w). \<not> same_event s r" using r(6) by (auto simp: same_event_def)
  then have "events_ok w'"
    using db_okD(4) [OF ok] r b unfolding events_ok_def
    by (auto simp: outbox_ok_def sorted_wrt_append)
  then show ?thesis using db_okD [OF ok] r(1) by (simp add: db_ok_def)
qed

lemma append_event_total:
  assumes ok: "db_ok w" and b: "b \<in> set (bookings w)"
    and new: "\<forall>r \<in> set (outbox w). o_aggregate_id r = b_id b \<longrightarrow> o_aggregate_version r < b_version b"
    and fresh: "fresh_ids (Suc k) w"
  shows "\<exists>r. append_event et b now w = Inr (uuid_src w (drawn w), w\<lparr>drawn := Suc (drawn w), outbox := outbox w @ [r]\<rparr>) \<and>
    o_event_type r = et \<and> o_aggregate_id r = b_id b \<and> o_aggregate_version r = b_version b \<and>
    o_status r = OPending \<and> o_payload r = event_payload b \<and>
    db_ok (w\<lparr>drawn := Suc (drawn w), outbox := outbox w @ [r]\<rparr>) \<and>
    fresh_ids k (w\<lparr>drawn := Suc (drawn w), outbox := outbox w @ [r]\<rparr>)"
proof -
  have "uuid_src w (drawn w) \<notin> o_id ` set (outbox w)" using fresh_ids_next [OF fresh] by (auto simp: ids_def)
  from append_event_runs [OF db_okD(4) [OF ok] b new this, of et now] obtain r where r:
    "append_event et b now w = Inr (uuid_src w (drawn w), w\<lparr>drawn := Suc (drawn w), outbox := outbox w @ [r]\<rparr>)"
    "o_id r = uuid_src w (drawn w)" "o_event_type r = et" "o_aggregate_id r = b_id b"
    "o_aggregate_version r = b_version b" "o_status r = OPending" "o_payload r = event_payload b"
    by blast
  have "fresh_ids k (w\<lparr>drawn := Suc (drawn w), outbox := outbox w @ [r]\<rparr>)"
    using fresh by (rule fresh_ids_draw) (auto simp: ids_def r(2))
  with r append_event_keeps [OF ok b r(1)] show ?thesis by blast
qed

text \<open>Reading back the row an update by id just wrote.\<close>

lemma find_updated:
  assumes "distinct (map b_id t)" "b \<in> set t" "b_id (f b) = b_id b"
  shows "find (\<lambda>x. b_id x = b_id b) (update_where (\<lambda>x. b_id x = b_id b) f t) = Some (f b)"
  using assms
proof (induction t)
  case Nil
  then show ?case by simp
next
  case (Cons a t)
  show ?case
  proof (cases "b_id a = b_id b")
    case True
    then have "a = b" using Cons.prems by (auto simp: image_iff)
    then show ?thesis using Cons.prems(3) by (simp add: update_where_def)
  next
    case False
    then show ?thesis using Cons by (auto simp: update_where_def)
  qed
qed

text \<open>The UPDATE that settles the entry an offer belongs to, if the booking is one.\<close>

definition linked_to :: "uuid \<Rightarrow> wait_entry \<Rightarrow> bool" where
  "linked_to i e = (w_offered_booking_id e = Some i \<and> w_status e = WOffered)"

lemma settle_linked:
  fixes t :: time
  assumes ok: "db_ok w" and b: "b \<in> set (bookings w)"
    and f: "booking_step b (f b)" "b_status (f b) \<noteq> BOffered"
    and st: "st \<notin> {WWaiting, WOffered, WAccepted}"
  defines "w1 \<equiv> w\<lparr>bookings := update_where (\<lambda>x. b_id x = b_id b) f (bookings w)\<rparr>"
  defines "w2 \<equiv> w1\<lparr>waitlist := update_where (linked_to (b_id b)) (entry_restatus st t) (waitlist w)\<rparr>"
  shows "\<exists>n. update_entries (linked_to (b_id b)) (entry_restatus st t) w1 = Inr (n, w2) \<and> db_ok w2"
proof -
  note parts = db_okD [OF ok]
  let ?g = "entry_restatus st t"
  have step: "b_id (f b) = b_id b" "b_version b \<le> b_version (f b)"
    using booking_stepD(3) [OF f(1)] booking_step_version [OF f(1)] by simp_all
  have e1: "entries_ok w1"
    unfolding w1_def using others_ok_booking_moved(1) [where f = f, OF b parts(2) step parts(3)] .
  show ?thesis
  proof (cases "b_status b = BOffered")
    case True
    from offered_booking_entry [OF ok b True] obtain e where
      e: "e \<in> set (waitlist w)" "w_status e = WOffered" "offer_of e b"
      and only: "\<And>d. d \<in> set (waitlist w) \<Longrightarrow> w_offered_booking_id d = Some (b_id b) \<Longrightarrow> d = e"
      by blast
    have onlye: "x = e" if "x \<in> set (waitlist w)" "w_id x = w_id e" for x
      using parts(3) e(1) that by (auto simp: entries_ok_def intro: distinct_key_eq)
    have same: "linked_to (b_id b) x \<longleftrightarrow> w_id x = w_id e \<and> w_version x = w_version e"
      if "x \<in> set (waitlist w1)" for x
    proof -
      have x: "x \<in> set (waitlist w)" using that by (simp add: w1_def)
      have "linked_to (b_id b) x \<Longrightarrow> x = e" using only [OF x] by (simp add: linked_to_def)
      moreover have "linked_to (b_id b) e" using e by (simp add: linked_to_def offer_of_def)
      ultimately show ?thesis using onlye [OF x] by metis
    qed
    have g: "entry_step w' e (?g e)" for w'
      using entries_okD(1) [OF parts(3) e(1)] st by (intro entry_restatus_step) auto
    have ew: "e \<in> set (waitlist w1)" using e(1) by (simp add: w1_def)
    have upd: "update_where (linked_to (b_id b)) ?g (waitlist w) = update_where (\<lambda>x. w_id x = w_id e) ?g (waitlist w)"
      unfolding update_where_def
    proof (rule map_cong [OF refl])
      fix x
      assume x: "x \<in> set (waitlist w)"
      then have "linked_to (b_id b) x \<longleftrightarrow> w_id x = w_id e"
        using same [of x] onlye [OF x] by (auto simp: w1_def)
      then show "(if linked_to (b_id b) x then ?g x else x) = (if w_id x = w_id e then ?g x else x)" by simp
    qed
    have run: "update_entries (linked_to (b_id b)) ?g w1 = Inr (1, w2)"
    proof -
      have "update_entries (linked_to (b_id b)) ?g w1
          = update_entries (\<lambda>x. w_id x = w_id e \<and> w_version x = w_version e) ?g w1"
        by (rule update_entries_cong [OF same])
      then show ?thesis
        unfolding update_one_entry_runs(1) [where f = ?g, OF e1 ew g] w2_def upd by (simp add: w1_def)
    qed
    have "db_ok w2"
      unfolding w2_def w1_def upd
      by (rule db_ok_pair_moved [where f = f and g = ?g, OF ok b e f g]) (use st in auto)
    with run show ?thesis by blast
  next
    case False
    have none: "\<not> linked_to (b_id b) x" if x: "x \<in> set (waitlist w)" for x
    proof
      assume l: "linked_to (b_id b) x"
      then obtain c where "c \<in> set (bookings w)" "b_status c = BOffered" "offer_of x c"
        using parts(5) x by (auto simp: offers_linked_def linked_to_def)
      then have "c = b" using l b parts(2)
        by (auto simp: linked_to_def offer_of_def bookings_ok_def intro: distinct_key_eq)
      then show False using False \<open>b_status c = BOffered\<close> by simp
    qed
    have id: "update_where (linked_to (b_id b)) ?g (waitlist w) = waitlist w"
      using none by (rule update_where_none)
    have fil: "filter (linked_to (b_id b)) (waitlist w) = []"
      using none by (simp add: filter_empty_conv)
    have w21: "w2 = w1" unfolding w2_def id by (simp add: w1_def)
    have "update_entries (linked_to (b_id b)) ?g w1 = Inr (0, w1)"
    proof -
      have "waitlist w1 = waitlist w" by (simp add: w1_def)
      moreover have "entries_unique (waitlist w)" using parts(3) by (simp add: entries_ok_def)
      moreover have "w1\<lparr>waitlist := waitlist w\<rparr> = w1" by (simp add: w1_def)
      ultimately show ?thesis by (simp add: update_entries_def rowcount_def fil id)
    qed
    moreover have "db_ok w1"
      unfolding w1_def by (rule db_ok_booking_moved [where f = f, OF ok b False f])
    ultimately show ?thesis unfolding w21 by blast
  qed
qed

section \<open>The guarded updates succeed\<close>

lemma guarded_booking_runs:
  assumes "bookings_ok w" "b \<in> set (bookings w)" "booking_step b (f b)"
  shows "guarded_booking b f w = Inr (w\<lparr>bookings := update_where (\<lambda>x. b_id x = b_id b) f (bookings w)\<rparr>)"
  using update_one_booking_runs(1) [where f = f, OF assms] by (simp add: guarded_booking_def)

lemma guarded_entry_runs:
  assumes "entries_ok w" "e \<in> set (waitlist w)" "entry_step w e (f e)"
  shows "guarded_entry e f w = Inr (w\<lparr>waitlist := update_where (\<lambda>x. w_id x = w_id e) f (waitlist w)\<rparr>)"
  using update_one_entry_runs(1) [where f = f, OF assms]
  by (simp add: guarded_entry_def pinned_entry_def [abs_def])

lemma refresh_updated:
  assumes "bookings_ok w" "b \<in> set (bookings w)" "b_id (f b) = b_id b"
    "bookings w' = update_where (\<lambda>x. b_id x = b_id b) f (bookings w)"
  shows "refresh_booking (b_id b) w' = Inr (f b)" "f b \<in> set (bookings w')"
proof -
  have "distinct (map b_id (bookings w))" using assms(1) by (simp add: bookings_ok_def)
  from find_updated [where f = f, OF this assms(2,3)] assms(4)
  show "refresh_booking (b_id b) w' = Inr (f b)" by (simp add: refresh_booking_def)
  show "f b \<in> set (bookings w')" using assms(2,4) by (auto simp: set_update_where)
qed

text \<open>Both rows of an offer, in the order of the expiry or in the order of the acceptance.\<close>

definition settle_pair ::
  "booking \<Rightarrow> (booking \<Rightarrow> booking) \<Rightarrow> wait_entry \<Rightarrow> (wait_entry \<Rightarrow> wait_entry) \<Rightarrow> db \<Rightarrow> db" where
  "settle_pair b f e g w =
     w\<lparr>bookings := update_where (\<lambda>x. b_id x = b_id b) f (bookings w),
       waitlist := update_where (\<lambda>x. w_id x = w_id e) g (waitlist w)\<rparr>"

lemma settle_pair_runs:
  assumes ok: "db_ok w" and b: "b \<in> set (bookings w)"
    and e: "e \<in> set (waitlist w)" "w_status e = WOffered" "offer_of e b"
    and f: "booking_step b (f b)" "b_status (f b) \<noteq> BOffered"
    and g: "\<And>w'. entry_step w' e (g e)" "w_status (g e) \<noteq> WOffered"
  shows "bind_r (guarded_entry e g w) (guarded_booking b f) = Inr (settle_pair b f e g w)"
    "bind_r (guarded_booking b f w) (guarded_entry e g) = Inr (settle_pair b f e g w)"
    "db_ok (settle_pair b f e g w)"
    "refresh_booking (b_id b) (settle_pair b f e g w) = Inr (f b)"
    "f b \<in> set (bookings (settle_pair b f e g w))"
    "g e \<in> set (waitlist (settle_pair b f e g w))"
    "\<forall>r \<in> set (outbox (settle_pair b f e g w)). o_aggregate_id r = b_id (f b)
        \<longrightarrow> o_aggregate_version r < b_version (f b)"
proof -
  note parts = db_okD [OF ok] and step = booking_stepD [OF f(1)] booking_step_version [OF f(1)]
  have swap: "w\<lparr>waitlist := es, bookings := bs\<rparr> = w\<lparr>bookings := bs, waitlist := es\<rparr>" for es bs by simp
  let ?wb = "w\<lparr>bookings := update_where (\<lambda>x. b_id x = b_id b) f (bookings w)\<rparr>"
  let ?we = "w\<lparr>waitlist := update_where (\<lambda>x. w_id x = w_id e) g (waitlist w)\<rparr>"
  have "b_version b \<le> b_version (f b)" using step by simp
  from others_ok_booking_moved(1) [where f = f, OF b parts(2) step(3) this parts(3)]
  have ewb: "entries_ok ?wb" .
  show "bind_r (guarded_entry e g w) (guarded_booking b f) = Inr (settle_pair b f e g w)"
    using guarded_entry_runs [where f = g, OF parts(3) e(1) g(1)] guarded_booking_runs [where f = f and w = ?we, OF _ _ f(1)] parts(2) b
    by (simp add: settle_pair_def swap)
  show "bind_r (guarded_booking b f w) (guarded_entry e g) = Inr (settle_pair b f e g w)"
    using guarded_booking_runs [where f = f, OF parts(2) b f(1)] guarded_entry_runs [where f = g, OF ewb _ g(1)] e(1)
    by (simp add: settle_pair_def)
  show "db_ok (settle_pair b f e g w)"
    unfolding settle_pair_def by (rule db_ok_pair_moved [where f = f and g = g, OF ok b e f g])
  show "refresh_booking (b_id b) (settle_pair b f e g w) = Inr (f b)"
    "f b \<in> set (bookings (settle_pair b f e g w))"
    by (rule refresh_updated [where f = f, OF parts(2) b step(3)]; simp add: settle_pair_def)+
  show "g e \<in> set (waitlist (settle_pair b f e g w))"
    using e(1) by (auto simp: settle_pair_def set_update_where)
  show "\<forall>r \<in> set (outbox (settle_pair b f e g w)). o_aggregate_id r = b_id (f b)
        \<longrightarrow> o_aggregate_version r < b_version (f b)"
    using new_version_event [OF parts(2,4) b, of "f b"] step by (simp add: settle_pair_def)
qed

lemma settle_pair_frame [simp]:
  "users (settle_pair b f e g w) = users w" "resources (settle_pair b f e g w) = resources w"
  "outbox (settle_pair b f e g w) = outbox w" "audit_log (settle_pair b f e g w) = audit_log w"
  "uuid_src (settle_pair b f e g w) = uuid_src w" "drawn (settle_pair b f e g w) = drawn w"
  "clock (settle_pair b f e g w) = clock w" "ticks (settle_pair b f e g w) = ticks w"
  by (simp_all add: settle_pair_def)

lemma settle_pair_ids:
  assumes "\<And>x. b_id (f x) = b_id x" "\<And>x. w_id (g x) = w_id x"
  shows "ids (settle_pair b f e g w) = ids w"
  using assms by (simp add: ids_def settle_pair_def image_update_where)

text \<open>An offered booking and its entry can take these steps.\<close>

lemma offer_steps:
  assumes ok: "db_ok w" and b: "b \<in> set (bookings w)" "b_status b = BOffered"
    and e: "e \<in> set (waitlist w)" "offer_of e b"
    and st: "st \<in> {BConfirmed, BCancelled, BExpired}" "wst \<in> {WAccepted, WCancelled, WExpired}"
  shows "booking_step b (restatus st t b)" "b_status (restatus st t b) \<noteq> BOffered"
    "entry_step w' e (entry_restatus wst t e)" "w_status (entry_restatus wst t e) \<noteq> WOffered"
proof -
  show "booking_step b (restatus st t b)"
    using bookings_okD(1) [OF db_okD(2) [OF ok] b(1)] b(2) e(2) st(1)
    by (intro restatus_step) (auto simp: booking_transition_def active_booking_def offer_of_def)
  show "entry_step w' e (entry_restatus wst t e)"
    using entries_okD(1) [OF db_okD(3) [OF ok] e(1)] st(2) e(2)
    by (intro entry_restatus_step) (auto simp: offer_of_def)
  show "b_status (restatus st t b) \<noteq> BOffered" "w_status (entry_restatus wst t e) \<noteq> WOffered"
    using st by auto
qed

lemma expire_hold_steps:
  fixes t :: time
  assumes ok: "db_ok w" and b: "b \<in> set (bookings w)" "b_status b = BOffered"
    and e: "e \<in> set (waitlist w)" "w_status e = WOffered" "offer_of e b"
  defines "w2 \<equiv> settle_pair b (restatus BExpired t) e (entry_restatus WExpired t) w"
  shows "expire_hold (Some e) b t w
      = bind_r (append_event EHoldExpired (restatus BExpired t b) (Some t) w2) (\<lambda>(_, w3). Inr w3)"
    "db_ok w2" "restatus BExpired t b \<in> set (bookings w2)" "entry_restatus WExpired t e \<in> set (waitlist w2)"
    "\<forall>r \<in> set (outbox w2). o_aggregate_id r = b_id (restatus BExpired t b)
        \<longrightarrow> o_aggregate_version r < b_version (restatus BExpired t b)"
    "ids w2 = ids w"
proof -
  note st = offer_steps [OF ok b e(1,3), of BExpired WExpired]
  note run = settle_pair_runs [OF ok b(1) e, where f = "restatus BExpired t" and g = "entry_restatus WExpired t"]
  have run1: "bind_r (guarded_entry e (entry_restatus WExpired t) w) (guarded_booking b (restatus BExpired t)) = Inr w2"
    unfolding w2_def by (rule run(1)) (use st in auto)
  then obtain w1 where "guarded_entry e (entry_restatus WExpired t) w = Inr w1"
      "guarded_booking b (restatus BExpired t) w1 = Inr w2"
    by (auto simp: bind_r_Inr)
  moreover have "refresh_booking (b_id b) w2 = Inr (restatus BExpired t b)"
    unfolding w2_def by (rule run(4)) (use st in auto)
  ultimately show "expire_hold (Some e) b t w
      = bind_r (append_event EHoldExpired (restatus BExpired t b) (Some t) w2) (\<lambda>(_, w3). Inr w3)"
    by (simp add: expire_hold_def)
  show "db_ok w2" unfolding w2_def by (rule run(3)) (use st in auto)
  show "restatus BExpired t b \<in> set (bookings w2)" unfolding w2_def by (rule run(5)) (use st in auto)
  show "entry_restatus WExpired t e \<in> set (waitlist w2)" unfolding w2_def by (rule run(6)) (use st in auto)
  show "\<forall>r \<in> set (outbox w2). o_aggregate_id r = b_id (restatus BExpired t b)
        \<longrightarrow> o_aggregate_version r < b_version (restatus BExpired t b)"
    unfolding w2_def by (rule run(7)) (use st in auto)
  show "ids w2 = ids w" unfolding w2_def by (rule settle_pair_ids) simp_all
qed

end
