(* ===== verification/Bookings.thy ===== *)
theory Bookings
imports Holds Windows
begin

text \<open>
  The booking service (app/bookings/service.py): creating a confirmed booking inside a
  savepoint, reading one's own bookings, and cancelling one, which also settles a linked
  offer, appends the event and promotes waiters. The window policy is in Windows.
\<close>

section \<open>What a booking looks like outside\<close>

text \<open>The schema class Booking of app/bookings/schemas.py; created_by is not in it.\<close>

record booking_out =
  bo_id :: uuid
  bo_resource_id :: uuid
  bo_user_id :: "uuid option"
  bo_kind :: booking_kind
  bo_starts_at :: time
  bo_ends_at :: time
  bo_status :: booking_status
  bo_expires_at :: "time option"
  bo_cancellation_reason :: "string option"
  bo_version :: int
  bo_created_at :: time
  bo_updated_at :: time

definition booking_view :: "booking \<Rightarrow> booking_out" where
  "booking_view b =
     \<lparr>bo_id = b_id b, bo_resource_id = b_resource_id b, bo_user_id = b_user_id b,
      bo_kind = b_kind b, bo_starts_at = lower (b_range b), bo_ends_at = upper (b_range b),
      bo_status = b_status b, bo_expires_at = b_expires_at b,
      bo_cancellation_reason = b_cancellation_reason b, bo_version = b_version b,
      bo_created_at = b_created_at b, bo_updated_at = b_updated_at b\<rparr>"

definition kind_name :: "booking_kind \<Rightarrow> string" where
  "kind_name k = (case k of Reservation \<Rightarrow> ''reservation'' | Blackout \<Rightarrow> ''blackout'')"

definition booking_status_name :: "booking_status \<Rightarrow> string" where
  "booking_status_name s =
     (case s of BPending \<Rightarrow> ''pending'' | BConfirmed \<Rightarrow> ''confirmed'' | BOffered \<Rightarrow> ''offered''
      | BCancelled \<Rightarrow> ''cancelled'' | BExpired \<Rightarrow> ''expired'')"

definition opt_json :: "('a \<Rightarrow> json) \<Rightarrow> 'a option \<Rightarrow> json" where
  "opt_json f x = (case x of None \<Rightarrow> JNull | Some a \<Rightarrow> f a)"

text \<open>model_dump(mode="json") with the field serializers of the class.\<close>

definition dump_booking :: "booking_out \<Rightarrow> json" where
  "dump_booking b = JObj
     [(''id'', JStr (uuid_str (bo_id b))),
      (''resource_id'', JStr (uuid_str (bo_resource_id b))),
      (''user_id'', opt_json (\<lambda>u. JStr (uuid_str u)) (bo_user_id b)),
      (''kind'', JStr (kind_name (bo_kind b))),
      (''starts_at'', JStr (format_rfc3339_utc (bo_starts_at b))),
      (''ends_at'', JStr (format_rfc3339_utc (bo_ends_at b))),
      (''status'', JStr (booking_status_name (bo_status b))),
      (''expires_at'', opt_json (\<lambda>t. JStr (format_rfc3339_utc t)) (bo_expires_at b)),
      (''cancellation_reason'', opt_json JStr (bo_cancellation_reason b)),
      (''version'', JInt (bo_version b)),
      (''created_at'', JStr (format_rfc3339_utc (bo_created_at b))),
      (''updated_at'', JStr (format_rfc3339_utc (bo_updated_at b)))]"

text \<open>StoredResponse: what an endpoint that may be replayed returns.\<close>

record stored_response =
  sr_status :: int
  sr_body :: json
  sr_headers :: "(string \<times> string) list"

section \<open>Creating\<close>

definition new_booking :: "uuid \<Rightarrow> scope \<Rightarrow> uuid \<Rightarrow> trange \<Rightarrow> booking_kind \<Rightarrow> db \<Rightarrow> booking" where
  "new_booking bid sc resource_id time_range kind w =
     \<lparr>b_id = bid, b_resource_id = resource_id,
      b_user_id = (if kind = Reservation then principal_id sc else None),
      b_created_by = principal_id sc, b_kind = kind, b_range = time_range,
      b_status = BConfirmed, b_expires_at = None, b_cancellation_reason = None, b_version = 1,
      b_created_at = tx_now w, b_updated_at = tx_now w\<rparr>"

text \<open>The flush in the savepoint: an exclusion conflict becomes SlotConflict.\<close>

definition slot_conflict :: "'a result \<Rightarrow> 'a result" where
  "slot_conflict m =
     (case m of
        Inl e \<Rightarrow> Inl (if e = IntegrityError ''23P01'' ''bookings_no_overlap'' then SlotConflict else e)
      | Inr x \<Rightarrow> Inr x)"

definition insert_confirmed ::
  "scope \<Rightarrow> uuid \<Rightarrow> trange \<Rightarrow> booking_kind \<Rightarrow> db \<Rightarrow> (booking \<times> db) result" where
  "insert_confirmed sc resource_id time_range kind w =
     bind_r (scalar_one_or_none (filter (\<lambda>r. r_id r = resource_id) (resources w))) (\<lambda>row.
     case row of
       None \<Rightarrow> Inl NotFoundError
     | Some r \<Rightarrow>
         if \<not> r_active r then Inl ResourceInactive
         else (let (bid, w1) = uuid4 w; b = new_booking bid sc resource_id time_range kind w1
               in bind_r (slot_conflict (insert_booking b w1)) (\<lambda>w2. Inr (b, w2))))"

section \<open>Reading\<close>

definition newest_first :: "booking \<Rightarrow> int \<times> uuid" where
  "newest_first b = (- b_created_at b, b_id b)"

definition list_own_bookings ::
  "scope \<Rightarrow> nat \<Rightarrow> nat \<Rightarrow> booking_status option \<Rightarrow> db \<Rightarrow> booking_out listing result" where
  "list_own_bookings sc limit offset status w =
     (case booking_preds sc of
        None \<Rightarrow> Inl RuntimeError
      | Some [] \<Rightarrow> Inl RuntimeError
      | Some ps \<Rightarrow> Inr (list_page
          (\<lambda>b. conj_preds ps b \<and> b_kind b = Reservation
             \<and> (case status of None \<Rightarrow> True | Some s \<Rightarrow> b_status b = s))
          newest_first booking_view limit offset (bookings w)))"

definition get_own_booking :: "scope \<Rightarrow> db \<Rightarrow> booking_out result" where
  "get_own_booking sc w =
     (case booking_preds sc of
        None \<Rightarrow> Inl RuntimeError
      | Some [] \<Rightarrow> Inl RuntimeError
      | Some ps \<Rightarrow>
          bind_r (scalar_one_or_none (filter
            (\<lambda>b. object_id sc = Some (b_id b) \<and> b_kind b = Reservation \<and> conj_preds ps b)
            (bookings w)))
            (\<lambda>row. case row of None \<Rightarrow> Inl NotFoundError | Some b \<Rightarrow> Inr (booking_view b)))"

section \<open>Cancelling\<close>

definition cancelled :: "string \<Rightarrow> time \<Rightarrow> booking \<Rightarrow> booking" where
  "cancelled reason db_now b =
     b\<lparr>b_status := BCancelled, b_expires_at := None, b_cancellation_reason := Some reason,
       b_version := b_version b + 1, b_updated_at := db_now\<rparr>"

interpretation cancelled_row: versioned_row b_id b_version "cancelled reason t" for reason t
  by unfold_locales (simp_all add: cancelled_def)

text \<open>The audit entry of a cancellation by an administrator.\<close>

definition audit_cancel :: "scope \<Rightarrow> uuid \<Rightarrow> uuid \<Rightarrow> string \<Rightarrow> time \<Rightarrow> db \<Rightarrow> db result" where
  "audit_cancel sc booking_id resource_id reason db_now w =
     (if audit sc then
        (let (req_id, w1) = request_id_or_new sc w in
         bind_r (append_audit_log ''admin.booking_cancel'' ''booking'' (Some booking_id)
           (principal_id sc) req_id
           (JObj [(''resource_id'', JStr (uuid_str resource_id)),
                  (''reason_length'', JInt (int (length reason)))]) db_now w1)
           (\<lambda>(_, w2). Inr w2))
      else Inr w)"

text \<open>What follows once the cancellation is admitted.\<close>

definition carry_out_cancel ::
  "scope \<Rightarrow> uuid \<Rightarrow> uuid \<Rightarrow> int \<Rightarrow> string \<Rightarrow> time \<Rightarrow> db \<Rightarrow> (booking_out \<times> db) result" where
  "carry_out_cancel sc resource_id booking_id pinned reason db_now w =
     bind_r (update_bookings (\<lambda>x. b_id x = booking_id \<and> b_version x = pinned)
               (cancelled reason db_now) w) (\<lambda>(n, w1).
     if n \<noteq> 1 then Inl RuntimeError
     else bind_r (refresh_booking booking_id w1) (\<lambda>b.
     bind_r (update_entries (\<lambda>e. w_offered_booking_id e = Some booking_id \<and> w_status e = WOffered)
               (entry_restatus WCancelled db_now) w1) (\<lambda>(_, w2).
     bind_r (append_event EBookingCancelled b (Some db_now) w2) (\<lambda>(_, w3).
     bind_r (audit_cancel sc booking_id resource_id reason db_now w3) (\<lambda>w4.
     bind_r (promote_waiters resource_id w4) (\<lambda>(_, w5).
     Inr (booking_view b, w5)))))))"

definition cancel_booking ::
  "scope \<Rightarrow> uuid \<Rightarrow> int \<Rightarrow> string \<Rightarrow> db \<Rightarrow> (booking_out \<times> db) result" where
  "cancel_booking sc booking_id pinned reason w =
     (case scope_resource_id sc of
        None \<Rightarrow> Inl NotFoundError
      | Some resource_id \<Rightarrow>
     (case booking_preds sc of
        None \<Rightarrow> Inl RuntimeError
      | Some ps \<Rightarrow>
          bind_r (scalar_one_or_none (filter
            (\<lambda>b. b_id b = booking_id \<and> b_kind b = Reservation \<and> conj_preds ps b) (bookings w)))
          (\<lambda>row. case row of
             None \<Rightarrow> Inl NotFoundError
           | Some b \<Rightarrow>
               (let (db_now, w1) = clock_timestamp w in
                if b_version b \<noteq> pinned then Inl VersionMismatch
                else if b_status b = BCancelled then Inr (booking_view b, w1)
                else if b_status b \<notin> {BConfirmed, BOffered} then Inl InvalidState
                else if db_now \<ge> (if allow_running sc then upper (b_range b) else lower (b_range b))
                  then Inl TooLate
                else carry_out_cancel sc resource_id booking_id pinned reason db_now w1))))"

section \<open>Creating: the outcome\<close>

lemma new_booking_simps [simp]:
  "b_id (new_booking i sc rid r k w) = i" "b_resource_id (new_booking i sc rid r k w) = rid"
  "b_kind (new_booking i sc rid r k w) = k" "b_range (new_booking i sc rid r k w) = r"
  "b_status (new_booking i sc rid r k w) = BConfirmed" "b_version (new_booking i sc rid r k w) = 1"
  "b_expires_at (new_booking i sc rid r k w) = None"
  "b_cancellation_reason (new_booking i sc rid r k w) = None"
  "b_user_id (new_booking i sc rid r k w) = (if k = Reservation then principal_id sc else None)"
  "b_created_by (new_booking i sc rid r k w) = principal_id sc"
  by (simp_all add: new_booking_def)

lemma db_ok_booking_added:
  assumes ok: "db_ok w" and b: "b_status b \<noteq> BOffered" "insert_booking b w = Inr w'"
  shows "db_ok w'"
proof -
  note parts = db_okD [OF ok]
  have b': "booking_check b = None" "b_id b \<notin> b_id ` set (bookings w)" "booking_fks w b"
    "\<forall>c \<in> set (bookings w). \<not> booking_conflict b c" "w' = w\<lparr>bookings := bookings w @ [b]\<rparr>"
    using b(2) by (simp_all add: insert_booking_Inr)
  have "bookings_ok w'"
    using parts(2) b' by (auto simp: bookings_ok_def no_overlap_snoc)
  moreover have "entries_ok w'"
    unfolding b'(5) by (rule entries_ok_more_bookings [OF parts(3)]) auto
  moreover have "events_ok w'"
    unfolding b'(5) by (rule events_ok_bookings [OF parts(4)]) auto
  moreover have "offers_linked w'"
    using parts(5) b(1) b'(5) by (auto simp: offers_linked_def)
  ultimately show ?thesis using parts(1) b'(5) by (simp add: db_ok_def)
qed

lemma find_resource:
  assumes "db_ok w" "r \<in> set (resources w)"
  shows "scalar_one_or_none (filter (\<lambda>x. r_id x = r_id r) (resources w)) = Inr (Some r)"
proof -
  have "distinct (map r_id (resources w))" using db_okD(1) [OF assms(1)] by (simp add: people_ok_def)
  from filter_key_distinct [OF this assms(2) refl] show ?thesis by simp
qed

lemma insert_confirmed_keeps:
  assumes "db_ok w" "insert_confirmed sc rid r k w = Inr (b, w')"
  shows "db_ok w' \<and> b \<in> set (bookings w') \<and> b_version b = 1 \<and> b_status b = BConfirmed"
proof -
  have "db_ok (w\<lparr>drawn := Suc (drawn w)\<rparr>)" using assms(1) by simp
  then show ?thesis
    using assms(2) db_ok_booking_added [of "w\<lparr>drawn := Suc (drawn w)\<rparr>" b w']
    unfolding insert_confirmed_def slot_conflict_def
    by (auto simp: bind_r_Inr uuid4_def Let_def insert_booking_Inr split: option.splits if_splits sum.splits)
qed

lemma insert_confirmed_runs:
  assumes ok: "db_ok w" and r: "r \<in> set (resources w)" and p: "principal_id sc = Some p" "p \<in> u_id ` set (users w)"
    and win: "\<not> isempty win" and fresh: "fresh_ids 1 w"
  shows "insert_confirmed sc (r_id r) win Reservation w =
    (if \<not> r_active r then Inl ResourceInactive
     else if \<exists>c \<in> set (bookings w). b_resource_id c = r_id r \<and> active_booking c \<and> overlaps (b_range c) win
       then Inl SlotConflict
     else (let b = new_booking (uuid_src w (drawn w)) sc (r_id r) win Reservation w
           in Inr (b, w\<lparr>drawn := Suc (drawn w), bookings := bookings w @ [b]\<rparr>)))"
proof -
  let ?w1 = "w\<lparr>drawn := Suc (drawn w)\<rparr>" and ?i = "uuid_src w (drawn w)"
  let ?b = "new_booking ?i sc (r_id r) win Reservation ?w1"
  have eq: "?b = new_booking ?i sc (r_id r) win Reservation w" by (simp add: new_booking_def)
  have new: "?i \<notin> b_id ` set (bookings w)" using fresh_ids_next [OF fresh] by (auto simp: ids_def)
  have chk: "booking_check ?b = None" using p win by (simp add: booking_check_iff)
  have fks: "booking_fks ?w1 ?b" using p r by (simp add: booking_fks_def)
  have conf: "booking_conflict ?b c \<longleftrightarrow> b_resource_id c = r_id r \<and> active_booking c \<and> overlaps (b_range c) win" for c
    using overlaps_sym by (auto simp: booking_conflict_def active_booking_def)
  show ?thesis
  proof (cases "\<exists>c \<in> set (bookings w). booking_conflict ?b c")
    case True
    then have "insert_booking ?b ?w1 = Inl (IntegrityError ''23P01'' ''bookings_no_overlap'')"
      using chk new by (simp add: insert_booking_def)
    with True show ?thesis
      using find_resource [OF ok r] conf
      by (simp add: insert_confirmed_def uuid4_def slot_conflict_def Let_def)
  next
    case False
    then have "insert_booking ?b ?w1 = Inr (?w1\<lparr>bookings := bookings w @ [?b]\<rparr>)"
      using insert_booking_runs [OF chk _ fks] new by simp
    with False show ?thesis
      using find_resource [OF ok r] conf
      by (auto simp: insert_confirmed_def uuid4_def slot_conflict_def Let_def eq)
  qed
qed

text \<open>
  For a principal and a resource that exist and a proper window, creating a booking has
  exactly three outcomes: RESOURCE_INACTIVE on an archived resource, SlotConflict when an
  active booking of the resource overlaps the window, and otherwise one new confirmed
  reservation of the principal. No constraint error reaches the caller.
\<close>

theorem insert_confirmed_outcome:
  assumes ok: "db_ok w" and r: "r \<in> set (resources w)" and p: "principal_id sc = Some p" "p \<in> u_id ` set (users w)"
    and win: "\<not> isempty win" and fresh: "fresh_ids 1 w"
  shows "insert_confirmed sc (r_id r) win Reservation w =
    (if \<not> r_active r then Inl ResourceInactive
     else if \<exists>c \<in> set (bookings w). b_resource_id c = r_id r \<and> active_booking c \<and> overlaps (b_range c) win
       then Inl SlotConflict
     else (let b = new_booking (uuid_src w (drawn w)) sc (r_id r) win Reservation w
           in Inr (b, w\<lparr>drawn := Suc (drawn w), bookings := bookings w @ [b]\<rparr>)))"
  by (rule insert_confirmed_runs [OF assms])

lemma ex_db_no_conflict: "\<not> isempty \<lparr>lower = hours 14, upper = hours 15\<rparr>"
  by (simp add: isempty_def time_units)

definition ex_scope :: scope where
  "ex_scope = (own_scope POwnBooking 101)\<lparr>booking_preds := Some [\<lambda>b. b_user_id b = Some 101],
     object_id := Some 1, scope_resource_id := Some 1000, expected_version := Some 1\<rparr>"

theorem insert_confirmed_outcome_witness:
  "\<exists>b w'. insert_confirmed ex_scope 1000 \<lparr>lower = hours 14, upper = hours 15\<rparr> Reservation ex_db = Inr (b, w')
     \<and> b_user_id b = Some 101 \<and> bookings w' = [b]"
proof -
  have r: "ex_resource \<in> set (resources ex_db)" by (simp add: ex_db_def)
  have p: "principal_id ex_scope = Some 101" "101 \<in> u_id ` set (users ex_db)"
    by (simp_all add: ex_scope_def own_scope_def ex_db_def ex_user_def)
  have f: "fresh_ids 1 ex_db" by (rule fresh_ids_mono [OF ex_db_fresh]) simp
  from insert_confirmed_outcome [OF ex_db_ok r p ex_db_no_conflict f] show ?thesis
    by (simp add: ex_resource_def ex_db_def empty_db_def Let_def ex_scope_def own_scope_def)
qed

section \<open>Cancelling: the steps\<close>

lemma cancelled_simps [simp]:
  "b_id (cancelled s t b) = b_id b" "b_version (cancelled s t b) = b_version b + 1"
  "b_status (cancelled s t b) = BCancelled" "b_kind (cancelled s t b) = b_kind b"
  "b_resource_id (cancelled s t b) = b_resource_id b" "b_range (cancelled s t b) = b_range b"
  "b_user_id (cancelled s t b) = b_user_id b" "b_created_by (cancelled s t b) = b_created_by b"
  "b_expires_at (cancelled s t b) = None" "b_cancellation_reason (cancelled s t b) = Some s"
  by (simp_all add: cancelled_def)

lemma cancelled_check:
  "booking_check b = None \<Longrightarrow> booking_check (cancelled s t b) = None \<longleftrightarrow> length s \<le> 500"
  by (auto simp: booking_check_iff)

lemma cancelled_step:
  "booking_check (cancelled s t b) = None \<Longrightarrow> active_booking b \<Longrightarrow> booking_step b (cancelled s t b)"
  by (auto simp: booking_step_def guard_booking_update_def booking_transition_def active_booking_def)

lemma update_bookings_Inr:
  assumes "update_bookings P f w = Inr (n, w')"
  shows "\<forall>b \<in> set (bookings w). P b \<longrightarrow> guard_booking_update b (f b) = None \<and> booking_check (f b) = None"
    "n = rowcount P (bookings w)" "w' = w\<lparr>bookings := update_where P f (bookings w)\<rparr>"
  using assms by (auto simp: update_bookings_def first_error_None first_some_None Let_def
      split: option.splits if_splits)

definition cancel_row :: "uuid \<Rightarrow> string \<Rightarrow> time \<Rightarrow> db \<Rightarrow> db" where
  "cancel_row i s t w = w\<lparr>bookings := update_where (\<lambda>x. b_id x = i) (cancelled s t) (bookings w)\<rparr>"

definition cancel_rows :: "uuid \<Rightarrow> string \<Rightarrow> time \<Rightarrow> db \<Rightarrow> db" where
  "cancel_rows i s t w =
     (cancel_row i s t w)\<lparr>waitlist := update_where (linked_to i) (entry_restatus WCancelled t) (waitlist w)\<rparr>"

lemma cancel_steps:
  assumes ok: "db_ok w" and b: "b \<in> set (bookings w)" "active_booking b"
    and chk: "booking_check (cancelled s t b) = None"
  shows "update_bookings (\<lambda>x. b_id x = b_id b \<and> b_version x = b_version b) (cancelled s t) w
      = Inr (1, cancel_row (b_id b) s t w)"
    "refresh_booking (b_id b) (cancel_row (b_id b) s t w) = Inr (cancelled s t b)"
    "\<exists>n. update_entries (\<lambda>e. w_offered_booking_id e = Some (b_id b) \<and> w_status e = WOffered)
        (entry_restatus WCancelled t) (cancel_row (b_id b) s t w) = Inr (n, cancel_rows (b_id b) s t w)"
    "db_ok (cancel_rows (b_id b) s t w)"
    "cancelled s t b \<in> set (bookings (cancel_rows (b_id b) s t w))"
    "\<forall>r \<in> set (outbox (cancel_rows (b_id b) s t w)). o_aggregate_id r = b_id (cancelled s t b)
        \<longrightarrow> o_aggregate_version r < b_version (cancelled s t b)"
proof -
  note parts = db_okD [OF ok]
  note step = cancelled_step [OF chk b(2)]
  show "update_bookings (\<lambda>x. b_id x = b_id b \<and> b_version x = b_version b) (cancelled s t) w
      = Inr (1, cancel_row (b_id b) s t w)"
    using update_one_booking_runs(1) [where f = "cancelled s t", OF parts(2) b(1) step]
    by (simp add: cancel_row_def pinned_booking_def [abs_def])
  have dist: "distinct (map b_id (bookings w))" using parts(2) by (simp add: bookings_ok_def)
  show "refresh_booking (b_id b) (cancel_row (b_id b) s t w) = Inr (cancelled s t b)"
    using find_updated [where f = "cancelled s t", OF dist b(1)] by (simp add: refresh_booking_def cancel_row_def)
  show "\<exists>n. update_entries (\<lambda>e. w_offered_booking_id e = Some (b_id b) \<and> w_status e = WOffered)
        (entry_restatus WCancelled t) (cancel_row (b_id b) s t w) = Inr (n, cancel_rows (b_id b) s t w)"
    "db_ok (cancel_rows (b_id b) s t w)"
    using settle_linked [where f = "cancelled s t" and st = WCancelled and t = t, OF ok b(1) step]
    by (auto simp: cancel_row_def cancel_rows_def linked_to_def [abs_def])
  show "cancelled s t b \<in> set (bookings (cancel_rows (b_id b) s t w))"
    using b(1) by (auto simp: cancel_rows_def cancel_row_def set_update_where)
  show "\<forall>r \<in> set (outbox (cancel_rows (b_id b) s t w)). o_aggregate_id r = b_id (cancelled s t b)
        \<longrightarrow> o_aggregate_version r < b_version (cancelled s t b)"
    using new_version_event [OF parts(2,4) b(1), of "cancelled s t b"]
    by (simp add: cancel_rows_def cancel_row_def)
qed

lemma append_audit_keeps:
  "append_audit_log a ty tid actor req d t w = Inr (x, w') \<Longrightarrow> db_ok w' = db_ok w \<and> bookings w' = bookings w \<and>
     waitlist w' = waitlist w \<and> outbox w' = outbox w \<and> users w' = users w \<and> resources w' = resources w"
  by (auto simp: append_audit_log_def uuid4_def Let_def insert_audit_def bind_r_Inr split: if_splits option.splits)

lemma request_id_or_new_tables:
  "request_id_or_new sc w = (i, w') \<Longrightarrow> db_ok w' = db_ok w \<and> bookings w' = bookings w \<and>
     waitlist w' = waitlist w \<and> outbox w' = outbox w \<and> users w' = users w \<and> resources w' = resources w \<and>
     audit_log w' = audit_log w"
  by (auto simp: request_id_or_new_def uuid4_def split: option.splits)

lemma audit_cancel_keeps:
  "audit_cancel sc i rid s t w = Inr w' \<Longrightarrow> db_ok w' = db_ok w \<and> bookings w' = bookings w \<and>
     waitlist w' = waitlist w \<and> outbox w' = outbox w \<and> users w' = users w \<and> resources w' = resources w"
  by (cases "request_id_or_new sc w")
    (auto simp: audit_cancel_def bind_r_Inr dest!: append_audit_keeps request_id_or_new_tables split: if_splits)

lemma carry_out_cancel_keeps:
  assumes ok: "db_ok w" and b: "b \<in> set (bookings w)" "active_booking b"
    and run: "carry_out_cancel sc rid (b_id b) (b_version b) s t w = Inr (out, w')"
  shows "db_ok w'"
proof -
  have dist: "distinct (map b_id (bookings w))" using db_okD(2) [OF ok] by (simp add: bookings_ok_def)
  obtain n w1 where upd: "update_bookings (\<lambda>x. b_id x = b_id b \<and> b_version x = b_version b) (cancelled s t) w = Inr (n, w1)"
    using run unfolding carry_out_cancel_def by (auto simp: bind_r_Inr)
  have chk: "booking_check (cancelled s t b) = None" using update_bookings_Inr(1) [OF upd] b(1) by simp
  note steps = cancel_steps [OF ok b chk]
  obtain i w3 w4 got where run':
    "append_event EBookingCancelled (cancelled s t b) (Some t) (cancel_rows (b_id b) s t w) = Inr (i, w3)"
    "audit_cancel sc (b_id b) rid s t w3 = Inr w4" "promote_waiters rid w4 = Inr (got, w')"
    using run steps(1-3) unfolding carry_out_cancel_def by (auto simp: bind_r_Inr)
  have "db_ok w3" using append_event_keeps [OF steps(4,5) run'(1)] .
  then have "db_ok w4" using audit_cancel_keeps [OF run'(2)] by simp
  then show ?thesis using promote_waiters_keeps run'(3) by blast
qed

lemma cancel_booking_keeps:
  assumes ok: "db_ok w" and run: "cancel_booking sc i v s w = Inr (out, w')"
  shows "db_ok w'"
proof -
  obtain rid ps b where b: "scalar_one_or_none (filter (\<lambda>b. b_id b = i \<and> b_kind b = Reservation \<and> conj_preds ps b)
      (bookings w)) = Inr (Some b)"
    and rest: "b_version b = v" "b_status b = BCancelled \<and> w' = w\<lparr>ticks := Suc (ticks w)\<rparr> \<or>
      active_booking b \<and> carry_out_cancel sc rid i v s (clock w (ticks w)) (w\<lparr>ticks := Suc (ticks w)\<rparr>) = Inr (out, w')"
    using run unfolding cancel_booking_def
    by (auto simp: bind_r_Inr clock_timestamp_def active_booking_def split: option.splits if_splits)
  have "b \<in> set (filter (\<lambda>b. b_id b = i \<and> b_kind b = Reservation \<and> conj_preds ps b) (bookings w))"
    using b by (simp add: scalar_Some)
  then have b': "b \<in> set (bookings w)" "b_id b = i" by auto
  from rest(2) show ?thesis
  proof
    assume "b_status b = BCancelled \<and> w' = w\<lparr>ticks := Suc (ticks w)\<rparr>"
    then show ?thesis using ok by simp
  next
    assume a: "active_booking b \<and> carry_out_cancel sc rid i v s (clock w (ticks w)) (w\<lparr>ticks := Suc (ticks w)\<rparr>) = Inr (out, w')"
    then show ?thesis
      using carry_out_cancel_keeps [of "w\<lparr>ticks := Suc (ticks w)\<rparr>" b] ok b' rest(1)
      by (auto simp del: split_paired_Ex)
  qed
qed

section \<open>Cancelling: the outcome\<close>

text \<open>The rows a cancellation leaves before the queue is served.\<close>

definition audited_cancel :: "scope \<Rightarrow> uuid \<Rightarrow> audit_row list \<Rightarrow> bool" where
  "audited_cancel sc i la \<longleftrightarrow>
     (if audit sc then \<exists>a. la = [a] \<and> a_action a = ''admin.booking_cancel'' \<and> a_target_id a = Some i \<and>
        a_actor_id a = principal_id sc
      else la = [])"

lemma audit_cancel_total:
  assumes fresh: "fresh_ids (Suc (Suc k)) w" and ok: "db_ok w"
    and actor: "\<forall>p. principal_id sc = Some p \<longrightarrow> p \<in> u_id ` set (users w)"
  shows "\<exists>n la. audit_cancel sc i rid s t w = Inr (w\<lparr>drawn := n, audit_log := audit_log w @ la\<rparr>) \<and>
    audited_cancel sc i la \<and> fresh_ids k (w\<lparr>drawn := n, audit_log := audit_log w @ la\<rparr>)"
proof (cases "audit sc")
  case False
  have "w\<lparr>drawn := drawn w, audit_log := audit_log w @ []\<rparr> = w" by simp
  then show ?thesis using False fresh_ids_mono [OF fresh]
    by (intro exI [of _ "drawn w"] exI [of _ "[]"]) (simp add: audit_cancel_def audited_cancel_def)
next
  case True
  obtain r n where r: "request_id_or_new sc w = (r, w\<lparr>drawn := n\<rparr>)"
  proof (cases "request_id sc")
    case None
    then show ?thesis using that [of "uuid_src w (drawn w)" "Suc (drawn w)"] by (simp add: request_id_or_new_def uuid4_def)
  next
    case (Some r)
    then show ?thesis using that [of r "drawn w"] by (simp add: request_id_or_new_def)
  qed
  let ?w1 = "w\<lparr>drawn := n\<rparr>"
  have "fresh_ids (Suc k) ?w1" using request_id_fresh [OF fresh, of sc] r by simp
  then obtain a where "append_audit_log ''admin.booking_cancel'' ''booking'' (Some i) (principal_id sc) r
      (JObj [(''resource_id'', JStr (uuid_str rid)), (''reason_length'', JInt (int (length s)))]) t ?w1
      = Inr (a, ?w1\<lparr>drawn := Suc (drawn ?w1), audit_log := audit_log ?w1 @ [a]\<rparr>)"
    "a_action a = ''admin.booking_cancel''" "a_target_id a = Some i" "a_actor_id a = principal_id sc"
    "fresh_ids k (?w1\<lparr>drawn := Suc (drawn ?w1), audit_log := audit_log ?w1 @ [a]\<rparr>)"
    using append_audit_total [of k ?w1 "principal_id sc" "''admin.booking_cancel''" "''booking''" "Some i" r
        "JObj [(''resource_id'', JStr (uuid_str rid)), (''reason_length'', JInt (int (length s)))]" t] actor by auto
  then show ?thesis using True r
    by (intro exI [of _ "Suc n"] exI [of _ "[a]"]) (simp add: audit_cancel_def audited_cancel_def)
qed

lemma waiting_on_cong: "waitlist w' = waitlist w \<Longrightarrow> waiting_on rid w' = waiting_on rid w"
  by (simp add: waiting_on_def)

lemma waiting_on_update:
  assumes "\<And>e. e \<in> set (waitlist w) \<Longrightarrow> P e \<Longrightarrow> w_status e \<noteq> WWaiting \<and> w_status (f e) \<noteq> WWaiting"
    and "waitlist w' = update_where P f (waitlist w)"
  shows "waiting_on rid w' = waiting_on rid w"
proof -
  have "filter Q (update_where P f t) = filter Q t"
    if "\<And>e. e \<in> set t \<Longrightarrow> P e \<Longrightarrow> \<not> Q e \<and> \<not> Q (f e)" for Q t
    using that by (induction t) (auto simp: update_where_def)
  then show ?thesis using assms by (simp add: waiting_on_def)
qed

text \<open>A cancellation within its guards goes through.\<close>

lemma cancel_booking_exact:
  assumes ok: "db_ok w" and b: "b \<in> set (bookings w)" "b_kind b = Reservation" "active_booking b"
    and sc: "scope_resource_id sc = Some rid" "booking_preds sc = Some ps" "conj_preds ps b"
    and actor: "\<forall>p. principal_id sc = Some p \<longrightarrow> p \<in> u_id ` set (users w)"
    and time: "clock w (ticks w) < (if allow_running sc then upper (b_range b) else lower (b_range b))"
    and len: "length s \<le> 500" and fresh: "fresh_ids (3 + 2 * length (waiting_on rid w)) w"
  defines "t \<equiv> clock w (ticks w)"
  shows "\<exists>n r la m got w'. cancel_booking sc (b_id b) (b_version b) s w = Inr (booking_view (cancelled s t b), w') \<and>
    m = w\<lparr>ticks := Suc (ticks w), drawn := n,
          bookings := update_where (\<lambda>c. b_id c = b_id b) (cancelled s t) (bookings w),
          waitlist := update_where (linked_to (b_id b)) (entry_restatus WCancelled t) (waitlist w),
          outbox := outbox w @ [r], audit_log := audit_log w @ la\<rparr> \<and>
    o_event_type r = EBookingCancelled \<and> o_aggregate_id r = b_id b \<and> o_aggregate_version r = b_version b + 1 \<and>
    o_status r = OPending \<and> o_payload r = event_payload (cancelled s t b) \<and> audited_cancel sc (b_id b) la \<and>
    db_ok m \<and> fresh_ids (2 * length (waiting_on rid m)) m \<and> promote_waiters rid m = Inr (got, w') \<and> db_ok w'"
proof -
  let ?w1 = "w\<lparr>ticks := Suc (ticks w)\<rparr>" and ?k = "2 * length (waiting_on rid w)" and ?b = "cancelled s t b"
  let ?w2 = "cancel_rows (b_id b) s t ?w1"
  have dist: "distinct (map b_id (bookings w))" using db_okD(2) [OF ok] by (simp add: bookings_ok_def)
  have found: "scalar_one_or_none (filter (\<lambda>x. b_id x = b_id b \<and> b_kind x = Reservation \<and> conj_preds ps x)
      (bookings w)) = Inr (Some b)"
    using filter_key_and_distinct [where P = "\<lambda>x. b_kind x = Reservation \<and> conj_preds ps x", OF dist b(1) refl] b(2) sc(3)
    by simp
  have chk: "booking_check ?b = None"
    using cancelled_check bookings_okD(1) [OF db_okD(2) [OF ok] b(1)] len by blast
  have ok1: "db_ok ?w1" using ok by simp
  have b1: "b \<in> set (bookings ?w1)" using b(1) by simp
  note steps = cancel_steps [OF ok1 b1 b(3) chk]
  have "fresh_ids (Suc (Suc (Suc ?k))) w" using fresh by (simp add: numeral_3_eq_3)
  then have fresh2: "fresh_ids (Suc (Suc (Suc ?k))) ?w2"
    by (rule fresh_ids_same [rotated 3]) (auto simp: cancel_rows_def cancel_row_def ids_def image_update_where)
  from append_event_total [OF steps(4,5,6) fresh2, of EBookingCancelled "Some t"]
  obtain r where ev: "append_event EBookingCancelled ?b (Some t) ?w2
        = Inr (uuid_src ?w2 (drawn ?w2), ?w2\<lparr>drawn := Suc (drawn ?w2), outbox := outbox ?w2 @ [r]\<rparr>)"
      "o_event_type r = EBookingCancelled" "o_aggregate_id r = b_id b" "o_aggregate_version r = b_version b + 1"
      "o_status r = OPending" "o_payload r = event_payload ?b"
      "db_ok (?w2\<lparr>drawn := Suc (drawn ?w2), outbox := outbox ?w2 @ [r]\<rparr>)"
      "fresh_ids (Suc (Suc ?k)) (?w2\<lparr>drawn := Suc (drawn ?w2), outbox := outbox ?w2 @ [r]\<rparr>)"
    by auto
  let ?w3 = "?w2\<lparr>drawn := Suc (drawn ?w2), outbox := outbox ?w2 @ [r]\<rparr>"
  have "\<forall>p. principal_id sc = Some p \<longrightarrow> p \<in> u_id ` set (users ?w3)"
    using actor by (simp add: cancel_rows_def cancel_row_def)
  from audit_cancel_total [OF ev(8,7) this] obtain n la where
    w4: "audit_cancel sc (b_id b) rid s t ?w3 = Inr (?w3\<lparr>drawn := n, audit_log := audit_log ?w3 @ la\<rparr>)"
      "audited_cancel sc (b_id b) la" "fresh_ids ?k (?w3\<lparr>drawn := n, audit_log := audit_log ?w3 @ la\<rparr>)" by blast
  let ?w4 = "?w3\<lparr>drawn := n, audit_log := audit_log ?w3 @ la\<rparr>"
  note t4 = audit_cancel_keeps [OF w4(1)]
  have "waiting_on rid ?w2 = waiting_on rid w"
    by (rule waiting_on_update [where P = "linked_to (b_id b)" and f = "entry_restatus WCancelled t"])
      (auto simp: cancel_rows_def cancel_row_def linked_to_def)
  then have "waiting_on rid ?w4 = waiting_on rid w"
    using waiting_on_cong [of ?w4 ?w3 rid] waiting_on_cong [of ?w3 ?w2 rid] t4 by simp
  then have fr4: "fresh_ids (2 * length (waiting_on rid ?w4)) ?w4" using w4(3) by simp
  have ok4: "db_ok ?w4" using t4 ev(7) by blast
  from promote_waiters_run [OF ok4 fr4] obtain got w5 where
    w5: "promote_waiters rid ?w4 = Inr (got, w5)" "db_ok w5" by blast
  have "carry_out_cancel sc rid (b_id b) (b_version b) s t ?w1 = Inr (booking_view ?b, w5)"
    using steps(1,2,3) ev(1) w4(1) w5(1) by (auto simp: carry_out_cancel_def)
  moreover have "b_status b \<noteq> BCancelled" "b_status b \<in> {BConfirmed, BOffered}"
    using b(3) by (auto simp: active_booking_def)
  ultimately have "cancel_booking sc (b_id b) (b_version b) s w = Inr (booking_view ?b, w5)"
    using sc found time by (auto simp: cancel_booking_def clock_timestamp_def Let_def t_def)
  moreover have "?w4 = w\<lparr>ticks := Suc (ticks w), drawn := n,
          bookings := update_where (\<lambda>c. b_id c = b_id b) (cancelled s t) (bookings w),
          waitlist := update_where (linked_to (b_id b)) (entry_restatus WCancelled t) (waitlist w),
          outbox := outbox w @ [r], audit_log := audit_log w @ la\<rparr>"
    by (simp add: cancel_rows_def cancel_row_def)
  ultimately show ?thesis using ev(2-6) w4(2) ok4 fr4 w5 by metis
qed

lemma cancel_booking_runs:
  assumes ok: "db_ok w" and b: "b \<in> set (bookings w)" "b_kind b = Reservation" "active_booking b"
    and sc: "scope_resource_id sc = Some rid" "booking_preds sc = Some ps" "conj_preds ps b"
    and actor: "\<forall>p. principal_id sc = Some p \<longrightarrow> p \<in> u_id ` set (users w)"
    and time: "clock w (ticks w) < (if allow_running sc then upper (b_range b) else lower (b_range b))"
    and len: "length s \<le> 500" and fresh: "fresh_ids (3 + 2 * length (waiting_on rid w)) w"
  defines "b' \<equiv> cancelled s (clock w (ticks w)) b"
  shows "\<exists>w'. cancel_booking sc (b_id b) (b_version b) s w = Inr (booking_view b', w') \<and> db_ok w' \<and>
    b' \<in> set (bookings w') \<and> (\<forall>e \<in> set (waitlist w'). \<not> linked_to (b_id b) e) \<and>
    (\<exists>r \<in> set (outbox w'). o_event_type r = EBookingCancelled \<and> o_aggregate_id r = b_id b \<and>
       o_aggregate_version r = b_version b + 1 \<and> o_status r = OPending) \<and>
    (\<forall>e \<in> set (waiting_on rid w'). \<exists>c \<in> set (bookings w'). blocked_by rid e c)"
proof -
  obtain n r la m got w5 where run: "cancel_booking sc (b_id b) (b_version b) s w = Inr (booking_view b', w5)"
    and m: "m = w\<lparr>ticks := Suc (ticks w), drawn := n,
          bookings := update_where (\<lambda>c. b_id c = b_id b) (cancelled s (clock w (ticks w))) (bookings w),
          waitlist := update_where (linked_to (b_id b)) (entry_restatus WCancelled (clock w (ticks w))) (waitlist w),
          outbox := outbox w @ [r], audit_log := audit_log w @ la\<rparr>"
    and ev: "o_event_type r = EBookingCancelled" "o_aggregate_id r = b_id b" "o_aggregate_version r = b_version b + 1"
      "o_status r = OPending"
    and okm: "db_ok m" "fresh_ids (2 * length (waiting_on rid m)) m"
    and w5: "promote_waiters rid m = Inr (got, w5)" "db_ok w5"
    using cancel_booking_exact [OF assms(1-11)] unfolding b'_def by blast
  have grow: "prefix (bookings m) (bookings w5)" "prefix (outbox m) (outbox w5)"
    using promote_waiters_grows [OF w5(1)] by (simp_all add: grows_def)
  have in5: "b' \<in> set (bookings w5)" "r \<in> set (outbox w5)"
    using set_mono_prefix [OF grow(1)] set_mono_prefix [OF grow(2)] b(1) by (auto simp: m b'_def set_update_where)
  have "\<not> linked_to (b_id b) e" if e: "e \<in> set (waitlist w5)" for e
  proof
    assume l: "linked_to (b_id b) e"
    then obtain c where c: "c \<in> set (bookings w5)" "b_status c = BOffered" "offer_of e c"
      using db_okD(5) [OF w5(2)] e by (auto simp: offers_linked_def linked_to_def)
    have "c = b'" using l c(1,3) in5(1) db_okD(2) [OF w5(2)]
      by (auto simp: linked_to_def offer_of_def bookings_ok_def b'_def intro: distinct_key_eq)
    then show False using c(2) by (simp add: b'_def)
  qed
  moreover have "\<forall>e \<in> set (waiting_on rid w5). \<exists>c \<in> set (bookings w5). blocked_by rid e c"
    by (rule work_conserved [OF okm w5(1)])
  ultimately show ?thesis using run w5(2) in5 ev by blast
qed

text \<open>
  C12: a cancellation that passes its guards always goes through, in one transaction. Up to the
  promotion it changes exactly this: the booking is cancelled with its version counted up and
  the reason stored, the entry it was offered to is cancelled, one booking_cancelled event of
  the new version is appended, an audited scope appends one audit row, and a time and uuids
  are read; every other booking, entry and table is as before. From that state the queue of
  the resource is served by promote\_waiters, and in the end the booking is in the table as it
  was left, no entry is offered it, and nobody waits whom no active booking blocks.
\<close>

theorem cancel_booking_effect:
  assumes ok: "db_ok w" and b: "b \<in> set (bookings w)" "b_kind b = Reservation" "active_booking b"
    and sc: "scope_resource_id sc = Some rid" "booking_preds sc = Some ps" "conj_preds ps b"
    and actor: "\<forall>p. principal_id sc = Some p \<longrightarrow> p \<in> u_id ` set (users w)"
    and time: "clock w (ticks w) < (if allow_running sc then upper (b_range b) else lower (b_range b))"
    and len: "length s \<le> 500" and fresh: "fresh_ids (3 + 2 * length (waiting_on rid w)) w"
  defines "t \<equiv> clock w (ticks w)"
  defines "b' \<equiv> cancelled s t b"
  shows "\<exists>n r la m got w'. cancel_booking sc (b_id b) (b_version b) s w = Inr (booking_view b', w') \<and>
    m = w\<lparr>ticks := Suc (ticks w), drawn := n,
          bookings := map (\<lambda>c. if b_id c = b_id b then b' else c) (bookings w),
          waitlist := map (\<lambda>e. if linked_to (b_id b) e then entry_restatus WCancelled t e else e) (waitlist w),
          outbox := outbox w @ [r], audit_log := audit_log w @ la\<rparr> \<and>
    o_event_type r = EBookingCancelled \<and> o_aggregate_id r = b_id b \<and> o_aggregate_version r = b_version b + 1 \<and>
    o_status r = OPending \<and> o_payload r = event_payload b' \<and> audited_cancel sc (b_id b) la \<and>
    promote_waiters rid m = Inr (got, w') \<and> db_ok w' \<and>
    b' \<in> set (bookings w') \<and> (\<forall>e \<in> set (waitlist w'). \<not> linked_to (b_id b) e) \<and>
    (\<forall>e \<in> set (waiting_on rid w'). \<exists>c \<in> set (bookings w'). blocked_by rid e c)"
proof -
  have "distinct (map b_id (bookings w))" using db_okD(2) [OF ok] by (simp add: bookings_ok_def)
  then have rows: "update_where (\<lambda>c. b_id c = b_id b) (cancelled s t) (bookings w)
      = map (\<lambda>c. if b_id c = b_id b then b' else c) (bookings w)"
    using b(1) by (auto simp: update_where_def b'_def intro: distinct_key_eq [THEN arg_cong])
  obtain n r la m got w1 where run: "cancel_booking sc (b_id b) (b_version b) s w = Inr (booking_view b', w1)"
    "m = w\<lparr>ticks := Suc (ticks w), drawn := n,
          bookings := update_where (\<lambda>c. b_id c = b_id b) (cancelled s t) (bookings w),
          waitlist := update_where (linked_to (b_id b)) (entry_restatus WCancelled t) (waitlist w),
          outbox := outbox w @ [r], audit_log := audit_log w @ la\<rparr>"
    "o_event_type r = EBookingCancelled" "o_aggregate_id r = b_id b" "o_aggregate_version r = b_version b + 1"
    "o_status r = OPending" "o_payload r = event_payload b'" "audited_cancel sc (b_id b) la"
    "promote_waiters rid m = Inr (got, w1)"
    using cancel_booking_exact [OF assms(1-11)] unfolding t_def b'_def by blast
  obtain w' where w': "cancel_booking sc (b_id b) (b_version b) s w = Inr (booking_view b', w')" "db_ok w'"
      "b' \<in> set (bookings w')" "\<forall>e \<in> set (waitlist w'). \<not> linked_to (b_id b) e"
      "\<forall>e \<in> set (waiting_on rid w'). \<exists>c \<in> set (bookings w'). blocked_by rid e c"
    using cancel_booking_runs [OF assms(1-11)] unfolding t_def b'_def by blast
  have "w1 = w'" using run(1) w'(1) by simp
  then show ?thesis
    using run(1) run(2) [unfolded rows, unfolded update_where_def] run(3-9) w'(2-5) by blast
qed

text \<open>A cancellation of a booking of ex\_db, whose waiting entry is then offered the window.\<close>

definition ex_booking :: booking where
  "ex_booking = \<lparr>b_id = 301, b_resource_id = 1000, b_user_id = Some 102, b_created_by = Some 102,
     b_kind = Reservation, b_range = \<lparr>lower = hours 14, upper = hours 15\<rparr>, b_status = BConfirmed,
     b_expires_at = None, b_cancellation_reason = None, b_version = 1, b_created_at = 0, b_updated_at = 0\<rparr>"

definition ex_booked_db :: db where
  "ex_booked_db = ex_db\<lparr>users := [ex_user 101 Member, ex_user 102 Member],
     bookings := [ex_booking], waitlist := [ex_entry 201 101 5]\<rparr>"

lemma ex_booked_db_ok: "db_ok ex_booked_db"
  by (simp add: db_ok_def people_ok_def bookings_ok_def entries_ok_def events_ok_def offers_linked_def
      no_overlap_def entries_unique_def outbox_ok_def ex_booked_db_def ex_booking_def ex_db_def
      empty_db_def ex_user_def ex_resource_def ex_entry_def entry_check_iff booking_check_iff
      booking_fks_def entry_fks_def offer_fk_ok_def isempty_def time_units)

lemma ex_booked_draws: "distinct (map (\<lambda>j. of_nat (Suc j) :: uuid) [0..<10]) \<and>
    (\<forall>j \<in> set [0..<10]. (of_nat (Suc j) :: uuid) \<notin> {201, 301})"
  by code_simp

lemma ex_booked_fresh: "fresh_ids 10 ex_booked_db"
proof -
  have "inj_on (\<lambda>j. of_nat (Suc j) :: uuid) (set [0..<10])" using ex_booked_draws by (simp only: distinct_map)
  moreover have "set [0..<10] = {..<10::nat}" by (simp only: set_upt atLeast0LessThan)
  ultimately show ?thesis
    using ex_booked_draws
    by (auto simp: fresh_ids_def ids_def ex_booked_db_def ex_booking_def ex_db_def empty_db_def ex_entry_def)
qed

definition ex_member_scope :: scope where
  "ex_member_scope = (own_scope POwnBooking 102)\<lparr>booking_preds := Some [\<lambda>b. b_user_id b = Some 102],
     object_id := Some 301, scope_resource_id := Some 1000, expected_version := Some 1\<rparr>"

lemma ex_member_scope_simps:
  "scope_resource_id ex_member_scope = Some 1000" "principal_id ex_member_scope = Some 102"
  "booking_preds ex_member_scope = Some [\<lambda>b. b_user_id b = Some 102]" "\<not> allow_running ex_member_scope"
  by (simp_all add: ex_member_scope_def own_scope_def)

theorem cancel_booking_effect_witness:
  "\<exists>out w'. cancel_booking ex_member_scope 301 1 ''ill'' ex_booked_db = Inr (out, w') \<and> db_ok w' \<and>
     bo_status out = BCancelled \<and> bo_version out = 2 \<and> bo_cancellation_reason out = Some ''ill''"
proof -
  have w1: "length (waiting_on 1000 ex_booked_db) = 1" by code_simp
  have f: "fresh_ids (3 + 2 * length (waiting_on 1000 ex_booked_db)) ex_booked_db"
    unfolding w1 by (rule fresh_ids_mono [OF ex_booked_fresh]) simp
  have b: "ex_booking \<in> set (bookings ex_booked_db)" "b_kind ex_booking = Reservation" "active_booking ex_booking"
    by (simp_all add: ex_booked_db_def ex_booking_def active_booking_def)
  have p: "conj_preds [\<lambda>b. b_user_id b = Some 102] ex_booking" by (simp add: ex_booking_def)
  have u: "\<forall>p. principal_id ex_member_scope = Some p \<longrightarrow> p \<in> u_id ` set (users ex_booked_db)"
    by (simp add: ex_member_scope_simps ex_booked_db_def ex_user_def)
  have t: "clock ex_booked_db (ticks ex_booked_db)
      < (if allow_running ex_member_scope then upper (b_range ex_booking) else lower (b_range ex_booking))"
    by (simp add: ex_member_scope_simps ex_booked_db_def ex_db_def empty_db_def ex_booking_def time_units)
  have "length ''ill'' \<le> 500" by simp
  from cancel_booking_effect [OF ex_booked_db_ok b ex_member_scope_simps(1,3) p u t this f] show ?thesis
    by (force simp: ex_booking_def booking_view_def cancelled_def)
qed

text \<open>
  The guards of a cancellation, in their order: a booking out of reach is not found; then
  a stale version, then the state, then the time decide. Cancelling a cancelled booking at its
  current version changes no table and returns the booking as it is.
\<close>

theorem cancel_booking_guards:
  assumes ok: "db_ok w" and sc: "scope_resource_id sc = Some rid" "booking_preds sc = Some ps"
  defines "late \<equiv> \<lambda>b. (if allow_running sc then upper (b_range b) else lower (b_range b)) \<le> clock w (ticks w)"
  shows "((\<forall>b \<in> set (bookings w). \<not> (b_id b = i \<and> b_kind b = Reservation \<and> conj_preds ps b))
      \<longrightarrow> cancel_booking sc i v s w = Inl NotFoundError) \<and>
    (\<forall>b \<in> set (bookings w). b_kind b = Reservation \<longrightarrow> conj_preds ps b \<longrightarrow> cancel_booking sc (b_id b) v s w =
      (if v \<noteq> b_version b then Inl VersionMismatch
       else if b_status b = BCancelled then Inr (booking_view b, w\<lparr>ticks := Suc (ticks w)\<rparr>)
       else if b_status b \<in> {BPending, BExpired} then Inl InvalidState
       else if late b then Inl TooLate
       else carry_out_cancel sc rid (b_id b) v s (clock w (ticks w)) (w\<lparr>ticks := Suc (ticks w)\<rparr>)))"
proof (intro conjI impI ballI)
  assume "\<forall>b \<in> set (bookings w). \<not> (b_id b = i \<and> b_kind b = Reservation \<and> conj_preds ps b)"
  then have "filter (\<lambda>b. b_id b = i \<and> b_kind b = Reservation \<and> conj_preds ps b) (bookings w) = []"
    by (simp add: filter_empty_conv)
  then show "cancel_booking sc i v s w = Inl NotFoundError"
    using sc by (simp add: cancel_booking_def)
next
  fix b
  assume b: "b \<in> set (bookings w)" "b_kind b = Reservation" "conj_preds ps b"
  have dist: "distinct (map b_id (bookings w))" using db_okD(2) [OF ok] by (simp add: bookings_ok_def)
  have "scalar_one_or_none (filter (\<lambda>x. b_id x = b_id b \<and> b_kind x = Reservation \<and> conj_preds ps x)
      (bookings w)) = Inr (Some b)"
    using filter_key_and_distinct [where P = "\<lambda>x. b_kind x = Reservation \<and> conj_preds ps x", OF dist b(1) refl] b(2,3)
    by simp
  moreover have "b_status b \<in> {BPending, BExpired} \<longleftrightarrow> b_status b \<notin> {BConfirmed, BOffered, BCancelled}"
    by (cases "b_status b") auto
  ultimately show "cancel_booking sc (b_id b) v s w =
      (if v \<noteq> b_version b then Inl VersionMismatch
       else if b_status b = BCancelled then Inr (booking_view b, w\<lparr>ticks := Suc (ticks w)\<rparr>)
       else if b_status b \<in> {BPending, BExpired} then Inl InvalidState
       else if late b then Inl TooLate
       else carry_out_cancel sc rid (b_id b) v s (clock w (ticks w)) (w\<lparr>ticks := Suc (ticks w)\<rparr>))"
    using sc by (auto simp: cancel_booking_def clock_timestamp_def Let_def late_def)
qed

theorem cancel_booking_guards_witness:
  "cancel_booking ex_member_scope 301 7 ''ill'' ex_booked_db = Inl VersionMismatch \<and>
   cancel_booking ex_member_scope 302 1 ''ill'' ex_booked_db = Inl NotFoundError"
proof -
  note g = cancel_booking_guards [OF ex_booked_db_ok ex_member_scope_simps(1,3)]
  have "ex_booking \<in> set (bookings ex_booked_db)" by (simp add: ex_booked_db_def)
  with g [of 301 7 "''ill''"] have "cancel_booking ex_member_scope 301 7 ''ill'' ex_booked_db = Inl VersionMismatch"
    by (force simp: ex_booking_def)
  moreover have "cancel_booking ex_member_scope 302 1 ''ill'' ex_booked_db = Inl NotFoundError"
    using g [of 302 1 "''ill''"] by (simp add: ex_booked_db_def ex_booking_def)
  ultimately show ?thesis by blast
qed

lemma own_booking_scope_preds:
  "resolve_own_booking_scope rq p w = Inr sc \<Longrightarrow> booking_preds sc = Some [\<lambda>b. b_user_id b = Some p]"
  by (auto simp: resolve_own_booking_scope_def Let_def bind_r_Inr own_scope_def
      split: option.splits if_splits)

text \<open>
  A cancellation under an own-booking scope, however stale, reaches only the caller's own
  reservations: the booking it returns belongs to the caller, and every booking of anybody
  else, blackouts included, is still there unchanged.
\<close>

theorem cancel_own_only:
  assumes ok: "db_ok w" and scope: "resolve_own_booking_scope rq p w0 = Inr sc"
    and run: "cancel_booking sc i v s w = Inr (out, w')"
  shows "bo_user_id out = Some p \<and>
    (\<forall>c \<in> set (bookings w). b_user_id c \<noteq> Some p \<longrightarrow> c \<in> set (bookings w'))"
proof -
  let ?P = "\<lambda>b. b_id b = i \<and> b_kind b = Reservation \<and> conj_preds [\<lambda>b. b_user_id b = Some p] b"
  obtain rid b where b: "scalar_one_or_none (filter ?P (bookings w)) = Inr (Some b)"
    and rest: "b_version b = v" "out = booking_view b \<and> w' = w\<lparr>ticks := Suc (ticks w)\<rparr> \<or>
      active_booking b \<and> carry_out_cancel sc rid i v s (clock w (ticks w)) (w\<lparr>ticks := Suc (ticks w)\<rparr>) = Inr (out, w')"
    using run own_booking_scope_preds [OF scope] unfolding cancel_booking_def
    by (auto simp: bind_r_Inr clock_timestamp_def active_booking_def split: option.splits if_splits)
  have "b \<in> set (filter ?P (bookings w))" using b by (simp add: scalar_Some)
  then have b': "b \<in> set (bookings w)" "b_id b = i" "b_user_id b = Some p" by auto
  from rest(2) show ?thesis
  proof
    assume "out = booking_view b \<and> w' = w\<lparr>ticks := Suc (ticks w)\<rparr>"
    then show ?thesis using b'(3) by (simp add: booking_view_def)
  next
    let ?t = "clock w (ticks w)" and ?w1 = "w\<lparr>ticks := Suc (ticks w)\<rparr>"
    assume a: "active_booking b \<and> carry_out_cancel sc rid i v s ?t ?w1 = Inr (out, w')"
    then obtain n w2 where upd: "update_bookings (\<lambda>x. b_id x = b_id b \<and> b_version x = b_version b) (cancelled s ?t) ?w1 = Inr (n, w2)"
      unfolding carry_out_cancel_def using rest(1) b'(2) by (auto simp: bind_r_Inr)
    have chk: "booking_check (cancelled s ?t b) = None" using update_bookings_Inr(1) [OF upd] b'(1) by simp
    have ok1: "db_ok ?w1" and b1: "b \<in> set (bookings ?w1)" using ok b'(1) by simp_all
    from a have act: "active_booking b" ..
    note steps = cancel_steps [OF ok1 b1 act chk]
    obtain j w3 w4 got where run':
      "append_event EBookingCancelled (cancelled s ?t b) (Some ?t) (cancel_rows (b_id b) s ?t ?w1) = Inr (j, w3)"
      "audit_cancel sc (b_id b) rid s ?t w3 = Inr w4" "promote_waiters rid w4 = Inr (got, w')"
      "out = booking_view (cancelled s ?t b)"
      using conjunct2 [OF a] steps(1-3) rest(1) b'(2) unfolding carry_out_cancel_def by (auto simp: bind_r_Inr)
    have "bookings w4 = bookings (cancel_rows (b_id b) s ?t ?w1)"
      using append_event_Inr [OF run'(1)] audit_cancel_keeps [OF run'(2)] by auto
    moreover have "c \<in> set (bookings (cancel_rows (b_id b) s ?t ?w1))"
      if c: "c \<in> set (bookings w)" "b_user_id c \<noteq> Some p" for c
    proof -
      have "b_id c \<noteq> b_id b"
        using c b'(1,3) db_okD(2) [OF ok] by (auto simp: bookings_ok_def dest: distinct_key_eq)
      then show ?thesis using c(1) by (simp add: cancel_rows_def cancel_row_def set_update_where)
    qed
    ultimately show ?thesis
      using set_mono_prefix promote_waiters_grows [OF run'(3)] run'(4) b'(3)
      by (auto simp: grows_def booking_view_def)
  qed
qed

definition ex_request :: request where
  "ex_request = \<lparr>req_method = ''POST'', req_path = ''/api/v1/bookings/x/cancel'',
     req_id_param = Some (uuid_str 301), req_if_match = Some (etag 1), req_authorization = None,
     req_request_id = None\<rparr>"

lemma ex_if_match: "parse_if_match (Some (etag 1)) = Inr 1"
  by code_simp

lemma ex_request_scope: "resolve_own_booking_scope ex_request 102 ex_booked_db = Inr ex_member_scope"
  using ex_if_match
  by (simp add: resolve_own_booking_scope_def ex_request_def parse_uuid_str ex_booked_db_def ex_booking_def
      ex_member_scope_def own_scope_def)

text \<open>The same database after the cancellation, as the table rows show it.\<close>

definition ex_cancelled_db :: db where
  "ex_cancelled_db = ex_booked_db\<lparr>bookings := [cancelled ''ill'' (hours 12) ex_booking], waitlist := []\<rparr>"

lemma ex_cancelled_db_ok: "db_ok ex_cancelled_db"
  by (simp add: db_ok_def people_ok_def bookings_ok_def entries_ok_def events_ok_def offers_linked_def
      no_overlap_def entries_unique_def outbox_ok_def ex_cancelled_db_def ex_booked_db_def ex_booking_def
      ex_db_def empty_db_def ex_user_def ex_resource_def cancelled_def booking_check_iff booking_fks_def
      isempty_def time_units)

lemma ex_cancel_again: "cancel_booking ex_member_scope 301 2 ''ill'' ex_cancelled_db
    = Inr (booking_view (cancelled ''ill'' (hours 12) ex_booking),
           ex_cancelled_db\<lparr>ticks := Suc (ticks ex_cancelled_db)\<rparr>)"
  by (simp add: cancel_booking_def ex_member_scope_simps ex_cancelled_db_def ex_booking_def cancelled_def
      clock_timestamp_def)

theorem cancel_own_only_witness:
  "\<exists>out w'. cancel_booking ex_member_scope 301 2 ''ill'' ex_cancelled_db = Inr (out, w') \<and> bo_user_id out = Some 102"
  using cancel_own_only [OF ex_cancelled_db_ok ex_request_scope ex_cancel_again] ex_cancel_again by blast

end
