(* ===== verification/Idempotency.thy ===== *)
theory Idempotency
imports Bookings "HOL-Library.AList"
begin

text \<open>
  Idempotent creation (app/bookings/idempotency.py): the canonical text of a request and its
  hash, the Idempotency-Key header, and execute_create, which runs an operation at most once
  per key and replays its stored response. SHA-256 is a parameter of the model.
\<close>

section \<open>The canonical request\<close>

text \<open>A Python value as model_dump() returns it; a nested model has become a dictionary.\<close>

datatype pyval =
    VNone
  | VBool bool
  | VInt int
  | VStr string
  | VUuid uuid
  | VTime datetime
  | VList "pyval list"
  | VDict "(string \<times> pyval) list"

fun map_r :: "('a \<Rightarrow> 'b result) \<Rightarrow> 'a list \<Rightarrow> 'b list result" where
  "map_r f [] = Inr []"
| "map_r f (x # xs) = bind_r (f x) (\<lambda>y. bind_r (map_r f xs) (\<lambda>ys. Inr (y # ys)))"

lemma map_r_cong [fundef_cong]:
  "xs = ys \<Longrightarrow> (\<And>x. x \<in> set ys \<Longrightarrow> f x = g x) \<Longrightarrow> map_r f xs = map_r g ys"
  by (induction ys arbitrary: xs) auto

fun normalize_value :: "pyval \<Rightarrow> json result" where
  "normalize_value VNone = Inr JNull"
| "normalize_value (VBool b) = Inr (JBool b)"
| "normalize_value (VInt n) = Inr (JInt n)"
| "normalize_value (VStr s) = Inr (JStr s)"
| "normalize_value (VUuid u) = Inr (JStr (uuid_str u))"
| "normalize_value (VTime d) = bind_r (as_utc_now d) (\<lambda>t. Inr (JStr (format_rfc3339_utc t)))"
| "normalize_value (VList vs) = bind_r (map_r normalize_value vs) (\<lambda>js. Inr (JArr js))"
| "normalize_value (VDict kvs) =
     bind_r (map_r (\<lambda>(k, v). bind_r (normalize_value v) (\<lambda>j. Inr (k, j))) kvs) (\<lambda>js. Inr (JObj js))"

text \<open>path.split("/") and "/".join.\<close>

fun split_on :: "char \<Rightarrow> string \<Rightarrow> string list" where
  "split_on c [] = [[]]"
| "split_on c (x # xs) =
     (if x = c then [] # split_on c xs
      else (case split_on c xs of [] \<Rightarrow> [[x]] | s # ss \<Rightarrow> (x # s) # ss))"

fun join_with :: "string \<Rightarrow> string list \<Rightarrow> string" where
  "join_with sep [] = []"
| "join_with sep [s] = s"
| "join_with sep (s # t # ss) = s @ sep @ join_with sep (t # ss)"

definition normalize_path :: "string \<Rightarrow> string" where
  "normalize_path path =
     join_with ''/'' (map (\<lambda>seg. case parse_uuid seg of Some u \<Rightarrow> uuid_str u | None \<Rightarrow> seg) (split_on (CHR ''/'') path))"

text \<open>json.dumps with sorted keys, compact separators and ASCII output.\<close>

definition esc_char :: "char \<Rightarrow> string" where
  "esc_char c =
     (if c = CHR 34 then [CHR 92, CHR 34]
      else if c = CHR 92 then [CHR 92, CHR 92]
      else if code c = 10 then [CHR 92, CHR ''n'']
      else if code c = 13 then [CHR 92, CHR ''r'']
      else if code c = 9 then [CHR 92, CHR ''t'']
      else if code c = 12 then [CHR 92, CHR ''f'']
      else if code c = 8 then [CHR 92, CHR ''b'']
      else if 32 \<le> code c \<and> code c \<le> 126 then [c]
      else [CHR 92, CHR ''u'', CHR ''0'', CHR ''0'', hexdigit (code c div 16), hexdigit (code c mod 16)])"

definition esc :: "string \<Rightarrow> string" where
  "esc s = concat (map esc_char s)"

definition quoted :: "string \<Rightarrow> string" where
  "quoted s = [CHR 34] @ esc s @ [CHR 34]"

definition int_str :: "int \<Rightarrow> string" where
  "int_str n = (if n < 0 then ''-'' @ nat_str (nat (- n)) else nat_str (nat n))"

fun dumps :: "json \<Rightarrow> string" where
  "dumps JNull = ''null''"
| "dumps (JBool b) = (if b then ''true'' else ''false'')"
| "dumps (JInt n) = int_str n"
| "dumps (JStr s) = quoted s"
| "dumps (JArr js) = ''['' @ join_with '','' (map dumps js) @ '']''"
| "dumps (JObj kvs) = ''{'' @ join_with '','' (map (\<lambda>(k, v). quoted k @ '':'' @ dumps v) kvs) @ ''}''"

text \<open>sort_keys: Python compares strings by code point.\<close>

fun str_le :: "string \<Rightarrow> string \<Rightarrow> bool" where
  "str_le [] t = True"
| "str_le (c # s) [] = False"
| "str_le (c # s) (d # t) = (code c < code d \<or> c = d \<and> str_le s t)"

fun insort_key :: "string \<times> json \<Rightarrow> (string \<times> json) list \<Rightarrow> (string \<times> json) list" where
  "insort_key x [] = [x]"
| "insort_key x (y # ys) = (if str_le (fst x) (fst y) then x # y # ys else y # insort_key x ys)"

fun sort_keys :: "json \<Rightarrow> json" where
  "sort_keys (JArr js) = JArr (map sort_keys js)"
| "sort_keys (JObj kvs) = JObj (foldr insort_key (map (\<lambda>(k, v). (k, sort_keys v)) kvs) [])"
| "sort_keys j = j"

definition json_dumps :: "json \<Rightarrow> string" where
  "json_dumps j = dumps (sort_keys j)"

text \<open>method.upper(); a method is an ASCII token.\<close>

definition upper_char :: "char \<Rightarrow> char" where
  "upper_char c = (if 97 \<le> code c \<and> code c \<le> 122 then char_of (code c - 32) else c)"

definition canonical_request :: "string \<Rightarrow> string \<Rightarrow> pyval \<Rightarrow> json result" where
  "canonical_request meth path body =
     bind_r (normalize_value body) (\<lambda>b.
     Inr (JObj [(''body'', b), (''method'', JStr (map upper_char meth)), (''path'', JStr (normalize_path path))]))"

definition compute_request_hash ::
  "(string \<Rightarrow> string) \<Rightarrow> string \<Rightarrow> string \<Rightarrow> pyval \<Rightarrow> string result" where
  "compute_request_hash sha256_hex meth path body =
     bind_r (canonical_request meth path body) (\<lambda>j. Inr (sha256_hex (json_dumps j)))"

section \<open>The header\<close>

definition parse_idempotency_key :: "string option \<Rightarrow> uuid result" where
  "parse_idempotency_key header =
     (case header of
        None \<Rightarrow> Inl IdempotencyKeyRequired
      | Some h \<Rightarrow>
          if py_strip h = [] then Inl IdempotencyKeyRequired
          else (case parse_uuid (py_strip h) of
                  None \<Rightarrow> Inl IdempotencyKeyInvalid
                | Some u \<Rightarrow> if uuid_version u \<noteq> Some 4 then Inl IdempotencyKeyInvalid else Inr u))"

section \<open>Running once\<close>

definition idem_row :: "uuid \<Rightarrow> uuid \<Rightarrow> idem_key \<Rightarrow> bool" where
  "idem_row u k r = (k_user_id r = u \<and> k_key r = k)"

text \<open>INSERT ... ON CONFLICT DO NOTHING RETURNING key: whether the row was inserted.\<close>

definition acquire_key :: "uuid \<Rightarrow> uuid \<Rightarrow> string \<Rightarrow> db \<Rightarrow> (bool \<times> db) result" where
  "acquire_key u k h w =
     (let (at, w1) = clock_timestamp w;
          row = \<lparr>k_user_id = u, k_key = k, k_request_hash = h, k_response_status = None,
                 k_response_body = None, k_response_headers = None, k_created_at = at,
                 k_expires_at = at + hours 24\<rparr>
      in if \<exists>r \<in> set (idem_keys w1). idem_row u k r then Inr (False, w1)
         else if u \<notin> u_id ` set (users w1)
           then Inl (IntegrityError ''23503'' ''idempotency_keys_user_id_fkey'')
         else Inr (True, w1\<lparr>idem_keys := idem_keys w1 @ [row]\<rparr>))"

definition persisted_headers :: "(string \<times> string) list \<Rightarrow> (string \<times> string) list" where
  "persisted_headers hs = filter (\<lambda>(k, v). py_lower k \<in> {''location'', ''etag''}) hs"

text \<open>The UPDATE of the response columns, with the CHECK on the status.\<close>

definition answered :: "stored_response \<Rightarrow> idem_key \<Rightarrow> idem_key" where
  "answered st r =
     r\<lparr>k_response_status := Some (sr_status st), k_response_body := Some (sr_body st),
       k_response_headers := Some (persisted_headers (sr_headers st))\<rparr>"

definition store_response :: "uuid \<Rightarrow> uuid \<Rightarrow> stored_response \<Rightarrow> db \<Rightarrow> db result" where
  "store_response u k st w =
     (if filter (idem_row u k) (idem_keys w) \<noteq> [] \<and> (sr_status st < 200 \<or> sr_status st > 499)
      then Inl (IntegrityError ''23514'' ''idempotency_keys_response_check'')
      else Inr (w\<lparr>idem_keys := update_where (idem_row u k) (answered st) (idem_keys w)\<rparr>))"

definition with_replayed :: "string \<Rightarrow> (string \<times> string) list \<Rightarrow> (string \<times> string) list" where
  "with_replayed v hs = AList.update ''Idempotency-Replayed'' v hs"

definition replay_row :: "string \<Rightarrow> idem_key \<Rightarrow> stored_response result" where
  "replay_row h r =
     (if k_request_hash r \<noteq> h then Inl IdempotencyKeyMismatch
      else (case k_response_status r of
              None \<Rightarrow> Inl IncompleteIdempotencyRecord
            | Some s \<Rightarrow> Inr
                \<lparr>sr_status = s,
                 sr_body = (case k_response_body r of None \<Rightarrow> JObj [] | Some b \<Rightarrow> b),
                 sr_headers = with_replayed ''true''
                   (case k_response_headers r of None \<Rightarrow> [] | Some hs \<Rightarrow> hs)\<rparr>))"

text \<open>
  The loop, n + 1 iterations left. Between the INSERT that met a conflict and the locking
  SELECT other transactions may commit to the table: rivals (2 * n + 1) is what they make of
  it. Where the SELECT found no row nothing is locked, and they may commit again before the
  next INSERT: rivals (2 * n). A row found is locked until the end of the transaction: once
  it is deleted as expired, the INSERT of a rival waits.
\<close>

type_synonym operation = "db \<Rightarrow> (stored_response \<times> db) result"

fun acquire_or_replay ::
  "nat \<Rightarrow> uuid \<Rightarrow> uuid \<Rightarrow> string \<Rightarrow> operation \<Rightarrow> (nat \<Rightarrow> idem_key list \<Rightarrow> idem_key list) \<Rightarrow> operation" where
  "acquire_or_replay 0 u k h operation rivals w = Inl IncompleteIdempotencyRecord"
| "acquire_or_replay (Suc n) u k h operation rivals w =
     bind_r (acquire_key u k h w) (\<lambda>(acquired, w1).
     if acquired then
       bind_r (operation w1) (\<lambda>(stored, w2).
       bind_r (store_response u k stored w2) (\<lambda>w3.
       Inr (stored\<lparr>sr_headers := with_replayed ''false'' (sr_headers stored)\<rparr>, w3)))
     else
       (let w1' = w1\<lparr>idem_keys := rivals (2 * n + 1) (idem_keys w1)\<rparr> in
        case filter (idem_row u k) (idem_keys w1') of
          [] \<Rightarrow> acquire_or_replay n u k h operation rivals (w1'\<lparr>idem_keys := rivals (2 * n) (idem_keys w1')\<rparr>)
        | [r] \<Rightarrow>
            (let (at, w2) = clock_timestamp w1' in
             if k_expires_at r \<le> at
             then acquire_or_replay n u k h operation rivals
                    (w2\<lparr>idem_keys := filter (\<lambda>x. \<not> idem_row u k x) (idem_keys w2)\<rparr>)
             else bind_r (replay_row h r) (\<lambda>st. Inr (st, w2)))
        | _ \<Rightarrow> Inl MultipleResultsFound))"

definition execute_create ::
  "(string \<Rightarrow> string) \<Rightarrow> scope \<Rightarrow> uuid \<Rightarrow> string \<Rightarrow> string \<Rightarrow> pyval \<Rightarrow> operation \<Rightarrow>
   (nat \<Rightarrow> idem_key list \<Rightarrow> idem_key list) \<Rightarrow> operation" where
  "execute_create sha256_hex sc key meth path body operation rivals w =
     (case principal_id sc of
        None \<Rightarrow> Inl RuntimeError
      | Some u \<Rightarrow>
          bind_r (compute_request_hash sha256_hex meth path body) (\<lambda>h.
          acquire_or_replay 5 u key h operation rivals w))"

section \<open>The canonical text determines the request\<close>

text \<open>What may follow a value: the end, or a character that is not a digit.\<close>

definition ends :: "string \<Rightarrow> bool" where
  "ends x = (x = [] \<or> \<not> is_digit (hd x))"

lemma ends_simps [simp]: "ends []" "ends (c # x) \<longleftrightarrow> \<not> is_digit c"
  by (simp_all add: ends_def)

definition delimiter :: "char \<Rightarrow> bool" where
  "delimiter c = (c \<in> {CHR '','', CHR '']'', CHR ''}''})"

lemma delimiter_not_digit: "delimiter c \<Longrightarrow> \<not> is_digit c"
  by (auto simp: delimiter_def is_digit_def code_def)

definition unesc :: "string \<Rightarrow> (char \<times> string) option" where
  "unesc s =
     (case s of
        c # x \<Rightarrow>
          if c \<noteq> CHR 92 then Some (c, x)
          else (case x of
              d # y \<Rightarrow>
                if d = CHR 34 \<or> d = CHR 92 then Some (d, y)
                else if d = CHR ''n'' then Some (char_of (10::nat), y)
                else if d = CHR ''r'' then Some (char_of (13::nat), y)
                else if d = CHR ''t'' then Some (char_of (9::nat), y)
                else if d = CHR ''f'' then Some (char_of (12::nat), y)
                else if d = CHR ''b'' then Some (char_of (8::nat), y)
                else (case (hexval (y ! 2), hexval (y ! 3)) of
                    (Some a, Some b) \<Rightarrow> Some (char_of (a * 16 + b), drop 4 y)
                  | _ \<Rightarrow> None)
            | [] \<Rightarrow> None)
      | [] \<Rightarrow> None)"

lemma char_of_code: "code c = n \<Longrightarrow> char_of n = c"
  by (auto simp: code_def)

lemma code_less: "code c < 256"
  using of_char_mod_256 [of c, where 'a = nat] by (metis code_def mod_less_divisor zero_less_numeral)

lemma unesc_esc: "unesc (esc_char c @ x) = Some (c, x)"
proof -
  have h: "hexval (hexdigit (code c div 16)) = Some (code c div 16)" "hexval (hexdigit (code c mod 16)) = Some (code c mod 16)"
    using code_less [of c] by (auto intro: hexval_hexdigit)
  have "char_of (code c div 16 * 16 + code c mod 16) = c" by (simp add: char_of_code)
  with h show ?thesis by (auto simp: unesc_def esc_char_def char_of_code)
qed

lemma esc_char_head: "esc_char c @ x \<noteq> CHR 34 # y"
  by (auto simp: esc_char_def)

lemma esc_prefix: "esc s @ CHR 34 # x = esc t @ CHR 34 # y \<Longrightarrow> s = t \<and> x = y"
proof (induction s arbitrary: t)
  case Nil
  then show ?case by (cases t) (auto simp: esc_def dest: esc_char_head [THEN notE, OF sym])
next
  case (Cons c s)
  show ?case
  proof (cases t)
    case Nil
    then show ?thesis using Cons.prems esc_char_head by (fastforce simp: esc_def)
  next
    case (Cons d t')
    have "unesc (esc_char c @ esc s @ CHR 34 # x) = unesc (esc_char d @ esc t' @ CHR 34 # y)"
      using Cons.prems Cons by (simp add: esc_def)
    then have "c = d" "esc s @ CHR 34 # x = esc t' @ CHR 34 # y" by (simp_all add: unesc_esc)
    with Cons.IH [of t'] Cons show ?thesis by simp
  qed
qed

lemma quoted_prefix: "quoted s @ x = quoted t @ y \<Longrightarrow> s = t \<and> x = y"
  using esc_prefix [of s x t y] by (simp add: quoted_def)

lemma nat_str_digits: "list_all is_digit (nat_str n)" "nat_str n \<noteq> []"
  using nat_str_canonical [of n] by (auto simp: canonical_def)

lemma nat_str_inj: "nat_str m = nat_str n \<Longrightarrow> m = n"
  using nat_str_canonical [of m] nat_str_canonical [of n] by metis

lemma digits_then:
  assumes "list_all is_digit d" "ends x"
  shows "takeWhile is_digit (d @ x) = d"
  using assms by (induction d) (cases x, auto simp: ends_def)

lemma nat_str_prefix:
  assumes "nat_str m @ x = nat_str n @ y" "ends x" "ends y"
  shows "m = n \<and> x = y"
proof -
  have "takeWhile is_digit (nat_str m @ x) = nat_str m" "takeWhile is_digit (nat_str n @ y) = nat_str n"
    using assms(2,3) nat_str_digits(1) by (simp_all only: digits_then)
  then have "nat_str m = nat_str n" using assms(1) by simp
  then show ?thesis using nat_str_inj assms(1) by auto
qed

lemma nat_str_head: "is_digit (hd (nat_str n))"
  using nat_str_digits [of n] by (cases "nat_str n") auto

lemma hd_nat_str: "hd (nat_str n @ x) = hd (nat_str n)"
  using nat_str_digits(2) by (simp add: hd_append)

lemma minus_not_digit: "\<not> is_digit (CHR ''-'')"
  by (simp add: is_digit_def code_def)

lemma int_str_prefix:
  assumes "int_str m @ x = int_str n @ y" "ends x" "ends y"
  shows "m = n \<and> x = y"
proof -
  have neq: "CHR ''-'' # s \<noteq> nat_str k @ t" "nat_str k @ t \<noteq> CHR ''-'' # s" for s k t
    using nat_str_head [of k] hd_nat_str [of k t] minus_not_digit by (metis list.sel(1))+
  consider "m < 0" "n < 0" | "m < 0" "\<not> n < 0" | "\<not> m < 0" "n < 0" | "\<not> m < 0" "\<not> n < 0" by blast
  then show ?thesis
  proof cases
    case 1
    then have "nat_str (nat (- m)) @ x = nat_str (nat (- n)) @ y" using assms(1) by (simp add: int_str_def)
    from nat_str_prefix [OF this assms(2,3)] 1 show ?thesis by auto
  next
    case 4
    then have "nat_str (nat m) @ x = nat_str (nat n) @ y" using assms(1) by (simp add: int_str_def)
    from nat_str_prefix [OF this assms(2,3)] 4 show ?thesis by auto
  qed (use assms(1) neq in \<open>simp_all add: int_str_def\<close>)
qed

text \<open>The first character of a value is no delimiter and tells its constructor.\<close>

lemma dumps_head: "dumps j \<noteq> []" "\<not> delimiter (hd (dumps j))"
proof -
  have d: "\<not> delimiter c" if "is_digit c" for c
    using that delimiter_not_digit by blast
  have n: "\<not> delimiter (hd (int_str n)) \<and> int_str n \<noteq> []" for n
    using d [OF nat_str_head] nat_str_digits(2) by (simp add: int_str_def delimiter_def)
  show "dumps j \<noteq> []" "\<not> delimiter (hd (dumps j))"
    using n by (cases j; auto simp: quoted_def delimiter_def)+
qed

definition kind_of :: "json \<Rightarrow> nat" where
  "kind_of j = (case j of JNull \<Rightarrow> 0 | JBool b \<Rightarrow> (if b then 1 else 2) | JInt n \<Rightarrow> 3 | JStr s \<Rightarrow> 4
     | JArr js \<Rightarrow> 5 | JObj kvs \<Rightarrow> 6)"

definition head_kind :: "char \<Rightarrow> nat" where
  "head_kind c = (if c = CHR ''n'' then 0 else if c = CHR ''t'' then 1 else if c = CHR ''f'' then 2
     else if c = CHR 34 then 4 else if c = CHR ''['' then 5 else if c = CHR ''{'' then 6 else 3)"

lemma head_kind_dumps: "head_kind (hd (dumps j @ x)) = kind_of j"
proof (cases j)
  case (JInt n)
  have d: "head_kind c = 3" if "is_digit c" for c
    using that by (auto simp: head_kind_def is_digit_def code_def)
  have "head_kind (CHR ''-'') = 3" by (simp add: head_kind_def)
  then show ?thesis
    using JInt d [OF nat_str_head] nat_str_digits(2) by (simp add: int_str_def kind_of_def hd_append)
qed (auto simp: head_kind_def kind_of_def quoted_def)

lemma same_kind: "dumps a @ x = dumps b @ y \<Longrightarrow> kind_of a = kind_of b"
  by (metis head_kind_dumps)

text \<open>Printing lists of elements, closed by a bracket.\<close>

lemma join_prefix:
  assumes elem: "\<And>a b x y. a \<in> set as \<Longrightarrow> P a @ x = P b @ y \<Longrightarrow> ends x \<Longrightarrow> ends y \<Longrightarrow> a = b \<and> x = y"
    and head: "\<And>b. P b \<noteq> []" "\<And>b. \<not> delimiter (hd (P b))"
    and c: "delimiter c" "c \<noteq> CHR '',''"
    and eq: "join_with '','' (map P as) @ c # x = join_with '','' (map P bs) @ c # y"
  shows "as = bs \<and> x = y"
  using elem eq
proof (induction as arbitrary: bs)
  case Nil
  have "P b @ z \<noteq> c # x" for b z using head [of b] c(1) by (metis hd_append2 list.sel(1))
  moreover have "join_with '','' (map P (l # ls)) = P l @ drop (length (P l)) (join_with '','' (map P (l # ls)))" for l ls
    by (cases ls) simp_all
  ultimately have "join_with '','' (map P (l # ls)) @ z \<noteq> c # x" for l ls z by (metis append_assoc)
  then show ?case using Nil.prems(2) by (cases bs) (simp, metis append_Nil list.simps(8) join_with.simps(1))
next
  case (Cons a as)
  define tl :: "'a list \<Rightarrow> string" where
    "tl ls = (if ls = [] then [] else CHR '','' # join_with '','' (map P ls))" for ls
  have split: "join_with '','' (map P (l # ls)) = P l @ tl ls" for l ls
    by (cases ls) (auto simp: tl_def)
  have ends_tl: "ends (tl ls @ c # z)" for ls z
    using delimiter_not_digit c(1) by (auto simp: tl_def delimiter_def is_digit_def code_def)
  have neq: "P a @ z \<noteq> c # x'" for z x' using head [of a] c(1) by (metis hd_append2 list.sel(1))
  show ?case
  proof (cases bs)
    case Nil
    then show ?thesis using Cons.prems(2) neq [of "tl as @ c # x" y] unfolding split by simp
  next
    case (Cons b bs')
    have "P a @ tl as @ c # x = P b @ tl bs' @ c # y"
      using Cons.prems(2) unfolding Cons split by simp
    from Cons.prems(1) [OF _ this ends_tl ends_tl] have ab: "a = b" "tl as @ c # x = tl bs' @ c # y" by simp_all
    have "as = bs' \<and> x = y"
    proof (cases "as = []")
      case True
      then show ?thesis using ab(2) c(2) by (auto simp: tl_def split: if_splits)
    next
      case False
      then have "bs' \<noteq> []" using ab(2) c(2) by (auto simp: tl_def split: if_splits)
      then have "join_with '','' (map P as) @ c # x = join_with '','' (map P bs') @ c # y"
        using ab(2) False by (simp add: tl_def)
      from Cons.IH [OF _ this] Cons.prems(1) show ?thesis by auto
    qed
    with ab(1) Cons show ?thesis by simp
  qed
qed

definition dump_item :: "string \<times> json \<Rightarrow> string" where
  "dump_item kv = (case kv of (k, v) \<Rightarrow> quoted k @ '':'' @ dumps v)"

lemma dump_item_head: "dump_item kv \<noteq> []" "\<not> delimiter (hd (dump_item kv))"
  by (cases kv; simp add: dump_item_def quoted_def delimiter_def)+

lemma dumps_prefix:
  "dumps a @ x = dumps b @ y \<Longrightarrow> ends x \<Longrightarrow> ends y \<Longrightarrow> a = b \<and> x = y"
proof (induction a arbitrary: b x y)
  case JNull
  with same_kind [OF JNull(1)] show ?case by (cases b) (auto simp: kind_of_def split: if_splits)
next
  case (JBool v)
  with same_kind [OF JBool(1)] show ?case by (cases b) (auto simp: kind_of_def split: if_splits)
next
  case (JInt n)
  from same_kind [OF JInt(1)] obtain m where "b = JInt m" by (cases b) (auto simp: kind_of_def split: if_splits)
  with JInt int_str_prefix [of n x m y] show ?case by simp
next
  case (JStr s)
  from same_kind [OF JStr(1)] obtain t where "b = JStr t" by (cases b) (auto simp: kind_of_def split: if_splits)
  with JStr quoted_prefix [of s x t y] show ?case by simp
next
  case (JArr js)
  from same_kind [OF JArr(2)] obtain ks where b: "b = JArr ks" by (cases b) (auto simp: kind_of_def split: if_splits)
  have "join_with '','' (map dumps js) @ CHR '']'' # x = join_with '','' (map dumps ks) @ CHR '']'' # y"
    using JArr(2) b by simp
  from join_prefix [where P = dumps, OF JArr(1) dumps_head _ _ this] b show ?case by (simp add: delimiter_def)
next
  case (JObj kvs)
  from same_kind [OF JObj(2)] obtain ks where b: "b = JObj ks" by (cases b) (auto simp: kind_of_def split: if_splits)
  have "join_with '','' (map dump_item kvs) @ CHR ''}'' # x = join_with '','' (map dump_item ks) @ CHR ''}'' # y"
    using JObj(2) b by (simp add: dump_item_def [abs_def])
  note printed = this
  have item: "p = q \<and> x' = y'"
    if "p \<in> set kvs" "dump_item p @ x' = dump_item q @ y'" "ends x'" "ends y'" for p q x' y'
  proof -
    obtain k v where p: "p = (k, v)" by (cases p)
    obtain l u where q: "q = (l, u)" by (cases q)
    have "quoted k @ CHR '':'' # dumps v @ x' = quoted l @ CHR '':'' # dumps u @ y'"
      using that(2) p q by (simp add: dump_item_def)
    from quoted_prefix [OF this] have "k = l" "dumps v @ x' = dumps u @ y'" by simp_all
    with JObj(1) [OF that(1) _ _ that(3,4), of v u] p q show ?thesis by simp
  qed
  have brace: "delimiter (CHR ''}'')" "CHR ''}'' \<noteq> CHR '',''" by (simp_all add: delimiter_def)
  have "kvs = ks \<and> x = y"
    by (rule join_prefix [where P = dump_item, OF _ dump_item_head brace printed]) (rule item)
  then show ?case using b by simp
qed

lemma dumps_inj: "dumps a = dumps b \<Longrightarrow> a = b"
  using dumps_prefix [of a "[]" b "[]"] by simp

text \<open>
  Two requests hash to the same digest exactly when they agree in method (up to case),
  in path (with every UUID segment in canonical form) and in the normalized body (with sorted
  keys): only a collision of SHA-256 on the two canonical texts could make a key accept
  another request. The parameter sha256\_hex stands for that hash.
\<close>

theorem compute_request_hash_iff:
  assumes "canonical_request m p b = Inr j" "canonical_request m' p' b' = Inr j'"
    and "inj_on sha256_hex {json_dumps j, json_dumps j'}"
  shows "compute_request_hash sha256_hex m p b = compute_request_hash sha256_hex m' p' b' \<longleftrightarrow>
    map upper_char m = map upper_char m' \<and> normalize_path p = normalize_path p' \<and>
    map_sum id sort_keys (normalize_value b) = map_sum id sort_keys (normalize_value b')"
proof -
  obtain v v' where v: "normalize_value b = Inr v" "normalize_value b' = Inr v'"
      "j = JObj [(''body'', v), (''method'', JStr (map upper_char m)), (''path'', JStr (normalize_path p))]"
      "j' = JObj [(''body'', v'), (''method'', JStr (map upper_char m')), (''path'', JStr (normalize_path p'))]"
    using assms(1,2) by (auto simp: canonical_request_def bind_r_Inr)
  have "compute_request_hash sha256_hex m p b = compute_request_hash sha256_hex m' p' b'
      \<longleftrightarrow> sha256_hex (json_dumps j) = sha256_hex (json_dumps j')"
    using assms(1,2) by (simp add: compute_request_hash_def)
  also have "\<dots> \<longleftrightarrow> json_dumps j = json_dumps j'"
    using inj_on_eq_iff [OF assms(3)] by simp
  also have "\<dots> \<longleftrightarrow> sort_keys j = sort_keys j'"
    by (auto simp: json_dumps_def dest: dumps_inj)
  also have "\<dots> \<longleftrightarrow> sort_keys v = sort_keys v' \<and> map upper_char m = map upper_char m' \<and> normalize_path p = normalize_path p'"
    unfolding v(3,4) by (simp add: code_def)
  finally show ?thesis using v(1,2) by auto
qed

lemma ex_canonical:
  "canonical_request ''post'' ''/b'' (VDict [(''x'', VInt 1), (''a'', VStr ''q'')])
     = Inr (JObj [(''body'', JObj [(''x'', JInt 1), (''a'', JStr ''q'')]), (''method'', JStr ''POST''), (''path'', JStr ''/b'')])"
  "canonical_request ''POST'' ''/b'' (VDict [(''a'', VStr ''q''), (''x'', VInt 1)])
     = Inr (JObj [(''body'', JObj [(''a'', JStr ''q''), (''x'', JInt 1)]), (''method'', JStr ''POST''), (''path'', JStr ''/b'')])"
  by code_simp+

theorem compute_request_hash_iff_witness:
  "compute_request_hash id ''post'' ''/b'' (VDict [(''x'', VInt 1), (''a'', VStr ''q'')])
     = compute_request_hash id ''POST'' ''/b'' (VDict [(''a'', VStr ''q''), (''x'', VInt 1)])"
proof -
  have "map upper_char ''post'' = map upper_char ''POST''" by code_simp
  then show ?thesis
    unfolding compute_request_hash_iff [OF ex_canonical inj_on_id]
    by (simp add: code_def)
qed

text \<open>
  The header is required, must not be blank, and names a key exactly when its text is a
  UUID of version 4; the canonical text of such a key reads as the key.
\<close>

theorem parse_idempotency_key_canonical:
  "parse_idempotency_key (Some (uuid_str u)) = (if uuid_version u = Some 4 then Inr u else Inl IdempotencyKeyInvalid)"
proof -
  have ne: "uuid_str u \<noteq> []" by (simp add: uuid_str_def Let_def)
  have "\<not> py_space (CHR ''-'')" by code_simp
  then have "\<forall>c \<in> set (uuid_str u). \<not> py_space c"
    using set_uuid_str [of u] hexchar_table by blast
  then have "py_strip (uuid_str u) = uuid_str u" by (simp add: py_strip_def strip_chars_absent)
  then show ?thesis using ne by (simp add: parse_idempotency_key_def parse_uuid_str)
qed

section \<open>The loop against its specification\<close>

text \<open>
  What one request does, without the loop: the key is fresh (no row, or an expired one that
  is deleted first), or a live row answers it.
\<close>

definition run_fresh :: "uuid \<Rightarrow> uuid \<Rightarrow> string \<Rightarrow> operation \<Rightarrow> operation" where
  "run_fresh u k h operation w =
     (let at = clock w (ticks w);
          row = \<lparr>k_user_id = u, k_key = k, k_request_hash = h, k_response_status = None,
                 k_response_body = None, k_response_headers = None, k_created_at = at,
                 k_expires_at = at + hours 24\<rparr>
      in bind_r (operation (w\<lparr>ticks := Suc (ticks w), idem_keys := idem_keys w @ [row]\<rparr>)) (\<lambda>(stored, w2).
         bind_r (store_response u k stored w2) (\<lambda>w3.
         Inr (stored\<lparr>sr_headers := with_replayed ''false'' (sr_headers stored)\<rparr>, w3))))"

definition idem_spec ::
  "uuid \<Rightarrow> uuid \<Rightarrow> string \<Rightarrow> operation \<Rightarrow> (nat \<Rightarrow> idem_key list \<Rightarrow> idem_key list) \<Rightarrow> operation" where
  "idem_spec u k h operation rivals w =
     (case filter (idem_row u k) (idem_keys w) of
        [] \<Rightarrow> run_fresh u k h operation w
      | r # _ \<Rightarrow>
          (let w' = w\<lparr>ticks := Suc (Suc (ticks w)), idem_keys := rivals 9 (idem_keys w)\<rparr> in
           if k_expires_at r \<le> clock w (Suc (ticks w))
           then run_fresh u k h operation
                  (w'\<lparr>idem_keys := filter (\<lambda>x. \<not> idem_row u k x) (idem_keys w')\<rparr>)
           else bind_r (replay_row h r) (\<lambda>st. Inr (st, w'))))"

definition keys_ok :: "db \<Rightarrow> bool" where
  "keys_ok w = distinct (map (\<lambda>r. (k_user_id r, k_key r)) (idem_keys w))"

lemma keys_ok_rows:
  assumes "distinct (map (\<lambda>r. (k_user_id r, k_key r)) t)"
  shows "length (filter (idem_row u k) t) \<le> 1"
  using assms
proof (induction t)
  case Nil
  then show ?case by simp
next
  case (Cons a t)
  have "filter (idem_row u k) t = []" if "idem_row u k a"
    using Cons.prems that by (auto simp: filter_empty_conv idem_row_def image_iff)
  then show ?case using Cons by auto
qed

lemma acquire_or_replay_fresh:
  assumes "filter (idem_row u k) (idem_keys w) = []" "u \<in> u_id ` set (users w)"
  shows "acquire_or_replay (Suc n) u k h operation rivals w = run_fresh u k h operation w"
proof -
  have "\<not> (\<exists>r \<in> set (idem_keys w). idem_row u k r)" using assms(1) by (simp add: filter_empty_conv)
  then show ?thesis
    using assms(2) by (simp add: acquire_key_def run_fresh_def clock_timestamp_def Let_def)
qed

lemma execute_create_spec:
  assumes "principal_id sc = Some u" "u \<in> u_id ` set (users w)" "keys_ok w"
    and "compute_request_hash sha256_hex meth path body = Inr h"
    and "\<And>n t. filter (idem_row u k) (rivals n t) = filter (idem_row u k) t"
  shows "execute_create sha256_hex sc k meth path body operation rivals w
    = idem_spec u k h operation rivals w"
proof (cases "filter (idem_row u k) (idem_keys w)")
  case Nil
  have "acquire_or_replay 5 u k h operation rivals w = run_fresh u k h operation w"
    using acquire_or_replay_fresh [OF Nil assms(2), of 4] by simp
  then show ?thesis using assms(1,4) Nil by (simp add: execute_create_def idem_spec_def)
next
  case (Cons r rs)
  have rs: "rs = []" using keys_ok_rows [of "idem_keys w" u k] assms(3) Cons by (simp add: keys_ok_def)
  have "r \<in> set (filter (idem_row u k) (idem_keys w))" unfolding Cons by simp
  then have there: "\<exists>r \<in> set (idem_keys w). idem_row u k r" by auto
  let ?w1 = "w\<lparr>ticks := Suc (ticks w), idem_keys := rivals 9 (idem_keys w)\<rparr>"
  let ?w2 = "w\<lparr>ticks := Suc (Suc (ticks w)), idem_keys := filter (\<lambda>x. \<not> idem_row u k x) (rivals 9 (idem_keys w))\<rparr>"
  have row: "filter (idem_row u k) (rivals 9 (idem_keys w)) = [r]" using assms(5) Cons rs by simp
  have acq: "acquire_key u k h w = Inr (False, w\<lparr>ticks := Suc (ticks w)\<rparr>)"
    using there by (simp add: acquire_key_def clock_timestamp_def)
  have swap: "w\<lparr>idem_keys := t, ticks := n\<rparr> = w\<lparr>ticks := n, idem_keys := t\<rparr>" for t n by simp
  have "acquire_or_replay (Suc 3) u k h operation rivals ?w2 = run_fresh u k h operation ?w2"
    using assms(2) by (intro acquire_or_replay_fresh) simp_all
  then have again: "acquire_or_replay 4 u k h operation rivals ?w2 = run_fresh u k h operation ?w2" by simp
  have "acquire_or_replay (Suc 4) u k h operation rivals w =
    (if k_expires_at r \<le> clock w (Suc (ticks w)) then acquire_or_replay 4 u k h operation rivals ?w2
     else bind_r (replay_row h r) (\<lambda>st. Inr (st, ?w1\<lparr>ticks := Suc (Suc (ticks w))\<rparr>)))"
    unfolding acquire_or_replay.simps(2) acq by (simp add: row clock_timestamp_def swap)
  then have "acquire_or_replay 5 u k h operation rivals w =
    (if k_expires_at r \<le> clock w (Suc (ticks w)) then run_fresh u k h operation ?w2
     else bind_r (replay_row h r) (\<lambda>st. Inr (st, ?w1\<lparr>ticks := Suc (Suc (ticks w))\<rparr>)))"
    unfolding again by simp
  then show ?thesis
    using assms(1,4) Cons by (simp add: execute_create_def idem_spec_def Let_def swap)
qed

text \<open>
  The tables rivals can leave, and an acquisition that is lost on all of its n attempts: a
  rival holds the key at each INSERT and has given it up at the SELECT after it (or, on the
  last attempt, the row found has expired, and no attempt is left after its deletion).
\<close>

inductive rival_table :: "(nat \<Rightarrow> idem_key list \<Rightarrow> idem_key list) \<Rightarrow> idem_key list \<Rightarrow> idem_key list \<Rightarrow> bool"
  for rivals t where
  start: "rival_table rivals t t"
| more: "rival_table rivals t t' \<Longrightarrow> rival_table rivals t (rivals n t')"

fun contended :: "uuid \<Rightarrow> uuid \<Rightarrow> (nat \<Rightarrow> idem_key list \<Rightarrow> idem_key list) \<Rightarrow> nat \<Rightarrow> db \<Rightarrow> bool" where
  "contended u k rivals 0 w = True"
| "contended u k rivals (Suc n) w =
     (filter (idem_row u k) (idem_keys w) \<noteq> [] \<and>
      (let t = rivals (2 * n + 1) (idem_keys w) in
       case filter (idem_row u k) t of
         [] \<Rightarrow> contended u k rivals n (w\<lparr>ticks := Suc (ticks w), idem_keys := rivals (2 * n) t\<rparr>)
       | r # _ \<Rightarrow> n = 0 \<and> k_expires_at r \<le> clock w (Suc (ticks w))))"

text \<open>
  How an acquisition that is not lost ends: the operation runs once, on a table that holds no
  row of the key or from which the expired row has just been deleted; or the live row of the
  key answers.
\<close>

definition key_settled ::
  "uuid \<Rightarrow> uuid \<Rightarrow> string \<Rightarrow> operation \<Rightarrow> (idem_key list \<Rightarrow> bool) \<Rightarrow> db \<Rightarrow> (stored_response \<times> db) result \<Rightarrow> bool" where
  "key_settled u k h operation left w out =
     (\<exists>t n. left t \<and>
        (filter (idem_row u k) t = [] \<and> out = run_fresh u k h operation (w\<lparr>ticks := n, idem_keys := t\<rparr>) \<or>
         (\<exists>r. filter (idem_row u k) t = [r] \<and>
            (if k_expires_at r \<le> clock w n
             then out = run_fresh u k h operation
                (w\<lparr>ticks := Suc n, idem_keys := filter (\<lambda>x. \<not> idem_row u k x) t\<rparr>)
             else out = bind_r (replay_row h r) (\<lambda>st. Inr (st, w\<lparr>ticks := Suc n, idem_keys := t\<rparr>))))))"

definition key_table :: "idem_key list \<Rightarrow> bool" where
  "key_table t = distinct (map (\<lambda>r. (k_user_id r, k_key r)) t)"

lemma rival_table_trans:
  "rival_table rivals t t' \<Longrightarrow> rival_table rivals t' s \<Longrightarrow> rival_table rivals t s"
  by (rotate_tac, induction rule: rival_table.induct) (auto intro: rival_table.intros)

lemma key_settled_mono:
  assumes "key_settled u k h operation left (w\<lparr>ticks := m, idem_keys := s\<rparr>) out" "\<And>t. left t \<Longrightarrow> left' t"
  shows "key_settled u k h operation left' w out"
proof -
  have clk: "clock (w\<lparr>ticks := m, idem_keys := s\<rparr>) n = clock w n" for n by simp
  have new: "w\<lparr>ticks := m, idem_keys := s\<rparr>\<lparr>ticks := n, idem_keys := t\<rparr> = w\<lparr>ticks := n, idem_keys := t\<rparr>" for n t by simp
  show ?thesis using assms unfolding key_settled_def clk new by blast
qed

lemma acquisition_settles:
  assumes "u \<in> u_id ` set (users w)" "key_table (idem_keys w)" "\<And>n t. key_table t \<Longrightarrow> key_table (rivals n t)"
  shows "if contended u k rivals n w
    then acquire_or_replay n u k h operation rivals w = Inl IncompleteIdempotencyRecord
    else key_settled u k h operation (rival_table rivals (idem_keys w)) w (acquire_or_replay n u k h operation rivals w)"
  using assms(1,2)
proof (induction n arbitrary: w)
  case 0
  then show ?case by simp
next
  case (Suc n)
  let ?t = "rivals (2 * n + 1) (idem_keys w)" and ?mine = "filter (idem_row u k)"
  let ?left = "rival_table rivals (idem_keys w)"
  have swap: "w\<lparr>idem_keys := t, ticks := m\<rparr> = w\<lparr>ticks := m, idem_keys := t\<rparr>" for t m by simp
  have left: "?left (idem_keys w)" "?left ?t" "?left (rivals (2 * n) ?t)" by (auto intro: rival_table.intros)
  have t: "key_table ?t" "key_table (rivals (2 * n) ?t)" using assms(3) Suc.prems(2) by auto
  show ?case
  proof (cases "?mine (idem_keys w) = []")
    case True
    from acquire_or_replay_fresh [OF this Suc.prems(1), of n]
    have "acquire_or_replay (Suc n) u k h operation rivals w = run_fresh u k h operation (w\<lparr>ticks := ticks w, idem_keys := idem_keys w\<rparr>)"
      by simp
    then have "key_settled u k h operation ?left w (acquire_or_replay (Suc n) u k h operation rivals w)"
      unfolding key_settled_def using True left(1) by blast
    then show ?thesis using True by simp
  next
    case held: False
    then have acq: "acquire_key u k h w = Inr (False, w\<lparr>ticks := Suc (ticks w)\<rparr>)"
      by (auto simp: acquire_key_def clock_timestamp_def filter_empty_conv)
    let ?w1 = "w\<lparr>ticks := Suc (ticks w), idem_keys := ?t\<rparr>"
    consider (gone) "?mine ?t = []" | (row) r where "?mine ?t = [r]"
      using keys_ok_rows [of ?t u k] t(1) unfolding key_table_def by (cases "?mine ?t") auto
    then show ?thesis
    proof cases
      case gone
      let ?w2 = "w\<lparr>ticks := Suc (ticks w), idem_keys := rivals (2 * n) ?t\<rparr>"
      have step: "acquire_or_replay (Suc n) u k h operation rivals w = acquire_or_replay n u k h operation rivals ?w2"
        using acq gone by simp
      have "key_settled u k h operation ?left w out"
        if "key_settled u k h operation (rival_table rivals (idem_keys ?w2)) ?w2 out" for out
        using key_settled_mono [OF that rival_table_trans [OF left(3)]] by simp
      then show ?thesis
        using Suc.IH [of ?w2] Suc.prems(1) t(2) held gone unfolding step by (auto simp: Let_def split: if_splits)
    next
      case row
      let ?w3 = "w\<lparr>ticks := Suc (Suc (ticks w)), idem_keys := filter (\<lambda>x. \<not> idem_row u k x) ?t\<rparr>"
      have step: "acquire_or_replay (Suc n) u k h operation rivals w =
          (if k_expires_at r \<le> clock w (Suc (ticks w)) then acquire_or_replay n u k h operation rivals ?w3
           else bind_r (replay_row h r) (\<lambda>st. Inr (st, ?w1\<lparr>ticks := Suc (Suc (ticks w))\<rparr>)))"
        using acq row by (simp add: clock_timestamp_def swap)
      have fresh: "n \<noteq> 0 \<Longrightarrow> acquire_or_replay n u k h operation rivals ?w3 = run_fresh u k h operation ?w3"
        using Suc.prems(1) acquire_or_replay_fresh [of u k ?w3 "n - 1"] by (cases n) simp_all
      have "key_settled u k h operation ?left w (acquire_or_replay (Suc n) u k h operation rivals w)"
        if "n \<noteq> 0 \<or> \<not> k_expires_at r \<le> clock w (Suc (ticks w))"
        unfolding key_settled_def step using row left(2) that fresh
        by (intro exI [of _ ?t] exI [of _ "Suc (ticks w)"] conjI disjI2 exI [of _ r]) (auto simp: swap)
      then show ?thesis
        using row held unfolding step by (auto simp: Let_def)
    qed
  qed
qed

text \<open>
  C11: whatever other transactions do to the table meanwhile, rows of the same key inserted
  and deleted included, an acquisition settles on one table they left, at one of its five
  attempts: without a row of the key, or with its expired row deleted, the operation runs
  once, on a row made for it; a live row is replayed, or refused on another hash or without a
  stored response. It fails as an incomplete record exactly when all five attempts are lost
  to rivals. If they leave the rows of this key alone, it settles on the table it began with.
\<close>

theorem execute_create_settles:
  assumes "principal_id sc = Some u" "u \<in> u_id ` set (users w)" "keys_ok w"
    and "compute_request_hash sha256_hex meth path body = Inr h"
    and "\<And>n t. key_table t \<Longrightarrow> key_table (rivals n t)"
    and out_def: "out = execute_create sha256_hex sc k meth path body operation rivals w"
  shows "if contended u k rivals 5 w then out = Inl IncompleteIdempotencyRecord
    else key_settled u k h operation (rival_table rivals (idem_keys w)) w out \<and>
      ((\<forall>n t. filter (idem_row u k) (rivals n t) = filter (idem_row u k) t) \<longrightarrow> out = idem_spec u k h operation rivals w)"
proof -
  have "out = acquire_or_replay 5 u k h operation rivals w"
    using assms(1,4) by (simp add: out_def execute_create_def)
  then show ?thesis
    using acquisition_settles [of u w rivals k 5 h operation] assms(2,3,5)
      execute_create_spec [OF assms(1-4), where k = k and rivals = rivals and operation = operation]
    by (simp add: keys_ok_def key_table_def out_def split: if_splits)
qed

text \<open>
  What execute\_create needs of an operation: it leaves the key table alone and answers with
  a status the column admits.
\<close>

locale keyed_operation =
  fixes operation :: operation
  assumes keeps_keys: "operation w = Inr (st, w') \<Longrightarrow> idem_keys w' = idem_keys w"
    and status: "operation w = Inr (st, w') \<Longrightarrow> 200 \<le> sr_status st \<and> sr_status st \<le> 499"
begin

lemma run_fresh_stores:
  assumes "run_fresh u k h operation w = Inr (out, w')" "filter (idem_row u k) (idem_keys w) = []"
  shows "\<exists>st r. filter (idem_row u k) (idem_keys w') = [r] \<and> k_request_hash r = h \<and>
    k_response_status r = Some (sr_status out) \<and> k_response_body r = Some (sr_body out) \<and>
    k_response_headers r = Some (persisted_headers (sr_headers st)) \<and>
    k_expires_at r = clock w (ticks w) + hours 24 \<and>
    out = st\<lparr>sr_headers := with_replayed ''false'' (sr_headers st)\<rparr>"
proof -
  define r0 where "r0 = \<lparr>k_user_id = u, k_key = k, k_request_hash = h, k_response_status = None,
     k_response_body = None, k_response_headers = None, k_created_at = clock w (ticks w),
     k_expires_at = clock w (ticks w) + hours 24\<rparr>"
  let ?w1 = "w\<lparr>ticks := Suc (ticks w), idem_keys := idem_keys w @ [r0]\<rparr>"
  from assms(1) obtain st w2 where run: "operation ?w1 = Inr (st, w2)"
      "store_response u k st w2 = Inr w'" "out = st\<lparr>sr_headers := with_replayed ''false'' (sr_headers st)\<rparr>"
    by (auto simp: run_fresh_def bind_r_Inr r0_def Let_def)
  have "w' = w2\<lparr>idem_keys := update_where (idem_row u k) (answered st) (idem_keys w @ [r0])\<rparr>"
    using run(2) keeps_keys [OF run(1)] by (simp add: store_response_def split: if_splits)
  moreover have "idem_row u k r0" "idem_row u k (answered st r0)"
    by (simp_all add: r0_def idem_row_def answered_def)
  moreover have "update_where (idem_row u k) (answered st) (idem_keys w) = idem_keys w"
    using assms(2) by (intro update_where_none) (auto simp: filter_empty_conv)
  ultimately have "filter (idem_row u k) (idem_keys w') = [answered st r0]"
    using assms(2) by (simp add: update_where_def)
  then show ?thesis
    by (intro exI [of _ st] exI [of _ "answered st r0"]) (simp add: run(3) answered_def r0_def)
qed

text \<open>The response of the first request is what every later one with the key gets.\<close>

lemma replays_first:
  assumes first: "execute_create sha256_hex sc k meth path body operation rivals w = Inr (out, w1)"
    and sc: "principal_id sc = Some u" "u \<in> u_id ` set (users w)" "keys_ok w"
    and hash: "compute_request_hash sha256_hex meth path body = Inr h"
    and quiet: "\<And>n t. filter (idem_row u k) (rivals n t) = filter (idem_row u k) t"
    and new: "filter (idem_row u k) (idem_keys w) = []"
    and later: "filter (idem_row u k) (idem_keys w2) = filter (idem_row u k) (idem_keys w1)"
      "u \<in> u_id ` set (users w2)" "keys_ok w2"
      "\<And>r. r \<in> set (filter (idem_row u k) (idem_keys w2)) \<Longrightarrow> clock w2 (Suc (ticks w2)) < k_expires_at r"
  shows "\<exists>st. out = st\<lparr>sr_headers := with_replayed ''false'' (sr_headers st)\<rparr> \<and>
    execute_create sha256_hex sc k meth path body other_operation rivals w2
    = Inr (\<lparr>sr_status = sr_status out, sr_body = sr_body out,
            sr_headers = with_replayed ''true'' (persisted_headers (sr_headers st))\<rparr>,
           w2\<lparr>ticks := Suc (Suc (ticks w2)), idem_keys := rivals 9 (idem_keys w2)\<rparr>)"
proof -
  have "run_fresh u k h operation w = Inr (out, w1)"
    using first new unfolding execute_create_spec [OF sc hash quiet] by (simp add: idem_spec_def)
  from run_fresh_stores [OF this new] obtain st r where r: "filter (idem_row u k) (idem_keys w1) = [r]"
      "k_request_hash r = h" "k_response_status r = Some (sr_status out)" "k_response_body r = Some (sr_body out)"
      "k_response_headers r = Some (persisted_headers (sr_headers st))"
      "k_expires_at r = clock w (ticks w) + hours 24"
      "out = st\<lparr>sr_headers := with_replayed ''false'' (sr_headers st)\<rparr>"
    by blast
  have "replay_row h r = Inr \<lparr>sr_status = sr_status out, sr_body = sr_body out,
      sr_headers = with_replayed ''true'' (persisted_headers (sr_headers st))\<rparr>"
    using r by (simp add: replay_row_def)
  then have "execute_create sha256_hex sc k meth path body other_operation rivals w2
    = Inr (\<lparr>sr_status = sr_status out, sr_body = sr_body out,
            sr_headers = with_replayed ''true'' (persisted_headers (sr_headers st))\<rparr>,
           w2\<lparr>ticks := Suc (Suc (ticks w2)), idem_keys := rivals 9 (idem_keys w2)\<rparr>)"
    using r(1) later(1) later(4) [of r] unfolding execute_create_spec [OF sc(1) later(2,3) hash quiet]
    by (simp add: idem_spec_def)
  then show ?thesis using r(7) by blast
qed

end

text \<open>A key of user 101, used for another request and live until midnight of the next day.\<close>

definition ex_key_row :: idem_key where
  "ex_key_row = \<lparr>k_user_id = 101, k_key = 7, k_request_hash = ''other'', k_response_status = Some 201,
     k_response_body = Some JNull, k_response_headers = Some [], k_created_at = 0, k_expires_at = hours 24\<rparr>"

lemma ex_none_hash: "compute_request_hash id ''POST'' ''/b'' VNone = Inr ''{\"body\":null,\"method\":\"POST\",\"path\":\"/b\"}''"
  by code_simp

text \<open>A rival that gives the key up after the INSERT and takes it again before the next, every time.\<close>

definition ex_rival :: "nat \<Rightarrow> idem_key list \<Rightarrow> idem_key list" where
  "ex_rival n t = (if odd n then filter (\<lambda>r. \<not> idem_row 101 7 r) t
     else if filter (idem_row 101 7) t = [] then t @ [ex_key_row] else t)"

lemma ex_rival_table: "key_table t \<Longrightarrow> key_table (ex_rival n t)"
  by (auto simp: ex_rival_def key_table_def distinct_map_filter filter_empty_conv idem_row_def ex_key_row_def)

lemma ex_rival_wins: "idem_keys w = [ex_key_row] \<Longrightarrow> contended 101 7 ex_rival n w"
  by (induction n arbitrary: w) (simp_all add: ex_rival_def idem_row_def ex_key_row_def)

theorem execute_create_settles_witness:
  "execute_create id ex_scope 7 ''POST'' ''/b'' VNone (\<lambda>_. Inl SlotConflict) ex_rival (ex_db\<lparr>idem_keys := [ex_key_row]\<rparr>)
     = Inl IncompleteIdempotencyRecord \<and>
   execute_create id ex_scope 7 ''POST'' ''/b'' VNone (\<lambda>_. Inl SlotConflict) (\<lambda>_ t. t) (ex_db\<lparr>idem_keys := [ex_key_row]\<rparr>)
     = Inl IdempotencyKeyMismatch"
proof -
  let ?w = "ex_db\<lparr>idem_keys := [ex_key_row]\<rparr>" and ?hash = "''{\"body\":null,\"method\":\"POST\",\"path\":\"/b\"}''"
  have sc: "principal_id ex_scope = Some 101" by (simp add: ex_scope_def own_scope_def)
  have u: "101 \<in> u_id ` set (users ?w)" by (simp add: ex_db_def ex_user_def)
  have keys: "keys_ok ?w" by (simp add: keys_ok_def)
  have mine: "idem_row 101 7 ex_key_row" by (simp add: idem_row_def ex_key_row_def)
  have "contended 101 7 ex_rival 5 ?w" by (rule ex_rival_wins) simp
  then have lost: "execute_create id ex_scope 7 ''POST'' ''/b'' VNone (\<lambda>_. Inl SlotConflict) ex_rival ?w
      = Inl IncompleteIdempotencyRecord"
    using execute_create_settles [OF sc u keys ex_none_hash ex_rival_table refl, where k = 7] by simp
  have "execute_create id ex_scope 7 ''POST'' ''/b'' VNone (\<lambda>_. Inl SlotConflict) (\<lambda>_ t. t) ?w
      = idem_spec 101 7 ?hash (\<lambda>_. Inl SlotConflict) (\<lambda>_ t. t) ?w"
    using execute_create_settles [OF sc u keys ex_none_hash _ refl, where rivals = "\<lambda>_ t. t" and k = 7] mine
    by (simp add: eval_nat_numeral Let_def ex_key_row_def ex_db_def empty_db_def time_units)
  moreover have "\<not> hours 24 \<le> clock ?w (Suc (ticks ?w))"
    by (simp add: ex_db_def empty_db_def time_units)
  ultimately show ?thesis using lost
    by (simp add: idem_spec_def ex_key_row_def idem_row_def replay_row_def)
qed

end
