(* ===== verification/Envelope.thy ===== *)
theory Envelope
imports Idempotency
begin

text \<open>
  The application around the routes (app/main.py): the error envelope and the exception
  handlers, the request id of the middleware with the check of app/observability/logging.py,
  the catch-all for unknown API paths and the guard of the static fallback. What an
  exception says (exc.message) and what the validator reports are arguments; the file
  system is a parameter.
\<close>

section \<open>The envelope\<close>

definition make_error_response ::
  "int \<Rightarrow> string \<Rightarrow> string \<Rightarrow> json \<Rightarrow> (string \<times> string) list \<Rightarrow> stored_response" where
  "make_error_response status_code err_code message details headers =
     \<lparr>sr_status = status_code,
      sr_body = JObj [(''error'', JObj [(''code'', JStr err_code), (''message'', JStr message), (''details'', details)])],
      sr_headers = headers\<rparr>"

text \<open>One entry of exc.errors(); the rejected input is one of its keys.\<close>

record validation_error =
  ve_loc :: "string list"
  ve_msg :: string
  ve_type :: string
  ve_input :: json

definition sanitized_error :: "validation_error \<Rightarrow> json" where
  "sanitized_error err = JObj
     [(''loc'', JArr (map JStr (ve_loc err))), (''msg'', JStr (ve_msg err)), (''type'', JStr (ve_type err))]"

definition validation_exception_handler :: "validation_error list \<Rightarrow> stored_response" where
  "validation_exception_handler errors =
     make_error_response 422 ''VALIDATION_ERROR'' ''Request validation failed''
       (JObj [(''errors'', JArr (map sanitized_error errors))]) []"

definition rate_limit_handler :: "int \<Rightarrow> stored_response" where
  "rate_limit_handler retry =
     make_error_response 429 ''RATE_LIMITED''
       (''Rate limit exceeded. Retry after '' @ int_str retry @ '' seconds.'')
       (JObj [(''retry_after'', JInt retry)]) [(''Retry-After'', int_str retry)]"

definition internal_error :: stored_response where
  "internal_error = make_error_response 500 ''INTERNAL_ERROR'' ''Internal server error'' (JObj []) []"

definition retryable_unavailable :: "string \<Rightarrow> stored_response" where
  "retryable_unavailable message =
     make_error_response 503 ''RETRYABLE_UNAVAILABLE'' message (JObj []) [(''Retry-After'', ''1'')]"

text \<open>lock_not_available and query_canceled are worth a retry.\<close>

definition dbapi_exception_handler :: "string \<Rightarrow> stored_response" where
  "dbapi_exception_handler sqlstate =
     (if sqlstate \<in> {''55P03'', ''57014''}
      then retryable_unavailable ''Service temporarily unavailable, please retry'' else internal_error)"

text \<open>Status and code of the exceptions whose handler only copies the message.\<close>

definition plain_status :: "exn \<Rightarrow> (int \<times> string) option" where
  "plain_status e =
     (case e of
        AuthRequiredError \<Rightarrow> Some (401, ''AUTH_REQUIRED'')
      | InvalidTokenError \<Rightarrow> Some (401, ''INVALID_TOKEN'')
      | InvalidCredentialsError \<Rightarrow> Some (401, ''INVALID_CREDENTIALS'')
      | ForbiddenError \<Rightarrow> Some (403, ''FORBIDDEN'')
      | InvalidRefreshError \<Rightarrow> Some (401, ''INVALID_REFRESH'')
      | OriginRejectedError \<Rightarrow> Some (403, ''ORIGIN_REJECTED'')
      | InvalidInvitationError \<Rightarrow> Some (422, ''INVALID_INVITATION'')
      | EmailExistsError \<Rightarrow> Some (409, ''EMAIL_EXISTS'')
      | RNotFoundError \<Rightarrow> Some (404, ''NOT_FOUND'')
      | RInvalidWindowError _ \<Rightarrow> Some (422, ''INVALID_WINDOW'')
      | NotFoundError \<Rightarrow> Some (404, ''NOT_FOUND'')
      | InvalidWindowError _ \<Rightarrow> Some (422, ''INVALID_WINDOW'')
      | ObjectNotFoundError \<Rightarrow> Some (404, ''NOT_FOUND'')
      | PreconditionRequiredError \<Rightarrow> Some (428, ''PRECONDITION_REQUIRED'')
      | InvalidIfMatchError \<Rightarrow> Some (422, ''VALIDATION_ERROR'')
      | VersionMismatch \<Rightarrow> Some (412, ''VERSION_MISMATCH'')
      | TooLate \<Rightarrow> Some (409, ''TOO_LATE'')
      | InvalidState \<Rightarrow> Some (409, ''INVALID_STATE'')
      | ResourceInactive \<Rightarrow> Some (409, ''RESOURCE_INACTIVE'')
      | ResourceInUse \<Rightarrow> Some (409, ''RESOURCE_IN_USE'')
      | LastAdminError \<Rightarrow> Some (409, ''LAST_ADMIN'')
      | ConsentRequiredError \<Rightarrow> Some (422, ''CONSENT_REQUIRED'')
      | SlotConflict \<Rightarrow> Some (409, ''SLOT_CONFLICT'')
      | SlotAvailable \<Rightarrow> Some (409, ''SLOT_AVAILABLE'')
      | AlreadyWaitlisted \<Rightarrow> Some (409, ''ALREADY_WAITLISTED'')
      | AlreadyBooked \<Rightarrow> Some (409, ''ALREADY_BOOKED'')
      | WaitlistFull \<Rightarrow> Some (409, ''WAITLIST_FULL'')
      | IdempotencyKeyRequired \<Rightarrow> Some (422, ''IDEMPOTENCY_KEY_REQUIRED'')
      | IdempotencyKeyInvalid \<Rightarrow> Some (422, ''IDEMPOTENCY_KEY_INVALID'')
      | IdempotencyKeyMismatch \<Rightarrow> Some (422, ''IDEMPOTENCY_KEY_MISMATCH'')
      | _ \<Rightarrow> None)"

text \<open>
  The handler chosen for an exception: the class of the exception or the nearest of its
  bases that has one. IntegrityError is a DBAPIError, everything else without a handler
  an Exception.
\<close>

definition exception_handler :: "string \<Rightarrow> validation_error list \<Rightarrow> exn \<Rightarrow> stored_response" where
  "exception_handler message errors e =
     (case plain_status e of
        Some (status, err_code) \<Rightarrow> make_error_response status err_code message (JObj []) []
      | None \<Rightarrow>
         (case e of
            RateLimitExceeded retry \<Rightarrow> rate_limit_handler retry
          | IncompleteIdempotencyRecord \<Rightarrow> retryable_unavailable message
          | RequestValidationError \<Rightarrow> validation_exception_handler errors
          | DBAPIError sqlstate \<Rightarrow> dbapi_exception_handler sqlstate
          | IntegrityError sqlstate _ \<Rightarrow> dbapi_exception_handler sqlstate
          | HTTPException status detail headers \<Rightarrow>
              make_error_response (int status) ''HTTP_ERROR'' detail (JObj []) headers
          | _ \<Rightarrow> internal_error))"

definition answer :: "string \<Rightarrow> validation_error list \<Rightarrow> stored_response result \<Rightarrow> stored_response" where
  "answer message errors r = (case r of Inl e \<Rightarrow> exception_handler message errors e | Inr st \<Rightarrow> st)"

section \<open>The request id\<close>

definition is_valid_uuid :: "string option \<Rightarrow> bool" where
  "is_valid_uuid val =
     (case val of
        None \<Rightarrow> False
      | Some s \<Rightarrow>
          if s = [] \<or> length s \<noteq> 36 then False
          else (case parse_uuid s of None \<Rightarrow> False | Some parsed \<Rightarrow> uuid_str parsed = py_lower s))"

text \<open>str(uuid.UUID(inbound_id)) of an accepted header, or a fresh UUID.\<close>

definition request_id_text :: "string option \<Rightarrow> db \<Rightarrow> string \<times> db" where
  "request_id_text inbound w =
     (if is_valid_uuid inbound
      then (case inbound of
              Some s \<Rightarrow> (case parse_uuid s of Some u \<Rightarrow> (uuid_str u, w) | None \<Rightarrow> ([], w))
            | None \<Rightarrow> ([], w))
      else (let (u, w1) = uuid4 w in (uuid_str u, w1)))"

section \<open>Unknown paths and static files\<close>

definition api_catchall :: stored_response where
  "api_catchall = make_error_response 404 ''NOT_FOUND'' ''Not found'' (JObj []) []"

text \<open>
  The file system as the fallback sees it: the path dist_dir / full_path resolves to, None
  where resolve() raises; whether it is a file; whether it lies below the directory; whether
  index.html is there.
\<close>

record 'p file_system =
  fs_resolve :: "string \<Rightarrow> 'p option"
  fs_is_file :: "'p \<Rightarrow> bool"
  fs_inside :: "'p \<Rightarrow> bool"
  fs_index :: bool

datatype 'p served = ServedFile 'p | ServedIndex | ServedError stored_response

definition traversal :: "string \<Rightarrow> bool" where
  "traversal full_path =
     (let segments = split_on (CHR ''/'') full_path in
      CHR 0x00 \<in> set full_path \<or> ''..'' \<in> set segments
      \<or> (\<exists>seg \<in> set segments. seg \<noteq> [] \<and> prefix ''.'' seg))"

definition has_suffix :: "string \<Rightarrow> string \<Rightarrow> bool" where
  "has_suffix pat s = prefix (rev pat) (rev s)"

definition frontend_fallback :: "'p file_system \<Rightarrow> string \<Rightarrow> 'p served" where
  "frontend_fallback fs full_path =
     (let index = (if fs_index fs then ServedIndex else ServedError api_catchall) in
      if traversal full_path then ServedError api_catchall
      else if full_path = [] then index
      else (case fs_resolve fs full_path of
              None \<Rightarrow> ServedError api_catchall
            | Some p \<Rightarrow>
                if fs_is_file fs p \<and> fs_inside fs p \<and> \<not> has_suffix ''.html'' full_path
                then ServedFile p else index))"

section \<open>What a client sees\<close>

definition error_code :: "stored_response \<Rightarrow> json option" where
  "error_code r = (case json_get (sr_body r) ''error'' of None \<Rightarrow> None | Some e \<Rightarrow> json_get e ''code'')"

lemma make_error_simps [simp]:
  "sr_status (make_error_response st c m d h) = st"
  "sr_headers (make_error_response st c m d h) = h"
  "error_code (make_error_response st c m d h) = Some (JStr c)"
  by (simp_all add: make_error_response_def error_code_def)

lemmas handlers = exception_handler_def plain_status_def validation_exception_handler_def rate_limit_handler_def
  internal_error_def retryable_unavailable_def dbapi_exception_handler_def

lemma sanitized_same_input:
  "map (ve_input_update (\<lambda>_. JNull)) errors = map (ve_input_update (\<lambda>_. JNull)) errors' \<Longrightarrow>
   map sanitized_error errors = map sanitized_error errors'"
proof (induction errors arbitrary: errors')
  case Nil
  then show ?case by simp
next
  case (Cons a as)
  then obtain b bs where bs: "errors' = b # bs" by (cases errors') auto
  have "sanitized_error a = sanitized_error (ve_input_update (\<lambda>_. JNull) a)"
    "sanitized_error b = sanitized_error (ve_input_update (\<lambda>_. JNull) b)"
    by (simp_all add: sanitized_error_def)
  then show ?case using Cons bs by simp
qed

lemma handler_ignores_input:
  assumes "map (ve_input_update (\<lambda>_. JNull)) errors = map (ve_input_update (\<lambda>_. JNull)) errors'"
  shows "exception_handler message errors e = exception_handler message errors' e"
proof -
  have "validation_exception_handler errors = validation_exception_handler errors'"
    using sanitized_same_input [OF assms] by (simp add: validation_exception_handler_def)
  then show ?thesis by (simp add: exception_handler_def cong: option.case_cong exn.case_cong)
qed

text \<open>The published contract: status and code of each exception without an argument.\<close>

definition error_contract :: "(exn \<times> int \<times> string) list" where
  "error_contract =
     [(AuthRequiredError, 401, ''AUTH_REQUIRED''), (InvalidTokenError, 401, ''INVALID_TOKEN''),
      (InvalidCredentialsError, 401, ''INVALID_CREDENTIALS''), (InvalidRefreshError, 401, ''INVALID_REFRESH''),
      (ForbiddenError, 403, ''FORBIDDEN''), (OriginRejectedError, 403, ''ORIGIN_REJECTED''),
      (NotFoundError, 404, ''NOT_FOUND''), (RNotFoundError, 404, ''NOT_FOUND''), (ObjectNotFoundError, 404, ''NOT_FOUND''),
      (EmailExistsError, 409, ''EMAIL_EXISTS''), (TooLate, 409, ''TOO_LATE''), (InvalidState, 409, ''INVALID_STATE''),
      (ResourceInactive, 409, ''RESOURCE_INACTIVE''), (ResourceInUse, 409, ''RESOURCE_IN_USE''),
      (LastAdminError, 409, ''LAST_ADMIN''), (SlotConflict, 409, ''SLOT_CONFLICT''), (SlotAvailable, 409, ''SLOT_AVAILABLE''),
      (AlreadyWaitlisted, 409, ''ALREADY_WAITLISTED''), (AlreadyBooked, 409, ''ALREADY_BOOKED''), (WaitlistFull, 409, ''WAITLIST_FULL''),
      (VersionMismatch, 412, ''VERSION_MISMATCH''),
      (InvalidInvitationError, 422, ''INVALID_INVITATION''), (InvalidIfMatchError, 422, ''VALIDATION_ERROR''),
      (ConsentRequiredError, 422, ''CONSENT_REQUIRED''), (IdempotencyKeyRequired, 422, ''IDEMPOTENCY_KEY_REQUIRED''),
      (IdempotencyKeyInvalid, 422, ''IDEMPOTENCY_KEY_INVALID''), (IdempotencyKeyMismatch, 422, ''IDEMPOTENCY_KEY_MISMATCH''),
      (RequestValidationError, 422, ''VALIDATION_ERROR''),
      (PreconditionRequiredError, 428, ''PRECONDITION_REQUIRED'')]"

definition answered_with :: "stored_response \<Rightarrow> int \<Rightarrow> string \<Rightarrow> (string \<times> string) list \<Rightarrow> bool" where
  "answered_with r status err_code headers =
     (sr_status r = status \<and> error_code r = Some (JStr err_code) \<and> sr_headers r = headers)"

lemma make_error_response_answers [simp]:
  "answered_with (make_error_response st c m d hs) st c hs"
  by (simp add: answered_with_def)

lemma handler_answers:
  "answered_with (rate_limit_handler n) 429 ''RATE_LIMITED'' [(''Retry-After'', int_str n)]"
  "answered_with (retryable_unavailable m) 503 ''RETRYABLE_UNAVAILABLE'' [(''Retry-After'', ''1'')]"
  "answered_with (validation_exception_handler errs) 422 ''VALIDATION_ERROR'' []"
  by (simp_all add: rate_limit_handler_def retryable_unavailable_def validation_exception_handler_def)



text \<open>
  What the fallback serves is a file below the directory, not a page of HTML, under a
  path that has no dot segment; everything else is index.html or the 404 envelope.
\<close>

theorem frontend_fallback_contained:
  assumes "frontend_fallback fs full_path = ServedFile p"
  shows "fs_resolve fs full_path = Some p \<and> fs_is_file fs p \<and> fs_inside fs p
    \<and> \<not> has_suffix ''.html'' full_path \<and> CHR 0x00 \<notin> set full_path
    \<and> (\<forall>seg \<in> set (split_on (CHR ''/'') full_path). seg = [] \<or> \<not> prefix ''.'' seg)"
  using assms
  by (auto simp: frontend_fallback_def Let_def traversal_def split: if_splits option.splits)

text \<open>A directory with one asset; everything else resolves outside of it.\<close>

definition ex_files :: "string file_system" where
  "ex_files = \<lparr>fs_resolve = (\<lambda>s. if s = ''a.js'' then Some ''/dist/a.js'' else Some ''/etc''),
     fs_is_file = (\<lambda>_. True), fs_inside = (\<lambda>p. p = ''/dist/a.js''), fs_index = True\<rparr>"

lemma ex_served: "frontend_fallback ex_files ''a.js'' = ServedFile ''/dist/a.js''"
  by code_simp

theorem frontend_fallback_contained_witness:
  "fs_inside ex_files ''/dist/a.js'' \<and> CHR 0x00 \<notin> set ''a.js''"
  using frontend_fallback_contained [OF ex_served] by simp

text \<open>
  C36: the request id of a request is always the canonical text of a UUID, which reads back
  as that UUID: the one the client sent, in lower case, when its header is such a text, and
  a fresh one otherwise.
\<close>

theorem request_id_canonical:
  "\<exists>u. fst (request_id_text inbound w) = uuid_str u \<and> parse_uuid (fst (request_id_text inbound w)) = Some u
     \<and> (if is_valid_uuid inbound then uuid_str u = py_lower (the inbound) \<and> snd (request_id_text inbound w) = w
        else u = uuid_src w (drawn w))"
proof (cases "is_valid_uuid inbound")
  case True
  then obtain s u where s: "inbound = Some s" "parse_uuid s = Some u" "uuid_str u = py_lower s"
    by (auto simp: is_valid_uuid_def split: option.splits if_splits)
  have "request_id_text inbound w = (uuid_str u, w)" using True s by (simp add: request_id_text_def)
  moreover have "parse_uuid (uuid_str u) = Some u" by (rule parse_uuid_str)
  ultimately show ?thesis using True s by (intro exI [of _ u]) simp
next
  case False
  then show ?thesis by (simp add: request_id_text_def uuid4_def parse_uuid_str)
qed

end
