(* ===== verification/Waitlist.thy ===== *)
theory Waitlist
imports Bookings
begin

text \<open>
  The waitlist service (app/waitlist/service.py) beside promotion: joining the queue of a
  taken window, reading one's own entries, accepting an offer and withdrawing or declining.
\<close>

section \<open>What an entry looks like outside\<close>

text \<open>The schema class WaitEntry of app/waitlist/schemas.py.\<close>

record wait_out =
  wo_id :: uuid
  wo_user_id :: uuid
  wo_resource_id :: uuid
  wo_starts_at :: time
  wo_ends_at :: time
  wo_status :: wait_status
  wo_offered_booking_id :: "uuid option"
  wo_version :: int
  wo_created_at :: time
  wo_updated_at :: time

definition wait_view :: "wait_entry \<Rightarrow> wait_out" where
  "wait_view e =
     \<lparr>wo_id = w_id e, wo_user_id = w_user_id e, wo_resource_id = w_resource_id e,
      wo_starts_at = lower (w_range e), wo_ends_at = upper (w_range e), wo_status = w_status e,
      wo_offered_booking_id = w_offered_booking_id e, wo_version = w_version e,
      wo_created_at = w_created_at e, wo_updated_at = w_updated_at e\<rparr>"

definition wait_status_name :: "wait_status \<Rightarrow> string" where
  "wait_status_name s =
     (case s of WWaiting \<Rightarrow> ''waiting'' | WOffered \<Rightarrow> ''offered'' | WAccepted \<Rightarrow> ''accepted''
      | WCancelled \<Rightarrow> ''cancelled'' | WExpired \<Rightarrow> ''expired'')"

definition dump_wait :: "wait_out \<Rightarrow> json" where
  "dump_wait e = JObj
     [(''id'', JStr (uuid_str (wo_id e))),
      (''user_id'', JStr (uuid_str (wo_user_id e))),
      (''resource_id'', JStr (uuid_str (wo_resource_id e))),
      (''starts_at'', JStr (format_rfc3339_utc (wo_starts_at e))),
      (''ends_at'', JStr (format_rfc3339_utc (wo_ends_at e))),
      (''status'', JStr (wait_status_name (wo_status e))),
      (''offered_booking_id'', opt_json (\<lambda>u. JStr (uuid_str u)) (wo_offered_booking_id e)),
      (''version'', JInt (wo_version e)),
      (''created_at'', JStr (format_rfc3339_utc (wo_created_at e))),
      (''updated_at'', JStr (format_rfc3339_utc (wo_updated_at e)))]"

section \<open>Joining\<close>

definition new_entry :: "uuid \<Rightarrow> uuid \<Rightarrow> uuid \<Rightarrow> trange \<Rightarrow> db \<Rightarrow> wait_entry" where
  "new_entry eid p resource_id desired w =
     \<lparr>w_id = eid, w_user_id = p, w_resource_id = resource_id, w_range = desired,
      w_status = WWaiting, w_offered_booking_id = None, w_version = 1,
      w_created_at = tx_now w, w_updated_at = tx_now w\<rparr>"

definition already_waitlisted :: "'a result \<Rightarrow> 'a result" where
  "already_waitlisted m =
     (case m of
        Inl e \<Rightarrow> Inl (if e = IntegrityError ''23505'' ''waitlist_active_unique_idx'' then AlreadyWaitlisted else e)
      | Inr x \<Rightarrow> Inr x)"

definition active_entries :: "uuid \<Rightarrow> db \<Rightarrow> wait_entry list" where
  "active_entries rid w = filter (\<lambda>e. w_resource_id e = rid \<and> active_entry e) (waitlist w)"

text \<open>Steps 3 to 7, once the window is valid and the resource is held and active.\<close>

definition enqueue :: "uuid \<Rightarrow> uuid \<Rightarrow> trange \<Rightarrow> db \<Rightarrow> (wait_out \<times> db) result" where
  "enqueue p resource_id desired w =
     (let overlapping = filter (\<lambda>b. b_resource_id b = resource_id \<and> active_booking b
            \<and> overlaps (b_range b) desired) (bookings w)
      in if overlapping = [] then Inl SlotAvailable
         else if \<exists>b \<in> set overlapping. b_kind b = Reservation \<and> b_user_id b = Some p then Inl AlreadyBooked
         else bind_r (scalar_one_or_none (map w_id (filter
                (\<lambda>e. w_user_id e = p \<and> w_resource_id e = resource_id \<and> w_range e = desired
                   \<and> active_entry e) (waitlist w)))) (\<lambda>existing.
         if existing \<noteq> None then Inl AlreadyWaitlisted
         else if length (active_entries resource_id w) \<ge> 500 then Inl WaitlistFull
         else (let (eid, w1) = uuid4 w; e = new_entry eid p resource_id desired w1
               in bind_r (already_waitlisted (insert_entry e w1)) (\<lambda>w2. Inr (wait_view e, w2)))))"

definition join_waitlist ::
  "scope \<Rightarrow> uuid \<Rightarrow> datetime \<Rightarrow> datetime \<Rightarrow> time \<Rightarrow> db \<Rightarrow> (wait_out \<times> db) result" where
  "join_waitlist sc resource_id starts_at ends_at now w =
     (case principal_id sc of
        None \<Rightarrow> Inl RuntimeError
      | Some p \<Rightarrow>
          bind_r (validate_booking_window starts_at ends_at (utc_datetime now)) (\<lambda>(s, e).
          bind_r (scalar_one_or_none (filter (\<lambda>r. r_id r = resource_id) (resources w))) (\<lambda>row.
          case row of
            None \<Rightarrow> Inl NotFoundError
          | Some r \<Rightarrow>
              if \<not> r_active r then Inl ResourceInactive
              else enqueue p resource_id \<lparr>lower = s, upper = e\<rparr> w)))"

section \<open>Reading\<close>

definition newest_entry :: "wait_entry \<Rightarrow> int \<times> uuid" where
  "newest_entry e = (- w_created_at e, w_id e)"

definition list_own_waitlist ::
  "scope \<Rightarrow> nat \<Rightarrow> nat \<Rightarrow> wait_status option \<Rightarrow> db \<Rightarrow> wait_out listing result" where
  "list_own_waitlist sc limit offset status w =
     (case waitlist_preds sc of
        None \<Rightarrow> Inl RuntimeError
      | Some [] \<Rightarrow> Inl RuntimeError
      | Some ps \<Rightarrow> Inr (list_page
          (\<lambda>e. conj_preds ps e \<and> (case status of None \<Rightarrow> True | Some s \<Rightarrow> w_status e = s))
          newest_entry wait_view limit offset (waitlist w)))"

text \<open>The entry a mutation addresses, re-read under its lock.\<close>

definition own_entry :: "scope \<Rightarrow> uuid \<Rightarrow> db \<Rightarrow> wait_entry result" where
  "own_entry sc entry_id w =
     (case waitlist_preds sc of
        None \<Rightarrow> Inl RuntimeError
      | Some [] \<Rightarrow> Inl RuntimeError
      | Some ps \<Rightarrow>
          bind_r (scalar_one_or_none (filter (\<lambda>e. w_id e = entry_id \<and> conj_preds ps e) (waitlist w)))
            (\<lambda>row. case row of None \<Rightarrow> Inl NotFoundError | Some e \<Rightarrow> Inr e))"

definition booking_by_id :: "uuid \<Rightarrow> db \<Rightarrow> booking option result" where
  "booking_by_id i w = scalar_one_or_none (filter (\<lambda>b. b_id b = i) (bookings w))"

section \<open>Accepting\<close>

definition hold_expired_response :: stored_response where
  "hold_expired_response =
     \<lparr>sr_status = 409,
      sr_body = JObj [(''error'', JObj
        [(''code'', JStr ''HOLD_EXPIRED''),
         (''message'', JStr ''The offer for this booking has expired''),
         (''details'', JObj [])])],
      sr_headers = []\<rparr>"

definition confirmed_response :: "booking \<Rightarrow> stored_response" where
  "confirmed_response b =
     \<lparr>sr_status = 200, sr_body = dump_booking (booking_view b),
      sr_headers = [(''ETag'', etag (b_version b))]\<rparr>"

text \<open>The two outcomes of an acceptance, before and from the deadline on.\<close>

definition lapse :: "uuid \<Rightarrow> wait_entry \<Rightarrow> booking \<Rightarrow> time \<Rightarrow> db \<Rightarrow> (stored_response \<times> db) result" where
  "lapse resource_id e b db_now w =
     bind_r (expire_hold (Some e) b db_now w) (\<lambda>w1.
     bind_r (promote_waiters resource_id w1) (\<lambda>(_, w2).
     Inr (hold_expired_response, w2)))"

definition take_up :: "wait_entry \<Rightarrow> booking \<Rightarrow> time \<Rightarrow> db \<Rightarrow> (stored_response \<times> db) result" where
  "take_up e b db_now w =
     bind_r (guarded_booking b (restatus BConfirmed db_now) w) (\<lambda>w1.
     bind_r (refresh_booking (b_id b) w1) (\<lambda>b'.
     bind_r (guarded_entry e (entry_restatus WAccepted db_now) w1) (\<lambda>w2.
     bind_r (append_event EBookingConfirmed b' (Some db_now) w2) (\<lambda>(_, w3).
     Inr (confirmed_response b', w3)))))"

definition accept_offer ::
  "scope \<Rightarrow> uuid \<Rightarrow> int \<Rightarrow> db \<Rightarrow> (stored_response \<times> db) result" where
  "accept_offer sc entry_id pinned w =
     (case scope_resource_id sc of
        None \<Rightarrow> Inl RuntimeError
      | Some resource_id \<Rightarrow>
          bind_r (own_entry sc entry_id w) (\<lambda>e.
          if w_version e \<noteq> pinned then Inl VersionMismatch
          else if w_status e \<noteq> WOffered then Inl InvalidState
          else (case w_offered_booking_id e of
                  None \<Rightarrow> Inl InvalidState
                | Some bid \<Rightarrow>
                    bind_r (booking_by_id bid w) (\<lambda>row.
                    case row of
                      None \<Rightarrow> Inl InvalidState
                    | Some b \<Rightarrow>
                        if b_status b \<noteq> BOffered then Inl InvalidState
                        else (let (db_now, w1) = clock_timestamp w in
                              if (case b_expires_at b of None \<Rightarrow> False | Some d \<Rightarrow> d \<le> db_now)
                              then lapse resource_id e b db_now w1
                              else take_up e b db_now w1)))))"

section \<open>Withdrawing and declining\<close>

text \<open>The booking of a declined offer is cancelled if it is still offered; no event is appended.\<close>

definition release_booking :: "uuid option \<Rightarrow> time \<Rightarrow> db \<Rightarrow> db result" where
  "release_booking bid db_now w =
     (case bid of
        None \<Rightarrow> Inr w
      | Some i \<Rightarrow>
          bind_r (booking_by_id i w) (\<lambda>row.
          case row of
            None \<Rightarrow> Inr w
          | Some b \<Rightarrow>
              if b_status b = BOffered then guarded_booking b (restatus BCancelled db_now) w else Inr w))"

definition refresh_entry :: "uuid \<Rightarrow> db \<Rightarrow> wait_entry result" where
  "refresh_entry i w =
     (case find (\<lambda>e. w_id e = i) (waitlist w) of None \<Rightarrow> Inl InvalidRequestError | Some e \<Rightarrow> Inr e)"

definition decline_entry ::
  "scope \<Rightarrow> uuid \<Rightarrow> int \<Rightarrow> db \<Rightarrow> (wait_out \<times> db) result" where
  "decline_entry sc entry_id pinned w =
     (case scope_resource_id sc of
        None \<Rightarrow> Inl RuntimeError
      | Some resource_id \<Rightarrow>
          bind_r (own_entry sc entry_id w) (\<lambda>e.
          if w_version e \<noteq> pinned then Inl VersionMismatch
          else if w_status e = WCancelled then Inr (wait_view e, w)
          else if w_status e \<notin> {WWaiting, WOffered} then Inl InvalidState
          else (let (db_now, w1) = clock_timestamp w in
                if db_now \<ge> lower (w_range e) then Inl TooLate
                else if w_status e = WWaiting then
                  bind_r (guarded_entry e (entry_restatus WCancelled db_now) w1) (\<lambda>w2.
                  bind_r (refresh_entry (w_id e) w2) (\<lambda>e'. Inr (wait_view e', w2)))
                else
                  bind_r (release_booking (w_offered_booking_id e) db_now w1) (\<lambda>w2.
                  bind_r (guarded_entry e (entry_restatus WCancelled db_now) w2) (\<lambda>w3.
                  bind_r (refresh_entry (w_id e) w3) (\<lambda>e'.
                  bind_r (promote_waiters resource_id w3) (\<lambda>(_, w4).
                  Inr (wait_view e', w4))))))))"

section \<open>Steps on a well-formed database\<close>

lemma wait_view_simps [simp]:
  "wo_id (wait_view e) = w_id e" "wo_status (wait_view e) = w_status e"
  "wo_version (wait_view e) = w_version e" "wo_user_id (wait_view e) = w_user_id e"
  by (simp_all add: wait_view_def)

lemma own_entry_Inr:
  assumes "own_entry sc i w = Inr e"
  shows "e \<in> set (waitlist w)" "w_id e = i" "\<exists>ps. waitlist_preds sc = Some ps \<and> conj_preds ps e"
proof -
  obtain ps where ps: "waitlist_preds sc = Some ps"
      "scalar_one_or_none (filter (\<lambda>e. w_id e = i \<and> conj_preds ps e) (waitlist w)) = Inr (Some e)"
    using assms by (auto simp: own_entry_def bind_r_Inr split: option.splits list.splits)
  then have "e \<in> set (filter (\<lambda>e. w_id e = i \<and> conj_preds ps e) (waitlist w))" by (simp add: scalar_Some)
  with ps(1) show "e \<in> set (waitlist w)" "w_id e = i" "\<exists>ps. waitlist_preds sc = Some ps \<and> conj_preds ps e"
    by auto
qed

lemma own_entry_found:
  assumes ok: "db_ok w" and e: "e \<in> set (waitlist w)" "waitlist_preds sc = Some ps" "ps \<noteq> []" "conj_preds ps e"
  shows "own_entry sc (w_id e) w = Inr e"
proof -
  have dist: "distinct (map w_id (waitlist w))" using db_okD(3) [OF ok] by (simp add: entries_ok_def)
  have "filter (\<lambda>x. w_id x = w_id e \<and> conj_preds ps x) (waitlist w) = [e]"
    using filter_key_and_distinct [where P = "conj_preds ps", OF dist e(1) refl e(4)] .
  then show ?thesis using e(2,3) by (cases ps) (simp_all add: own_entry_def)
qed

lemma booking_by_id_found:
  assumes "db_ok w" "b \<in> set (bookings w)"
  shows "booking_by_id (b_id b) w = Inr (Some b)"
proof -
  have "distinct (map b_id (bookings w))" using db_okD(2) [OF assms(1)] by (simp add: bookings_ok_def)
  from filter_key_distinct [OF this assms(2) refl] show ?thesis by (simp add: booking_by_id_def)
qed

lemma refresh_entry_updated:
  assumes "distinct (map w_id t)" "e \<in> set t" "w_id (f e) = w_id e"
    "waitlist w' = update_where (\<lambda>x. w_id x = w_id e) f t"
  shows "refresh_entry (w_id e) w' = Inr (f e)"
proof -
  have "find (\<lambda>x. w_id x = w_id e) (update_where (\<lambda>x. w_id x = w_id e) f t) = Some (f e)"
    using assms(1-3)
  proof (induction t)
    case Nil
    then show ?case by simp
  next
    case (Cons a t)
    show ?case
    proof (cases "w_id a = w_id e")
      case True
      then have "a = e" using Cons.prems by (auto simp: image_iff)
      then show ?thesis using Cons.prems(3) by (simp add: update_where_def)
    next
      case False
      then show ?thesis using Cons by (auto simp: update_where_def)
    qed
  qed
  then show ?thesis using assms(4) by (simp add: refresh_entry_def)
qed

text \<open>A new waiting entry.\<close>

lemma db_ok_entry_added:
  assumes ok: "db_ok w" and e: "w_status e = WWaiting" "insert_entry e w = Inr w'"
  shows "db_ok w'"
proof -
  note parts = db_okD [OF ok]
  have e': "entry_check e = None" "w_id e \<notin> w_id ` set (waitlist w)" "entry_fks w e"
    "\<forall>d \<in> set (waitlist w). \<not> same_active_entry d e \<and> \<not> same_offer d e"
    "w' = w\<lparr>waitlist := waitlist w @ [e]\<rparr>"
    using e(2) by (simp_all add: insert_entry_Inr)
  have "entries_ok w'" using parts(3) e' by (auto simp: entries_ok_def entries_unique_snoc)
  moreover have "offers_linked w'" using parts(5) e(1) e'(5) by (auto simp: offers_linked_def)
  ultimately show ?thesis using parts e'(5) by (simp add: db_ok_def)
qed

lemma enqueue_keeps:
  assumes ok: "db_ok w" and run: "enqueue p rid r w = Inr (out, w')"
  shows "db_ok w'"
proof -
  have "db_ok (w\<lparr>drawn := Suc (drawn w)\<rparr>)" using ok by simp
  then show ?thesis
    using run db_ok_entry_added [of "w\<lparr>drawn := Suc (drawn w)\<rparr>" "new_entry (uuid_src w (drawn w)) p rid r (w\<lparr>drawn := Suc (drawn w)\<rparr>)" w']
    unfolding enqueue_def already_waitlisted_def
    by (auto simp: bind_r_Inr uuid4_def Let_def new_entry_def split: if_splits sum.splits)
qed

lemma join_enqueues:
  "join_waitlist sc rid s e now w = Inr (out, w') \<Longrightarrow> \<exists>p r. enqueue p rid r w = Inr (out, w')"
  by (auto simp: join_waitlist_def bind_r_Inr split: option.splits if_splits)

lemma join_waitlist_keeps:
  assumes "db_ok w" "join_waitlist sc rid s e now w = Inr (out, w')"
  shows "db_ok w'"
proof -
  from join_enqueues [OF assms(2)] obtain p r where "enqueue p rid r w = Inr (out, w')" by blast
  then show ?thesis by (rule enqueue_keeps [OF assms(1)])
qed

text \<open>What an acceptance meets: the entry's booking, still offered, with its deadline.\<close>

lemma accept_meets:
  assumes ok: "db_ok w" and e: "own_entry sc i w = Inr e" "w_version e = v" "w_status e = WOffered"
    and sc: "scope_resource_id sc = Some rid"
  shows "\<exists>b d. b \<in> set (bookings w) \<and> b_status b = BOffered \<and> offer_of e b \<and> b_expires_at b = Some d \<and>
    accept_offer sc i v w = (let t = clock w (ticks w); w1 = w\<lparr>ticks := Suc (ticks w)\<rparr>
      in if d \<le> t then lapse rid e b t w1 else take_up e b t w1)"
proof -
  note o = own_entry_Inr [OF e(1)]
  obtain b where b: "b \<in> set (bookings w)" "b_status b = BOffered" "offer_of e b"
    using offered_entry_booking [OF ok o(1) e(3)] by blast
  then have bid: "w_offered_booking_id e = Some (b_id b)" by (simp add: offer_of_def)
  obtain d where d: "b_expires_at b = Some d"
    using bookings_okD(1) [OF db_okD(2) [OF ok] b(1)] b(2) by (auto simp: booking_check_iff)
  have "accept_offer sc i v w = (let t = clock w (ticks w); w1 = w\<lparr>ticks := Suc (ticks w)\<rparr>
      in if d \<le> t then lapse rid e b t w1 else take_up e b t w1)"
    using sc e bid booking_by_id_found [OF ok b(1)] b(2) d
    by (simp add: accept_offer_def clock_timestamp_def Let_def)
  with b d show ?thesis by blast
qed

lemma take_up_steps:
  fixes t :: time
  assumes ok: "db_ok w" and b: "b \<in> set (bookings w)" "b_status b = BOffered"
    and e: "e \<in> set (waitlist w)" "w_status e = WOffered" "offer_of e b"
  defines "w2 \<equiv> settle_pair b (restatus BConfirmed t) e (entry_restatus WAccepted t) w"
  shows "take_up e b t w
      = bind_r (append_event EBookingConfirmed (restatus BConfirmed t b) (Some t) w2)
          (\<lambda>(_, w3). Inr (confirmed_response (restatus BConfirmed t b), w3))"
    "db_ok w2" "restatus BConfirmed t b \<in> set (bookings w2)" "entry_restatus WAccepted t e \<in> set (waitlist w2)"
    "\<forall>r \<in> set (outbox w2). o_aggregate_id r = b_id (restatus BConfirmed t b)
        \<longrightarrow> o_aggregate_version r < b_version (restatus BConfirmed t b)"
    "ids w2 = ids w"
proof -
  note st = offer_steps [OF ok b e(1,3), of BConfirmed WAccepted]
  note run = settle_pair_runs [OF ok b(1) e, where f = "restatus BConfirmed t" and g = "entry_restatus WAccepted t"]
  have run2: "bind_r (guarded_booking b (restatus BConfirmed t) w) (guarded_entry e (entry_restatus WAccepted t)) = Inr w2"
    unfolding w2_def by (rule run(2)) (use st in auto)
  then obtain w1 where w1: "guarded_booking b (restatus BConfirmed t) w = Inr w1"
      "guarded_entry e (entry_restatus WAccepted t) w1 = Inr w2"
    by (auto simp: bind_r_Inr)
  have "w1 = w\<lparr>bookings := update_where (\<lambda>x. b_id x = b_id b) (restatus BConfirmed t) (bookings w)\<rparr>"
    using guarded_booking_runs [where f = "restatus BConfirmed t", OF db_okD(2) [OF ok] b(1)] w1(1) st by simp
  then have "refresh_booking (b_id b) w1 = Inr (restatus BConfirmed t b)"
    by (intro refresh_updated(1) [where f = "restatus BConfirmed t", OF db_okD(2) [OF ok] b(1)]) simp_all
  with w1 show "take_up e b t w
      = bind_r (append_event EBookingConfirmed (restatus BConfirmed t b) (Some t) w2)
          (\<lambda>(_, w3). Inr (confirmed_response (restatus BConfirmed t b), w3))"
    by (simp add: take_up_def)
  show "db_ok w2" unfolding w2_def by (rule run(3)) (use st in auto)
  show "restatus BConfirmed t b \<in> set (bookings w2)" unfolding w2_def by (rule run(5)) (use st in auto)
  show "entry_restatus WAccepted t e \<in> set (waitlist w2)" unfolding w2_def by (rule run(6)) (use st in auto)
  show "\<forall>r \<in> set (outbox w2). o_aggregate_id r = b_id (restatus BConfirmed t b)
        \<longrightarrow> o_aggregate_version r < b_version (restatus BConfirmed t b)"
    unfolding w2_def by (rule run(7)) (use st in auto)
  show "ids w2 = ids w" unfolding w2_def by (rule settle_pair_ids) simp_all
qed

lemma expire_hold_keeps:
  assumes "db_ok w" "b \<in> set (bookings w)" "b_status b = BOffered"
    "e \<in> set (waitlist w)" "w_status e = WOffered" "offer_of e b" "expire_hold (Some e) b t w = Inr w'"
  shows "db_ok w'"
proof -
  note steps = expire_hold_steps [OF assms(1-6), of t]
  obtain i where "append_event EHoldExpired (restatus BExpired t b) (Some t)
      (settle_pair b (restatus BExpired t) e (entry_restatus WExpired t) w) = Inr (i, w')"
    using assms(7) unfolding steps(1) by (auto simp: bind_r_Inr)
  then show ?thesis by (rule append_event_keeps [OF steps(2,3)])
qed

lemma accept_offer_keeps:
  assumes ok: "db_ok w" and run: "accept_offer sc i v w = Inr (out, w')"
  shows "db_ok w'"
proof -
  obtain rid e where sc: "scope_resource_id sc = Some rid" and e: "own_entry sc i w = Inr e"
      "w_version e = v" "w_status e = WOffered"
    using run by (auto simp: accept_offer_def bind_r_Inr split: option.splits)
  let ?w1 = "w\<lparr>ticks := Suc (ticks w)\<rparr>" and ?t = "clock w (ticks w)"
  from accept_meets [OF ok e sc] obtain b d where b: "b \<in> set (bookings w)" "b_status b = BOffered" "offer_of e b"
    and run': "lapse rid e b ?t ?w1 = Inr (out, w') \<or> take_up e b ?t ?w1 = Inr (out, w')"
    using run by (auto simp: Let_def split: if_splits)
  have ok1: "db_ok ?w1" and b1: "b \<in> set (bookings ?w1)" and e1: "e \<in> set (waitlist ?w1)"
    using ok b(1) own_entry_Inr(1) [OF e(1)] by simp_all
  from run' show ?thesis
  proof
    assume "lapse rid e b ?t ?w1 = Inr (out, w')"
    then obtain w2 got where w2: "expire_hold (Some e) b ?t ?w1 = Inr w2" "promote_waiters rid w2 = Inr (got, w')"
      by (auto simp: lapse_def bind_r_Inr)
    have "db_ok w2" by (rule expire_hold_keeps [OF ok1 b1 b(2) e1 e(3) b(3) w2(1)])
    then show ?thesis using promote_waiters_keeps w2(2) by blast
  next
    assume "take_up e b ?t ?w1 = Inr (out, w')"
    note steps = take_up_steps [OF ok1 b1 b(2) e1 e(3) b(3), of ?t]
    from \<open>take_up e b ?t ?w1 = Inr (out, w')\<close> obtain j where
      "append_event EBookingConfirmed (restatus BConfirmed ?t b) (Some ?t)
        (settle_pair b (restatus BConfirmed ?t) e (entry_restatus WAccepted ?t) ?w1) = Inr (j, w')"
      unfolding steps(1) by (auto simp: bind_r_Inr)
    then show ?thesis by (rule append_event_keeps [OF steps(2,3)])
  qed
qed

lemma waiting_frame:
  "waiting_on rid (w\<lparr>ticks := n\<rparr>) = waiting_on rid w"
  "waiting_on rid (w\<lparr>drawn := n, outbox := os\<rparr>) = waiting_on rid w"
  by (simp_all add: waiting_on_def)

lemma waiting_settle_pair:
  assumes "db_ok w" "e \<in> set (waitlist w)" "w_status e = WOffered" "w_status (g e) \<noteq> WWaiting"
  shows "waiting_on rid (settle_pair b f e g w) = waiting_on rid w"
proof (rule waiting_on_update)
  show "waitlist (settle_pair b f e g w) = update_where (\<lambda>x. w_id x = w_id e) g (waitlist w)"
    by (simp add: settle_pair_def)
  fix x
  assume "x \<in> set (waitlist w)" "w_id x = w_id e"
  then have "x = e"
    using db_okD(3) [OF assms(1)] assms(2) by (auto simp: entries_ok_def intro: distinct_key_eq)
  then show "w_status x \<noteq> WWaiting \<and> w_status (g x) \<noteq> WWaiting" using assms(3,4) by simp
qed

lemma expire_hold_total:
  assumes ok: "db_ok w" and b: "b \<in> set (bookings w)" "b_status b = BOffered"
    and e: "e \<in> set (waitlist w)" "w_status e = WOffered" "offer_of e b"
    and fresh: "fresh_ids (Suc k) w"
  shows "\<exists>w' r. expire_hold (Some e) b t w = Inr w' \<and> db_ok w' \<and> fresh_ids k w' \<and>
    w' = (settle_pair b (restatus BExpired t) e (entry_restatus WExpired t) w)\<lparr>drawn := Suc (drawn w), outbox := outbox w @ [r]\<rparr> \<and>
    o_event_type r = EHoldExpired \<and> o_aggregate_id r = b_id b \<and> o_aggregate_version r = b_version b + 1 \<and>
    waiting_on rid w' = waiting_on rid w"
proof -
  let ?w2 = "settle_pair b (restatus BExpired t) e (entry_restatus WExpired t) w"
  note steps = expire_hold_steps [OF ok b e, of t]
  have "fresh_ids (Suc k) ?w2" using fresh by (rule fresh_ids_same [rotated 3]) (simp_all add: steps(6))
  from append_event_total [OF steps(2,3,5) this, of EHoldExpired "Some t"]
  obtain r where "append_event EHoldExpired (restatus BExpired t b) (Some t) ?w2
        = Inr (uuid_src w (drawn w), ?w2\<lparr>drawn := Suc (drawn w), outbox := outbox w @ [r]\<rparr>)"
      "o_event_type r = EHoldExpired" "o_aggregate_id r = b_id b" "o_aggregate_version r = b_version b + 1"
      "db_ok (?w2\<lparr>drawn := Suc (drawn w), outbox := outbox w @ [r]\<rparr>)"
      "fresh_ids k (?w2\<lparr>drawn := Suc (drawn w), outbox := outbox w @ [r]\<rparr>)"
    by auto
  moreover have "waiting_on rid ?w2 = waiting_on rid w"
    using ok e(1,2) by (rule waiting_settle_pair) simp
  ultimately show ?thesis
    unfolding steps(1)
    by (intro exI [of _ "?w2\<lparr>drawn := Suc (drawn w), outbox := outbox w @ [r]\<rparr>"] exI [of _ r])
      (simp add: waiting_frame)
qed

text \<open>
  C13: accepting an offer at its current version is decided by the deadline alone, on the
  database clock read once both rows are held. Before it, the booking is confirmed, the entry
  accepted and one booking_confirmed event queued. At or after it, the hold expires with one
  hold_expired event, the capacity is handed on so that nobody is left waiting for a free
  window, and the caller is told HOLD_EXPIRED; all of it is committed either way.
\<close>

theorem accept_offer_deadline:
  assumes ok: "db_ok w" and e: "e \<in> set (waitlist w)" "w_status e = WOffered"
    and sc: "scope_resource_id sc = Some rid" "waitlist_preds sc = Some ps" "ps \<noteq> []" "conj_preds ps e"
    and fresh: "fresh_ids (1 + 2 * length (waiting_on rid w)) w"
  defines "t \<equiv> clock w (ticks w)"
  shows "\<exists>b d w'. b \<in> set (bookings w) \<and> offer_of e b \<and> b_expires_at b = Some d \<and> db_ok w' \<and>
    (if t < d then
       accept_offer sc (w_id e) (w_version e) w = Inr (confirmed_response (restatus BConfirmed t b), w') \<and>
       restatus BConfirmed t b \<in> set (bookings w') \<and> entry_restatus WAccepted t e \<in> set (waitlist w') \<and>
       (\<exists>r \<in> set (outbox w'). o_event_type r = EBookingConfirmed \<and> o_aggregate_id r = b_id b \<and>
          o_aggregate_version r = b_version b + 1)
     else
       accept_offer sc (w_id e) (w_version e) w = Inr (hold_expired_response, w') \<and>
       restatus BExpired t b \<in> set (bookings w') \<and> entry_restatus WExpired t e \<in> set (waitlist w') \<and>
       (\<exists>r \<in> set (outbox w'). o_event_type r = EHoldExpired \<and> o_aggregate_id r = b_id b \<and>
          o_aggregate_version r = b_version b + 1) \<and>
       (\<forall>x \<in> set (waiting_on rid w'). \<exists>c \<in> set (bookings w'). blocked_by rid x c))"
proof -
  let ?w1 = "w\<lparr>ticks := Suc (ticks w)\<rparr>" and ?k = "2 * length (waiting_on rid w)"
  from accept_meets [OF ok own_entry_found [OF ok e(1) sc(2-4)] refl e(2) sc(1)]
  obtain b d where b: "b \<in> set (bookings w)" "b_status b = BOffered" "offer_of e b" "b_expires_at b = Some d"
    and run: "accept_offer sc (w_id e) (w_version e) w = (if d \<le> t then lapse rid e b t ?w1 else take_up e b t ?w1)"
    by (auto simp: Let_def t_def)
  have ok1: "db_ok ?w1" and b1: "b \<in> set (bookings ?w1)" and e1: "e \<in> set (waitlist ?w1)"
    using ok b(1) e(1) by simp_all
  have fresh1: "fresh_ids (Suc ?k) ?w1"
    using fresh by (simp add: fresh_ids_def)
  show ?thesis
  proof (cases "t < d")
    case True
    let ?w2 = "settle_pair b (restatus BConfirmed t) e (entry_restatus WAccepted t) ?w1"
    note steps = take_up_steps [OF ok1 b1 b(2) e1 e(2) b(3), of t]
    have "fresh_ids (Suc ?k) ?w2" using fresh1 by (rule fresh_ids_same [rotated 3]) (simp_all add: steps(6))
    from append_event_total [OF steps(2,3,5) this, of EBookingConfirmed "Some t"]
    obtain i r where r: "append_event EBookingConfirmed (restatus BConfirmed t b) (Some t) ?w2
        = Inr (i, ?w2\<lparr>drawn := Suc (drawn ?w2), outbox := outbox ?w2 @ [r]\<rparr>)"
      "o_event_type r = EBookingConfirmed" "o_aggregate_id r = b_id b" "o_aggregate_version r = b_version b + 1"
      "db_ok (?w2\<lparr>drawn := Suc (drawn ?w2), outbox := outbox ?w2 @ [r]\<rparr>)"
      by auto
    then have "accept_offer sc (w_id e) (w_version e) w = Inr (confirmed_response (restatus BConfirmed t b),
        ?w2\<lparr>drawn := Suc (drawn ?w2), outbox := outbox ?w2 @ [r]\<rparr>)"
      using run True steps(1) by simp
    with True b r steps(3,4) show ?thesis
      by (intro exI [of _ b] exI [of _ d] exI [of _ "?w2\<lparr>drawn := Suc (drawn ?w2), outbox := outbox ?w2 @ [r]\<rparr>"])
        simp
  next
    case False
    from expire_hold_total [where t = t and rid = rid, OF ok1 b1 b(2) e1 e(2) b(3) fresh1]
    obtain w2 r where w2: "expire_hold (Some e) b t ?w1 = Inr w2" "db_ok w2" "fresh_ids ?k w2"
        "w2 = (settle_pair b (restatus BExpired t) e (entry_restatus WExpired t) ?w1)
           \<lparr>drawn := Suc (drawn ?w1), outbox := outbox ?w1 @ [r]\<rparr>"
        "o_event_type r = EHoldExpired" "o_aggregate_id r = b_id b" "o_aggregate_version r = b_version b + 1"
        "waiting_on rid w2 = waiting_on rid ?w1"
      by blast
    have fr: "fresh_ids (2 * length (waiting_on rid w2)) w2" using w2(3,8) by (simp add: waiting_frame)
    from promote_waiters_run [OF w2(2) fr] obtain got w3 where w3: "promote_waiters rid w2 = Inr (got, w3)" "db_ok w3"
      by blast
    note steps = expire_hold_steps [OF ok1 b1 b(2) e1 e(2) b(3), of t]
    have in2: "restatus BExpired t b \<in> set (bookings w2)" "entry_restatus WExpired t e \<in> set (waitlist w2)"
      using steps(3,4) by (simp_all add: w2(4))
    have "entry_restatus WExpired t e \<in> set (waitlist w3)"
      using promote_waiters_settled [OF w2(2) w3(1) in2(2)] by simp
    moreover have "prefix (bookings w2) (bookings w3)" "prefix (outbox w2) (outbox w3)"
      using promote_waiters_grows [OF w3(1)] by (simp_all add: grows_def)
    then have "restatus BExpired t b \<in> set (bookings w3)" "r \<in> set (outbox w3)"
      using set_mono_prefix in2(1) w2(4) by fastforce+
    moreover have "accept_offer sc (w_id e) (w_version e) w = Inr (hold_expired_response, w3)"
      using run False w2(1) w3(1) by (simp add: lapse_def)
    moreover have "\<forall>x \<in> set (waiting_on rid w3). \<exists>c \<in> set (bookings w3). blocked_by rid x c"
      by (rule work_conserved [OF w2(2) fr w3(1)])
    ultimately show ?thesis
      using False b w3(2) w2(5-7) by (intro exI [of _ b] exI [of _ d] exI [of _ w3]) auto
  qed
qed

text \<open>An offer of the window of ex\_db to user 102, open until 12:15; it is noon.\<close>

definition ex_offered :: booking where
  "ex_offered = ex_booking\<lparr>b_status := BOffered, b_expires_at := Some (hours 12 + minutes 15)\<rparr>"

definition ex_offered_entry :: wait_entry where
  "ex_offered_entry = (ex_entry 201 102 5)\<lparr>w_status := WOffered, w_offered_booking_id := Some 301, w_version := 2\<rparr>"

definition ex_offer_db :: db where
  "ex_offer_db = ex_booked_db\<lparr>bookings := [ex_offered], waitlist := [ex_offered_entry, ex_entry 202 101 7]\<rparr>"

lemma ex_offer_db_ok: "db_ok ex_offer_db"
  by (simp add: db_ok_def people_ok_def bookings_ok_def entries_ok_def events_ok_def offers_linked_def
      no_overlap_def entries_unique_def outbox_ok_def ex_offer_db_def ex_booked_db_def ex_booking_def ex_db_def
      ex_offered_def ex_offered_entry_def empty_db_def ex_user_def ex_resource_def ex_entry_def
      entry_check_iff booking_check_iff booking_fks_def entry_fks_def offer_fk_ok_def isempty_def
      same_active_entry_def same_offer_def offer_of_def time_units)

lemma ex_offer_draws: "distinct (map (\<lambda>j. of_nat (Suc j) :: uuid) [0..<10]) \<and>
    (\<forall>j \<in> set [0..<10]. (of_nat (Suc j) :: uuid) \<notin> {201, 202, 301})"
  by code_simp

lemma ex_offer_fresh: "fresh_ids 10 ex_offer_db"
proof -
  have "inj_on (\<lambda>j. of_nat (Suc j) :: uuid) (set [0..<10])" using ex_offer_draws by (simp only: distinct_map)
  moreover have "set [0..<10] = {..<10::nat}" by (simp only: set_upt atLeast0LessThan)
  ultimately show ?thesis
    using ex_offer_draws
    by (auto simp: fresh_ids_def ids_def ex_offer_db_def ex_offered_def ex_offered_entry_def ex_booked_db_def
        ex_booking_def ex_db_def empty_db_def ex_entry_def)
qed

definition ex_wait_scope :: scope where
  "ex_wait_scope = (own_scope POwnWaitlist 102)\<lparr>waitlist_preds := Some [\<lambda>e. w_user_id e = 102],
     object_id := Some 201, scope_resource_id := Some 1000, expected_version := Some 2\<rparr>"

lemma ex_wait_scope_simps:
  "scope_resource_id ex_wait_scope = Some 1000" "principal_id ex_wait_scope = Some 102"
  "waitlist_preds ex_wait_scope = Some [\<lambda>e. w_user_id e = 102]" "[\<lambda>e. w_user_id e = 102] \<noteq> []"
  by (simp_all add: ex_wait_scope_def own_scope_def)

lemma ex_offer_entry:
  "ex_offered_entry \<in> set (waitlist ex_offer_db)" "w_status ex_offered_entry = WOffered"
  "conj_preds [\<lambda>e. w_user_id e = 102] ex_offered_entry" "w_id ex_offered_entry = 201"
  "w_version ex_offered_entry = 2" "lower (w_range ex_offered_entry) = hours 14"
  by (simp_all add: ex_offer_db_def ex_offered_entry_def ex_entry_def)

lemma ex_offer_waiting: "length (waiting_on 1000 ex_offer_db) = 1"
  by code_simp

theorem accept_offer_deadline_witness:
  "\<exists>b w'. accept_offer ex_wait_scope 201 2 ex_offer_db = Inr (confirmed_response b, w') \<and> db_ok w' \<and>
     b_id b = 301 \<and> b_status b = BConfirmed"
proof -
  have f: "fresh_ids (1 + 2 * length (waiting_on 1000 ex_offer_db)) ex_offer_db"
    unfolding ex_offer_waiting by (rule fresh_ids_mono [OF ex_offer_fresh]) simp
  from accept_offer_deadline [OF ex_offer_db_ok ex_offer_entry(1,2) ex_wait_scope_simps(1,3,4) ex_offer_entry(3) f]
  obtain b d w' where b: "b \<in> set (bookings ex_offer_db)" "b_expires_at b = Some d" "db_ok w'"
    "clock ex_offer_db (ticks ex_offer_db) < d \<longrightarrow>
       accept_offer ex_wait_scope (w_id ex_offered_entry) (w_version ex_offered_entry) ex_offer_db
       = Inr (confirmed_response (restatus BConfirmed (clock ex_offer_db (ticks ex_offer_db)) b), w')"
    by (auto split: if_splits)
  have "b = ex_offered" using b(1) by (simp add: ex_offer_db_def)
  moreover from this have "clock ex_offer_db (ticks ex_offer_db) < d"
    using b(2) by (simp add: ex_offer_db_def ex_offered_def ex_booked_db_def ex_db_def empty_db_def time_units)
  ultimately show ?thesis
    using b(3,4) unfolding ex_offer_entry(4,5)
    by (intro exI [of _ "restatus BConfirmed (clock ex_offer_db (ticks ex_offer_db)) b"] exI [of _ w'])
      (auto simp: ex_offered_def ex_booking_def)
qed

section \<open>Withdrawing and declining: the outcome\<close>

lemma release_offered:
  assumes ok: "db_ok w" and b: "b \<in> set (bookings w)" "b_status b = BOffered"
  shows "release_booking (Some (b_id b)) t w = guarded_booking b (restatus BCancelled t) w"
  using booking_by_id_found [OF ok b(1)] b(2) by (simp add: release_booking_def)

lemma decline_meets:
  assumes ok: "db_ok w" and e: "own_entry sc i w = Inr e" "w_version e = v"
    and sc: "scope_resource_id sc = Some rid"
  defines "t \<equiv> clock w (ticks w)"
  defines "w1 \<equiv> w\<lparr>ticks := Suc (ticks w)\<rparr>"
  shows "w_status e = WWaiting \<Longrightarrow> t < lower (w_range e) \<Longrightarrow>
      decline_entry sc i v w = Inr (wait_view (entry_restatus WCancelled t e),
        w1\<lparr>waitlist := update_where (\<lambda>x. w_id x = w_id e) (entry_restatus WCancelled t) (waitlist w)\<rparr>)
      \<and> db_ok (w1\<lparr>waitlist := update_where (\<lambda>x. w_id x = w_id e) (entry_restatus WCancelled t) (waitlist w)\<rparr>)"
    and "w_status e = WOffered \<Longrightarrow> t < lower (w_range e) \<Longrightarrow>
      \<exists>b. b \<in> set (bookings w) \<and> b_status b = BOffered \<and> offer_of e b \<and>
        decline_entry sc i v w = bind_r (promote_waiters rid
            (settle_pair b (restatus BCancelled t) e (entry_restatus WCancelled t) w1))
          (\<lambda>(_, w'). Inr (wait_view (entry_restatus WCancelled t e), w')) \<and>
        db_ok (settle_pair b (restatus BCancelled t) e (entry_restatus WCancelled t) w1)"
proof -
  note o = own_entry_Inr [OF e(1)]
  have ok1: "db_ok w1" and e1: "e \<in> set (waitlist w1)" using ok o(1) by (simp_all add: w1_def)
  note parts = db_okD [OF ok1]
  have dist: "distinct (map w_id (waitlist w))" using db_okD(3) [OF ok] by (simp add: entries_ok_def)
  {
    assume st: "w_status e = WWaiting" and time: "t < lower (w_range e)"
    let ?w2 = "w1\<lparr>waitlist := update_where (\<lambda>x. w_id x = w_id e) (entry_restatus WCancelled t) (waitlist w)\<rparr>"
    have step: "entry_step w1 e (entry_restatus WCancelled t e)"
      using entries_okD(1) [OF parts(3) e1] by (intro entry_restatus_step) auto
    have run: "guarded_entry e (entry_restatus WCancelled t) w1 = Inr ?w2"
      using guarded_entry_runs [where f = "entry_restatus WCancelled t", OF parts(3) e1 step] by (simp add: w1_def)
    have only: "x = e" if "x \<in> set (waitlist w1)" "w_id x = w_id e" for x
      using parts(3) e1 that by (auto simp: entries_ok_def intro: distinct_key_eq)
    have "refresh_entry (w_id e) ?w2 = Inr (entry_restatus WCancelled t e)"
      using dist o(1) by (rule refresh_entry_updated [where f = "entry_restatus WCancelled t"]) simp_all
    with run have "decline_entry sc i v w = Inr (wait_view (entry_restatus WCancelled t e), ?w2)"
      using sc e st time by (simp add: decline_entry_def clock_timestamp_def t_def w1_def)
    moreover have "entries_ok ?w2"
      using update_one_entry_runs(2) [where f = "entry_restatus WCancelled t", OF parts(3) e1 step] by (simp add: w1_def)
    moreover have "offers_linked ?w2"
      using offers_linked_other [where f = "entry_restatus WCancelled t", OF parts(5) e1 only] st by (simp add: w1_def)
    ultimately show "decline_entry sc i v w = Inr (wait_view (entry_restatus WCancelled t e), ?w2) \<and> db_ok ?w2"
      using parts by (simp add: db_ok_def)
  }
  {
    assume st: "w_status e = WOffered" and time: "t < lower (w_range e)"
    obtain b where b: "b \<in> set (bookings w)" "b_status b = BOffered" "offer_of e b"
      using offered_entry_booking [OF ok o(1) st] by blast
    have b1: "b \<in> set (bookings w1)" using b(1) by (simp add: w1_def)
    let ?f = "restatus BCancelled t" and ?g = "entry_restatus WCancelled t"
    let ?w2 = "settle_pair b ?f e ?g w1"
    note steps = offer_steps [OF ok1 b1 b(2) e1 b(3), of BCancelled WCancelled]
    note run = settle_pair_runs [OF ok1 b1 e1 st b(3), where f = ?f and g = ?g]
    have run2: "bind_r (guarded_booking b ?f w1) (guarded_entry e ?g) = Inr ?w2"
      by (rule run(2)) (use steps in auto)
    then obtain w3 where w3: "release_booking (w_offered_booking_id e) t w1 = Inr w3" "guarded_entry e ?g w3 = Inr ?w2"
      using release_offered [OF ok1 b1 b(2)] b(3) by (auto simp: bind_r_Inr offer_of_def)
    have "refresh_entry (w_id e) ?w2 = Inr (?g e)"
      using dist o(1) by (rule refresh_entry_updated [where f = ?g]) (simp_all add: settle_pair_def w1_def)
    with w3 have "decline_entry sc i v w = bind_r (promote_waiters rid ?w2) (\<lambda>(_, w'). Inr (wait_view (?g e), w'))"
      using sc e st time by (simp add: decline_entry_def clock_timestamp_def t_def w1_def)
    moreover have "db_ok ?w2" by (rule run(3)) (use steps in auto)
    ultimately show "\<exists>b. b \<in> set (bookings w) \<and> b_status b = BOffered \<and> offer_of e b \<and>
        decline_entry sc i v w = bind_r (promote_waiters rid (settle_pair b ?f e ?g w1))
          (\<lambda>(_, w'). Inr (wait_view (?g e), w')) \<and>
        db_ok (settle_pair b ?f e ?g w1)"
      using b by blast
  }
qed

lemma decline_entry_keeps:
  assumes ok: "db_ok w" and run: "decline_entry sc i v w = Inr (out, w')"
  shows "db_ok w'"
proof -
  obtain rid e where sc: "scope_resource_id sc = Some rid" and e: "own_entry sc i w = Inr e" "w_version e = v"
    and st: "w_status e = WCancelled \<and> w' = w \<or>
      w_status e \<in> {WWaiting, WOffered} \<and> clock w (ticks w) < lower (w_range e)"
    using run by (auto simp: decline_entry_def bind_r_Inr clock_timestamp_def split: option.splits if_splits)
  note meets = decline_meets [OF ok e sc]
  from st consider "w_status e = WCancelled" "w' = w" | "w_status e = WWaiting" "clock w (ticks w) < lower (w_range e)"
    | "w_status e = WOffered" "clock w (ticks w) < lower (w_range e)" by auto
  then show ?thesis
  proof cases
    case 1
    then show ?thesis using ok by simp
  next
    case 2
    from meets(1) [OF this] run show ?thesis by auto
  next
    case 3
    from meets(2) [OF this] obtain b where b: "decline_entry sc i v w = bind_r (promote_waiters rid
        (settle_pair b (restatus BCancelled (clock w (ticks w))) e
          (entry_restatus WCancelled (clock w (ticks w))) (w\<lparr>ticks := Suc (ticks w)\<rparr>)))
        (\<lambda>(_, w'). Inr (wait_view (entry_restatus WCancelled (clock w (ticks w)) e), w'))"
      "db_ok (settle_pair b (restatus BCancelled (clock w (ticks w))) e
          (entry_restatus WCancelled (clock w (ticks w))) (w\<lparr>ticks := Suc (ticks w)\<rparr>))"
      by blast
    from run [unfolded b(1)] promote_waiters_keeps [OF b(2)] show ?thesis by (auto simp: bind_r_Inr)
  qed
qed

text \<open>
  C14: declining an offer before its slot starts cancels the offered booking and the entry
  together and hands the capacity on; withdrawing a waiting entry changes that entry only.
  Neither is refused: on a well-formed database the rows are there to be changed.
\<close>

theorem decline_entry_outcome:
  assumes ok: "db_ok w" and e: "e \<in> set (waitlist w)" "active_entry e"
    and sc: "scope_resource_id sc = Some rid" "waitlist_preds sc = Some ps" "ps \<noteq> []" "conj_preds ps e"
    and time: "clock w (ticks w) < lower (w_range e)"
    and fresh: "fresh_ids (2 * length (waiting_on rid w)) w"
  defines "t \<equiv> clock w (ticks w)"
  shows "\<exists>w'. decline_entry sc (w_id e) (w_version e) w = Inr (wait_view (entry_restatus WCancelled t e), w') \<and>
    db_ok w' \<and> entry_restatus WCancelled t e \<in> set (waitlist w') \<and>
    (w_status e = WWaiting \<longrightarrow> bookings w' = bookings w \<and> outbox w' = outbox w \<and>
       (\<forall>x \<in> set (waitlist w). x \<noteq> e \<longrightarrow> x \<in> set (waitlist w'))) \<and>
    (w_status e = WOffered \<longrightarrow>
       (\<exists>b \<in> set (bookings w). offer_of e b \<and> restatus BCancelled t b \<in> set (bookings w')) \<and>
       (\<forall>x \<in> set (waiting_on rid w'). \<exists>c \<in> set (bookings w'). blocked_by rid x c))"
proof (cases "w_status e = WWaiting")
  case True
  let ?w2 = "w\<lparr>ticks := Suc (ticks w), waitlist := update_where (\<lambda>x. w_id x = w_id e) (entry_restatus WCancelled t) (waitlist w)\<rparr>"
  note found = own_entry_found [OF ok e(1) sc(2-4)]
  from decline_meets(1) [OF ok found refl sc(1) True time]
  have run: "decline_entry sc (w_id e) (w_version e) w = Inr (wait_view (entry_restatus WCancelled t e), ?w2)"
    "db_ok ?w2" by (simp_all add: t_def)
  have "entry_restatus WCancelled t e \<in> set (waitlist ?w2)" using e(1) by (auto simp: set_update_where)
  moreover have "x \<in> set (waitlist ?w2)" if x: "x \<in> set (waitlist w)" "x \<noteq> e" for x
  proof -
    have "w_id x \<noteq> w_id e"
      using db_okD(3) [OF ok] x e(1) by (auto simp: entries_ok_def dest: distinct_key_eq)
    then show ?thesis using x(1) by (simp add: set_update_where)
  qed
  ultimately show ?thesis using run True by (intro exI [of _ ?w2]) simp
next
  case False
  then have st: "w_status e = WOffered" using e(2) by (simp add: active_entry_def)
  let ?w1 = "w\<lparr>ticks := Suc (ticks w)\<rparr>"
  note found = own_entry_found [OF ok e(1) sc(2-4)]
  from decline_meets(2) [OF ok found refl sc(1) st time]
  obtain b where b: "b \<in> set (bookings w)" "b_status b = BOffered" "offer_of e b"
    and run: "decline_entry sc (w_id e) (w_version e) w = bind_r (promote_waiters rid
        (settle_pair b (restatus BCancelled t) e (entry_restatus WCancelled t) ?w1))
        (\<lambda>(_, w'). Inr (wait_view (entry_restatus WCancelled t e), w'))"
    and ok2: "db_ok (settle_pair b (restatus BCancelled t) e (entry_restatus WCancelled t) ?w1)"
    unfolding t_def by blast
  let ?w2 = "settle_pair b (restatus BCancelled t) e (entry_restatus WCancelled t) ?w1"
  have "waiting_on rid ?w2 = waiting_on rid ?w1"
    using ok e(1) st by (intro waiting_settle_pair) simp_all
  moreover have "fresh_ids (2 * length (waiting_on rid w)) ?w2"
    using fresh by (rule fresh_ids_same [rotated 3]) (simp_all add: settle_pair_ids)
  ultimately have fr: "fresh_ids (2 * length (waiting_on rid ?w2)) ?w2" by (simp add: waiting_frame)
  from promote_waiters_run [OF ok2 fr] obtain got w3 where w3: "promote_waiters rid ?w2 = Inr (got, w3)" "db_ok w3"
    by blast
  have in2: "restatus BCancelled t b \<in> set (bookings ?w2)" "entry_restatus WCancelled t e \<in> set (waitlist ?w2)"
    using b(1) e(1) by (auto simp: settle_pair_def set_update_where)
  have "entry_restatus WCancelled t e \<in> set (waitlist w3)"
    using promote_waiters_settled [OF ok2 w3(1) in2(2)] by simp
  moreover have "restatus BCancelled t b \<in> set (bookings w3)"
    using promote_waiters_grows [OF w3(1)] set_mono_prefix in2(1) by (auto simp: grows_def)
  moreover have "\<forall>x \<in> set (waiting_on rid w3). \<exists>c \<in> set (bookings w3). blocked_by rid x c"
    by (rule work_conserved [OF ok2 fr w3(1)])
  ultimately show ?thesis using run w3 b st by (intro exI [of _ w3]) auto
qed

theorem decline_entry_outcome_witness:
  "\<exists>out w'. decline_entry ex_wait_scope 201 2 ex_offer_db = Inr (out, w') \<and> db_ok w' \<and> wo_status out = WCancelled"
proof -
  have f: "fresh_ids (2 * length (waiting_on 1000 ex_offer_db)) ex_offer_db"
    unfolding ex_offer_waiting by (rule fresh_ids_mono [OF ex_offer_fresh]) simp
  have a: "active_entry ex_offered_entry" by (simp add: active_entry_def ex_offer_entry(2))
  have t: "clock ex_offer_db (ticks ex_offer_db) < lower (w_range ex_offered_entry)"
    by (simp add: ex_offer_entry(6) ex_offer_db_def ex_booked_db_def ex_db_def empty_db_def time_units)
  from decline_entry_outcome [OF ex_offer_db_ok ex_offer_entry(1) a ex_wait_scope_simps(1,3,4) ex_offer_entry(3) t f]
  show ?thesis unfolding ex_offer_entry(4,5) by force
qed

section \<open>Joining: the outcome\<close>

text \<open>With a valid window, an existing resource and a caller the scope names.\<close>

lemma join_waitlist_decided:
  assumes ok: "db_ok w" and r: "r \<in> set (resources w)"
    and p: "principal_id sc = Some p" "p \<in> u_id ` set (users w)"
    and win: "validate_booking_window starts ends (utc_datetime now) = Inr (s, e)" "s < e"
    and fresh: "fresh_ids 1 w"
  defines "taken \<equiv> \<lambda>b. b_resource_id b = r_id r \<and> active_booking b \<and> overlaps (b_range b) \<lparr>lower = s, upper = e\<rparr>"
  defines "x \<equiv> new_entry (uuid_src w (drawn w)) p (r_id r) \<lparr>lower = s, upper = e\<rparr> w"
  shows "join_waitlist sc (r_id r) starts ends now w =
    (if \<not> r_active r then Inl ResourceInactive
     else if \<not> (\<exists>b \<in> set (bookings w). taken b) then Inl SlotAvailable
     else if \<exists>b \<in> set (bookings w). taken b \<and> b_kind b = Reservation \<and> b_user_id b = Some p then Inl AlreadyBooked
     else if \<exists>d \<in> set (waitlist w). same_active_entry d x then Inl AlreadyWaitlisted
     else if length (active_entries (r_id r) w) \<ge> 500 then Inl WaitlistFull
     else Inr (wait_view x, w\<lparr>drawn := Suc (drawn w), waitlist := waitlist w @ [x]\<rparr>))"
proof -
  let ?range = "\<lparr>lower = s, upper = e\<rparr>" and ?w1 = "w\<lparr>drawn := Suc (drawn w)\<rparr>"
  let ?mine = "\<lambda>d. w_user_id d = p \<and> w_resource_id d = r_id r \<and> w_range d = ?range \<and> active_entry d"
  have x1: "new_entry (uuid_src w (drawn w)) p (r_id r) ?range ?w1 = x" by (simp add: x_def new_entry_def)
  have mine: "?mine d \<longleftrightarrow> same_active_entry d x" for d
    by (auto simp: same_active_entry_def x_def new_entry_def active_entry_def)
  have ex: "scalar_one_or_none (map w_id (filter ?mine (waitlist w))) = Inr None \<longleftrightarrow>
      \<not> (\<exists>d \<in> set (waitlist w). same_active_entry d x)"
    by (auto simp: scalar_None filter_empty_conv mine)
  have one: "\<exists>got. scalar_one_or_none (map w_id (filter ?mine (waitlist w))) = Inr got"
  proof -
    have uniq: "entries_unique (waitlist w)" using db_okD(3) [OF ok] by (simp add: entries_ok_def)
    have "length (filter ?mine t) \<le> 1" if "entries_unique t" for t
      using that
    proof (induction t)
      case Nil
      then show ?case by simp
    next
      case (Cons a t)
      have "filter ?mine t = []" if "?mine a"
        using Cons.prems that by (auto simp: filter_empty_conv entries_unique_def same_active_entry_def)
      then show ?case using Cons by (auto simp: entries_unique_def)
    qed
    from this [OF uniq] show ?thesis
      by (cases "filter ?mine (waitlist w)") (auto simp: scalar_one_or_none_def)
  qed
  have ins: "insert_entry x ?w1 = Inr (?w1\<lparr>waitlist := waitlist w @ [x]\<rparr>)"
    if "\<not> (\<exists>d \<in> set (waitlist w). same_active_entry d x)"
  proof -
    have "w_id x \<notin> w_id ` set (waitlist w)"
      using fresh_ids_next [OF fresh] by (auto simp: ids_def x_def new_entry_def)
    moreover have "entry_check x = None" using win(2) by (simp add: x_def new_entry_def entry_check_iff isempty_def)
    moreover have "entry_fks ?w1 x" using p(2) r by (auto simp: entry_fks_def x_def new_entry_def offer_fk_ok_def)
    moreover have "\<not> same_offer d x" for d by (auto simp: same_offer_def x_def new_entry_def)
    ultimately show ?thesis using that by (simp add: insert_entry_Inr)
  qed
  have free: "filter (\<lambda>b. b_resource_id b = r_id r \<and> active_booking b \<and> overlaps (b_range b) ?range) (bookings w) = []
      \<longleftrightarrow> \<not> (\<exists>b \<in> set (bookings w). taken b)"
    by (auto simp: filter_empty_conv taken_def)
  have enq: "enqueue p (r_id r) ?range w =
     (if \<not> (\<exists>b \<in> set (bookings w). taken b) then Inl SlotAvailable
     else if \<exists>b \<in> set (bookings w). taken b \<and> b_kind b = Reservation \<and> b_user_id b = Some p then Inl AlreadyBooked
     else if \<exists>d \<in> set (waitlist w). same_active_entry d x then Inl AlreadyWaitlisted
     else if length (active_entries (r_id r) w) \<ge> 500 then Inl WaitlistFull
     else Inr (wait_view x, w\<lparr>drawn := Suc (drawn w), waitlist := waitlist w @ [x]\<rparr>))"
  proof (cases "\<exists>d \<in> set (waitlist w). same_active_entry d x")
    case True
    then obtain got where "scalar_one_or_none (map w_id (filter ?mine (waitlist w))) = Inr got" "got \<noteq> None"
      using one ex by force
    then show ?thesis using True free by (auto simp: enqueue_def taken_def)
  next
    case False
    then have "scalar_one_or_none (map w_id (filter ?mine (waitlist w))) = Inr None" using ex by blast
    then show ?thesis
      using False free ins [OF False] x1
      by (auto simp: enqueue_def taken_def already_waitlisted_def uuid4_def Let_def)
  qed
  show ?thesis
    using p(1) win(1) find_resource [OF ok r] by (simp add: join_waitlist_def enq)
qed

definition ex_at :: "int \<Rightarrow> datetime" where
  "ex_at h = \<lparr>wall = hours h, utcoffset = Some 0\<rparr>"

lemma ex_window: "validate_booking_window (ex_at 14) (ex_at 15) (utc_datetime (hours 12)) = Inr (hours 14, hours 15)"
  by code_simp

text \<open>
  C15: joining is decided by these cases in this order: a scope without a principal
  (RuntimeError); an invalid window, with the refusal of its validation; an unknown resource;
  an archived one; the window is free after all; the caller already holds an overlapping
  reservation; the caller already waits for this exact window; 500 active entries on the
  resource; and otherwise one new waiting entry at the end of the table, with no other change.
\<close>

theorem join_waitlist_outcome:
  assumes ok: "db_ok w" and fresh: "fresh_ids 1 w"
    and known: "\<And>p. principal_id sc = Some p \<Longrightarrow> p \<in> u_id ` set (users w)"
  shows "join_waitlist sc rid starts ends now w =
    (case (principal_id sc, validate_booking_window starts ends (utc_datetime now)) of
       (None, _) \<Rightarrow> Inl RuntimeError
     | (_, Inl refusal) \<Rightarrow> Inl refusal
     | (Some p, Inr (s, e)) \<Rightarrow>
         let taken = (\<lambda>b. b_resource_id b = rid \<and> active_booking b \<and> overlaps (b_range b) \<lparr>lower = s, upper = e\<rparr>);
             x = new_entry (uuid_src w (drawn w)) p rid \<lparr>lower = s, upper = e\<rparr> w
         in if rid \<notin> r_id ` set (resources w) then Inl NotFoundError
            else if \<not> (\<exists>r \<in> set (resources w). r_id r = rid \<and> r_active r) then Inl ResourceInactive
            else if \<not> (\<exists>b \<in> set (bookings w). taken b) then Inl SlotAvailable
            else if \<exists>b \<in> set (bookings w). taken b \<and> b_kind b = Reservation \<and> b_user_id b = Some p then Inl AlreadyBooked
            else if \<exists>d \<in> set (waitlist w). same_active_entry d x then Inl AlreadyWaitlisted
            else if length (active_entries rid w) \<ge> 500 then Inl WaitlistFull
            else Inr (wait_view x, w\<lparr>drawn := Suc (drawn w), waitlist := waitlist w @ [x]\<rparr>))"
proof (cases "principal_id sc")
  case None
  then show ?thesis by (simp add: join_waitlist_def)
next
  case (Some q)
  then have q: "q \<in> u_id ` set (users w)" by (rule known)
  show ?thesis
  proof (cases "validate_booking_window starts ends (utc_datetime now)")
    case (Inl a)
    then show ?thesis using Some by (simp add: join_waitlist_def)
  next
    case (Inr se)
    obtain s e where se: "se = (s, e)" by force
    have "s < e" using booking_window_nonempty [of starts ends "utc_datetime now" s e] Inr se by (simp add: isempty_def)
    show ?thesis
    proof (cases "\<exists>r \<in> set (resources w). r_id r = rid")
      case True
      then obtain r where r: "r \<in> set (resources w)" "r_id r = rid" by blast
      then have there: "rid \<in> r_id ` set (resources w)" by auto
      have "distinct (map r_id (resources w))" using db_okD(1) [OF ok] by (simp add: people_ok_def)
      then have act: "(\<exists>r \<in> set (resources w). r_id r = rid \<and> r_active r) = r_active r"
        using r by (auto dest: distinct_key_eq [of r_id])
      then show ?thesis
        using join_waitlist_decided [OF ok r(1) Some q Inr [unfolded se] \<open>s < e\<close> fresh] there
        unfolding r(2) Some Inr se prod.case option.case sum.case Let_def act by simp
    next
      case False
      then have "filter (\<lambda>r. r_id r = rid) (resources w) = []" by (auto simp: filter_empty_conv)
      then show ?thesis using False Some Inr se by (auto simp: join_waitlist_def scalar_one_or_none_def Let_def)
    qed
  qed
qed

lemma ex_windows:
  "validate_booking_window (ex_at 14) (ex_at 16) (utc_datetime (hours 12)) = Inr (hours 14, hours 16)"
  "isl (validate_booking_window (ex_at 15) (ex_at 15) (utc_datetime (hours 12)))"
  by code_simp+

theorem join_waitlist_outcome_witness:
  "(\<exists>err. join_waitlist ex_scope 77 (ex_at 15) (ex_at 15) (hours 12) ex_booked_db = Inl err) \<and>
   join_waitlist ex_scope 77 (ex_at 14) (ex_at 15) (hours 12) ex_booked_db = Inl NotFoundError \<and>
   join_waitlist ex_scope 1000 (ex_at 14) (ex_at 15) (hours 12) ex_db = Inl SlotAvailable \<and>
   join_waitlist ex_scope 1000 (ex_at 14) (ex_at 15) (hours 12) ex_booked_db = Inl AlreadyWaitlisted \<and>
   (\<exists>x w'. join_waitlist ex_scope 1000 (ex_at 14) (ex_at 16) (hours 12) ex_booked_db = Inr (wait_view x, w') \<and>
      w_range x = \<lparr>lower = hours 14, upper = hours 16\<rparr> \<and> waitlist w' = waitlist ex_booked_db @ [x])"
proof (intro conjI)
  have p: "principal_id ex_scope = Some 101" by (simp add: ex_scope_def own_scope_def)
  have r: "r_id ex_resource = 1000" "r_active ex_resource" by (simp_all add: ex_resource_def)
  have db: "resources ex_db = [ex_resource]" "resources ex_booked_db = [ex_resource]" "bookings ex_db = []"
    by (simp_all add: ex_booked_db_def ex_db_def empty_db_def)
  have u: "principal_id ex_scope = Some q \<Longrightarrow> q \<in> u_id ` set (users ex_db)"
    "principal_id ex_scope = Some q \<Longrightarrow> q \<in> u_id ` set (users ex_booked_db)" for q
    using p by (simp_all add: ex_db_def ex_booked_db_def ex_user_def)
  have f: "fresh_ids 1 ex_db" by (rule fresh_ids_mono [OF ex_db_fresh]) simp
  have f': "fresh_ids 1 ex_booked_db" by (rule fresh_ids_mono [OF ex_booked_fresh]) simp
  have booked: "bookings ex_booked_db = [ex_booking]" "waitlist ex_booked_db = [ex_entry 201 101 5]"
    by (simp_all add: ex_booked_db_def)
  note empty_db = join_waitlist_outcome [OF ex_db_ok f u(1), of ex_scope]
    and booked_db = join_waitlist_outcome [OF ex_booked_db_ok f' u(2), of ex_scope]
  show "join_waitlist ex_scope 1000 (ex_at 14) (ex_at 15) (hours 12) ex_db = Inl SlotAvailable"
    using empty_db [of 1000 "ex_at 14" "ex_at 15" "hours 12"] by (simp add: p ex_window db r Let_def)
  show "\<exists>err. join_waitlist ex_scope 77 (ex_at 15) (ex_at 15) (hours 12) ex_booked_db = Inl err"
    using booked_db [of 77 "ex_at 15" "ex_at 15" "hours 12"] ex_windows(2) by (auto simp: p isl_def)
  show "join_waitlist ex_scope 77 (ex_at 14) (ex_at 15) (hours 12) ex_booked_db = Inl NotFoundError"
    using booked_db [of 77 "ex_at 14" "ex_at 15" "hours 12"] by (simp add: p ex_window db r Let_def)
  show "join_waitlist ex_scope 1000 (ex_at 14) (ex_at 15) (hours 12) ex_booked_db = Inl AlreadyWaitlisted"
    using booked_db [of 1000 "ex_at 14" "ex_at 15" "hours 12", unfolded p ex_window]
    by (simp add: db r booked Let_def ex_booking_def ex_entry_def active_booking_def overlaps_def isempty_def
        same_active_entry_def new_entry_def active_entry_def time_units)
  show "\<exists>x w'. join_waitlist ex_scope 1000 (ex_at 14) (ex_at 16) (hours 12) ex_booked_db = Inr (wait_view x, w') \<and>
      w_range x = \<lparr>lower = hours 14, upper = hours 16\<rparr> \<and> waitlist w' = waitlist ex_booked_db @ [x]"
    using booked_db [of 1000 "ex_at 14" "ex_at 16" "hours 12", unfolded p ex_windows(1)]
    by (intro exI conjI, simp add: db r booked Let_def ex_booking_def ex_entry_def active_booking_def
          overlaps_def isempty_def same_active_entry_def new_entry_def active_entry_def active_entries_def time_units)
       (simp_all add: new_entry_def booked ex_entry_def time_units)
qed

section \<open>The capacity of a queue\<close>

text \<open>At most 500 active entries on every resource.\<close>

definition queues_bounded :: "db \<Rightarrow> bool" where
  "queues_bounded w = (\<forall>rid. length (active_entries rid w) \<le> 500)"

lemma queues_bounded_append:
  assumes "queues_bounded w" "waitlist w' = waitlist w @ [e]"
    and "active_entry e \<Longrightarrow> length (active_entries (w_resource_id e) w) < 500"
  shows "queues_bounded w'"
  unfolding queues_bounded_def
proof
  fix rid
  have "length (active_entries rid w) \<le> 500" using assms(1) by (simp add: queues_bounded_def)
  then show "length (active_entries rid w') \<le> 500"
    using assms(2,3) by (auto simp: active_entries_def)
qed

text \<open>No other operation makes an entry active or moves it to another resource.\<close>

lemma queues_bounded_update:
  assumes "queues_bounded w"
    and "list_all2 (\<lambda>x y. w_resource_id y = w_resource_id x \<and> (active_entry y \<longrightarrow> active_entry x)) (waitlist w) (waitlist w')"
  shows "queues_bounded w'"
  unfolding queues_bounded_def
proof
  fix rid
  have "length (filter (\<lambda>e. w_resource_id e = rid \<and> active_entry e) ys)
      \<le> length (filter (\<lambda>e. w_resource_id e = rid \<and> active_entry e) xs)"
    if "list_all2 (\<lambda>x y. w_resource_id y = w_resource_id x \<and> (active_entry y \<longrightarrow> active_entry x)) xs ys" for xs ys
    using that by (induction rule: list_all2_induct) auto
  then show "length (active_entries rid w') \<le> 500"
    using assms unfolding queues_bounded_def active_entries_def by (meson le_trans)
qed

lemma enqueue_inserts:
  assumes "enqueue p rid r w = Inr (out, w')"
  shows "length (active_entries rid w) < 500"
    "\<exists>x. insert_entry x (w\<lparr>drawn := Suc (drawn w)\<rparr>) = Inr w' \<and> w_resource_id x = rid"
proof -
  from assms have run: "length (active_entries rid w) < 500 \<and>
      already_waitlisted (insert_entry (new_entry (uuid_src w (drawn w)) p rid r (w\<lparr>drawn := Suc (drawn w)\<rparr>))
        (w\<lparr>drawn := Suc (drawn w)\<rparr>)) = Inr w'"
    unfolding enqueue_def by (auto simp: bind_r_Inr uuid4_def Let_def split: if_splits)
  then show "length (active_entries rid w) < 500" by blast
  have "insert_entry (new_entry (uuid_src w (drawn w)) p rid r (w\<lparr>drawn := Suc (drawn w)\<rparr>))
      (w\<lparr>drawn := Suc (drawn w)\<rparr>) = Inr w'"
    using run by (simp add: already_waitlisted_def split: sum.splits)
  then show "\<exists>x. insert_entry x (w\<lparr>drawn := Suc (drawn w)\<rparr>) = Inr w' \<and> w_resource_id x = rid"
    by (intro exI [of _ "new_entry (uuid_src w (drawn w)) p rid r (w\<lparr>drawn := Suc (drawn w)\<rparr>)"])
      (simp add: new_entry_def)
qed

lemma enqueue_bounded:
  assumes "queues_bounded w" "enqueue p rid r w = Inr (out, w')"
  shows "queues_bounded w'"
proof -
  from enqueue_inserts(2) [OF assms(2)] obtain x where
    x: "insert_entry x (w\<lparr>drawn := Suc (drawn w)\<rparr>) = Inr w'" "w_resource_id x = rid" by blast
  show ?thesis
  proof (rule queues_bounded_append [OF assms(1)])
    show "waitlist w' = waitlist w @ [x]" using x(1) by (auto simp: insert_entry_Inr)
    show "length (active_entries (w_resource_id x) w) < 500"
      unfolding x(2) by (rule enqueue_inserts(1) [OF assms(2)])
  qed
qed

lemma join_waitlist_bounded:
  assumes "queues_bounded w" "join_waitlist sc rid s e now w = Inr (out, w')"
  shows "queues_bounded w'"
proof -
  from join_enqueues [OF assms(2)] obtain p r where "enqueue p rid r w = Inr (out, w')" by blast
  then show ?thesis by (rule enqueue_bounded [OF assms(1)])
qed

end
