(* ===== verification/Limits.thy ===== *)
theory Limits
imports Text "HOL-Library.Char_ord" "HOL-Library.List_Lexorder"
begin

text \<open>
  Settings (app/config.py), password and e-mail rules (app/auth/passwords.py) and the rate
  limits (app/auth/rate_limit.py): fixed windows counted in their own short transaction,
  which commits before the request's transaction begins and whether or not the request is
  admitted. HMAC-SHA256, Argon2 and the e-mail validator are parameters.
\<close>

section \<open>Settings\<close>

datatype app_env = EnvLocal | EnvTest | EnvProduction

record settings =
  g_app_env :: app_env
  g_app_origin :: string
  g_jwt_secret :: string
  g_jwt_issuer :: string
  g_jwt_audience :: string
  g_access_token_ttl_seconds :: int
  g_rate_limit_hmac_secret :: string
  g_test_profile :: string
  g_email_enabled :: bool
  g_metrics_token :: string
  g_sentry_dsn :: string
  g_grafana_remote_write_url :: string

text \<open>len(s.encode("utf-8")) of a Latin-1 text.\<close>

definition utf8_length :: "string \<Rightarrow> nat" where
  "utf8_length s = length s + length (filter (\<lambda>c. 128 \<le> code c) s)"

definition short_secret :: "string \<Rightarrow> bool" where
  "short_secret s = (s = [] \<or> utf8_length s < 32)"

definition insecure_url :: "string \<Rightarrow> bool" where
  "insecure_url u = (u \<noteq> [] \<and> \<not> prefix ''https://'' u)"

definition validate_settings :: "settings \<Rightarrow> settings result" where
  "validate_settings g =
     (if g_app_env g = EnvProduction then
        (if g_test_profile g = ''race'' then Inl ValueError
         else if short_secret (g_jwt_secret g) then Inl ValueError
         else if short_secret (g_rate_limit_hmac_secret g) then Inl ValueError
         else if short_secret (g_metrics_token g) then Inl ValueError
         else if g_sentry_dsn g = [] \<or> py_strip (g_sentry_dsn g) = [] then Inl ValueError
         else if insecure_url (g_grafana_remote_write_url g) then Inl ValueError
         else Inr g)
      else
        (if g_jwt_secret g \<noteq> [] \<and> utf8_length (g_jwt_secret g) < 32 then Inl ValueError
         else if g_rate_limit_hmac_secret g \<noteq> [] \<and> utf8_length (g_rate_limit_hmac_secret g) < 32
           then Inl ValueError
         else if g_metrics_token g \<noteq> [] \<and> utf8_length (g_metrics_token g) < 32 then Inl ValueError
         else if insecure_url (g_grafana_remote_write_url g) then Inl ValueError
         else Inr g))"

section \<open>Passwords and e-mail addresses\<close>

definition validate_password_length :: "string \<Rightarrow> string result" where
  "validate_password_length p = (if length p < 12 \<or> length p > 128 then Inl ValueError else Inr p)"

text \<open>argon2 is the hasher with its salt already drawn.\<close>

definition hash_password :: "(string \<Rightarrow> string) \<Rightarrow> string \<Rightarrow> string result" where
  "hash_password argon2 p = bind_r (validate_password_length p) (\<lambda>_. Inr (argon2 p))"

text \<open>
  validator is email_validator.validate_email without deliverability checks: the normalized
  address, or None where it raises EmailNotValidError.
\<close>

definition normalize_email :: "(string \<Rightarrow> string option) \<Rightarrow> string \<Rightarrow> string result" where
  "normalize_email validator email =
     (let cleaned = py_lower (py_strip email) in
      if cleaned = [] \<or> length cleaned > 254 then Inl ValueError
      else (case validator cleaned of
              None \<Rightarrow> Inl ValueError
            | Some n \<Rightarrow> if length (py_lower n) > 254 then Inl ValueError else Inr (py_lower n)))"

section \<open>Buckets\<close>

definition hash_identity :: "(string \<Rightarrow> string \<Rightarrow> string) \<Rightarrow> settings \<Rightarrow> string \<Rightarrow> string result" where
  "hash_identity hmac_hex g raw =
     (if short_secret (g_rate_limit_hmac_secret g) then Inl RuntimeError
      else Inr (hmac_hex (g_rate_limit_hmac_secret g) raw))"

text \<open>"a, b".split(","), as the proxy header is read; peer is request.client.host.\<close>

fun split_commas :: "string \<Rightarrow> string list" where
  "split_commas [] = [[]]"
| "split_commas (c # s) =
     (if c = CHR '','' then [] # split_commas s
      else (case split_commas s of [] \<Rightarrow> [[c]] | t # ts \<Rightarrow> (c # t) # ts))"

definition peer_or_loopback :: "string option \<Rightarrow> string" where
  "peer_or_loopback peer =
     (case peer of Some h \<Rightarrow> if h = [] then ''127.0.0.1'' else h | None \<Rightarrow> ''127.0.0.1'')"

definition get_client_ip :: "settings \<Rightarrow> string option \<Rightarrow> string option \<Rightarrow> string" where
  "get_client_ip g peer forwarded =
     (if g_app_env g \<in> {EnvLocal, EnvTest} then peer_or_loopback peer
      else (case forwarded of
              None \<Rightarrow> peer_or_loopback peer
            | Some f \<Rightarrow>
                (let parts = filter (\<lambda>p. p \<noteq> []) (map py_strip (split_commas f)) in
                 if parts \<noteq> [] then last parts else peer_or_loopback peer)))"

record bucket =
  q_scope :: string
  q_identity_hash :: string
  q_window_start :: time
  q_limit :: int
  q_window_seconds :: int

text \<open>int(dt.timestamp()): truncation toward zero.\<close>

definition int_timestamp :: "time \<Rightarrow> int" where
  "int_timestamp t = (if 0 \<le> t then t div usec else - ((- t) div usec))"

definition window_start_for :: "time \<Rightarrow> int \<Rightarrow> time" where
  "window_start_for now window_seconds =
     (let timestamp = int_timestamp now in seconds (timestamp - timestamp mod window_seconds))"

definition bucket_key :: "bucket \<Rightarrow> string \<times> string \<times> time" where
  "bucket_key b = (q_scope b, q_identity_hash b, q_window_start b)"

definition row_key :: "rate_row \<Rightarrow> string \<times> string \<times> time" where
  "row_key r = (l_scope r, l_identity_hash r, l_window_start r)"

text \<open>INSERT ... ON CONFLICT DO UPDATE SET count = count + 1 RETURNING count; count is an integer column.\<close>

definition bump :: "bucket \<Rightarrow> db \<Rightarrow> (int \<times> db) result" where
  "bump b w =
     (case find (\<lambda>r. row_key r = bucket_key b) (rate_limits w) of
        None \<Rightarrow> Inr (1, w\<lparr>rate_limits := rate_limits w @
          [\<lparr>l_scope = q_scope b, l_identity_hash = q_identity_hash b,
            l_window_start = q_window_start b, l_count = 1\<rparr>]\<rparr>)
      | Some r \<Rightarrow>
          if l_count r \<ge> 2147483647 then Inl (DBAPIError ''22003'')
          else Inr (l_count r + 1, w\<lparr>rate_limits :=
            update_where (\<lambda>x. row_key x = bucket_key b) (\<lambda>x. x\<lparr>l_count := l_count x + 1\<rparr>) (rate_limits w)\<rparr>))"

text \<open>The loop; app_now b is datetime.now() when the bucket b is found exceeded.\<close>

definition retry_after :: "time \<Rightarrow> bucket \<Rightarrow> int" where
  "retry_after now b = max 1 (q_window_seconds b - int_timestamp now mod q_window_seconds b)"

definition longer :: "int option \<Rightarrow> int \<Rightarrow> int option" where
  "longer best n = (case best of None \<Rightarrow> Some n | Some m \<Rightarrow> if n > m then Some n else Some m)"

fun consume_each :: "(bucket \<Rightarrow> time) \<Rightarrow> bucket list \<Rightarrow> int option \<Rightarrow> db \<Rightarrow> (int option \<times> db) result" where
  "consume_each app_now [] best w = Inr (best, w)"
| "consume_each app_now (b # bs) best w =
     bind_r (bump b w) (\<lambda>(current_count, w1).
     consume_each app_now bs
       (if current_count > q_limit b then longer best (retry_after (app_now b) b) else best) w1)"

definition consume_rate_limits :: "(bucket \<Rightarrow> time) \<Rightarrow> bucket list \<Rightarrow> db \<Rightarrow> unit result \<times> db" where
  "consume_rate_limits app_now bs w =
     (if bs = [] then (Inr (), w)
      else (case in_transaction (consume_each app_now (sort_key bucket_key bs) None) w of
              (Inl e, w1) \<Rightarrow> (Inl e, w1)
            | (Inr None, w1) \<Rightarrow> (Inr (), w1)
            | (Inr (Some n), w1) \<Rightarrow> (Inl (RateLimitExceeded n), w1)))"

section \<open>The budgets of the routes\<close>

text \<open>
  The environment of a request: settings, the keyed hash, the validator and the clock of
  the application.
\<close>

record env =
  e_settings :: settings
  e_hmac :: "string \<Rightarrow> string \<Rightarrow> string"
  e_validator :: "string \<Rightarrow> string option"
  e_now :: time
  e_retry_now :: "bucket \<Rightarrow> time"

definition consume_user_bucket :: "env \<Rightarrow> uuid \<Rightarrow> string \<Rightarrow> int \<Rightarrow> time \<Rightarrow> db \<Rightarrow> unit result \<times> db" where
  "consume_user_bucket ev user_id bucket_scope limit now w =
     (case hash_identity (e_hmac ev) (e_settings ev) (uuid_str user_id) of
        Inl e \<Rightarrow> (Inl e, w)
      | Inr h \<Rightarrow> consume_rate_limits (e_retry_now ev)
          [\<lparr>q_scope = bucket_scope, q_identity_hash = h, q_window_start = window_start_for now 60,
            q_limit = limit, q_window_seconds = 60\<rparr>] w)"

definition mutation_limit :: "settings \<Rightarrow> int" where
  "mutation_limit g = (if g_test_profile g = ''race'' then 1000 else 120)"

definition read_limit :: "settings \<Rightarrow> int" where
  "read_limit g = (if g_test_profile g = ''race'' then 1000 else 600)"

definition check_mutation_rate_limit :: "env \<Rightarrow> uuid \<Rightarrow> time \<Rightarrow> db \<Rightarrow> unit result \<times> db" where
  "check_mutation_rate_limit ev user_id now w =
     consume_user_bucket ev user_id ''mutation:user'' (mutation_limit (e_settings ev)) now w"

definition check_read_rate_limit :: "env \<Rightarrow> uuid \<Rightarrow> time \<Rightarrow> db \<Rightarrow> unit result \<times> db" where
  "check_read_rate_limit ev user_id now w =
     consume_user_bucket ev user_id ''read:user'' (read_limit (e_settings ev)) now w"

text \<open>The address the login bucket is keyed by: normalized if valid, else only folded.\<close>

definition login_identity :: "(string \<Rightarrow> string option) \<Rightarrow> string \<Rightarrow> string" where
  "login_identity validator email =
     (case normalize_email validator email of Inr n \<Rightarrow> n | Inl _ \<Rightarrow> py_lower (py_strip email))"

definition check_login_rate_limit ::
  "env \<Rightarrow> string option \<Rightarrow> string option \<Rightarrow> string \<Rightarrow> time \<Rightarrow> db \<Rightarrow> unit result \<times> db" where
  "check_login_rate_limit ev peer forwarded email now w =
     (case hash_identity (e_hmac ev) (e_settings ev) (get_client_ip (e_settings ev) peer forwarded) of
        Inl e \<Rightarrow> (Inl e, w)
      | Inr ip_hash \<Rightarrow>
         (case hash_identity (e_hmac ev) (e_settings ev) (login_identity (e_validator ev) email) of
            Inl e \<Rightarrow> (Inl e, w)
          | Inr email_hash \<Rightarrow>
              consume_rate_limits (e_retry_now ev)
                [\<lparr>q_scope = ''login:ip'', q_identity_hash = ip_hash,
                  q_window_start = window_start_for now 60, q_limit = 10, q_window_seconds = 60\<rparr>,
                 \<lparr>q_scope = ''login:email'', q_identity_hash = email_hash,
                  q_window_start = window_start_for now 60, q_limit = 5, q_window_seconds = 60\<rparr>] w))"

text \<open>_check_ip_rate_limit of app/auth/router.py.\<close>

definition check_ip_rate_limit ::
  "env \<Rightarrow> string option \<Rightarrow> string option \<Rightarrow> string \<Rightarrow> int \<Rightarrow> int \<Rightarrow> time \<Rightarrow> db \<Rightarrow> unit result \<times> db" where
  "check_ip_rate_limit ev peer forwarded scope limit window_seconds now w =
     (case hash_identity (e_hmac ev) (e_settings ev) (get_client_ip (e_settings ev) peer forwarded) of
        Inl e \<Rightarrow> (Inl e, w)
      | Inr ip_hash \<Rightarrow> consume_rate_limits (e_retry_now ev)
          [\<lparr>q_scope = scope, q_identity_hash = ip_hash,
            q_window_start = window_start_for now window_seconds,
            q_limit = limit, q_window_seconds = window_seconds\<rparr>] w)"

section \<open>Counting\<close>

definition count_of :: "string \<times> string \<times> time \<Rightarrow> db \<Rightarrow> int" where
  "count_of k w = (case find (\<lambda>r. row_key r = k) (rate_limits w) of None \<Rightarrow> 0 | Some r \<Rightarrow> l_count r)"

lemma find_bumped:
  "find (\<lambda>r. row_key r = k) (update_where (\<lambda>x. row_key x = j) (\<lambda>x. x\<lparr>l_count := l_count x + 1\<rparr>) t)
   = map_option (\<lambda>r. if j = k then r\<lparr>l_count := l_count r + 1\<rparr> else r) (find (\<lambda>r. row_key r = k) t)"
  by (induction t) (auto simp: update_where_def row_key_def)

lemma find_append: "find P (xs @ ys) = (case find P xs of None \<Rightarrow> find P ys | Some x \<Rightarrow> Some x)"
  by (induction xs) auto

lemma row_key_new:
  "row_key \<lparr>l_scope = q_scope b, l_identity_hash = q_identity_hash b, l_window_start = q_window_start b, l_count = n\<rparr>
   = bucket_key b"
  by (simp add: row_key_def bucket_key_def)

lemma bump_counts:
  assumes "bump b w = Inr (n, w')"
  shows "n = count_of (bucket_key b) w + 1"
    "count_of k w' = count_of k w + (if k = bucket_key b then 1 else 0)"
  using assms
  by (auto simp: bump_def count_of_def find_bumped find_append row_key_new split: option.splits if_splits)

text \<open>Every bucket of a request is counted once, admitted or not.\<close>

lemma consume_each_counts:
  "consume_each app_now bs best w = Inr (out, w') \<Longrightarrow>
   count_of k w' = count_of k w + int (length (filter (\<lambda>b. bucket_key b = k) bs))"
proof (induction bs arbitrary: best w)
  case Nil
  then show ?case by simp
next
  case (Cons b bs)
  from Cons.prems obtain n w1 best' where b: "bump b w = Inr (n, w1)" "consume_each app_now bs best' w1 = Inr (out, w')"
    by (auto simp: bind_r_Inr)
  show ?case using Cons.IH [OF b(2)] bump_counts(2) [OF b(1), of k] by simp
qed

lemma longer_not_None: "longer best n = None \<longleftrightarrow> False"
  by (simp add: longer_def split: option.splits)

lemma consume_each_admits:
  "consume_each app_now bs best w = Inr (None, w') \<Longrightarrow> best = None \<and>
   (\<forall>b \<in> set bs. \<exists>c \<in> set bs. bucket_key c = bucket_key b \<and> count_of (bucket_key b) w' \<le> q_limit c)"
proof (induction bs arbitrary: best w)
  case Nil
  then show ?case by simp
next
  case (Cons b bs)
  let ?best = "\<lambda>n. if n > q_limit b then longer best (retry_after (app_now b) b) else best"
  from Cons.prems obtain n w1 where b: "bump b w = Inr (n, w1)"
      "consume_each app_now bs (?best n) w1 = Inr (None, w')"
    by (auto simp: bind_r_Inr)
  from Cons.IH [OF b(2)] have IH: "?best n = None"
      "\<forall>d \<in> set bs. \<exists>c \<in> set bs. bucket_key c = bucket_key d \<and> count_of (bucket_key d) w' \<le> q_limit c"
    by blast+
  have n: "\<not> n > q_limit b" "best = None" using IH(1) by (simp_all add: longer_not_None split: if_splits)
  have "\<exists>c \<in> set (b # bs). bucket_key c = bucket_key b \<and> count_of (bucket_key b) w' \<le> q_limit c"
  proof (cases "\<exists>d \<in> set bs. bucket_key d = bucket_key b")
    case True
    then obtain d where "d \<in> set bs" "bucket_key d = bucket_key b" by blast
    with IH(2) show ?thesis by auto
  next
    case False
    then have "filter (\<lambda>d. bucket_key d = bucket_key b) bs = []" by (simp add: filter_empty_conv)
    then have "count_of (bucket_key b) w' = n"
      using consume_each_counts [OF b(2), of "bucket_key b"] bump_counts [OF b(1)] by simp
    then show ?thesis using n(1) by auto
  qed
  then show ?case using IH(2) n(2) by auto
qed

lemma count_of_begin [simp]: "count_of k (begin_tx w) = count_of k w"
  by (simp add: count_of_def begin_tx_def)

lemma consume_counts:
  assumes "consume_rate_limits app_now bs w = (res, w')"
  shows "count_of k w \<le> count_of k w'"
    "res = Inr () \<Longrightarrow> count_of k w' = count_of k w + int (length (filter (\<lambda>b. bucket_key b = k) bs))"
    "res = Inr () \<Longrightarrow> b \<in> set bs \<Longrightarrow> \<exists>c \<in> set bs. bucket_key c = bucket_key b \<and> count_of (bucket_key b) w' \<le> q_limit c"
proof -
  let ?s = "sort_key bucket_key bs"
  have len: "length (filter (\<lambda>b. bucket_key b = k) ?s) = length (filter (\<lambda>b. bucket_key b = k) bs)"
    by (metis filter_sort length_sort)
  consider (nil) "bs = []" "res = Inr ()" "w' = w" | (err) e where "w' = w" "res = Inl e"
    | (run) out where "consume_each app_now ?s None (begin_tx w) = Inr (out, w')" "res = Inr () \<longleftrightarrow> out = None" "bs \<noteq> []"
  proof (cases "bs = []")
    case True
    then show ?thesis using assms that(1) by (simp add: consume_rate_limits_def)
  next
    case False
    then show ?thesis
      using assms that(2,3) by (auto simp: consume_rate_limits_def in_transaction_def split: sum.splits prod.splits option.splits)
  qed
  note cases = this
  from cases show "count_of k w \<le> count_of k w'"
    by cases (use consume_each_counts [where k = k] in fastforce)+
  show "count_of k w' = count_of k w + int (length (filter (\<lambda>b. bucket_key b = k) bs))" if "res = Inr ()"
    using cases that by cases (use consume_each_counts [where k = k] len in fastforce)+
  show "\<exists>c \<in> set bs. bucket_key c = bucket_key b \<and> count_of (bucket_key b) w' \<le> q_limit c"
    if "res = Inr ()" "b \<in> set bs"
    using cases that by cases (use consume_each_admits in fastforce)+
qed

text \<open>A sequence of requests, each with its buckets and its clock, and their answers.\<close>

fun answers :: "((bucket \<Rightarrow> time) \<times> bucket list) list \<Rightarrow> db \<Rightarrow> unit result list" where
  "answers [] w = []"
| "answers ((app_now, bs) # calls) w =
     (case consume_rate_limits app_now bs w of (res, w') \<Rightarrow> res # answers calls w')"

lemma admitted_bound:
  assumes "\<forall>(app_now, bs) \<in> set calls. \<forall>b \<in> set bs. bucket_key b = k \<longrightarrow> q_limit b \<le> L"
  shows "int (length (filter (\<lambda>(call, res). res = Inr () \<and> k \<in> bucket_key ` set (snd call)) (zip calls (answers calls w))))
    \<le> max 0 (L - count_of k w)"
  using assms
proof (induction calls w rule: answers.induct)
  case (1 w)
  then show ?case by simp
next
  case (2 app_now bs calls w)
  obtain res w' where run: "consume_rate_limits app_now bs w = (res, w')" by fastforce
  note IH = 2(1) [OF run [symmetric]]
  have le: "count_of k w \<le> count_of k w'" by (rule consume_counts(1) [OF run])
  let ?n = "int (length (filter (\<lambda>(call, res). res = Inr () \<and> k \<in> bucket_key ` set (snd call)) (zip calls (answers calls w'))))"
  have rest: "?n \<le> max 0 (L - count_of k w')" using IH 2(2) by simp
  show ?case
  proof (cases "res = Inr () \<and> k \<in> bucket_key ` set bs")
    case True
    then obtain b where b: "b \<in> set bs" "bucket_key b = k" by auto
    then have "filter (\<lambda>b. bucket_key b = k) bs \<noteq> []" by (auto simp: filter_empty_conv)
    then have "count_of k w + 1 \<le> count_of k w'"
      using consume_counts(2) [OF run, of k] True by (cases "filter (\<lambda>b. bucket_key b = k) bs") auto
    moreover obtain c where "c \<in> set bs" "bucket_key c = k" "count_of k w' \<le> q_limit c"
      using consume_counts(3) [OF run _ b(1)] True b(2) by auto
    then have "count_of k w' \<le> L" using 2(2) by auto
    ultimately show ?thesis using rest True run by simp
  next
    case False
    have "?n \<le> max 0 (L - count_of k w)" using rest le by simp
    then show ?thesis using False run by auto
  qed
qed

text \<open>
  C26: in any sequence of requests, however it interleaves different callers, at most L of
  those that count against a bucket with limit L are admitted within its window.
\<close>

theorem rate_limit_bound:
  assumes "\<forall>(app_now, bs) \<in> set calls. \<forall>b \<in> set bs. bucket_key b = k \<longrightarrow> q_limit b \<le> int L"
    and "\<forall>r \<in> set (rate_limits w). 0 < l_count r"
  shows "length (filter (\<lambda>(call, res). res = Inr () \<and> k \<in> bucket_key ` set (snd call))
      (zip calls (answers calls w))) \<le> L"
proof -
  have "0 \<le> count_of k w"
    using assms(2) find_Some_iff [of "\<lambda>r. row_key r = k" "rate_limits w"]
    by (auto simp: count_of_def split: option.splits) (metis less_imp_le nth_mem)
  then show ?thesis using admitted_bound [OF assms(1), of w] by simp
qed

definition ex_bucket :: bucket where
  "ex_bucket = \<lparr>q_scope = ''login:email'', q_identity_hash = ''h'', q_window_start = 0, q_limit = 1, q_window_seconds = 60\<rparr>"

definition ex_calls :: "((bucket \<Rightarrow> time) \<times> bucket list) list" where
  "ex_calls = [(\<lambda>_. 0, [ex_bucket]), (\<lambda>_. 0, [ex_bucket])]"

theorem rate_limit_bound_witness:
  "length (filter (\<lambda>(call, res). res = Inr () \<and> (''login:email'', ''h'', 0) \<in> bucket_key ` set (snd call))
    (zip ex_calls (answers ex_calls (empty_db 0)))) \<le> 1"
proof (rule rate_limit_bound)
  show "\<forall>(app_now, bs) \<in> set ex_calls. \<forall>b \<in> set bs. bucket_key b = (''login:email'', ''h'', 0) \<longrightarrow> q_limit b \<le> int 1"
    by (simp add: ex_calls_def ex_bucket_def)
  show "\<forall>r \<in> set (rate_limits (empty_db 0)). 0 < l_count r" by (simp add: empty_db_def)
qed

lemma consume_each_retry:
  "consume_each app_now bs best w = Inr (Some n, w') \<Longrightarrow>
   best = Some n \<or> (\<exists>b \<in> set bs. n = retry_after (app_now b) b)"
proof (induction bs arbitrary: best w)
  case Nil
  then show ?case by simp
next
  case (Cons b bs)
  let ?best = "\<lambda>m. if m > q_limit b then longer best (retry_after (app_now b) b) else best"
  from Cons.prems obtain m w1 where "consume_each app_now bs (?best m) w1 = Inr (Some n, w')"
    by (auto simp: bind_r_Inr)
  from Cons.IH [OF this] show ?case by (auto simp: longer_def split: if_splits option.splits)
qed

lemma consume_each_error: "consume_each app_now bs best w = Inl e \<Longrightarrow> e = DBAPIError ''22003''"
  by (induction bs arbitrary: best w) (auto simp: bind_r_Inl bump_def split: option.splits if_splits)

text \<open>
  A refusal tells the caller to wait at least one second and no longer than the window.
\<close>

theorem rate_limit_retry_bounds:
  assumes "fst (consume_rate_limits app_now bs w) = Inl (RateLimitExceeded n)"
    and "\<forall>b \<in> set bs. q_window_seconds b = W" "0 < W"
  shows "1 \<le> n \<and> n \<le> W"
proof -
  obtain w' where "consume_each app_now (sort_key bucket_key bs) None (begin_tx w) = Inr (Some n, w')"
    using assms(1) consume_each_error
    by (fastforce simp: consume_rate_limits_def in_transaction_def split: if_splits sum.splits prod.splits option.splits)
  from consume_each_retry [OF this] obtain b where b: "b \<in> set bs" "n = retry_after (app_now b) b" by auto
  have "0 \<le> int_timestamp (app_now b) mod W" using assms(3) by simp
  then show ?thesis using b assms(2,3) by (auto simp: retry_after_def)
qed

lemma ex_refused: "fst (consume_rate_limits (\<lambda>_. seconds 70) [ex_bucket, ex_bucket] (empty_db 0)) = Inl (RateLimitExceeded 50)"
  by code_simp

theorem rate_limit_retry_bounds_witness: "(1::int) \<le> 50 \<and> (50::int) \<le> 60"
  by (rule rate_limit_retry_bounds [OF ex_refused]) (simp_all add: ex_bucket_def)

text \<open>The window of a request is aligned to the epoch and contains the request.\<close>

lemma window_start_for_bounds:
  assumes "0 \<le> now" "0 < n"
  shows "window_start_for now n \<le> now" "now < window_start_for now n + seconds n"
    "int_timestamp (window_start_for now n) mod n = 0"
proof -
  let ?t = "now div usec"
  have ts: "int_timestamp now = ?t" using assms(1) by (simp add: int_timestamp_def)
  have u: "usec = 1000000" by (simp add: usec_def)
  have m: "0 \<le> ?t mod n" "?t mod n < n" using assms(2) by simp_all
  have d: "?t * 1000000 \<le> now" "now < ?t * 1000000 + 1000000" unfolding u by simp_all
  have s: "window_start_for now n = (?t - ?t mod n) * 1000000"
    by (simp add: window_start_for_def ts seconds_def u Let_def)
  show "window_start_for now n \<le> now" using s m d by (simp add: algebra_simps)
  have "now < (?t - ?t mod n + n) * 1000000" using m d by (simp add: algebra_simps)
  then show "now < window_start_for now n + seconds n" unfolding s seconds_def u by (simp add: algebra_simps)
  have "0 \<le> ?t" unfolding u using assms(1) by (intro pos_imp_zdiv_nonneg_iff [THEN iffD2]) simp_all
  then have "0 \<le> ?t - ?t mod n" using zmod_le_nonneg_dividend by simp
  then have "int_timestamp (window_start_for now n) = ?t - ?t mod n"
    unfolding s int_timestamp_def u by simp
  then show "int_timestamp (window_start_for now n) mod n = 0" by (simp add: mod_diff_right_eq)
qed

end
