(* ===== verification/Tokens.thy ===== *)
theory Tokens
imports Scope Limits
begin

text \<open>
  Accounts and sessions (app/auth/service.py): login, rotation of refresh tokens with reuse
  detection, revocation of a token family, registration by invitation. Argon2, SHA-256, the
  JWT encoder and the e-mail validator are parameters; the advisory lock of a family has no
  effect on the state.
\<close>

section \<open>What the service calls\<close>

record claims =
  c_sub :: string
  c_role :: string
  c_iat :: int
  c_exp :: int
  c_jti :: string
  c_iss :: string
  c_aud :: string

text \<open>x\_verify hash password is PasswordHasher.verify, False where it raises.\<close>

record crypto =
  x_sha256_hex :: "string \<Rightarrow> string"
  x_argon2 :: "string \<Rightarrow> string"
  x_verify :: "string \<Rightarrow> string \<Rightarrow> bool"
  x_validator :: "string \<Rightarrow> string option"
  x_jwt_encode :: "claims \<Rightarrow> string \<Rightarrow> string"

section \<open>The tables\<close>

definition user_check :: "user \<Rightarrow> exn option" where
  "user_check u = first_some
     [check (u_email u = py_lower (strip_chars (\<lambda>c. c = CHR '' '') (u_email u)) \<and> length (u_email u) \<le> 254)
        ''users_email_check'',
      check (1 \<le> length (u_display_name u) \<and> length (u_display_name u) \<le> 80) ''users_display_name_check'',
      check (u_version u > 0) ''users_version_check'']"

definition insert_user :: "user \<Rightarrow> db \<Rightarrow> db result" where
  "insert_user u w =
     (case user_check u of Some e \<Rightarrow> Inl e | None \<Rightarrow>
      if u_id u \<in> u_id ` set (users w) then Inl (IntegrityError ''23505'' ''users_pkey'')
      else if u_email u \<in> u_email ` set (users w) then Inl (IntegrityError ''23505'' ''users_email_key'')
      else Inr (w\<lparr>users := users w @ [u]\<rparr>))"

definition refresh_check :: "refresh_token \<Rightarrow> exn option" where
  "refresh_check t =
     check (t_expires_at t > t_created_at t \<and> t_expires_at t \<le> t_family_expires_at t) ''refresh_tokens_check''"

definition insert_refresh :: "refresh_token \<Rightarrow> db \<Rightarrow> db result" where
  "insert_refresh t w =
     (case refresh_check t of Some e \<Rightarrow> Inl e | None \<Rightarrow>
      if t_id t \<in> t_id ` set (refresh_tokens w) then Inl (IntegrityError ''23505'' ''refresh_tokens_pkey'')
      else if t_token_hash t \<in> t_token_hash ` set (refresh_tokens w)
        then Inl (IntegrityError ''23505'' ''refresh_tokens_token_hash_key'')
      else if t_parent_id t \<noteq> None \<and> t_parent_id t \<in> t_parent_id ` set (refresh_tokens w)
        then Inl (IntegrityError ''23505'' ''refresh_one_child_idx'')
      else if t_user_id t \<notin> u_id ` set (users w)
        then Inl (IntegrityError ''23503'' ''refresh_tokens_user_id_fkey'')
      else if (case t_parent_id t of None \<Rightarrow> False | Some p \<Rightarrow> p \<notin> t_id ` set (refresh_tokens w))
        then Inl (IntegrityError ''23503'' ''refresh_tokens_parent_id_fkey'')
      else Inr (w\<lparr>refresh_tokens := refresh_tokens w @ [t]\<rparr>))"

section \<open>Responses\<close>

record user_out =
  uo_id :: uuid
  uo_email :: string
  uo_display_name :: string
  uo_role :: role
  uo_enabled :: bool
  uo_version :: int
  uo_created_at :: time
  uo_updated_at :: time

definition user_view :: "user \<Rightarrow> user_out" where
  "user_view u =
     \<lparr>uo_id = u_id u, uo_email = u_email u, uo_display_name = u_display_name u, uo_role = u_role u,
      uo_enabled = u_enabled u, uo_version = u_version u, uo_created_at = u_created_at u,
      uo_updated_at = u_updated_at u\<rparr>"

definition role_name :: "role \<Rightarrow> string" where
  "role_name r = (case r of Member \<Rightarrow> ''member'' | Admin \<Rightarrow> ''admin'')"

definition dump_user :: "user_out \<Rightarrow> json" where
  "dump_user u = JObj
     [(''id'', JStr (uuid_str (uo_id u))), (''email'', JStr (uo_email u)),
      (''display_name'', JStr (uo_display_name u)), (''role'', JStr (role_name (uo_role u))),
      (''enabled'', JBool (uo_enabled u)), (''version'', JInt (uo_version u)),
      (''created_at'', JStr (format_rfc3339_utc (uo_created_at u))),
      (''updated_at'', JStr (format_rfc3339_utc (uo_updated_at u)))]"

record token_result =
  tr_access_token :: string
  tr_expires_in :: int
  tr_user :: user_out
  tr_raw_refresh :: string

section \<open>Issuing\<close>

definition mint_access ::
  "crypto \<Rightarrow> settings \<Rightarrow> user \<Rightarrow> time \<Rightarrow> db \<Rightarrow> (string \<times> db) result" where
  "mint_access cr g u now w =
     (if short_secret (g_jwt_secret g) then Inl RuntimeError
      else
      bind_r (dt_add now (seconds (g_access_token_ttl_seconds g))) (\<lambda>exp.
      let (jti, w1) = uuid4 w in
      Inr (x_jwt_encode cr
             \<lparr>c_sub = uuid_str (u_id u), c_role = role_name (u_role u), c_iat = int_timestamp now,
              c_exp = int_timestamp exp, c_jti = uuid_str jti, c_iss = g_jwt_issuer g,
              c_aud = g_jwt_audience g\<rparr> (g_jwt_secret g), w1)))"

text \<open>The first token of a new family: draws the family id, then the row id.\<close>

definition start_family :: "crypto \<Rightarrow> user \<Rightarrow> time \<Rightarrow> db \<Rightarrow> (string \<times> db) result" where
  "start_family cr u now w =
     (let (raw, w1) = urandom_token w; (family_id, w2) = uuid4 w1; (tid, w3) = uuid4 w2 in
      bind_r (dt_add now (days 7)) (\<lambda>soon.
      bind_r (dt_add now (days 30)) (\<lambda>late.
      bind_r (insert_refresh
        \<lparr>t_id = tid, t_user_id = u_id u, t_token_hash = x_sha256_hex cr raw, t_family_id = family_id,
         t_parent_id = None, t_created_at = now, t_expires_at = soon, t_family_expires_at = late,
         t_used_at = None, t_revoked_at = None\<rparr> w3) (\<lambda>w4.
      Inr (raw, w4)))))"

definition login :: "crypto \<Rightarrow> settings \<Rightarrow> string \<Rightarrow> string \<Rightarrow> time \<Rightarrow> db \<Rightarrow> (token_result \<times> db) result" where
  "login cr g email password now w =
     (case normalize_email (x_validator cr) email of
        Inl _ \<Rightarrow> Inl InvalidCredentialsError
      | Inr norm_email \<Rightarrow>
          bind_r (scalar_one_or_none (filter (\<lambda>u. u_email u = norm_email) (users w))) (\<lambda>row.
          case row of
            None \<Rightarrow> Inl InvalidCredentialsError
          | Some user \<Rightarrow>
              if \<not> x_verify cr (u_password_hash user) password then Inl InvalidCredentialsError
              else
              bind_r (scalar_one_or_none (filter (\<lambda>u. u_id u = u_id user) (users w))) (\<lambda>locked.
              case locked of
                None \<Rightarrow> Inl InvalidCredentialsError
              | Some u \<Rightarrow>
                  if \<not> u_enabled u \<or> u_password_hash u \<noteq> u_password_hash user
                  then Inl InvalidCredentialsError
                  else
                  bind_r (mint_access cr g u now w) (\<lambda>(access, w1).
                  bind_r (start_family cr u now w1) (\<lambda>(raw, w2).
                  Inr (\<lparr>tr_access_token = access, tr_expires_in = g_access_token_ttl_seconds g,
                        tr_user = user_view u, tr_raw_refresh = raw\<rparr>, w2))))))"

section \<open>Rotating\<close>

definition resolve_token :: "string \<Rightarrow> db \<Rightarrow> refresh_token option result" where
  "resolve_token h w = scalar_one_or_none (filter (\<lambda>t. t_token_hash t = h) (refresh_tokens w))"

text \<open>The child of a token: it lives seven days, but not longer than its family.\<close>

definition child_token :: "uuid \<Rightarrow> string \<Rightarrow> uuid \<Rightarrow> refresh_token \<Rightarrow> time \<Rightarrow> time \<Rightarrow> refresh_token" where
  "child_token tid h user_id t now soon =
     \<lparr>t_id = tid, t_user_id = user_id, t_token_hash = h, t_family_id = t_family_id t,
      t_parent_id = Some (t_id t), t_created_at = now, t_expires_at = min soon (t_family_expires_at t),
      t_family_expires_at = t_family_expires_at t, t_used_at = None, t_revoked_at = None\<rparr>"

definition mark_used :: "uuid \<Rightarrow> time \<Rightarrow> db \<Rightarrow> db" where
  "mark_used tid now w =
     w\<lparr>refresh_tokens := update_where (\<lambda>t. t_id t = tid) (\<lambda>t. t\<lparr>t_used_at := Some now\<rparr>) (refresh_tokens w)\<rparr>"

definition issue_child ::
  "crypto \<Rightarrow> settings \<Rightarrow> user \<Rightarrow> refresh_token \<Rightarrow> time \<Rightarrow> db \<Rightarrow> (token_result \<times> db) result" where
  "issue_child cr g u t now w =
     (let w1 = mark_used (t_id t) now w; (raw, w2) = urandom_token w1 in
      bind_r (dt_add now (days 7)) (\<lambda>soon.
      let (tid, w3) = uuid4 w2 in
      bind_r (insert_refresh (child_token tid (x_sha256_hex cr raw) (u_id u) t now soon) w3) (\<lambda>w4.
      bind_r (mint_access cr g u now w4) (\<lambda>(access, w5).
      Inr (\<lparr>tr_access_token = access, tr_expires_in = g_access_token_ttl_seconds g,
            tr_user = user_view u, tr_raw_refresh = raw\<rparr>, w5)))))"

text \<open>A presented token that was used before is answered outside the transaction.\<close>

datatype rotation = Rotated token_result | Reused uuid uuid

definition rotate_locked ::
  "crypto \<Rightarrow> settings \<Rightarrow> string \<Rightarrow> time \<Rightarrow> db \<Rightarrow> (rotation \<times> db) result" where
  "rotate_locked cr g raw_token now w =
     bind_r (resolve_token (x_sha256_hex cr raw_token) w) (\<lambda>resolved.
     case resolved of
       None \<Rightarrow> Inl InvalidRefreshError
     | Some r \<Rightarrow>
         bind_r (scalar_one_or_none (filter (\<lambda>u. u_id u = t_user_id r) (users w))) (\<lambda>locked.
         case locked of
           None \<Rightarrow> Inl InvalidRefreshError
         | Some u \<Rightarrow>
             if \<not> u_enabled u then Inl InvalidRefreshError
             else
             bind_r (resolve_token (x_sha256_hex cr raw_token) w) (\<lambda>token.
             case token of
               None \<Rightarrow> Inl InvalidRefreshError
             | Some t \<Rightarrow>
                 if t_user_id t \<noteq> u_id u \<or> t_family_id t \<noteq> t_family_id r then Inl InvalidRefreshError
                 else if t_revoked_at t \<noteq> None \<or> t_expires_at t \<le> now \<or> t_family_expires_at t \<le> now
                   then Inl InvalidRefreshError
                 else if t_used_at t \<noteq> None then Inr (Reused (t_user_id r) (t_family_id r), w)
                 else bind_r (issue_child cr g u t now w) (\<lambda>(res, w1). Inr (Rotated res, w1)))))"

definition revoke_where :: "(refresh_token \<Rightarrow> bool) \<Rightarrow> time \<Rightarrow> db \<Rightarrow> db" where
  "revoke_where P now w =
     w\<lparr>refresh_tokens := update_where (\<lambda>t. P t \<and> t_revoked_at t = None)
         (\<lambda>t. t\<lparr>t_revoked_at := Some now\<rparr>) (refresh_tokens w)\<rparr>"

definition revoke_family :: "crypto \<Rightarrow> string \<Rightarrow> time \<Rightarrow> db \<Rightarrow> db result" where
  "revoke_family cr raw_token now w =
     bind_r (resolve_token (x_sha256_hex cr raw_token) w) (\<lambda>resolved.
     case resolved of
       None \<Rightarrow> Inr w
     | Some r \<Rightarrow>
         bind_r (scalar_one_or_none (filter (\<lambda>u. u_id u = t_user_id r) (users w))) (\<lambda>user.
         case user of
           None \<Rightarrow> Inr w
         | Some _ \<Rightarrow>
             bind_r (resolve_token (x_sha256_hex cr raw_token) w) (\<lambda>token.
             case token of
               None \<Rightarrow> Inr w
             | Some _ \<Rightarrow> Inr (revoke_where (\<lambda>t. t_family_id t = t_family_id r) now w))))"

definition report_reuse ::
  "crypto \<Rightarrow> string \<Rightarrow> uuid \<Rightarrow> uuid \<Rightarrow> uuid \<Rightarrow> time \<Rightarrow> db \<Rightarrow> (unit \<times> db) result" where
  "report_reuse cr raw_token user_id family_id req now w =
     bind_r (revoke_family cr raw_token now w) (\<lambda>w1.
     bind_r (append_audit_log ''auth.refresh_reuse'' ''refresh_family'' (Some family_id) (Some user_id) req
       (JObj [(''user_id'', JStr (uuid_str user_id)), (''family_id'', JStr (uuid_str family_id)),
              (''event_category'', JStr ''refresh_reuse'')]) now w1) (\<lambda>(_, w2).
     Inr ((), w2)))"

text \<open>
  The request: on reuse its transaction is rolled back, and the family is revoked in a
  transaction of its own, which stays although the request fails.
\<close>

definition rotate_refresh ::
  "crypto \<Rightarrow> settings \<Rightarrow> string \<Rightarrow> time \<Rightarrow> db \<Rightarrow> token_result result \<times> db" where
  "rotate_refresh cr g raw_token now w =
     (case rotate_locked cr g raw_token now (begin_tx w) of
        Inl e \<Rightarrow> (Inl e, w)
      | Inr (Rotated res, w1) \<Rightarrow> (Inr res, w1)
      | Inr (Reused user_id family_id, _) \<Rightarrow>
          (let (req, w1) = uuid4 w in
           case in_transaction (report_reuse cr raw_token user_id family_id req now) w1 of
             (Inl e, w2) \<Rightarrow> (Inl e, w2)
           | (Inr _, w2) \<Rightarrow> (Inl InvalidRefreshError, w2)))"

definition revoke_user_refresh_tokens :: "uuid \<Rightarrow> time \<Rightarrow> db \<Rightarrow> nat \<times> db" where
  "revoke_user_refresh_tokens user_id now w =
     (rowcount (\<lambda>t. t_user_id t = user_id \<and> t_revoked_at t = None) (refresh_tokens w),
      revoke_where (\<lambda>t. t_user_id t = user_id) now w)"

section \<open>Registering\<close>

record registration =
  rg_invitation_token :: string
  rg_email :: string
  rg_password :: string
  rg_display_name :: string

text \<open>The validators of the schema class Register, field by field.\<close>

definition validate_registration :: "(string \<Rightarrow> string option) \<Rightarrow> registration \<Rightarrow> registration result" where
  "validate_registration validator d =
     (case (normalize_email validator (rg_email d), validate_password_length (rg_password d)) of
        (Inr e, Inr _) \<Rightarrow>
          (let name = py_strip (rg_display_name d) in
           if length name < 1 \<or> length name > 80 then Inl RequestValidationError
           else Inr (d\<lparr>rg_email := e, rg_display_name := name\<rparr>))
      | _ \<Rightarrow> Inl RequestValidationError)"

text \<open>
  The exception of the flush is told apart by its text, which names the constraint and, for
  a violated key, says "unique constraint".
\<close>

definition registration_conflict :: "'a result \<Rightarrow> 'a result" where
  "registration_conflict m =
     (case m of
        Inl (IntegrityError st name) \<Rightarrow>
          if prefix ''users_email'' name \<or> st = ''23505'' then Inl EmailExistsError
          else Inl InvalidInvitationError
      | _ \<Rightarrow> m)"

definition register ::
  "crypto \<Rightarrow> registration \<Rightarrow> time \<Rightarrow> uuid option \<Rightarrow> db \<Rightarrow> (user_out \<times> db) result" where
  "register cr d now req_id w =
     (case normalize_email (x_validator cr) (rg_email d) of
        Inl _ \<Rightarrow> Inl InvalidInvitationError
      | Inr norm_email \<Rightarrow>
          bind_r (scalar_one_or_none (filter (\<lambda>i. i_token_hash i = x_sha256_hex cr (rg_invitation_token d)) (invitations w))) (\<lambda>row.
          case row of
            None \<Rightarrow> Inl InvalidInvitationError
          | Some invite \<Rightarrow>
              if i_consumed_at invite \<noteq> None then Inl InvalidInvitationError
              else if i_expires_at invite \<le> now then Inl InvalidInvitationError
              else if py_lower (py_strip (i_email invite)) \<noteq> norm_email then Inl InvalidInvitationError
              else
              bind_r (scalar_one_or_none (map u_id (filter (\<lambda>u. u_email u = norm_email) (users w)))) (\<lambda>existing.
              if existing \<noteq> None then Inl EmailExistsError
              else
              bind_r (hash_password (x_argon2 cr) (rg_password d)) (\<lambda>pwd_hash.
              let (uid, w1) = uuid4 w;
                  new_user = \<lparr>u_id = uid, u_email = norm_email, u_password_hash = pwd_hash,
                    u_display_name = py_strip (rg_display_name d), u_role = i_role invite, u_enabled = True,
                    u_version = 1, u_created_at = now, u_updated_at = now\<rparr>
              in
              bind_r (registration_conflict (insert_user new_user w1)) (\<lambda>w2.
              let w3 = w2\<lparr>invitations := update_where (\<lambda>i. i_id i = i_id invite)
                         (\<lambda>i. i\<lparr>i_consumed_at := Some now\<rparr>) (invitations w2)\<rparr>;
                  (req, w4) = (case req_id of Some r \<Rightarrow> (r, w3) | None \<Rightarrow> uuid4 w3)
              in
              bind_r (append_audit_log ''auth.register'' ''user'' (Some uid) (Some uid) req
                (JObj [(''email'', JStr norm_email), (''role'', JStr (role_name (i_role invite))),
                       (''invitation_id'', JStr (uuid_str (i_id invite)))]) now w4) (\<lambda>(_, w5).
              Inr (user_view new_user, w5)))))))"

section \<open>What the table of tokens keeps\<close>

text \<open>
  Ids and hashes are unique, a token does not outlive its family, the tokens of a family
  belong to one user and end together, and at most one of them is unused.
\<close>

definition tokens_ok :: "db \<Rightarrow> bool" where
  "tokens_ok w =
     (let ts = refresh_tokens w in
      distinct (map t_id ts) \<and> distinct (map t_token_hash ts) \<and>
      (\<forall>t \<in> set ts. t_expires_at t \<le> t_family_expires_at t) \<and>
      (\<forall>s \<in> set ts. \<forall>t \<in> set ts. t_family_id s = t_family_id t \<longrightarrow>
         t_user_id s = t_user_id t \<and> t_family_expires_at s = t_family_expires_at t \<and>
         (t_used_at s = None \<and> t_used_at t = None \<longrightarrow> s = t)))"

lemma tokens_okD:
  assumes "tokens_ok w"
  shows "distinct (map t_id (refresh_tokens w))" "distinct (map t_token_hash (refresh_tokens w))"
    "\<And>t. t \<in> set (refresh_tokens w) \<Longrightarrow> t_expires_at t \<le> t_family_expires_at t"
    "\<And>s t. s \<in> set (refresh_tokens w) \<Longrightarrow> t \<in> set (refresh_tokens w) \<Longrightarrow> t_family_id s = t_family_id t \<Longrightarrow>
       t_user_id s = t_user_id t \<and> t_family_expires_at s = t_family_expires_at t"
    "\<And>s t. s \<in> set (refresh_tokens w) \<Longrightarrow> t \<in> set (refresh_tokens w) \<Longrightarrow> t_family_id s = t_family_id t \<Longrightarrow>
       t_used_at s = None \<Longrightarrow> t_used_at t = None \<Longrightarrow> s = t"
  using assms unfolding tokens_ok_def Let_def by blast+

lemma tokens_okI:
  assumes "distinct (map t_id (refresh_tokens w))" "distinct (map t_token_hash (refresh_tokens w))"
    "\<And>t. t \<in> set (refresh_tokens w) \<Longrightarrow> t_expires_at t \<le> t_family_expires_at t"
    "\<And>s t. s \<in> set (refresh_tokens w) \<Longrightarrow> t \<in> set (refresh_tokens w) \<Longrightarrow> t_family_id s = t_family_id t \<Longrightarrow>
       t_user_id s = t_user_id t \<and> t_family_expires_at s = t_family_expires_at t \<and>
       (t_used_at s = None \<and> t_used_at t = None \<longrightarrow> s = t)"
  shows "tokens_ok w"
  using assms unfolding tokens_ok_def Let_def by blast

lemma tokens_ok_cong: "refresh_tokens w' = refresh_tokens w \<Longrightarrow> tokens_ok w' = tokens_ok w"
  by (simp add: tokens_ok_def)

text \<open>Changing only used\_at (to a time) and revoked\_at of tokens keeps it.\<close>

lemma tokens_ok_update:
  assumes "tokens_ok w" "refresh_tokens w' = update_where P f (refresh_tokens w)"
    and f: "\<And>t. t_id (f t) = t_id t \<and> t_token_hash (f t) = t_token_hash t \<and> t_family_id (f t) = t_family_id t
      \<and> t_user_id (f t) = t_user_id t \<and> t_expires_at (f t) = t_expires_at t
      \<and> t_family_expires_at (f t) = t_family_expires_at t \<and> (t_used_at (f t) = None \<longrightarrow> t_used_at t = None)"
  shows "tokens_ok w'"
proof -
  have m: "map t_id (update_where P f ts) = map t_id ts" "map t_token_hash (update_where P f ts) = map t_token_hash ts" for ts
    using f by (simp_all add: map_update_where)
  let ?g = "\<lambda>t. if P t then f t else t"
  have g: "set (refresh_tokens w') = ?g ` set (refresh_tokens w)"
    by (simp add: assms(2) update_where_def)
  note ok = tokens_okD [OF assms(1)]
  have e: "t_expires_at t \<le> t_family_expires_at t" if t: "t \<in> set (refresh_tokens w')" for t
  proof -
    obtain t0 where "t0 \<in> set (refresh_tokens w)" "t = ?g t0" using t unfolding g by blast
    then show ?thesis using ok(3) f by (cases "P t0") simp_all
  qed
  have c: "t_user_id s = t_user_id t \<and> t_family_expires_at s = t_family_expires_at t \<and>
      (t_used_at s = None \<and> t_used_at t = None \<longrightarrow> s = t)"
    if st: "s \<in> set (refresh_tokens w')" "t \<in> set (refresh_tokens w')" "t_family_id s = t_family_id t" for s t
  proof -
    obtain s0 t0 where *: "s0 \<in> set (refresh_tokens w)" "t0 \<in> set (refresh_tokens w)" "s = ?g s0" "t = ?g t0"
      using st(1,2) unfolding g by blast
    then have "t_family_id s0 = t_family_id t0" using st(3) f by (auto split: if_splits)
    note same = ok(4) [OF *(1,2) this] ok(5) [OF *(1,2) this]
    show ?thesis using same f unfolding *(3,4) by (cases "P s0"; cases "P t0") auto
  qed
  show ?thesis
  proof (rule tokens_okI)
    show "distinct (map t_id (refresh_tokens w'))" "distinct (map t_token_hash (refresh_tokens w'))"
      using ok(1,2) by (simp_all only: assms(2) m)
  qed (use e c in blast)+
qed

lemma insert_refresh_Inr:
  "insert_refresh t w = Inr w' \<longleftrightarrow> refresh_check t = None \<and> t_id t \<notin> t_id ` set (refresh_tokens w) \<and>
   t_token_hash t \<notin> t_token_hash ` set (refresh_tokens w) \<and>
   \<not> (t_parent_id t \<noteq> None \<and> t_parent_id t \<in> t_parent_id ` set (refresh_tokens w)) \<and>
   t_user_id t \<in> u_id ` set (users w) \<and>
   \<not> (case t_parent_id t of None \<Rightarrow> False | Some p \<Rightarrow> p \<notin> t_id ` set (refresh_tokens w)) \<and>
   w' = w\<lparr>refresh_tokens := refresh_tokens w @ [t]\<rparr>"
  unfolding insert_refresh_def by (cases "refresh_check t") (auto simp del: image_iff)

lemma tokens_ok_insert:
  assumes "tokens_ok w" "insert_refresh t w = Inr w'"
    and "\<forall>s \<in> set (refresh_tokens w). t_family_id s = t_family_id t \<longrightarrow> t_user_id s = t_user_id t \<and>
      t_family_expires_at s = t_family_expires_at t \<and> t_used_at s \<noteq> None"
  shows "tokens_ok w'"
proof -
  have t: "t_expires_at t \<le> t_family_expires_at t" "t_id t \<notin> t_id ` set (refresh_tokens w)"
      "t_token_hash t \<notin> t_token_hash ` set (refresh_tokens w)" "refresh_tokens w' = refresh_tokens w @ [t]"
    using assms(2) by (auto simp: insert_refresh_Inr refresh_check_def)
  note ok = tokens_okD [OF assms(1)]
  have c: "t_user_id s = t_user_id r \<and> t_family_expires_at s = t_family_expires_at r \<and>
      (t_used_at s = None \<and> t_used_at r = None \<longrightarrow> s = r)"
    if "s \<in> set (refresh_tokens w')" "r \<in> set (refresh_tokens w')" "t_family_id s = t_family_id r" for s r
  proof -
    consider "s = t" "r = t" | "s = t" "r \<in> set (refresh_tokens w)" | "s \<in> set (refresh_tokens w)" "r = t"
      | "s \<in> set (refresh_tokens w)" "r \<in> set (refresh_tokens w)"
      using \<open>s \<in> set (refresh_tokens w')\<close> \<open>r \<in> set (refresh_tokens w')\<close> t(4) by auto
    then show ?thesis
    proof cases
      case 4
      with ok(4) [OF this that(3)] ok(5) [OF this that(3)] show ?thesis by blast
    qed (use assms(3) that(3) in auto)
  qed
  show ?thesis
  proof (rule tokens_okI)
    show "distinct (map t_id (refresh_tokens w'))" "distinct (map t_token_hash (refresh_tokens w'))"
      using ok(1,2) t(2,3) by (simp_all add: t(4))
    show "t_expires_at r \<le> t_family_expires_at r" if "r \<in> set (refresh_tokens w')" for r
      using that ok(3) t(1,4) by auto
  qed (use c in blast)
qed

lemma revoke_where_tokens: "tokens_ok w \<Longrightarrow> tokens_ok (revoke_where P now w)"
  by (rule tokens_ok_update [where P = "\<lambda>t. P t \<and> t_revoked_at t = None" and f = "\<lambda>t. t\<lparr>t_revoked_at := Some now\<rparr>"])
    (simp_all add: revoke_where_def)

lemma mark_used_tokens: "tokens_ok w \<Longrightarrow> tokens_ok (mark_used i now w)"
  by (rule tokens_ok_update [where P = "\<lambda>t. t_id t = i" and f = "\<lambda>t. t\<lparr>t_used_at := Some now\<rparr>"])
    (simp_all add: mark_used_def)

lemma mint_access_frame:
  assumes "mint_access cr g u now w = Inr (a, w')"
  shows "w' = w\<lparr>drawn := Suc (drawn w)\<rparr>"
  using assms by (auto simp: mint_access_def bind_r_Inr uuid4_def Let_def split: if_splits)

text \<open>A login adds one token, of a family drawn for it.\<close>

lemma start_family_adds:
  assumes "start_family cr u now w = Inr (raw, w')"
  shows "\<exists>t. refresh_tokens w' = refresh_tokens w @ [t] \<and> t_family_id t = uuid_src w (drawn w) \<and>
    t_user_id t = u_id u \<and> t_token_hash t = x_sha256_hex cr raw \<and> t_used_at t = None \<and> t_revoked_at t = None \<and>
    t_expires_at t = now + days 7 \<and> t_family_expires_at t = now + days 30 \<and> t_parent_id t = None \<and>
    (\<exists>w0. refresh_tokens w0 = refresh_tokens w \<and> users w0 = users w \<and> insert_refresh t w0 = Inr w')"
proof -
  let ?w3 = "w\<lparr>urandomed := Suc (urandomed w), drawn := Suc (Suc (drawn w))\<rparr>"
  let ?t = "\<lparr>t_id = uuid_src w (Suc (drawn w)), t_user_id = u_id u, t_token_hash = x_sha256_hex cr raw,
    t_family_id = uuid_src w (drawn w), t_parent_id = None, t_created_at = now, t_expires_at = now + days 7,
    t_family_expires_at = now + days 30, t_used_at = None, t_revoked_at = None\<rparr>"
  have "insert_refresh ?t ?w3 = Inr w'"
    using assms by (auto simp: start_family_def urandom_token_def uuid4_def bind_r_Inr dt_add_def Let_def split: if_splits)
  moreover from this have "refresh_tokens w' = refresh_tokens w @ [?t]" by (simp add: insert_refresh_Inr)
  ultimately show ?thesis by (intro exI [of _ ?t]) (auto intro!: exI [of _ ?w3])
qed

lemma login_steps:
  assumes "login cr g email password now w = Inr (res, w')"
  shows "\<exists>u w1. u \<in> set (users w) \<and> u_enabled u \<and> x_verify cr (u_password_hash u) password \<and>
    normalize_email (x_validator cr) email = Inr (u_email u) \<and> mint_access cr g u now w = Inr (tr_access_token res, w1) \<and>
    start_family cr u now w1 = Inr (tr_raw_refresh res, w') \<and> tr_user res = user_view u"
proof (cases "normalize_email (x_validator cr) email")
  case (Inl e)
  then show ?thesis using assms by (simp add: login_def)
next
  case (Inr n)
  from assms Inr obtain user where user: "scalar_one_or_none (filter (\<lambda>u. u_email u = n) (users w)) = Inr (Some user)"
      "x_verify cr (u_password_hash user) password"
    and rest: "bind_r (scalar_one_or_none (filter (\<lambda>u. u_id u = u_id user) (users w))) (\<lambda>locked.
        case locked of None \<Rightarrow> Inl InvalidCredentialsError
        | Some u \<Rightarrow> if \<not> u_enabled u \<or> u_password_hash u \<noteq> u_password_hash user then Inl InvalidCredentialsError
           else bind_r (mint_access cr g u now w) (\<lambda>(access, w1).
                bind_r (start_family cr u now w1) (\<lambda>(raw, w2).
                Inr (\<lparr>tr_access_token = access, tr_expires_in = g_access_token_ttl_seconds g,
                      tr_user = user_view u, tr_raw_refresh = raw\<rparr>, w2)))) = Inr (res, w')"
    by (auto simp: login_def bind_r_Inr split: option.splits if_splits)
  from rest obtain u where u: "scalar_one_or_none (filter (\<lambda>u. u_id u = u_id user) (users w)) = Inr (Some u)"
      "u_enabled u" "u_password_hash u = u_password_hash user"
    by (auto simp: bind_r_Inr split: option.splits if_splits)
  have mem: "user \<in> set (filter (\<lambda>u. u_email u = n) (users w))" using user(1) unfolding scalar_Some by simp
  then have "user \<in> set (filter (\<lambda>u. u_id u = u_id user) (users w))" by auto
  then have "u = user" using u(1) unfolding scalar_Some by simp
  then show ?thesis using rest u mem user(2) Inr by (auto simp: bind_r_Inr)
qed

lemma rotate_locked_steps:
  assumes "rotate_locked cr g raw now w = Inr (out, w1)"
  shows "\<exists>t u. resolve_token (x_sha256_hex cr raw) w = Inr (Some t) \<and> u \<in> set (users w) \<and> u_id u = t_user_id t \<and>
    u_enabled u \<and> t_revoked_at t = None \<and> now < t_expires_at t \<and> now < t_family_expires_at t \<and>
    (if t_used_at t \<noteq> None then out = Reused (t_user_id t) (t_family_id t) \<and> w1 = w
     else \<exists>res. issue_child cr g u t now w = Inr (res, w1) \<and> out = Rotated res)"
proof -
  from assms obtain t where t: "resolve_token (x_sha256_hex cr raw) w = Inr (Some t)"
    by (auto simp: rotate_locked_def bind_r_Inr split: option.splits)
  then obtain u where u: "scalar_one_or_none (filter (\<lambda>u. u_id u = t_user_id t) (users w)) = Inr (Some u)"
    using assms by (auto simp: rotate_locked_def bind_r_Inr split: option.splits if_splits)
  then have mem: "u \<in> set (filter (\<lambda>u. u_id u = t_user_id t) (users w))" unfolding scalar_Some by simp
  have c: "u_enabled u" "t_revoked_at t = None" "now < t_expires_at t" "now < t_family_expires_at t"
    "(if t_used_at t \<noteq> None then Inr (Reused (t_user_id t) (t_family_id t), w)
      else bind_r (issue_child cr g u t now w) (\<lambda>(res, w1). Inr (Rotated res, w1))) = Inr (out, w1)"
    using assms t u by (auto simp: rotate_locked_def split: if_splits)
  show ?thesis
    using t mem c by (intro exI [of _ t] exI [of _ u]) (auto simp: bind_r_Inr split: if_splits)
qed

lemma resolve_token_mem:
  "resolve_token h w = Inr (Some t) \<Longrightarrow> t \<in> set (refresh_tokens w) \<and> t_token_hash t = h"
proof -
  assume "resolve_token h w = Inr (Some t)"
  then have "t \<in> set (filter (\<lambda>t. t_token_hash t = h) (refresh_tokens w))"
    unfolding resolve_token_def scalar_Some by simp
  then show ?thesis by simp
qed

lemma issue_child_steps:
  assumes "issue_child cr g u t now w = Inr (res, w')"
  shows "\<exists>tid w3 w4. let c = child_token tid (x_sha256_hex cr (tr_raw_refresh res)) (u_id u) t now (now + days 7) in
    w3 = (mark_used (t_id t) now w)\<lparr>urandomed := Suc (urandomed w), drawn := Suc (drawn w)\<rparr> \<and>
    insert_refresh c w3 = Inr w4 \<and> w' = w4\<lparr>drawn := Suc (Suc (drawn w))\<rparr> \<and>
    refresh_tokens w' = refresh_tokens (mark_used (t_id t) now w) @ [c] \<and> tr_user res = user_view u"
proof -
  let ?w3 = "(mark_used (t_id t) now w)\<lparr>urandomed := Suc (urandomed w), drawn := Suc (drawn w)\<rparr>"
  let ?raw = "urandom_src w (urandomed w)" and ?tid = "uuid_src w (drawn w)"
  let ?c = "child_token ?tid (x_sha256_hex cr ?raw) (u_id u) t now (now + days 7)"
  have frame: "urandom_src (mark_used (t_id t) now w) = urandom_src w" "urandomed (mark_used (t_id t) now w) = urandomed w"
    "uuid_src (mark_used (t_id t) now w) = uuid_src w" "drawn (mark_used (t_id t) now w) = drawn w"
    by (simp_all add: mark_used_def)
  from assms obtain w4 a where w4: "insert_refresh ?c ?w3 = Inr w4" "mint_access cr g u now w4 = Inr (a, w')"
      "tr_raw_refresh res = ?raw" "tr_user res = user_view u"
    by (auto simp: issue_child_def urandom_token_def uuid4_def bind_r_Inr dt_add_def Let_def frame split: if_splits)
  have "w' = w4\<lparr>drawn := Suc (drawn w4)\<rparr>" by (rule mint_access_frame [OF w4(2)])
  moreover have "w4 = ?w3\<lparr>refresh_tokens := refresh_tokens (mark_used (t_id t) now w) @ [?c]\<rparr>"
    using w4(1) by (simp add: insert_refresh_Inr)
  ultimately show ?thesis
    using w4 unfolding Let_def by (intro exI [of _ ?tid] exI [of _ ?w3] exI [of _ w4]) simp
qed

lemma issue_child_adds:
  assumes "issue_child cr g u t now w = Inr (res, w')"
  shows "\<exists>c. refresh_tokens w' = refresh_tokens (mark_used (t_id t) now w) @ [c] \<and> t_family_id c = t_family_id t \<and>
    t_parent_id c = Some (t_id t) \<and> t_user_id c = u_id u \<and> t_used_at c = None \<and> t_revoked_at c = None \<and>
    t_token_hash c = x_sha256_hex cr (tr_raw_refresh res) \<and> t_expires_at c = min (now + days 7) (t_family_expires_at t) \<and>
    t_family_expires_at c = t_family_expires_at t"
proof -
  from issue_child_steps [OF assms] obtain tid where
    "refresh_tokens w' = refresh_tokens (mark_used (t_id t) now w)
       @ [child_token tid (x_sha256_hex cr (tr_raw_refresh res)) (u_id u) t now (now + days 7)]"
    by (auto simp: Let_def)
  then show ?thesis by (simp add: child_token_def)
qed

lemma marked_mem:
  "s \<in> set (refresh_tokens (mark_used i now w)) \<Longrightarrow>
   \<exists>s0 \<in> set (refresh_tokens w). s = (if t_id s0 = i then s0\<lparr>t_used_at := Some now\<rparr> else s0)"
  by (auto simp: mark_used_def update_where_def)

lemma issue_child_tokens:
  assumes ok: "tokens_ok w" and t: "t \<in> set (refresh_tokens w)" "t_used_at t = None" "u_id u = t_user_id t"
    and run: "issue_child cr g u t now w = Inr (res, w')"
  shows "tokens_ok w'"
proof -
  from issue_child_steps [OF run] obtain tid w3 w4 where
    s: "w3 = (mark_used (t_id t) now w)\<lparr>urandomed := Suc (urandomed w), drawn := Suc (drawn w)\<rparr>"
      "insert_refresh (child_token tid (x_sha256_hex cr (tr_raw_refresh res)) (u_id u) t now (now + days 7)) w3 = Inr w4"
      "w' = w4\<lparr>drawn := Suc (Suc (drawn w))\<rparr>"
    unfolding Let_def by blast
  have ok3: "tokens_ok w3"
    using mark_used_tokens [OF ok] by (simp add: s(1) tokens_ok_def)
  have "t_user_id x = t_user_id t \<and> t_family_expires_at x = t_family_expires_at t \<and> t_used_at x \<noteq> None"
    if x: "x \<in> set (refresh_tokens w3)" "t_family_id x = t_family_id t" for x
  proof -
    have "x \<in> set (refresh_tokens (mark_used (t_id t) now w))" using x(1) by (simp add: s(1))
    from marked_mem [OF this] obtain x0 where x0: "x0 \<in> set (refresh_tokens w)"
        "x = (if t_id x0 = t_id t then x0\<lparr>t_used_at := Some now\<rparr> else x0)" by blast
    then have f: "t_family_id x0 = t_family_id t" using x(2) by (auto split: if_splits)
    from tokens_okD(4) [OF ok x0(1) t(1) f] tokens_okD(5) [OF ok x0(1) t(1) f _ t(2)] x0(2)
    show ?thesis by (auto split: if_splits)
  qed
  then have "tokens_ok w4"
    using tokens_ok_insert [OF ok3 s(2)] t(3) by (simp add: child_token_def)
  then show ?thesis by (simp add: s(3) tokens_ok_def)
qed

lemma revoke_family_result:
  assumes "revoke_family cr raw now w = Inr w'"
  shows "w' = w \<or> (\<exists>f. w' = revoke_where (\<lambda>t. t_family_id t = f) now w)"
  using assms by (auto simp: revoke_family_def bind_r_Inr split: option.splits)

lemma revoke_family_known:
  assumes "resolve_token (x_sha256_hex cr raw) w = Inr (Some t)" "distinct (map u_id (users w))"
    and "u \<in> set (users w)" "u_id u = t_user_id t"
  shows "revoke_family cr raw now w = Inr (revoke_where (\<lambda>s. t_family_id s = t_family_id t) now w)"
  using assms filter_key_distinct [OF assms(2-4)] by (simp add: revoke_family_def)

lemma audited_tokens: "audited w w' \<Longrightarrow> refresh_tokens w' = refresh_tokens w"
  by (auto simp: audited_def)

lemma report_reuse_steps:
  assumes "report_reuse cr raw uid fid req now w = Inr (x, w')"
  shows "\<exists>w1. revoke_family cr raw now w = Inr w1 \<and> refresh_tokens w' = refresh_tokens w1"
proof -
  from assms obtain w1 a where "revoke_family cr raw now w = Inr w1"
      "append_audit_log ''auth.refresh_reuse'' ''refresh_family'' (Some fid) (Some uid) req
       (JObj [(''user_id'', JStr (uuid_str uid)), (''family_id'', JStr (uuid_str fid)),
              (''event_category'', JStr ''refresh_reuse'')]) now w1 = Inr (a, w')"
    by (auto simp: report_reuse_def bind_r_Inr)
  then show ?thesis using audited_tokens [OF append_audit_audited] by blast
qed

text \<open>The table after a rotation: unchanged, a family revoked, or a child issued.\<close>

lemma rotate_refresh_cases:
  assumes "rotate_refresh cr g raw now w = (res, w')"
  obtains (refused) e where "res = Inl e" "refresh_tokens w' = refresh_tokens w"
  | (reuse) e f where "res = Inl e" "refresh_tokens w' = refresh_tokens (revoke_where (\<lambda>t. t_family_id t = f) now w)"
  | (rotated) r t u where "res = Inr r" "resolve_token (x_sha256_hex cr raw) w = Inr (Some t)"
      "u \<in> set (users w)" "u_id u = t_user_id t" "u_enabled u" "t_revoked_at t = None" "t_used_at t = None"
      "now < t_expires_at t" "now < t_family_expires_at t" "issue_child cr g u t now (begin_tx w) = Inr (r, w')"
proof (cases "rotate_locked cr g raw now (begin_tx w)")
  case (Inl e)
  show ?thesis by (rule refused [of e]) (use assms Inl in \<open>auto simp: rotate_refresh_def\<close>)
next
  case (Inr p)
  obtain out w1 where p: "rotate_locked cr g raw now (begin_tx w) = Inr (out, w1)" using Inr by (cases p) auto
  have bt: "refresh_tokens (begin_tx w) = refresh_tokens w" "users (begin_tx w) = users w"
    by (simp_all add: begin_tx_def)
  from rotate_locked_steps [OF p] obtain t u where t: "resolve_token (x_sha256_hex cr raw) w = Inr (Some t)"
      "u \<in> set (users w)" "u_id u = t_user_id t" "u_enabled u" "t_revoked_at t = None"
      "now < t_expires_at t" "now < t_family_expires_at t"
      "if t_used_at t \<noteq> None then out = Reused (t_user_id t) (t_family_id t) \<and> w1 = begin_tx w
       else \<exists>res. issue_child cr g u t now (begin_tx w) = Inr (res, w1) \<and> out = Rotated res"
    by (auto simp: resolve_token_def bt)
  show ?thesis
  proof (cases "t_used_at t")
    case None
    then obtain r where r: "issue_child cr g u t now (begin_tx w) = Inr (r, w1)" "out = Rotated r"
      using t(8) by auto
    then have "res = Inr r" "w' = w1" using assms p by (simp_all add: rotate_refresh_def)
    with rotated t None r show ?thesis by blast
  next
    case (Some a)
    then have out: "out = Reused (t_user_id t) (t_family_id t)" using t(8) by simp
    let ?w0 = "w\<lparr>drawn := Suc (drawn w)\<rparr>" and ?req = "uuid_src w (drawn w)"
    show ?thesis
    proof (cases "report_reuse cr raw (t_user_id t) (t_family_id t) ?req now (begin_tx ?w0)")
      case (Inl e)
      show ?thesis
        by (rule refused [of e]) (use assms p out Inl in \<open>auto simp: rotate_refresh_def uuid4_def in_transaction_def\<close>)
    next
      case (Inr q)
      then obtain x w2 where q: "report_reuse cr raw (t_user_id t) (t_family_id t) ?req now (begin_tx ?w0) = Inr (x, w2)"
        by (cases q) auto
      then have res: "res = Inl InvalidRefreshError" "w' = w2"
        using assms p out by (simp_all add: rotate_refresh_def uuid4_def in_transaction_def)
      from report_reuse_steps [OF q] obtain w3 where w3: "revoke_family cr raw now (begin_tx ?w0) = Inr w3"
          "refresh_tokens w2 = refresh_tokens w3" by blast
      have b0: "refresh_tokens (begin_tx ?w0) = refresh_tokens w" by (simp add: begin_tx_def)
      from revoke_family_result [OF w3(1)] show ?thesis
        using refused reuse res w3(2) b0 by (auto simp: revoke_where_def)
    qed
  qed
qed

section \<open>Sessions over time\<close>

text \<open>
  What can happen to the tables of accounts and tokens: a login, a rotation (whatever its
  answer), a logout, the revocation of a user's tokens, and any step that leaves the tokens
  alone. uuid4 does not hit the id of an existing family.
\<close>

inductive session_step :: "crypto \<Rightarrow> settings \<Rightarrow> db \<Rightarrow> db \<Rightarrow> bool" for cr g where
  login: "login cr g email password now w = Inr (res, w') \<Longrightarrow>
    uuid_src w (Suc (drawn w)) \<notin> t_family_id ` set (refresh_tokens w) \<Longrightarrow> session_step cr g w w'"
| rotate: "rotate_refresh cr g raw now w = (out, w') \<Longrightarrow> session_step cr g w w'"
| logout: "revoke_family cr raw now w = Inr w' \<Longrightarrow> session_step cr g w w'"
| revoke_user: "revoke_user_refresh_tokens uid now w = (n, w') \<Longrightarrow> session_step cr g w w'"
| other: "refresh_tokens w' = refresh_tokens w \<Longrightarrow> session_step cr g w w'"

inductive_cases session_stepE: "session_step cr g w w'"

lemma login_adds:
  assumes "login cr g email password now w = Inr (res, w')"
  shows "\<exists>t. refresh_tokens w' = refresh_tokens w @ [t] \<and> t_family_id t = uuid_src w (Suc (drawn w)) \<and> t_parent_id t = None \<and>
    (\<exists>w0. refresh_tokens w0 = refresh_tokens w \<and> insert_refresh t w0 = Inr w')"
proof -
  from login_steps [OF assms] obtain u w1 where s: "mint_access cr g u now w = Inr (tr_access_token res, w1)"
      "start_family cr u now w1 = Inr (tr_raw_refresh res, w')" by blast
  note w1 = mint_access_frame [OF s(1)]
  from start_family_adds [OF s(2)] show ?thesis by (auto simp: w1)
qed

lemma session_step_ok: "session_step cr g w w' \<Longrightarrow> tokens_ok w \<Longrightarrow> tokens_ok w'"
proof (induction rule: session_step.induct)
  case (login email password now w res w')
  from login_adds [OF login(1)] obtain t w0 where t: "t_family_id t = uuid_src w (Suc (drawn w))"
      "refresh_tokens w0 = refresh_tokens w" "insert_refresh t w0 = Inr w'" by blast
  have "tokens_ok w0" using login(3) t(2) by (simp add: tokens_ok_def)
  moreover have "t_family_id s \<noteq> t_family_id t" if "s \<in> set (refresh_tokens w0)" for s
    using that login(2) t(1,2) by (metis imageI)
  ultimately show ?case using tokens_ok_insert [OF _ t(3)] by blast
next
  case (rotate raw now w out w')
  have begun: "refresh_tokens (begin_tx w) = refresh_tokens w" by (simp add: begin_tx_def)
  from rotate(1) show ?case
  proof (cases rule: rotate_refresh_cases)
    case (refused e)
    then show ?thesis using rotate(2) by (simp add: tokens_ok_def)
  next
    case (reuse e f)
    then show ?thesis using revoke_where_tokens [OF rotate(2)] by (simp add: tokens_ok_def)
  next
    case (rotated r t u)
    have "tokens_ok (begin_tx w)" using rotate(2) begun by (simp add: tokens_ok_def)
    moreover have "t \<in> set (refresh_tokens (begin_tx w))"
      using resolve_token_mem [OF rotated(2)] begun by simp
    ultimately show ?thesis
      using rotated(7,4) by (intro issue_child_tokens [OF _ _ _ _ rotated(10)])
  qed
next
  case (logout raw now w w')
  from revoke_family_result [OF logout(1)] logout(2) show ?case by (auto intro: revoke_where_tokens)
next
  case (revoke_user uid now w n w')
  then show ?case by (auto simp: revoke_user_refresh_tokens_def intro: revoke_where_tokens)
next
  case (other w' w)
  then show ?case by (simp add: tokens_ok_def)
qed

text \<open>
  The tokens of a family in the order they were issued are a chain: the first has no parent,
  every other one is the child of the token issued just before it, and only the last may be
  unused.
\<close>

definition token_family :: "uuid \<Rightarrow> db \<Rightarrow> refresh_token list" where
  "token_family f w = filter (\<lambda>t. t_family_id t = f) (refresh_tokens w)"

definition token_chain :: "refresh_token list \<Rightarrow> bool" where
  "token_chain ts = (\<forall>i < length ts. t_parent_id (ts ! i) = (if i = 0 then None else Some (t_id (ts ! (i - 1)))) \<and>
     (Suc i < length ts \<longrightarrow> t_used_at (ts ! i) \<noteq> None))"

definition chained :: "db \<Rightarrow> bool" where "chained w = (\<forall>f. token_chain (token_family f w))"

lemma chain_update:
  assumes "token_chain ts" "\<And>t. t_parent_id (g t) = t_parent_id t \<and> t_id (g t) = t_id t \<and> (t_used_at t \<noteq> None \<longrightarrow> t_used_at (g t) \<noteq> None)"
  shows "token_chain (update_where P g ts)"
  using assms by (simp add: token_chain_def update_where_def)

lemma chain_single: "t_parent_id c = None \<Longrightarrow> token_chain [c]"
  by (simp add: token_chain_def)

lemma last_index: "i < length xs \<Longrightarrow> \<not> Suc i < length xs \<Longrightarrow> xs ! i = last xs"
  by (metis Suc_lessI diff_Suc_1 last_conv_nth length_0_conv not_less0)

lemma chain_snoc:
  assumes "token_chain ts" "ts \<noteq> []" "t_parent_id c = Some (t_id (last ts))" "t_used_at (last ts) \<noteq> None"
  shows "token_chain (ts @ [c])"
proof -
  have "t_used_at (ts ! i) \<noteq> None" if "i < length ts" for i
    using assms(1,4) that last_index [OF that] by (cases "Suc i < length ts") (simp_all add: token_chain_def)
  then show ?thesis using assms(1-3) by (auto simp: token_chain_def nth_append last_conv_nth less_Suc_eq)
qed

lemma chain_unused_last:
  assumes "token_chain ts" "t \<in> set ts" "t_used_at t = None"
  shows "t = last ts"
proof -
  obtain i where i: "i < length ts" "ts ! i = t" using assms(2) by (auto simp: in_set_conv_nth)
  then have "\<not> Suc i < length ts" using assms(1,3) by (auto simp: token_chain_def)
  then have "i = length ts - 1" using i(1) by simp
  then show ?thesis using i by (metis last_conv_nth length_0_conv not_less0)
qed

lemma family_update:
  assumes "refresh_tokens w' = update_where P g (refresh_tokens w)" "\<And>t. t_family_id (g t) = t_family_id t"
  shows "token_family f w' = update_where P g (token_family f w)"
  using assms(2) by (simp add: token_family_def assms(1) filter_update_where)

lemma chained_update:
  assumes "chained w" "refresh_tokens w' = update_where P g (refresh_tokens w)"
    and "\<And>t. t_family_id (g t) = t_family_id t \<and> t_parent_id (g t) = t_parent_id t \<and> t_id (g t) = t_id t \<and>
      (t_used_at t \<noteq> None \<longrightarrow> t_used_at (g t) \<noteq> None)"
  shows "chained w'"
  using assms chain_update [of "token_family f w" g P for f] by (simp add: chained_def family_update [OF assms(2)])

lemma chained_revoke: "chained w \<Longrightarrow> chained (revoke_where P now w)"
  by (erule chained_update [where g = "\<lambda>t. t\<lparr>t_revoked_at := Some now\<rparr>"]) (simp_all add: revoke_where_def)

lemma chained_child:
  assumes ch: "chained w" and t: "t \<in> set (refresh_tokens w)" "t_used_at t = None"
    and new: "refresh_tokens w' = refresh_tokens (mark_used (t_id t) now w) @ [c]" "t_family_id c = t_family_id t"
      "t_parent_id c = Some (t_id t)"
  shows "chained w'"
  unfolding chained_def
proof
  fix f
  let ?g = "\<lambda>t. t\<lparr>t_used_at := Some now\<rparr>" and ?ts = "token_family f (mark_used (t_id t) now w)"
  have ts: "?ts = update_where (\<lambda>x. t_id x = t_id t) ?g (token_family f w)"
    by (rule family_update) (simp_all add: mark_used_def)
  have old: "token_chain (token_family f w)" using ch by (simp add: chained_def)
  then have mark: "token_chain ?ts" unfolding ts by (rule chain_update) simp
  show "token_chain (token_family f w')"
  proof (cases "f = t_family_id t")
    case True
    then have mem: "t \<in> set (token_family f w)" using t(1) by (simp add: token_family_def)
    then have "t = last (token_family f w)" using chain_unused_last [OF old] t(2) by blast
    moreover have "token_family f w \<noteq> []" using mem by auto
    ultimately have "?ts \<noteq> []" "t_id (last ?ts) = t_id t" "t_used_at (last ?ts) \<noteq> None"
      unfolding ts by (auto simp: update_where_def last_map)
    then have "token_chain (?ts @ [c])" using mark new(3) by (intro chain_snoc) simp_all
    then show ?thesis using True new(1,2) by (simp add: token_family_def)
  next
    case False
    then have "token_family f w' = ?ts" using new(1,2) by (simp add: token_family_def)
    then show ?thesis using mark by simp
  qed
qed

lemma session_step_chained: "session_step cr g w w' \<Longrightarrow> chained w \<Longrightarrow> chained w'"
proof (induction rule: session_step.induct)
  case (login email password now w res w')
  from login_adds [OF login(1)] obtain t where t: "refresh_tokens w' = refresh_tokens w @ [t]"
      "t_family_id t = uuid_src w (Suc (drawn w))" "t_parent_id t = None" by blast
  have none: "filter (\<lambda>s. t_family_id s = t_family_id t) (refresh_tokens w) = []"
    using login(2) t(2) by (force simp: filter_empty_conv)
  have "token_chain (token_family f w')" for f
    using login(3) none chain_single [OF t(3)] by (cases "f = t_family_id t") (simp_all add: chained_def token_family_def t(1))
  then show ?case by (simp add: chained_def)
next
  case (rotate raw now w out w')
  have begun: "refresh_tokens (begin_tx w) = refresh_tokens w" by (simp add: begin_tx_def)
  from rotate(1) show ?case
  proof (cases rule: rotate_refresh_cases)
    case (refused e)
    then show ?thesis using rotate(2) by (simp add: chained_def token_family_def)
  next
    case (reuse e f)
    then show ?thesis using chained_revoke [OF rotate(2)] by (simp add: chained_def token_family_def)
  next
    case (rotated r t u)
    have "chained (begin_tx w)" using rotate(2) begun by (simp add: chained_def token_family_def)
    moreover have "t \<in> set (refresh_tokens (begin_tx w))" using resolve_token_mem [OF rotated(2)] begun by simp
    ultimately show ?thesis using issue_child_adds [OF rotated(10)] rotated(7) chained_child by metis
  qed
next
  case (logout raw now w w')
  from revoke_family_result [OF logout(1)] logout(2) show ?case by (auto intro: chained_revoke)
next
  case (revoke_user uid now w n w')
  then show ?case by (auto simp: revoke_user_refresh_tokens_def intro: chained_revoke)
next
  case (other w' w)
  then show ?case by (simp add: chained_def token_family_def)
qed

text \<open>
  C20: whatever sequence of logins, rotations, logouts and revocations runs, the tokens of
  every family are a chain in the order they were issued: the first has no parent, every other
  one names the token it was rotated from, the one issued just before it, as its parent, and
  all but the last are used. So a session has at most one unused refresh token at a time; all
  tokens of a family belong to one user and none outlives the family.
\<close>

theorem one_live_token:
  assumes "tokens_ok w" "chained w" "(session_step cr g)\<^sup>*\<^sup>* w w'"
  shows "token_chain (token_family f w') \<and>
    (\<forall>s \<in> set (token_family f w'). \<forall>t \<in> set (token_family f w'). t_user_id s = t_user_id t \<and>
       t_expires_at s \<le> t_family_expires_at t \<and> (t_used_at s = None \<and> t_used_at t = None \<longrightarrow> s = t))"
proof -
  have ok: "tokens_ok w'" using assms(3,1) by (induction rule: rtranclp_induct) (auto intro: session_step_ok)
  have "chained w'" using assms(3,2) by (induction rule: rtranclp_induct) (auto intro: session_step_chained)
  then have "token_chain (token_family f w')" unfolding chained_def by blast
  moreover have "t_user_id s = t_user_id t \<and> t_expires_at s \<le> t_family_expires_at t \<and>
      (t_used_at s = None \<and> t_used_at t = None \<longrightarrow> s = t)"
    if "s \<in> set (token_family f w')" "t \<in> set (token_family f w')" for s t
  proof -
    have mem: "s \<in> set (refresh_tokens w')" "t \<in> set (refresh_tokens w')" "t_family_id s = t_family_id t"
      using that by (simp_all add: token_family_def)
    have user: "t_user_id s = t_user_id t" and late: "t_family_expires_at s = t_family_expires_at t"
      using tokens_okD(4) [OF ok mem] by (rule conjunct1, rule conjunct2)
    have "t_expires_at s \<le> t_family_expires_at t" using tokens_okD(3) [OF ok mem(1)] unfolding late .
    then show ?thesis using user tokens_okD(5) [OF ok mem] by (intro conjI impI) (assumption, assumption, elim conjE)
  qed
  ultimately show ?thesis by blast
qed

text \<open>A family all of whose tokens are revoked.\<close>

definition family_dead :: "uuid \<Rightarrow> db \<Rightarrow> bool" where
  "family_dead f w \<longleftrightarrow> f \<in> t_family_id ` set (refresh_tokens w) \<and>
     (\<forall>t \<in> set (refresh_tokens w). t_family_id t = f \<longrightarrow> t_revoked_at t \<noteq> None)"

lemma families_kept:
  assumes "\<And>t. t_family_id (g t) = t_family_id t"
  shows "t_family_id ` set (update_where P g ts) = t_family_id ` set ts"
proof -
  have "map t_family_id (update_where P g ts) = map t_family_id ts" using assms by (simp add: map_update_where)
  then show ?thesis by (metis set_map)
qed

lemma family_dead_revoke: "family_dead f w \<Longrightarrow> family_dead f (revoke_where P now w)"
  by (auto simp: family_dead_def revoke_where_def families_kept elim!: in_update_whereE)

lemma revoke_where_dead:
  "f \<in> t_family_id ` set (refresh_tokens w) \<Longrightarrow> family_dead f (revoke_where (\<lambda>t. t_family_id t = f) now w)"
  by (auto simp: family_dead_def revoke_where_def families_kept elim!: in_update_whereE)

lemma family_dead_cong: "refresh_tokens w' = refresh_tokens w \<Longrightarrow> family_dead f w' = family_dead f w"
  by (simp add: family_dead_def)

lemma family_dead_append:
  "family_dead f w \<Longrightarrow> refresh_tokens w' = refresh_tokens w @ [t] \<Longrightarrow> t_family_id t \<noteq> f \<Longrightarrow> family_dead f w'"
  by (auto simp: family_dead_def)

lemma family_dead_marked: "family_dead f w \<Longrightarrow> family_dead f (mark_used i now w)"
  by (auto simp: family_dead_def mark_used_def families_kept elim!: in_update_whereE)

lemma session_step_dead: "session_step cr g w w' \<Longrightarrow> family_dead f w \<Longrightarrow> family_dead f w'"
proof (induction rule: session_step.induct)
  case (login email password now w res w')
  from login_adds [OF login(1)] obtain t where t: "refresh_tokens w' = refresh_tokens w @ [t]"
      "t_family_id t = uuid_src w (Suc (drawn w))" by blast
  have "t_family_id t \<noteq> f" using login(2,3) t(2) by (auto simp: family_dead_def)
  then show ?case by (rule family_dead_append [OF login(3) t(1)])
next
  case (rotate raw now w out w')
  have begun: "refresh_tokens (begin_tx w) = refresh_tokens w" by (simp add: begin_tx_def)
  from rotate(1) show ?case
  proof (cases rule: rotate_refresh_cases)
    case (refused e)
    then show ?thesis using rotate(2) by (simp add: family_dead_def)
  next
    case (reuse e h)
    then show ?thesis using family_dead_revoke [OF rotate(2)] by (simp add: family_dead_def)
  next
    case (rotated r t u)
    then have "t_family_id t \<noteq> f" using rotate(2) resolve_token_mem [OF rotated(2)] by (auto simp: family_dead_def)
    moreover obtain c where "refresh_tokens w' = refresh_tokens (mark_used (t_id t) now (begin_tx w)) @ [c]"
        "t_family_id c = t_family_id t"
      using issue_child_adds [OF rotated(10)] by blast
    moreover have "family_dead f (mark_used (t_id t) now (begin_tx w))"
      by (rule family_dead_marked) (use rotate(2) begun in \<open>simp add: family_dead_def\<close>)
    ultimately show ?thesis by (metis family_dead_append)
  qed
next
  case (logout raw now w w')
  from revoke_family_result [OF logout(1)] logout(2) show ?case by (auto intro: family_dead_revoke)
next
  case (revoke_user uid now w n w')
  then show ?case by (auto simp: revoke_user_refresh_tokens_def intro: family_dead_revoke)
next
  case (other w' w)
  then show ?case by (simp add: family_dead_def)
qed

text \<open>
  A revoked family stays dead: after a logout or a detected reuse, no later rotation
  ever succeeds with one of its tokens.
\<close>

theorem dead_family_never_rotates:
  assumes "family_dead f w" "(session_step cr g)\<^sup>*\<^sup>* w w'"
    and "rotate_refresh cr g raw now w' = (Inr res, w'')"
  shows "\<forall>t \<in> set (refresh_tokens w'). t_token_hash t = x_sha256_hex cr raw \<longrightarrow> t_family_id t \<noteq> f"
proof (intro ballI impI notI)
  fix t
  assume t: "t \<in> set (refresh_tokens w')" "t_token_hash t = x_sha256_hex cr raw" "t_family_id t = f"
  have dead: "family_dead f w'" using assms(2,1) by (induction rule: rtranclp_induct) (auto intro: session_step_dead)
  from assms(3) show False
  proof (cases rule: rotate_refresh_cases)
    case (rotated r s u)
    have "t \<in> set (filter (\<lambda>t. t_token_hash t = x_sha256_hex cr raw) (refresh_tokens w'))" using t by simp
    then have "t \<in> set [s]" using rotated(2) unfolding resolve_token_def scalar_Some by metis
    then have "t = s" by simp
    then show ?thesis using rotated(6) dead t by (auto simp: family_dead_def)
  qed simp_all
qed

section \<open>Rotation, refusal and registration\<close>

text \<open>
  A rotation succeeds only for a token that exists, has not been used or revoked and has
  not expired, of an enabled user; it marks that token used and adds exactly one child, in
  the same family, that expires after seven days but not after the family.
\<close>

theorem rotate_refresh_success:
  assumes "rotate_refresh cr g raw now w = (Inr res, w')"
  shows "\<exists>t u c. t \<in> set (refresh_tokens w) \<and> t_token_hash t = x_sha256_hex cr raw \<and> t_used_at t = None \<and>
    t_revoked_at t = None \<and> now < t_expires_at t \<and> now < t_family_expires_at t \<and>
    u \<in> set (users w) \<and> u_id u = t_user_id t \<and> u_enabled u \<and>
    refresh_tokens w' = update_where (\<lambda>s. t_id s = t_id t) (\<lambda>s. s\<lparr>t_used_at := Some now\<rparr>) (refresh_tokens w) @ [c] \<and>
    t_family_id c = t_family_id t \<and> t_parent_id c = Some (t_id t) \<and> t_user_id c = u_id u \<and>
    t_used_at c = None \<and> t_revoked_at c = None \<and> t_token_hash c = x_sha256_hex cr (tr_raw_refresh res) \<and>
    t_expires_at c = min (now + days 7) (t_family_expires_at t)"
  using assms
proof (cases rule: rotate_refresh_cases)
  case (rotated r t u)
  from issue_child_adds [OF rotated(10)] obtain c where c:
    "refresh_tokens w' = refresh_tokens (mark_used (t_id t) now (begin_tx w)) @ [c]"
    "t_family_id c = t_family_id t" "t_parent_id c = Some (t_id t)" "t_user_id c = u_id u"
    "t_used_at c = None" "t_revoked_at c = None" "t_token_hash c = x_sha256_hex cr (tr_raw_refresh r)"
    "t_expires_at c = min (now + days 7) (t_family_expires_at t)"
    by blast
  have "refresh_tokens (mark_used (t_id t) now (begin_tx w))
      = update_where (\<lambda>s. t_id s = t_id t) (\<lambda>s. s\<lparr>t_used_at := Some now\<rparr>) (refresh_tokens w)"
    by (simp add: mark_used_def begin_tx_def)
  then show ?thesis
    using c rotated resolve_token_mem [OF rotated(2)] by (intro exI [of _ t] exI [of _ u] exI [of _ c]) simp
qed simp_all

lemma resolve_token_found:
  assumes "distinct (map t_token_hash (refresh_tokens w))" "t \<in> set (refresh_tokens w)" "t_token_hash t = h"
  shows "resolve_token h w = Inr (Some t)"
  unfolding resolve_token_def by (simp add: filter_key_distinct [OF assms])

text \<open>
  C21: presenting a token that was used before, while it is neither revoked nor expired, is
  refused, and the refusal leaves every token of its family revoked and one audit row
  behind: whoever holds the stolen or the genuine successor is logged out.
\<close>

theorem refresh_reuse_revokes:
  assumes "tokens_ok w" "distinct (map u_id (users w))" "fresh_ids 2 w"
    and t: "t \<in> set (refresh_tokens w)" "t_token_hash t = x_sha256_hex cr raw" "t_used_at t \<noteq> None"
      "t_revoked_at t = None" "now < t_expires_at t" "now < t_family_expires_at t"
    and u: "u \<in> set (users w)" "u_id u = t_user_id t" "u_enabled u"
  shows "\<exists>w' a. rotate_refresh cr g raw now w = (Inl InvalidRefreshError, w') \<and>
    family_dead (t_family_id t) w' \<and> audit_log w' = audit_log w @ [a] \<and>
    a_action a = ''auth.refresh_reuse'' \<and> a_target_id a = Some (t_family_id t) \<and> users w' = users w"
proof -
  let ?w0 = "begin_tx (w\<lparr>drawn := Suc (drawn w)\<rparr>)"
  have tabs: "refresh_tokens (begin_tx x) = refresh_tokens x" "users (begin_tx x) = users x" for x
    by (simp_all add: begin_tx_def)
  have res: "resolve_token (x_sha256_hex cr raw) x = Inr (Some t)" if "refresh_tokens x = refresh_tokens w" for x
    using tokens_okD(2) [OF assms(1)] t(1,2) that by (intro resolve_token_found) simp_all
  have usr: "filter (\<lambda>x. u_id x = t_user_id t) (users w) = [u]"
    using filter_key_distinct [OF assms(2) u(1,2)] .
  have locked: "rotate_locked cr g raw now (begin_tx w) = Inr (Reused (t_user_id t) (t_family_id t), begin_tx w)"
    using t u usr by (simp add: rotate_locked_def res tabs)
  let ?w1 = "revoke_where (\<lambda>s. t_family_id s = t_family_id t) now ?w0"
  have rev: "revoke_family cr raw now ?w0 = Inr ?w1"
    using revoke_family_known [of cr raw ?w0 t u now] res [of ?w0] assms(2) u by (simp add: tabs)
  have "fresh_ids (Suc (Suc 0)) w" using assms(3) by (simp add: numeral_2_eq_2)
  then have "fresh_ids (Suc 0) (w\<lparr>drawn := Suc (drawn w)\<rparr>)" by (rule fresh_ids_draw) (auto simp: ids_def)
  then have fresh: "fresh_ids (Suc 0) ?w1"
    by (rule fresh_ids_same [rotated 3]) (simp_all add: begin_tx_def revoke_where_def ids_def)
  have "\<forall>p. Some (t_user_id t) = Some p \<longrightarrow> p \<in> u_id ` set (users ?w1)"
    using imageI [OF u(1), of u_id] u(2) by (simp add: revoke_where_def begin_tx_def)
  from append_audit_total [OF fresh this, of "''auth.refresh_reuse''" "''refresh_family''" "Some (t_family_id t)"
      "uuid_src w (drawn w)" "JObj [(''user_id'', JStr (uuid_str (t_user_id t))),
        (''family_id'', JStr (uuid_str (t_family_id t))), (''event_category'', JStr ''refresh_reuse'')]" now]
  obtain a where a: "append_audit_log ''auth.refresh_reuse'' ''refresh_family'' (Some (t_family_id t)) (Some (t_user_id t))
        (uuid_src w (drawn w)) (JObj [(''user_id'', JStr (uuid_str (t_user_id t))),
        (''family_id'', JStr (uuid_str (t_family_id t))), (''event_category'', JStr ''refresh_reuse'')]) now ?w1
      = Inr (a, ?w1\<lparr>drawn := Suc (drawn ?w1), audit_log := audit_log ?w1 @ [a]\<rparr>)"
    "a_action a = ''auth.refresh_reuse''" "a_target_id a = Some (t_family_id t)"
    by blast
  let ?w2 = "?w1\<lparr>drawn := Suc (drawn ?w1), audit_log := audit_log ?w1 @ [a]\<rparr>"
  have run: "rotate_refresh cr g raw now w = (Inl InvalidRefreshError, ?w2)"
    using a(1) by (simp add: rotate_refresh_def locked uuid4_def in_transaction_def report_reuse_def rev)
  have "family_dead (t_family_id t) ?w1"
    using t(1) by (intro revoke_where_dead) (simp add: begin_tx_def)
  then have "family_dead (t_family_id t) ?w2" by (simp add: family_dead_def)
  with run a show ?thesis
    by (intro exI [of _ ?w2] exI [of _ a]) (simp add: revoke_where_def begin_tx_def)
qed

text \<open>
  A refused login does not tell why: an address that is no address, an unknown account,
  a wrong password and a disabled account all raise InvalidCredentialsError.
\<close>

theorem login_refusal_uniform:
  assumes "distinct (map u_email (users w))" "distinct (map u_id (users w))"
    and "\<not> (\<exists>u \<in> set (users w). u_enabled u \<and> x_verify cr (u_password_hash u) password \<and>
      normalize_email (x_validator cr) email = Inr (u_email u))"
  shows "login cr g email password now w = Inl InvalidCredentialsError"
proof (cases "normalize_email (x_validator cr) email")
  case (Inl e)
  then show ?thesis by (simp add: login_def)
next
  case (Inr n)
  show ?thesis
  proof (cases "\<exists>u \<in> set (users w). u_email u = n")
    case False
    then have "filter (\<lambda>u. u_email u = n) (users w) = []" by (simp add: filter_empty_conv)
    then show ?thesis using Inr by (simp add: login_def)
  next
    case True
    then obtain u where u: "u \<in> set (users w)" "u_email u = n" by blast
    have "filter (\<lambda>u. u_email u = n) (users w) = [u]" "filter (\<lambda>x. u_id x = u_id u) (users w) = [u]"
      using filter_key_distinct [OF assms(1) u] filter_key_distinct [OF assms(2) u(1) refl] by simp_all
    then show ?thesis using Inr u assms(3) by (auto simp: login_def)
  qed
qed

lemma register_steps:
  assumes "register cr d now req_id w = Inr (out, w')"
  shows "\<exists>i u. i \<in> set (invitations w) \<and> i_token_hash i = x_sha256_hex cr (rg_invitation_token d) \<and>
    i_consumed_at i = None \<and> now < i_expires_at i \<and>
    normalize_email (x_validator cr) (rg_email d) = Inr (u_email u) \<and> py_lower (py_strip (i_email i)) = u_email u \<and>
    u_email u \<notin> u_email ` set (users w) \<and> u_role u = i_role i \<and> u_enabled u \<and>
    users w' = users w @ [u] \<and> out = user_view u \<and>
    invitations w' = update_where (\<lambda>j. i_id j = i_id i) (\<lambda>j. j\<lparr>i_consumed_at := Some now\<rparr>) (invitations w)"
proof (cases "normalize_email (x_validator cr) (rg_email d)")
  case (Inl e)
  then show ?thesis using assms by (simp add: register_def)
next
  case (Inr n)
  from assms Inr obtain i where
    i: "scalar_one_or_none (filter (\<lambda>i. i_token_hash i = x_sha256_hex cr (rg_invitation_token d)) (invitations w)) = Inr (Some i)"
    by (auto simp: register_def bind_r_Inr split: option.splits)
  have mem: "i \<in> set (filter (\<lambda>i. i_token_hash i = x_sha256_hex cr (rg_invitation_token d)) (invitations w))"
    using i unfolding scalar_Some by simp
  from assms Inr i obtain pwd where ok: "i_consumed_at i = None" "now < i_expires_at i" "py_lower (py_strip (i_email i)) = n"
      "hash_password (x_argon2 cr) (rg_password d) = Inr pwd"
    by (auto simp: register_def bind_r_Inr split: option.splits if_splits)
  define u where "u = \<lparr>u_id = uuid_src w (drawn w), u_email = n, u_password_hash = pwd,
      u_display_name = py_strip (rg_display_name d), u_role = i_role i, u_enabled = True,
      u_version = 1, u_created_at = now, u_updated_at = now\<rparr>"
  from assms Inr i ok obtain w2 where w2: "registration_conflict (insert_user u (w\<lparr>drawn := Suc (drawn w)\<rparr>)) = Inr w2"
    and rest: "(let w3 = w2\<lparr>invitations := update_where (\<lambda>j. i_id j = i_id i) (\<lambda>j. j\<lparr>i_consumed_at := Some now\<rparr>) (invitations w2)\<rparr>;
           (req, w4) = (case req_id of Some r \<Rightarrow> (r, w3) | None \<Rightarrow> uuid4 w3)
       in bind_r (append_audit_log ''auth.register'' ''user'' (Some (u_id u)) (Some (u_id u)) req
         (JObj [(''email'', JStr n), (''role'', JStr (role_name (i_role i))), (''invitation_id'', JStr (uuid_str (i_id i)))]) now w4)
         (\<lambda>(_, w5). Inr (user_view u, w5))) = Inr (out, w')"
    by (auto simp: register_def bind_r_Inr u_def uuid4_def Let_def split: if_splits)
  have "insert_user u (w\<lparr>drawn := Suc (drawn w)\<rparr>) = Inr w2"
    using w2 by (auto simp: registration_conflict_def split: sum.splits exn.splits if_splits)
  then have ins: "u_email u \<notin> u_email ` set (users w)" "w2 = w\<lparr>drawn := Suc (drawn w), users := users w @ [u]\<rparr>"
    unfolding insert_user_def by (cases "user_check u"; auto split: if_splits simp del: image_iff)+
  let ?w3 = "w2\<lparr>invitations := update_where (\<lambda>j. i_id j = i_id i) (\<lambda>j. j\<lparr>i_consumed_at := Some now\<rparr>) (invitations w2)\<rparr>"
  obtain req w4 where w4: "(case req_id of Some r \<Rightarrow> (r, ?w3) | None \<Rightarrow> uuid4 ?w3) = (req, w4)"
    by fastforce
  then have w4t: "users w4 = users ?w3" "invitations w4 = invitations ?w3"
    by (auto simp: uuid4_def split: option.splits)
  from rest w4 obtain a where a: "append_audit_log ''auth.register'' ''user'' (Some (u_id u)) (Some (u_id u)) req
        (JObj [(''email'', JStr n), (''role'', JStr (role_name (i_role i))), (''invitation_id'', JStr (uuid_str (i_id i)))]) now w4
      = Inr (a, w')" "out = user_view u"
    by (auto simp: bind_r_Inr)
  have "users w' = users w4" "invitations w' = invitations w4"
    using append_audit_audited [OF a(1)] by (auto simp: audited_def)
  then have "users w' = users w @ [u]"
      "invitations w' = update_where (\<lambda>j. i_id j = i_id i) (\<lambda>j. j\<lparr>i_consumed_at := Some now\<rparr>) (invitations w)"
    by (simp_all add: w4t ins(2))
  with mem ok ins(1) a(2) Inr show ?thesis
    by (intro exI [of _ i] exI [of _ u]) (auto simp: u_def)
qed

text \<open>
  A registration succeeds only on an invitation that exists, is unconsumed and unexpired
  and was sent to the registered address; it creates one enabled user with the role of the
  invitation, whatever the request says, and consumes the invitation.
\<close>

theorem register_effect:
  assumes "register cr d now req_id w = Inr (out, w')"
  shows "\<exists>i u. i \<in> set (invitations w) \<and> i_token_hash i = x_sha256_hex cr (rg_invitation_token d) \<and>
    i_consumed_at i = None \<and> now < i_expires_at i \<and>
    normalize_email (x_validator cr) (rg_email d) = Inr (u_email u) \<and> py_lower (py_strip (i_email i)) = u_email u \<and>
    u_email u \<notin> u_email ` set (users w) \<and> u_role u = i_role i \<and> u_enabled u \<and>
    users w' = users w @ [u] \<and> out = user_view u \<and>
    invitations w' = update_where (\<lambda>j. i_id j = i_id i) (\<lambda>j. j\<lparr>i_consumed_at := Some now\<rparr>) (invitations w)"
  using assms by (rule register_steps)

text \<open>
  C22: an invitation is used once: after a successful registration, any registration with
  the same token is refused as long as the invitations are as it left them.
\<close>

theorem invitation_single_use:
  assumes "distinct (map i_token_hash (invitations w))"
    and "register cr d now req_id w = Inr (out, w')"
    and "invitations w2 = invitations w'" "rg_invitation_token d2 = rg_invitation_token d"
  shows "register cr d2 now2 req2 w2 = Inl InvalidInvitationError"
proof -
  from register_steps [OF assms(2)] obtain i where i: "i \<in> set (invitations w)"
      "i_token_hash i = x_sha256_hex cr (rg_invitation_token d)"
      "invitations w' = update_where (\<lambda>j. i_id j = i_id i) (\<lambda>j. j\<lparr>i_consumed_at := Some now\<rparr>) (invitations w)"
    by blast
  let ?i = "i\<lparr>i_consumed_at := Some now\<rparr>"
  have "map i_token_hash (invitations w2) = map i_token_hash (invitations w)"
    unfolding assms(3) i(3) by (rule map_update_where) simp
  then have d: "distinct (map i_token_hash (invitations w2))" using assms(1) by simp
  have "?i \<in> set (invitations w2)" using i(1) by (auto simp: assms(3) i(3) set_update_where)
  from filter_key_distinct [OF d this, of "x_sha256_hex cr (rg_invitation_token d2)"] i(2) assms(4)
  have "filter (\<lambda>j. i_token_hash j = x_sha256_hex cr (rg_invitation_token d2)) (invitations w2) = [?i]" by simp
  then show ?thesis by (simp add: register_def split: sum.splits)
qed

section \<open>Witnesses\<close>

definition ex_crypto :: crypto where
  "ex_crypto = \<lparr>x_sha256_hex = (\<lambda>s. s), x_argon2 = (\<lambda>s. s), x_verify = (\<lambda>h p. h = p), x_validator = Some,
     x_jwt_encode = (\<lambda>_ _. ''jwt'')\<rparr>"

definition ex_settings :: settings where
  "ex_settings = \<lparr>g_app_env = EnvTest, g_app_origin = ''http://localhost:5173'',
     g_jwt_secret = replicate 32 (CHR ''k''), g_jwt_issuer = ''commonsbook'', g_jwt_audience = ''commonsbook-web'',
     g_access_token_ttl_seconds = 900, g_rate_limit_hmac_secret = replicate 32 (CHR ''h''), g_test_profile = ''standard'',
     g_email_enabled = False, g_metrics_token = [], g_sentry_dsn = [], g_grafana_remote_write_url = []\<rparr>"

definition ex_account :: user where
  "ex_account = \<lparr>u_id = 11, u_email = ''a@b.c'', u_password_hash = ''correct horse'', u_display_name = ''A'',
     u_role = Member, u_enabled = True, u_version = 1, u_created_at = 0, u_updated_at = 0\<rparr>"

definition ex_token :: "uuid \<Rightarrow> string \<Rightarrow> uuid \<Rightarrow> uuid option \<Rightarrow> time option \<Rightarrow> time option \<Rightarrow> refresh_token" where
  "ex_token i h f p used revoked = \<lparr>t_id = i, t_user_id = 11, t_token_hash = h, t_family_id = f, t_parent_id = p,
     t_created_at = 0, t_expires_at = days 7, t_family_expires_at = days 30, t_used_at = used, t_revoked_at = revoked\<rparr>"

definition ex_invite :: invitation where
  "ex_invite = \<lparr>i_id = 70, i_email = ''n@b.c'', i_token_hash = ''invite'', i_role = Member, i_created_by = Some 11,
     i_created_at = 0, i_expires_at = days 7, i_consumed_at = None\<rparr>"

definition ex_session_db :: db where
  "ex_session_db = (empty_db 0)\<lparr>users := [ex_account], invitations := [ex_invite], refresh_tokens :=
     [ex_token 31 ''old'' 30 None (Some 5) None, ex_token 32 ''new'' 30 (Some 31) None None,
      ex_token 41 ''gone'' 40 None None (Some 6), ex_token 51 ''live'' 50 None None None]\<rparr>"

lemma ex_secrets: "\<not> short_secret (replicate 32 c)"
  by (simp add: short_secret_def utf8_length_def)

lemma ex_session_ok: "tokens_ok ex_session_db"
  by (simp add: tokens_ok_def ex_session_db_def ex_token_def time_units)

lemma ex_rotates: "\<exists>w'. rotate_refresh ex_crypto ex_settings ''live'' (hours 1) ex_session_db
    = (Inr \<lparr>tr_access_token = ''jwt'', tr_expires_in = 900, tr_user = user_view ex_account, tr_raw_refresh = []\<rparr>, w')"
  by (simp add: rotate_refresh_def rotate_locked_def resolve_token_def begin_tx_def ex_session_db_def empty_db_def
      ex_token_def ex_account_def ex_crypto_def ex_settings_def issue_child_def mark_used_def urandom_token_def
      uuid4_def dt_add_def in_calendar_def min_instant_def max_instant_def epoch_ord_def insert_refresh_def
      child_token_def refresh_check_def check_def update_where_def mint_access_def ex_secrets time_units)

text \<open>The live token rotated: its child names it as its parent and it is used.\<close>

lemma ex_session_chained: "chained ex_session_db"
  unfolding chained_def token_family_def
  by (auto simp: ex_session_db_def ex_token_def token_chain_def less_Suc_eq)

theorem one_live_token_witness:
  "\<exists>res w' c. rotate_refresh ex_crypto ex_settings ''live'' (hours 1) ex_session_db = (Inr res, w') \<and>
     token_family 50 w' = [(ex_token 51 ''live'' 50 None None None)\<lparr>t_used_at := Some (hours 1)\<rparr>, c] \<and>
     t_parent_id c = Some 51"
proof -
  obtain res w' where run: "rotate_refresh ex_crypto ex_settings ''live'' (hours 1) ex_session_db = (Inr res, w')"
    using ex_rotates by blast
  have "(session_step ex_crypto ex_settings)\<^sup>*\<^sup>* ex_session_db w'"
    by (intro r_into_rtranclp session_step.rotate [OF run])
  note chain = conjunct1 [OF one_live_token [OF ex_session_ok ex_session_chained this, of 50]]
  from run obtain c where c: "token_family 50 w' = [(ex_token 51 ''live'' 50 None None None)\<lparr>t_used_at := Some (hours 1)\<rparr>, c]"
  proof (cases rule: rotate_refresh_cases)
    case (rotated r t u)
    have t: "t = ex_token 51 ''live'' 50 None None None"
      using resolve_token_mem [OF rotated(2)] by (auto simp: ex_session_db_def ex_token_def ex_crypto_def)
    from issue_child_adds [OF rotated(10)] obtain c where
      "refresh_tokens w' = refresh_tokens (mark_used (t_id t) (hours 1) (begin_tx ex_session_db)) @ [c]"
      "t_family_id c = t_family_id t" by blast
    then have "token_family 50 w' = [(ex_token 51 ''live'' 50 None None None)\<lparr>t_used_at := Some (hours 1)\<rparr>, c]"
      by (simp add: token_family_def t mark_used_def update_where_def begin_tx_def ex_session_db_def) (simp add: ex_token_def)
    then show ?thesis by (rule that)
  qed simp_all
  have "t_parent_id c = Some 51"
    using chain unfolding c by (simp add: token_chain_def less_Suc_eq all_conj_distrib imp_conjL ex_token_def)
  then show ?thesis using run c by blast
qed

theorem dead_family_never_rotates_witness: "t_family_id (ex_token 51 ''live'' 50 None None None) \<noteq> 40"
proof -
  have dead: "family_dead 40 ex_session_db"
    by (simp add: family_dead_def ex_session_db_def ex_token_def)
  obtain w' where run: "rotate_refresh ex_crypto ex_settings ''live'' (hours 1) ex_session_db
      = (Inr \<lparr>tr_access_token = ''jwt'', tr_expires_in = 900, tr_user = user_view ex_account, tr_raw_refresh = []\<rparr>, w')"
    using ex_rotates by blast
  have "ex_token 51 ''live'' 50 None None None \<in> set (refresh_tokens ex_session_db)"
    by (simp add: ex_session_db_def)
  with dead_family_never_rotates [OF dead rtranclp.rtrancl_refl run]
  show ?thesis by (auto simp: ex_crypto_def ex_token_def)
qed

theorem rotate_refresh_success_witness:
  "\<exists>(w' :: db) c. fst (rotate_refresh ex_crypto ex_settings ''live'' (hours 1) ex_session_db) \<noteq> Inl InvalidRefreshError \<and>
     c \<in> set (refresh_tokens w') \<and> t_used_at c = None"
proof -
  obtain w' where run: "rotate_refresh ex_crypto ex_settings ''live'' (hours 1) ex_session_db
      = (Inr \<lparr>tr_access_token = ''jwt'', tr_expires_in = 900, tr_user = user_view ex_account, tr_raw_refresh = []\<rparr>, w')"
    using ex_rotates by blast
  from rotate_refresh_success [OF run] have "\<exists>c. c \<in> set (refresh_tokens w') \<and> t_used_at c = None"
    by (elim exE conjE) auto
  then obtain c where "c \<in> set (refresh_tokens w')" "t_used_at c = None" by blast
  then show ?thesis by (intro exI [of _ w'] exI [of _ c]) (simp add: run)
qed

lemma ex_session_draws: "distinct (map (\<lambda>j. of_nat (Suc j) :: uuid) [0..<2])"
  by code_simp

lemma ex_session_fresh: "fresh_ids 2 ex_session_db"
proof -
  have "inj_on (\<lambda>j. of_nat (Suc j) :: uuid) (set [0..<2])" using ex_session_draws by (simp only: distinct_map)
  moreover have "set [0..<2] = {..<2::nat}" by (simp only: set_upt atLeast0LessThan)
  ultimately show ?thesis
    by (simp add: fresh_ids_def ids_def ex_session_db_def empty_db_def)
qed

theorem refresh_reuse_revokes_witness:
  "\<exists>w'. rotate_refresh ex_crypto ex_settings ''old'' (hours 1) ex_session_db = (Inl InvalidRefreshError, w') \<and>
     family_dead 30 w'"
proof -
  let ?t = "ex_token 31 ''old'' 30 None (Some 5) None"
  have "distinct (map u_id (users ex_session_db))" by (simp add: ex_session_db_def)
  moreover have "?t \<in> set (refresh_tokens ex_session_db)" by (simp add: ex_session_db_def)
  moreover have "t_token_hash ?t = x_sha256_hex ex_crypto ''old''" "t_used_at ?t \<noteq> None" "t_revoked_at ?t = None"
      "hours 1 < t_expires_at ?t" "hours 1 < t_family_expires_at ?t"
    by (simp_all add: ex_token_def ex_crypto_def time_units)
  moreover have "ex_account \<in> set (users ex_session_db)" "u_id ex_account = t_user_id ?t" "u_enabled ex_account"
    by (simp_all add: ex_session_db_def ex_account_def ex_token_def)
  ultimately obtain w' where "rotate_refresh ex_crypto ex_settings ''old'' (hours 1) ex_session_db
      = (Inl InvalidRefreshError, w')" "family_dead (t_family_id ?t) w'"
    using refresh_reuse_revokes [OF ex_session_ok _ ex_session_fresh, where g = ex_settings] by metis
  then show ?thesis by (auto simp: ex_token_def)
qed

theorem login_refusal_uniform_witness:
  "login ex_crypto ex_settings ''a@b.c'' ''wrong password'' (hours 1) ex_session_db = Inl InvalidCredentialsError"
  by (rule login_refusal_uniform) (simp_all add: ex_session_db_def ex_crypto_def ex_account_def)

definition ex_registration :: registration where
  "ex_registration = \<lparr>rg_invitation_token = ''invite'', rg_email = ''n@b.c'', rg_password = ''long enough pw'',
     rg_display_name = ''N''\<rparr>"

lemma ex_normalized: "normalize_email Some ''n@b.c'' = Inr ''n@b.c''" "py_lower (py_strip ''n@b.c'') = ''n@b.c''"
  "py_strip ''N'' = ''N''" "py_lower (strip_chars (\<lambda>c. c = CHR '' '') ''n@b.c'') = ''n@b.c''"
  by code_simp+

lemma ex_registers: "\<exists>out w'. register ex_crypto ex_registration (hours 1) (Some 9) ex_session_db = Inr (out, w')"
  by (simp add: register_def ex_crypto_def ex_registration_def ex_session_db_def ex_invite_def ex_normalized
      ex_account_def hash_password_def validate_password_length_def uuid4_def insert_user_def user_check_def
      check_def registration_conflict_def append_audit_log_def insert_audit_def empty_db_def Let_def time_units)

theorem register_effect_witness:
  "\<exists>u (w' :: db). u \<in> set (users w') \<and> u_role u = Member \<and> u_enabled u \<and> w' \<noteq> ex_session_db"
proof -
  obtain out w' where run: "register ex_crypto ex_registration (hours 1) (Some 9) ex_session_db = Inr (out, w')"
    using ex_registers by blast
  have inv: "invitations ex_session_db = [ex_invite]" "users ex_session_db = [ex_account]"
    by (simp_all add: ex_session_db_def)
  from register_effect [OF run] have "\<exists>u. users w' = users ex_session_db @ [u] \<and> u_role u = Member \<and> u_enabled u"
    unfolding inv by (elim exE conjE) (auto simp: ex_invite_def)
  then obtain u where "users w' = users ex_session_db @ [u]" "u_role u = Member" "u_enabled u" by blast
  then show ?thesis by (intro exI [of _ u] exI [of _ w']) auto
qed

theorem invitation_single_use_witness:
  "\<exists>w'. register ex_crypto (ex_registration\<lparr>rg_email := ''other@b.c''\<rparr>) (hours 2) None w' = Inl InvalidInvitationError"
proof -
  obtain out w' where run: "register ex_crypto ex_registration (hours 1) (Some 9) ex_session_db = Inr (out, w')"
    using ex_registers by blast
  have "distinct (map i_token_hash (invitations ex_session_db))" by (simp add: ex_session_db_def)
  from invitation_single_use [OF this run refl, of "ex_registration\<lparr>rg_email := ''other@b.c''\<rparr>" "hours 2" None]
  show ?thesis by auto
qed

end
