(* ===== verification/Access.thy ===== *)
theory Access
imports Tokens
begin

text \<open>
  The authorization dependency of every route (app/auth/dependencies.py, authorize and
  _resolve_admin_scope) and the closures it hands to the handlers to revalidate the policy
  inside their transaction. JWT verification is a parameter: decode g token is the sub claim
  of a token that verifies, None where jwt.decode raises.
\<close>

section \<open>The closures\<close>

text \<open>
  assert_current as a value: the policy and the user it was made for, or the check of a
  change of a user by an administrator, with the version pinned and the raw JSON body.
\<close>

datatype guard = Revalidate policy uuid | ChangeUser uuid uuid "int option" json

definition revalidate :: "policy \<Rightarrow> uuid \<Rightarrow> db \<Rightarrow> unit result" where
  "revalidate pol p w =
     bind_r (scalar_one_or_none (filter (\<lambda>u. u_id u = p) (users w))) (\<lambda>row.
     case row of
       None \<Rightarrow> Inl InvalidTokenError
     | Some u \<Rightarrow> if \<not> u_enabled u then Inl InvalidTokenError else enforce_policy_role pol (Some (u_role u)))"

definition active_admin :: "user \<Rightarrow> bool" where
  "active_admin u = (u_role u = Admin \<and> u_enabled u)"

text \<open>What the body asks for: a role other than admin, or enabled being the literal false.\<close>

definition remains_admin :: "json \<Rightarrow> bool" where
  "remains_admin body =
     (\<not> (case json_get body ''role'' of None \<Rightarrow> False | Some JNull \<Rightarrow> False | Some r \<Rightarrow> r \<noteq> JStr ''admin'')
      \<and> json_get body ''enabled'' \<noteq> Some (JBool False))"

definition check_user_change :: "uuid \<Rightarrow> uuid \<Rightarrow> int option \<Rightarrow> json \<Rightarrow> db \<Rightarrow> unit result" where
  "check_user_change actor target pinned body w =
     bind_r (scalar_one_or_none (filter (\<lambda>u. u_id u = actor) (users w))) (\<lambda>a.
     bind_r (scalar_one_or_none (filter (\<lambda>u. u_id u = target) (users w))) (\<lambda>t.
     if (case a of None \<Rightarrow> True | Some u \<Rightarrow> \<not> active_admin u) then Inl InvalidTokenError
     else (case t of
             None \<Rightarrow> Inl ObjectNotFoundError
           | Some u \<Rightarrow>
               if pinned \<noteq> None \<and> pinned \<noteq> Some (u_version u) then Inl VersionMismatch
               else if active_admin u \<and> \<not> remains_admin body
                 \<and> length (filter active_admin (users w)) \<le> 1
               then Inl LastAdminError else Inr ())))"

definition assert_current :: "guard option \<Rightarrow> db \<Rightarrow> unit result" where
  "assert_current g w =
     (case g of
        None \<Rightarrow> Inr ()
      | Some (Revalidate pol p) \<Rightarrow> revalidate pol p w
      | Some (ChangeUser actor target pinned body) \<Rightarrow> check_user_change actor target pinned body w)"

section \<open>The administrative scope\<close>

fun contains :: "string \<Rightarrow> string \<Rightarrow> bool" where
  "contains pat [] = (pat = [])"
| "contains pat (c # s) = (prefix pat (c # s) \<or> contains pat s)"

definition ends_with :: "string \<Rightarrow> string \<Rightarrow> bool" where
  "ends_with pat s = prefix (rev pat) (rev s)"

definition rstrip_slashes :: "string \<Rightarrow> string" where
  "rstrip_slashes s = rev (dropWhile (\<lambda>c. c = CHR ''/'') (rev s))"

definition admin_scope :: "uuid \<Rightarrow> scope" where
  "admin_scope p = own_scope PAdmin p"

text \<open>The object a path addresses: its id, its resource, and the guard of the handler.\<close>

definition find_booking_resource :: "booking_kind \<Rightarrow> uuid \<Rightarrow> db \<Rightarrow> uuid result" where
  "find_booking_resource kind i w =
     bind_r (scalar_one_or_none (filter (\<lambda>b. b_id b = i \<and> b_kind b = kind) (bookings w))) (\<lambda>row.
     case row of None \<Rightarrow> Inl ObjectNotFoundError | Some b \<Rightarrow> Inr (b_resource_id b))"

definition address_admin_object ::
  "request \<Rightarrow> json \<Rightarrow> uuid \<Rightarrow> uuid \<Rightarrow> int option \<Rightarrow> uuid option \<Rightarrow> db \<Rightarrow> (scope \<times> guard) result" where
  "address_admin_object rq body p i pinned req w =
     (let sc = (admin_scope p)\<lparr>expected_version := pinned\<rparr>; g = Revalidate PAdmin p; path = req_path rq in
      if contains ''/admin/resources/'' path
        then Inr (sc\<lparr>object_id := Some i, scope_resource_id := Some i\<rparr>, g)
      else if contains ''/admin/blackouts/'' path
        then bind_r (find_booking_resource Blackout i w) (\<lambda>r.
             Inr (sc\<lparr>object_id := Some i, scope_resource_id := Some r\<rparr>, g))
      else if contains ''/admin/bookings/'' path
        then bind_r (find_booking_resource Reservation i w) (\<lambda>r.
             Inr (sc\<lparr>object_id := Some i, scope_resource_id := Some r, booking_preds := Some [],
                     allow_running := True, audit := True, request_id := req\<rparr>, g))
      else if contains ''/admin/users/'' path
        then bind_r (scalar_one_or_none (filter (\<lambda>u. u_id u = i) (users w))) (\<lambda>row.
             case row of
               None \<Rightarrow> Inl ObjectNotFoundError
             | Some u \<Rightarrow>
                 if req_method rq = ''PATCH'' then
                   (if pinned \<noteq> None \<and> pinned \<noteq> Some (u_version u) then Inl VersionMismatch
                    else Inr (sc\<lparr>object_id := Some i\<rparr>, ChangeUser p i pinned body))
                 else Inr (sc\<lparr>object_id := Some i\<rparr>, g))
      else if contains ''/admin/outbox/'' path then Inr (sc\<lparr>object_id := Some i\<rparr>, g)
      else Inr (sc, g))"

definition requires_if_match :: "request \<Rightarrow> bool" where
  "requires_if_match rq =
     (req_method rq \<in> {''PATCH'', ''DELETE''} \<and> req_id_param rq \<noteq> None
      \<or> req_method rq = ''POST'' \<and> ends_with ''/cancel'' (req_path rq))"

definition admin_scope_of ::
  "request \<Rightarrow> json \<Rightarrow> uuid \<Rightarrow> db \<Rightarrow> (scope \<times> guard) result" where
  "admin_scope_of rq body p w =
     (let req = (case req_request_id rq of None \<Rightarrow> None | Some s \<Rightarrow> if s = [] then None else parse_uuid s) in
      bind_r (if requires_if_match rq then bind_r (parse_if_match (req_if_match rq)) (\<lambda>v. Inr (Some v)) else Inr None) (\<lambda>pinned.
      bind_r (case req_id_param rq of
                None \<Rightarrow> Inr ((admin_scope p)\<lparr>expected_version := pinned\<rparr>, Revalidate PAdmin p)
              | Some raw \<Rightarrow>
                  (case parse_uuid raw of
                     None \<Rightarrow> Inl RequestValidationError
                   | Some i \<Rightarrow> address_admin_object rq body p i pinned req w)) (\<lambda>(sc, g).
      let sc' = (if ends_with ''/admin/bookings'' (rstrip_slashes (req_path rq))
                 then sc\<lparr>booking_preds := Some [], allow_running := True, audit := False, request_id := None\<rparr> else sc)
      in Inr (case request_id sc' of None \<Rightarrow> sc'\<lparr>request_id := req\<rparr> | Some _ \<Rightarrow> sc', g))))"

definition resolve_admin_scope ::
  "env \<Rightarrow> request \<Rightarrow> json \<Rightarrow> uuid \<Rightarrow> db \<Rightarrow> (scope \<times> guard) result \<times> db" where
  "resolve_admin_scope ev rq body p w =
     (case (if req_method rq = ''GET'' then check_read_rate_limit ev p (e_now ev) w
            else check_mutation_rate_limit ev p (e_now ev) w) of
        (Inl e, w1) \<Rightarrow> (Inl e, w1)
      | (Inr _, w1) \<Rightarrow> (admin_scope_of rq body p w1, w1))"

section \<open>authorize\<close>

definition anonymous_scope :: "policy \<Rightarrow> scope" where
  "anonymous_scope pol =
     \<lparr>principal_id = None, scope_policy = pol, object_id = None, scope_resource_id = None,
      expected_version = None, booking_preds = None, waitlist_preds = None, allow_running = False,
      audit = False, request_id = None\<rparr>"

definition bearer_token :: "request \<Rightarrow> string result" where
  "bearer_token rq =
     (case req_authorization rq of
        None \<Rightarrow> Inl AuthRequiredError
      | Some h \<Rightarrow>
          if \<not> prefix ''Bearer '' h then Inl AuthRequiredError
          else if py_strip (drop 7 h) = [] then Inl AuthRequiredError
          else Inr (py_strip (drop 7 h)))"

text \<open>The user behind a verified token, as the database has it now.\<close>

definition authenticated_user ::
  "(settings \<Rightarrow> string \<Rightarrow> string option) \<Rightarrow> settings \<Rightarrow> string \<Rightarrow> db \<Rightarrow> user result" where
  "authenticated_user decode g token w =
     (if short_secret (g_jwt_secret g) then Inl RuntimeError
      else (case decode g token of
              None \<Rightarrow> Inl InvalidTokenError
            | Some sub \<Rightarrow>
                if sub = [] then Inl InvalidTokenError
                else (case parse_uuid sub of
                        None \<Rightarrow> Inl InvalidTokenError
                      | Some i \<Rightarrow>
                          bind_r (scalar_one_or_none (filter (\<lambda>u. u_id u = i) (users w))) (\<lambda>row.
                          case row of
                            None \<Rightarrow> Inl InvalidTokenError
                          | Some u \<Rightarrow> if u_enabled u then Inr u else Inl InvalidTokenError))))"

definition authorize ::
  "env \<Rightarrow> (settings \<Rightarrow> string \<Rightarrow> string option) \<Rightarrow> policy \<Rightarrow> request \<Rightarrow> json \<Rightarrow> db \<Rightarrow>
   (scope \<times> guard option) result \<times> db" where
  "authorize ev decode pol rq body w =
     (if pol = PPublic then (Inr (anonymous_scope pol, None), w)
      else (case bearer_token rq of
        Inl e \<Rightarrow> (Inl e, w)
      | Inr token \<Rightarrow>
          if pol = PMetrics then
            (if g_metrics_token (e_settings ev) = [] \<or> token \<noteq> g_metrics_token (e_settings ev)
             then (Inl InvalidTokenError, w) else (Inr (anonymous_scope pol, None), w))
          else (case authenticated_user decode (e_settings ev) token w of
            Inl e \<Rightarrow> (Inl e, w)
          | Inr u \<Rightarrow>
              (case enforce_policy_role pol (Some (u_role u)) of
                 Inl e \<Rightarrow> (Inl e, w)
               | Inr _ \<Rightarrow>
                   if pol \<in> {POwnBooking, POwnWaitlist} then
                     (case (if req_method rq = ''GET'' then check_read_rate_limit ev (u_id u) (e_now ev) w
                            else check_mutation_rate_limit ev (u_id u) (e_now ev) w) of
                        (Inl e, w1) \<Rightarrow> (Inl e, w1)
                      | (Inr _, w1) \<Rightarrow>
                          (bind_r (if pol = POwnBooking then resolve_own_booking_scope rq (u_id u) w1
                                   else resolve_own_waitlist_scope rq (u_id u) w1)
                             (\<lambda>sc. Inr (sc, Some (Revalidate pol (u_id u)))), w1))
                   else if pol = PAdmin then
                     (case resolve_admin_scope ev rq body (u_id u) w of
                        (Inl e, w1) \<Rightarrow> (Inl e, w1)
                      | (Inr (sc, g), w1) \<Rightarrow> (Inr (sc, Some g), w1))
                   else (Inr (own_scope pol (u_id u), Some (Revalidate pol (u_id u))), w)))))"

section \<open>What a granted scope says\<close>

text \<open>Rate limits touch only their own table and the clock.\<close>

definition same_domain :: "db \<Rightarrow> db \<Rightarrow> bool" where
  "same_domain w w' = (\<exists>rl n t. w' = w\<lparr>rate_limits := rl, ticks := n, tx_now := t\<rparr>)"

lemma same_domain_refl: "same_domain w w"
  unfolding same_domain_def by (intro exI [of _ "rate_limits w"] exI [of _ "ticks w"] exI [of _ "tx_now w"]) simp

lemma bump_domain: "bump b w = Inr (n, w') \<Longrightarrow> \<exists>rl. w' = w\<lparr>rate_limits := rl\<rparr>"
  by (auto simp: bump_def split: option.splits if_splits)

lemma consume_each_domain: "consume_each app_now bs best w = Inr (out, w') \<Longrightarrow> \<exists>rl. w' = w\<lparr>rate_limits := rl\<rparr>"
proof (induction bs arbitrary: best w)
  case Nil
  then show ?case by (auto intro: exI [of _ "rate_limits w"])
next
  case (Cons b bs)
  from Cons.prems obtain n w1 best' where "bump b w = Inr (n, w1)" "consume_each app_now bs best' w1 = Inr (out, w')"
    by (auto simp: bind_r_Inr)
  then show ?case using bump_domain Cons.IH by fastforce
qed

lemma consume_domain: "consume_rate_limits app_now bs w = (res, w') \<Longrightarrow> same_domain w w'"
proof -
  assume run: "consume_rate_limits app_now bs w = (res, w')"
  then consider "w' = w" | out where "consume_each app_now (sort_key bucket_key bs) None (begin_tx w) = Inr (out, w')"
    by (auto simp: consume_rate_limits_def in_transaction_def split: if_splits sum.splits prod.splits option.splits)
  then show ?thesis
  proof cases
    case 1
    then show ?thesis by (simp add: same_domain_refl)
  next
    case 2
    have swap: "w\<lparr>tx_now := t, ticks := n, rate_limits := rl\<rparr> = w\<lparr>rate_limits := rl, ticks := n, tx_now := t\<rparr>" for t n rl
      by simp
    from consume_each_domain [OF 2] show ?thesis unfolding begin_tx_def same_domain_def swap by blast
  qed
qed

lemma check_domain:
  "check_read_rate_limit ev p now w = (res, w') \<Longrightarrow> same_domain w w'"
  "check_mutation_rate_limit ev p now w = (res, w') \<Longrightarrow> same_domain w w'"
  by (auto simp: check_read_rate_limit_def check_mutation_rate_limit_def consume_user_bucket_def same_domain_refl
      dest: consume_domain split: sum.splits)

lemma same_domain_tables:
  "same_domain w w' \<Longrightarrow> users w' = users w \<and> bookings w' = bookings w \<and> waitlist w' = waitlist w \<and>
     resources w' = resources w \<and> same_tables w w'"
  by (auto simp: same_domain_def same_tables_def)

lemma resolve_own_booking_owner:
  assumes "resolve_own_booking_scope rq p w = Inr sc"
  shows "principal_id sc = Some p \<and> booking_preds sc = Some [\<lambda>b. b_user_id b = Some p] \<and>
    (\<forall>i. object_id sc = Some i \<longrightarrow> (\<exists>b \<in> set (bookings w). b_id b = i \<and> b_kind b = Reservation \<and>
       b_user_id b = Some p \<and> scope_resource_id sc = Some (b_resource_id b)))"
proof (cases "req_id_param rq")
  case None
  then show ?thesis using assms by (auto simp: resolve_own_booking_scope_def own_scope_def)
next
  case (Some raw)
  then obtain ver bid b where
    b: "scalar_one_or_none (filter (\<lambda>b. b_id b = bid \<and> b_kind b = Reservation \<and> b_user_id b = Some p) (bookings w)) = Inr (Some b)"
      "sc = (own_scope POwnBooking p)\<lparr>booking_preds := Some [\<lambda>b. b_user_id b = Some p], object_id := Some (b_id b),
         scope_resource_id := Some (b_resource_id b), expected_version := ver\<rparr>"
    using assms by (auto simp: resolve_own_booking_scope_def bind_r_Inr split: option.splits)
  have "b \<in> set (filter (\<lambda>b. b_id b = bid \<and> b_kind b = Reservation \<and> b_user_id b = Some p) (bookings w))"
    using b(1) unfolding scalar_Some by simp
  then show ?thesis using b(2) by (auto simp: own_scope_def)
qed

lemma resolve_own_waitlist_owner:
  assumes "resolve_own_waitlist_scope rq p w = Inr sc"
  shows "principal_id sc = Some p \<and> waitlist_preds sc = Some [\<lambda>e. w_user_id e = p]"
  using assms
  by (auto simp: resolve_own_waitlist_scope_def Let_def bind_r_Inr own_scope_def split: option.splits)

lemma admin_scope_principal:
  assumes "admin_scope_of rq body p w = Inr (sc, g)"
  shows "principal_id sc = Some p"
proof -
  have a: "principal_id sc1 = Some p" if "address_admin_object rq body p i pinned req w = Inr (sc1, g1)" for i pinned req sc1 g1
    using that
    by (auto simp: address_admin_object_def Let_def bind_r_Inr admin_scope_def own_scope_def
        split: if_splits option.splits)
  note rules = assms [unfolded admin_scope_of_def Let_def bind_r_Inr]
  show ?thesis
  proof (cases "req_id_param rq")
    case None
    then show ?thesis using rules
      by (auto simp: admin_scope_def own_scope_def simp del: split_paired_Ex split: option.splits if_splits)
  next
    case (Some raw)
    show ?thesis
    proof (cases "parse_uuid raw")
      case None
      then show ?thesis using rules \<open>req_id_param rq = Some raw\<close> by auto
    next
      case (Some i)
      with rules \<open>req_id_param rq = Some raw\<close> obtain pinned req sc1 g1 where
        "address_admin_object rq body p i pinned req w = Inr (sc1, g1)" "principal_id sc = principal_id sc1"
        by (auto split: option.splits if_splits)
      with a show ?thesis by simp
    qed
  qed
qed

text \<open>
  C23: a route with a policy other than public and metrics is entered only with a bearer
  token that verifies, whose subject is a user that exists and is enabled in the database
  now; the role that counts is the one in the database, admin for administrative routes, and
  an own-object scope is restricted to the rows of that user.
\<close>

theorem authorize_sound:
  assumes "authorize ev decode pol rq body w = (Inr (sc, g), w')" "pol \<noteq> PPublic" "pol \<noteq> PMetrics"
  shows "\<exists>token sub u. bearer_token rq = Inr token \<and> decode (e_settings ev) token = Some sub \<and>
    parse_uuid sub = Some (u_id u) \<and> u \<in> set (users w) \<and> u_enabled u \<and> principal_id sc = Some (u_id u) \<and>
    enforce_policy_role pol (Some (u_role u)) = Inr () \<and> (pol = PAdmin \<longrightarrow> u_role u = Admin) \<and>
    (pol = POwnBooking \<longrightarrow> booking_preds sc = Some [\<lambda>b. b_user_id b = Some (u_id u)]) \<and>
    (pol = POwnWaitlist \<longrightarrow> waitlist_preds sc = Some [\<lambda>e. w_user_id e = u_id u])"
proof -
  obtain token where token: "bearer_token rq = Inr token"
    using assms by (cases "bearer_token rq") (auto simp: authorize_def)
  obtain u where u: "authenticated_user decode (e_settings ev) token w = Inr u"
    using assms token by (cases "authenticated_user decode (e_settings ev) token w") (auto simp: authorize_def)
  from u obtain sub i where sub: "decode (e_settings ev) token = Some sub" "parse_uuid sub = Some i"
      "scalar_one_or_none (filter (\<lambda>u. u_id u = i) (users w)) = Inr (Some u)" "u_enabled u"
    by (auto simp: authenticated_user_def bind_r_Inr split: if_splits option.splits)
  have mem: "u \<in> set (filter (\<lambda>u. u_id u = i) (users w))" using sub(3) unfolding scalar_Some by simp
  obtain x where role: "enforce_policy_role pol (Some (u_role u)) = Inr x"
    using assms token u by (cases "enforce_policy_role pol (Some (u_role u))") (auto simp: authorize_def)
  have adm: "pol = PAdmin \<longrightarrow> u_role u = Admin" using role by (auto simp: enforce_policy_role_def)
  have "principal_id sc = Some (u_id u) \<and>
    (pol = POwnBooking \<longrightarrow> booking_preds sc = Some [\<lambda>b. b_user_id b = Some (u_id u)]) \<and>
    (pol = POwnWaitlist \<longrightarrow> waitlist_preds sc = Some [\<lambda>e. w_user_id e = u_id u])"
  proof -
    consider "pol = POwnBooking" | "pol = POwnWaitlist" | "pol = PAdmin" | "pol = PAuthenticated"
      using assms(2,3) by (cases pol) auto
    then show ?thesis
    proof cases
      case 1
      then obtain w1 where "resolve_own_booking_scope rq (u_id u) w1 = Inr sc"
        using assms token u role by (auto simp: authorize_def bind_r_Inr split: sum.splits prod.splits if_splits)
      from resolve_own_booking_owner [OF this] 1 show ?thesis by simp
    next
      case 2
      then obtain w1 where "resolve_own_waitlist_scope rq (u_id u) w1 = Inr sc"
        using assms token u role by (auto simp: authorize_def bind_r_Inr split: sum.splits prod.splits if_splits)
      from resolve_own_waitlist_owner [OF this] 2 show ?thesis by simp
    next
      case 3
      then obtain w1 g' where "admin_scope_of rq body (u_id u) w1 = Inr (sc, g')"
        using assms token u role by (auto simp: authorize_def resolve_admin_scope_def split: sum.splits prod.splits if_splits)
      from admin_scope_principal [OF this] 3 show ?thesis by simp
    next
      case 4
      then show ?thesis using assms token u role by (auto simp: authorize_def own_scope_def)
    qed
  qed
  then show ?thesis using token sub mem role adm by (intro exI [of _ token] exI [of _ sub] exI [of _ u]) auto
qed

definition ex_request :: request where
  "ex_request = \<lparr>req_method = ''GET'', req_path = ''/api/v1/users/me'', req_id_param = None, req_if_match = None,
     req_authorization = Some ''Bearer t'', req_request_id = None\<rparr>"

definition ex_env :: env where
  "ex_env = \<lparr>e_settings = ex_settings, e_hmac = (\<lambda>_ x. x), e_validator = (\<lambda>_. None), e_now = 0, e_retry_now = (\<lambda>_. 0)\<rparr>"

theorem authorize_sound_witness: "ex_account \<in> set (users ex_session_db) \<and> u_enabled ex_account"
proof -
  have ne: "uuid_str 11 \<noteq> []" by (simp add: uuid_str_def Let_def)
  have bearer: "bearer_token ex_request = Inr ''t''"
    by (simp add: bearer_token_def ex_request_def py_strip_def strip_chars_def py_space_def)
  have role: "enforce_policy_role PAuthenticated (Some Member) = Inr ()" by (simp add: enforce_policy_role_def)
  have user: "authenticated_user (\<lambda>_ _. Some (uuid_str 11)) ex_settings ''t'' ex_session_db = Inr ex_account"
    "u_id ex_account = 11" "u_role ex_account = Member"
    by (simp_all add: authenticated_user_def ex_settings_def ex_secrets parse_uuid_str ex_session_db_def ex_account_def ne)
  have "authorize ex_env (\<lambda>_ _. Some (uuid_str 11)) PAuthenticated ex_request JNull ex_session_db
      = (Inr (own_scope PAuthenticated 11, Some (Revalidate PAuthenticated 11)), ex_session_db)"
    by (simp add: authorize_def bearer ex_env_def user role)
  from authorize_sound [OF this]
  show ?thesis by (auto simp: parse_uuid_str ex_session_db_def)
qed

end
