(* ===== verification/Catalog.thy ===== *)
theory Catalog
imports Access Bookings
begin

text \<open>
  Reading resources and their availability (app/resources/service.py). Text columns are
  ordered by the collation of the database: collate gives the sort key of a text.
\<close>

section \<open>Resources\<close>

text \<open>The schema class Resource shows every column.\<close>

definition dump_resource :: "resource \<Rightarrow> json" where
  "dump_resource r = JObj
     [(''id'', JStr (uuid_str (r_id r))), (''name'', JStr (r_name r)),
      (''description'', JStr (r_description r)), (''location'', JStr (r_location r)),
      (''active'', JBool (r_active r)), (''version'', JInt (r_version r)),
      (''created_at'', JStr (format_rfc3339_utc (r_created_at r))),
      (''updated_at'', JStr (format_rfc3339_utc (r_updated_at r)))]"

definition get_active_resource :: "uuid \<Rightarrow> db \<Rightarrow> resource result" where
  "get_active_resource resource_id w =
     bind_r (scalar_one_or_none (filter (\<lambda>r. r_id r = resource_id \<and> r_active r) (resources w))) (\<lambda>row.
     case row of None \<Rightarrow> Inl RNotFoundError | Some r \<Rightarrow> Inr r)"

definition by_name :: "(string \<Rightarrow> string) \<Rightarrow> resource \<Rightarrow> string \<times> uuid" where
  "by_name collate r = (collate (r_name r), r_id r)"

definition list_resources :: "(string \<Rightarrow> string) \<Rightarrow> nat \<Rightarrow> nat \<Rightarrow> db \<Rightarrow> resource listing" where
  "list_resources collate limit offset w =
     list_page r_active (by_name collate) (\<lambda>r. r) limit offset (resources w)"

section \<open>Availability\<close>

record occupied =
  oc_starts_at :: time
  oc_ends_at :: time
  oc_kind :: booking_kind
  oc_status :: booking_status

record availability_out =
  av_resource_id :: uuid
  av_starts_at :: time
  av_ends_at :: time
  av_timezone :: string
  av_occupied :: "occupied list"

definition occupies :: "uuid \<Rightarrow> trange \<Rightarrow> booking \<Rightarrow> bool" where
  "occupies resource_id r b = (b_resource_id b = resource_id \<and> active_booking b \<and> overlaps (b_range b) r)"

definition availability ::
  "(string \<Rightarrow> datetime option) \<Rightarrow> uuid \<Rightarrow> timestamp_arg \<Rightarrow> timestamp_arg \<Rightarrow> db \<Rightarrow> availability_out result" where
  "availability fromisoformat resource_id starts_at ends_at w =
     bind_r (validate_window fromisoformat starts_at ends_at) (\<lambda>(s, e).
     bind_r (get_active_resource resource_id w) (\<lambda>_.
     Inr \<lparr>av_resource_id = resource_id, av_starts_at = s, av_ends_at = e, av_timezone = ''America/New_York'',
          av_occupied = map (\<lambda>b. \<lparr>oc_starts_at = lower (b_range b), oc_ends_at = upper (b_range b),
                                  oc_kind = b_kind b, oc_status = b_status b\<rparr>)
            (sort_key (\<lambda>b. (lower (b_range b), b_id b))
               (filter (occupies resource_id \<lparr>lower = s, upper = e\<rparr>) (bookings w)))\<rparr>))"

section \<open>Properties\<close>

lemma get_active_resource_iff:
  assumes "distinct (map r_id (resources w))"
  shows "get_active_resource i w = Inr r \<longleftrightarrow> r \<in> set (resources w) \<and> r_id r = i \<and> r_active r"
  using scalar_key_cases [OF assms, where i = i and P = r_active] distinct_key_eq [OF assms]
  by (auto simp: get_active_resource_def)

text \<open>The intervals of two active bookings of one resource are disjoint, in either order.\<close>

lemma active_disjoint:
  assumes "db_ok w" "a \<in> set (bookings w)" "b \<in> set (bookings w)" "a \<noteq> b"
    "active_booking a" "active_booking b" "b_resource_id a = b_resource_id b"
  shows "upper (b_range a) \<le> lower (b_range b) \<or> upper (b_range b) \<le> lower (b_range a)"
proof -
  have ok: "bookings_ok w" using db_okD(2) [OF assms(1)] .
  obtain i j where ij: "i < length (bookings w)" "bookings w ! i = a" "j < length (bookings w)" "bookings w ! j = b"
    using assms(2,3) by (auto simp: in_set_conv_nth)
  have s: "sorted_wrt (\<lambda>b c. \<not> booking_conflict b c) (bookings w)"
    using ok by (simp add: bookings_ok_def no_overlap_def)
  have "i \<noteq> j" using ij assms(4) by auto
  then consider "i < j" | "j < i" by linarith
  then have "\<not> overlaps (b_range a) (b_range b)"
  proof cases
    case 1
    then have "\<not> booking_conflict a b" using s ij by (auto simp: sorted_wrt_iff_nth_less)
    then show ?thesis using assms(5-7) by (simp add: booking_conflict_def)
  next
    case 2
    then have "\<not> booking_conflict b a" using s ij by (auto simp: sorted_wrt_iff_nth_less)
    then show ?thesis using assms(5-7) by (auto simp: booking_conflict_def overlaps_def)
  qed
  moreover have "\<not> isempty (b_range a)" "\<not> isempty (b_range b)"
    using ok assms(2,3) by (auto simp: bookings_ok_def booking_check_iff)
  ultimately show ?thesis by (auto simp: overlaps_def)
qed

text \<open>
  Availability shows the occupied intervals of an active resource in the window it was
  asked for, complete and in order, and no two of them overlap: each interval ends before
  the next one starts, so the gaps between them are free.
\<close>

theorem availability_disjoint:
  assumes "db_ok w" "availability fromiso rid s e w = Inr out"
  shows "sorted_wrt (\<lambda>x y. oc_ends_at x \<le> oc_starts_at y) (av_occupied out) \<and>
    (\<forall>b \<in> set (bookings w). occupies rid \<lparr>lower = av_starts_at out, upper = av_ends_at out\<rparr> b \<longrightarrow>
       (\<exists>x \<in> set (av_occupied out). oc_starts_at x = lower (b_range b) \<and> oc_ends_at x = upper (b_range b)))"
proof -
  from assms(2) obtain s' e' where
    out: "av_starts_at out = s'" "av_ends_at out = e'"
      "av_occupied out = map (\<lambda>b. \<lparr>oc_starts_at = lower (b_range b), oc_ends_at = upper (b_range b),
           oc_kind = b_kind b, oc_status = b_status b\<rparr>)
         (sort_key (\<lambda>b. (lower (b_range b), b_id b)) (filter (occupies rid \<lparr>lower = s', upper = e'\<rparr>) (bookings w)))"
    by (auto simp: availability_def bind_r_Inr)
  let ?bs = "filter (occupies rid \<lparr>lower = s', upper = e'\<rparr>) (bookings w)"
  let ?ss = "sort_key (\<lambda>b. (lower (b_range b), b_id b)) ?bs"
  have "distinct (bookings w)"
    using db_okD(2) [OF assms(1)] by (auto simp: bookings_ok_def distinct_map)
  then have d: "distinct ?ss" by (simp add: distinct_filter)
  have sorted: "sorted (map (\<lambda>b. (lower (b_range b), b_id b)) ?ss)" by (rule sorted_sort_key)
  have "sorted_wrt (\<lambda>x y. upper (b_range x) \<le> lower (b_range y)) ?ss"
    unfolding sorted_wrt_iff_nth_less
  proof (intro allI impI)
    fix i j
    assume ij: "i < j" "j < length ?ss"
    let ?a = "?ss ! i" and ?b = "?ss ! j"
    have mem: "?a \<in> set ?bs" "?b \<in> set ?bs"
      using nth_mem [of i ?ss] nth_mem [of j ?ss] ij by auto
    have "?a \<noteq> ?b" using d ij by (simp add: nth_eq_iff_index_eq)
    have le: "(lower (b_range ?a), b_id ?a) \<le> (lower (b_range ?b), b_id ?b)"
      using sorted ij by (simp add: sorted_iff_nth_mono_less del: sorted_sort_key)
    then have lower: "lower (b_range ?a) \<le> lower (b_range ?b)" by auto
    have "upper (b_range ?a) \<le> lower (b_range ?b) \<or> upper (b_range ?b) \<le> lower (b_range ?a)"
      using mem \<open>?a \<noteq> ?b\<close> by (intro active_disjoint [OF assms(1)]) (auto simp: occupies_def)
    moreover have "\<not> isempty (b_range ?b)"
      using mem db_okD(2) [OF assms(1)] by (auto simp: bookings_ok_def booking_check_iff)
    ultimately show "upper (b_range ?a) \<le> lower (b_range ?b)" using lower by (auto simp: isempty_def)
  qed
  then have "sorted_wrt (\<lambda>x y. oc_ends_at x \<le> oc_starts_at y) (av_occupied out)"
    by (simp add: out(3) sorted_wrt_map)
  then show ?thesis by (auto simp: out)
qed

lemma ex_window_ok:
  "validate_window (\<lambda>_. None) (TDatetime (utc_datetime (hours 12))) (TDatetime (utc_datetime (hours 18))) = Inr (hours 12, hours 18)"
  by code_simp

lemma ex_availability: "\<exists>out. availability (\<lambda>_. None) 1000 (TDatetime (utc_datetime (hours 12)))
    (TDatetime (utc_datetime (hours 18))) ex_booked_db = Inr out"
  unfolding availability_def ex_window_ok
  by (simp add: get_active_resource_def ex_booked_db_def ex_db_def ex_resource_def)

theorem availability_disjoint_witness:
  "\<exists>out x. availability (\<lambda>_. None) 1000 (TDatetime (utc_datetime (hours 12)))
     (TDatetime (utc_datetime (hours 18))) ex_booked_db = Inr out \<and> x \<in> set (av_occupied out) \<and> oc_starts_at x = hours 14"
proof -
  obtain out where out: "availability (\<lambda>_. None) 1000 (TDatetime (utc_datetime (hours 12)))
     (TDatetime (utc_datetime (hours 18))) ex_booked_db = Inr out"
    using ex_availability by blast
  have win: "av_starts_at out = hours 12" "av_ends_at out = hours 18"
    using out unfolding availability_def ex_window_ok by (auto simp: bind_r_Inr)
  have "occupies 1000 \<lparr>lower = hours 12, upper = hours 18\<rparr> ex_booking" "ex_booking \<in> set (bookings ex_booked_db)"
    by (simp_all add: occupies_def ex_booking_def ex_booked_db_def active_booking_def overlaps_def isempty_def time_units)
  with availability_disjoint [OF ex_booked_db_ok out, unfolded win]
  have "\<exists>x \<in> set (av_occupied out). oc_starts_at x = lower (b_range ex_booking)" by fast
  then obtain x where "x \<in> set (av_occupied out)" "oc_starts_at x = lower (b_range ex_booking)" by blast
  then show ?thesis using out by (intro exI [of _ out] exI [of _ x]) (simp add: ex_booking_def)
qed

end
