(* ===== verification/Inventory.thy ===== *)
theory Inventory
imports Waitlist Catalog
begin

text \<open>
  The administrator's operations on resources, blackouts and bookings (app/admin/service.py,
  E17 to E26), with the schema classes they read (app/resources/schemas.py). pydantic's
  reading of a JSON value as a bool is a parameter: parse_bool v is None where it refuses.
\<close>

section \<open>The table of resources\<close>

definition resource_check :: "resource \<Rightarrow> exn option" where
  "resource_check r = first_some
     [check (length (r_description r) \<le> 2000) ''resources_description_check'',
      check (1 \<le> length (r_location r) \<and> length (r_location r) \<le> 200) ''resources_location_check'',
      check (1 \<le> length (r_name r) \<and> length (r_name r) \<le> 100) ''resources_name_check'',
      check (r_version r > 0) ''resources_version_check'']"

definition insert_resource :: "resource \<Rightarrow> db \<Rightarrow> db result" where
  "insert_resource r w =
     (case resource_check r of Some e \<Rightarrow> Inl e | None \<Rightarrow>
      if r_id r \<in> r_id ` set (resources w) then Inl (IntegrityError ''23505'' ''resources_pkey'')
      else Inr (w\<lparr>resources := resources w @ [r]\<rparr>))"

definition update_resources ::
  "(resource \<Rightarrow> bool) \<Rightarrow> (resource \<Rightarrow> resource) \<Rightarrow> db \<Rightarrow> (nat \<times> db) result" where
  "update_resources P f w =
     (case first_error (\<lambda>r. resource_check (f r)) (filter P (resources w)) of
        Some e \<Rightarrow> Inl e
      | None \<Rightarrow> Inr (rowcount P (resources w), w\<lparr>resources := update_where P f (resources w)\<rparr>))"

section \<open>What a request asks for\<close>

record resource_create =
  rc_name :: string
  rc_description :: string
  rc_location :: string

text \<open>A field of a patch is None where the request leaves it out; null is refused.\<close>

record resource_patch =
  rp_name :: "string option"
  rp_description :: "string option"
  rp_location :: "string option"
  rp_active :: "bool option"

text \<open>A str field with its bounds, absent or present.\<close>

definition str_field :: "nat \<Rightarrow> nat \<Rightarrow> json option \<Rightarrow> string option result" where
  "str_field least most v =
     (case v of
        None \<Rightarrow> Inr None
      | Some (JStr s) \<Rightarrow> if least \<le> length s \<and> length s \<le> most then Inr (Some s) else Inl RequestValidationError
      | Some _ \<Rightarrow> Inl RequestValidationError)"

text \<open>extra=forbid.\<close>

definition only_fields :: "string list \<Rightarrow> json \<Rightarrow> bool" where
  "only_fields names body = (case body of JObj kvs \<Rightarrow> fst ` set kvs \<subseteq> set names | _ \<Rightarrow> False)"

definition bool_field :: "(json \<Rightarrow> bool option) \<Rightarrow> json option \<Rightarrow> bool option result" where
  "bool_field parse_bool v =
     (case v of
        None \<Rightarrow> Inr None
      | Some JNull \<Rightarrow> Inl RequestValidationError
      | Some x \<Rightarrow> (case parse_bool x of None \<Rightarrow> Inl RequestValidationError | Some b \<Rightarrow> Inr (Some b)))"

definition parse_resource_create :: "json \<Rightarrow> resource_create result" where
  "parse_resource_create body =
     (if \<not> only_fields [''name'', ''description'', ''location''] body then Inl RequestValidationError
      else bind_r (str_field 1 100 (json_get body ''name'')) (\<lambda>n.
           bind_r (str_field 0 2000 (json_get body ''description'')) (\<lambda>d.
           bind_r (str_field 1 200 (json_get body ''location'')) (\<lambda>l.
           case (n, l) of
             (Some name, Some location) \<Rightarrow>
               Inr \<lparr>rc_name = name, rc_description = (case d of None \<Rightarrow> [] | Some s \<Rightarrow> s), rc_location = location\<rparr>
           | _ \<Rightarrow> Inl RequestValidationError))))"

definition parse_resource_patch :: "(json \<Rightarrow> bool option) \<Rightarrow> json \<Rightarrow> resource_patch result" where
  "parse_resource_patch parse_bool body =
     (if \<not> only_fields [''name'', ''description'', ''location'', ''active''] body then Inl RequestValidationError
      else bind_r (str_field 1 100 (json_get body ''name'')) (\<lambda>n.
           bind_r (str_field 0 2000 (json_get body ''description'')) (\<lambda>d.
           bind_r (str_field 1 200 (json_get body ''location'')) (\<lambda>l.
           bind_r (bool_field parse_bool (json_get body ''active'')) (\<lambda>a.
           if n = None \<and> d = None \<and> l = None \<and> a = None then Inl RequestValidationError
           else Inr \<lparr>rp_name = n, rp_description = d, rp_location = l, rp_active = a\<rparr>)))))"

section \<open>Resources\<close>

definition list_admin_resources :: "(string \<Rightarrow> string) \<Rightarrow> nat \<Rightarrow> nat \<Rightarrow> bool option \<Rightarrow> db \<Rightarrow> resource listing" where
  "list_admin_resources collate limit offset active w =
     list_page (\<lambda>r. case active of None \<Rightarrow> True | Some a \<Rightarrow> r_active r = a)
       (by_name collate) (\<lambda>r. r) limit offset (resources w)"

text \<open>An active booking that has not ended, or an entry that waits.\<close>

definition in_use :: "uuid \<Rightarrow> time \<Rightarrow> db \<Rightarrow> bool" where
  "in_use resource_id db_now w =
     (length (filter (\<lambda>b. b_resource_id b = resource_id \<and> active_booking b \<and> db_now < upper (b_range b)) (bookings w)) > 0
      \<or> length (filter (\<lambda>e. w_resource_id e = resource_id \<and> w_status e = WWaiting) (waitlist w)) > 0)"

definition check_resource_not_in_use :: "uuid \<Rightarrow> time \<Rightarrow> db \<Rightarrow> unit result" where
  "check_resource_not_in_use resource_id db_now w = raise_if (in_use resource_id db_now w) ResourceInUse"

text \<open>req_id, then one audit entry of the acting administrator.\<close>

definition audit_admin :: "scope \<Rightarrow> string \<Rightarrow> string \<Rightarrow> uuid \<Rightarrow> json \<Rightarrow> time \<Rightarrow> db \<Rightarrow> db result" where
  "audit_admin sc action target_type target_id details now w =
     (let (req_id, w1) = request_id_or_new sc w in
      bind_r (append_audit_log action target_type (Some target_id) (principal_id sc) req_id details now w1)
        (\<lambda>(_, w2). Inr w2))"

definition create_resource :: "scope \<Rightarrow> resource_create \<Rightarrow> time \<Rightarrow> db \<Rightarrow> (resource \<times> db) result" where
  "create_resource sc d now w =
     (let (res_id, w1) = uuid4 w;
          r = \<lparr>r_id = res_id, r_name = rc_name d, r_description = rc_description d, r_location = rc_location d,
               r_active = True, r_version = 1, r_created_at = now, r_updated_at = now\<rparr>
      in bind_r (insert_resource r w1) (\<lambda>w2.
         bind_r (audit_admin sc ''admin.resource_create'' ''resource'' res_id
           (JObj [(''fields'', JArr [JStr ''description'', JStr ''location'', JStr ''name''])]) now w2) (\<lambda>w3.
         Inr (r, w3))))"

text \<open>The row whose version the caller pinned.\<close>

definition pinned_resource :: "scope \<Rightarrow> db \<Rightarrow> resource result" where
  "pinned_resource sc w =
     (case object_id sc of
        None \<Rightarrow> Inl RNotFoundError
      | Some i \<Rightarrow>
     (case expected_version sc of
        None \<Rightarrow> Inl PreconditionRequiredError
      | Some v \<Rightarrow>
          bind_r (scalar_one_or_none (filter (\<lambda>r. r_id r = i) (resources w))) (\<lambda>row.
          case row of
            None \<Rightarrow> Inl RNotFoundError
          | Some r \<Rightarrow> if r_version r \<noteq> v then Inl VersionMismatch else Inr r)))"

text \<open>UPDATE ... WHERE id AND version ... RETURNING.\<close>

definition write_resource :: "uuid \<Rightarrow> int \<Rightarrow> (resource \<Rightarrow> resource) \<Rightarrow> db \<Rightarrow> (resource \<times> db) result" where
  "write_resource i v f w =
     bind_r (update_resources (\<lambda>r. r_id r = i \<and> r_version r = v) f w) (\<lambda>(_, w1).
     bind_r (scalar_one_or_none (map f (filter (\<lambda>r. r_id r = i \<and> r_version r = v) (resources w)))) (\<lambda>row.
     case row of None \<Rightarrow> Inl VersionMismatch | Some r \<Rightarrow> Inr (r, w1)))"

definition patched :: "resource_patch \<Rightarrow> time \<Rightarrow> resource \<Rightarrow> resource" where
  "patched p db_now r =
     r\<lparr>r_name := (case rp_name p of None \<Rightarrow> r_name r | Some s \<Rightarrow> s),
       r_description := (case rp_description p of None \<Rightarrow> r_description r | Some s \<Rightarrow> s),
       r_location := (case rp_location p of None \<Rightarrow> r_location r | Some s \<Rightarrow> s),
       r_active := (case rp_active p of None \<Rightarrow> r_active r | Some a \<Rightarrow> a),
       r_version := r_version r + 1, r_updated_at := db_now\<rparr>"

interpretation patched_row: versioned_row r_id r_version "patched p t" for p t
  by unfold_locales (simp_all add: patched_def)

definition archived :: "time \<Rightarrow> resource \<Rightarrow> resource" where
  "archived db_now r = r\<lparr>r_active := False, r_version := r_version r + 1, r_updated_at := db_now\<rparr>"

interpretation archived_row: versioned_row r_id r_version "archived t" for t
  by unfold_locales (simp_all add: archived_def)

text \<open>sorted(patch_dict.keys()).\<close>

definition patch_fields :: "resource_patch \<Rightarrow> string list" where
  "patch_fields p =
     (if rp_active p = None then [] else [''active'']) @ (if rp_description p = None then [] else [''description''])
     @ (if rp_location p = None then [] else [''location'']) @ (if rp_name p = None then [] else [''name''])"

definition update_resource :: "scope \<Rightarrow> resource_patch \<Rightarrow> db \<Rightarrow> (resource \<times> db) result" where
  "update_resource sc p w =
     bind_r (pinned_resource sc w) (\<lambda>r.
     if patch_fields p = [] then Inl ValueError
     else
     (let (db_now, w1) = clock_timestamp w in
      bind_r (if rp_active p = Some False \<and> r_active r then check_resource_not_in_use (r_id r) db_now w1 else Inr ()) (\<lambda>_.
      bind_r (write_resource (r_id r) (r_version r) (patched p db_now) w1) (\<lambda>(r', w2).
      bind_r (audit_admin sc ''admin.resource_patch'' ''resource'' (r_id r)
        (JObj ((''fields'', JArr (map JStr (patch_fields p))) #
          (case rp_active p of None \<Rightarrow> []
           | Some a \<Rightarrow> [(''old_active'', JBool (r_active r)), (''new_active'', JBool a)]))) db_now w2) (\<lambda>w3.
      Inr (r', w3))))))"

definition archive_resource :: "scope \<Rightarrow> db \<Rightarrow> (resource \<times> db) result" where
  "archive_resource sc w =
     bind_r (pinned_resource sc w) (\<lambda>r.
     (let (db_now, w1) = clock_timestamp w in
      bind_r (check_resource_not_in_use (r_id r) db_now w1) (\<lambda>_.
      bind_r (write_resource (r_id r) (r_version r) (archived db_now) w1) (\<lambda>(r', w2).
      bind_r (audit_admin sc ''admin.resource_archive'' ''resource'' (r_id r)
        (JObj [(''fields'', JArr [JStr ''active'']), (''new_active'', JBool False), (''old_active'', JBool (r_active r))])
        db_now w2) (\<lambda>w3.
      Inr (r', w3))))))"

section \<open>Blackouts\<close>

text \<open>datetime.isoformat() of an instant in UTC: the fraction is left out when it is zero.\<close>

definition isoformat :: "time \<Rightarrow> string" where
  "isoformat t = take (if dt_microsecond t = 0 then 19 else 26) (format_rfc3339_utc t) @ ''+00:00''"

definition new_blackout :: "uuid \<Rightarrow> scope \<Rightarrow> uuid \<Rightarrow> trange \<Rightarrow> time \<Rightarrow> booking" where
  "new_blackout i sc resource_id r db_now =
     \<lparr>b_id = i, b_resource_id = resource_id, b_user_id = None, b_created_by = principal_id sc,
      b_kind = Blackout, b_range = r, b_status = BConfirmed, b_expires_at = None,
      b_cancellation_reason = None, b_version = 1, b_created_at = db_now, b_updated_at = db_now\<rparr>"

definition create_blackout :: "scope \<Rightarrow> datetime \<Rightarrow> datetime \<Rightarrow> db \<Rightarrow> (booking_out \<times> db) result" where
  "create_blackout sc starts_at ends_at w =
     (case scope_resource_id sc of
        None \<Rightarrow> Inl RNotFoundError
      | Some resource_id \<Rightarrow>
          bind_r (scalar_one_or_none (filter (\<lambda>r. r_id r = resource_id) (resources w))) (\<lambda>row.
          case row of
            None \<Rightarrow> Inl RNotFoundError
          | Some r \<Rightarrow>
              if \<not> r_active r then Inl ResourceInactive
              else
              (let (db_now, w1) = clock_timestamp w in
               bind_r (validate_blackout_window starts_at ends_at (utc_datetime db_now)) (\<lambda>(s, e).
               let (booking_id, w2) = uuid4 w1;
                   b = new_blackout booking_id sc resource_id \<lparr>lower = s, upper = e\<rparr> db_now
               in
               bind_r (slot_conflict (insert_booking b w2)) (\<lambda>w3.
               bind_r (audit_admin sc ''admin.blackout_create'' ''booking'' booking_id
                 (JObj [(''resource_id'', JStr (uuid_str resource_id)), (''starts_at'', JStr (isoformat s)),
                        (''ends_at'', JStr (isoformat e))]) db_now w3) (\<lambda>w4.
               Inr (booking_view b, w4)))))))"

definition lifted :: "time \<Rightarrow> booking \<Rightarrow> booking" where
  "lifted db_now b = b\<lparr>b_status := BCancelled, b_version := b_version b + 1, b_updated_at := db_now\<rparr>"

interpretation lifted_row: versioned_row b_id b_version "lifted t" for t
  by unfold_locales (simp_all add: lifted_def)

text \<open>What follows once the blackout may be lifted.\<close>

definition carry_out_lift :: "scope \<Rightarrow> booking \<Rightarrow> int \<Rightarrow> time \<Rightarrow> db \<Rightarrow> (booking_out \<times> db) result" where
  "carry_out_lift sc blackout v db_now w =
     bind_r (update_bookings (\<lambda>b. b_id b = b_id blackout \<and> b_version b = v) (lifted db_now) w) (\<lambda>(_, w1).
     bind_r (scalar_one_or_none (map (lifted db_now)
               (filter (\<lambda>b. b_id b = b_id blackout \<and> b_version b = v) (bookings w)))) (\<lambda>row.
     case row of
       None \<Rightarrow> Inl VersionMismatch
     | Some updated \<Rightarrow>
         bind_r (audit_admin sc ''admin.blackout_cancel'' ''booking'' (b_id blackout)
           (JObj [(''resource_id'', JStr (uuid_str (b_resource_id blackout)))]) db_now w1) (\<lambda>w2.
         bind_r (promote_waiters
           (case scope_resource_id sc of Some r \<Rightarrow> r | None \<Rightarrow> b_resource_id blackout) w2) (\<lambda>(_, w3).
         Inr (booking_view updated, w3)))))"

definition cancel_blackout :: "scope \<Rightarrow> db \<Rightarrow> (booking_out \<times> db) result" where
  "cancel_blackout sc w =
     (case object_id sc of
        None \<Rightarrow> Inl RNotFoundError
      | Some blackout_id \<Rightarrow>
     (case expected_version sc of
        None \<Rightarrow> Inl PreconditionRequiredError
      | Some v \<Rightarrow>
          bind_r (scalar_one_or_none (filter (\<lambda>b. b_id b = blackout_id \<and> b_kind b = Blackout) (bookings w))) (\<lambda>row.
          case row of
            None \<Rightarrow> Inl RNotFoundError
          | Some blackout \<Rightarrow>
              (let (db_now, w1) = clock_timestamp w in
               if b_version blackout \<noteq> v then Inl VersionMismatch
               else if b_status blackout = BCancelled then Inr (booking_view blackout, w1)
               else if b_status blackout \<noteq> BConfirmed then Inl InvalidState
               else if db_now \<ge> upper (b_range blackout) then Inl TooLate
               else carry_out_lift sc blackout v db_now w1))))"

definition list_resource_blackouts :: "uuid \<Rightarrow> nat \<Rightarrow> nat \<Rightarrow> db \<Rightarrow> booking_out listing result" where
  "list_resource_blackouts resource_id limit offset w =
     bind_r (scalar_one_or_none (filter (\<lambda>r. r_id r = resource_id) (resources w))) (\<lambda>row.
     case row of
       None \<Rightarrow> Inl RNotFoundError
     | Some _ \<Rightarrow> Inr (list_page (\<lambda>b. b_resource_id b = resource_id \<and> b_kind b = Blackout)
         newest_first booking_view limit offset (bookings w)))"

section \<open>Bookings of everyone\<close>

text \<open>The window of the filter: both ends or none.\<close>

definition filter_window :: "datetime option \<Rightarrow> datetime option \<Rightarrow> trange option result" where
  "filter_window starts_at ends_at =
     (case (starts_at, ends_at) of
        (None, None) \<Rightarrow> Inr None
      | (Some s, Some e) \<Rightarrow>
          (case (utcoffset s, utcoffset e) of
             (Some so, Some eo) \<Rightarrow>
               bind_r (astimezone_utc (wall s) so) (\<lambda>s_utc.
               bind_r (astimezone_utc (wall e) eo) (\<lambda>e_utc.
               if e_utc \<le> s_utc then Inl (InvalidWindowError ''ends_at must be strictly greater'')
               else if e_utc - s_utc > days 90 then Inl (InvalidWindowError ''cannot exceed 90 days'')
               else Inr (Some \<lparr>lower = s_utc, upper = e_utc\<rparr>)))
           | _ \<Rightarrow> Inl (InvalidWindowError ''explicit timezone offset''))
      | _ \<Rightarrow> Inl (InvalidWindowError ''require both starts_at and ends_at''))"

definition list_admin_bookings ::
  "nat \<Rightarrow> nat \<Rightarrow> uuid option \<Rightarrow> uuid option \<Rightarrow> booking_status option \<Rightarrow> datetime option \<Rightarrow> datetime option \<Rightarrow> db
   \<Rightarrow> booking_out listing result" where
  "list_admin_bookings limit offset resource_id user_id status starts_at ends_at w =
     bind_r (filter_window starts_at ends_at) (\<lambda>win.
     Inr (list_page
       (\<lambda>b. b_kind b = Reservation
          \<and> (case resource_id of None \<Rightarrow> True | Some r \<Rightarrow> b_resource_id b = r)
          \<and> (case user_id of None \<Rightarrow> True | Some u \<Rightarrow> b_user_id b = Some u)
          \<and> (case status of None \<Rightarrow> True | Some s \<Rightarrow> b_status b = s)
          \<and> (case win of None \<Rightarrow> True | Some r \<Rightarrow> overlaps (b_range b) r))
       newest_first booking_view limit offset (bookings w)))"

definition get_admin_booking :: "uuid \<Rightarrow> db \<Rightarrow> booking_out result" where
  "get_admin_booking booking_id w =
     bind_r (scalar_one_or_none (filter (\<lambda>b. b_id b = booking_id \<and> b_kind b = Reservation) (bookings w))) (\<lambda>row.
     case row of None \<Rightarrow> Inl RNotFoundError | Some b \<Rightarrow> Inr (booking_view b))"

section \<open>What the operations keep\<close>

text \<open>Users and resources may be added and changed as long as their ids stay.\<close>

lemma db_ok_people:
  assumes ok: "db_ok w" and same: "bookings w' = bookings w" "waitlist w' = waitlist w" "outbox w' = outbox w"
    and ids: "people_ok w'" "u_id ` set (users w) \<subseteq> u_id ` set (users w')" "r_id ` set (resources w) \<subseteq> r_id ` set (resources w')"
  shows "db_ok w'"
proof -
  note parts = db_okD [OF ok]
  have "booking_fks w b \<Longrightarrow> booking_fks w' b" for b
    using ids(2,3) by (auto simp: booking_fks_def split: option.splits)
  moreover have "entry_fks w e \<Longrightarrow> entry_fks w' e" for e
    using ids(2,3) same(1) by (auto simp: entry_fks_def offer_fk_ok_def split: option.splits)
  ultimately show ?thesis
    using parts ids(1) same by (auto simp: db_ok_def bookings_ok_def entries_ok_def events_ok_def offers_linked_def)
qed

lemma audit_admin_keeps:
  "audit_admin sc act ty tid d t w = Inr w' \<Longrightarrow> db_ok w' = db_ok w \<and> bookings w' = bookings w \<and>
     waitlist w' = waitlist w \<and> outbox w' = outbox w \<and> users w' = users w \<and> resources w' = resources w"
  by (cases "request_id_or_new sc w")
    (auto simp: audit_admin_def bind_r_Inr dest!: append_audit_keeps request_id_or_new_tables)

lemma audit_admin_total:
  assumes fresh: "fresh_ids (Suc (Suc k)) w" and actor: "\<forall>p. principal_id sc = Some p \<longrightarrow> p \<in> u_id ` set (users w)"
  shows "\<exists>a w'. audit_admin sc act ty tid d t w = Inr w' \<and> fresh_ids k w' \<and> audit_log w' = audit_log w @ [a] \<and>
    a_action a = act \<and> a_target_id a = Some tid \<and> a_actor_id a = principal_id sc"
proof -
  obtain r w1 where r: "request_id_or_new sc w = (r, w1)" by (cases "request_id_or_new sc w")
  have t: "users w1 = users w" "audit_log w1 = audit_log w" using request_id_or_new_tables [OF r] by simp_all
  have "fresh_ids (Suc k) w1" using request_id_fresh [OF fresh, of sc] r by simp
  moreover have "\<forall>p. principal_id sc = Some p \<longrightarrow> p \<in> u_id ` set (users w1)" using actor t by simp
  ultimately obtain a where "append_audit_log act ty (Some tid) (principal_id sc) r d t w1
      = Inr (a, w1\<lparr>drawn := Suc (drawn w1), audit_log := audit_log w1 @ [a]\<rparr>)"
    "a_action a = act" "a_target_id a = Some tid" "a_actor_id a = principal_id sc"
    "fresh_ids k (w1\<lparr>drawn := Suc (drawn w1), audit_log := audit_log w1 @ [a]\<rparr>)"
    using append_audit_total [where tid = "Some tid" and actor_id = "principal_id sc"] by blast
  then show ?thesis using r t by (simp add: audit_admin_def)
qed

lemma update_resources_Inr:
  "update_resources P f w = Inr (n, w') \<longleftrightarrow>
     (\<forall>r \<in> set (resources w). P r \<longrightarrow> resource_check (f r) = None) \<and> n = rowcount P (resources w) \<and>
     w' = w\<lparr>resources := update_where P f (resources w)\<rparr>"
  using first_error_None [of "\<lambda>r. resource_check (f r)" "filter P (resources w)"]
  by (cases "first_error (\<lambda>r. resource_check (f r)) (filter P (resources w))") (auto simp: update_resources_def)

lemma write_resource_keeps:
  assumes ok: "db_ok w" and f: "\<And>r. r_id (f r) = r_id r" and run: "write_resource i v f w = Inr (r', w')"
  shows "db_ok w' \<and> bookings w' = bookings w \<and> waitlist w' = waitlist w \<and> outbox w' = outbox w \<and> users w' = users w \<and>
    ticks w' = ticks w \<and> clock w' = clock w \<and>
    (\<exists>r \<in> set (resources w). r_id r = i \<and> r_version r = v \<and> r' = f r \<and>
       resources w' = update_where (\<lambda>x. r_id x = i) f (resources w))"
proof -
  have dist: "distinct (map r_id (resources w))" using db_okD(1) [OF ok] by (simp add: people_ok_def)
  obtain r where w': "w' = w\<lparr>resources := update_where (\<lambda>r. r_id r = i \<and> r_version r = v) f (resources w)\<rparr>"
    and r: "filter (\<lambda>r. r_id r = i \<and> r_version r = v) (resources w) = [r]" "r' = f r"
    using run by (auto simp: write_resource_def bind_r_Inr update_resources_Inr scalar_Some split: option.splits)
  then have in_r: "r \<in> set (filter (\<lambda>r. r_id r = i \<and> r_version r = v) (resources w))" by simp
  then have mem: "r \<in> set (resources w)" "r_id r = i" "r_version r = v" by auto
  have eq: "resources w' = update_where (\<lambda>x. r_id x = i) f (resources w)"
    using w' pinned_update(1) [where key = r_id and ver = r_version, OF dist mem] by simp
  have "map r_id (resources w') = map r_id (resources w)" using eq f by (simp add: map_update_where)
  moreover from this have "r_id ` set (resources w') = r_id ` set (resources w)" by (metis list.set_map)
  ultimately have "db_ok w'"
    using db_ok_people [OF ok, of w'] db_okD(1) [OF ok] w' by (simp add: people_ok_def)
  then show ?thesis using w' eq mem r(2) by auto
qed

lemma pinned_resource_Inr:
  "pinned_resource sc w = Inr r \<longleftrightarrow> object_id sc = Some (r_id r) \<and> expected_version sc = Some (r_version r) \<and>
     scalar_one_or_none (filter (\<lambda>x. r_id x = r_id r) (resources w)) = Inr (Some r)"
proof -
  have "r_id r = i" if "scalar_one_or_none (filter (\<lambda>x. r_id x = i) (resources w)) = Inr (Some r)" for i
  proof -
    have "r \<in> set (filter (\<lambda>x. r_id x = i) (resources w))" using that unfolding scalar_Some by simp
    then show ?thesis by simp
  qed
  then show ?thesis by (auto simp: pinned_resource_def bind_r_Inr split: option.splits if_splits)
qed

lemma archive_resource_keeps:
  assumes ok: "db_ok w" and run: "archive_resource sc w = Inr (r', w')"
  shows "db_ok w' \<and> bookings w' = bookings w \<and> waitlist w' = waitlist w \<and> users w' = users w \<and>
    \<not> in_use (r_id r') (clock w (ticks w)) w \<and> \<not> r_active r' \<and>
    resources w' = update_where (\<lambda>x. r_id x = r_id r') (archived (clock w (ticks w))) (resources w)"
proof -
  let ?w1 = "w\<lparr>ticks := Suc (ticks w)\<rparr>" and ?t = "clock w (ticks w)"
  obtain r w2 where r: "pinned_resource sc w = Inr r" "\<not> in_use (r_id r) ?t ?w1"
    "write_resource (r_id r) (r_version r) (archived ?t) ?w1 = Inr (r', w2)"
    and a: "\<exists>d. audit_admin sc ''admin.resource_archive'' ''resource'' (r_id r) d ?t w2 = Inr w'"
    using run unfolding archive_resource_def Let_def clock_timestamp_def
    by (auto simp: bind_r_Inr check_resource_not_in_use_def)
  have ok1: "db_ok ?w1" using ok by simp
  note wr = write_resource_keeps [OF ok1 _ r(3)]
  obtain d where "audit_admin sc ''admin.resource_archive'' ''resource'' (r_id r) d ?t w2 = Inr w'" using a by blast
  note au = audit_admin_keeps [OF this]
  have "r_id r' = r_id r" "\<not> r_active r'" using wr by (auto simp: archived_def)
  moreover have "in_use (r_id r) ?t ?w1 = in_use (r_id r) ?t w" by (simp add: in_use_def)
  ultimately show ?thesis using wr au r(2) by (auto simp: archived_def)
qed

lemma update_resource_keeps:
  assumes ok: "db_ok w" and run: "update_resource sc p w = Inr (r', w')"
  shows "db_ok w' \<and> bookings w' = bookings w \<and> waitlist w' = waitlist w \<and> users w' = users w \<and>
    (\<exists>r \<in> set (resources w). object_id sc = Some (r_id r) \<and> expected_version sc = Some (r_version r) \<and>
       r' = patched p (clock w (ticks w)) r \<and> (rp_active p = Some False \<and> r_active r \<longrightarrow> \<not> in_use (r_id r) (clock w (ticks w)) w) \<and>
       resources w' = update_where (\<lambda>x. r_id x = r_id r) (patched p (clock w (ticks w))) (resources w))"
proof -
  let ?w1 = "w\<lparr>ticks := Suc (ticks w)\<rparr>" and ?t = "clock w (ticks w)"
  obtain r w2 d where r: "pinned_resource sc w = Inr r" "rp_active p = Some False \<and> r_active r \<longrightarrow> \<not> in_use (r_id r) ?t ?w1"
    "write_resource (r_id r) (r_version r) (patched p ?t) ?w1 = Inr (r', w2)"
    and a: "audit_admin sc ''admin.resource_patch'' ''resource'' (r_id r) d ?t w2 = Inr w'"
    using run unfolding update_resource_def Let_def clock_timestamp_def
    by (auto simp: bind_r_Inr check_resource_not_in_use_def split: if_splits)
  have ok1: "db_ok ?w1" using ok by simp
  have fid: "r_id (patched p ?t x) = r_id x" for x by (simp add: patched_def)
  note wr = write_resource_keeps [OF ok1 fid r(3)]
  note au = audit_admin_keeps [OF a]
  have "r \<in> set (filter (\<lambda>x. r_id x = r_id r) (resources w))" "object_id sc = Some (r_id r)" "expected_version sc = Some (r_version r)"
    using r(1) by (auto simp: pinned_resource_Inr scalar_Some)
  then have mem: "r \<in> set (resources w)" by simp
  have dist: "distinct (map r_id (resources w))" using db_okD(1) [OF ok] by (simp add: people_ok_def)
  have "r' = patched p ?t r" using wr distinct_key_eq [OF dist _ mem] by auto
  moreover have "in_use (r_id r) ?t ?w1 = in_use (r_id r) ?t w" by (simp add: in_use_def)
  ultimately show ?thesis
    using wr au r(2) mem \<open>object_id sc = Some (r_id r)\<close> \<open>expected_version sc = Some (r_version r)\<close> by auto
qed

lemma slot_conflict_Inr: "slot_conflict m = Inr x \<longleftrightarrow> m = Inr x"
  by (cases m) (simp_all add: slot_conflict_def)

lemma create_blackout_keeps:
  assumes ok: "db_ok w" and run: "create_blackout sc s e w = Inr (out, w')"
  shows "db_ok w'"
proof -
  let ?t = "clock w (ticks w)" and ?w2 = "w\<lparr>ticks := Suc (ticks w), drawn := Suc (drawn w)\<rparr>"
  obtain rid r w3 d where ins: "insert_booking (new_blackout (uuid_src w (drawn w)) sc rid r ?t) ?w2 = Inr w3"
    and a: "audit_admin sc ''admin.blackout_create'' ''booking'' (uuid_src w (drawn w)) d ?t w3 = Inr w'"
    using run unfolding create_blackout_def clock_timestamp_def uuid4_def Let_def
    by (auto simp: bind_r_Inr slot_conflict_Inr split: option.splits if_splits)
  have "db_ok w3" using db_ok_booking_added [OF _ _ ins] ok by (simp add: new_blackout_def)
  then show ?thesis using audit_admin_keeps [OF a] by simp
qed

lemma lifted_simps [simp]:
  "b_id (lifted t b) = b_id b" "b_version (lifted t b) = b_version b + 1" "b_status (lifted t b) = BCancelled"
  "b_kind (lifted t b) = b_kind b" "b_resource_id (lifted t b) = b_resource_id b" "b_range (lifted t b) = b_range b"
  "b_user_id (lifted t b) = b_user_id b" "b_created_by (lifted t b) = b_created_by b"
  "b_expires_at (lifted t b) = b_expires_at b" "b_cancellation_reason (lifted t b) = b_cancellation_reason b"
  by (simp_all add: lifted_def)

definition lift_row :: "uuid \<Rightarrow> time \<Rightarrow> db \<Rightarrow> db" where
  "lift_row i t w = w\<lparr>bookings := update_where (\<lambda>b. b_id b = i) (lifted t) (bookings w)\<rparr>"

lemma lift_steps:
  assumes ok: "db_ok w" and b: "b \<in> set (bookings w)" "b_kind b = Blackout" "b_status b = BConfirmed"
  shows "update_bookings (\<lambda>x. b_id x = b_id b \<and> b_version x = b_version b) (lifted t) w = Inr (1, lift_row (b_id b) t w)"
    "filter (\<lambda>x. b_id x = b_id b \<and> b_version x = b_version b) (bookings w) = [b]"
    "db_ok (lift_row (b_id b) t w)" "lifted t b \<in> set (bookings (lift_row (b_id b) t w))"
proof -
  note parts = db_okD [OF ok]
  have chk: "booking_check b = None" using bookings_okD(1) [OF parts(2) b(1)] .
  have step: "booking_step b (lifted t b)"
    using chk b(2,3) by (auto simp: booking_step_def guard_booking_update_def booking_transition_def active_booking_def booking_check_iff)
  note run = update_one_booking_runs [where f = "lifted t", OF parts(2) b(1) step]
  show "update_bookings (\<lambda>x. b_id x = b_id b \<and> b_version x = b_version b) (lifted t) w = Inr (1, lift_row (b_id b) t w)"
    using run(1) by (simp add: lift_row_def pinned_booking_def [abs_def])
  have dist: "distinct (map b_id (bookings w))" using parts(2) by (simp add: bookings_ok_def)
  show "filter (\<lambda>x. b_id x = b_id b \<and> b_version x = b_version b) (bookings w) = [b]"
    using pinned_update(3) [where ver = b_version, OF dist b(1) refl refl] .
  show "lifted t b \<in> set (bookings (lift_row (b_id b) t w))"
    using b(1) by (auto simp: lift_row_def set_update_where)
  let ?w' = "lift_row (b_id b) t w"
  have ids: "b_id ` set (bookings ?w') = b_id ` set (bookings w)" by (simp add: lift_row_def image_update_where)
  have "entries_ok ?w'" unfolding lift_row_def
    by (rule entries_ok_more_bookings [OF parts(3)]) (use ids in \<open>simp add: lift_row_def\<close>)
  moreover have "events_ok ?w'" unfolding lift_row_def
  proof (rule events_ok_bookings [OF parts(4)])
    fix x assume x: "x \<in> set (bookings w)"
    let ?y = "if b_id x = b_id b then lifted t x else x"
    have "?y \<in> set (update_where (\<lambda>x. b_id x = b_id b) (lifted t) (bookings w))"
      using x by (auto simp: set_update_where)
    then show "\<exists>y \<in> set (update_where (\<lambda>x. b_id x = b_id b) (lifted t) (bookings w)). b_id y = b_id x \<and> b_version x \<le> b_version y"
      by (rule bexI [rotated]) simp
  qed
  moreover have "bookings_ok ?w'" using run(2) by (simp add: lift_row_def)
  moreover have "offers_linked ?w'"
  proof -
    have other: "b_id x \<noteq> b_id b" if "x \<in> set (bookings w)" "b_status x = BOffered" for x
      using distinct_key_eq [OF dist that(1) b(1)] that(2) b(3) by auto
    have off: "x \<in> set (bookings ?w') \<and> b_status x = BOffered \<longleftrightarrow> x \<in> set (bookings w) \<and> b_status x = BOffered" for x
      using other by (auto simp: lift_row_def set_update_where)
    have wl: "waitlist ?w' = waitlist w" by (simp add: lift_row_def)
    show ?thesis using parts(5) off unfolding offers_linked_def wl by blast
  qed
  ultimately show "db_ok ?w'" using parts(1) by (simp add: db_ok_def lift_row_def)
qed

lemma cancel_blackout_keeps:
  assumes ok: "db_ok w" and run: "cancel_blackout sc w = Inr (out, w')"
  shows "db_ok w'"
proof -
  let ?t = "clock w (ticks w)" and ?w1 = "w\<lparr>ticks := Suc (ticks w)\<rparr>"
  obtain i v b where b: "scalar_one_or_none (filter (\<lambda>b. b_id b = i \<and> b_kind b = Blackout) (bookings w)) = Inr (Some b)"
    and c: "w' = ?w1 \<or> b_version b = v \<and> b_status b = BConfirmed \<and> carry_out_lift sc b v ?t ?w1 = Inr (out, w')"
    using run unfolding cancel_blackout_def clock_timestamp_def Let_def
    by (auto simp: bind_r_Inr split: option.splits if_splits)
  have "b \<in> set (filter (\<lambda>b. b_id b = i \<and> b_kind b = Blackout) (bookings w))" using b unfolding scalar_Some by simp
  then have mem: "b \<in> set (bookings ?w1)" "b_kind b = Blackout" by auto
  have ok1: "db_ok ?w1" using ok by simp
  from c show ?thesis
  proof
    assume "w' = ?w1"
    with ok1 show ?thesis by simp
  next
    assume d: "b_version b = v \<and> b_status b = BConfirmed \<and> carry_out_lift sc b v ?t ?w1 = Inr (out, w')"
    then have "b_status b = BConfirmed" by simp
    note st = lift_steps(1) [where t = ?t, OF ok1 mem this] lift_steps(2) [OF ok1 mem this]
      lift_steps(3) [where t = ?t, OF ok1 mem this]
    obtain w2 got rid d' where r: "audit_admin sc ''admin.blackout_cancel'' ''booking'' (b_id b) d' ?t (lift_row (b_id b) ?t ?w1) = Inr w2"
      "promote_waiters rid w2 = Inr (got, w')"
      using d st(1,2) unfolding carry_out_lift_def by (auto simp: bind_r_Inr)
    have "db_ok w2" using audit_admin_keeps [OF r(1)] st(3) by simp
    then show ?thesis using promote_waiters_keeps r(2) by blast
  qed
qed

lemma create_resource_keeps:
  assumes ok: "db_ok w" and run: "create_resource sc d t w = Inr (r, w')"
  shows "db_ok w' \<and> bookings w' = bookings w \<and> waitlist w' = waitlist w \<and> users w' = users w \<and>
    resources w' = resources w @ [r] \<and> r_active r \<and> r_version r = 1"
proof -
  let ?w1 = "w\<lparr>drawn := Suc (drawn w)\<rparr>"
  obtain w2 act dd tid where r: "insert_resource r ?w1 = Inr w2" "r_active r" "r_version r = 1"
    and a: "audit_admin sc act ''resource'' tid dd t w2 = Inr w'"
    using run unfolding create_resource_def uuid4_def Let_def by (fastforce simp: bind_r_Inr)
  have w2: "w2 = ?w1\<lparr>resources := resources w @ [r]\<rparr>" "r_id r \<notin> r_id ` set (resources w)"
    using r(1) by (auto simp: insert_resource_def split: option.splits if_splits)
  have "db_ok w2"
    using db_ok_people [OF ok, of w2] w2 db_okD(1) [OF ok] by (auto simp: people_ok_def)
  then show ?thesis using audit_admin_keeps [OF a] w2 r by simp
qed

section \<open>Properties\<close>

text \<open>
  C25: a resource is taken out of service only while it is idle: when archiving, or a patch
  that sets active to false, succeeds, nobody waits for the resource and every active booking
  of it (a reservation, an offer or a blackout) had ended by the time the check read.
\<close>

theorem deactivation_only_when_idle:
  assumes ok: "db_ok w"
    and run: "archive_resource sc w = Inr (r', w') \<or>
      update_resource sc p w = Inr (r', w') \<and> rp_active p = Some False \<and>
      (\<exists>r \<in> set (resources w). r_id r = r_id r' \<and> r_active r)"
  shows "\<not> r_active r' \<and> db_ok w' \<and> waiting_on (r_id r') w' = [] \<and>
    (\<forall>b \<in> set (bookings w'). b_resource_id b = r_id r' \<and> active_booking b \<longrightarrow> upper (b_range b) \<le> clock w (ticks w))"
proof -
  let ?t = "clock w (ticks w)"
  have "\<not> r_active r' \<and> db_ok w' \<and> \<not> in_use (r_id r') ?t w \<and> bookings w' = bookings w \<and> waitlist w' = waitlist w"
    using run
  proof
    assume "archive_resource sc w = Inr (r', w')"
    from archive_resource_keeps [OF ok this] show ?thesis by simp
  next
    assume u: "update_resource sc p w = Inr (r', w') \<and> rp_active p = Some False \<and>
      (\<exists>r \<in> set (resources w). r_id r = r_id r' \<and> r_active r)"
    then have "update_resource sc p w = Inr (r', w')" by simp
    note k = update_resource_keeps [OF ok this]
    then obtain r where r: "r \<in> set (resources w)" "r' = patched p ?t r"
      "rp_active p = Some False \<and> r_active r \<longrightarrow> \<not> in_use (r_id r) ?t w" by blast
    have dist: "distinct (map r_id (resources w))" using db_okD(1) [OF ok] by (simp add: people_ok_def)
    have "r_id r' = r_id r" using r(2) by (simp add: patched_def)
    then have "r_active r" using u distinct_key_eq [OF dist _ r(1)] by metis
    then show ?thesis using k r u by (auto simp: patched_def)
  qed
  then show ?thesis by (auto simp: in_use_def waiting_on_def not_less filter_empty_conv)
qed

text \<open>
  A version is written once: after a patch or an archiving went through, every other
  request that pinned the same version of that resource, a patch or an archiving, is refused
  with VersionMismatch and changes nothing.
\<close>

theorem resource_no_lost_update:
  assumes ok: "db_ok w" and run: "update_resource sc p w = Inr (r', w') \<or> archive_resource sc w = Inr (r', w')"
    and same: "object_id sc' = Some (r_id r')" "expected_version sc' = Some (r_version r' - 1)"
  shows "update_resource sc' p' w' = Inl VersionMismatch \<and> archive_resource sc' w' = Inl VersionMismatch"
proof -
  let ?t = "clock w (ticks w)"
  have "\<exists>r f. r \<in> set (resources w) \<and> r_id r = r_id r' \<and> r' = f r \<and> (\<forall>x. r_id (f x) = r_id x) \<and>
      r_version r' = r_version r + 1 \<and> resources w' = update_where (\<lambda>x. r_id x = r_id r') f (resources w)"
    using run
  proof
    assume "update_resource sc p w = Inr (r', w')"
    from update_resource_keeps [OF ok this] obtain r where
      r: "r \<in> set (resources w)" "r' = patched p ?t r"
        "resources w' = update_where (\<lambda>x. r_id x = r_id r) (patched p ?t) (resources w)" by blast
    then show ?thesis by (intro exI [of _ r] exI [of _ "patched p ?t"]) (simp add: patched_def)
  next
    assume a: "archive_resource sc w = Inr (r', w')"
    then obtain r w1 w2 where "pinned_resource sc w = Inr r"
      "write_resource (r_id r) (r_version r) (archived ?t) w1 = Inr (r', w2)" "w1 = w\<lparr>ticks := Suc (ticks w)\<rparr>"
      unfolding archive_resource_def Let_def clock_timestamp_def by (auto simp: bind_r_Inr)
    then obtain x where x: "x \<in> set (resources w)" "r' = archived ?t x"
      using write_resource_keeps [of w1 "archived ?t" "r_id r" "r_version r" r' w2] ok by (auto simp: archived_def)
    then show ?thesis
      using archive_resource_keeps [OF ok a] by (intro exI [of _ x] exI [of _ "archived ?t"]) (simp add: archived_def)
  qed
  then obtain r f where r: "r \<in> set (resources w)" "r_id r = r_id r'" "r' = f r" "\<forall>x. r_id (f x) = r_id x"
    "resources w' = update_where (\<lambda>x. r_id x = r_id r') f (resources w)" by blast
  have "r' \<in> set (resources w')" using r by (auto simp: set_update_where)
  moreover have "distinct (map r_id (resources w'))"
  proof -
    have "map r_id (resources w') = map r_id (resources w)" using r(4,5) by (simp add: map_update_where)
    then show ?thesis using db_okD(1) [OF ok] by (simp add: people_ok_def)
  qed
  ultimately have "filter (\<lambda>x. r_id x = r_id r') (resources w') = [r']" using filter_key_distinct by fastforce
  then have "pinned_resource sc' w' = Inl VersionMismatch" using same by (simp add: pinned_resource_def)
  then show ?thesis by (simp add: update_resource_def archive_resource_def)
qed

text \<open>
  For an administrator and a resource that exist and a window the policy admits, creating
  a blackout has exactly three outcomes: RESOURCE_INACTIVE, SlotConflict when an active
  booking of the resource overlaps the window, and otherwise one new confirmed blackout and
  one audit entry.
\<close>

theorem create_blackout_outcome:
  assumes ok: "db_ok w" and r: "r \<in> set (resources w)" "scope_resource_id sc = Some (r_id r)"
    and p: "principal_id sc = Some p" "p \<in> u_id ` set (users w)"
    and win: "validate_blackout_window sa ea (utc_datetime (clock w (ticks w))) = Inr (s, e)" and fresh: "fresh_ids 3 w"
  defines "b \<equiv> new_blackout (uuid_src w (drawn w)) sc (r_id r) \<lparr>lower = s, upper = e\<rparr> (clock w (ticks w))"
  shows "if \<not> r_active r then create_blackout sc sa ea w = Inl ResourceInactive
    else if \<exists>c \<in> set (bookings w). b_resource_id c = r_id r \<and> active_booking c \<and> lower (b_range c) < e \<and> s < upper (b_range c)
      then create_blackout sc sa ea w = Inl SlotConflict
    else \<exists>w' a. create_blackout sc sa ea w = Inr (booking_view b, w') \<and> db_ok w' \<and> bookings w' = bookings w @ [b] \<and>
      audit_log w' = audit_log w @ [a] \<and> a_action a = ''admin.blackout_create'' \<and> a_target_id a = Some (b_id b)"
proof -
  let ?t = "clock w (ticks w)" and ?i = "uuid_src w (drawn w)"
  let ?w2 = "w\<lparr>ticks := Suc (ticks w), drawn := Suc (drawn w)\<rparr>"
  have se: "s < e" using win by (simp add: validate_blackout_window_iff)
  have new: "?i \<notin> b_id ` set (bookings w)" using fresh_ids_next [OF fresh] by (auto simp: ids_def)
  have chk: "booking_check b = None" using se by (simp add: booking_check_iff b_def new_blackout_def isempty_def)
  have fks: "booking_fks ?w2 b" using p r by (simp add: booking_fks_def b_def new_blackout_def)
  have bi: "b_id b = ?i" by (simp add: b_def new_blackout_def)
  have conf: "booking_conflict b c \<longleftrightarrow> b_resource_id c = r_id r \<and> active_booking c \<and> lower (b_range c) < e \<and> s < upper (b_range c)"
    if "c \<in> set (bookings w)" for c
    using se bookings_okD(1) [OF db_okD(2) [OF ok] that]
    by (auto simp: booking_conflict_def active_booking_def b_def new_blackout_def overlaps_def isempty_def booking_check_iff)
  note found = find_resource [OF ok r(1)]
  have run: "create_blackout sc sa ea w = bind_r (slot_conflict (insert_booking b ?w2)) (\<lambda>w3.
      bind_r (audit_admin sc ''admin.blackout_create'' ''booking'' ?i
        (JObj [(''resource_id'', JStr (uuid_str (r_id r))), (''starts_at'', JStr (isoformat s)),
               (''ends_at'', JStr (isoformat e))]) ?t w3) (\<lambda>w4. Inr (booking_view b, w4)))" if "r_active r"
    using that found win r(2) by (simp add: create_blackout_def clock_timestamp_def uuid4_def Let_def b_def)
  show ?thesis
  proof (cases "r_active r")
    case False
    then show ?thesis using found r(2) by (simp add: create_blackout_def)
  next
    case act: True
    show ?thesis
    proof (cases "\<exists>c \<in> set (bookings w). booking_conflict b c")
      case True
      then have "insert_booking b ?w2 = Inl (IntegrityError ''23P01'' ''bookings_no_overlap'')"
        using chk new bi by (simp add: insert_booking_def)
      then show ?thesis using True act conf run by (auto simp: slot_conflict_def)
    next
      case False
      let ?w3 = "?w2\<lparr>bookings := bookings w @ [b]\<rparr>"
      have ins: "insert_booking b ?w2 = Inr ?w3" using insert_booking_runs [OF chk _ fks] new bi False by simp
      have "fresh_ids (Suc (Suc 0)) ?w3"
        using fresh unfolding numeral_3_eq_3 by (rule fresh_ids_draw) (auto simp: ids_def bi)
      moreover have "\<forall>q. principal_id sc = Some q \<longrightarrow> q \<in> u_id ` set (users ?w3)" using p by simp
      ultimately obtain a w4 where au: "audit_admin sc ''admin.blackout_create'' ''booking'' ?i
          (JObj [(''resource_id'', JStr (uuid_str (r_id r))), (''starts_at'', JStr (isoformat s)),
                 (''ends_at'', JStr (isoformat e))]) ?t ?w3 = Inr w4"
          "audit_log w4 = audit_log ?w3 @ [a]" "a_action a = ''admin.blackout_create''" "a_target_id a = Some ?i"
        using audit_admin_total by blast
      have "create_blackout sc sa ea w = Inr (booking_view b, w4)"
        unfolding run [OF act] using ins au(1) by (simp add: slot_conflict_def)
      moreover have "db_ok w4" using create_blackout_keeps [OF ok calculation] .
      moreover have "bookings w4 = bookings w @ [b]" using audit_admin_keeps [OF au(1)] by simp
      ultimately show ?thesis using act False conf au bi by auto
    qed
  qed
qed

text \<open>
  Lifting a blackout that has not ended always goes through, leaves the blackout
  cancelled with its version counted up, and hands the time on in the same transaction:
  nobody is left waiting for the resource unless an active booking blocks the window.
\<close>

theorem cancel_blackout_effect:
  assumes ok: "db_ok w" and b: "b \<in> set (bookings w)" "b_kind b = Blackout" "b_status b = BConfirmed"
    and sc: "object_id sc = Some (b_id b)" "expected_version sc = Some (b_version b)" "scope_resource_id sc = Some (b_resource_id b)"
    and actor: "\<forall>p. principal_id sc = Some p \<longrightarrow> p \<in> u_id ` set (users w)"
    and time: "clock w (ticks w) < upper (b_range b)"
    and fresh: "fresh_ids (2 + 2 * length (waiting_on (b_resource_id b) w)) w"
  shows "\<exists>w'. cancel_blackout sc w = Inr (booking_view (lifted (clock w (ticks w)) b), w') \<and> db_ok w' \<and>
    lifted (clock w (ticks w)) b \<in> set (bookings w') \<and>
    (\<forall>e \<in> set (waiting_on (b_resource_id b) w'). \<exists>c \<in> set (bookings w'). blocked_by (b_resource_id b) e c)"
proof -
  let ?t = "clock w (ticks w)" and ?w1 = "w\<lparr>ticks := Suc (ticks w)\<rparr>" and ?rid = "b_resource_id b"
  let ?k = "2 * length (waiting_on ?rid w)" and ?w2 = "lift_row (b_id b) ?t ?w1"
  have ok1: "db_ok ?w1" using ok by simp
  have b1: "b \<in> set (bookings ?w1)" using b(1) by simp
  note st = lift_steps(1) [where t = ?t, OF ok1 b1 b(2,3)] lift_steps(2) [OF ok1 b1 b(2,3)]
    lift_steps(3,4) [where t = ?t, OF ok1 b1 b(2,3)]
  have "fresh_ids (Suc (Suc ?k)) w" using fresh by simp
  then have f2: "fresh_ids (Suc (Suc ?k)) ?w2"
    by (rule fresh_ids_same [rotated 3]) (auto simp: lift_row_def ids_def image_update_where)
  have "\<forall>p. principal_id sc = Some p \<longrightarrow> p \<in> u_id ` set (users ?w2)" using actor by (simp add: lift_row_def)
  from audit_admin_total [OF f2 this] obtain w3 where
    w3: "audit_admin sc ''admin.blackout_cancel'' ''booking'' (b_id b)
        (JObj [(''resource_id'', JStr (uuid_str ?rid))]) ?t ?w2 = Inr w3" "fresh_ids ?k w3" by blast
  note t3 = audit_admin_keeps [OF w3(1)]
  have "waiting_on ?rid w3 = waiting_on ?rid w"
    using t3 by (intro waiting_on_cong) (simp add: lift_row_def)
  then have fr: "fresh_ids (2 * length (waiting_on ?rid w3)) w3" using w3(2) by simp
  have ok3: "db_ok w3" using t3 st(3) by blast
  from promote_waiters_run [OF ok3 fr] obtain got w4 where
    w4: "promote_waiters ?rid w3 = Inr (got, w4)" "db_ok w4" by blast
  have "prefix (bookings w3) (bookings w4)" using promote_waiters_grows [OF w4(1)] by (simp add: grows_def)
  then have "lifted ?t b \<in> set (bookings w4)" using set_mono_prefix st(4) t3 by fastforce
  moreover have "carry_out_lift sc b (b_version b) ?t ?w1 = Inr (booking_view (lifted ?t b), w4)"
    using st(1,2) w3(1) w4(1) sc(3) by (simp add: carry_out_lift_def)
  moreover have dist: "distinct (map b_id (bookings w))" using db_okD(2) [OF ok] by (simp add: bookings_ok_def)
  then have "scalar_one_or_none (filter (\<lambda>x. b_id x = b_id b \<and> b_kind x = Blackout) (bookings w)) = Inr (Some b)"
    using filter_key_and_distinct [where P = "\<lambda>x. b_kind x = Blackout", OF dist b(1) refl b(2)] by simp
  ultimately show ?thesis
    using w4(2) work_conserved [OF ok3 fr w4(1)] sc b(3) time
    by (auto simp: cancel_blackout_def clock_timestamp_def Let_def)
qed

text \<open>An administrator, and a blackout somebody waits behind.\<close>

definition ex_admin_scope :: scope where
  "ex_admin_scope = (own_scope PAdmin 102)\<lparr>object_id := Some 301, scope_resource_id := Some 1000,
     expected_version := Some 1\<rparr>"

lemma ex_admin_scope_simps:
  "object_id ex_admin_scope = Some 301" "scope_resource_id ex_admin_scope = Some 1000"
  "expected_version ex_admin_scope = Some 1" "principal_id ex_admin_scope = Some 102" "request_id ex_admin_scope = None"
  by (simp_all add: ex_admin_scope_def own_scope_def)

definition ex_blackout :: booking where
  "ex_blackout = ex_booking\<lparr>b_user_id := None, b_kind := Blackout\<rparr>"

definition ex_closed_db :: db where "ex_closed_db = ex_booked_db\<lparr>bookings := [ex_blackout]\<rparr>"

lemma ex_closed_db_ok: "db_ok ex_closed_db"
  by (simp add: db_ok_def people_ok_def bookings_ok_def entries_ok_def events_ok_def offers_linked_def
      no_overlap_def entries_unique_def outbox_ok_def ex_closed_db_def ex_blackout_def ex_booked_db_def ex_booking_def ex_db_def
      empty_db_def ex_user_def ex_resource_def ex_entry_def entry_check_iff booking_check_iff
      booking_fks_def entry_fks_def offer_fk_ok_def isempty_def time_units)

theorem cancel_blackout_effect_witness:
  "\<exists>out w'. cancel_blackout ex_admin_scope ex_closed_db = Inr (out, w') \<and> db_ok w' \<and> bo_status out = BCancelled \<and> bo_version out = 2"
proof -
  have b: "ex_blackout \<in> set (bookings ex_closed_db)" "b_kind ex_blackout = Blackout" "b_status ex_blackout = BConfirmed"
    by (simp_all add: ex_closed_db_def ex_blackout_def ex_booking_def)
  have sc: "object_id ex_admin_scope = Some (b_id ex_blackout)" "expected_version ex_admin_scope = Some (b_version ex_blackout)"
    "scope_resource_id ex_admin_scope = Some (b_resource_id ex_blackout)"
    by (simp_all add: ex_admin_scope_simps ex_blackout_def ex_booking_def)
  have u: "\<forall>p. principal_id ex_admin_scope = Some p \<longrightarrow> p \<in> u_id ` set (users ex_closed_db)"
    by (simp add: ex_admin_scope_simps ex_closed_db_def ex_booked_db_def ex_user_def)
  have t: "clock ex_closed_db (ticks ex_closed_db) < upper (b_range ex_blackout)"
    by (simp add: ex_closed_db_def ex_booked_db_def ex_db_def empty_db_def ex_blackout_def ex_booking_def time_units)
  have "length (waiting_on (b_resource_id ex_blackout) ex_closed_db) = 1" by code_simp
  moreover have "fresh_ids 10 ex_closed_db"
    using ex_booked_fresh by (simp add: fresh_ids_def ids_def ex_closed_db_def ex_blackout_def ex_booked_db_def)
  ultimately have f: "fresh_ids (2 + 2 * length (waiting_on (b_resource_id ex_blackout) ex_closed_db)) ex_closed_db"
    using fresh_ids_mono by simp
  from cancel_blackout_effect [OF ex_closed_db_ok b sc u t f] show ?thesis
    by (force simp: ex_blackout_def ex_booking_def booking_view_def lifted_def)
qed

lemma ex_blackout_window: "validate_blackout_window (ex_at 14) (ex_at 15) (utc_datetime (hours 12)) = Inr (hours 14, hours 15)"
  by code_simp

theorem create_blackout_outcome_witness:
  "create_blackout ex_admin_scope (ex_at 14) (ex_at 15) ex_booked_db = Inl SlotConflict"
proof -
  have r: "ex_resource \<in> set (resources ex_booked_db)" "scope_resource_id ex_admin_scope = Some (r_id ex_resource)"
    by (simp_all add: ex_booked_db_def ex_db_def ex_admin_scope_simps ex_resource_def)
  have p: "principal_id ex_admin_scope = Some 102" "102 \<in> u_id ` set (users ex_booked_db)"
    by (simp_all add: ex_admin_scope_simps ex_booked_db_def ex_user_def)
  have win: "validate_blackout_window (ex_at 14) (ex_at 15) (utc_datetime (clock ex_booked_db (ticks ex_booked_db)))
      = Inr (hours 14, hours 15)"
    using ex_blackout_window by (simp add: ex_booked_db_def ex_db_def empty_db_def)
  have f: "fresh_ids 3 ex_booked_db" by (rule fresh_ids_mono [OF ex_booked_fresh]) simp
  from create_blackout_outcome [OF ex_booked_db_ok r p win f]
  show ?thesis
    by (simp add: ex_booked_db_def ex_booking_def ex_resource_def active_booking_def time_units)
qed

text \<open>An idle resource, archived and then patched at the old version.\<close>

definition ex_idle_db :: db where
  "ex_idle_db = ex_db\<lparr>users := [ex_user 101 Member, ex_user 102 Admin], waitlist := []\<rparr>"

lemma ex_idle_db_ok: "db_ok ex_idle_db"
  by (simp add: db_ok_def people_ok_def bookings_ok_def entries_ok_def events_ok_def offers_linked_def
      no_overlap_def entries_unique_def outbox_ok_def ex_idle_db_def ex_db_def empty_db_def ex_user_def ex_resource_def)

definition ex_archive_scope :: scope where
  "ex_archive_scope = (own_scope PAdmin 102)\<lparr>object_id := Some 1000, scope_resource_id := Some 1000,
     expected_version := Some 1\<rparr>"

lemma ex_archive: "\<exists>w'. archive_resource ex_archive_scope ex_idle_db = Inr (archived (hours 12) ex_resource, w')"
  by (simp add: archive_resource_def pinned_resource_def ex_archive_scope_def own_scope_def ex_idle_db_def ex_db_def
      empty_db_def ex_resource_def clock_timestamp_def check_resource_not_in_use_def in_use_def raise_if_def
      write_resource_def update_resources_def resource_check_def check_def archived_def rowcount_def audit_admin_def
      request_id_or_new_def uuid4_def append_audit_log_def insert_audit_def ex_user_def update_where_def Let_def)

theorem deactivation_only_when_idle_witness:
  "\<exists>w'. archive_resource ex_archive_scope ex_idle_db = Inr (archived (hours 12) ex_resource, w') \<and> waiting_on 1000 w' = []"
proof -
  obtain w' where run: "archive_resource ex_archive_scope ex_idle_db = Inr (archived (hours 12) ex_resource, w')"
    using ex_archive by blast
  from deactivation_only_when_idle [OF ex_idle_db_ok disjI1, OF this] run
  show ?thesis by (auto simp: archived_def ex_resource_def)
qed

theorem resource_no_lost_update_witness:
  "\<exists>w'. archive_resource ex_archive_scope ex_idle_db = Inr (archived (hours 12) ex_resource, w') \<and>
     archive_resource ex_archive_scope w' = Inl VersionMismatch"
proof -
  obtain w' where run: "archive_resource ex_archive_scope ex_idle_db = Inr (archived (hours 12) ex_resource, w')"
    using ex_archive by blast
  have s: "object_id ex_archive_scope = Some (r_id (archived (hours 12) ex_resource))"
    "expected_version ex_archive_scope = Some (r_version (archived (hours 12) ex_resource) - 1)"
    by (simp_all add: ex_archive_scope_def own_scope_def archived_def ex_resource_def)
  from resource_no_lost_update [OF ex_idle_db_ok disjI2 s, OF run] run show ?thesis by blast
qed

end
