(* ===== verification/Oversight.thy ===== *)
theory Oversight
imports Inventory
begin

text \<open>
  The administrator's operations on people and on the records of the service
  (app/admin/service.py, E27 to E32; app/admin/feedback.py, E33 and E34), with the schema
  classes that decide what an administrator may ask for and may see (app/admin/schemas.py).
\<close>

section \<open>What an administrator may see\<close>

definition safe_audit_keys :: "string list" where
  "safe_audit_keys =
     [''fields'', ''old_role'', ''new_role'', ''old_enabled'', ''new_enabled'', ''old_active'', ''new_active'',
      ''revoked_count'', ''previous_status'', ''attempts'', ''event_category'', ''reason_length'', ''user_id'',
      ''resource_id'', ''booking_id'', ''target_id'', ''accounts_anonymized'', ''feedback_deleted'',
      ''account_cutoff_days'', ''feedback_cutoff_days'', ''target_scope'']"

fun scalar_json :: "json \<Rightarrow> bool" where
  "scalar_json (JArr _) = False"
| "scalar_json (JObj _) = False"
| "scalar_json _ = True"

text \<open>isinstance(item, (str, int)); a bool is an int.\<close>

fun str_or_int :: "json \<Rightarrow> bool" where
  "str_or_int (JStr _) = True"
| "str_or_int (JInt _) = True"
| "str_or_int (JBool _) = True"
| "str_or_int _ = False"

definition safe_value :: "json \<Rightarrow> bool" where
  "safe_value v = (scalar_json v \<or> (case v of JArr xs \<Rightarrow> list_all str_or_int xs | _ \<Rightarrow> False))"

definition sanitize_audit_details :: "(string \<times> json) list \<Rightarrow> (string \<times> json) list" where
  "sanitize_audit_details details = filter (\<lambda>(k, v). k \<in> set safe_audit_keys \<and> safe_value v) details"

definition category_char :: "char \<Rightarrow> bool" where
  "category_char c =
     (let n = of_char c :: nat in
      65 \<le> n \<and> n \<le> 90 \<or> 97 \<le> n \<and> n \<le> 122 \<or> 48 \<le> n \<and> n \<le> 57 \<or> c = CHR ''_'' \<or> c = CHR ''-'')"

definition extract_safe_error_category :: "string option \<Rightarrow> string option" where
  "extract_safe_error_category last_error =
     (case last_error of
        None \<Rightarrow> None
      | Some [] \<Rightarrow> None
      | Some s \<Rightarrow>
          (let cleaned = py_strip s;
               category = (if CHR '':'' \<in> set cleaned then py_strip (takeWhile (\<lambda>c. c \<noteq> CHR '':'') cleaned) else cleaned);
               safe = filter category_char category
           in Some (if take 50 safe = [] then ''unknown_error'' else take 50 safe)))"

definition audit_view :: "audit_row \<Rightarrow> audit_row" where
  "audit_view a = a\<lparr>a_details := JObj (case a_details a of JObj kvs \<Rightarrow> sanitize_audit_details kvs | _ \<Rightarrow> [])\<rparr>"

record outbox_out =
  oo_id :: uuid
  oo_event_type :: event_type
  oo_aggregate_id :: uuid
  oo_status :: outbox_status
  oo_attempts :: int
  oo_occurred_at :: time
  oo_available_at :: time
  oo_last_error :: "string option"

definition outbox_view :: "outbox_row \<Rightarrow> outbox_out" where
  "outbox_view r =
     \<lparr>oo_id = o_id r, oo_event_type = o_event_type r, oo_aggregate_id = o_aggregate_id r, oo_status = o_status r,
      oo_attempts = o_attempts r, oo_occurred_at = o_occurred_at r, oo_available_at = o_available_at r,
      oo_last_error = extract_safe_error_category (o_last_error r)\<rparr>"

definition list_audit_logs :: "nat \<Rightarrow> nat \<Rightarrow> uuid option \<Rightarrow> db \<Rightarrow> audit_row listing" where
  "list_audit_logs limit offset target_id w =
     list_page (\<lambda>a. case target_id of None \<Rightarrow> True | Some t \<Rightarrow> a_target_id a = Some t)
       (\<lambda>a. (- a_created_at a, a_id a)) audit_view limit offset (audit_log w)"

definition list_outbox_events :: "nat \<Rightarrow> nat \<Rightarrow> outbox_status option \<Rightarrow> db \<Rightarrow> outbox_out listing" where
  "list_outbox_events limit offset status w =
     list_page (\<lambda>r. case status of None \<Rightarrow> True | Some s \<Rightarrow> o_status r = s)
       (\<lambda>r. (- o_occurred_at r, o_id r)) outbox_view limit offset (outbox w)"

definition retry_event :: "scope \<Rightarrow> time \<Rightarrow> db \<Rightarrow> (outbox_out \<times> db) result" where
  "retry_event sc now w =
     (case object_id sc of
        None \<Rightarrow> Inl RNotFoundError
      | Some event_id \<Rightarrow>
          bind_r (requeue_dead event_id now w) (\<lambda>(event, w1).
          bind_r (audit_admin sc ''admin.outbox_retry'' ''outbox'' (o_id event)
            (JObj [(''previous_status'', JStr ''dead''), (''attempts'', JInt 0)]) now w1) (\<lambda>w2.
          Inr (outbox_view event, w2))))"

section \<open>Invitations\<close>

definition invitation_check :: "invitation \<Rightarrow> exn option" where
  "invitation_check i = first_some
     [check (i_email i = py_lower (strip_chars (\<lambda>c. c = CHR '' '') (i_email i)) \<and> length (i_email i) \<le> 254)
        ''invitations_email_check'',
      check (i_expires_at i > i_created_at i) ''invitations_check'']"

definition insert_invitation :: "invitation \<Rightarrow> db \<Rightarrow> db result" where
  "insert_invitation i w =
     (case i_created_by i of
        None \<Rightarrow> Inl (IntegrityError ''23502'' '''')
      | Some creator \<Rightarrow>
     (case invitation_check i of Some e \<Rightarrow> Inl e | None \<Rightarrow>
      if i_id i \<in> i_id ` set (invitations w) then Inl (IntegrityError ''23505'' ''invitations_pkey'')
      else if i_token_hash i \<in> i_token_hash ` set (invitations w)
        then Inl (IntegrityError ''23505'' ''invitations_token_hash_key'')
      else if creator \<notin> u_id ` set (users w) then Inl (IntegrityError ''23503'' ''invitations_created_by_fkey'')
      else Inr (w\<lparr>invitations := invitations w @ [i]\<rparr>)))"

record invite_create =
  ic_email :: string
  ic_role :: role

definition role_field :: "json \<Rightarrow> role result" where
  "role_field v =
     (if v = JStr ''member'' then Inr Member else if v = JStr ''admin'' then Inr Admin else Inl RequestValidationError)"

definition parse_invite_create :: "(string \<Rightarrow> string option) \<Rightarrow> json \<Rightarrow> invite_create result" where
  "parse_invite_create validator body =
     (if \<not> only_fields [''email'', ''role''] body then Inl RequestValidationError
      else (case json_get body ''email'' of
              Some (JStr s) \<Rightarrow>
                (case normalize_email validator s of
                   Inl _ \<Rightarrow> Inl RequestValidationError
                 | Inr e \<Rightarrow>
                     bind_r (case json_get body ''role'' of None \<Rightarrow> Inr Member | Some v \<Rightarrow> role_field v) (\<lambda>r.
                     Inr \<lparr>ic_email = e, ic_role = r\<rparr>))
            | _ \<Rightarrow> Inl RequestValidationError))"

record invitation_result =
  iv_id :: uuid
  iv_email :: string
  iv_role :: role
  iv_expires_at :: time
  iv_url :: string

definition create_invitation ::
  "crypto \<Rightarrow> settings \<Rightarrow> scope \<Rightarrow> invite_create \<Rightarrow> time \<Rightarrow> db \<Rightarrow> (invitation_result \<times> db) result" where
  "create_invitation cr g sc d now w =
     bind_r (normalize_email (x_validator cr) (ic_email d)) (\<lambda>norm_email.
     bind_r (scalar_one_or_none (map u_id (filter (\<lambda>u. u_email u = norm_email) (users w)))) (\<lambda>existing.
     if existing \<noteq> None then Inl EmailExistsError
     else
     (let (raw_token, w1) = urandom_token w in
      bind_r (dt_add now (days 7)) (\<lambda>expires_at.
      let (invitation_id, w2) = uuid4 w1;
          invite = \<lparr>i_id = invitation_id, i_email = norm_email, i_token_hash = x_sha256_hex cr raw_token,
                    i_role = ic_role d, i_created_by = principal_id sc, i_created_at = now,
                    i_expires_at = expires_at, i_consumed_at = None\<rparr>
      in
      bind_r (insert_invitation invite w2) (\<lambda>w3.
      bind_r (audit_admin sc ''admin.invitation_create'' ''invitation'' invitation_id
        (JObj [(''email'', JStr norm_email), (''role'', JStr (role_name (ic_role d))),
               (''expires_at'', JStr (isoformat expires_at))]) now w3) (\<lambda>w4.
      Inr (\<lparr>iv_id = invitation_id, iv_email = norm_email, iv_role = ic_role d, iv_expires_at = expires_at,
            iv_url = g_app_origin g @ ''/register#token='' @ raw_token\<rparr>, w4)))))))"

section \<open>Users\<close>

definition list_admin_users :: "nat \<Rightarrow> nat \<Rightarrow> bool option \<Rightarrow> db \<Rightarrow> user_out listing" where
  "list_admin_users limit offset enabled w =
     list_page (\<lambda>u. case enabled of None \<Rightarrow> True | Some e \<Rightarrow> u_enabled u = e)
       (\<lambda>u. (- u_created_at u, u_id u)) user_view limit offset (users w)"

definition update_users :: "(user \<Rightarrow> bool) \<Rightarrow> (user \<Rightarrow> user) \<Rightarrow> db \<Rightarrow> (nat \<times> db) result" where
  "update_users P f w =
     (case first_error (\<lambda>u. user_check (f u)) (filter P (users w)) of
        Some e \<Rightarrow> Inl e
      | None \<Rightarrow> Inr (rowcount P (users w), w\<lparr>users := update_where P f (users w)\<rparr>))"

record user_patch =
  up_role :: "role option"
  up_enabled :: "bool option"

definition parse_user_patch :: "(json \<Rightarrow> bool option) \<Rightarrow> json \<Rightarrow> user_patch result" where
  "parse_user_patch parse_bool body =
     (if \<not> only_fields [''role'', ''enabled''] body then Inl RequestValidationError
      else bind_r (case json_get body ''role'' of None \<Rightarrow> Inr None | Some v \<Rightarrow> bind_r (role_field v) (\<lambda>r. Inr (Some r))) (\<lambda>r.
           bind_r (bool_field parse_bool (json_get body ''enabled'')) (\<lambda>e.
           if r = None \<and> e = None then Inl RequestValidationError else Inr \<lparr>up_role = r, up_enabled = e\<rparr>)))"

definition user_patched :: "user_patch \<Rightarrow> time \<Rightarrow> user \<Rightarrow> user" where
  "user_patched p now u =
     u\<lparr>u_role := (case up_role p of None \<Rightarrow> u_role u | Some r \<Rightarrow> r),
       u_enabled := (case up_enabled p of None \<Rightarrow> u_enabled u | Some e \<Rightarrow> e),
       u_version := u_version u + 1, u_updated_at := now\<rparr>"

interpretation user_row: versioned_row u_id u_version "user_patched p t" for p t
  by unfold_locales (simp_all add: user_patched_def)

definition user_patch_details :: "user_patch \<Rightarrow> user \<Rightarrow> json" where
  "user_patch_details p u = JObj
     ((''fields'', JArr ((if up_enabled p = None then [] else [JStr ''enabled'']) @ (if up_role p = None then [] else [JStr ''role''])))
      # (case up_role p of None \<Rightarrow> []
         | Some r \<Rightarrow> [(''old_role'', JStr (role_name (u_role u))), (''new_role'', JStr (role_name r))])
      @ (case up_enabled p of None \<Rightarrow> []
         | Some e \<Rightarrow> [(''old_enabled'', JBool (u_enabled u)), (''new_enabled'', JBool e)]))"

definition update_user :: "scope \<Rightarrow> user_patch \<Rightarrow> time \<Rightarrow> db \<Rightarrow> (user_out \<times> db) result" where
  "update_user sc p now w =
     (case object_id sc of
        None \<Rightarrow> Inl RNotFoundError
      | Some user_id \<Rightarrow>
     (case expected_version sc of
        None \<Rightarrow> Inl PreconditionRequiredError
      | Some v \<Rightarrow>
          bind_r (scalar_one_or_none (filter (\<lambda>u. u_id u = user_id) (users w))) (\<lambda>row.
          case row of
            None \<Rightarrow> Inl RNotFoundError
          | Some u \<Rightarrow>
              if u_version u \<noteq> v then Inl VersionMismatch
              else if up_role p = None \<and> up_enabled p = None then Inl ValueError
              else
              bind_r (update_users (\<lambda>x. u_id x = user_id \<and> u_version x = v) (user_patched p now) w) (\<lambda>(n, w1).
              if n \<noteq> 1 then Inl VersionMismatch
              else
              (let w2 = (if u_enabled u \<and> up_enabled p = Some False
                         then snd (revoke_user_refresh_tokens user_id now w1) else w1) in
               bind_r (audit_admin sc ''admin.user_update'' ''user'' user_id (user_patch_details p u) now w2) (\<lambda>w3.
               Inr (user_view (user_patched p now u), w3)))))))"

section \<open>Feedback\<close>

record feedback_create =
  fc_rating :: int
  fc_task_completed :: bool
  fc_difficulty :: string
  fc_improvement :: string
  fc_consent_version :: "string option"
  fc_consent :: "bool option"

definition feedback_check :: "feedback_row \<Rightarrow> exn option" where
  "feedback_check f = first_some
     [check (f_consent_version f = ''2026-09-v1'') ''feedback_consent_version_check'',
      check (length (f_difficulty f) \<le> 2000) ''feedback_difficulty_check'',
      check (length (f_improvement f) \<le> 2000) ''feedback_improvement_check'',
      check (1 \<le> f_rating f \<and> f_rating f \<le> 5) ''feedback_rating_check'']"

definition insert_feedback :: "feedback_row \<Rightarrow> db \<Rightarrow> db result" where
  "insert_feedback f w =
     (case feedback_check f of Some e \<Rightarrow> Inl e | None \<Rightarrow>
      if f_id f \<in> f_id ` set (feedback w) then Inl (IntegrityError ''23505'' ''feedback_pkey'')
      else if f_user_id f \<notin> u_id ` set (users w) then Inl (IntegrityError ''23503'' ''feedback_user_id_fkey'')
      else Inr (w\<lparr>feedback := feedback w @ [f]\<rparr>))"

definition consented :: "feedback_create \<Rightarrow> bool" where
  "consented d = (fc_consent d = Some True \<and> fc_consent_version d = Some ''2026-09-v1'')"

definition create_feedback :: "scope \<Rightarrow> feedback_create \<Rightarrow> time \<Rightarrow> db \<Rightarrow> ((uuid \<times> time) \<times> db) result" where
  "create_feedback sc d now w =
     (case principal_id sc of
        None \<Rightarrow> Inl ValueError
      | Some p \<Rightarrow>
          if \<not> consented d then Inl ConsentRequiredError
          else
          (let (feedback_id, w1) = uuid4 w in
           bind_r (insert_feedback \<lparr>f_id = feedback_id, f_user_id = p, f_rating = fc_rating d,
               f_task_completed = fc_task_completed d, f_difficulty = fc_difficulty d, f_improvement = fc_improvement d,
               f_consent_version = ''2026-09-v1'', f_created_at = now\<rparr> w1) (\<lambda>w2.
           Inr ((feedback_id, now), w2))))"

definition list_feedback :: "nat \<Rightarrow> nat \<Rightarrow> db \<Rightarrow> feedback_row listing" where
  "list_feedback limit offset w =
     list_page (\<lambda>_. True) (\<lambda>f. (- f_created_at f, f_id f)) (\<lambda>f. f) limit offset (feedback w)"

section \<open>What the operations keep\<close>

lemma update_users_Inr:
  "update_users P f w = Inr (n, w') \<longleftrightarrow>
     (\<forall>u \<in> set (users w). P u \<longrightarrow> user_check (f u) = None) \<and> n = rowcount P (users w) \<and>
     w' = w\<lparr>users := update_where P f (users w)\<rparr>"
  using first_error_None [of "\<lambda>u. user_check (f u)" "filter P (users w)"]
  by (cases "first_error (\<lambda>u. user_check (f u)) (filter P (users w))") (auto simp: update_users_def)

lemma user_patched_simps [simp]:
  "u_id (user_patched p t u) = u_id u" "u_version (user_patched p t u) = u_version u + 1"
  "u_email (user_patched p t u) = u_email u"
  by (simp_all add: user_patched_def)

text \<open>A successful change of a user, step by step.\<close>

lemma update_user_steps:
  assumes ok: "db_ok w" and run: "update_user sc p now w = Inr (out, w')"
  shows "\<exists>u \<in> set (users w). object_id sc = Some (u_id u) \<and> expected_version sc = Some (u_version u) \<and>
    out = user_view (user_patched p now u) \<and> users w' = update_where (\<lambda>x. u_id x = u_id u) (user_patched p now) (users w) \<and>
    db_ok w' \<and> bookings w' = bookings w \<and> waitlist w' = waitlist w \<and>
    (u_enabled u \<and> up_enabled p = Some False \<longrightarrow> (\<forall>t \<in> set (refresh_tokens w'). t_user_id t = u_id u \<longrightarrow> t_revoked_at t \<noteq> None))"
proof -
  obtain u w1 d where u: "scalar_one_or_none (filter (\<lambda>x. u_id x = u_id u) (users w)) = Inr (Some u)"
      "object_id sc = Some (u_id u)" "expected_version sc = Some (u_version u)" "out = user_view (user_patched p now u)"
    and upd: "update_users (\<lambda>x. u_id x = u_id u \<and> u_version x = u_version u) (user_patched p now) w = Inr (1, w1)"
    and au: "audit_admin sc ''admin.user_update'' ''user'' (u_id u) d now
      (if u_enabled u \<and> up_enabled p = Some False then revoke_where (\<lambda>t. t_user_id t = u_id u) now w1 else w1) = Inr w'"
  proof -
    obtain i u w1 where s: "object_id sc = Some i" "scalar_one_or_none (filter (\<lambda>x. u_id x = i) (users w)) = Inr (Some u)"
      "expected_version sc = Some (u_version u)" "out = user_view (user_patched p now u)"
      "update_users (\<lambda>x. u_id x = i \<and> u_version x = u_version u) (user_patched p now) w = Inr (1, w1)"
      "audit_admin sc ''admin.user_update'' ''user'' i (user_patch_details p u) now
        (if u_enabled u \<and> up_enabled p = Some False then revoke_where (\<lambda>t. t_user_id t = i) now w1 else w1) = Inr w'"
      using run by (auto simp: update_user_def bind_r_Inr revoke_user_refresh_tokens_def Let_def split: option.splits if_splits)
    have "u \<in> set (filter (\<lambda>x. u_id x = i) (users w))" using s(2) unfolding scalar_Some by simp
    then have "i = u_id u" by simp
    with s that show ?thesis by blast
  qed
  have "u \<in> set (filter (\<lambda>x. u_id x = u_id u) (users w))" using u(1) unfolding scalar_Some by simp
  then have mem: "u \<in> set (users w)" by simp
  have dist: "distinct (map u_id (users w))" using db_okD(1) [OF ok] by (simp add: people_ok_def)
  have w1: "w1 = w\<lparr>users := update_where (\<lambda>x. u_id x = u_id u) (user_patched p now) (users w)\<rparr>"
    using upd pinned_update(1) [where ver = u_version, OF dist mem refl refl] by (simp add: update_users_Inr)
  let ?w2 = "if u_enabled u \<and> up_enabled p = Some False then revoke_where (\<lambda>t. t_user_id t = u_id u) now w1 else w1"
  have ids: "map u_id (users w1) = map u_id (users w)" by (simp add: w1 map_update_where)
  then have "u_id ` set (users w1) = u_id ` set (users w)" by (metis list.set_map)
  then have "db_ok ?w2"
    using db_ok_people [OF ok, of ?w2] ids db_okD(1) [OF ok] w1 by (auto simp: people_ok_def revoke_where_def)
  moreover note k = audit_admin_keeps [OF au]
  moreover have "refresh_tokens w' = refresh_tokens ?w2"
    using au by (auto simp: audit_admin_def append_audit_log_def request_id_or_new_def uuid4_def insert_audit_def Let_def bind_r_Inr
        split: option.splits if_splits)
  moreover have "\<forall>t \<in> set (refresh_tokens (revoke_where (\<lambda>t. t_user_id t = u_id u) now w1)). t_user_id t = u_id u \<longrightarrow> t_revoked_at t \<noteq> None"
    by (auto simp: revoke_where_def set_update_where)
  ultimately show ?thesis
    using u mem w1 by (intro bexI [OF _ mem]) (auto simp: revoke_where_def)
qed

lemma create_invitation_keeps:
  assumes ok: "db_ok w" and run: "create_invitation cr g sc d now w = Inr (res, w')"
  shows "db_ok w' \<and> bookings w' = bookings w \<and> waitlist w' = waitlist w \<and> users w' = users w"
proof -
  obtain i w2 tid dd where w2: "insert_invitation i (w\<lparr>urandomed := Suc (urandomed w), drawn := Suc (drawn w)\<rparr>) = Inr w2"
    and a: "audit_admin sc ''admin.invitation_create'' ''invitation'' tid dd now w2 = Inr w'"
    using run unfolding create_invitation_def urandom_token_def uuid4_def Let_def
    by (auto simp: bind_r_Inr split: if_splits)
  have "same_tables w w2" using w2 by (auto simp: insert_invitation_def same_tables_def split: option.splits if_splits)
  from db_ok_same [OF this] this ok show ?thesis using audit_admin_keeps [OF a] by (simp add: same_tables_def)
qed

lemma requeue_dead_keeps:
  assumes ok: "db_ok w" and run: "requeue_dead i now w = Inr (r, w')"
  shows "db_ok w' \<and> bookings w' = bookings w \<and> waitlist w' = waitlist w \<and> users w' = users w"
proof -
  note parts = db_okD [OF ok]
  have oo: "outbox_ok (outbox w)" using parts(4) by (simp add: events_ok_def)
  from requeue_dead_eq [OF oo, of i now] run have w': "w' = w\<lparr>outbox := update_where (\<lambda>x. o_id x = i) (requeue_row now) (outbox w)\<rparr>"
    by auto
  have "outbox_ok (outbox w')"
    unfolding w' using oo by (auto simp: outbox_ok_def map_update_where requeue_row_def outbox_check_iff set_update_where)
  moreover have "sorted_wrt (\<lambda>r s. \<not> same_event r s) (outbox w')"
  proof -
    have same: "same_event (if P then requeue_row now x else x) (if Q then requeue_row now y else y) = same_event x y" for P Q x y
      by (simp add: same_event_def requeue_row_def)
    have "sorted_wrt (\<lambda>r s. \<not> same_event r s) (outbox w)" using parts(4) by (simp add: events_ok_def)
    then show ?thesis unfolding w' update_where_def by (auto simp: same intro: sorted_wrt_map_mono)
  qed
  moreover have "\<forall>r \<in> set (outbox w'). \<exists>b \<in> set (bookings w). o_aggregate_id r = b_id b \<and> o_aggregate_version r \<le> b_version b"
    using parts(4) unfolding w' by (auto simp: events_ok_def set_update_where requeue_row_def)
  ultimately have "events_ok w'" by (simp add: events_ok_def w')
  then show ?thesis using parts by (simp add: db_ok_def w')
qed

lemma retry_event_keeps:
  assumes ok: "db_ok w" and run: "retry_event sc now w = Inr (out, w')"
  shows "db_ok w' \<and> bookings w' = bookings w \<and> waitlist w' = waitlist w"
proof -
  obtain i r w1 dd where "requeue_dead i now w = Inr (r, w1)"
      "audit_admin sc ''admin.outbox_retry'' ''outbox'' (o_id r) dd now w1 = Inr w'"
    using run unfolding retry_event_def by (auto simp: bind_r_Inr split: option.splits)
  then show ?thesis using requeue_dead_keeps [OF ok] audit_admin_keeps by metis
qed

lemma create_feedback_keeps:
  assumes ok: "db_ok w" and run: "create_feedback sc d now w = Inr (out, w')"
  shows "db_ok w' \<and> bookings w' = bookings w \<and> waitlist w' = waitlist w \<and> consented d \<and>
    (\<exists>f. feedback w' = feedback w @ [f] \<and> principal_id sc = Some (f_user_id f) \<and> f_consent_version f = ''2026-09-v1'')"
proof -
  obtain f where f: "insert_feedback f (w\<lparr>drawn := Suc (drawn w)\<rparr>) = Inr w'" "consented d" "principal_id sc = Some (f_user_id f)"
      "f_consent_version f = ''2026-09-v1''"
    using run unfolding create_feedback_def uuid4_def Let_def
    by (auto simp: bind_r_Inr split: option.splits if_splits)
  then have "w' = w\<lparr>drawn := Suc (drawn w), feedback := feedback w @ [f]\<rparr>"
    by (auto simp: insert_feedback_def split: option.splits if_splits)
  moreover from this have "same_tables w w'" by (simp add: same_tables_def)
  from db_ok_same [OF this] ok have "db_ok w'" by simp
  ultimately show ?thesis using f by simp
qed

section \<open>Properties\<close>

lemma remains_admin_patch:
  assumes "parse_user_patch pb body = Inr p" "remains_admin body"
    and "\<And>v. json_get body ''enabled'' = Some v \<Longrightarrow> pb v = Some False \<Longrightarrow> v = JBool False"
  shows "up_role p \<noteq> Some Member" "up_enabled p \<noteq> Some False"
proof -
  obtain r e where re: "(case json_get body ''role'' of None \<Rightarrow> Inr None | Some v \<Rightarrow> bind_r (role_field v) (\<lambda>r. Inr (Some r))) = Inr r"
      "bool_field pb (json_get body ''enabled'') = Inr e" "p = \<lparr>up_role = r, up_enabled = e\<rparr>"
    using assms(1) by (auto simp: parse_user_patch_def bind_r_Inr split: if_splits)
  show "up_role p \<noteq> Some Member"
    using re(1,3) assms(2) by (auto simp: remains_admin_def role_field_def bind_r_Inr split: option.splits if_splits json.splits)
  show "up_enabled p \<noteq> Some False"
    using re(2,3) assms(2,3) by (auto simp: remains_admin_def bool_field_def split: option.splits json.splits)
qed

lemma not_member: "r \<noteq> Member \<longleftrightarrow> r = Admin"
  by (cases r) simp_all

lemma two_of_many:
  assumes "distinct (filter P xs)" "1 < length (filter P xs)"
  shows "\<exists>y \<in> set xs. P y \<and> y \<noteq> x"
proof (rule ccontr)
  assume "\<not> ?thesis"
  then have "set (filter P xs) \<subseteq> {x}" by auto
  then have "card (set (filter P xs)) \<le> 1" using card_mono [of "{x}"] by fastforce
  then show False using assms distinct_card by fastforce
qed

text \<open>
  C24: the service is never left without an active administrator by a change of a user: where
  the guard passed in the same transaction, and the JSON body says false when the parsed
  patch says false, an enabled administrator exists after the change. The guard reads the
  JSON body and the change the parsed one; the proviso is that they agree.
\<close>

theorem last_admin_kept:
  assumes ok: "db_ok w" and guard: "check_user_change actor target pinned body w = Inr ()"
    and parsed: "parse_user_patch pb body = Inr p"
    and agree: "\<forall>v. json_get body ''enabled'' = Some v \<and> pb v = Some False \<longrightarrow> v = JBool False"
    and run: "object_id sc = Some target" "update_user sc p now w = Inr (out, w')"
  shows "\<exists>u \<in> set (users w'). active_admin u"
proof -
  have dist: "distinct (map u_id (users w))" using db_okD(1) [OF ok] by (simp add: people_ok_def)
  have one: "x \<in> set (users w)" if "scalar_one_or_none (filter (\<lambda>u. u_id u = i) (users w)) = Inr (Some x)" for i x
  proof -
    have "x \<in> set (filter (\<lambda>u. u_id u = i) (users w))" using that unfolding scalar_Some by simp
    then show ?thesis by simp
  qed
  obtain a t where at: "scalar_one_or_none (filter (\<lambda>u. u_id u = actor) (users w)) = Inr (Some a)" "active_admin a"
      "scalar_one_or_none (filter (\<lambda>u. u_id u = target) (users w)) = Inr (Some t)"
      "active_admin t \<longrightarrow> remains_admin body \<or> 1 < length (filter active_admin (users w))"
    using guard by (auto simp: check_user_change_def bind_r_Inr split: option.splits if_splits)
  obtain u where u: "u \<in> set (users w)" "u_id u = target"
      "users w' = update_where (\<lambda>x. u_id x = u_id u) (user_patched p now) (users w)"
    using update_user_steps [OF ok run(2)] run(1) by auto
  have "t \<in> set (filter (\<lambda>u. u_id u = target) (users w))" using at(3) unfolding scalar_Some by simp
  then have "t = u" using distinct_key_eq [OF dist _ u(1)] u(2) by auto
  have others: "x \<in> set (users w')" if "x \<in> set (users w)" "x \<noteq> u" for x
    using that distinct_key_eq [OF dist that(1) u(1)] u(3) by (auto simp: set_update_where)
  show ?thesis
  proof (cases "active_admin u")
    case False
    then have "a \<noteq> u" using at(2) by auto
    then show ?thesis using others one [OF at(1)] at(2) by blast
  next
    case act: True
    show ?thesis
    proof (cases "remains_admin body")
      case True
      have remains: "up_role p \<noteq> Some Member" "up_enabled p \<noteq> Some False"
        using remains_admin_patch [OF parsed True] agree by blast+
      have "up_role p = None \<or> up_role p = Some Admin" using remains(1) not_member by (cases "up_role p") auto
      moreover have "up_enabled p = None \<or> up_enabled p = Some True" using remains(2) by (cases "up_enabled p") auto
      ultimately have "active_admin (user_patched p now u)"
        using act by (elim disjE) (simp_all add: active_admin_def user_patched_def)
      moreover have "user_patched p now u \<in> set (users w')" using u by (auto simp: set_update_where)
      ultimately show ?thesis by blast
    next
      case False
      then have "1 < length (filter active_admin (users w))" using at(4) act \<open>t = u\<close> by blast
      moreover have "distinct (filter active_admin (users w))" using dist by (simp add: distinct_map)
      ultimately obtain y where "y \<in> set (users w)" "active_admin y" "y \<noteq> u"
        using two_of_many [of active_admin "users w" u] by blast
      then show ?thesis using others by blast
    qed
  qed
qed

text \<open>
  The proviso is needed: with a parser that reads the JSON string "false" as false, as
  pydantic's lax mode does, the guard lets the only administrator be disabled.
\<close>

definition ex_staff_db :: db where
  "ex_staff_db = ex_db\<lparr>users := [ex_user 101 Member, ex_user 102 Admin], waitlist := []\<rparr>"

definition ex_staff_scope :: scope where
  "ex_staff_scope = (own_scope PAdmin 102)\<lparr>object_id := Some 102, expected_version := Some 1\<rparr>"

lemma ex_staff_ok: "db_ok ex_staff_db"
  by (simp add: db_ok_def people_ok_def bookings_ok_def entries_ok_def events_ok_def offers_linked_def
      no_overlap_def entries_unique_def outbox_ok_def ex_staff_db_def ex_db_def empty_db_def ex_user_def ex_resource_def)

lemma ex_staff_user: "user_check (user_patched p t (ex_user 102 Admin)) = None"
  by (simp add: user_check_def user_patched_def ex_user_def check_def) code_simp

lemma ex_staff_update:
  "\<exists>w'. update_user ex_staff_scope p t ex_staff_db = Inr (user_view (user_patched p t (ex_user 102 Admin)), w')"
  if "up_role p \<noteq> None \<or> up_enabled p \<noteq> None"
proof -
  have c: "user_check (user_patched p t (ex_user 102 Admin)) = None" by (rule ex_staff_user)
  have u: "u_id (ex_user i r) = i" "u_version (ex_user i r) = 1" for i r by (simp_all add: ex_user_def)
  have "update_users (\<lambda>x. u_id x = 102 \<and> u_version x = 1) (user_patched p t) ex_staff_db
      = Inr (1, ex_staff_db\<lparr>users := [ex_user 101 Member, user_patched p t (ex_user 102 Admin)]\<rparr>)"
    using c by (simp add: update_users_def ex_staff_db_def u rowcount_def update_where_def)
  then show ?thesis
    using that by (auto simp: update_user_def ex_staff_scope_def own_scope_def ex_staff_db_def u audit_admin_def
        request_id_or_new_def uuid4_def append_audit_log_def insert_audit_def Let_def revoke_user_refresh_tokens_def
        revoke_where_def ex_db_def empty_db_def)
qed

theorem last_admin_bypass:
  assumes lax: "pb (JStr ''false'') = Some False"
  shows "\<exists>w sc body p out w'. db_ok w \<and> (\<exists>u \<in> set (users w). active_admin u) \<and>
    check_user_change 102 102 (expected_version sc) body w = Inr () \<and> parse_user_patch pb body = Inr p \<and>
    update_user sc p 0 w = Inr (out, w') \<and> \<not> (\<exists>u \<in> set (users w'). active_admin u)"
proof -
  let ?body = "JObj [(''enabled'', JStr ''false'')]" and ?p = "\<lparr>up_role = None, up_enabled = Some False\<rparr>"
  obtain w' where run: "update_user ex_staff_scope ?p 0 ex_staff_db = Inr (user_view (user_patched ?p 0 (ex_user 102 Admin)), w')"
    using ex_staff_update [of ?p 0] by auto
  obtain u where "u \<in> set (users ex_staff_db)" "object_id ex_staff_scope = Some (u_id u)"
      "users w' = update_where (\<lambda>x. u_id x = u_id u) (user_patched ?p 0) (users ex_staff_db)"
    using update_user_steps [OF ex_staff_ok run] by blast
  then have none: "\<not> (\<exists>u \<in> set (users w'). active_admin u)"
    by (auto simp: ex_staff_scope_def own_scope_def ex_staff_db_def update_where_def ex_user_def user_patched_def active_admin_def)
  have some: "\<exists>u \<in> set (users ex_staff_db). active_admin u"
    by (simp add: ex_staff_db_def ex_user_def active_admin_def)
  have guard: "check_user_change 102 102 (expected_version ex_staff_scope) ?body ex_staff_db = Inr ()"
    by (simp add: check_user_change_def ex_staff_db_def ex_user_def active_admin_def remains_admin_def ex_staff_scope_def own_scope_def)
  have parse: "parse_user_patch pb ?body = Inr ?p"
    using lax by (simp add: parse_user_patch_def only_fields_def bool_field_def)
  show ?thesis using ex_staff_ok some guard parse run none by blast
qed

theorem last_admin_bypass_witness:
  "\<exists>w sc body p out w'. parse_user_patch (\<lambda>v. if v = JStr ''false'' then Some False else None) body = Inr p \<and>
     update_user sc p 0 w = Inr (out, w') \<and> \<not> (\<exists>u \<in> set (users w'). active_admin u)"
proof -
  let ?pb = "\<lambda>v. if v = JStr ''false'' then Some False else None"
  have "?pb (JStr ''false'') = Some False" by simp
  from last_admin_bypass [where pb = ?pb, OF this] show ?thesis by blast
qed

theorem last_admin_kept_witness:
  "\<exists>out w'. update_user ex_staff_scope \<lparr>up_role = Some Admin, up_enabled = None\<rparr> 0 ex_staff_db = Inr (out, w') \<and>
     (\<exists>u \<in> set (users w'). active_admin u)"
proof -
  let ?body = "JObj [(''role'', JStr ''admin'')]" and ?p = "\<lparr>up_role = Some Admin, up_enabled = None\<rparr>"
  obtain w' where run: "update_user ex_staff_scope ?p 0 ex_staff_db = Inr (user_view (user_patched ?p 0 (ex_user 102 Admin)), w')"
    using ex_staff_update [of ?p 0] by auto
  have guard: "check_user_change 102 102 (Some 1) ?body ex_staff_db = Inr ()"
    by (simp add: check_user_change_def ex_staff_db_def ex_user_def active_admin_def remains_admin_def)
  have parse: "parse_user_patch (\<lambda>_. None) ?body = Inr ?p"
    by (simp add: parse_user_patch_def only_fields_def bool_field_def role_field_def)
  have "object_id ex_staff_scope = Some 102" by (simp add: ex_staff_scope_def)
  from last_admin_kept [OF ex_staff_ok guard parse _ this run] run show ?thesis by auto
qed

lemma map_of_sanitized: "map_of (sanitize_audit_details kvs) k = Some v \<Longrightarrow> k \<in> set safe_audit_keys \<and> safe_value v"
  by (auto simp: sanitize_audit_details_def dest!: map_of_SomeD)

lemma category_bounds:
  "case extract_safe_error_category e of None \<Rightarrow> True
   | Some s \<Rightarrow> s \<noteq> [] \<and> length s \<le> 50 \<and> list_all category_char s"
proof -
  have "list_all category_char (take 50 (filter category_char xs))" for xs
    by (auto simp: list_all_iff dest: in_set_takeD)
  moreover have "list_all category_char ''unknown_error''" by code_simp
  ultimately show ?thesis
    by (auto simp: extract_safe_error_category_def Let_def simp del: take_eq_Nil split: option.splits list.splits)
qed

text \<open>
  What the audit and outbox lists show is redacted whatever the tables hold: a detail of
  an audit entry is shown only under one of the 21 admitted keys, with a scalar or a flat list
  of texts and integers, so the address of an invitation never appears; of the error of an
  event only a category of 1 to 50 letters, digits, underscores and hyphens.
\<close>

theorem oversight_redacts:
  "(a \<in> set (p_items (list_audit_logs l k t w)) \<and> json_get (a_details a) key = Some v \<longrightarrow>
      key \<in> set safe_audit_keys \<and> safe_value v \<and> key \<noteq> ''email'') \<and>
   (r \<in> set (p_items (list_outbox_events l' k' st w)) \<and> oo_last_error r = Some s \<longrightarrow>
      s \<noteq> [] \<and> length s \<le> 50 \<and> list_all category_char s)"
proof (intro conjI impI; elim conjE)
  assume a: "a \<in> set (p_items (list_audit_logs l k t w))" "json_get (a_details a) key = Some v"
  obtain a0 where "a = audit_view a0" using list_page_members [OF a(1) [unfolded list_audit_logs_def]] by blast
  then show kv: "key \<in> set safe_audit_keys" "safe_value v"
    using a(2) map_of_sanitized by (auto simp: audit_view_def split: json.splits)
  have "''email'' \<notin> set safe_audit_keys" by (simp add: safe_audit_keys_def)
  then show "key \<noteq> ''email''" using kv(1) by blast
next
  assume r: "r \<in> set (p_items (list_outbox_events l' k' st w))" "oo_last_error r = Some s"
  obtain r0 where "r = outbox_view r0" using list_page_members [OF r(1) [unfolded list_outbox_events_def]] by blast
  then show "s \<noteq> []" "length s \<le> 50" "list_all category_char s"
    using r(2) category_bounds [of "o_last_error r0"] by (simp_all add: outbox_view_def)
qed

definition ex_audit :: audit_row where
  "ex_audit = \<lparr>a_id = 1, a_actor_id = None, a_action = ''admin.invitation_create'', a_target_type = ''invitation'',
     a_target_id = None, a_request_id = 2, a_details = JObj [(''email'', JStr ''a@b.c''), (''attempts'', JInt 3)],
     a_created_at = 0\<rparr>"

definition ex_seen_db :: db where
  "ex_seen_db = (empty_db 0)\<lparr>audit_log := [ex_audit], outbox := [ex_row\<lparr>o_last_error := Some ''SMTP: a@b.c''\<rparr>]\<rparr>"

lemma ex_seen:
  "audit_view ex_audit \<in> set (p_items (list_audit_logs 25 0 None ex_seen_db))"
  "json_get (a_details (audit_view ex_audit)) ''attempts'' = Some (JInt 3)"
  "json_get (a_details (audit_view ex_audit)) ''email'' = None"
  "outbox_view (ex_row\<lparr>o_last_error := Some ''SMTP: a@b.c''\<rparr>) \<in> set (p_items (list_outbox_events 25 0 None ex_seen_db))"
  "oo_last_error (outbox_view (ex_row\<lparr>o_last_error := Some ''SMTP: a@b.c''\<rparr>)) = Some ''SMTP''"
proof -
  show "audit_view ex_audit \<in> set (p_items (list_audit_logs 25 0 None ex_seen_db))"
    by (simp add: list_audit_logs_def list_page_def order_limit_def ex_seen_db_def)
  show "json_get (a_details (audit_view ex_audit)) ''attempts'' = Some (JInt 3)"
    "json_get (a_details (audit_view ex_audit)) ''email'' = None"
    by (simp_all add: audit_view_def ex_audit_def sanitize_audit_details_def safe_audit_keys_def safe_value_def)
  show "outbox_view (ex_row\<lparr>o_last_error := Some ''SMTP: a@b.c''\<rparr>) \<in> set (p_items (list_outbox_events 25 0 None ex_seen_db))"
    by (simp add: list_outbox_events_def list_page_def order_limit_def ex_seen_db_def)
  have "extract_safe_error_category (Some ''SMTP: a@b.c'') = Some ''SMTP''" by code_simp
  then show "oo_last_error (outbox_view (ex_row\<lparr>o_last_error := Some ''SMTP: a@b.c''\<rparr>)) = Some ''SMTP''"
    by (simp add: outbox_view_def)
qed

theorem oversight_redacts_witness: "''attempts'' \<in> set safe_audit_keys \<and> list_all category_char ''SMTP''"
  using oversight_redacts [of "audit_view ex_audit" 25 0 None ex_seen_db "''attempts''" "JInt 3"
      "outbox_view (ex_row\<lparr>o_last_error := Some ''SMTP: a@b.c''\<rparr>)" 25 0 None "''SMTP''"] ex_seen(1,2,4,5) by blast

text \<open>
  A change of a user that goes through changes exactly the row whose version was pinned,
  counts its version up, leaves every other user, booking and waiting entry as it is, and,
  when it disables an enabled user, revokes every refresh token of that user.
\<close>

theorem update_user_effect:
  assumes "db_ok w" "update_user sc p now w = Inr (out, w')"
  shows "\<exists>u \<in> set (users w). object_id sc = Some (u_id u) \<and> expected_version sc = Some (u_version u) \<and>
    out = user_view (user_patched p now u) \<and> users w' = update_where (\<lambda>x. u_id x = u_id u) (user_patched p now) (users w) \<and>
    db_ok w' \<and> bookings w' = bookings w \<and> waitlist w' = waitlist w \<and>
    (u_enabled u \<and> up_enabled p = Some False \<longrightarrow> (\<forall>t \<in> set (refresh_tokens w'). t_user_id t = u_id u \<longrightarrow> t_revoked_at t \<noteq> None))"
  using assms by (rule update_user_steps)

theorem update_user_effect_witness:
  "\<exists>out w'. update_user ex_staff_scope \<lparr>up_role = None, up_enabled = Some False\<rparr> 5 ex_staff_db = Inr (out, w') \<and>
     uo_version out = 2 \<and> \<not> uo_enabled out \<and> length (users w') = 2"
proof -
  let ?p = "\<lparr>up_role = None, up_enabled = Some False\<rparr>"
  obtain w' where run: "update_user ex_staff_scope ?p 5 ex_staff_db = Inr (user_view (user_patched ?p 5 (ex_user 102 Admin)), w')"
    using ex_staff_update [of ?p 5] by auto
  from update_user_effect [OF ex_staff_ok run] have "length (users w') = 2" by (auto simp: ex_staff_db_def)
  then show ?thesis using run by (simp add: user_view_def user_patched_def ex_user_def)
qed

text \<open>
  An invitation an administrator created can be redeemed with the token of its link: as
  long as it is unexpired, the invited address is not taken and the password is acceptable,
  registering with that token creates the account with the role that was offered.
\<close>

theorem invitation_redeemable:
  assumes made: "create_invitation cr g sc d now w = Inr (res, w1)" "iv_url res = g_app_origin g @ ''/register#token='' @ raw"
    and email: "normalize_email (x_validator cr) (rg_email rg) = Inr (iv_email res)" "py_lower (py_strip (iv_email res)) = iv_email res"
    and rg: "rg_invitation_token rg = raw" "hash_password (x_argon2 cr) (rg_password rg) = Inr pw"
      "1 \<le> length (py_strip (rg_display_name rg))" "length (py_strip (rg_display_name rg)) \<le> 80"
    and later: "invitations w2 = invitations w1" "t < iv_expires_at res"
    and free: "iv_email res \<notin> u_email ` set (users w2)"
    and fresh: "uuid_src w2 (drawn w2) \<notin> u_id ` set (users w2)"
      "uuid_src w2 (Suc (drawn w2)) \<notin> a_id ` set (audit_log w2)"
  shows "\<exists>u w3. register cr rg t (Some req) w2 = Inr (user_view u, w3) \<and> users w3 = users w2 @ [u] \<and>
    u_email u = iv_email res \<and> u_role u = ic_role d \<and> u_enabled u"
proof -
  let ?w0 = "w\<lparr>urandomed := Suc (urandomed w), drawn := Suc (drawn w)\<rparr>"
  let ?inv = "\<lambda>e. \<lparr>i_id = uuid_src w (drawn w), i_email = e, i_token_hash = x_sha256_hex cr (urandom_src w (urandomed w)),
      i_role = ic_role d, i_created_by = principal_id sc, i_created_at = now, i_expires_at = now + days 7, i_consumed_at = None\<rparr>"
  obtain e wi dd where s: "insert_invitation (?inv e) ?w0 = Inr wi"
      "audit_admin sc ''admin.invitation_create'' ''invitation'' (uuid_src w (drawn w)) dd now wi = Inr w1"
      "res = \<lparr>iv_id = uuid_src w (drawn w), iv_email = e, iv_role = ic_role d, iv_expires_at = now + days 7,
         iv_url = g_app_origin g @ ''/register#token='' @ urandom_src w (urandomed w)\<rparr>"
    using made(1) unfolding create_invitation_def urandom_token_def uuid4_def Let_def dt_add_def
    by (auto simp: bind_r_Inr split: if_splits)
  have "raw = urandom_src w (urandomed w)" using made(2) s(3) by simp
  then obtain i where i: "insert_invitation i ?w0 = Inr wi" "i_email i = iv_email res" "i_role i = ic_role d"
      "i_consumed_at i = None" "i_expires_at i = iv_expires_at res" "i_token_hash i = x_sha256_hex cr raw" "invitations ?w0 = invitations w"
    using s(1,3) that [of "?inv e"] by simp
  have wi: "invitations wi = invitations w @ [i]" "x_sha256_hex cr raw \<notin> i_token_hash ` set (invitations w)"
      "invitation_check i = None"
    using i(1,6,7) by (auto simp: insert_invitation_def split: option.splits if_splits)
  have "invitations w1 = invitations wi"
    using s(2) by (auto simp: audit_admin_def append_audit_log_def request_id_or_new_def uuid4_def insert_audit_def Let_def bind_r_Inr
        split: option.splits if_splits)
  then have inv2: "invitations w2 = invitations w @ [i]" using wi(1) later(1) by simp
  have none: "filter (\<lambda>i. i_token_hash i = x_sha256_hex cr raw) (invitations w) = []"
    using wi(2) unfolding filter_empty_conv by (metis imageI)
  have chk: "iv_email res = py_lower (strip_chars (\<lambda>c. c = CHR '' '') (iv_email res))" "length (iv_email res) \<le> 254"
    using wi(3) i(2) by (auto simp: invitation_check_def first_some_None)
  have noone: "filter (\<lambda>u. u_email u = iv_email res) (users w2) = []"
    using free unfolding filter_empty_conv by (metis imageI)
  let ?u = "\<lparr>u_id = uuid_src w2 (drawn w2), u_email = iv_email res, u_password_hash = pw,
      u_display_name = py_strip (rg_display_name rg), u_role = ic_role d, u_enabled = True,
      u_version = 1, u_created_at = t, u_updated_at = t\<rparr>"
  have ins: "insert_user ?u (w2\<lparr>drawn := Suc (drawn w2)\<rparr>) = Inr (w2\<lparr>drawn := Suc (drawn w2), users := users w2 @ [?u]\<rparr>)"
    using free fresh(1) chk rg(3,4) by (simp add: insert_user_def user_check_def first_some_None check_def)
  show ?thesis
    using i ins none noone later(2) email rg fresh(2) inv2
    by (simp add: register_def uuid4_def Let_def registration_conflict_def append_audit_log_def insert_audit_def)
qed

definition ex_invite_scope :: scope where "ex_invite_scope = own_scope PAdmin 102"

theorem invitation_redeemable_witness:
  "\<exists>res w1. create_invitation ex_crypto ex_settings ex_invite_scope \<lparr>ic_email = ''n@b.c'', ic_role = Admin\<rparr> 0 ex_staff_db = Inr (res, w1) \<and>
     (\<exists>u w3. register ex_crypto \<lparr>rg_invitation_token = [], rg_email = ''n@b.c'', rg_password = ''correct horse'', rg_display_name = ''N''\<rparr>
        (hours 1) (Some 9) w1 = Inr (user_view u, w3) \<and> u_role u = Admin)"
proof -
  let ?c = "create_invitation ex_crypto ex_settings ex_invite_scope \<lparr>ic_email = ''n@b.c'', ic_role = Admin\<rparr> 0 ex_staff_db"
  have val: "x_validator ex_crypto = Some" "x_sha256_hex ex_crypto = (\<lambda>s. s)" "x_argon2 ex_crypto = (\<lambda>s. s)"
    by (simp_all add: ex_crypto_def)
  obtain res w1 where c: "?c = Inr (res, w1)" and res: "iv_email res = ''n@b.c''" "iv_expires_at res = days 7"
      "iv_url res = g_app_origin ex_settings @ ''/register#token='' @ []"
    and w1: "users w1 = users ex_staff_db" "uuid_src w1 = uuid_src ex_staff_db" "drawn w1 = 3" "map a_id (audit_log w1) = [3]"
    by (simp add: create_invitation_def val ex_normalized ex_staff_db_def ex_user_def urandom_token_def uuid4_def Let_def
        dt_add_def in_calendar_def min_instant_def max_instant_def epoch_ord_def insert_invitation_def invitation_check_def check_def
        ex_invite_scope_def own_scope_def audit_admin_def request_id_or_new_def append_audit_log_def insert_audit_def
        ex_db_def empty_db_def time_units)
  have pw: "hash_password (x_argon2 ex_crypto) ''correct horse'' = Inr ''correct horse''"
    by (simp add: hash_password_def validate_password_length_def val)
  have free: "iv_email res \<notin> u_email ` set (users w1)" by (simp add: w1 res ex_staff_db_def ex_user_def)
  have fresh: "uuid_src w1 (drawn w1) \<notin> u_id ` set (users w1)" "uuid_src w1 (Suc (drawn w1)) \<notin> a_id ` set (audit_log w1)"
  proof -
    show "uuid_src w1 (drawn w1) \<notin> u_id ` set (users w1)" by (simp add: w1 ex_staff_db_def ex_user_def ex_db_def empty_db_def)
    have "a_id ` set (audit_log w1) = {3}" using w1(4) by (metis list.set(1) list.set_map list.simps(15))
    then show "uuid_src w1 (Suc (drawn w1)) \<notin> a_id ` set (audit_log w1)"
      by (simp add: w1 ex_staff_db_def ex_db_def empty_db_def)
  qed
  let ?rg = "\<lparr>rg_invitation_token = [], rg_email = ''n@b.c'', rg_password = ''correct horse'', rg_display_name = ''N''\<rparr>"
  have e: "normalize_email (x_validator ex_crypto) (rg_email ?rg) = Inr (iv_email res)" "py_lower (py_strip (iv_email res)) = iv_email res"
    by (simp_all add: val res ex_normalized)
  have pw': "hash_password (x_argon2 ex_crypto) (rg_password ?rg) = Inr ''correct horse''" using pw by simp
  have t: "hours 1 < iv_expires_at res" by (simp add: res time_units)
  from invitation_redeemable [OF c res(3) e _ pw' _ _ refl t free fresh, of 9] c
  show ?thesis by (auto simp: ex_normalized)
qed

end
