(* ===== verification/Routes.thy ===== *)
theory Routes
imports Envelope Oversight
begin

text \<open>
  The routes of members (app/bookings/router.py, app/waitlist/router.py,
  app/resources/router.py, app/auth/router.py). An endpoint takes what its parameters
  declare: the validated body or query, the scope and the guard (assert_current) of its
  authorize dependency, and the time its handler reads from the application clock. It
  returns the response or the exception that leaves it, with the database: a rate limit has
  committed on its own by then, the rest is the transaction of transaction\_dependency. A
  read (get\_session) never commits.
\<close>

section \<open>What a route is given and returns\<close>

text \<open>
  The collaborators: the environment of the limiter, cryptography, the text order of the
  database, datetime.fromisoformat, and what other transactions make of the key table
  while execute\_create runs.
\<close>

record server =
  sv_env :: env
  sv_crypto :: crypto
  sv_collate :: "string \<Rightarrow> string"
  sv_fromisoformat :: "string \<Rightarrow> datetime option"
  sv_rivals :: "nat \<Rightarrow> idem_key list \<Rightarrow> idem_key list"

record 'a reply =
  y_status :: int
  y_body :: 'a
  y_headers :: "(string \<times> string) list"

definition require_principal :: "scope \<Rightarrow> uuid result" where
  "require_principal sc = (case principal_id sc of None \<Rightarrow> Inl AuthRequiredError | Some p \<Rightarrow> Inr p)"

text \<open>await scope.assert_current(session) where there is one, then the service.\<close>

definition in_session :: "guard option \<Rightarrow> (db \<Rightarrow> ('a \<times> db) result) \<Rightarrow> db \<Rightarrow> 'a result \<times> db" where
  "in_session g f w = in_transaction (\<lambda>w1. bind_r (assert_current g w1) (\<lambda>_. f w1)) w"

definition after :: "unit result \<times> db \<Rightarrow> (db \<Rightarrow> 'a result \<times> db) \<Rightarrow> 'a result \<times> db" where
  "after r f = (case r of (Inl e, w) \<Rightarrow> (Inl e, w) | (Inr _, w) \<Rightarrow> f w)"

lemma after_simps [simp]:
  "after (Inl e, w) f = (Inl e, w)"
  "after (Inr u, w) f = f w"
  by (simp_all add: after_def)

text \<open>limit: int = Query(ge=1, le=100), offset: int = Query(ge=0, le=10000).\<close>

definition page_query :: "int \<Rightarrow> int \<Rightarrow> (nat \<times> nat) result" where
  "page_query limit offset =
     (if 1 \<le> limit \<and> limit \<le> 100 \<and> 0 \<le> offset \<and> offset \<le> 10000
      then Inr (nat limit, nat offset) else Inl RequestValidationError)"

section \<open>Bookings\<close>

record booking_create =
  bc_resource_id :: uuid
  bc_starts_at :: datetime
  bc_ends_at :: datetime

definition booking_create_dump :: "booking_create \<Rightarrow> pyval" where
  "booking_create_dump body = VDict
     [(''resource_id'', VUuid (bc_resource_id body)), (''starts_at'', VTime (bc_starts_at body)),
      (''ends_at'', VTime (bc_ends_at body))]"

definition booking_status_filter :: "string \<Rightarrow> booking_status result" where
  "booking_status_filter s =
     (if s = ''confirmed'' then Inr BConfirmed else if s = ''offered'' then Inr BOffered
      else if s = ''cancelled'' then Inr BCancelled else if s = ''expired'' then Inr BExpired
      else Inl RequestValidationError)"

definition optional :: "('a \<Rightarrow> 'b result) \<Rightarrow> 'a option \<Rightarrow> 'b option result" where
  "optional f x = (case x of None \<Rightarrow> Inr None | Some a \<Rightarrow> bind_r (f a) (\<lambda>b. Inr (Some b)))"

text \<open>
  The two refusals a creation answers and stores like a success, and the stored success.
  The savepoint has taken back what the insertion did.
\<close>

definition refusal :: "string \<Rightarrow> string \<Rightarrow> stored_response" where
  "refusal err_code message =
     \<lparr>sr_status = 409,
      sr_body = JObj [(''error'', JObj [(''code'', JStr err_code), (''message'', JStr message), (''details'', JObj [])])],
      sr_headers = []\<rparr>"

definition refused :: "uuid \<Rightarrow> exn \<Rightarrow> stored_response option" where
  "refused resource_id e =
     (case e of
        SlotConflict \<Rightarrow> Some (refusal ''SLOT_CONFLICT'' ''Slot conflict: requested time interval is not available'')
      | ResourceInactive \<Rightarrow> Some (refusal ''RESOURCE_INACTIVE'' (''Resource '' @ uuid_str resource_id @ '' is inactive''))
      | _ \<Rightarrow> None)"

definition created :: "string \<Rightarrow> booking_out \<Rightarrow> stored_response" where
  "created path b =
     \<lparr>sr_status = 201, sr_body = dump_booking b,
      sr_headers = [(''Location'', path @ uuid_str (bo_id b)), (''ETag'', etag (bo_version b))]\<rparr>"

definition answer_creation ::
  "uuid \<Rightarrow> db \<Rightarrow> ('b \<times> db) result \<Rightarrow> ('b \<Rightarrow> db \<Rightarrow> (stored_response \<times> db) result) \<Rightarrow> (stored_response \<times> db) result" where
  "answer_creation resource_id w m succeed =
     (case m of
        Inl exc \<Rightarrow> (case refused resource_id exc of None \<Rightarrow> Inl exc | Some st \<Rightarrow> Inr (st, w))
      | Inr (b, w1) \<Rightarrow> succeed b w1)"

definition create_booking_operation :: "scope \<Rightarrow> booking_create \<Rightarrow> operation" where
  "create_booking_operation sc body w =
     (let (db_now, w1) = clock_timestamp w in
      bind_r (validate_booking_window (bc_starts_at body) (bc_ends_at body) (utc_datetime db_now)) (\<lambda>(s, e).
      answer_creation (bc_resource_id body) w1
        (insert_confirmed sc (bc_resource_id body) \<lparr>lower = s, upper = e\<rparr> Reservation w1) (\<lambda>b w2.
      bind_r (append_event EBookingConfirmed b (Some db_now) w2) (\<lambda>(_, w3).
      Inr (created ''/api/v1/bookings/'' (booking_view b), w3)))))"

definition create_booking_endpoint ::
  "server \<Rightarrow> string \<Rightarrow> string \<Rightarrow> booking_create \<Rightarrow> string option \<Rightarrow> scope \<Rightarrow> guard option \<Rightarrow> time \<Rightarrow> db
   \<Rightarrow> stored_response result \<times> db" where
  "create_booking_endpoint sv meth path body key_header sc g now w =
     (case parse_idempotency_key key_header of
        Inl e \<Rightarrow> (Inl e, w)
      | Inr key \<Rightarrow>
     (case require_principal sc of
        Inl e \<Rightarrow> (Inl e, w)
      | Inr p \<Rightarrow>
          after (check_mutation_rate_limit (sv_env sv) p now w)
            (in_session g
              (execute_create (x_sha256_hex (sv_crypto sv)) sc key meth path (booking_create_dump body)
                (create_booking_operation sc body) (sv_rivals sv)))))"

definition list_bookings_endpoint ::
  "int \<Rightarrow> int \<Rightarrow> string option \<Rightarrow> scope \<Rightarrow> db \<Rightarrow> booking_out listing result" where
  "list_bookings_endpoint limit offset status sc w =
     bind_r (page_query limit offset) (\<lambda>(n, k).
     bind_r (optional booking_status_filter status) (\<lambda>st.
     bind_r (require_principal sc) (\<lambda>_.
     list_own_bookings sc n k st w)))"

definition get_booking_endpoint :: "scope \<Rightarrow> db \<Rightarrow> booking_out reply result" where
  "get_booking_endpoint sc w =
     bind_r (require_principal sc) (\<lambda>_.
     bind_r (get_own_booking sc w) (\<lambda>b.
     Inr \<lparr>y_status = 200, y_body = b, y_headers = [(''ETag'', etag (bo_version b))]\<rparr>))"

text \<open>reason: str = Field(max\_length=500) is checked before the handler runs.\<close>

definition reason_field :: "string \<Rightarrow> unit result" where
  "reason_field reason = raise_if (length reason > 500) RequestValidationError"

definition cancel_booking_endpoint ::
  "string \<Rightarrow> scope \<Rightarrow> guard option \<Rightarrow> db \<Rightarrow> json reply result \<times> db" where
  "cancel_booking_endpoint reason sc g w =
     after (reason_field reason, w) (\<lambda>w0.
     case (require_principal sc, object_id sc, expected_version sc) of
       (Inl e, _, _) \<Rightarrow> (Inl e, w0)
     | (Inr _, Some bid, Some v) \<Rightarrow>
         in_session g (\<lambda>w1. bind_r (cancel_booking sc bid v reason w1) (\<lambda>(b, w2).
           Inr (\<lparr>y_status = 200, y_body = dump_booking b, y_headers = [(''ETag'', etag (bo_version b))]\<rparr>, w2))) w0
     | _ \<Rightarrow> (Inl RuntimeError, w0))"

section \<open>The waitlist\<close>

definition join_waitlist_endpoint ::
  "server \<Rightarrow> booking_create \<Rightarrow> scope \<Rightarrow> guard option \<Rightarrow> time \<Rightarrow> db \<Rightarrow> json reply result \<times> db" where
  "join_waitlist_endpoint sv body sc g now w =
     (case require_principal sc of
        Inl e \<Rightarrow> (Inl e, w)
      | Inr p \<Rightarrow>
          after (check_mutation_rate_limit (sv_env sv) p now w)
            (in_session g (\<lambda>w1.
              let (db_now, w2) = clock_timestamp w1 in
              bind_r (join_waitlist sc (bc_resource_id body) (bc_starts_at body) (bc_ends_at body) db_now w2) (\<lambda>(e, w3).
              Inr (\<lparr>y_status = 201, y_body = dump_wait e,
                    y_headers = [(''Location'', ''/api/v1/waitlist/'' @ uuid_str (wo_id e)),
                                 (''ETag'', etag (wo_version e))]\<rparr>, w3)))))"

definition waitlist_status_filter :: "string \<Rightarrow> wait_status result" where
  "waitlist_status_filter s =
     (if s = ''waiting'' then Inr WWaiting else if s = ''offered'' then Inr WOffered
      else if s = ''accepted'' then Inr WAccepted else if s = ''cancelled'' then Inr WCancelled
      else if s = ''expired'' then Inr WExpired else Inl RequestValidationError)"

definition list_waitlist_endpoint ::
  "int \<Rightarrow> int \<Rightarrow> string option \<Rightarrow> scope \<Rightarrow> db \<Rightarrow> wait_out listing result" where
  "list_waitlist_endpoint limit offset status sc w =
     bind_r (page_query limit offset) (\<lambda>(n, k).
     bind_r (optional waitlist_status_filter status) (\<lambda>st.
     bind_r (require_principal sc) (\<lambda>_.
     list_own_waitlist sc n k st w)))"

definition delete_waitlist_endpoint :: "scope \<Rightarrow> guard option \<Rightarrow> db \<Rightarrow> json reply result \<times> db" where
  "delete_waitlist_endpoint sc g w =
     (case (require_principal sc, object_id sc, expected_version sc) of
        (Inl e, _, _) \<Rightarrow> (Inl e, w)
      | (Inr _, Some eid, Some v) \<Rightarrow>
          in_session g (\<lambda>w1. bind_r (decline_entry sc eid v w1) (\<lambda>(e, w2).
            Inr (\<lparr>y_status = 200, y_body = dump_wait e, y_headers = [(''ETag'', etag (wo_version e))]\<rparr>, w2))) w
      | _ \<Rightarrow> (Inl RuntimeError, w))"

definition accept_waitlist_endpoint :: "scope \<Rightarrow> guard option \<Rightarrow> db \<Rightarrow> stored_response result \<times> db" where
  "accept_waitlist_endpoint sc g w =
     (case (require_principal sc, object_id sc, expected_version sc) of
        (Inl e, _, _) \<Rightarrow> (Inl e, w)
      | (Inr _, Some eid, Some v) \<Rightarrow> in_session g (accept_offer sc eid v) w
      | _ \<Rightarrow> (Inl RuntimeError, w))"

section \<open>Resources\<close>

definition list_resources_endpoint :: "server \<Rightarrow> int \<Rightarrow> int \<Rightarrow> db \<Rightarrow> resource listing result" where
  "list_resources_endpoint sv limit offset w =
     bind_r (page_query limit offset) (\<lambda>(n, k). Inr (list_resources (sv_collate sv) n k w))"

definition get_resource_endpoint :: "uuid \<Rightarrow> db \<Rightarrow> resource reply result" where
  "get_resource_endpoint i w =
     bind_r (get_active_resource i w) (\<lambda>r.
     Inr \<lparr>y_status = 200, y_body = r, y_headers = [(''ETag'', etag (r_version r))]\<rparr>)"

text \<open>
  The endpoint validates the window itself and hands the two instants on, which the service
  validates again.
\<close>

definition get_resource_availability_endpoint ::
  "server \<Rightarrow> uuid \<Rightarrow> string \<Rightarrow> string \<Rightarrow> db \<Rightarrow> availability_out result" where
  "get_resource_availability_endpoint sv i starts_at ends_at w =
     bind_r (validate_window (sv_fromisoformat sv) (TStr starts_at) (TStr ends_at)) (\<lambda>(s_utc, e_utc).
     availability (sv_fromisoformat sv) i (TDatetime (utc_datetime s_utc)) (TDatetime (utc_datetime e_utc)) w)"

section \<open>Sessions\<close>

text \<open>
  Both cookie calls share HttpOnly, SameSite=lax and the path /api/v1/auth; the secure
  attribute follows the environment, and a set cookie lives 30 days.
\<close>

datatype cookie = SetCookie string string bool int | DeleteCookie string bool

record client =
  cl_peer :: "string option"
  cl_forwarded :: "string option"
  cl_origin :: "string option"
  cl_cookies :: "(string \<times> string) list"

definition is_secure :: "settings \<Rightarrow> bool" where
  "is_secure g = (g_app_env g \<notin> {EnvLocal, EnvTest})"

definition cookie_name :: "settings \<Rightarrow> string" where
  "cookie_name g = (if is_secure g then ''__Secure-commonsbook_rt'' else ''commonsbook_rt'')"

definition refresh_cookie :: "settings \<Rightarrow> string \<Rightarrow> cookie" where
  "refresh_cookie g raw = SetCookie (cookie_name g) raw (is_secure g) (30 * 24 * 3600)"

definition enforce_exact_origin :: "settings \<Rightarrow> client \<Rightarrow> unit result" where
  "enforce_exact_origin g cl = raise_if (cl_origin cl \<noteq> Some (g_app_origin g)) OriginRejectedError"

text \<open>request.cookies.get(cookie\_name), where it is not blank, stripped.\<close>

definition raw_cookie :: "settings \<Rightarrow> client \<Rightarrow> string option" where
  "raw_cookie g cl =
     (case map_of (cl_cookies cl) (cookie_name g) of
        None \<Rightarrow> None
      | Some raw \<Rightarrow> if py_strip raw = [] then None else Some (py_strip raw))"

record session_reply =
  sn_body :: "token_result option"
  sn_cookie :: cookie
  sn_cache_control :: "string option"

text \<open>The request id is the text the middleware put on the request.\<close>

definition register_endpoint ::
  "server \<Rightarrow> registration \<Rightarrow> client \<Rightarrow> string option \<Rightarrow> time \<Rightarrow> db \<Rightarrow> user_out reply result \<times> db" where
  "register_endpoint sv body cl req_id now w =
     after (check_ip_rate_limit (sv_env sv) (cl_peer cl) (cl_forwarded cl) ''register:ip'' 5 3600 now w) (\<lambda>w1.
     case req_id of
       Some s \<Rightarrow>
         (case parse_uuid s of
            None \<Rightarrow> (Inl ValueError, w1)
          | Some r \<Rightarrow>
              in_transaction (\<lambda>w2. bind_r (register (sv_crypto sv) body now (Some r) w2) (\<lambda>(u, w3).
                Inr (\<lparr>y_status = 201, y_body = u, y_headers = []\<rparr>, w3))) w1)
     | None \<Rightarrow>
         (let (r, w2) = uuid4 w1 in
          in_transaction (\<lambda>w3. bind_r (register (sv_crypto sv) body now (Some r) w3) (\<lambda>(u, w4).
            Inr (\<lparr>y_status = 201, y_body = u, y_headers = []\<rparr>, w4))) w2))"

definition login_endpoint ::
  "server \<Rightarrow> string \<Rightarrow> string \<Rightarrow> client \<Rightarrow> time \<Rightarrow> db \<Rightarrow> session_reply result \<times> db" where
  "login_endpoint sv email password cl now w =
     (let g = e_settings (sv_env sv) in
      after (check_login_rate_limit (sv_env sv) (cl_peer cl) (cl_forwarded cl) email now w)
        (in_transaction (\<lambda>w1.
          bind_r (login (sv_crypto sv) g email password now w1) (\<lambda>(res, w2).
          Inr (\<lparr>sn_body = Some res, sn_cookie = refresh_cookie g (tr_raw_refresh res),
                sn_cache_control = Some ''no-store''\<rparr>, w2)))))"

definition me_endpoint :: "scope \<Rightarrow> db \<Rightarrow> user_out result" where
  "me_endpoint sc w =
     bind_r (scalar_one_or_none (filter (\<lambda>u. Some (u_id u) = principal_id sc) (users w))) (\<lambda>row.
     case row of
       None \<Rightarrow> Inl InvalidTokenError
     | Some u \<Rightarrow> if u_enabled u then Inr (user_view u) else Inl InvalidTokenError)"

definition refresh_endpoint :: "server \<Rightarrow> client \<Rightarrow> time \<Rightarrow> db \<Rightarrow> session_reply result \<times> db" where
  "refresh_endpoint sv cl now w =
     (let g = e_settings (sv_env sv) in
      after (enforce_exact_origin g cl, w) (\<lambda>w0.
      after (check_ip_rate_limit (sv_env sv) (cl_peer cl) (cl_forwarded cl) ''refresh:ip'' 30 60 now w0) (\<lambda>w1.
      case raw_cookie g cl of
        None \<Rightarrow> (Inl InvalidRefreshError, w1)
      | Some raw \<Rightarrow>
          (case rotate_refresh (sv_crypto sv) g raw now w1 of
             (Inl e, w2) \<Rightarrow> (Inl e, w2)
           | (Inr res, w2) \<Rightarrow>
               (Inr \<lparr>sn_body = Some res, sn_cookie = refresh_cookie g (tr_raw_refresh res),
                     sn_cache_control = Some ''no-store''\<rparr>, w2)))))"

definition logout_endpoint :: "server \<Rightarrow> client \<Rightarrow> time \<Rightarrow> db \<Rightarrow> session_reply result \<times> db" where
  "logout_endpoint sv cl now w =
     (let g = e_settings (sv_env sv) in
      after (enforce_exact_origin g cl, w) (\<lambda>w0.
      after (check_ip_rate_limit (sv_env sv) (cl_peer cl) (cl_forwarded cl) ''logout:ip'' 30 60 now w0)
        (in_transaction (\<lambda>w1.
          bind_r (case raw_cookie g cl of None \<Rightarrow> Inr w1 | Some raw \<Rightarrow> revoke_family (sv_crypto sv) raw now w1) (\<lambda>w2.
          Inr (\<lparr>sn_body = None, sn_cookie = DeleteCookie (cookie_name g) (is_secure g),
                sn_cache_control = None\<rparr>, w2))))))"

section \<open>A creation runs once\<close>

lemma refusal_simps [simp]: "sr_status (refusal c m) = 409" "sr_headers (refusal c m) = []"
  by (simp_all add: refusal_def)

lemma refused_Some:
  "refused i e = Some st \<longleftrightarrow>
   e = SlotConflict \<and> st = refusal ''SLOT_CONFLICT'' ''Slot conflict: requested time interval is not available''
   \<or> e = ResourceInactive \<and> st = refusal ''RESOURCE_INACTIVE'' (''Resource '' @ uuid_str i @ '' is inactive'')"
  by (cases e) (auto simp: refused_def)

lemma created_simps [simp]: "sr_status (created p b) = 201" "sr_body (created p b) = dump_booking b"
  by (simp_all add: created_def)

lemma answer_creation_Inr:
  "answer_creation i w m succeed = Inr (st, w') \<longleftrightarrow>
   (\<exists>exc. m = Inl exc \<and> refused i exc = Some st \<and> w' = w) \<or>
   (\<exists>b w1. m = Inr (b, w1) \<and> succeed b w1 = Inr (st, w'))"
  by (auto simp: answer_creation_def split: sum.splits option.splits)

lemma refused_status: "refused i e = Some st \<Longrightarrow> sr_status st = 409"
  by (auto simp: refused_Some)

lemma insert_confirmed_keys: "insert_confirmed sc i r k w = Inr (b, w') \<Longrightarrow> idem_keys w' = idem_keys w"
  by (auto simp: insert_confirmed_def bind_r_Inr Let_def uuid4_def slot_conflict_Inr insert_booking_Inr
      split: option.splits if_splits)

lemma append_event_keys: "append_event ev b at w = Inr (r, w') \<Longrightarrow> idem_keys w' = idem_keys w"
  by (auto dest: append_event_Inr)

lemma create_booking_Inr:
  assumes "create_booking_operation sc body w = Inr (st, w')"
  obtains (refused) exc where "refused (bc_resource_id body) exc = Some st" "w' = w\<lparr>ticks := Suc (ticks w)\<rparr>"
  | (created) b s e w2 i where
      "validate_booking_window (bc_starts_at body) (bc_ends_at body) (utc_datetime (clock w (ticks w))) = Inr (s, e)"
      "insert_confirmed sc (bc_resource_id body) \<lparr>lower = s, upper = e\<rparr> Reservation (w\<lparr>ticks := Suc (ticks w)\<rparr>) = Inr (b, w2)"
      "append_event EBookingConfirmed b (Some (clock w (ticks w))) w2 = Inr (i, w')"
      "st = created ''/api/v1/bookings/'' (booking_view b)"
  using assms
  by (auto simp: create_booking_operation_def clock_timestamp_def bind_r_Inr answer_creation_Inr)

interpretation booking_creation: keyed_operation "create_booking_operation sc body" for sc body
proof
  fix w st w'
  assume run: "create_booking_operation sc body w = Inr (st, w')"
  show "idem_keys w' = idem_keys w"
    using run by (cases rule: create_booking_Inr) (auto dest!: insert_confirmed_keys append_event_keys)
  show "200 \<le> sr_status st \<and> sr_status st \<le> 499"
    using run by (cases rule: create_booking_Inr) (auto dest: refused_status)
qed

text \<open>Both creations replay in the same way; what else the second request would do does not matter.\<close>

lemma kept_header:
  assumes "h \<in> {''Location'', ''ETag''}"
  shows "map_of (with_replayed v (persisted_headers hs)) h = map_of (with_replayed v' hs) h"
proof -
  have low: "py_lower ''Location'' = ''location''" "py_lower ''ETag'' = ''etag''" by code_simp+
  have "map_of (persisted_headers hs) h = map_of hs h"
    using assms low by (induction hs) (auto simp: persisted_headers_def)
  moreover have "h \<noteq> ''Idempotency-Replayed''" using assms by auto
  ultimately show ?thesis by (simp add: with_replayed_def update_conv)
qed

context keyed_operation
begin

lemma replayed_in_session:
  assumes first: "in_session g (execute_create sha sc k meth path body operation rivals) w = (Inr out, w1)"
    and sc: "principal_id sc = Some u" "u \<in> u_id ` set (users w)" "keys_ok w"
    and hash: "compute_request_hash sha meth path body = Inr h"
    and quiet: "\<And>n t. filter (idem_row u k) (rivals n t) = filter (idem_row u k) t"
    and new: "filter (idem_row u k) (idem_keys w) = []"
    and later: "filter (idem_row u k) (idem_keys w2) = filter (idem_row u k) (idem_keys w1)"
      "u \<in> u_id ` set (users w2)" "keys_ok w2"
      "\<And>r. r \<in> set (filter (idem_row u k) (idem_keys w2)) \<Longrightarrow> clock w2 (Suc (Suc (ticks w2))) < k_expires_at r"
    and guard: "assert_current g' (begin_tx w2) = Inr ()"
  shows "\<exists>hs w3. in_session g' (execute_create sha sc k meth path body other rivals) w2
      = (Inr \<lparr>sr_status = sr_status out, sr_body = sr_body out, sr_headers = hs\<rparr>, w3) \<and>
    map_of hs ''Idempotency-Replayed'' = Some ''true'' \<and>
    (\<forall>h \<in> {''Location'', ''ETag''}. map_of hs h = map_of (sr_headers out) h) \<and>
    bookings w3 = bookings w2 \<and> outbox w3 = outbox w2 \<and> audit_log w3 = audit_log w2"
proof -
  let ?v = "begin_tx w" and ?v2 = "begin_tx w2"
  have run: "execute_create sha sc k meth path body operation rivals ?v = Inr (out, w1)"
    using first by (auto simp: in_session_def in_transaction_def bind_r_Inr split: sum.splits prod.splits)
  have here: "u \<in> u_id ` set (users ?v)" "keys_ok ?v" "filter (idem_row u k) (idem_keys ?v) = []"
    using sc new by (simp_all add: begin_tx_def keys_ok_def)
  have there: "filter (idem_row u k) (idem_keys ?v2) = filter (idem_row u k) (idem_keys w1)"
      "u \<in> u_id ` set (users ?v2)" "keys_ok ?v2"
      "\<And>r. r \<in> set (filter (idem_row u k) (idem_keys ?v2)) \<Longrightarrow> clock ?v2 (Suc (ticks ?v2)) < k_expires_at r"
    using later by (simp_all add: begin_tx_def keys_ok_def)
  obtain st where st: "out = st\<lparr>sr_headers := with_replayed ''false'' (sr_headers st)\<rparr>"
      "execute_create sha sc k meth path body other rivals ?v2
       = Inr (\<lparr>sr_status = sr_status out, sr_body = sr_body out,
               sr_headers = with_replayed ''true'' (persisted_headers (sr_headers st))\<rparr>,
              ?v2\<lparr>ticks := Suc (Suc (ticks ?v2)), idem_keys := rivals 9 (idem_keys ?v2)\<rparr>)"
    using replays_first [OF run sc(1) here(1,2) hash quiet here(3) there] by blast
  let ?hs = "with_replayed ''true'' (persisted_headers (sr_headers st))"
  let ?w3 = "?v2\<lparr>ticks := Suc (Suc (ticks ?v2)), idem_keys := rivals 9 (idem_keys ?v2)\<rparr>"
  have "sr_headers out = with_replayed ''false'' (sr_headers st)" using st(1) by simp
  then have "\<forall>h \<in> {''Location'', ''ETag''}. map_of ?hs h = map_of (sr_headers out) h"
    using kept_header by metis
  moreover have "map_of ?hs ''Idempotency-Replayed'' = Some ''true''"
    by (simp add: with_replayed_def update_conv)
  moreover have "in_session g' (execute_create sha sc k meth path body other rivals) w2
      = (Inr \<lparr>sr_status = sr_status out, sr_body = sr_body out, sr_headers = ?hs\<rparr>, ?w3)"
    using st(2) guard by (simp add: in_session_def in_transaction_def)
  ultimately show ?thesis by (intro exI [of _ ?hs] exI [of _ ?w3]) (simp add: begin_tx_def)
qed

end

section \<open>What a creation answers\<close>

lemma booking_window_proper:
  assumes "validate_booking_window a b n = Inr (s, e)"
  shows "s < e" "\<exists>so. utcoffset a = Some so \<and> astimezone_utc (wall a) so = Inr s"
    "\<exists>eo. utcoffset b = Some eo \<and> astimezone_utc (wall b) eo = Inr e"
  using assms by (auto simp: validate_booking_window_def bind_r_Inr split: option.splits if_splits)

text \<open>A request whose window is valid has a canonical text.\<close>

lemma booking_create_hashes:
  assumes "validate_booking_window (bc_starts_at body) (bc_ends_at body) n = Inr (s, e)"
  shows "\<exists>h. compute_request_hash sha meth path (booking_create_dump body) = Inr h"
proof -
  obtain so eo where "utcoffset (bc_starts_at body) = Some so" "astimezone_utc (wall (bc_starts_at body)) so = Inr s"
      "utcoffset (bc_ends_at body) = Some eo" "astimezone_utc (wall (bc_ends_at body)) eo = Inr e"
    using booking_window_proper(2,3) [OF assms] by blast
  then have "as_utc_now (bc_starts_at body) = Inr s" "as_utc_now (bc_ends_at body) = Inr e"
    by (auto simp: as_utc_now_def)
  then show ?thesis by (simp add: compute_request_hash_def canonical_request_def booking_create_dump_def)
qed

text \<open>Whether the window is free, and what a confirmed creation adds.\<close>

definition slot_free :: "resource \<Rightarrow> trange \<Rightarrow> db \<Rightarrow> bool" where
  "slot_free r win w =
     (r_active r \<and> \<not> (\<exists>c \<in> set (bookings w). b_resource_id c = r_id r \<and> active_booking c \<and> overlaps (b_range c) win))"

definition booked :: "uuid \<Rightarrow> uuid \<Rightarrow> trange \<Rightarrow> stored_response \<Rightarrow> db \<Rightarrow> db \<Rightarrow> bool" where
  "booked u rid win st w w' =
     (\<exists>b ev. bookings w' = bookings w @ [b] \<and> outbox w' = outbox w @ [ev] \<and>
        b_kind b = Reservation \<and> b_user_id b = Some u \<and> b_resource_id b = rid \<and> b_range b = win \<and>
        b_status b = BConfirmed \<and> o_event_type ev = EBookingConfirmed \<and> o_aggregate_id ev = b_id b \<and>
        o_aggregate_version ev = b_version b \<and> sr_status st = 201 \<and> sr_body st = dump_booking (booking_view b))"

lemma create_booking_runs:
  assumes ok: "db_ok w" and r: "r \<in> set (resources w)" "r_id r = bc_resource_id body"
    and p: "principal_id sc = Some u" "u \<in> u_id ` set (users w)"
    and win: "validate_booking_window (bc_starts_at body) (bc_ends_at body) (utc_datetime (clock w (ticks w))) = Inr (s, e)"
    and fresh: "fresh_ids 2 w"
  shows "\<exists>st w'. create_booking_operation sc body w = Inr (st, w') \<and> db_ok w' \<and>
    (if slot_free r \<lparr>lower = s, upper = e\<rparr> w then booked u (r_id r) \<lparr>lower = s, upper = e\<rparr> st w w'
     else sr_status st = 409 \<and> bookings w' = bookings w \<and> outbox w' = outbox w)"
proof -
  let ?w1 = "w\<lparr>ticks := Suc (ticks w)\<rparr>" and ?win = "\<lparr>lower = s, upper = e\<rparr>"
  have ok1: "db_ok ?w1" and f1: "fresh_ids 2 ?w1" using ok fresh by (simp_all add: fresh_ids_def)
  have r1: "r \<in> set (resources ?w1)" and p1: "u \<in> u_id ` set (users ?w1)" using r p by simp_all
  have ne: "\<not> isempty ?win" using booking_window_proper(1) [OF win] by (simp add: isempty_def)
  have "fresh_ids 1 ?w1" by (rule fresh_ids_mono [OF f1]) simp
  note ins = insert_confirmed_runs [OF ok1 r1 p(1) p1 ne this]
  show ?thesis
  proof (cases "slot_free r ?win w")
    case False
    then have "\<exists>exc. insert_confirmed sc (r_id r) ?win Reservation ?w1 = Inl exc \<and> exc \<in> {SlotConflict, ResourceInactive}"
      using ins by (auto simp: slot_free_def)
    then obtain exc where exc: "insert_confirmed sc (r_id r) ?win Reservation ?w1 = Inl exc"
        "exc \<in> {SlotConflict, ResourceInactive}" by blast
    then obtain st where "refused (r_id r) exc = Some st" "sr_status st = 409" by (auto simp: refused_def)
    then have "create_booking_operation sc body w = Inr (st, ?w1)"
      using exc(1) win r(2) by (simp add: create_booking_operation_def clock_timestamp_def answer_creation_def)
    then show ?thesis using False ok1 \<open>sr_status st = 409\<close> by simp
  next
    case True
    let ?b = "new_booking (uuid_src w (drawn w)) sc (r_id r) ?win Reservation ?w1"
    let ?w2 = "?w1\<lparr>drawn := Suc (drawn w), bookings := bookings w @ [?b]\<rparr>"
    have run: "insert_confirmed sc (r_id r) ?win Reservation ?w1 = Inr (?b, ?w2)"
      using ins True by (auto simp: slot_free_def Let_def)
    have ok2: "db_ok ?w2" and b: "?b \<in> set (bookings ?w2)" using insert_confirmed_keeps [OF ok1 run] by auto
    have "b_id ?b \<notin> b_id ` set (bookings w)" using fresh_ids_next [OF fresh] by (auto simp: ids_def)
    moreover have "\<forall>x \<in> set (outbox w). o_aggregate_id x \<in> b_id ` set (bookings w)"
      using db_okD(4) [OF ok] by (auto simp: events_ok_def)
    ultimately have "\<forall>x \<in> set (outbox w). o_aggregate_id x \<noteq> b_id ?b" by metis
    then have "\<forall>x \<in> set (outbox ?w2). o_aggregate_id x = b_id ?b \<longrightarrow> o_aggregate_version x < b_version ?b"
      by simp
    moreover have "fresh_ids (Suc 0) ?w2"
      using f1 by (intro fresh_ids_draw [of "Suc 0" ?w1]) (auto simp: ids_def numeral_2_eq_2)
    ultimately obtain ev where ev: "append_event EBookingConfirmed ?b (Some (clock w (ticks w))) ?w2
        = Inr (uuid_src ?w2 (drawn ?w2), ?w2\<lparr>drawn := Suc (drawn ?w2), outbox := outbox ?w2 @ [ev]\<rparr>)"
        "o_event_type ev = EBookingConfirmed" "o_aggregate_id ev = b_id ?b" "o_aggregate_version ev = b_version ?b"
        "db_ok (?w2\<lparr>drawn := Suc (drawn ?w2), outbox := outbox ?w2 @ [ev]\<rparr>)"
      using append_event_total [OF ok2 b] by blast
    let ?st = "created ''/api/v1/bookings/'' (booking_view ?b)"
    let ?w3 = "?w2\<lparr>drawn := Suc (drawn ?w2), outbox := outbox ?w2 @ [ev]\<rparr>"
    have "create_booking_operation sc body w = Inr (?st, ?w3)"
      using run ev(1) win r(2) by (simp add: create_booking_operation_def clock_timestamp_def answer_creation_def)
    moreover have "booked u (r_id r) ?win ?st w ?w3"
      unfolding booked_def by (intro exI [of _ ?b] exI [of _ ev]) (simp add: ev p)
    ultimately show ?thesis using True ev(5) by auto
  qed
qed

lemma in_session_Inr:
  "assert_current g (begin_tx w) = Inr () \<Longrightarrow> f (begin_tx w) = Inr (x, w') \<Longrightarrow> in_session g f w = (Inr x, w')"
  by (simp add: in_session_def in_transaction_def)

text \<open>
  A first request with its key: the operation runs on the database of the transaction,
  with the row of the key added, and its response is stored under the key.
\<close>

lemma execute_create_first:
  assumes "principal_id sc = Some u" "u \<in> u_id ` set (users w)" "filter (idem_row u k) (idem_keys w) = []"
    and "compute_request_hash sha meth path body = Inr h"
    and run: "operation (w\<lparr>ticks := Suc (ticks w), idem_keys := idem_keys w @
        [\<lparr>k_user_id = u, k_key = k, k_request_hash = h, k_response_status = None, k_response_body = None,
          k_response_headers = None, k_created_at = clock w (ticks w), k_expires_at = clock w (ticks w) + hours 24\<rparr>]\<rparr>)
        = Inr (st, w')" "200 \<le> sr_status st" "sr_status st \<le> 499"
  shows "\<exists>t. execute_create sha sc k meth path body operation rivals w
    = Inr (st\<lparr>sr_headers := with_replayed ''false'' (sr_headers st)\<rparr>, w'\<lparr>idem_keys := t\<rparr>)"
proof -
  have "acquire_or_replay 5 u k h operation rivals w = run_fresh u k h operation w"
    using acquire_or_replay_fresh [OF assms(3,2), of 4] by simp
  then show ?thesis using assms(1,4) run
    by (auto simp: execute_create_def run_fresh_def store_response_def)
qed

lemma booked_with_headers: "booked u i win (st\<lparr>sr_headers := hs\<rparr>) w w' = booked u i win st w w'"
  by (simp add: booked_def)

text \<open>
  An admitted request for an existing resource and a valid window: 201 when the resource is
  active and the window is free, and 409 otherwise.
\<close>

lemma create_booking_admitted:
  assumes ok: "db_ok w" "fresh_ids 2 w"
    and admitted: "parse_idempotency_key header = Inr k" "principal_id sc = Some u" "u \<in> u_id ` set (users w)"
      "check_mutation_rate_limit (sv_env sv) u now w = (Inr (), w1)" "assert_current g (begin_tx w1) = Inr ()"
    and unused: "filter (idem_row u k) (idem_keys w) = []"
    and r: "r \<in> set (resources w)" "r_id r = bc_resource_id body"
    and win: "validate_booking_window (bc_starts_at body) (bc_ends_at body) (utc_datetime (clock w (ticks w1 + 2))) = Inr (s, e)"
  shows "\<exists>st w2. create_booking_endpoint sv meth path body header sc g now w = (Inr st, w2) \<and> db_ok w2 \<and>
    (if slot_free r \<lparr>lower = s, upper = e\<rparr> w then booked u (r_id r) \<lparr>lower = s, upper = e\<rparr> st w w2
     else sr_status st = 409 \<and> bookings w2 = bookings w \<and> outbox w2 = outbox w)"
proof -
  let ?sha = "x_sha256_hex (sv_crypto sv)" and ?win = "\<lparr>lower = s, upper = e\<rparr>"
  obtain h where h: "compute_request_hash ?sha meth path (booking_create_dump body) = Inr h"
    using booking_create_hashes [OF win] by blast
  obtain rl n t where w1: "w1 = w\<lparr>rate_limits := rl, ticks := n, tx_now := t\<rparr>"
    using check_domain(2) [OF admitted(4)] by (auto simp: same_domain_def)
  let ?v = "begin_tx w1"
  define v where "v = ?v\<lparr>ticks := Suc (ticks ?v), idem_keys := idem_keys ?v @
      [\<lparr>k_user_id = u, k_key = k, k_request_hash = h, k_response_status = None, k_response_body = None,
        k_response_headers = None, k_created_at = clock ?v (ticks ?v), k_expires_at = clock ?v (ticks ?v) + hours 24\<rparr>]\<rparr>"
  have v: "users v = users w" "resources v = resources w" "bookings v = bookings w" "outbox v = outbox w"
      "waitlist v = waitlist w" "audit_log v = audit_log w" "uuid_src v = uuid_src w" "drawn v = drawn w"
      "clock v (ticks v) = clock w (ticks w1 + 2)"
    by (simp_all add: v_def w1 begin_tx_def)
  have "db_ok v" using ok(1) db_ok_same [of w v] v by (simp add: same_tables_def)
  moreover have "fresh_ids 2 v" using ok(2) v by (simp add: fresh_ids_def ids_def)
  moreover have "r \<in> set (resources v)" "u \<in> u_id ` set (users v)" using r(1) admitted(3) v by simp_all
  ultimately obtain st v' where run: "create_booking_operation sc body v = Inr (st, v')" "db_ok v'"
      "if slot_free r ?win v then booked u (r_id r) ?win st v v'
       else sr_status st = 409 \<and> bookings v' = bookings v \<and> outbox v' = outbox v"
    using create_booking_runs [of v r body sc u s e] r(2) admitted(2) win v(9) by metis
  have there: "u \<in> u_id ` set (users ?v)" "filter (idem_row u k) (idem_keys ?v) = []"
    using admitted(3) unused by (simp_all add: w1 begin_tx_def)
  have st: "200 \<le> sr_status st" "sr_status st \<le> 499" using booking_creation.status [OF run(1)] by simp_all
  obtain t' where answered: "execute_create ?sha sc k meth path (booking_create_dump body) (create_booking_operation sc body)
      (sv_rivals sv) ?v = Inr (st\<lparr>sr_headers := with_replayed ''false'' (sr_headers st)\<rparr>, v'\<lparr>idem_keys := t'\<rparr>)"
    using execute_create_first [where rivals = "sv_rivals sv" and w = "begin_tx w1" and
      operation = "create_booking_operation sc body" and w' = v', OF admitted(2) there h run(1) [unfolded v_def] st]
    by (rule exE)
  have "create_booking_endpoint sv meth path body header sc g now w
      = (Inr (st\<lparr>sr_headers := with_replayed ''false'' (sr_headers st)\<rparr>), v'\<lparr>idem_keys := t'\<rparr>)"
    using admitted answered
    by (simp add: create_booking_endpoint_def require_principal_def in_session_Inr)
  moreover have "db_ok (v'\<lparr>idem_keys := t'\<rparr>)" 
    using run(2) db_ok_same [of v' "v'\<lparr>idem_keys := t'\<rparr>"] by (simp add: same_tables_def)
  moreover have "slot_free r ?win v = slot_free r ?win w" "booked u (r_id r) ?win st v v' = booked u (r_id r) ?win st w v'"
    by (simp_all add: slot_free_def booked_def v)
  ultimately show ?thesis using run(3) v by (auto simp: booked_def)
qed

text \<open>A request that ends in an exception: it has stored no booking, no event, no entry and no key.\<close>

definition turned_away :: "exn \<Rightarrow> db \<Rightarrow> 'a result \<times> db \<Rightarrow> bool" where
  "turned_away exc w out = (fst out = Inl exc \<and> bookings (snd out) = bookings w \<and> outbox (snd out) = outbox w \<and>
     waitlist (snd out) = waitlist w \<and> idem_keys (snd out) = idem_keys w)"

lemma execute_create_aborts:
  assumes "principal_id sc = Some u" "u \<in> u_id ` set (users w)" "filter (idem_row u k) (idem_keys w) = []"
    and "compute_request_hash sha meth path body = Inr h"
    and "\<And>row. operation (w\<lparr>ticks := Suc (ticks w), idem_keys := idem_keys w @ [row]\<rparr>) = Inl exc"
  shows "execute_create sha sc k meth path body operation rivals w = Inl exc"
proof -
  have "acquire_or_replay 5 u k h operation rivals w = run_fresh u k h operation w"
    using acquire_or_replay_fresh [OF assms(3,2), of 4] by simp
  then show ?thesis using assms(1,4,5) by (simp add: execute_create_def run_fresh_def Let_def)
qed


text \<open>
  C9: a request with a key runs once: after any first request that was answered, created
  or refused alike, the same request sent again while the key lives is answered with the
  status, body, Location and ETag of the first, marked as replayed, and adds no booking and
  no event, whatever others have done in between.
\<close>

theorem create_booking_exactly_once:
  assumes first: "create_booking_endpoint sv meth path body header sc g now w = (Inr out, w1)"
    and caller: "parse_idempotency_key header = Inr k" "principal_id sc = Some u" "u \<in> u_id ` set (users w)" "keys_ok w"
    and quiet: "\<And>n t. filter (idem_row u k) (sv_rivals sv n t) = filter (idem_row u k) t"
    and unused: "filter (idem_row u k) (idem_keys w) = []"
    and kept: "filter (idem_row u k) (idem_keys w2) = filter (idem_row u k) (idem_keys w1)"
      "u \<in> u_id ` set (users w2)" "keys_ok w2"
    and again: "check_mutation_rate_limit (sv_env sv) u later w2 = (Inr (), w3)" "assert_current g' (begin_tx w3) = Inr ()"
    and live: "\<And>r. r \<in> set (filter (idem_row u k) (idem_keys w2)) \<Longrightarrow> clock w2 (ticks w3 + 2) < k_expires_at r"
  shows "\<exists>hs w4. create_booking_endpoint sv meth path body header sc g' later w2
      = (Inr \<lparr>sr_status = sr_status out, sr_body = sr_body out, sr_headers = hs\<rparr>, w4) \<and>
    map_of hs ''Idempotency-Replayed'' = Some ''true'' \<and>
    (\<forall>h \<in> {''Location'', ''ETag''}. map_of hs h = map_of (sr_headers out) h) \<and>
    bookings w4 = bookings w2 \<and> outbox w4 = outbox w2"
proof -
  let ?sha = "x_sha256_hex (sv_crypto sv)" and ?body = "booking_create_dump body"
  let ?op = "create_booking_operation sc body"
  obtain wl where limit: "check_mutation_rate_limit (sv_env sv) u now w = (Inr (), wl)"
      and run: "in_session g (execute_create ?sha sc k meth path ?body ?op (sv_rivals sv)) wl = (Inr out, w1)"
    using first caller(1,2) by (auto simp: create_booking_endpoint_def require_principal_def after_def split: prod.splits sum.splits)
  obtain rl n t where wl: "wl = w\<lparr>rate_limits := rl, ticks := n, tx_now := t\<rparr>"
    using check_domain(2) [OF limit] by (auto simp: same_domain_def)
  obtain rl' n' t' where w3: "w3 = w2\<lparr>rate_limits := rl', ticks := n', tx_now := t'\<rparr>"
    using check_domain(2) [OF again(1)] by (auto simp: same_domain_def)
  obtain h where h: "compute_request_hash ?sha meth path ?body = Inr h"
    using run caller(2) by (auto simp: in_session_def in_transaction_def bind_r_Inr execute_create_def split: sum.splits prod.splits)
  have "\<exists>hs w4. in_session g' (execute_create ?sha sc k meth path ?body ?op (sv_rivals sv)) w3
      = (Inr \<lparr>sr_status = sr_status out, sr_body = sr_body out, sr_headers = hs\<rparr>, w4) \<and>
    map_of hs ''Idempotency-Replayed'' = Some ''true'' \<and>
    (\<forall>h \<in> {''Location'', ''ETag''}. map_of hs h = map_of (sr_headers out) h) \<and>
    bookings w4 = bookings w3 \<and> outbox w4 = outbox w3 \<and> audit_log w4 = audit_log w3"
    by (rule booking_creation.replayed_in_session [OF run caller(2) _ _ h quiet])
      (use caller unused kept again live in \<open>simp_all add: wl w3 keys_ok_def\<close>)
  then show ?thesis
    using again caller(1,2) by (auto simp: create_booking_endpoint_def require_principal_def w3)
qed

text \<open>A server that hashes to constants, and a request of user 101 with a key of version 4.\<close>

definition ex_server :: server where
  "ex_server = \<lparr>sv_env = \<lparr>e_settings = ex_settings, e_hmac = (\<lambda>_ _. ''h''), e_validator = Some, e_now = 0, e_retry_now = (\<lambda>_. 0)\<rparr>,
     sv_crypto = ex_crypto\<lparr>x_sha256_hex := (\<lambda>_. ''s'')\<rparr>, sv_collate = id, sv_fromisoformat = (\<lambda>_. None),
     sv_rivals = (\<lambda>_ t. t)\<rparr>"

definition ex_key :: uuid where "ex_key = 302240678275694148452359"

lemma ex_key_parses: "parse_idempotency_key (Some (uuid_str ex_key)) = Inr ex_key"
proof -
  have "uuid_version ex_key = Some 4" by (simp add: uuid_version_def ex_key_def)
  then show ?thesis by (simp add: parse_idempotency_key_canonical)
qed

definition ex_body :: booking_create where
  "ex_body = \<lparr>bc_resource_id = 1000, bc_starts_at = ex_at 14, bc_ends_at = ex_at 15\<rparr>"

definition ex_caller :: scope where "ex_caller = own_scope PAuthenticated 101"

abbreviation ex_guard :: "guard option" where "ex_guard \<equiv> Some (Revalidate PAuthenticated 101)"

lemma ex_limit:
  assumes "clock w (ticks w) = hours 12" "rate_limits w = []"
  shows "check_mutation_rate_limit (sv_env ex_server) 101 (hours 12) w
    = (Inr (), (begin_tx w)\<lparr>rate_limits := [\<lparr>l_scope = ''mutation:user'', l_identity_hash = ''h'', l_window_start = hours 12, l_count = 1\<rparr>]\<rparr>)"
proof -
  have "window_start_for (hours 12) 60 = hours 12" by code_simp
  then show ?thesis using assms
    by (simp add: check_mutation_rate_limit_def consume_user_bucket_def hash_identity_def ex_server_def ex_settings_def
        ex_secrets consume_rate_limits_def in_transaction_def bump_def begin_tx_def mutation_limit_def)
qed

lemma ex_guard_holds: "users w = users ex_db \<Longrightarrow> assert_current ex_guard w = Inr ()"
  by (simp add: assert_current_def revalidate_def ex_db_def ex_user_def enforce_policy_role_def)


text \<open>The resource archived: the refusal is stored and replayed like a success.\<close>

definition ex_gone_db :: db where
  "ex_gone_db = ex_db\<lparr>resources := [ex_resource\<lparr>r_active := False\<rparr>]\<rparr>"

definition ex_key_limit :: rate_row where
  "ex_key_limit = \<lparr>l_scope = ''mutation:user'', l_identity_hash = ''h'', l_window_start = hours 12, l_count = 1\<rparr>"

definition ex_refusal :: stored_response where
  "ex_refusal = refusal ''RESOURCE_INACTIVE'' (''Resource '' @ uuid_str 1000 @ '' is inactive'')"

definition ex_refused_db :: db where
  "ex_refused_db = ex_gone_db\<lparr>rate_limits := [ex_key_limit], ticks := 4,
     idem_keys := [\<lparr>k_user_id = 101, k_key = ex_key, k_request_hash = ''s'', k_response_status = Some 409,
       k_response_body = Some (sr_body ex_refusal), k_response_headers = Some [], k_created_at = hours 12,
       k_expires_at = hours 12 + hours 24\<rparr>]\<rparr>"

lemma ex_hash: "compute_request_hash (x_sha256_hex (sv_crypto ex_server)) ''POST'' ''/b'' (booking_create_dump ex_body) = Inr ''s''"
proof -
  have "validate_booking_window (bc_starts_at ex_body) (bc_ends_at ex_body) (utc_datetime (hours 12)) = Inr (hours 14, hours 15)"
    using ex_window by (simp add: ex_body_def)
  from booking_create_hashes [OF this] obtain h where
    "compute_request_hash (\<lambda>_. ''s'') ''POST'' ''/b'' (booking_create_dump ex_body) = Inr h" by blast
  then show ?thesis by (auto simp: compute_request_hash_def bind_r_Inr ex_server_def)
qed

lemma ex_operation:
  assumes "resources w = [ex_resource\<lparr>r_active := False\<rparr>]" "clock w (ticks w) = hours 12"
  shows "create_booking_operation ex_caller ex_body w = Inr (ex_refusal, w\<lparr>ticks := Suc (ticks w)\<rparr>)"
  using assms ex_window
  by (simp add: create_booking_operation_def clock_timestamp_def ex_body_def answer_creation_def insert_confirmed_def
      ex_resource_def refused_def ex_refusal_def)

lemma ex_refusal_simps: "sr_status ex_refusal = 409" "sr_headers ex_refusal = []"
  by (simp_all add: ex_refusal_def)

lemma ex_first:
  "create_booking_endpoint ex_server ''POST'' ''/b'' ex_body (Some (uuid_str ex_key)) ex_caller ex_guard (hours 12) ex_gone_db
     = (Inr (ex_refusal\<lparr>sr_headers := [(''Idempotency-Replayed'', ''false'')]\<rparr>), ex_refused_db)"
proof -
  let ?w1 = "(begin_tx ex_gone_db)\<lparr>rate_limits := [\<lparr>l_scope = ''mutation:user'', l_identity_hash = ''h'', l_window_start = hours 12, l_count = 1\<rparr>]\<rparr>"
  have limit: "check_mutation_rate_limit (sv_env ex_server) 101 (hours 12) ex_gone_db = (Inr (), ?w1)"
    by (rule ex_limit) (simp_all add: ex_gone_db_def ex_db_def empty_db_def)
  have guard: "assert_current ex_guard (begin_tx ?w1) = Inr ()"
    by (rule ex_guard_holds) (simp add: begin_tx_def ex_gone_db_def)
  have caller: "principal_id ex_caller = Some 101" by (simp add: ex_caller_def own_scope_def)
  have fresh: "acquire_or_replay 5 101 ex_key ''s'' op (sv_rivals ex_server) (begin_tx ?w1)
      = run_fresh 101 ex_key ''s'' op (begin_tx ?w1)" for op
    using acquire_or_replay_fresh [of 101 ex_key "begin_tx ?w1" 4 "''s''" op "sv_rivals ex_server"]
    by (simp add: begin_tx_def ex_gone_db_def ex_db_def empty_db_def ex_user_def)
  have "execute_create (x_sha256_hex (sv_crypto ex_server)) ex_caller ex_key ''POST'' ''/b'' (booking_create_dump ex_body)
      (create_booking_operation ex_caller ex_body) (sv_rivals ex_server) (begin_tx ?w1)
    = Inr (ex_refusal\<lparr>sr_headers := [(''Idempotency-Replayed'', ''false'')]\<rparr>, ex_refused_db)"
    unfolding execute_create_def caller ex_hash option.case bind_r_simps fresh
    by (simp add: run_fresh_def ex_operation begin_tx_def ex_gone_db_def ex_db_def empty_db_def store_response_def
        idem_row_def answered_def update_where_def ex_refusal_simps persisted_headers_def with_replayed_def ex_refused_db_def
        ex_key_limit_def Let_def)
  then show ?thesis
    using guard by (simp add: create_booking_endpoint_def require_principal_def ex_key_parses caller limit in_session_Inr)
qed

theorem create_booking_exactly_once_witness:
  "\<exists>hs w4. create_booking_endpoint ex_server ''POST'' ''/b'' ex_body (Some (uuid_str ex_key)) ex_caller ex_guard (hours 12)
      (ex_refused_db\<lparr>rate_limits := []\<rparr>) = (Inr (ex_refusal\<lparr>sr_headers := hs\<rparr>), w4) \<and> bookings w4 = []"
proof -
  let ?w2 = "ex_refused_db\<lparr>rate_limits := []\<rparr>" and ?row = "\<lparr>l_scope = ''mutation:user'', l_identity_hash = ''h'', l_window_start = hours 12, l_count = 1\<rparr>"
  let ?w3 = "(begin_tx ?w2)\<lparr>rate_limits := [?row]\<rparr>"
  have caller: "principal_id ex_caller = Some 101" "101 \<in> u_id ` set (users ex_gone_db)" "keys_ok ex_gone_db"
      "filter (idem_row 101 ex_key) (idem_keys ex_gone_db) = []" "filter (idem_row 101 ex_key) (sv_rivals ex_server n t) = filter (idem_row 101 ex_key) t"
    for n t
    by (simp_all add: ex_caller_def own_scope_def ex_gone_db_def ex_db_def empty_db_def ex_user_def keys_ok_def ex_server_def)
  have limit: "check_mutation_rate_limit (sv_env ex_server) 101 (hours 12) ?w2 = (Inr (), ?w3)"
    by (rule ex_limit) (simp_all add: ex_refused_db_def ex_gone_db_def ex_db_def empty_db_def)
  have guard: "assert_current ex_guard (begin_tx ?w3) = Inr ()"
    by (rule ex_guard_holds) (simp add: begin_tx_def ex_refused_db_def ex_gone_db_def)
  have w2: "filter (idem_row 101 ex_key) (idem_keys ?w2) = filter (idem_row 101 ex_key) (idem_keys ex_refused_db)"
      "101 \<in> u_id ` set (users ?w2)" "keys_ok ?w2" "bookings ?w2 = []"
      "\<And>r. r \<in> set (filter (idem_row 101 ex_key) (idem_keys ?w2)) \<Longrightarrow> clock ?w2 (ticks ?w3 + 2) < k_expires_at r"
    by (auto simp: ex_refused_db_def ex_gone_db_def ex_db_def empty_db_def ex_user_def keys_ok_def time_units split: if_splits)
  have out: "\<lparr>sr_status = sr_status (ex_refusal\<lparr>sr_headers := hs'\<rparr>), sr_body = sr_body (ex_refusal\<lparr>sr_headers := hs'\<rparr>), sr_headers = hs\<rparr>
      = ex_refusal\<lparr>sr_headers := hs\<rparr>" for hs hs'
    by simp
  show ?thesis
    using create_booking_exactly_once [OF ex_first ex_key_parses caller(1,2,3,5,4) w2(1,2,3) limit guard w2(5)]
    unfolding out w2(4) by blast
qed

end
