(* ===== verification/AdminRoutes.thy ===== *)
theory AdminRoutes
imports Routes
begin

text \<open>
  The routes of administrators and the feedback route (app/admin/router.py), in the manner
  of Routes: each revalidates its caller in the transaction of the service it calls, and
  puts Location and ETag on the response.
\<close>

section \<open>Resources\<close>

definition replying :: "int \<Rightarrow> ('a \<Rightarrow> (string \<times> string) list) \<Rightarrow> (db \<Rightarrow> ('a \<times> db) result) \<Rightarrow> db \<Rightarrow> ('a reply \<times> db) result" where
  "replying status headers f w =
     bind_r (f w) (\<lambda>(x, w1). Inr (\<lparr>y_status = status, y_body = x, y_headers = headers x\<rparr>, w1))"

definition list_admin_resources_endpoint ::
  "server \<Rightarrow> int \<Rightarrow> int \<Rightarrow> bool option \<Rightarrow> db \<Rightarrow> resource listing result" where
  "list_admin_resources_endpoint sv limit offset active w =
     bind_r (page_query limit offset) (\<lambda>(n, k). Inr (list_admin_resources (sv_collate sv) n k active w))"

definition create_resource_endpoint ::
  "json \<Rightarrow> scope \<Rightarrow> guard option \<Rightarrow> time \<Rightarrow> db \<Rightarrow> resource reply result \<times> db" where
  "create_resource_endpoint body sc g now w =
     (case parse_resource_create body of
        Inl e \<Rightarrow> (Inl e, w)
      | Inr d \<Rightarrow>
          in_session g (replying 201 (\<lambda>r. [(''Location'', ''/api/v1/admin/resources/'' @ uuid_str (r_id r)),
                                           (''ETag'', etag (r_version r))])
            (create_resource sc d now)) w)"

definition update_resource_endpoint ::
  "(json \<Rightarrow> bool option) \<Rightarrow> json \<Rightarrow> scope \<Rightarrow> guard option \<Rightarrow> db \<Rightarrow> resource reply result \<times> db" where
  "update_resource_endpoint parse_bool body sc g w =
     (case parse_resource_patch parse_bool body of
        Inl e \<Rightarrow> (Inl e, w)
      | Inr p \<Rightarrow> in_session g (replying 200 (\<lambda>r. [(''ETag'', etag (r_version r))]) (update_resource sc p)) w)"

definition archive_resource_endpoint :: "scope \<Rightarrow> guard option \<Rightarrow> db \<Rightarrow> resource reply result \<times> db" where
  "archive_resource_endpoint sc g w =
     in_session g (replying 200 (\<lambda>r. [(''ETag'', etag (r_version r))]) (archive_resource sc)) w"

section \<open>Blackouts\<close>

definition list_resource_blackouts_endpoint :: "uuid \<Rightarrow> int \<Rightarrow> int \<Rightarrow> db \<Rightarrow> booking_out listing result" where
  "list_resource_blackouts_endpoint i limit offset w =
     bind_r (page_query limit offset) (\<lambda>(n, k). list_resource_blackouts i n k w)"

record blackout_create =
  bl_starts_at :: datetime
  bl_ends_at :: datetime

definition blackout_create_dump :: "blackout_create \<Rightarrow> pyval" where
  "blackout_create_dump body = VDict [(''starts_at'', VTime (bl_starts_at body)), (''ends_at'', VTime (bl_ends_at body))]"

text \<open>The service samples the clock a second time for the row it writes.\<close>

definition create_blackout_operation :: "scope \<Rightarrow> uuid \<Rightarrow> blackout_create \<Rightarrow> operation" where
  "create_blackout_operation sc i body w =
     (let (db_now, w1) = clock_timestamp w in
      answer_creation i w1 (create_blackout sc (bl_starts_at body) (bl_ends_at body) w1) (\<lambda>b w2.
      Inr (created ''/api/v1/admin/blackouts/'' b, w2)))"

definition create_blackout_endpoint ::
  "server \<Rightarrow> string \<Rightarrow> string \<Rightarrow> uuid \<Rightarrow> blackout_create \<Rightarrow> string option \<Rightarrow> scope \<Rightarrow> guard option \<Rightarrow> db
   \<Rightarrow> stored_response result \<times> db" where
  "create_blackout_endpoint sv meth path i body key_header sc g w =
     (case parse_idempotency_key key_header of
        Inl e \<Rightarrow> (Inl e, w)
      | Inr key \<Rightarrow>
          in_session g
            (execute_create (x_sha256_hex (sv_crypto sv)) sc key meth path (blackout_create_dump body)
              (create_blackout_operation sc i body) (sv_rivals sv)) w)"

definition cancel_blackout_endpoint :: "scope \<Rightarrow> guard option \<Rightarrow> db \<Rightarrow> booking_out reply result \<times> db" where
  "cancel_blackout_endpoint sc g w =
     in_session g (replying 200 (\<lambda>b. [(''ETag'', etag (bo_version b))]) (cancel_blackout sc)) w"

section \<open>The bookings of everyone\<close>

definition list_admin_bookings_endpoint ::
  "int \<Rightarrow> int \<Rightarrow> uuid option \<Rightarrow> uuid option \<Rightarrow> string option \<Rightarrow> datetime option \<Rightarrow> datetime option \<Rightarrow> db
   \<Rightarrow> booking_out listing result" where
  "list_admin_bookings_endpoint limit offset resource_id user_id status starts_at ends_at w =
     bind_r (page_query limit offset) (\<lambda>(n, k).
     bind_r (optional booking_status_filter status) (\<lambda>st.
     list_admin_bookings n k resource_id user_id st starts_at ends_at w))"

definition get_admin_booking_endpoint :: "uuid \<Rightarrow> db \<Rightarrow> booking_out reply result" where
  "get_admin_booking_endpoint i w =
     bind_r (get_admin_booking i w) (\<lambda>b.
     Inr \<lparr>y_status = 200, y_body = b, y_headers = [(''ETag'', etag (bo_version b))]\<rparr>)"

definition cancel_admin_booking_endpoint ::
  "uuid \<Rightarrow> string \<Rightarrow> scope \<Rightarrow> guard option \<Rightarrow> db \<Rightarrow> booking_out reply result \<times> db" where
  "cancel_admin_booking_endpoint i reason sc g w =
     after (reason_field reason, w) (\<lambda>w0.
     case expected_version sc of
       None \<Rightarrow> (Inl RuntimeError, w0)
     | Some v \<Rightarrow>
         in_session g (replying 200 (\<lambda>b. [(''ETag'', etag (bo_version b))]) (cancel_booking sc i v reason)) w0)"

section \<open>People\<close>

definition create_invitation_endpoint ::
  "server \<Rightarrow> json \<Rightarrow> scope \<Rightarrow> guard option \<Rightarrow> time \<Rightarrow> db \<Rightarrow> invitation_result reply result \<times> db" where
  "create_invitation_endpoint sv body sc g now w =
     (case parse_invite_create (x_validator (sv_crypto sv)) body of
        Inl e \<Rightarrow> (Inl e, w)
      | Inr d \<Rightarrow>
          in_session g (replying 201 (\<lambda>_. [(''Cache-Control'', ''no-store'')])
            (create_invitation (sv_crypto sv) (e_settings (sv_env sv)) sc d now)) w)"

definition list_admin_users_endpoint :: "int \<Rightarrow> int \<Rightarrow> bool option \<Rightarrow> db \<Rightarrow> user_out listing result" where
  "list_admin_users_endpoint limit offset enabled w =
     bind_r (page_query limit offset) (\<lambda>(n, k). Inr (list_admin_users n k enabled w))"

definition update_user_endpoint ::
  "(json \<Rightarrow> bool option) \<Rightarrow> json \<Rightarrow> scope \<Rightarrow> guard option \<Rightarrow> time \<Rightarrow> db \<Rightarrow> user_out reply result \<times> db" where
  "update_user_endpoint parse_bool body sc g now w =
     (case parse_user_patch parse_bool body of
        Inl e \<Rightarrow> (Inl e, w)
      | Inr p \<Rightarrow> in_session g (replying 200 (\<lambda>u. [(''ETag'', etag (uo_version u))]) (update_user sc p now)) w)"

section \<open>Records\<close>

definition list_admin_audit_endpoint :: "int \<Rightarrow> int \<Rightarrow> uuid option \<Rightarrow> db \<Rightarrow> audit_row listing result" where
  "list_admin_audit_endpoint limit offset target_id w =
     bind_r (page_query limit offset) (\<lambda>(n, k). Inr (list_audit_logs n k target_id w))"

definition outbox_status_filter :: "string \<Rightarrow> outbox_status result" where
  "outbox_status_filter s =
     (if s = ''pending'' then Inr OPending else if s = ''processing'' then Inr OProcessing
      else if s = ''delivered'' then Inr ODelivered else if s = ''dead'' then Inr ODead
      else Inl RequestValidationError)"

definition list_admin_outbox_endpoint :: "int \<Rightarrow> int \<Rightarrow> string option \<Rightarrow> db \<Rightarrow> outbox_out listing result" where
  "list_admin_outbox_endpoint limit offset status w =
     bind_r (page_query limit offset) (\<lambda>(n, k).
     bind_r (optional outbox_status_filter status) (\<lambda>st.
     Inr (list_outbox_events n k st w)))"

definition retry_outbox_endpoint :: "scope \<Rightarrow> guard option \<Rightarrow> time \<Rightarrow> db \<Rightarrow> outbox_out reply result \<times> db" where
  "retry_outbox_endpoint sc g now w = in_session g (replying 200 (\<lambda>_. []) (retry_event sc now)) w"

section \<open>Feedback\<close>

text \<open>Consent comes before the rate limit and the transaction.\<close>

definition create_feedback_endpoint ::
  "server \<Rightarrow> feedback_create \<Rightarrow> scope \<Rightarrow> guard option \<Rightarrow> time \<Rightarrow> db \<Rightarrow> (uuid \<times> time) reply result \<times> db" where
  "create_feedback_endpoint sv body sc g now w =
     (case require_principal sc of
        Inl e \<Rightarrow> (Inl e, w)
      | Inr p \<Rightarrow>
          if \<not> consented body then (Inl ConsentRequiredError, w)
          else after (check_mutation_rate_limit (sv_env sv) p now w)
                 (in_session g (replying 201 (\<lambda>_. []) (create_feedback sc body now))))"

definition list_admin_feedback_endpoint :: "int \<Rightarrow> int \<Rightarrow> db \<Rightarrow> feedback_row listing result" where
  "list_admin_feedback_endpoint limit offset w =
     bind_r (page_query limit offset) (\<lambda>(n, k). Inr (list_feedback n k w))"

section \<open>A blackout is created once\<close>

lemma audit_admin_keys: "audit_admin sc a ty i d t w = Inr w' \<Longrightarrow> idem_keys w' = idem_keys w"
  by (auto simp: audit_admin_def append_audit_log_def insert_audit_def request_id_or_new_def uuid4_def bind_r_Inr Let_def
      split: option.splits if_splits prod.splits)

lemma create_blackout_keys: "create_blackout sc a b w = Inr (x, w') \<Longrightarrow> idem_keys w' = idem_keys w"
  by (auto simp: create_blackout_def bind_r_Inr Let_def uuid4_def clock_timestamp_def slot_conflict_Inr insert_booking_Inr
      dest!: audit_admin_keys split: option.splits if_splits)

interpretation blackout_creation: keyed_operation "create_blackout_operation sc i body" for sc i body
proof
  fix w st w'
  assume "create_blackout_operation sc i body w = Inr (st, w')"
  then consider (refused) exc where "refused i exc = Some st" "w' = w\<lparr>ticks := Suc (ticks w)\<rparr>"
    | (created) b where "create_blackout sc (bl_starts_at body) (bl_ends_at body) (w\<lparr>ticks := Suc (ticks w)\<rparr>) = Inr (b, w')"
        "st = created ''/api/v1/admin/blackouts/'' b"
    by (auto simp: create_blackout_operation_def clock_timestamp_def answer_creation_Inr)
  then show "idem_keys w' = idem_keys w" "200 \<le> sr_status st \<and> sr_status st \<le> 499"
    by (cases; auto dest: create_blackout_keys refused_status)+
qed

text \<open>
  A blackout request with a key runs once: sent again while the key lives, it is answered
  with the stored response and closes nothing a second time.
\<close>

theorem create_blackout_exactly_once:
  assumes first: "create_blackout_endpoint sv meth path i body header sc g w = (Inr out, w1)"
    and caller: "parse_idempotency_key header = Inr k" "principal_id sc = Some u" "u \<in> u_id ` set (users w)" "keys_ok w"
    and quiet: "\<And>n t. filter (idem_row u k) (sv_rivals sv n t) = filter (idem_row u k) t"
    and unused: "filter (idem_row u k) (idem_keys w) = []"
    and kept: "filter (idem_row u k) (idem_keys w2) = filter (idem_row u k) (idem_keys w1)"
      "u \<in> u_id ` set (users w2)" "keys_ok w2"
    and again: "assert_current g' (begin_tx w2) = Inr ()"
    and live: "\<And>r. r \<in> set (filter (idem_row u k) (idem_keys w2)) \<Longrightarrow> clock w2 (Suc (Suc (ticks w2))) < k_expires_at r"
  shows "\<exists>hs w3. create_blackout_endpoint sv meth path i body header sc g' w2
      = (Inr \<lparr>sr_status = sr_status out, sr_body = sr_body out, sr_headers = hs\<rparr>, w3) \<and>
    map_of hs ''Idempotency-Replayed'' = Some ''true'' \<and>
    (\<forall>h \<in> {''Location'', ''ETag''}. map_of hs h = map_of (sr_headers out) h) \<and>
    bookings w3 = bookings w2 \<and> outbox w3 = outbox w2 \<and> audit_log w3 = audit_log w2"
proof -
  let ?sha = "x_sha256_hex (sv_crypto sv)" and ?body = "blackout_create_dump body"
  have run: "in_session g (execute_create ?sha sc k meth path ?body (create_blackout_operation sc i body) (sv_rivals sv)) w = (Inr out, w1)"
    using first caller(1) by (simp add: create_blackout_endpoint_def)
  then obtain h where h: "compute_request_hash ?sha meth path ?body = Inr h"
    using caller(2) by (auto simp: in_session_def in_transaction_def bind_r_Inr execute_create_def split: sum.splits prod.splits)
  show ?thesis
    using blackout_creation.replayed_in_session [OF run caller(2,3,4) h quiet unused kept live again,
      of "create_blackout_operation sc i body"] caller(1)
    by (simp add: create_blackout_endpoint_def)
qed

end
