(* ===== verification/Scheduler.thy ===== *)
theory Scheduler
imports Waitlist
begin

text \<open>
  The hold-expiry scheduler (app/waitlist/scheduler.py): expiring the overdue holds of one
  resource, discovering the resources that need a visit, the worker's heartbeat row, and a
  cycle of the in-memory scheduler with its cursor.
\<close>

section \<open>One resource\<close>

definition overdue :: "uuid \<Rightarrow> time \<Rightarrow> booking \<Rightarrow> bool" where
  "overdue resource_id db_now b =
     (b_resource_id b = resource_id \<and> b_status b = BOffered
      \<and> (case b_expires_at b of None \<Rightarrow> False | Some t \<Rightarrow> t \<le> db_now))"

definition linked_entry :: "uuid \<Rightarrow> db \<Rightarrow> wait_entry option result" where
  "linked_entry bid w = scalar_one_or_none (filter (\<lambda>e. w_offered_booking_id e = Some bid) (waitlist w))"

fun expire_all :: "booking list \<Rightarrow> time \<Rightarrow> db \<Rightarrow> (nat \<times> db) result" where
  "expire_all [] db_now w = Inr (0, w)"
| "expire_all (b # bs) db_now w =
     bind_r (linked_entry (b_id b) w) (\<lambda>e.
     bind_r (expire_hold e b db_now w) (\<lambda>w1.
     bind_r (expire_all bs db_now w1) (\<lambda>(n, w2).
     Inr (n + 1, w2))))"

text \<open>
  SKIP LOCKED passes over a resource row that another transaction holds; locked says which.
\<close>

definition expire_and_promote ::
  "(resource \<Rightarrow> bool) \<Rightarrow> uuid \<Rightarrow> db \<Rightarrow> (nat \<times> db) result" where
  "expire_and_promote locked resource_id w =
     bind_r (scalar_one_or_none (filter (\<lambda>r. r_id r = resource_id \<and> \<not> locked r) (resources w))) (\<lambda>row.
     case row of
       None \<Rightarrow> Inr (0, w)
     | Some r \<Rightarrow>
         (let (db_now, w1) = clock_timestamp w;
              due = filter (overdue resource_id db_now) (bookings w1)
          in bind_r (expire_all due db_now w1) (\<lambda>(n, w2).
             bind_r (promote_waiters resource_id w2) (\<lambda>(_, w3).
             Inr (n, w3)))))"

section \<open>Discovery\<close>

text \<open>
  clock_timestamp() in the WHERE clause is read anew for every row: seen b is its value when
  the row of b is examined. UNION removes duplicates.
\<close>

definition candidates :: "(booking \<Rightarrow> time) \<Rightarrow> uuid list option \<Rightarrow> db \<Rightarrow> uuid list" where
  "candidates seen only w =
     sort (remdups (filter (\<lambda>r. case only of None \<Rightarrow> True | Some rs \<Rightarrow> r \<in> set rs)
       (map b_resource_id (filter (\<lambda>b. overdue (b_resource_id b) (seen b) b) (bookings w))
        @ map w_resource_id (filter (\<lambda>e. w_status e = WWaiting) (waitlist w)))))"

definition candidates_after ::
  "(booking \<Rightarrow> time) \<Rightarrow> nat \<Rightarrow> uuid list option \<Rightarrow> uuid option \<Rightarrow> db \<Rightarrow> uuid list" where
  "candidates_after seen limit only after_cursor w =
     take limit (filter (\<lambda>r. case after_cursor of None \<Rightarrow> True | Some c \<Rightarrow> r > c) (candidates seen only w))"

definition discover_candidate_resources ::
  "(booking \<Rightarrow> time) \<Rightarrow> nat \<Rightarrow> uuid list option \<Rightarrow> uuid option \<Rightarrow> db \<Rightarrow> uuid list \<times> bool" where
  "discover_candidate_resources seen limit only cursor w =
     (let found = candidates_after seen limit only cursor w in
      if found = [] \<and> cursor \<noteq> None
      then (let again = candidates_after seen limit only None w in (again, length again < limit))
      else (found, length found < limit))"

section \<open>The heartbeat\<close>

text \<open>
  The upsert of the row named 'primary'. Without an explicit time every column takes its own
  reading of the clock: two for the row to insert, one for each column the conflict sets.
\<close>

definition beat_time :: "time option \<Rightarrow> db \<Rightarrow> time \<times> db" where
  "beat_time now w = (case now of Some t \<Rightarrow> (t, w) | None \<Rightarrow> clock_timestamp w)"

definition record_heartbeat :: "bool \<Rightarrow> bool \<Rightarrow> time option \<Rightarrow> db \<Rightarrow> db result" where
  "record_heartbeat seen expiry_scan now w =
     (let (t1, w1) = beat_time now w; (t2, w2) = beat_time now w1 in
      if \<not> seen \<and> \<not> expiry_scan then Inl ValueError
      else (case heartbeat w of
         None \<Rightarrow> Inr (w2\<lparr>heartbeat := Some \<lparr>h_seen_at = t1, h_expiry_scan_at = t2\<rparr>\<rparr>)
       | Some h \<Rightarrow>
           (let (t3, w3) = (if seen then beat_time now w2 else (h_seen_at h, w2));
                (t4, w4) = (if expiry_scan then beat_time now w3 else (h_expiry_scan_at h, w3))
            in Inr (w4\<lparr>heartbeat := Some \<lparr>h_seen_at = t3, h_expiry_scan_at = t4\<rparr>\<rparr>))))"

section \<open>A cycle\<close>

text \<open>
  Each candidate is handled in a transaction of its own, after the cursor has moved to it; an
  exception leaves the cycle, with the earlier transactions committed and the cursor where it
  is. locked gives the rows other transactions hold at each visit.
\<close>

fun visit_all ::
  "(uuid \<Rightarrow> resource \<Rightarrow> bool) \<Rightarrow> uuid list \<Rightarrow> uuid option \<Rightarrow> db \<Rightarrow> nat result \<times> uuid option \<times> db" where
  "visit_all locked [] cursor w = (Inr 0, cursor, w)"
| "visit_all locked (r # rs) cursor w =
     (case in_transaction (expire_and_promote (locked r) r) w of
        (Inl e, w1) \<Rightarrow> (Inl e, Some r, w1)
      | (Inr n, w1) \<Rightarrow>
          (case visit_all locked rs (Some r) w1 of
             (Inl e, c, w2) \<Rightarrow> (Inl e, c, w2)
           | (Inr m, c, w2) \<Rightarrow> (Inr (n + m), c, w2)))"

definition run_cycle ::
  "(booking \<Rightarrow> time) \<Rightarrow> (uuid \<Rightarrow> resource \<Rightarrow> bool) \<Rightarrow> nat \<Rightarrow> uuid list option \<Rightarrow> time option \<Rightarrow>
   uuid option \<Rightarrow> db \<Rightarrow> nat result \<times> uuid option \<times> db" where
  "run_cycle seen locked batch_size only now cursor w =
     (case discover_candidate_resources seen batch_size only cursor w of (found, reached_end) \<Rightarrow>
      (case visit_all locked found cursor w of
         (Inl e, c, w1) \<Rightarrow> (Inl e, c, w1)
       | (Inr k, c, w1) \<Rightarrow>
           (let c' = (if reached_end then None else c) in
            case in_transaction (\<lambda>w. bind_r (record_heartbeat True True now w) (\<lambda>w'. Inr ((), w'))) w1 of
              (Inl e, w2) \<Rightarrow> (Inl e, c', w2)
            | (Inr _, w2) \<Rightarrow> (Inr k, c', w2))))"

section \<open>Expiring the holds of a resource\<close>

lemma filter_single:
  assumes "distinct (map key t)" "r \<in> set t" "P r" "\<And>x. x \<in> set t \<Longrightarrow> P x \<Longrightarrow> x = r"
  shows "filter P t = [r]"
proof -
  have "filter P t = filter (\<lambda>x. key x = key r \<and> P x) t"
    using assms(4) by (intro filter_cong) auto
  then show ?thesis using filter_key_and_distinct [where P = P, OF assms(1,2) refl assms(3)] by simp
qed

lemma key_of_later: "distinct (map f (a # xs)) \<Longrightarrow> x \<in> set xs \<Longrightarrow> f x \<noteq> f a"
  by (metis distinct.simps(2) imageI list.simps(9) set_map)

lemma linked_entry_found:
  assumes ok: "db_ok w" and b: "b \<in> set (bookings w)" "b_status b = BOffered"
  obtains e where "linked_entry (b_id b) w = Inr (Some e)" "e \<in> set (waitlist w)" "w_status e = WOffered" "offer_of e b"
proof -
  from offered_booking_entry [OF ok b] obtain e where e: "e \<in> set (waitlist w)" "w_status e = WOffered" "offer_of e b"
    and only: "\<And>d. d \<in> set (waitlist w) \<Longrightarrow> w_offered_booking_id d = Some (b_id b) \<Longrightarrow> d = e"
    by blast
  have "distinct (map w_id (waitlist w))" using db_okD(3) [OF ok] by (simp add: entries_ok_def)
  moreover have "w_offered_booking_id e = Some (b_id b)" using e(3) by (simp add: offer_of_def)
  ultimately have "filter (\<lambda>d. w_offered_booking_id d = Some (b_id b)) (waitlist w) = [e]"
    using e(1) only by (intro filter_single [where key = w_id])
  then have "linked_entry (b_id b) w = Inr (Some e)" by (simp add: linked_entry_def)
  with e show ?thesis by (intro that)
qed

definition expired_event :: "booking \<Rightarrow> outbox_row \<Rightarrow> bool" where
  "expired_event b r =
     (o_event_type r = EHoldExpired \<and> o_aggregate_id r = b_id b \<and> o_aggregate_version r = b_version b + 1)"

text \<open>Expiring a list of offered bookings: all go through, one event each, nothing else moves.\<close>

lemma expire_all_total:
  assumes "db_ok w" "distinct (map b_id bs)" "fresh_ids (length bs + k) w"
    and "\<forall>b \<in> set bs. b \<in> set (bookings w) \<and> b_status b = BOffered"
  shows "\<exists>w' rs. expire_all bs t w = Inr (length bs, w') \<and> db_ok w' \<and> fresh_ids k w' \<and>
    (\<forall>b \<in> set bs. restatus BExpired t b \<in> set (bookings w')) \<and>
    (\<forall>c \<in> set (bookings w). c \<notin> set bs \<longrightarrow> c \<in> set (bookings w')) \<and>
    (\<forall>c \<in> set (bookings w'). c \<in> set (bookings w) \<and> b_id c \<notin> b_id ` set bs \<or> b_status c = BExpired) \<and>
    outbox w' = outbox w @ rs \<and> list_all2 expired_event bs rs \<and>
    waiting_on rid w' = waiting_on rid w \<and> users w' = users w \<and> clock w' = clock w \<and> ticks w' = ticks w \<and>
    resources w' = resources w"
  using assms
proof (induction bs arbitrary: w)
  case Nil
  then show ?case by simp
next
  case (Cons b bs)
  have b: "b \<in> set (bookings w)" "b_status b = BOffered" using Cons.prems(4) by auto
  have fresh: "fresh_ids (Suc (length bs + k)) w" using Cons.prems(3) by simp
  have db: "distinct (map b_id (bookings w))" using db_okD(2) [OF Cons.prems(1)] by (simp add: bookings_ok_def)
  obtain e where e: "linked_entry (b_id b) w = Inr (Some e)" "e \<in> set (waitlist w)" "w_status e = WOffered" "offer_of e b"
    using linked_entry_found [OF Cons.prems(1) b] by blast
  from expire_hold_total [where t = t and rid = rid, OF Cons.prems(1) b e(2-4) fresh]
  obtain w1 r where w1: "expire_hold (Some e) b t w = Inr w1" "db_ok w1" "fresh_ids (length bs + k) w1"
      "w1 = (settle_pair b (restatus BExpired t) e (entry_restatus WExpired t) w)\<lparr>drawn := Suc (drawn w), outbox := outbox w @ [r]\<rparr>"
      "expired_event b r" "waiting_on rid w1 = waiting_on rid w"
    by (auto simp: expired_event_def)
  have bs1: "bookings w1 = update_where (\<lambda>x. b_id x = b_id b) (restatus BExpired t) (bookings w)"
    by (simp add: w1(4) settle_pair_def)
  have stay: "c \<in> set (bookings w1)" if "c \<in> set (bookings w)" "b_id c \<noteq> b_id b" for c
    using that by (simp add: bs1 set_update_where)
  have only: "c = b" if "c \<in> set (bookings w)" "b_id c = b_id b" for c
    using distinct_key_eq [OF db that(1) b(1) that(2)] .
  have "\<forall>c \<in> set bs. c \<in> set (bookings w1) \<and> b_status c = BOffered"
  proof
    fix c
    assume c: "c \<in> set bs"
    then have "b_id c \<noteq> b_id b" using Cons.prems(2) by (intro key_of_later [where f = b_id])
    with c Cons.prems(4) stay show "c \<in> set (bookings w1) \<and> b_status c = BOffered" by simp
  qed
  with Cons.IH [OF w1(2) _ w1(3)] Cons.prems(2)
  obtain w' rs where IH: "expire_all bs t w1 = Inr (length bs, w')" "db_ok w'" "fresh_ids k w'"
      "\<forall>b \<in> set bs. restatus BExpired t b \<in> set (bookings w')"
      "\<forall>c \<in> set (bookings w1). c \<notin> set bs \<longrightarrow> c \<in> set (bookings w')"
      "\<forall>c \<in> set (bookings w'). c \<in> set (bookings w1) \<and> b_id c \<notin> b_id ` set bs \<or> b_status c = BExpired"
      "outbox w' = outbox w1 @ rs" "list_all2 expired_event bs rs"
      "waiting_on rid w' = waiting_on rid w1" "users w' = users w1" "clock w' = clock w1" "ticks w' = ticks w1"
      "resources w' = resources w1"
    by auto
  have "restatus BExpired t b \<in> set (bookings w1)"
    using b(1) by (auto simp: bs1 set_update_where)
  moreover have "restatus BExpired t b \<notin> set bs" using Cons.prems(4) by auto
  ultimately have exp: "restatus BExpired t b \<in> set (bookings w')" using IH(5) by blast
  have keep: "c \<in> set (bookings w')" if c: "c \<in> set (bookings w)" "c \<notin> set (b # bs)" for c
  proof -
    have "b_id c \<noteq> b_id b" using only [OF c(1)] c(2) by auto
    then show ?thesis using IH(5) stay [OF c(1)] c(2) by auto
  qed
  have origin: "c \<in> set (bookings w) \<and> b_id c \<notin> b_id ` set (b # bs) \<or> b_status c = BExpired"
    if c: "c \<in> set (bookings w')" for c
  proof -
    from IH(6) c consider "b_status c = BExpired" | "c \<in> set (bookings w1)" "b_id c \<notin> b_id ` set bs" by blast
    then show ?thesis
    proof cases
      case 2
      from 2(1) show ?thesis using 2(2) by (auto simp: bs1 set_update_where)
    qed simp
  qed
  show ?case
    using e(1) w1 IH exp keep origin
    by (intro exI [of _ w'] exI [of _ "r # rs"]) (simp add: settle_pair_def)
qed

text \<open>The same from the success of a run: which rows it leaves.\<close>

lemma expire_all_effect:
  assumes "db_ok w" "expire_all bs t w = Inr (n, w')" "distinct (map b_id bs)"
    and "\<forall>b \<in> set bs. b \<in> set (bookings w) \<and> b_status b = BOffered"
  shows "db_ok w' \<and> resources w' = resources w \<and> clock w' = clock w \<and> ticks w' = ticks w \<and>
    (\<forall>b \<in> set bs. restatus BExpired t b \<in> set (bookings w')) \<and>
    (\<forall>c \<in> set (bookings w). b_id c \<notin> b_id ` set bs \<longrightarrow> c \<in> set (bookings w'))"
  using assms
proof (induction bs arbitrary: w n)
  case Nil
  then show ?case by simp
next
  case (Cons b bs)
  have b: "b \<in> set (bookings w)" "b_status b = BOffered" using Cons.prems(4) by auto
  obtain e where e: "linked_entry (b_id b) w = Inr (Some e)" "e \<in> set (waitlist w)" "w_status e = WOffered" "offer_of e b"
    using linked_entry_found [OF Cons.prems(1) b] by blast
  from Cons.prems(2) e(1) obtain w1 m where
    w1: "expire_hold (Some e) b t w = Inr w1" "expire_all bs t w1 = Inr (m, w')"
    by (auto simp: bind_r_Inr split: prod.splits)
  have ok1: "db_ok w1" by (rule expire_hold_keeps [OF Cons.prems(1) b e(2-4) w1(1)])
  obtain i where "append_event EHoldExpired (restatus BExpired t b) (Some t)
      (settle_pair b (restatus BExpired t) e (entry_restatus WExpired t) w) = Inr (i, w1)"
    using w1(1) unfolding expire_hold_steps(1) [OF Cons.prems(1) b e(2-4)] by (auto simp: bind_r_Inr)
  then have bs1: "bookings w1 = update_where (\<lambda>x. b_id x = b_id b) (restatus BExpired t) (bookings w)"
    and rest: "resources w1 = resources w" "clock w1 = clock w" "ticks w1 = ticks w"
    by (auto simp: append_event_def bind_r_Inr uuid4_def Let_def insert_outbox_def settle_pair_def
        split: option.splits if_splits)
  have later: "b_id c \<noteq> b_id b" if "c \<in> set bs" for c
    using that Cons.prems(3) by (intro key_of_later [where f = b_id])
  have "\<forall>c \<in> set bs. c \<in> set (bookings w1) \<and> b_status c = BOffered"
    using later Cons.prems(4) by (simp add: bs1 set_update_where)
  with Cons.IH [OF ok1 w1(2)] Cons.prems(3) have IH: "db_ok w'" "resources w' = resources w" "clock w' = clock w"
      "ticks w' = ticks w" "\<forall>c \<in> set bs. restatus BExpired t c \<in> set (bookings w')"
      "\<forall>c \<in> set (bookings w1). b_id c \<notin> b_id ` set bs \<longrightarrow> c \<in> set (bookings w')"
    by (simp_all add: rest)
  have "restatus BExpired t b \<in> set (bookings w1)" using b(1) by (auto simp: bs1 set_update_where)
  moreover have "b_id (restatus BExpired t b) \<notin> b_id ` set bs" using later by force
  ultimately have "restatus BExpired t b \<in> set (bookings w')" using IH(6) by blast
  moreover have "c \<in> set (bookings w')" if "c \<in> set (bookings w)" "b_id c \<notin> b_id ` set (b # bs)" for c
    using that IH(6) by (simp add: bs1 set_update_where)
  ultimately show ?case using IH(1-5) by simp
qed

lemma due_bookings:
  assumes "db_ok w"
  shows "distinct (map b_id (filter (overdue rid t) (bookings w)))"
    "\<forall>b \<in> set (filter (overdue rid t) (bookings w)). b \<in> set (bookings w) \<and> b_status b = BOffered"
  using db_okD(2) [OF assms] by (auto simp: bookings_ok_def overdue_def distinct_map_filter)

lemma expire_and_promote_keeps:
  assumes "db_ok w" "expire_and_promote locked rid w = Inr (n, w')"
  shows "db_ok w'"
proof (cases "scalar_one_or_none (filter (\<lambda>r. r_id r = rid \<and> \<not> locked r) (resources w))")
  case (Inl e)
  then show ?thesis using assms(2) by (simp add: expire_and_promote_def)
next
  case (Inr row)
  let ?w1 = "w\<lparr>ticks := Suc (ticks w)\<rparr>" and ?t = "clock w (ticks w)"
  show ?thesis
  proof (cases row)
    case None
    then show ?thesis using assms Inr by (simp add: expire_and_promote_def)
  next
    case (Some r)
    with assms(2) Inr obtain w2 got where
      w2: "expire_all (filter (overdue rid ?t) (bookings ?w1)) ?t ?w1 = Inr (n, w2)" "promote_waiters rid w2 = Inr (got, w')"
      by (auto simp: expire_and_promote_def clock_timestamp_def bind_r_Inr split: prod.splits)
    have ok1: "db_ok ?w1" using assms(1) by simp
    from expire_all_effect [OF ok1 w2(1) due_bookings [OF ok1]] have "db_ok w2" by simp
    then show ?thesis by (rule promote_waiters_keeps [OF _ w2(2)])
  qed
qed

section \<open>Properties\<close>

lemma expire_and_promote_run:
  assumes ok: "db_ok w" and r: "r \<in> set (resources w)" "\<not> locked r"
    and fresh: "fresh_ids (length (filter (overdue (r_id r) (clock w (ticks w))) (bookings w))
      + 2 * length (waiting_on (r_id r) w)) w"
  shows "\<exists>w' evs more. let t = clock w (ticks w); due = filter (overdue (r_id r) t) (bookings w) in
    expire_and_promote locked (r_id r) w = Inr (length due, w') \<and> db_ok w' \<and>
    (\<forall>b \<in> set (bookings w). (if b \<in> set due then restatus BExpired t b else b) \<in> set (bookings w')) \<and>
    outbox w' = outbox w @ evs @ more \<and> list_all2 expired_event due evs \<and>
    (\<forall>e \<in> set (waiting_on (r_id r) w'). \<exists>b \<in> set (bookings w'). blocked_by (r_id r) e b)"
proof -
  let ?rid = "r_id r" and ?t = "clock w (ticks w)"
  let ?w1 = "w\<lparr>ticks := Suc (ticks w)\<rparr>" and ?due = "filter (overdue ?rid ?t) (bookings w)"
  have dist: "distinct (map r_id (resources w))" using db_okD(1) [OF ok] by (simp add: people_ok_def)
  have row: "scalar_one_or_none (filter (\<lambda>x. r_id x = ?rid \<and> \<not> locked x) (resources w)) = Inr (Some r)"
  proof -
    have "filter (\<lambda>x. r_id x = ?rid \<and> \<not> locked x) (resources w) = [r]"
      using r distinct_key_eq [OF dist _ r(1)] by (intro filter_single [where key = r_id]) (use dist in auto)
    then show ?thesis by simp
  qed
  have ok1: "db_ok ?w1" using ok by simp
  have fresh1: "fresh_ids (length ?due + 2 * length (waiting_on ?rid w)) ?w1"
    using fresh by (simp add: fresh_ids_def)
  have same: "bookings ?w1 = bookings w" "outbox ?w1 = outbox w" by simp_all
  have due: "distinct (map b_id ?due)" "\<forall>b \<in> set ?due. b \<in> set (bookings ?w1) \<and> b_status b = BOffered"
    unfolding same by (rule due_bookings [OF ok])+
  from expire_all_total [where t = ?t and rid = ?rid, OF ok1 due(1) fresh1 due(2)]
  obtain w2 evs where "expire_all ?due ?t ?w1 = Inr (length ?due, w2) \<and> db_ok w2 \<and>
      fresh_ids (2 * length (waiting_on ?rid w)) w2 \<and>
      (\<forall>b \<in> set ?due. restatus BExpired ?t b \<in> set (bookings w2)) \<and>
      (\<forall>c \<in> set (bookings ?w1). c \<notin> set ?due \<longrightarrow> c \<in> set (bookings w2)) \<and>
      outbox w2 = outbox ?w1 @ evs \<and> list_all2 expired_event ?due evs \<and>
      waiting_on ?rid w2 = waiting_on ?rid ?w1"
    by blast
  then have w2: "expire_all ?due ?t ?w1 = Inr (length ?due, w2)" "db_ok w2"
      "fresh_ids (2 * length (waiting_on ?rid w)) w2"
      "\<forall>b \<in> set ?due. restatus BExpired ?t b \<in> set (bookings w2)"
      "\<forall>c \<in> set (bookings w). c \<notin> set ?due \<longrightarrow> c \<in> set (bookings w2)"
      "outbox w2 = outbox w @ evs" "list_all2 expired_event ?due evs"
      "waiting_on ?rid w2 = waiting_on ?rid w"
    unfolding waiting_frame same by blast+
  from promote_waiters_run [of w2 ?rid] w2(2,3,8) obtain got w3 where
    w3: "promote_waiters ?rid w2 = Inr (got, w3)" "db_ok w3" by auto
  from promote_waiters_grows [OF w3(1)] have "prefix (outbox w2) (outbox w3)" "prefix (bookings w2) (bookings w3)"
    by (simp_all add: grows_def)
  then obtain more where more: "outbox w3 = outbox w @ evs @ more" and "set (bookings w2) \<subseteq> set (bookings w3)"
    using w2(6) set_mono_prefix by (auto simp: prefix_def)
  then have stay: "\<forall>b \<in> set (bookings w). (if b \<in> set ?due then restatus BExpired ?t b else b) \<in> set (bookings w3)"
    using w2(4,5) by auto
  have work: "\<forall>e \<in> set (waiting_on ?rid w3). \<exists>b \<in> set (bookings w3). blocked_by ?rid e b"
    using work_conserved [OF w2(2) _ w3(1)] w2(3,8) by simp
  have run: "expire_and_promote locked ?rid w = Inr (length ?due, w3)"
    unfolding expire_and_promote_def row clock_timestamp_def using w2(1) w3(1) by simp
  show ?thesis
    unfolding Let_def
    by (rule exI [of _ w3], rule exI [of _ evs], rule exI [of _ more])
      (intro conjI run w3(2) stay more w2(7) work)
qed

text \<open>
  C16: a visit to a resource nobody holds locked returns the number of its overdue holds, the
  offered bookings whose deadline the clock has reached. Each of them is expired, with its
  version incremented, and gets one hold\_expired event, in order, ahead of the events of
  the promotions; the other bookings stay as they are; and whoever still waits for the
  resource afterwards is blocked by an active booking. A visit never fails on a well-formed
  database.
\<close>

theorem expire_and_promote_outcome:
  assumes ok: "db_ok w" and r: "r \<in> set (resources w)" "\<not> locked r"
    and fresh: "fresh_ids (length (filter (overdue (r_id r) (clock w (ticks w))) (bookings w))
      + 2 * length (waiting_on (r_id r) w)) w"
  shows "\<exists>w' evs more. let t = clock w (ticks w); due = filter (overdue (r_id r) t) (bookings w) in
    expire_and_promote locked (r_id r) w = Inr (length due, w') \<and> db_ok w' \<and>
    (\<forall>b \<in> set (bookings w). (if b \<in> set due then restatus BExpired t b else b) \<in> set (bookings w')) \<and>
    outbox w' = outbox w @ evs @ more \<and> list_all2 expired_event due evs \<and>
    (\<forall>e \<in> set (waiting_on (r_id r) w'). \<exists>b \<in> set (bookings w'). blocked_by (r_id r) e b)"
  using assms by (rule expire_and_promote_run)

text \<open>The offer of ex\_offer\_db, looked at an hour later.\<close>

definition ex_late_db :: db where
  "ex_late_db = ex_offer_db\<lparr>clock := \<lambda>_. hours 13\<rparr>"

theorem expire_and_promote_outcome_witness:
  "\<exists>w'. expire_and_promote (\<lambda>_. False) 1000 ex_late_db = Inr (1, w') \<and> db_ok w' \<and>
     restatus BExpired (hours 13) ex_offered \<in> set (bookings w')"
proof -
  have "same_tables ex_offer_db ex_late_db" by (simp add: ex_late_db_def same_tables_def)
  from db_ok_same [OF this] have ok: "db_ok ex_late_db" using ex_offer_db_ok by simp
  have r: "ex_resource \<in> set (resources ex_late_db)" "r_id ex_resource = 1000"
    by (simp_all add: ex_late_db_def ex_offer_db_def ex_booked_db_def ex_db_def ex_resource_def)
  have bs: "bookings ex_late_db = [ex_offered]" by (simp add: ex_late_db_def ex_offer_db_def)
  have late: "clock ex_late_db (ticks ex_late_db) = hours 13" by (simp add: ex_late_db_def)
  have "overdue 1000 (hours 13) ex_offered"
    by (simp add: overdue_def ex_offered_def ex_booking_def time_units)
  then have due: "filter (overdue 1000 (hours 13)) (bookings ex_late_db) = [ex_offered]" by (simp add: bs)
  have "waiting_on 1000 ex_late_db = waiting_on 1000 ex_offer_db" by (simp add: ex_late_db_def waiting_on_def)
  moreover have "fresh_ids 10 ex_late_db"
    using ex_offer_fresh by (simp add: ex_late_db_def fresh_ids_def ids_def)
  from fresh_ids_mono [OF this] have "fresh_ids (1 + 2 * 1) ex_late_db" by simp
  ultimately have fresh: "fresh_ids (length (filter (overdue (r_id ex_resource) (clock ex_late_db (ticks ex_late_db)))
      (bookings ex_late_db)) + 2 * length (waiting_on (r_id ex_resource) ex_late_db)) ex_late_db"
    unfolding r(2) late due by (simp add: ex_offer_waiting)
  from expire_and_promote_outcome [where locked = "\<lambda>_. False", OF ok r(1) _ fresh]
  obtain w' where w': "expire_and_promote (\<lambda>_. False) 1000 ex_late_db = Inr (length [ex_offered], w')" "db_ok w'"
      "\<forall>b \<in> set (bookings ex_late_db). (if b \<in> set [ex_offered] then restatus BExpired (hours 13) b else b) \<in> set (bookings w')"
    unfolding r(2) late due Let_def by blast
  then show ?thesis unfolding bs by simp
qed

section \<open>The sweep reaches every candidate\<close>

lemma visit_all_cursor:
  "visit_all locked rs c w = (Inr n, c', w') \<Longrightarrow> c' = (if rs = [] then c else Some (last rs))"
proof (induction rs arbitrary: c w n)
  case Nil
  then show ?case by simp
next
  case (Cons r rs)
  from Cons.prems obtain m w1 k where "visit_all locked rs (Some r) w1 = (Inr k, c', w')"
    by (auto split: prod.splits sum.splits)
  from Cons.IH [OF this] show ?case by simp
qed

lemma run_cycle_cursor:
  assumes "run_cycle seen locked limit only now c w = (Inr n, c', w')"
  shows "c' = (case discover_candidate_resources seen limit only c w of (found, reached_end) \<Rightarrow>
    if reached_end then None else if found = [] then c else Some (last found))"
proof -
  obtain found e where d: "discover_candidate_resources seen limit only c w = (found, e)" by fastforce
  with assms obtain k c1 w1 where v: "visit_all locked found c w = (Inr k, c1, w1)" "c' = (if e then None else c1)"
    by (auto simp: run_cycle_def Let_def split: prod.splits sum.splits)
  show ?thesis using v(2) visit_all_cursor [OF v(1)] by (simp add: d)
qed

definition ahead :: "uuid option \<Rightarrow> uuid \<Rightarrow> bool" where
  "ahead c r = (case c of None \<Rightarrow> True | Some x \<Rightarrow> r > x)"

lemma candidates_sorted: "sorted_wrt (<) (candidates seen only w)"
  unfolding candidates_def by (simp add: strict_sorted_iff)

lemma candidates_after_eq:
  "candidates_after seen limit only c w = take limit (filter (ahead c) (candidates seen only w))"
  by (simp add: candidates_after_def ahead_def [abs_def])

text \<open>A page that misses a candidate ahead of its cursor is full and ends before it.\<close>

lemma candidates_after_misses:
  assumes "r \<in> set (candidates seen only w)" "ahead c r" "0 < limit"
    and "r \<notin> set (candidates_after seen limit only c w)"
  shows "length (candidates_after seen limit only c w) = limit"
    "candidates_after seen limit only c w \<noteq> []"
    "last (candidates_after seen limit only c w) < r" "ahead c (last (candidates_after seen limit only c w))"
    "last (candidates_after seen limit only c w) \<in> set (candidates seen only w)"
proof -
  let ?xs = "filter (ahead c) (candidates seen only w)"
  have sorted: "sorted_wrt (<) ?xs" using candidates_sorted by (rule sorted_wrt_filter)
  have r: "r \<in> set ?xs" using assms(1,2) by simp
  then obtain i where i: "i < length ?xs" "?xs ! i = r" unfolding in_set_conv_nth by blast
  have "\<not> i < limit" using assms(4) i by (auto simp: candidates_after_eq in_set_conv_nth)
  then have lim: "limit \<le> i" by simp
  then show len: "length (candidates_after seen limit only c w) = limit"
    using i(1) by (simp add: candidates_after_eq)
  then show ne: "candidates_after seen limit only c w \<noteq> []" using assms(3) by auto
  have "last (candidates_after seen limit only c w) = ?xs ! (limit - 1)"
    using assms(3) len by (simp add: last_conv_nth [OF ne]) (simp add: candidates_after_eq)
  moreover have "limit - 1 < i" using lim assms(3) by simp
  ultimately have lst: "last (candidates_after seen limit only c w) = ?xs ! (limit - 1)" "limit - 1 < i" by simp_all
  show "last (candidates_after seen limit only c w) < r"
    using sorted lst i by (metis sorted_wrt_nth_less)
  have "?xs ! (limit - 1) \<in> set ?xs" using lst(2) i(1) by (intro nth_mem) simp
  then show "ahead c (last (candidates_after seen limit only c w))"
    "last (candidates_after seen limit only c w) \<in> set (candidates seen only w)"
    unfolding lst(1) by simp_all
qed

text \<open>How far the cursor is from r, counted in the resources of A.\<close>

definition distance :: "uuid set \<Rightarrow> uuid \<Rightarrow> uuid option \<Rightarrow> nat" where
  "distance A r c =
     (if ahead c r then card {a \<in> A. a < r \<and> ahead c a}
      else Suc (card {a \<in> A. a < r} + card {a \<in> A. ahead c a}))"

lemma distance_start:
  assumes "finite A" "r \<in> A"
  shows "distance A r c \<le> card A"
proof (cases "ahead c r")
  case True
  then show ?thesis using assms by (simp add: distance_def card_mono)
next
  case False
  then obtain x where x: "c = Some x" "r \<le> x" by (cases c) (auto simp: ahead_def)
  have "{a \<in> A. a < r} \<inter> {a \<in> A. ahead c a} = {}" using x by (auto simp: ahead_def)
  then have "Suc (card {a \<in> A. a < r} + card {a \<in> A. ahead c a})
      = card (insert r ({a \<in> A. a < r} \<union> {a \<in> A. ahead c a}))"
    using assms False by (subst card_insert_disjoint) (auto simp: card_Un_disjoint)
  also have "\<dots> \<le> card A" using assms by (intro card_mono) auto
  finally show ?thesis using False by (simp add: distance_def)
qed

lemma distance_up:
  assumes "finite A" "l \<in> A" "ahead c r" "ahead c l" "l < r"
  shows "distance A r (Some l) < distance A r c"
proof -
  have "{a \<in> A. a < r \<and> ahead (Some l) a} \<subset> {a \<in> A. a < r \<and> ahead c a}"
    using assms by (auto simp: ahead_def split: option.splits)
  then have "card {a \<in> A. a < r \<and> ahead (Some l) a} < card {a \<in> A. a < r \<and> ahead c a}"
    using assms(1) by (intro psubset_card_mono) auto
  moreover have "ahead (Some l) r" using assms(5) by (simp add: ahead_def)
  ultimately show ?thesis using assms(3) by (simp add: distance_def)
qed

lemma distance_past:
  assumes "finite A" "l \<in> A" "\<not> ahead c r" "ahead c l"
  shows "distance A r (Some l) < distance A r c"
proof -
  have "\<not> ahead (Some l) r" using assms(3,4) by (auto simp: ahead_def split: option.splits)
  moreover have "{a \<in> A. ahead (Some l) a} \<subset> {a \<in> A. ahead c a}"
    using assms by (auto simp: ahead_def split: option.splits)
  then have "card {a \<in> A. ahead (Some l) a} < card {a \<in> A. ahead c a}"
    using assms(1) by (intro psubset_card_mono) auto
  ultimately show ?thesis using assms(3) by (simp add: distance_def)
qed

lemma distance_wrap:
  assumes "finite A" "\<not> ahead c r" "c' = None \<or> (\<exists>l. c' = Some l \<and> l < r)"
  shows "distance A r c' < distance A r c"
proof -
  have "ahead c' r" using assms(3) by (auto simp: ahead_def)
  moreover have "card {a \<in> A. a < r \<and> ahead c' a} \<le> card {a \<in> A. a < r}"
    using assms(1) by (intro card_mono) auto
  ultimately show ?thesis using assms(2) by (simp add: distance_def)
qed

text \<open>One discovery: r is found or the cursor comes nearer to it.\<close>

lemma discovery_nearer:
  assumes "finite A" "0 < limit" "set (candidates seen only w) \<subseteq> A" "r \<in> set (candidates seen only w)"
    and d: "discover_candidate_resources seen limit only c w = (found, reached_end)" and miss: "r \<notin> set found"
  shows "distance A r (if reached_end then None else if found = [] then c else Some (last found)) < distance A r c"
proof (cases "ahead c r")
  case True
  from miss d have miss': "r \<notin> set (candidates_after seen limit only c w)"
  proof (cases "candidates_after seen limit only c w = []")
    case False
    then show ?thesis using d miss by (auto simp: discover_candidate_resources_def Let_def)
  qed simp
  note m = candidates_after_misses [OF assms(4) True assms(2) this]
  have "found = candidates_after seen limit only c w" "\<not> reached_end"
    using d m(1,2) by (auto simp: discover_candidate_resources_def Let_def)
  then show ?thesis using distance_up [OF assms(1) _ True m(4,3)] m(2,5) assms(3) by auto
next
  case False
  show ?thesis
  proof (cases "candidates_after seen limit only c w = []")
    case True
    have c: "c \<noteq> None" using False by (cases c) (auto simp: ahead_def)
    then have f: "found = candidates_after seen limit only None w" "reached_end = (length found < limit)"
      using d True by (auto simp: discover_candidate_resources_def Let_def)
    have "ahead None r" by (simp add: ahead_def)
    note m = candidates_after_misses [OF assms(4) this assms(2) miss [unfolded f(1)]]
    show ?thesis using distance_wrap [OF assms(1) False] m f by auto
  next
    case ne: False
    then have f: "found = candidates_after seen limit only c w" "reached_end = (length found < limit)"
      using d by (auto simp: discover_candidate_resources_def Let_def)
    have "set found \<subseteq> set (filter (ahead c) (candidates seen only w))"
      unfolding f(1) candidates_after_eq by (rule set_take_subset)
    then have "last found \<in> A" "ahead c (last found)"
      using last_in_set [of found] ne f(1) assms(3) by (metis (no_types, lifting) filter_is_subset mem_Collect_eq set_filter subsetD)+
    then show ?thesis
      using distance_past [OF assms(1) _ False, of "last found"] distance_wrap [OF assms(1) False, of None] ne f(1)
      by auto
  qed
qed

section \<open>What a cycle keeps\<close>

lemma begin_tx_ok: "db_ok (begin_tx w) = db_ok w"
  by (rule db_ok_same) (simp add: begin_tx_def same_tables_def)

lemma visit_all_keeps: "db_ok w \<Longrightarrow> visit_all locked rs c w = (res, c', w') \<Longrightarrow> db_ok w'"
proof (induction rs arbitrary: c w res)
  case Nil
  then show ?case by simp
next
  case (Cons r rs)
  have begun: "db_ok (begin_tx w)" using Cons.prems(1) by (simp only: begin_tx_ok)
  show ?case
  proof (cases "expire_and_promote (locked r) r (begin_tx w)")
    case (Inl e)
    then show ?thesis using Cons.prems by (simp add: in_transaction_def)
  next
    case (Inr p)
    then obtain n w1 where p: "expire_and_promote (locked r) r (begin_tx w) = Inr (n, w1)" by (cases p) auto
    have ok1: "db_ok w1" by (rule expire_and_promote_keeps [OF begun p])
    obtain res1 where "visit_all locked rs (Some r) w1 = (res1, c', w')"
      using Cons.prems(2) p by (auto simp: in_transaction_def split: prod.splits sum.splits)
    then show ?thesis by (rule Cons.IH [OF ok1])
  qed
qed

lemma record_heartbeat_keeps: "db_ok w \<Longrightarrow> record_heartbeat s x now w = Inr w' \<Longrightarrow> db_ok w'"
proof -
  assume "db_ok w" "record_heartbeat s x now w = Inr w'"
  then have "same_tables w w'"
    by (auto simp: record_heartbeat_def beat_time_def clock_timestamp_def Let_def same_tables_def
        split: option.splits if_splits prod.splits)
  then show "db_ok w'" using \<open>db_ok w\<close> db_ok_same by blast
qed

text \<open>What a visit, and a cycle of visits, leaves of the bookings.\<close>

lemma expire_and_promote_effect:
  assumes ok: "db_ok w" and run: "expire_and_promote locked rid w = Inr (n, w')"
  defines "t \<equiv> clock w (ticks w)"
  shows "resources w' = resources w \<and> clock w' = clock w \<and> ticks w \<le> ticks w' \<and>
    (\<forall>b \<in> set (bookings w). \<not> overdue rid t b \<longrightarrow> b \<in> set (bookings w')) \<and>
    (rid \<in> r_id ` set (resources w) \<and> (\<forall>x. \<not> locked x) \<longrightarrow>
      (\<forall>b \<in> set (bookings w). overdue rid t b \<longrightarrow> restatus BExpired t b \<in> set (bookings w')))"
proof (cases "scalar_one_or_none (filter (\<lambda>r. r_id r = rid \<and> \<not> locked r) (resources w))")
  case (Inl e)
  then show ?thesis using run by (simp add: expire_and_promote_def)
next
  case (Inr row)
  let ?w1 = "w\<lparr>ticks := Suc (ticks w)\<rparr>" and ?due = "filter (overdue rid t) (bookings w)"
  show ?thesis
  proof (cases row)
    case None
    then have "filter (\<lambda>r. r_id r = rid \<and> \<not> locked r) (resources w) = []" using Inr by (simp add: scalar_None)
    then show ?thesis using run Inr None by (auto simp: expire_and_promote_def filter_empty_conv)
  next
    case (Some r)
    with run Inr obtain w2 got where
      w2: "expire_all ?due t ?w1 = Inr (n, w2)" "promote_waiters rid w2 = Inr (got, w')"
      by (auto simp: expire_and_promote_def clock_timestamp_def bind_r_Inr t_def split: prod.splits)
    have ok1: "db_ok ?w1" using ok by simp
    have same: "bookings ?w1 = bookings w" by simp
    have "distinct (map b_id ?due)" "\<forall>b \<in> set ?due. b \<in> set (bookings ?w1) \<and> b_status b = BOffered"
      unfolding same by (rule due_bookings [OF ok])+
    note eff = expire_all_effect [OF ok1 w2(1) this]
    have grow: "grows w2 w'" by (rule promote_waiters_grows [OF w2(2)])
    then have sub: "set (bookings w2) \<subseteq> set (bookings w')" by (simp add: grows_def set_mono_prefix)
    have "distinct (map b_id (bookings w))" using db_okD(2) [OF ok] by (simp add: bookings_ok_def)
    then have other: "b_id b \<notin> b_id ` set ?due" if "b \<in> set (bookings w)" "\<not> overdue rid t b" for b
      using that by (auto dest: distinct_key_eq [of b_id])
    show ?thesis using eff grow sub other by (auto simp: grows_def)
  qed
qed

lemma visit_all_effect:
  assumes "db_ok w" "visit_all locked rs c w = (Inr n, c', w')"
  shows "db_ok w' \<and> resources w' = resources w \<and> clock w' = clock w \<and> ticks w \<le> ticks w' \<and>
    (\<forall>b \<in> set (bookings w). b_resource_id b \<notin> set rs \<or> b_status b \<noteq> BOffered \<longrightarrow> b \<in> set (bookings w'))"
  using assms
proof (induction rs arbitrary: c w n)
  case Nil
  then show ?case by simp
next
  case (Cons r rs)
  then obtain m w1 k where v: "expire_and_promote (locked r) r (begin_tx w) = Inr (m, w1)"
      "visit_all locked rs (Some r) w1 = (Inr k, c', w')"
    by (auto simp: in_transaction_def split: prod.splits sum.splits)
  have ok: "db_ok (begin_tx w)" using Cons.prems(1) by (simp only: begin_tx_ok)
  have begun: "resources (begin_tx w) = resources w" "clock (begin_tx w) = clock w" "ticks w \<le> ticks (begin_tx w)"
      "bookings (begin_tx w) = bookings w"
    by (simp_all add: begin_tx_def)
  note one = expire_and_promote_effect [OF ok v(1)]
  have "db_ok w1" by (rule expire_and_promote_keeps [OF ok v(1)])
  note IH = Cons.IH [OF this v(2)]
  have "b \<in> set (bookings w')"
    if b: "b \<in> set (bookings w)" "b_resource_id b \<notin> set (r # rs) \<or> b_status b \<noteq> BOffered" for b
  proof -
    from b(2) have "\<not> overdue r (clock (begin_tx w) (ticks (begin_tx w))) b" by (auto simp: overdue_def)
    then have "b \<in> set (bookings w1)" using one b(1) begun(4) by auto
    then show ?thesis using IH b(2) by auto
  qed
  then show ?case using one IH begun(1-3) by simp
qed

lemma visit_all_at:
  assumes "db_ok w" "visit_all locked (xs @ r # ys) c w = (Inr n, c', w')"
  shows "\<exists>v m v' k c1 j. visit_all locked xs c w = (Inr k, c1, v) \<and>
    expire_and_promote (locked r) r (begin_tx v) = Inr (m, v') \<and> visit_all locked ys (Some r) v' = (Inr j, c', w')"
  using assms(2)
proof (induction xs arbitrary: c w n)
  case Nil
  then show ?case by (auto simp: in_transaction_def split: prod.splits sum.splits)
next
  case (Cons x xs)
  then obtain m w1 k where v: "expire_and_promote (locked x) x (begin_tx w) = Inr (m, w1)"
      "visit_all locked (xs @ r # ys) (Some x) w1 = (Inr k, c', w')"
    by (auto simp: in_transaction_def split: prod.splits sum.splits)
  from Cons.IH [OF v(2)] show ?case using v(1) by (fastforce simp: in_transaction_def)
qed

text \<open>
  A visit of r in a cycle from w to w': what it finds is r as it was at the start of the cycle,
  and what it expires stays expired to the end; with the row unlocked that is every hold that
  is overdue at the time t the visit reads, and with fresh uuids nobody is left waiting unblocked.
\<close>

definition visited :: "(uuid \<Rightarrow> resource \<Rightarrow> bool) \<Rightarrow> uuid \<Rightarrow> db \<Rightarrow> db \<Rightarrow> bool" where
  "visited locked r w w' =
     (\<exists>v m v' t. expire_and_promote (locked r) r v = Inr (m, v') \<and> clock v = clock w \<and> ticks w \<le> ticks v \<and>
        t = clock v (ticks v) \<and>
        (\<forall>b \<in> set (bookings w). b_resource_id b = r \<longrightarrow> b \<in> set (bookings v)) \<and>
        (r \<in> r_id ` set (resources w) \<and> (\<forall>x. \<not> locked r x) \<longrightarrow>
          (\<forall>b \<in> set (bookings w). overdue r t b \<longrightarrow> restatus BExpired t b \<in> set (bookings w')) \<and>
          (fresh_ids (length (filter (overdue r t) (bookings v)) + 2 * length (waiting_on r v)) v \<longrightarrow>
            (\<forall>e \<in> set (waiting_on r v'). \<exists>b \<in> set (bookings v'). blocked_by r e b))))"

lemma visit_all_visits:
  assumes ok: "db_ok w" and run: "visit_all locked rs c w = (Inr n, c', w')" and r: "r \<in> set rs"
  shows "visited locked r w w'"
proof -
  obtain xs ys where rs: "rs = xs @ r # ys" "r \<notin> set xs" using split_list_first [OF r] by blast
  obtain v m v' k c1 j where v: "visit_all locked xs c w = (Inr k, c1, v)"
      "expire_and_promote (locked r) r (begin_tx v) = Inr (m, v')" "visit_all locked ys (Some r) v' = (Inr j, c', w')"
    using visit_all_at [OF ok run [unfolded rs(1)]] by blast
  let ?v = "begin_tx v" and ?t = "clock (begin_tx v) (ticks (begin_tx v))"
  note xs = visit_all_effect [OF ok v(1)]
  have okv: "db_ok ?v" using xs by (simp only: begin_tx_ok)
  have begun: "resources ?v = resources v" "clock ?v = clock v" "ticks v \<le> ticks ?v" "bookings ?v = bookings v"
    by (simp_all add: begin_tx_def)
  note one = expire_and_promote_effect [OF okv v(2)] and ok' = expire_and_promote_keeps [OF okv v(2)]
  note ys = visit_all_effect [OF ok' v(3)]
  have mine: "\<forall>b \<in> set (bookings w). b_resource_id b = r \<longrightarrow> b \<in> set (bookings ?v)"
    using xs rs(2) by (auto simp: begun)
  have "restatus BExpired ?t b \<in> set (bookings w')"
    if "r \<in> r_id ` set (resources w)" "\<forall>x. \<not> locked r x" "b \<in> set (bookings w)" "overdue r ?t b" for b
  proof -
    have "b \<in> set (bookings ?v)" using mine that(3,4) by (simp add: overdue_def)
    then have "restatus BExpired ?t b \<in> set (bookings v')" using one that xs begun by simp
    then show ?thesis using ys by simp
  qed
  moreover have "\<forall>e \<in> set (waiting_on r v'). \<exists>b \<in> set (bookings v'). blocked_by r e b"
    if there: "r \<in> r_id ` set (resources w)" "\<forall>x. \<not> locked r x"
      and fresh: "fresh_ids (length (filter (overdue r ?t) (bookings ?v)) + 2 * length (waiting_on r ?v)) ?v"
  proof -
    obtain x where x: "x \<in> set (resources ?v)" "r_id x = r" using there(1) xs begun by auto
    have free: "\<not> locked r x" using there(2) by simp
    from expire_and_promote_run [where locked = "locked r", OF okv x(1) free] fresh x(2) v(2)
    show ?thesis by (auto simp: Let_def)
  qed
  ultimately show ?thesis
    unfolding visited_def using v(2) mine xs begun
    by (intro exI [of _ ?v] exI [of _ m] exI [of _ v'] exI [of _ ?t]) auto
qed

lemma run_cycle_visits:
  assumes "db_ok w" "run_cycle seen locked limit only now c w = (Inr n, c', w')"
    and "r \<in> set (fst (discover_candidate_resources seen limit only c w))"
  shows "visited locked r w w'"
proof -
  obtain found e where d: "discover_candidate_resources seen limit only c w = (found, e)" by fastforce
  with assms(2) obtain k c1 w1 w2 where v: "visit_all locked found c w = (Inr k, c1, w1)"
      "record_heartbeat True True now (begin_tx w1) = Inr w2" "w' = w2"
    by (auto simp: run_cycle_def in_transaction_def bind_r_Inr Let_def split: prod.splits sum.splits)
  have "bookings w2 = bookings (begin_tx w1)"
    using v(2) by (auto simp: record_heartbeat_def beat_time_def clock_timestamp_def Let_def
        split: option.splits if_splits prod.splits)
  then have "bookings w' = bookings w1" using v(3) by (simp add: begin_tx_def)
  moreover have "visited locked r w w1" using visit_all_visits [OF assms(1) v(1)] assms(3) d by simp
  ultimately show ?thesis unfolding visited_def by (simp only:)
qed

lemma candidate_discovered:
  assumes "finite A" "0 < limit"
    and cycles: "\<And>i. i \<le> card A \<Longrightarrow> \<exists>n w'. run_cycle (seen i) (locked i) limit only (now i) (C i) (W i) = (Inr n, C (Suc i), w')"
    and cand: "\<And>i. i \<le> card A \<Longrightarrow> r \<in> set (candidates (seen i) only (W i))
      \<and> set (candidates (seen i) only (W i)) \<subseteq> A"
  shows "\<exists>i \<le> card A. r \<in> set (fst (discover_candidate_resources (seen i) limit only (C i) (W i)))"
proof (rule ccontr)
  assume "\<not> ?thesis"
  then have miss: "r \<notin> set (fst (discover_candidate_resources (seen i) limit only (C i) (W i)))" if "i \<le> card A" for i
    using that by blast
  have step: "distance A r (C (Suc i)) < distance A r (C i)" if i: "i \<le> card A" for i
  proof -
    obtain n w' where run: "run_cycle (seen i) (locked i) limit only (now i) (C i) (W i) = (Inr n, C (Suc i), w')"
      using cycles [OF i] by blast
    obtain found e where d: "discover_candidate_resources (seen i) limit only (C i) (W i) = (found, e)" by fastforce
    have "C (Suc i) = (if e then None else if found = [] then C i else Some (last found))"
      using run_cycle_cursor [OF run] by (simp add: d)
    then show ?thesis
      using discovery_nearer [OF assms(1,2) _ _ d] cand [OF i] miss [OF i] by (simp add: d)
  qed
  have "i + distance A r (C i) \<le> card A" if "i \<le> Suc (card A)" for i
    using that
  proof (induction i)
    case 0
    have "r \<in> A" using cand [of 0] by auto
    then show ?case using distance_start [OF assms(1)] by simp
  next
    case (Suc i)
    then show ?case using step [of i] by simp
  qed
  from this [of "Suc (card A)"] show False by simp
qed


lemma ex_late_candidates: "candidates (\<lambda>_. hours 13) None ex_late_db = [1000]"
proof -
  have "bookings ex_late_db = [ex_offered]" "waitlist ex_late_db = [ex_offered_entry, ex_entry 202 101 7]"
    by (simp_all add: ex_late_db_def ex_offer_db_def)
  then show ?thesis
    by (simp add: candidates_def overdue_def ex_offered_def ex_booking_def ex_offered_entry_def ex_entry_def time_units)
qed

lemma ex_late_cycle:
  "\<exists>n w'. run_cycle (\<lambda>_. hours 13) (\<lambda>_ _. False) 100 None (Some t) None ex_late_db = (Inr n, None, w')"
proof -
  let ?v = "begin_tx ex_late_db"
  have "same_tables ex_offer_db ?v" by (simp add: ex_late_db_def begin_tx_def same_tables_def)
  from db_ok_same [OF this] have ok: "db_ok ?v" using ex_offer_db_ok by simp
  have r: "ex_resource \<in> set (resources ?v)" "r_id ex_resource = 1000"
    by (simp_all add: begin_tx_def ex_late_db_def ex_offer_db_def ex_booked_db_def ex_db_def ex_resource_def)
  have "length (filter (overdue 1000 (clock ?v (ticks ?v))) (bookings ?v)) \<le> 1"
    by (rule order.trans [OF length_filter_le]) (simp add: begin_tx_def ex_late_db_def ex_offer_db_def)
  moreover have "waiting_on 1000 ?v = waiting_on 1000 ex_offer_db" by (simp add: begin_tx_def ex_late_db_def waiting_on_def)
  moreover have "fresh_ids 10 ?v" using ex_offer_fresh by (simp add: begin_tx_def ex_late_db_def fresh_ids_def ids_def)
  ultimately have "fresh_ids (length (filter (overdue (r_id ex_resource) (clock ?v (ticks ?v))) (bookings ?v))
      + 2 * length (waiting_on (r_id ex_resource) ?v)) ?v"
    unfolding r(2) by (elim fresh_ids_mono) (simp add: ex_offer_waiting)
  from expire_and_promote_run [where locked = "\<lambda>_. False", OF ok r(1) _ this]
  obtain n v' where "expire_and_promote (\<lambda>_. False) 1000 ?v = Inr (n, v')" unfolding r(2) Let_def by auto
  then show ?thesis
    by (simp add: run_cycle_def discover_candidate_resources_def candidates_after_def ex_late_candidates
        in_transaction_def record_heartbeat_def beat_time_def split: option.splits)
qed


section \<open>What a cycle keeps of the invariant\<close>

lemma run_cycle_keeps:
  assumes "db_ok w" "run_cycle seen locked limit only now c w = (res, c', w')"
  shows "db_ok w'"
proof -
  obtain found e where d: "discover_candidate_resources seen limit only c w = (found, e)" by fastforce
  obtain res1 c1 w1 where v: "visit_all locked found c w = (res1, c1, w1)" by (metis prod_cases3)
  have ok1: "db_ok w1" by (rule visit_all_keeps [OF assms(1) v])
  have begun: "db_ok (begin_tx w1)" using ok1 by (simp only: begin_tx_ok)
  show ?thesis
  proof (cases "record_heartbeat True True now (begin_tx w1)")
    case (Inl x)
    then show ?thesis
      using assms(2) d v ok1 by (auto simp: run_cycle_def in_transaction_def Let_def split: sum.splits)
  next
    case (Inr w2)
    then show ?thesis
      using assms(2) d v ok1 record_heartbeat_keeps [OF begun Inr]
      by (auto simp: run_cycle_def in_transaction_def Let_def split: sum.splits)
  qed
qed

text \<open>The heartbeat of a completed cycle carries the times the database clock read.\<close>

lemma record_heartbeat_now:
  "record_heartbeat True True (Some t) w = Inr (w\<lparr>heartbeat := Some \<lparr>h_seen_at = t, h_expiry_scan_at = t\<rparr>\<rparr>)"
  by (simp add: record_heartbeat_def beat_time_def split: option.splits)

lemma record_heartbeat_none: "record_heartbeat False False now w = Inl ValueError"
  by (simp add: record_heartbeat_def split: prod.splits)

end
