(* ===== verification/Templates.thy ===== *)
theory Templates
imports Outbox Windows
begin

text \<open>
  The e-mails (app/notifications/templates.py, app/notifications/adapters.py): the two
  escapes, the four templates and the adapters. The local time of an instant in
  America/New\_York is a parameter (the time zone database is not part of the program), and
  so is what the SMTP conversation comes to.
\<close>

section \<open>Escaping\<close>

definition blank_out :: "(nat \<Rightarrow> bool) \<Rightarrow> string \<Rightarrow> string" where
  "blank_out P s = map (\<lambda>c. if P (of_char c) then CHR '' '' else c) s"

definition escape_control_characters :: "string \<Rightarrow> string" where
  "escape_control_characters s =
     py_strip (blank_out (\<lambda>n. n \<le> 8 \<or> n = 11 \<or> n = 12 \<or> 14 \<le> n \<and> n \<le> 31 \<or> 127 \<le> n \<and> n \<le> 159) s)"

text \<open>re.sub of a run of white space by one blank; the flag says that one has just been written.\<close>

fun collapse :: "bool \<Rightarrow> string \<Rightarrow> string" where
  "collapse seen [] = []"
| "collapse seen (c # s) =
     (if py_space c then (if seen then collapse True s else CHR '' '' # collapse True s)
      else c # collapse False s)"

definition header_control :: "nat \<Rightarrow> bool" where
  "header_control n = (n = 13 \<or> n = 10 \<or> n \<le> 31 \<or> 127 \<le> n \<and> n \<le> 159)"

definition escape_header_value :: "string \<Rightarrow> string" where
  "escape_header_value s = py_strip (collapse False (blank_out header_control s))"

section \<open>Rendering\<close>

definition nl :: string where "nl = [CHR 0x0A]"

definition rstrip_char :: "char \<Rightarrow> string \<Rightarrow> string" where
  "rstrip_char c s = rev (dropWhile (\<lambda>x. x = c) (rev s))"

text \<open>local t is the instant t as "%Y-%m-%d %H:%M:%S %Z (America/New\_York)".\<close>

definition format_time_pair :: "(time \<Rightarrow> string) \<Rightarrow> datetime \<Rightarrow> (string \<times> string) result" where
  "format_time_pair local dt =
     bind_r (as_utc_now dt) (\<lambda>t.
     let s = format_rfc3339_utc t in Inr (take 10 s @ '' '' @ take 8 (drop 11 s) @ '' UTC'', local t))"

definition link :: "string \<Rightarrow> string \<Rightarrow> string" where
  "link app_origin page = rstrip_char (CHR ''/'') app_origin @ page"

definition confirmed_body :: "string \<Rightarrow> string \<Rightarrow> string \<Rightarrow> string \<Rightarrow> string \<Rightarrow> string \<Rightarrow> string" where
  "confirmed_body safe_resource start_utc start_local end_utc end_local app_origin =
       ''Your booking for '' @ safe_resource @ '' is confirmed.'' @ nl @ nl
       @ ''Starts At:'' @ nl @ ''  UTC:   '' @ start_utc @ nl @ ''  Local: '' @ start_local @ nl @ nl
       @ ''Ends At:'' @ nl @ ''  UTC:   '' @ end_utc @ nl @ ''  Local: '' @ end_local @ nl @ nl
       @ ''View your bookings at: '' @ link app_origin ''/my-bookings'' @ nl"

definition render_booking_confirmed ::
  "(time \<Rightarrow> string) \<Rightarrow> string \<Rightarrow> datetime \<Rightarrow> datetime \<Rightarrow> string \<Rightarrow> (string \<times> string) result" where
  "render_booking_confirmed local resource_name starts_at ends_at app_origin =
     bind_r (format_time_pair local starts_at) (\<lambda>(start_utc, start_local).
     bind_r (format_time_pair local ends_at) (\<lambda>(end_utc, end_local).
     Inr (''Booking Confirmed: '' @ escape_header_value resource_name,
       confirmed_body (escape_control_characters resource_name) start_utc start_local end_utc end_local app_origin)))"

definition cancelled_body :: "string \<Rightarrow> string \<Rightarrow> string \<Rightarrow> string \<Rightarrow> string \<Rightarrow> string \<Rightarrow> string" where
  "cancelled_body safe_resource start_utc start_local end_utc end_local app_origin =
       ''Your booking for '' @ safe_resource @ '' has been cancelled.'' @ nl @ nl
       @ ''Original Interval:'' @ nl
       @ ''  Starts: '' @ start_utc @ '' ('' @ start_local @ '')'' @ nl
       @ ''  Ends:   '' @ end_utc @ '' ('' @ end_local @ '')'' @ nl @ nl
       @ ''View your bookings at: '' @ link app_origin ''/my-bookings'' @ nl"

definition render_booking_cancelled ::
  "(time \<Rightarrow> string) \<Rightarrow> string \<Rightarrow> datetime \<Rightarrow> datetime \<Rightarrow> string \<Rightarrow> (string \<times> string) result" where
  "render_booking_cancelled local resource_name starts_at ends_at app_origin =
     bind_r (format_time_pair local starts_at) (\<lambda>(start_utc, start_local).
     bind_r (format_time_pair local ends_at) (\<lambda>(end_utc, end_local).
     Inr (''Booking Cancelled: '' @ escape_header_value resource_name,
       cancelled_body (escape_control_characters resource_name) start_utc start_local end_utc end_local app_origin)))"

definition offered_body :: "string \<Rightarrow> string \<Rightarrow> string \<Rightarrow> string \<Rightarrow> string \<Rightarrow> string \<Rightarrow> string \<Rightarrow> string \<Rightarrow> string" where
  "offered_body safe_resource start_utc start_local end_utc end_local exp_utc exp_local app_origin =
       ''A reservation slot for '' @ safe_resource @ '' is now available!'' @ nl @ nl
       @ ''Slot Interval:'' @ nl
       @ ''  Starts: '' @ start_utc @ '' ('' @ start_local @ '')'' @ nl
       @ ''  Ends:   '' @ end_utc @ '' ('' @ end_local @ '')'' @ nl @ nl
       @ ''Offer Expiry Deadline:'' @ nl @ ''  UTC:   '' @ exp_utc @ nl @ ''  Local: '' @ exp_local @ nl @ nl
       @ ''To accept or decline this offer before it expires, visit: '' @ link app_origin ''/waitlist'' @ nl"

definition render_waitlist_offered ::
  "(time \<Rightarrow> string) \<Rightarrow> string \<Rightarrow> datetime \<Rightarrow> datetime \<Rightarrow> datetime \<Rightarrow> string \<Rightarrow> (string \<times> string) result" where
  "render_waitlist_offered local resource_name starts_at ends_at expires_at app_origin =
     bind_r (format_time_pair local starts_at) (\<lambda>(start_utc, start_local).
     bind_r (format_time_pair local ends_at) (\<lambda>(end_utc, end_local).
     bind_r (format_time_pair local expires_at) (\<lambda>(exp_utc, exp_local).
     Inr (''Waitlist Offer: '' @ escape_header_value resource_name,
       offered_body (escape_control_characters resource_name) start_utc start_local end_utc end_local exp_utc exp_local app_origin))))"

definition hold_expired_body :: "string \<Rightarrow> string \<Rightarrow> string \<Rightarrow> string \<Rightarrow> string \<Rightarrow> string \<Rightarrow> string" where
  "hold_expired_body safe_resource start_utc start_local end_utc end_local app_origin =
       ''Your waitlist offer hold for '' @ safe_resource @ '' has expired because ''
       @ ''it was not accepted within the response deadline.'' @ nl @ nl
       @ ''Slot Interval:'' @ nl
       @ ''  Starts: '' @ start_utc @ '' ('' @ start_local @ '')'' @ nl
       @ ''  Ends:   '' @ end_utc @ '' ('' @ end_local @ '')'' @ nl @ nl
       @ ''Check waitlist status at: '' @ link app_origin ''/waitlist'' @ nl"

definition render_hold_expired ::
  "(time \<Rightarrow> string) \<Rightarrow> string \<Rightarrow> datetime \<Rightarrow> datetime \<Rightarrow> string \<Rightarrow> (string \<times> string) result" where
  "render_hold_expired local resource_name starts_at ends_at app_origin =
     bind_r (format_time_pair local starts_at) (\<lambda>(start_utc, start_local).
     bind_r (format_time_pair local ends_at) (\<lambda>(end_utc, end_local).
     Inr (''Waitlist Hold Expired: '' @ escape_header_value resource_name,
       hold_expired_body (escape_control_characters resource_name) start_utc start_local end_utc end_local app_origin)))"

section \<open>Adapters\<close>

record email_message =
  em_message_id :: string
  em_to :: string
  em_subject :: string
  em_text_body :: string

definition console_send :: "email_message \<Rightarrow> string result" where
  "console_send message = Inr (em_message_id message)"

text \<open>What the conversation from connect to quit raises, if anything, by exception class.\<close>

datatype smtp_outcome = Accepted | TimedOut | TlsFailed | LoginRefused | RecipientsRefused | TransportFailed | Unexpected

definition line_break :: "string \<Rightarrow> bool" where
  "line_break s = (CHR 0x0D \<in> set s \<or> CHR 0x0A \<in> set s)"

definition send_sync :: "bool \<Rightarrow> (email_message \<Rightarrow> smtp_outcome) \<Rightarrow> email_message \<Rightarrow> string result" where
  "send_sync email_enabled smtp message =
     (if \<not> email_enabled then Inl (EmailDeliveryError ''transport'')
      else if line_break (em_subject message) \<or> line_break (em_to message) then Inl (EmailDeliveryError ''transport'')
      else (case smtp message of
              Accepted \<Rightarrow> Inr (em_message_id message)
            | TimedOut \<Rightarrow> Inl (EmailDeliveryError ''timeout'')
            | TlsFailed \<Rightarrow> Inl (EmailDeliveryError ''tls'')
            | LoginRefused \<Rightarrow> Inl (EmailDeliveryError ''authentication'')
            | RecipientsRefused \<Rightarrow> Inl (EmailDeliveryError ''recipient_rejected'')
            | TransportFailed \<Rightarrow> Inl (EmailDeliveryError ''transport'')
            | Unexpected \<Rightarrow> Inl RuntimeError))"

section \<open>Subjects are single lines\<close>

definition printable :: "char \<Rightarrow> bool" where
  "printable c = (\<not> header_control (of_char c))"

lemma py_strip_subset: "set (py_strip s) \<subseteq> set s"
  unfolding py_strip_def strip_chars_def by (auto dest!: set_dropWhileD)

lemma collapse_set: "set (collapse seen s) \<subseteq> insert (CHR '' '') (set s)"
  by (induction seen s rule: collapse.induct) auto

lemma blank_out_set: "c \<in> set (blank_out P s) \<Longrightarrow> c = CHR '' '' \<or> \<not> P (of_char c)"
  by (auto simp: blank_out_def)

lemma printable_blank: "printable (CHR '' '')"
  by (simp add: printable_def header_control_def)

lemma escape_header_printable: "c \<in> set (escape_header_value s) \<Longrightarrow> printable c"
  using py_strip_subset [of "collapse False (blank_out header_control s)"]
    collapse_set [of False "blank_out header_control s"] blank_out_set [of c header_control s] printable_blank
  by (auto simp: escape_header_value_def printable_def)

lemma printable_no_break: "\<forall>c \<in> set s. printable c \<Longrightarrow> \<not> line_break s"
  by (auto simp: line_break_def printable_def header_control_def)

text \<open>
  Whatever a resource is called, the subject of each of the four e-mails consists of
  printable characters: it cannot break out of its header, and the SMTP adapter refuses no
  message for it.
\<close>

theorem subjects_single_line:
  assumes "render_booking_confirmed local name s e origin = Inr (subject, body)
    \<or> render_booking_cancelled local name s e origin = Inr (subject, body)
    \<or> render_waitlist_offered local name s e x origin = Inr (subject, body)
    \<or> render_hold_expired local name s e origin = Inr (subject, body)"
  shows "(\<forall>c \<in> set subject. printable c) \<and>
    (line_break (em_to message) \<or> em_subject message \<noteq> subject \<or>
     send_sync True (\<lambda>_. Accepted) message = Inr (em_message_id message))"
proof -
  define ps where "ps = [''Booking Confirmed: '', ''Booking Cancelled: '', ''Waitlist Offer: '', ''Waitlist Hold Expired: '']"
  have "list_all (list_all printable) ps" unfolding ps_def by code_simp
  moreover have "\<exists>p \<in> set ps. subject = p @ escape_header_value name"
    using assms unfolding ps_def
    by (elim disjE) (auto simp: render_booking_confirmed_def render_booking_cancelled_def render_waitlist_offered_def
        render_hold_expired_def bind_r_Inr)
  ultimately have "\<forall>c \<in> set subject. printable c" using escape_header_printable by (auto simp: list_all_iff)
  then show ?thesis using printable_no_break by (auto simp: send_sync_def)
qed

lemma ex_rendered:
  "\<exists>body. render_hold_expired (\<lambda>_. ''x'') [CHR 0x0D] (utc_datetime 0) (utc_datetime 0) [] = Inr (''Waitlist Hold Expired: '', body)"
proof -
  have t: "as_utc_now (utc_datetime 0) = Inr 0" and h: "escape_header_value [CHR 0x0D] = []" by code_simp+
  show ?thesis unfolding render_hold_expired_def format_time_pair_def t h by (simp add: Let_def)
qed

theorem subjects_single_line_witness: "\<forall>c \<in> set ''Waitlist Hold Expired: ''. printable c"
proof -
  obtain body where
    "render_hold_expired (\<lambda>_. ''x'') [CHR 0x0D] (utc_datetime 0) (utc_datetime 0) [] = Inr (''Waitlist Hold Expired: '', body)"
    using ex_rendered ..
  from subjects_single_line [OF disjI2 [OF disjI2 [OF disjI2 [OF this]]]] show ?thesis by blast
qed

end
