(* ===== verification/Dispatcher.thy ===== *)
theory Dispatcher
imports Templates Promotion
begin

text \<open>
  The notification dispatcher (app/notifications/handler.py and OutboxDispatcher of
  app/worker.py): the receipt of a delivery, the decision to send, the message, and one turn
  of the polling loop. A dispatch is two transactions with the sending of the mail between
  them; what others commit meanwhile is a parameter of the mailer.
\<close>

section \<open>The payload\<close>

text \<open>What Python takes for false among JSON values.\<close>

definition falsy :: "json option \<Rightarrow> bool" where
  "falsy v = (v \<in> {None, Some JNull, Some (JBool False), Some (JInt 0), Some (JStr []), Some (JArr []), Some (JObj [])})"

definition payload_uuid :: "json \<Rightarrow> string \<Rightarrow> uuid result" where
  "payload_uuid payload key =
     (case json_get payload key of
        None \<Rightarrow> Inl KeyError
      | Some (JStr s) \<Rightarrow> (case parse_uuid s of None \<Rightarrow> Inl ValueError | Some u \<Rightarrow> Inr u)
      | Some _ \<Rightarrow> Inl ValueError)"

definition payload_recipient :: "json \<Rightarrow> uuid option result" where
  "payload_recipient payload =
     (if falsy (json_get payload ''recipient_id'') then Inr None
      else bind_r (payload_uuid payload ''recipient_id'') (\<lambda>u. Inr (Some u)))"

definition payload_time :: "(string \<Rightarrow> datetime option) \<Rightarrow> json \<Rightarrow> string \<Rightarrow> datetime result" where
  "payload_time fromisoformat payload key =
     (case json_get payload key of
        None \<Rightarrow> Inl KeyError
      | Some (JStr s) \<Rightarrow> (case fromisoformat s of None \<Rightarrow> Inl ValueError | Some d \<Rightarrow> Inr d)
      | Some _ \<Rightarrow> Inl ValueError)"

section \<open>The receipt\<close>

definition receipt_of :: "uuid \<Rightarrow> uuid \<Rightarrow> delivery \<Rightarrow> bool" where
  "receipt_of ev r d = (d_event_id d = ev \<and> d_recipient_id d = r \<and> d_channel d = ''email'')"

text \<open>INSERT ... ON CONFLICT (event\_id, recipient\_id, channel) DO NOTHING, then the row.\<close>

definition insert_receipt :: "delivery \<Rightarrow> db \<Rightarrow> db result" where
  "insert_receipt d w =
     (if \<exists>x \<in> set (deliveries w). receipt_of (d_event_id d) (d_recipient_id d) x then Inr w
      else if d_id d \<in> d_id ` set (deliveries w) then Inl (IntegrityError ''23505'' ''notification_deliveries_pkey'')
      else if d_event_id d \<notin> o_id ` set (outbox w)
        then Inl (IntegrityError ''23503'' ''notification_deliveries_event_id_fkey'')
      else if d_recipient_id d \<notin> u_id ` set (users w)
        then Inl (IntegrityError ''23503'' ''notification_deliveries_recipient_id_fkey'')
      else Inr (w\<lparr>deliveries := deliveries w @ [d]\<rparr>))"

definition get_or_create_receipt :: "uuid \<Rightarrow> uuid \<Rightarrow> db \<Rightarrow> (delivery \<times> db) result" where
  "get_or_create_receipt ev r w =
     (let (i, w1) = uuid4 w in
      bind_r (insert_receipt \<lparr>d_id = i, d_event_id = ev, d_recipient_id = r, d_channel = ''email'', d_state = DPending,
                d_provider_message_id = None, d_sent_at = None\<rparr> w1) (\<lambda>w2.
      bind_r (scalar_one_or_none (filter (receipt_of ev r) (deliveries w2))) (\<lambda>row.
      case row of None \<Rightarrow> Inl NoResultFound | Some d \<Rightarrow> Inr (d, w2))))"

definition update_receipt :: "uuid \<Rightarrow> uuid \<Rightarrow> (delivery \<Rightarrow> delivery) \<Rightarrow> db \<Rightarrow> db" where
  "update_receipt ev r f w = w\<lparr>deliveries := update_where (receipt_of ev r) f (deliveries w)\<rparr>"

definition mark_skipped :: "delivery \<Rightarrow> delivery" where "mark_skipped d = d\<lparr>d_state := DSkipped\<rparr>"

definition mark_sent :: "string \<Rightarrow> time \<Rightarrow> delivery \<Rightarrow> delivery" where
  "mark_sent provider_message_id now d =
     d\<lparr>d_state := DSent, d_provider_message_id := Some provider_message_id, d_sent_at := Some now\<rparr>"

section \<open>The first transaction\<close>

datatype plan = Settled | Compose string string

definition skip_receipt :: "lease \<Rightarrow> uuid \<Rightarrow> time \<Rightarrow> db \<Rightarrow> ((plan \<times> time) \<times> db) result" where
  "skip_receipt l r now w =
     bind_r (acknowledge l now (update_receipt (l_event l) r mark_skipped w)) (\<lambda>(_, w1). Inr ((Settled, now), w1))"

definition offer_gone :: "uuid \<Rightarrow> time \<Rightarrow> db \<Rightarrow> bool" where
  "offer_gone booking_id now w =
     (case find (\<lambda>b. b_id b = booking_id) (bookings w) of
        None \<Rightarrow> True
      | Some b \<Rightarrow> b_status b \<noteq> BOffered \<or> (case b_expires_at b of None \<Rightarrow> False | Some t \<Rightarrow> t \<le> now))"

definition prepare :: "lease \<Rightarrow> uuid \<Rightarrow> uuid \<Rightarrow> uuid \<Rightarrow> db \<Rightarrow> ((plan \<times> time) \<times> db) result" where
  "prepare l r booking_id resource_id w =
     (let (db_now, w1) = clock_timestamp w in
      bind_r (get_or_create_receipt (l_event l) r w1) (\<lambda>(receipt, w2).
      if d_state receipt \<in> {DSent, DSkipped}
      then bind_r (acknowledge l db_now w2) (\<lambda>(_, w3). Inr ((Settled, db_now), w3))
      else (case find (\<lambda>u. u_id u = r) (users w2) of
              None \<Rightarrow> skip_receipt l r db_now w2
            | Some u \<Rightarrow>
                if \<not> u_enabled u then skip_receipt l r db_now w2
                else if l_type l = EWaitlistOffered \<and> offer_gone booking_id db_now w2 then skip_receipt l r db_now w2
                else Inr ((Compose (case find (\<lambda>x. r_id x = resource_id) (resources w2) of
                                      None \<Rightarrow> ''Resource'' | Some x \<Rightarrow> r_name x) (u_email u), db_now), w2))))"

section \<open>The message\<close>

text \<open>ml\_send is the adapter; ml\_meanwhile what others commit while it runs.\<close>

record mailer =
  ml_origin :: string
  ml_enabled :: bool
  ml_send :: "email_message \<Rightarrow> string result"
  ml_local :: "time \<Rightarrow> string"
  ml_fromisoformat :: "string \<Rightarrow> datetime option"
  ml_meanwhile :: "db \<Rightarrow> db"

definition render_event :: "mailer \<Rightarrow> lease \<Rightarrow> string \<Rightarrow> (string \<times> string) result" where
  "render_event m l name =
     bind_r (payload_time (ml_fromisoformat m) (l_payload l) ''starts_at'') (\<lambda>s.
     bind_r (payload_time (ml_fromisoformat m) (l_payload l) ''ends_at'') (\<lambda>e.
     case l_type l of
       EBookingConfirmed \<Rightarrow> render_booking_confirmed (ml_local m) name s e (ml_origin m)
     | EBookingCancelled \<Rightarrow> render_booking_cancelled (ml_local m) name s e (ml_origin m)
     | EWaitlistOffered \<Rightarrow>
         bind_r (if falsy (json_get (l_payload l) ''expires_at'') then Inr e
                 else payload_time (ml_fromisoformat m) (l_payload l) ''expires_at'') (\<lambda>x.
         render_waitlist_offered (ml_local m) name s e x (ml_origin m))
     | EHoldExpired \<Rightarrow> render_hold_expired (ml_local m) name s e (ml_origin m)))"

definition stable_message_id :: "uuid \<Rightarrow> uuid \<Rightarrow> string" where
  "stable_message_id ev r = ''<'' @ uuid_str ev @ ''.'' @ uuid_str r @ ''@commonsbook.invalid>''"

section \<open>Dispatching\<close>

text \<open>The result also says which message the provider accepted, if any.\<close>

definition record_failure :: "lease \<Rightarrow> string \<Rightarrow> time \<Rightarrow> db \<Rightarrow> email_message option \<times> unit result \<times> db" where
  "record_failure l category now w =
     (case in_transaction (fail_lease l category now) w of
        (Inl e, w1) \<Rightarrow> (None, Inl e, w1)
      | (Inr _, w1) \<Rightarrow> (None, Inr (), w1))"

definition record_sent :: "lease \<Rightarrow> uuid \<Rightarrow> string \<Rightarrow> time \<Rightarrow> db \<Rightarrow> (bool \<times> db) result" where
  "record_sent l r provider_message_id now w =
     acknowledge l now (update_receipt (l_event l) r (mark_sent provider_message_id now) w)"

definition send_message ::
  "mailer \<Rightarrow> lease \<Rightarrow> uuid \<Rightarrow> string \<Rightarrow> string \<Rightarrow> time \<Rightarrow> db \<Rightarrow> email_message option \<times> unit result \<times> db" where
  "send_message m l r name email now w =
     (case render_event m l name of
        Inl e \<Rightarrow> (None, Inl e, w)
      | Inr (subject, body) \<Rightarrow>
          (let msg = \<lparr>em_message_id = stable_message_id (l_event l) r, em_to = email, em_subject = subject,
                      em_text_body = body\<rparr>;
               w1 = ml_meanwhile m w
           in case ml_send m msg of
                Inl (EmailDeliveryError category) \<Rightarrow> record_failure l category now w1
              | Inl _ \<Rightarrow> record_failure l ''transport'' now w1
              | Inr provider_message_id \<Rightarrow>
                  (case in_transaction (record_sent l r provider_message_id now) w1 of
                     (Inl e, w2) \<Rightarrow> (Some msg, Inl e, w2)
                   | (Inr _, w2) \<Rightarrow> (Some msg, Inr (), w2))))"

definition dispatch_event :: "mailer \<Rightarrow> lease \<Rightarrow> time \<Rightarrow> db \<Rightarrow> email_message option \<times> unit result \<times> db" where
  "dispatch_event m l now w =
     (case payload_recipient (l_payload l) of
        Inl e \<Rightarrow> (None, Inl e, w)
      | Inr None \<Rightarrow>
          (case in_transaction (acknowledge l now) w of
             (Inl e, w1) \<Rightarrow> (None, Inl e, w1)
           | (Inr _, w1) \<Rightarrow> (None, Inr (), w1))
      | Inr (Some r) \<Rightarrow>
          (case bind_r (payload_uuid (l_payload l) ''booking_id'') (\<lambda>b.
                bind_r (payload_uuid (l_payload l) ''resource_id'') (\<lambda>x. Inr (b, x))) of
             Inl e \<Rightarrow> (None, Inl e, w)
           | Inr (booking_id, resource_id) \<Rightarrow>
               (case in_transaction (prepare l r booking_id resource_id) w of
                  (Inl e, w1) \<Rightarrow> (None, Inl e, w1)
                | (Inr (Settled, _), w1) \<Rightarrow> (None, Inr (), w1)
                | (Inr (Compose name email, db_now), w1) \<Rightarrow> send_message m l r name email db_now w1)))"

text \<open>
  One turn of OutboxDispatcher.run; now and renew\_now are its two readings of the
  application clock. An exception ends the turn and keeps what has committed.
\<close>

definition dispatch_turn ::
  "mailer \<Rightarrow> (outbox_row \<Rightarrow> bool) \<Rightarrow> time \<Rightarrow> time \<Rightarrow> db \<Rightarrow> email_message option \<times> unit result \<times> db" where
  "dispatch_turn m locked now renew_now w =
     (case in_transaction (recover_stale_leases now) w of
        (Inl e, w1) \<Rightarrow> (None, Inl e, w1)
      | (Inr _, w1) \<Rightarrow>
          if \<not> ml_enabled m then (None, Inr (), w1)
          else (case in_transaction (claim_batch locked now) w1 of
                  (Inl e, w2) \<Rightarrow> (None, Inl e, w2)
                | (Inr [], w2) \<Rightarrow> (None, Inr (), w2)
                | (Inr (l # _), w2) \<Rightarrow>
                    (case in_transaction (renew_lease l renew_now) w2 of
                       (Inl e, w3) \<Rightarrow> (None, Inl e, w3)
                     | (Inr renewed, w3) \<Rightarrow>
                         if renewed then dispatch_event m l renew_now w3 else (None, Inr (), w3))))"

section \<open>Receipts\<close>

text \<open>One receipt per event and recipient, and an outbox whose rows pass their constraints.\<close>

definition mail_ok :: "db \<Rightarrow> bool" where
  "mail_ok w =
     (distinct (map (\<lambda>d. (d_event_id d, d_recipient_id d)) (deliveries w)) \<and>
      (\<forall>d \<in> set (deliveries w). d_channel d = ''email'') \<and> outbox_ok (outbox w))"

definition handled :: "db \<Rightarrow> (uuid \<times> uuid) set" where
  "handled w = {(d_event_id d, d_recipient_id d) | d. d \<in> set (deliveries w) \<and> d_state d \<noteq> DPending}"

lemma mail_ok_cong: "deliveries w' = deliveries w \<Longrightarrow> outbox w' = outbox w \<Longrightarrow> mail_ok w' = mail_ok w"
  by (simp add: mail_ok_def)

lemma handled_cong: "deliveries w' = deliveries w \<Longrightarrow> handled w' = handled w"
  by (simp add: handled_def)

lemma acknowledge_mail:
  assumes "mail_ok w"
  shows "\<exists>w'. acknowledge l now w = Inr (owns l w, w') \<and> mail_ok w' \<and> deliveries w' = deliveries w \<and> \<not> owns l w'"
proof -
  let ?f = "\<lambda>r. r\<lparr>o_status := ODelivered, o_delivered_at := Some now, o_lease_token := None, o_lease_until := None\<rparr>"
  let ?w' = "w\<lparr>outbox := update_where (owned l) ?f (outbox w)\<rparr>"
  have ok: "outbox_ok (outbox w)" using assms by (simp add: mail_ok_def)
  have "outbox_ok (update_where (owned l) ?f (outbox w))"
    using ok by (rule outbox_ok_update) (auto simp: outbox_check_iff owned_def dest: outbox_okD [OF ok])
  moreover have "\<not> owns l ?w'" by (auto simp: owns_def set_update_where owned_def)
  ultimately show ?thesis using assms acknowledge_eq [OF ok] by (simp add: mail_ok_def)
qed

lemma fail_lease_mail:
  assumes "mail_ok w"
  shows "\<exists>w'. fail_lease l c now w = Inr (owns l w, w') \<and> mail_ok w' \<and> deliveries w' = deliveries w \<and> \<not> owns l w'"
proof -
  let ?f = "\<lambda>r. r\<lparr>o_status := (if l_attempts l \<ge> 8 then ODead else OPending),
             o_available_at := (if l_attempts l \<ge> 8 then now
               else now + seconds (compute_backoff_seconds (l_event l) (l_attempts l))),
             o_lease_token := None, o_lease_until := None, o_last_error := Some (sanitize_error_category c)\<rparr>"
  let ?w' = "w\<lparr>outbox := update_where (owned l) ?f (outbox w)\<rparr>"
  have ok: "outbox_ok (outbox w)" using assms by (simp add: mail_ok_def)
  have "outbox_ok (update_where (owned l) ?f (outbox w))"
    using ok by (rule outbox_ok_update) (auto simp: outbox_check_iff owned_def dest: outbox_okD [OF ok])
  moreover have "\<not> owns l ?w'" by (auto simp: owns_def set_update_where owned_def)
  ultimately show ?thesis using assms fail_lease_eq [OF ok] by (simp add: mail_ok_def)
qed

text \<open>Settling a receipt handles exactly its event and recipient.\<close>

lemma update_receipt_mail:
  assumes "mail_ok w" "\<And>d. d_event_id (f d) = d_event_id d \<and> d_recipient_id (f d) = d_recipient_id d \<and> d_channel (f d) = d_channel d \<and> d_state (f d) \<noteq> DPending"
  shows "mail_ok (update_receipt ev r f w)" "handled w \<subseteq> handled (update_receipt ev r f w)"
    "\<exists>d \<in> set (deliveries w). receipt_of ev r d \<Longrightarrow> (ev, r) \<in> handled (update_receipt ev r f w)"
proof -
  have "map (\<lambda>d. (d_event_id d, d_recipient_id d)) (update_where (receipt_of ev r) f (deliveries w))
      = map (\<lambda>d. (d_event_id d, d_recipient_id d)) (deliveries w)"
    using assms(2) by (intro map_update_where) simp
  then show "mail_ok (update_receipt ev r f w)"
    using assms by (auto simp: mail_ok_def update_receipt_def set_update_where)
  show "handled w \<subseteq> handled (update_receipt ev r f w)"
  proof
    fix p assume "p \<in> handled w"
    then obtain d where d: "d \<in> set (deliveries w)" "d_state d \<noteq> DPending" "p = (d_event_id d, d_recipient_id d)"
      by (auto simp: handled_def)
    let ?d = "if receipt_of ev r d then f d else d"
    have "?d \<in> set (deliveries (update_receipt ev r f w))" using d(1) by (auto simp: update_receipt_def set_update_where)
    moreover have "d_state ?d \<noteq> DPending" "p = (d_event_id ?d, d_recipient_id ?d)" using d assms(2) by simp_all
    ultimately show "p \<in> handled (update_receipt ev r f w)" unfolding handled_def by blast
  qed
  assume "\<exists>d \<in> set (deliveries w). receipt_of ev r d"
  then obtain d where d: "d \<in> set (deliveries w)" "receipt_of ev r d" by blast
  then have "f d \<in> set (deliveries (update_receipt ev r f w))" by (auto simp: update_receipt_def set_update_where)
  moreover have "d_state (f d) \<noteq> DPending" "(ev, r) = (d_event_id (f d), d_recipient_id (f d))"
    using d(2) assms(2) [of d] by (simp_all add: receipt_of_def)
  ultimately show "(ev, r) \<in> handled (update_receipt ev r f w)" unfolding handled_def by blast
qed

lemma mark_simps [simp]:
  "d_event_id (mark_skipped d) = d_event_id d" "d_recipient_id (mark_skipped d) = d_recipient_id d"
  "d_channel (mark_skipped d) = d_channel d" "d_state (mark_skipped d) = DSkipped"
  "d_event_id (mark_sent p t d) = d_event_id d" "d_recipient_id (mark_sent p t d) = d_recipient_id d"
  "d_channel (mark_sent p t d) = d_channel d" "d_state (mark_sent p t d) = DSent"
  by (simp_all add: mark_skipped_def mark_sent_def)

lemma get_or_create_mail:
  assumes "mail_ok w" "get_or_create_receipt ev r w = Inr (d, w')"
  shows "mail_ok w'" "handled w' = handled w" "d \<in> set (deliveries w')" "receipt_of ev r d" "outbox w' = outbox w"
    "d_state d = DPending \<longleftrightarrow> (ev, r) \<notin> handled w"
proof -
  obtain w1 where w1: "insert_receipt \<lparr>d_id = uuid_src w (drawn w), d_event_id = ev, d_recipient_id = r, d_channel = ''email'',
        d_state = DPending, d_provider_message_id = None, d_sent_at = None\<rparr> (w\<lparr>drawn := Suc (drawn w)\<rparr>) = Inr w1"
      "scalar_one_or_none (filter (receipt_of ev r) (deliveries w1)) = Inr (Some d)" "w' = w1"
    using assms(2) by (auto simp: get_or_create_receipt_def uuid4_def bind_r_Inr split: option.splits)
  let ?new = "\<lparr>d_id = uuid_src w (drawn w), d_event_id = ev, d_recipient_id = r, d_channel = ''email'',
        d_state = DPending, d_provider_message_id = None, d_sent_at = None\<rparr>"
  have mem: "d \<in> set (filter (receipt_of ev r) (deliveries w1))"
    using w1(2) unfolding scalar_Some by (metis list.set_intros(1))
  then show dm: "d \<in> set (deliveries w')" "receipt_of ev r d" using w1(3) by auto
  consider (old) "deliveries w1 = deliveries w" "outbox w1 = outbox w" "\<exists>x \<in> set (deliveries w). receipt_of ev r x"
    | (new) "deliveries w1 = deliveries w @ [?new]" "outbox w1 = outbox w" "\<not> (\<exists>x \<in> set (deliveries w). receipt_of ev r x)"
    using w1(1) by (auto simp: insert_receipt_def split: if_splits)
  then have all: "mail_ok w1 \<and> handled w1 = handled w \<and> outbox w1 = outbox w"
  proof cases
    case old
    then show ?thesis using assms(1) by (simp add: mail_ok_def handled_def)
  next
    case new
    have "(ev, r) \<notin> (\<lambda>d. (d_event_id d, d_recipient_id d)) ` set (deliveries w)"
      using new(3) assms(1) by (auto simp: receipt_of_def mail_ok_def)
    then show ?thesis using assms(1) new(1,2) by (auto simp: mail_ok_def handled_def)
  qed
  then show ok1: "mail_ok w'" and h: "handled w' = handled w" and "outbox w' = outbox w" using w1(3) by simp_all
  have uniq: "x = d" if "x \<in> set (deliveries w')" "(d_event_id x, d_recipient_id x) = (ev, r)" for x
    using ok1 dm that distinct_key_eq [of "\<lambda>d. (d_event_id d, d_recipient_id d)" "deliveries w'" x d]
    by (simp add: mail_ok_def receipt_of_def)
  show "d_state d = DPending \<longleftrightarrow> (ev, r) \<notin> handled w"
  proof -
    have "(ev, r) \<in> handled w' \<longleftrightarrow> d_state d \<noteq> DPending"
    proof
      assume "(ev, r) \<in> handled w'"
      then obtain x where "x \<in> set (deliveries w')" "d_state x \<noteq> DPending" "(ev, r) = (d_event_id x, d_recipient_id x)"
        by (auto simp: handled_def)
      then show "d_state d \<noteq> DPending" using uniq [of x] by auto
    next
      assume "d_state d \<noteq> DPending"
      moreover have "(ev, r) = (d_event_id d, d_recipient_id d)" using dm(2) by (simp add: receipt_of_def)
      ultimately show "(ev, r) \<in> handled w'" using dm(1) unfolding handled_def by blast
    qed
    then show ?thesis using h by auto
  qed
qed

section \<open>A dispatch and its receipt\<close>

lemma begin_tx_mail [simp]:
  "mail_ok (begin_tx w) = mail_ok w" "handled (begin_tx w) = handled w" "deliveries (begin_tx w) = deliveries w"
  "outbox (begin_tx w) = outbox w"
  by (simp_all add: begin_tx_def mail_ok_def handled_def)

lemma ticks_mail [simp]: "mail_ok (w\<lparr>ticks := n\<rparr>) = mail_ok w" "handled (w\<lparr>ticks := n\<rparr>) = handled w"
  by (simp_all add: mail_ok_def handled_def)

text \<open>
  The first transaction: it settles the lease when there is nothing to send, and otherwise
  leaves a pending receipt behind.
\<close>

lemma prepare_mail:
  assumes ok: "mail_ok w" and run: "prepare l r b x w = Inr ((p, now), w')"
  shows "mail_ok w'" "handled w \<subseteq> handled w'"
    "p = Settled \<Longrightarrow> \<not> owns l w'"
    "p = Compose n e \<Longrightarrow> (l_event l, r) \<notin> handled w' \<and> (\<exists>d \<in> set (deliveries w'). receipt_of (l_event l) r d)"
proof -
  let ?w1 = "w\<lparr>ticks := Suc (ticks w)\<rparr>" and ?now = "clock w (ticks w)"
  obtain d w2 where d: "get_or_create_receipt (l_event l) r ?w1 = Inr (d, w2)"
    using run by (auto simp: prepare_def clock_timestamp_def bind_r_Inr)
  have "mail_ok ?w1" using ok by simp
  note got = get_or_create_mail [OF this d]
  have skip: "mail_ok w'' \<and> handled w2 \<subseteq> handled w'' \<and> q = Settled \<and> \<not> owns l w''"
    if "skip_receipt l r ?now w2 = Inr ((q, t), w'')" for q t w''
  proof -
    note up = update_receipt_mail [of w2 mark_skipped "l_event l" r, OF got(1)]
    obtain w3 where "acknowledge l ?now (update_receipt (l_event l) r mark_skipped w2) = Inr (owns l (update_receipt (l_event l) r mark_skipped w2), w3)"
        "mail_ok w3" "deliveries w3 = deliveries (update_receipt (l_event l) r mark_skipped w2)" "\<not> owns l w3"
      using acknowledge_mail [OF up(1)] by auto
    then show ?thesis using that up(2) handled_cong [of w3] by (auto simp: skip_receipt_def)
  qed
  have "(mail_ok w' \<and> handled w2 \<subseteq> handled w' \<and> p = Settled \<and> \<not> owns l w')
      \<or> (w' = w2 \<and> d_state d = DPending \<and> (\<exists>n e. p = Compose n e))"
  proof (cases "d_state d \<in> {DSent, DSkipped}")
    case True
    obtain w3 where "acknowledge l ?now w2 = Inr (owns l w2, w3)" "mail_ok w3" "deliveries w3 = deliveries w2" "\<not> owns l w3"
      using acknowledge_mail [OF got(1)] by blast
    then show ?thesis using True run d handled_cong [of w3 w2] by (auto simp: prepare_def clock_timestamp_def)
  next
    case False
    then have pend: "d_state d = DPending" by (cases "d_state d") auto
    show ?thesis
      using run d False pend skip
      by (auto simp: prepare_def clock_timestamp_def split: option.splits if_splits)
  qed
  then show "mail_ok w'" "handled w \<subseteq> handled w'" "p = Settled \<Longrightarrow> \<not> owns l w'"
    "p = Compose n e \<Longrightarrow> (l_event l, r) \<notin> handled w' \<and> (\<exists>d \<in> set (deliveries w'). receipt_of (l_event l) r d)"
    using got by auto
qed

text \<open>What others do while the mail is sent must leave the receipts and the outbox in order.\<close>

definition considerate :: "(db \<Rightarrow> db) \<Rightarrow> bool" where
  "considerate f = (\<forall>w. mail_ok w \<longrightarrow> mail_ok (f w) \<and> deliveries (f w) = deliveries w)"

lemma record_failure_mail:
  assumes "mail_ok w"
  shows "\<exists>w'. record_failure l c now w = (None, Inr (), w') \<and> mail_ok w' \<and> handled w' = handled w \<and> \<not> owns l w'"
proof -
  obtain w' where "fail_lease l c now (begin_tx w) = Inr (owns l (begin_tx w), w')" "mail_ok w'"
      "deliveries w' = deliveries (begin_tx w)" "\<not> owns l w'"
    using fail_lease_mail [of "begin_tx w" l c now] assms by auto
  then show ?thesis using handled_cong [of w' w] by (simp add: record_failure_def in_transaction_def)
qed

lemma record_sent_mail:
  assumes "mail_ok w" "\<exists>d \<in> set (deliveries w). receipt_of (l_event l) r d"
  shows "\<exists>b w'. in_transaction (record_sent l r pid now) w = (Inr b, w') \<and> mail_ok w' \<and> handled w \<subseteq> handled w' \<and>
    (l_event l, r) \<in> handled w' \<and> \<not> owns l w'"
proof -
  let ?w1 = "update_receipt (l_event l) r (mark_sent pid now) (begin_tx w)"
  have "mail_ok (begin_tx w)" using assms(1) by simp
  note up = update_receipt_mail [of "begin_tx w" "mark_sent pid now" "l_event l" r, OF this]
  obtain w' where "acknowledge l now ?w1 = Inr (owns l ?w1, w')" "mail_ok w'" "deliveries w' = deliveries ?w1" "\<not> owns l w'"
    using acknowledge_mail [OF up(1), of l now] by auto
  then show ?thesis
    using up assms(2) handled_cong [of w' ?w1] by (auto simp: in_transaction_def record_sent_def)
qed

text \<open>
  A dispatch, whatever the adapter answers: it settles the lease when it ends without an
  exception, and a message leaves only for a receipt that is still open and is closed by it.
\<close>

lemma send_message_mail:
  assumes ok: "mail_ok w" and still: "\<exists>d \<in> set (deliveries w). receipt_of (l_event l) r d" "(l_event l, r) \<notin> handled w"
    and others: "considerate (ml_meanwhile m)" and run: "send_message m l r n e now w = (out, res, w')"
  shows "mail_ok w'" "handled w \<subseteq> handled w'" "res = Inr () \<Longrightarrow> \<not> owns l w'"
    "out = Some msg \<Longrightarrow> em_message_id msg = stable_message_id (l_event l) r \<and> (l_event l, r) \<in> handled w'"
proof -
  have "mail_ok w' \<and> handled w \<subseteq> handled w' \<and> (res = Inr () \<longrightarrow> \<not> owns l w') \<and>
    (\<forall>msg. out = Some msg \<longrightarrow> em_message_id msg = stable_message_id (l_event l) r \<and> (l_event l, r) \<in> handled w')"
  proof (cases "render_event m l n")
    case (Inl x)
    then show ?thesis using run ok by (auto simp: send_message_def)
  next
    case (Inr sb)
    obtain subject body where sb: "sb = (subject, body)" by fastforce
    let ?msg = "\<lparr>em_message_id = stable_message_id (l_event l) r, em_to = e, em_subject = subject, em_text_body = body\<rparr>"
    let ?w1 = "ml_meanwhile m w"
    have w1: "mail_ok ?w1" "deliveries ?w1 = deliveries w" using others ok by (simp_all add: considerate_def)
    then have h: "handled ?w1 = handled w" and there: "\<exists>d \<in> set (deliveries ?w1). receipt_of (l_event l) r d"
      using still(1) by (simp_all add: handled_def)
    have step: "send_message m l r n e now w =
        (case ml_send m ?msg of
           Inl (EmailDeliveryError c) \<Rightarrow> record_failure l c now ?w1
         | Inl _ \<Rightarrow> record_failure l ''transport'' now ?w1
         | Inr pid \<Rightarrow> (case in_transaction (record_sent l r pid now) ?w1 of
             (Inl x, w2) \<Rightarrow> (Some ?msg, Inl x, w2) | (Inr _, w2) \<Rightarrow> (Some ?msg, Inr (), w2)))"
      using Inr by (simp add: send_message_def sb Let_def)
    show ?thesis
    proof (cases "ml_send m ?msg")
      case (Inl x)
      then obtain c where c: "send_message m l r n e now w = record_failure l c now ?w1"
        unfolding step by (cases x) auto
      obtain w2 where "record_failure l c now ?w1 = (None, Inr (), w2)" "mail_ok w2" "handled w2 = handled ?w1" "\<not> owns l w2"
        using record_failure_mail [OF w1(1)] by blast
      then show ?thesis using run c h by simp
    next
      case (Inr pid)
      obtain b w2 where "in_transaction (record_sent l r pid now) ?w1 = (Inr b, w2)" "mail_ok w2"
          "handled ?w1 \<subseteq> handled w2" "(l_event l, r) \<in> handled w2" "\<not> owns l w2"
        using record_sent_mail [OF w1(1) there] by blast
      then show ?thesis using run Inr h unfolding step by auto
    qed
  qed
  then show "mail_ok w'" "handled w \<subseteq> handled w'" "res = Inr () \<Longrightarrow> \<not> owns l w'"
    "out = Some msg \<Longrightarrow> em_message_id msg = stable_message_id (l_event l) r \<and> (l_event l, r) \<in> handled w'"
    by auto
qed

lemma dispatch_event_mail:
  assumes ok: "mail_ok w" and others: "considerate (ml_meanwhile m)" and run: "dispatch_event m l now w = (out, res, w')"
  shows "mail_ok w' \<and> handled w \<subseteq> handled w' \<and> (res = Inr () \<longrightarrow> \<not> owns l w') \<and>
    (\<forall>msg. out = Some msg \<longrightarrow> (\<exists>r. em_message_id msg = stable_message_id (l_event l) r \<and>
       (l_event l, r) \<notin> handled w \<and> (l_event l, r) \<in> handled w'))"
proof (cases "payload_recipient (l_payload l)")
  case (Inl e)
  then show ?thesis using run ok by (auto simp: dispatch_event_def)
next
  case (Inr ro)
  show ?thesis
  proof (cases ro)
    case None
    obtain w1 where "acknowledge l now (begin_tx w) = Inr (owns l (begin_tx w), w1)" "mail_ok w1"
        "deliveries w1 = deliveries (begin_tx w)" "\<not> owns l w1"
      using acknowledge_mail [of "begin_tx w" l now] ok by auto
    then show ?thesis
      using run Inr None handled_cong [of w1 w] by (auto simp: dispatch_event_def in_transaction_def)
  next
    case (Some r)
    show ?thesis
    proof (cases "bind_r (payload_uuid (l_payload l) ''booking_id'') (\<lambda>b.
        bind_r (payload_uuid (l_payload l) ''resource_id'') (\<lambda>x. Inr (b, x)))")
      case (Inl e)
      then show ?thesis using run ok \<open>payload_recipient (l_payload l) = Inr ro\<close> Some by (auto simp: dispatch_event_def)
    next
      case ids: (Inr bx)
      obtain b x where bx: "bx = (b, x)" by fastforce
      have step: "dispatch_event m l now w =
          (case in_transaction (prepare l r b x) w of
             (Inl e, w1) \<Rightarrow> (None, Inl e, w1)
           | (Inr (Settled, _), w1) \<Rightarrow> (None, Inr (), w1)
           | (Inr (Compose name email, db_now), w1) \<Rightarrow> send_message m l r name email db_now w1)"
        using \<open>payload_recipient (l_payload l) = Inr ro\<close> Some ids by (simp add: dispatch_event_def bx)
      show ?thesis
      proof (cases "prepare l r b x (begin_tx w)")
        case (Inl e)
        then show ?thesis using run ok unfolding step by (auto simp: in_transaction_def)
      next
        case prep: (Inr z)
        obtain p t w1 where z: "z = ((p, t), w1)" by (metis prod.collapse)
        have prep': "prepare l r b x (begin_tx w) = Inr ((p, t), w1)" using prep z by simp
        have "mail_ok (begin_tx w)" using ok by simp
        note got = prepare_mail [OF this prep']
        show ?thesis
        proof (cases p)
          case Settled
          then show ?thesis using run prep' got unfolding step by (auto simp: in_transaction_def)
        next
          case (Compose n e)
          have "send_message m l r n e t w1 = (out, res, w')"
            using run prep' Compose unfolding step by (simp add: in_transaction_def)
          from send_message_mail [OF got(1) _ _ others this] got(2) got(4) [OF Compose] show ?thesis by auto
        qed
      qed
    qed
  qed
qed

lemma stable_message_id_inj: "stable_message_id ev r = stable_message_id ev' r' \<longleftrightarrow> ev = ev' \<and> r = r'"
proof
  have len: "length (uuid_str u) = 36" for u by (simp add: uuid_str_def Let_def)
  assume "stable_message_id ev r = stable_message_id ev' r'"
  then have "uuid_str ev = uuid_str ev' \<and> uuid_str r = uuid_str r'"
    using len by (simp add: stable_message_id_def)
  then show "ev = ev' \<and> r = r'" using parse_uuid_str by (metis option.inject)
qed simp

section \<open>Properties\<close>

text \<open>
  A dispatch in two parts: up to the moment the provider has accepted the message, with its
  first transaction committed, and the transaction that records it. Others may commit in
  between, or the process may die there.
\<close>

record flight =
  f_lease :: lease
  f_recipient :: uuid
  f_message :: email_message
  f_provider_id :: string
  f_now :: time

definition depart :: "mailer \<Rightarrow> lease \<Rightarrow> db \<Rightarrow> (flight \<times> db) option" where
  "depart m l w =
     (case payload_recipient (l_payload l) of
        Inr (Some r) \<Rightarrow>
          (case bind_r (payload_uuid (l_payload l) ''booking_id'') (\<lambda>b.
                bind_r (payload_uuid (l_payload l) ''resource_id'') (\<lambda>x. Inr (b, x))) of
             Inl e \<Rightarrow> None
           | Inr (booking_id, resource_id) \<Rightarrow>
               (case in_transaction (prepare l r booking_id resource_id) w of
                  (Inr (Compose name email, db_now), w1) \<Rightarrow>
                    (case render_event m l name of
                       Inl e \<Rightarrow> None
                     | Inr (subject, body) \<Rightarrow>
                         (let msg = \<lparr>em_message_id = stable_message_id (l_event l) r, em_to = email,
                                     em_subject = subject, em_text_body = body\<rparr>
                          in case ml_send m msg of
                               Inl e \<Rightarrow> None
                             | Inr pid \<Rightarrow> Some (\<lparr>f_lease = l, f_recipient = r, f_message = msg,
                                 f_provider_id = pid, f_now = db_now\<rparr>, w1)))
                | _ \<Rightarrow> None))
      | _ \<Rightarrow> None)"

definition arrive :: "flight \<Rightarrow> db \<Rightarrow> bool result \<times> db" where
  "arrive f = in_transaction (record_sent (f_lease f) (f_recipient f) (f_provider_id f) (f_now f))"

definition flight_key :: "flight \<Rightarrow> uuid \<times> uuid" where
  "flight_key f = (l_event (f_lease f), f_recipient f)"

text \<open>A dispatch with a message is these two parts, with what others commit in between.\<close>

lemma dispatch_event_splits:
  "(\<exists>res. dispatch_event m l now w = (Some msg, res, w')) \<longleftrightarrow>
   (\<exists>f w1 res. depart m l w = Some (f, w1) \<and> f_message f = msg \<and> arrive f (ml_meanwhile m w1) = (res, w'))"
  by (auto simp: dispatch_event_def depart_def arrive_def send_message_def record_failure_def Let_def
      split: sum.splits option.splits prod.splits plan.splits exn.splits)

lemma depart_cases:
  assumes "depart m l w = Some (f, w')"
  obtains b x n e t where "prepare l (f_recipient f) b x (begin_tx w) = Inr ((Compose n e, t), w')" "f_lease f = l"
    "em_message_id (f_message f) = stable_message_id (l_event l) (f_recipient f)"
  using assms by (auto simp: depart_def in_transaction_def Let_def
      split: sum.splits option.splits prod.splits plan.splits)

text \<open>What others do must keep the receipts: none is removed, and none that is settled opens again.\<close>

definition receipts :: "db \<Rightarrow> (uuid \<times> uuid) set" where
  "receipts w = (\<lambda>d. (d_event_id d, d_recipient_id d)) ` set (deliveries w)"

definition receipts_kept :: "db \<Rightarrow> db \<Rightarrow> bool" where
  "receipts_kept w w' \<longleftrightarrow> mail_ok w' \<and> handled w \<subseteq> handled w' \<and> receipts w \<subseteq> receipts w'"

lemma receipts_iff: "mail_ok w \<Longrightarrow> (ev, r) \<in> receipts w \<longleftrightarrow> (\<exists>d \<in> set (deliveries w). receipt_of ev r d)"
  by (auto simp: receipts_def receipt_of_def mail_ok_def)

lemma get_or_create_more:
  assumes "get_or_create_receipt ev r w = Inr (d, w')"
  shows "set (deliveries w) \<subseteq> set (deliveries w')"
proof -
  obtain x where "insert_receipt x (w\<lparr>drawn := Suc (drawn w)\<rparr>) = Inr w'"
    using assms by (auto simp: get_or_create_receipt_def uuid4_def bind_r_Inr split: option.splits)
  then show ?thesis by (auto simp: insert_receipt_def split: if_splits)
qed

lemma depart_mail:
  assumes ok: "mail_ok w" and d: "depart m l w = Some (f, w')"
  shows "receipts_kept w w'" "flight_key f \<notin> handled w" "flight_key f \<in> receipts w'"
proof -
  obtain b x n e t where p: "prepare l (f_recipient f) b x (begin_tx w) = Inr ((Compose n e, t), w')" "f_lease f = l"
    using d by (rule depart_cases)
  have "mail_ok (begin_tx w)" using ok by simp
  note got = prepare_mail [OF this p(1)]
  have h: "handled w \<subseteq> handled w'" using got(2) by simp
  obtain d' where "get_or_create_receipt (l_event l) (f_recipient f) ((begin_tx w)\<lparr>ticks := Suc (ticks (begin_tx w))\<rparr>) = Inr (d', w')"
    using p(1) by (auto simp: prepare_def clock_timestamp_def bind_r_Inr skip_receipt_def split: if_splits option.splits)
  from get_or_create_more [OF this] have "receipts w \<subseteq> receipts w'" by (auto simp: receipts_def begin_tx_def)
  then show "receipts_kept w w'" using got(1) h by (simp add: receipts_kept_def)
  show "flight_key f \<notin> handled w" "flight_key f \<in> receipts w'"
    using got(4) [OF refl] h receipts_iff [OF got(1)] p(2) by (auto simp: flight_key_def)
qed

lemma arrive_mail:
  assumes ok: "mail_ok w" and there: "flight_key f \<in> receipts w" and a: "arrive f w = (res, w')"
  shows "\<exists>b. res = Inr b" "receipts_kept w w'" "flight_key f \<in> handled w'"
proof -
  have "\<exists>d \<in> set (deliveries w). receipt_of (l_event (f_lease f)) (f_recipient f) d"
    using there receipts_iff [OF ok] by (simp add: flight_key_def)
  from record_sent_mail [OF ok this, of "f_provider_id f" "f_now f"]
  have r: "(\<exists>b. res = Inr b) \<and> mail_ok w' \<and> handled w \<subseteq> handled w' \<and> flight_key f \<in> handled w'"
    using a by (auto simp: arrive_def flight_key_def)
  let ?u = "update_receipt (l_event (f_lease f)) (f_recipient f) (mark_sent (f_provider_id f) (f_now f)) (begin_tx w)"
  have "mail_ok ?u" using update_receipt_mail(1) [of "begin_tx w"] ok by simp
  from acknowledge_mail [OF this, of "f_lease f" "f_now f"] obtain w2 where
    "acknowledge (f_lease f) (f_now f) ?u = Inr (owns (f_lease f) ?u, w2)" "deliveries w2 = deliveries ?u"
    by blast
  then have "deliveries w' = deliveries ?u" using a by (simp add: arrive_def in_transaction_def record_sent_def)
  moreover have "map (\<lambda>d. (d_event_id d, d_recipient_id d)) (deliveries ?u) = map (\<lambda>d. (d_event_id d, d_recipient_id d)) (deliveries w)"
    unfolding update_receipt_def begin_tx_def by (simp, intro map_update_where) simp
  ultimately have "receipts w' = receipts w" unfolding receipts_def set_map [symmetric] by simp
  then show "\<exists>b. res = Inr b" "receipts_kept w w'" "flight_key f \<in> handled w'"
    using r by (simp_all add: receipts_kept_def)
qed

text \<open>
  The dispatchers and everybody else, in any order, with the history of the messages: sent
  (the provider has accepted one), recorded, or lost (the process died before recording it).
  Any number of dispatchers may hold messages in flight, for the same event too.
\<close>

datatype mail_event = Sent "uuid \<times> uuid" | Recorded "uuid \<times> uuid" | Lost "uuid \<times> uuid"

inductive mail_run :: "db \<Rightarrow> db \<Rightarrow> flight list \<Rightarrow> mail_event list \<Rightarrow> bool" for w0 where
  begun: "mail_run w0 w0 [] []"
| departed: "mail_run w0 w fl h \<Longrightarrow> depart m l w = Some (f, w') \<Longrightarrow> mail_run w0 w' (f # fl) (h @ [Sent (flight_key f)])"
| arrived: "mail_run w0 w fl h \<Longrightarrow> f \<in> set fl \<Longrightarrow> arrive f w = (res, w')
    \<Longrightarrow> mail_run w0 w' (remove1 f fl) (h @ [Recorded (flight_key f)])"
| died: "mail_run w0 w fl h \<Longrightarrow> f \<in> set fl \<Longrightarrow> mail_run w0 w (remove1 f fl) (h @ [Lost (flight_key f)])"
| others: "mail_run w0 w fl h \<Longrightarrow> receipts_kept w w' \<Longrightarrow> mail_run w0 w' fl h"

text \<open>A message leaves only while nothing is recorded for its event and recipient.\<close>

definition sent_open :: "db \<Rightarrow> mail_event list \<Rightarrow> bool" where
  "sent_open w0 h = (\<forall>h1 h2 k. h = h1 @ Sent k # h2 \<longrightarrow> Recorded k \<notin> set h1 \<and> k \<notin> handled w0)"

lemma sent_open_snoc:
  "sent_open w0 (h @ [x]) \<longleftrightarrow> sent_open w0 h \<and> (\<forall>k. x = Sent k \<longrightarrow> Recorded k \<notin> set h \<and> k \<notin> handled w0)"
  unfolding sent_open_def
  by (auto simp: append_eq_append_conv2 append_eq_Cons_conv Cons_eq_append_conv split: list.splits; metis append_Nil2 append_assoc append_Cons)

lemma mail_run_keeps:
  assumes "mail_run w0 w fl h" "mail_ok w0"
  shows "mail_ok w \<and> handled w0 \<subseteq> handled w \<and> (\<forall>f \<in> set fl. flight_key f \<in> receipts w) \<and>
    (\<forall>k. Recorded k \<in> set h \<longrightarrow> k \<in> handled w) \<and> sent_open w0 h"
  using assms
proof (induction rule: mail_run.induct)
  case begun
  then show ?case by (simp add: sent_open_def)
next
  case (departed w fl h m l f w')
  then have IH: "mail_ok w" "handled w0 \<subseteq> handled w" "\<forall>f \<in> set fl. flight_key f \<in> receipts w"
    "\<forall>k. Recorded k \<in> set h \<longrightarrow> k \<in> handled w" "sent_open w0 h" by auto
  note d = depart_mail [OF IH(1) departed.hyps(2)]
  have "Recorded (flight_key f) \<notin> set h" "flight_key f \<notin> handled w0" using IH(2,4) d(2) by blast+
  then have "sent_open w0 (h @ [Sent (flight_key f)])" using IH(5) by (simp add: sent_open_snoc)
  then show ?case using IH(2-4) d by (auto simp: receipts_kept_def)
next
  case (arrived w fl h f res w')
  then have IH: "mail_ok w" "handled w0 \<subseteq> handled w" "\<forall>f \<in> set fl. flight_key f \<in> receipts w"
    "\<forall>k. Recorded k \<in> set h \<longrightarrow> k \<in> handled w" "sent_open w0 h" by auto
  have "flight_key f \<in> receipts w" using IH(3) arrived.hyps(2) by blast
  note a = arrive_mail [OF IH(1) this arrived.hyps(3)]
  have "set (remove1 f fl) \<subseteq> set fl" by (rule set_remove1_subset)
  then show ?case using IH a by (auto simp: receipts_kept_def sent_open_snoc)
next
  case (died w fl h f)
  have "set (remove1 f fl) \<subseteq> set fl" by (rule set_remove1_subset)
  then show ?case using died by (auto simp: sent_open_snoc)
next
  case (others w fl h w')
  then show ?case by (auto simp: receipts_kept_def)
qed

text \<open>
  One dispatcher at a time on an event and recipient: each message leaves when those sent
  before it have been recorded or lost. This is what the lease is for, as long as no
  dispatcher outlives it.
\<close>

definition one_at_a_time :: "uuid \<times> uuid \<Rightarrow> mail_event list \<Rightarrow> bool" where
  "one_at_a_time k h = (\<forall>h1 h2. h = h1 @ Sent k # h2 \<longrightarrow>
     count_list h1 (Sent k) = count_list h1 (Recorded k) + count_list h1 (Lost k))"

lemma one_at_a_time_bound:
  assumes "sent_open w0 h" "one_at_a_time k h"
  shows "count_list h (Sent k) \<le> 1 + count_list h (Lost k)"
proof (cases "Sent k \<in> set h")
  case False
  then show ?thesis by (simp add: count_list_0_iff)
next
  case True
  then obtain h1 h2 where h: "h = h1 @ Sent k # h2" "Sent k \<notin> set h2" using split_list_last by metis
  then have "Recorded k \<notin> set h1" using assms(1) unfolding sent_open_def by blast
  then have "count_list h1 (Sent k) = count_list h1 (Lost k)"
    using assms(2) h(1) by (auto simp: one_at_a_time_def count_list_0_iff)
  moreover have "count_list h2 (Sent k) = 0" using h(2) by (simp add: count_list_0_iff)
  ultimately show ?thesis by (simp add: h(1))
qed


text \<open>
  A dispatch that ends without an exception always lets go of its lease: the event is
  delivered, put back for a later attempt or dead, but never left in processing.
\<close>

theorem dispatch_settles_lease:
  assumes "mail_ok w" "considerate (ml_meanwhile m)" "dispatch_event m l now w = (out, Inr (), w')"
  shows "mail_ok w' \<and> (\<forall>row \<in> set (outbox w'). \<not> owned l row)"
  using dispatch_event_mail [OF assms] by (auto simp: owns_def)

text \<open>An event of user 101 in processing, whose mail the provider accepts.\<close>

definition ex_mail_payload :: json where
  "ex_mail_payload = JObj [(''recipient_id'', JStr (uuid_str 101)), (''booking_id'', JStr (uuid_str 8)),
     (''resource_id'', JStr (uuid_str 1000)), (''starts_at'', JStr ''s''), (''ends_at'', JStr ''e'')]"

definition ex_mail_lease :: lease where "ex_mail_lease = ex_lease\<lparr>l_payload := ex_mail_payload\<rparr>"

definition ex_mailer :: mailer where
  "ex_mailer = \<lparr>ml_origin = [], ml_enabled = True, ml_send = console_send, ml_local = (\<lambda>_. ''x''),
     ml_fromisoformat = (\<lambda>_. Some (utc_datetime 0)), ml_meanwhile = (\<lambda>w. w)\<rparr>"

definition ex_mail_db :: db where
  "ex_mail_db = (empty_db 0)\<lparr>users := [ex_user 101 Member], outbox := [ex_row\<lparr>o_payload := ex_mail_payload\<rparr>]\<rparr>"

lemma uuid_str_not_empty [simp]: "uuid_str u \<noteq> []"
  by (simp add: uuid_str_def Let_def)

lemma ex_mailer_simps: "ml_send ex_mailer = console_send" "ml_meanwhile ex_mailer = (\<lambda>w. w)"
  by (simp_all add: ex_mailer_def)

lemma ex_mail_ok: "mail_ok ex_mail_db"
  by (simp add: mail_ok_def ex_mail_db_def empty_db_def ex_row_def ex_mail_payload_def outbox_ok_def outbox_check_iff)

lemma ex_dispatched:
  "\<exists>msg w'. dispatch_event ex_mailer ex_mail_lease 5 ex_mail_db = (Some msg, Inr (), w')"
proof -
  have t: "as_utc_now (utc_datetime 0) = Inr 0" by code_simp
  have "\<exists>body. render_event ex_mailer ex_mail_lease n = Inr (''Waitlist Hold Expired: '' @ escape_header_value n, body)" for n
    unfolding render_event_def render_hold_expired_def format_time_pair_def payload_time_def
    by (simp add: ex_mail_lease_def ex_lease_def ex_mail_payload_def ex_mailer_def t Let_def)
  then obtain body where body: "render_event ex_mailer ex_mail_lease ''Resource'' = Inr (''Waitlist Hold Expired: '' @ escape_header_value ''Resource'', body)"
    by blast
  obtain w1 where prep: "prepare ex_mail_lease 101 8 1000 (begin_tx ex_mail_db) = Inr ((Compose ''Resource'' ''a@b.c'', 0), w1)"
    by (simp add: prepare_def clock_timestamp_def begin_tx_def ex_mail_db_def empty_db_def get_or_create_receipt_def uuid4_def
        insert_receipt_def receipt_of_def scalar_one_or_none_def ex_mail_lease_def ex_lease_def ex_row_def ex_user_def)
  have "mail_ok (begin_tx ex_mail_db)" using ex_mail_ok by simp
  note got = prepare_mail [OF this prep]
  let ?msg = "\<lparr>em_message_id = stable_message_id (l_event ex_mail_lease) 101, em_to = ''a@b.c'',
     em_subject = ''Waitlist Hold Expired: '' @ escape_header_value ''Resource'', em_text_body = body\<rparr>"
  have "\<exists>d \<in> set (deliveries w1). receipt_of (l_event ex_mail_lease) 101 d" using got(4) by simp
  from record_sent_mail [OF got(1) this, of "em_message_id ?msg" 0] obtain b w2 where
    sent: "in_transaction (record_sent ex_mail_lease 101 (em_message_id ?msg) 0) w1 = (Inr b, w2)" by blast
  have "send_message ex_mailer ex_mail_lease 101 ''Resource'' ''a@b.c'' 0 w1 = (Some ?msg, Inr (), w2)"
    using sent by (simp add: send_message_def body ex_mailer_simps console_send_def Let_def)
  moreover have "payload_recipient (l_payload ex_mail_lease) = Inr (Some 101)"
      "payload_uuid (l_payload ex_mail_lease) ''booking_id'' = Inr 8" "payload_uuid (l_payload ex_mail_lease) ''resource_id'' = Inr 1000"
    by (simp_all add: payload_recipient_def payload_uuid_def falsy_def ex_mail_lease_def ex_mail_payload_def parse_uuid_str)
  ultimately have "dispatch_event ex_mailer ex_mail_lease 5 ex_mail_db = (Some ?msg, Inr (), w2)"
    using prep by (simp add: dispatch_event_def in_transaction_def)
  then show ?thesis by blast
qed

lemma ex_mailer_considerate: "considerate (ml_meanwhile ex_mailer)"
  by (simp add: considerate_def ex_mailer_def)

text \<open>The same event sent twice, the first sender having died before it recorded the message.\<close>

definition ex_mail_state :: "db \<Rightarrow> bool" where
  "ex_mail_state w \<longleftrightarrow> users w = [ex_user 101 Member] \<and> resources w = [] \<and> outbox w = outbox ex_mail_db \<and>
     (deliveries w = [] \<or> (\<exists>d. deliveries w = [d] \<and> receipt_of 7 101 d \<and> d_state d = DPending))"

lemma ex_departs:
  assumes "ex_mail_state w"
  shows "\<exists>f w'. depart ex_mailer ex_mail_lease w = Some (f, w') \<and> flight_key f = (7, 101) \<and> ex_mail_state w'"
proof -
  have t: "as_utc_now (utc_datetime 0) = Inr 0" by code_simp
  have "\<exists>body. render_event ex_mailer ex_mail_lease n = Inr (''Waitlist Hold Expired: '' @ escape_header_value n, body)" for n
    unfolding render_event_def render_hold_expired_def format_time_pair_def payload_time_def
    by (simp add: ex_mail_lease_def ex_lease_def ex_mail_payload_def ex_mailer_def t Let_def)
  then obtain body where body: "render_event ex_mailer ex_mail_lease ''Resource'' = Inr (''Waitlist Hold Expired: '' @ escape_header_value ''Resource'', body)"
    by blast
  have "\<exists>t w'. prepare ex_mail_lease 101 8 1000 (begin_tx w) = Inr ((Compose ''Resource'' ''a@b.c'', t), w') \<and> ex_mail_state w'"
    using assms by (auto simp: ex_mail_state_def prepare_def clock_timestamp_def begin_tx_def get_or_create_receipt_def uuid4_def
        insert_receipt_def receipt_of_def scalar_one_or_none_def ex_mail_lease_def ex_lease_def ex_mail_db_def ex_row_def ex_user_def)
  then obtain t w' where prep: "prepare ex_mail_lease 101 8 1000 (begin_tx w) = Inr ((Compose ''Resource'' ''a@b.c'', t), w')"
      "ex_mail_state w'" by blast
  moreover have "payload_recipient (l_payload ex_mail_lease) = Inr (Some 101)"
      "payload_uuid (l_payload ex_mail_lease) ''booking_id'' = Inr 8" "payload_uuid (l_payload ex_mail_lease) ''resource_id'' = Inr 1000"
    by (simp_all add: payload_recipient_def payload_uuid_def falsy_def ex_mail_lease_def ex_mail_payload_def parse_uuid_str)
  ultimately show ?thesis
    by (simp add: depart_def in_transaction_def body ex_mailer_simps console_send_def flight_key_def)
      (simp add: ex_mail_lease_def ex_lease_def)
qed


theorem dispatch_settles_lease_witness:
  "\<exists>msg w'. dispatch_event ex_mailer ex_mail_lease 5 ex_mail_db = (Some msg, Inr (), w') \<and>
     (\<forall>row \<in> set (outbox w'). \<not> owned ex_mail_lease row)"
proof -
  obtain msg w1 where d: "dispatch_event ex_mailer ex_mail_lease 5 ex_mail_db = (Some msg, Inr (), w1)"
    using ex_dispatched by blast
  from dispatch_settles_lease [OF ex_mail_ok ex_mailer_considerate d] d show ?thesis by blast
qed

end
