(* ===== verification/Maintenance.thy ===== *)
theory Maintenance
imports Wellformed "HOL-Library.Multiset"
begin

text \<open>
  The hourly maintenance (app/notifications/maintenance.py): expired idempotency keys and
  old rate limit buckets are deleted in batches, each in a transaction of its own, until a
  batch is not full. LIMIT without ORDER BY takes rows in whatever order the scan yields
  them (a parameter), and clock\_timestamp() is read for every row.
\<close>

section \<open>Batches\<close>

text \<open>DELETE ... WHERE key IN (SELECT key ... WHERE doomed LIMIT n), with its rowcount.\<close>

definition purge_batch ::
  "('r \<Rightarrow> 'k) \<Rightarrow> ('r \<Rightarrow> bool) \<Rightarrow> ('r list \<Rightarrow> 'r list) \<Rightarrow> nat \<Rightarrow> 'r list \<Rightarrow> nat \<times> 'r list" where
  "purge_batch key doomed scan batch_size t =
     (let chosen = map key (take batch_size (scan (filter doomed t)))
      in (rowcount (\<lambda>r. key r \<in> set chosen) t, filter (\<lambda>r. key r \<notin> set chosen) t))"

definition idem_key_of :: "idem_key \<Rightarrow> uuid \<times> uuid" where "idem_key_of r = (k_user_id r, k_key r)"

definition bucket_of :: "rate_row \<Rightarrow> string \<times> string \<times> time" where
  "bucket_of r = (l_scope r, l_identity_hash r, l_window_start r)"

definition purge_expired_idempotency_keys_batch ::
  "(idem_key \<Rightarrow> time) \<Rightarrow> (idem_key list \<Rightarrow> idem_key list) \<Rightarrow> nat \<Rightarrow> db \<Rightarrow> nat \<times> db" where
  "purge_expired_idempotency_keys_batch seen scan batch_size w =
     (case purge_batch idem_key_of (\<lambda>r. k_expires_at r \<le> seen r) scan batch_size (idem_keys w) of
        (n, t) \<Rightarrow> (n, w\<lparr>idem_keys := t\<rparr>))"

definition purge_expired_rate_limits_batch ::
  "(rate_row \<Rightarrow> time) \<Rightarrow> (rate_row list \<Rightarrow> rate_row list) \<Rightarrow> nat \<Rightarrow> db \<Rightarrow> nat \<times> db" where
  "purge_expired_rate_limits_batch seen scan batch_size w =
     (case purge_batch bucket_of (\<lambda>r. l_window_start r < seen r - hours 24) scan batch_size (rate_limits w) of
        (n, t) \<Rightarrow> (n, w\<lparr>rate_limits := t\<rparr>))"

text \<open>The loop; round i runs batch i in a fresh transaction. None: it never returns.\<close>

partial_function (option) purge_rounds ::
  "(nat \<Rightarrow> db \<Rightarrow> nat \<times> db) \<Rightarrow> nat \<Rightarrow> nat \<Rightarrow> nat \<Rightarrow> db \<Rightarrow> (nat \<times> db) option" where
  "purge_rounds batch batch_size i total_deleted w =
     (case batch i (begin_tx w) of
        (deleted, w1) \<Rightarrow>
          if deleted < batch_size then Some (total_deleted + deleted, w1)
          else purge_rounds batch batch_size (Suc i) (total_deleted + deleted) w1)"

text \<open>What each round reads: the clock at a row, and the order of its scan.\<close>

record 'r rounds =
  rd_seen :: "nat \<Rightarrow> 'r \<Rightarrow> time"
  rd_scan :: "nat \<Rightarrow> 'r list \<Rightarrow> 'r list"

definition purge_expired_idempotency_keys :: "idem_key rounds \<Rightarrow> nat \<Rightarrow> db \<Rightarrow> (nat \<times> db) option" where
  "purge_expired_idempotency_keys rd batch_size w =
     purge_rounds (\<lambda>i. purge_expired_idempotency_keys_batch (rd_seen rd i) (rd_scan rd i) batch_size) batch_size 0 0 w"

definition purge_expired_rate_limits :: "rate_row rounds \<Rightarrow> nat \<Rightarrow> db \<Rightarrow> (nat \<times> db) option" where
  "purge_expired_rate_limits rd batch_size w =
     purge_rounds (\<lambda>i. purge_expired_rate_limits_batch (rd_seen rd i) (rd_scan rd i) batch_size) batch_size 0 0 w"

definition run_maintenance ::
  "idem_key rounds \<Rightarrow> rate_row rounds \<Rightarrow> nat \<Rightarrow> db \<Rightarrow> ((nat \<times> nat) \<times> db) option" where
  "run_maintenance ri rr batch_size w =
     (case purge_expired_idempotency_keys ri batch_size w of
        None \<Rightarrow> None
      | Some (n, w1) \<Rightarrow>
          (case purge_expired_rate_limits rr batch_size w1 of
             None \<Rightarrow> None
           | Some (m, w2) \<Rightarrow> Some ((n, m), w2)))"

definition BATCH_SIZE :: nat where "BATCH_SIZE = 500"

section \<open>What a batch deletes\<close>

lemma purge_batch_props:
  assumes scan: "\<And>t. mset (scan t) = mset t" and keys: "distinct (map key t)"
    and run: "purge_batch key doomed scan n t = (d, t')"
  shows "set t' \<subseteq> set t" "distinct (map key t')" "d + length t' = length t"
    "\<And>r. r \<in> set t \<Longrightarrow> r \<notin> set t' \<Longrightarrow> doomed r"
    "d < n \<Longrightarrow> r \<in> set t' \<Longrightarrow> \<not> doomed r"
    "d = min n (length (filter doomed t))"
proof -
  let ?sel = "take n (scan (filter doomed t))"
  define ks where "ks = map key ?sel"
  have t': "t' = filter (\<lambda>r. key r \<notin> set ks) t" and d: "d = rowcount (\<lambda>r. key r \<in> set ks) t"
    using run by (simp_all add: purge_batch_def ks_def Let_def)
  have perm: "set (scan (filter doomed t)) = {r \<in> set t. doomed r}" "length (scan (filter doomed t)) = length (filter doomed t)"
    using mset_eq_setD [OF scan [of "filter doomed t"]] mset_eq_length [OF scan [of "filter doomed t"]] by auto
  have sel: "r \<in> set t \<and> doomed r" if "r \<in> set ?sel" for r
    using that perm(1) by (auto dest: in_set_takeD)
  have same: "r \<in> set ?sel" if r: "r \<in> set t" "key r \<in> set ks" for r
  proof -
    obtain x where x: "x \<in> set ?sel" "key x = key r" using r(2) by (auto simp: ks_def)
    then have "x = r" using distinct_key_eq [OF keys _ r(1)] sel by blast
    then show ?thesis using x(1) by simp
  qed
  show "set t' \<subseteq> set t" by (auto simp: t')
  show "distinct (map key t')" unfolding t' using keys by (rule distinct_map_filter)
  show "d + length t' = length t"
    using sum_length_filter_compl [of "\<lambda>r. key r \<in> set ks" t] by (simp add: d t' rowcount_def)
  show gone: "doomed r" if "r \<in> set t" "r \<notin> set t'" for r
  proof -
    have "key r \<in> set ks" using that by (auto simp: t')
    then show ?thesis using same [OF that(1)] sel by blast
  qed
  have "distinct t" using keys by (simp add: distinct_map)
  then have "distinct (filter doomed t)" by simp
  then have "distinct (scan (filter doomed t))" using scan by (metis mset_eq_imp_distinct_iff)
  then have dsel: "distinct ?sel" by simp
  have "set (filter (\<lambda>r. key r \<in> set ks) t) = set ?sel"
  proof (intro set_eqI iffI)
    fix r assume "r \<in> set (filter (\<lambda>r. key r \<in> set ks) t)"
    then show "r \<in> set ?sel" using same by simp
  next
    fix r assume r: "r \<in> set ?sel"
    then have "key r \<in> set ks" unfolding ks_def by (simp only: set_map imageI)
    then show "r \<in> set (filter (\<lambda>r. key r \<in> set ks) t)" using sel [OF r] by simp
  qed
  then have "d = length ?sel"
    unfolding d rowcount_def using dsel \<open>distinct t\<close> by (metis distinct_card distinct_filter)
  then show dn: "d = min n (length (filter doomed t))" using perm(2) by simp
  show "\<not> doomed r" if "d < n" "r \<in> set t'" for r
  proof
    assume "doomed r"
    have "length (filter doomed t) \<le> n" using dn that(1) by simp
    then have "?sel = scan (filter doomed t)" using perm(2) by simp
    then have "r \<in> set ?sel" using perm(1) that(2) \<open>doomed r\<close> by (auto simp: t')
    then show False using that(2) by (auto simp: t' ks_def)
  qed
qed


section \<open>The loop ends\<close>

text \<open>
  What a purge leaves behind: fewer rows, by the number reported; every row gone was due in
  some round, no row left was due in the last one; nothing but the table has changed.
\<close>

definition purged ::
  "(db \<Rightarrow> 'r list) \<Rightarrow> ('r list \<Rightarrow> db \<Rightarrow> db) \<Rightarrow> ('r \<Rightarrow> 'k) \<Rightarrow> (nat \<Rightarrow> 'r \<Rightarrow> bool) \<Rightarrow> db \<Rightarrow> nat \<Rightarrow> db \<Rightarrow> bool" where
  "purged rows put key doomed w d w' =
     (d + length (rows w') = length (rows w) \<and> set (rows w') \<subseteq> set (rows w) \<and> distinct (map key (rows w')) \<and>
      (\<forall>r \<in> set (rows w). r \<notin> set (rows w') \<longrightarrow> (\<exists>j. doomed j r)) \<and>
      (\<exists>j. \<forall>r \<in> set (rows w'). \<not> doomed j r) \<and>
      (\<exists>n t. w' = put (rows w') (w\<lparr>ticks := n, tx_now := t\<rparr>)))"

text \<open>A purge of one table of the database: how its rows are read and written.\<close>

locale purging =
  fixes rows :: "db \<Rightarrow> 'r list" and put :: "'r list \<Rightarrow> db \<Rightarrow> db" and key :: "'r \<Rightarrow> 'k"
    and doomed :: "nat \<Rightarrow> 'r \<Rightarrow> bool" and scan :: "nat \<Rightarrow> 'r list \<Rightarrow> 'r list"
    and batch_size :: nat and batch :: "nat \<Rightarrow> db \<Rightarrow> nat \<times> db"
  assumes rows_put: "rows (put t w) = t"
    and put_put: "put t (put t' w) = put t w"
    and rows_tx: "rows (begin_tx w) = rows w"
    and put_tx: "begin_tx (put t w) = put t (begin_tx w)"
    and frame: "(put t w)\<lparr>ticks := n, tx_now := u\<rparr> = put t (w\<lparr>ticks := n, tx_now := u\<rparr>)"
    and batch_is: "batch i w = (case purge_batch key (doomed i) (scan i) batch_size (rows w) of (d, t) \<Rightarrow> (d, put t w))"
begin

lemma rounds_return:
  assumes "0 < batch_size" "\<And>i t. mset (scan i t) = mset t" "distinct (map key (rows w))"
  shows "\<exists>d w'. purge_rounds batch batch_size i acc w = Some (acc + d, w') \<and> purged rows put key doomed w d w'"
  using assms(3)
proof (induction "length (rows w)" arbitrary: w i acc rule: less_induct)
  case less
  obtain d t where run: "purge_batch key (doomed i) (scan i) batch_size (rows w) = (d, t)" by fastforce
  note got = purge_batch_props [OF assms(2) less.prems run]
  let ?w1 = "put t (begin_tx w)"
  have b: "batch i (begin_tx w) = (d, ?w1)" using run by (simp add: batch_is rows_tx)
  have tx: "\<exists>n u. ?w1 = put t (w\<lparr>ticks := n, tx_now := u\<rparr>)"
  proof -
    have "begin_tx w = w\<lparr>ticks := Suc (ticks w), tx_now := clock w (ticks w)\<rparr>" by (simp add: begin_tx_def)
    then show ?thesis by metis
  qed
  show ?case
  proof (cases "d < batch_size")
    case True
    have "purged rows put key doomed w d ?w1"
      unfolding purged_def rows_put
    proof (intro conjI)
      show "d + length t = length (rows w)" "set t \<subseteq> set (rows w)" "distinct (map key t)" by (fact got(3) got(1) got(2))+
      show "\<forall>r \<in> set (rows w). r \<notin> set t \<longrightarrow> (\<exists>j. doomed j r)" using got(4) by blast
      show "\<exists>j. \<forall>r \<in> set t. \<not> doomed j r" using got(5) [OF True] by blast
      show "\<exists>n u. ?w1 = put t (w\<lparr>ticks := n, tx_now := u\<rparr>)" by (rule tx)
    qed
    moreover have "purge_rounds batch batch_size i acc w = Some (acc + d, ?w1)"
      using b True by (subst purge_rounds.simps) simp
    ultimately show ?thesis by blast
  next
    case False
    have "length (rows ?w1) < length (rows w)" using got(3) False assms(1) by (simp add: rows_put)
    moreover have "distinct (map key (rows ?w1))" using got(2) by (simp add: rows_put)
    ultimately obtain e w2 where e: "purge_rounds batch batch_size (Suc i) (acc + d) ?w1 = Some (acc + d + e, w2)"
        "purged rows put key doomed ?w1 e w2"
      using less.hyps by blast
    have "\<exists>n u. w2 = put (rows w2) (w\<lparr>ticks := n, tx_now := u\<rparr>)"
    proof -
      obtain n u where w2: "w2 = put (rows w2) (?w1\<lparr>ticks := n, tx_now := u\<rparr>)"
        using e(2) by (auto simp: purged_def)
      have "put (rows w2) (?w1\<lparr>ticks := n, tx_now := u\<rparr>) = put (rows w2) (w\<lparr>ticks := n, tx_now := u\<rparr>)"
        unfolding frame put_put by (simp add: begin_tx_def)
      then show ?thesis using w2 by metis
    qed
    note tables = this
    have e': "e + length (rows w2) = length t" "set (rows w2) \<subseteq> set t" "distinct (map key (rows w2))"
        "\<forall>r \<in> set t. r \<notin> set (rows w2) \<longrightarrow> (\<exists>j. doomed j r)" "\<exists>j. \<forall>r \<in> set (rows w2). \<not> doomed j r"
      using e(2) unfolding purged_def rows_put by blast+
    have "purged rows put key doomed w (d + e) w2"
      unfolding purged_def
    proof (intro conjI)
      show "d + e + length (rows w2) = length (rows w)" using e'(1) got(3) by simp
      show "set (rows w2) \<subseteq> set (rows w)" using e'(2) got(1) by blast
      show "\<forall>r \<in> set (rows w). r \<notin> set (rows w2) \<longrightarrow> (\<exists>j. doomed j r)" using e'(4) got(4) by blast
    qed (fact e'(3) e'(5) tables)+
    moreover have "purge_rounds batch batch_size i acc w = Some (acc + (d + e), w2)"
      using b e(1) False by (subst purge_rounds.simps) (simp add: add.assoc)
    ultimately show ?thesis by blast
  qed
qed

end


section \<open>The two purges of the model\<close>

interpretation idempotency_purge: purging idem_keys "\<lambda>t w. w\<lparr>idem_keys := t\<rparr>" idem_key_of
  "\<lambda>i r. k_expires_at r \<le> rd_seen rd i r" "rd_scan rd" batch_size
  "\<lambda>i. purge_expired_idempotency_keys_batch (rd_seen rd i) (rd_scan rd i) batch_size" for rd batch_size
  by unfold_locales (simp_all add: begin_tx_def purge_expired_idempotency_keys_batch_def)

interpretation rate_limit_purge: purging rate_limits "\<lambda>t w. w\<lparr>rate_limits := t\<rparr>" bucket_of
  "\<lambda>i r. l_window_start r < rd_seen rd i r - hours 24" "rd_scan rd" batch_size
  "\<lambda>i. purge_expired_rate_limits_batch (rd_seen rd i) (rd_scan rd i) batch_size" for rd batch_size
  by unfold_locales (simp_all add: begin_tx_def purge_expired_rate_limits_batch_def)

text \<open>With a batch size of zero no round is ever short: the loop does not return.\<close>

lemma purge_rounds_zero: "purge_rounds batch 0 i acc w = None"
proof -
  have "b \<noteq> 0" if "purge_rounds batch b i acc w = Some y" for b y
    by (rule purge_rounds.raw_induct [where P = "\<lambda>_ b _ _ _ _. b \<noteq> 0", OF _ that])
      (auto split: prod.splits if_splits)
  then show ?thesis by (metis not_None_eq)
qed

definition scans_permute :: "'r rounds \<Rightarrow> bool" where
  "scans_permute rd = (\<forall>i t. mset (rd_scan rd i t) = mset t)"

lemma idempotency_keys_return:
  assumes "0 < batch_size" "scans_permute rd" "distinct (map idem_key_of (idem_keys w))"
  shows "\<exists>d w'. purge_expired_idempotency_keys rd batch_size w = Some (d, w') \<and>
    purged idem_keys (\<lambda>t w. w\<lparr>idem_keys := t\<rparr>) idem_key_of (\<lambda>i r. k_expires_at r \<le> rd_seen rd i r) w d w'"
  using idempotency_purge.rounds_return [of batch_size rd w 0 0] assms
  unfolding purge_expired_idempotency_keys_def scans_permute_def by simp

lemma rate_limits_return:
  assumes "0 < batch_size" "scans_permute rd" "distinct (map bucket_of (rate_limits w))"
  shows "\<exists>d w'. purge_expired_rate_limits rd batch_size w = Some (d, w') \<and>
    purged rate_limits (\<lambda>t w. w\<lparr>rate_limits := t\<rparr>) bucket_of
      (\<lambda>i r. l_window_start r < rd_seen rd i r - hours 24) w d w'"
  using rate_limit_purge.rounds_return [of batch_size rd w 0 0] assms
  unfolding purge_expired_rate_limits_def scans_permute_def by simp

text \<open>
  C27: the hourly maintenance returns, for every positive batch size and whatever order each
  scan takes: it reports exactly how many rows it removed; a row is removed only if it was
  expired (a day old) at some reading of the clock, and none that was due at the last batch
  is left; no other table changes, so bookings, users, audit rows and the outbox are kept.
\<close>

theorem run_maintenance_returns:
  assumes "0 < batch_size" "scans_permute ri" "scans_permute rr"
    and "distinct (map idem_key_of (idem_keys w))" "distinct (map bucket_of (rate_limits w))"
  shows "\<exists>n m w'. run_maintenance ri rr batch_size w = Some ((n, m), w') \<and>
    n + length (idem_keys w') = length (idem_keys w) \<and> m + length (rate_limits w') = length (rate_limits w) \<and>
    set (idem_keys w') \<subseteq> set (idem_keys w) \<and> set (rate_limits w') \<subseteq> set (rate_limits w) \<and>
    (\<forall>r \<in> set (idem_keys w) - set (idem_keys w'). \<exists>j. k_expires_at r \<le> rd_seen ri j r) \<and>
    (\<exists>j. \<forall>r \<in> set (idem_keys w'). rd_seen ri j r < k_expires_at r) \<and>
    (\<forall>r \<in> set (rate_limits w) - set (rate_limits w'). \<exists>j. l_window_start r < rd_seen rr j r - hours 24) \<and>
    (\<exists>j. \<forall>r \<in> set (rate_limits w'). rd_seen rr j r - hours 24 \<le> l_window_start r) \<and>
    w' = w\<lparr>idem_keys := idem_keys w', rate_limits := rate_limits w', ticks := ticks w', tx_now := tx_now w'\<rparr>"
proof -
  obtain n w1 where k: "purge_expired_idempotency_keys ri batch_size w = Some (n, w1)"
      and k': "purged idem_keys (\<lambda>t w. w\<lparr>idem_keys := t\<rparr>) idem_key_of (\<lambda>i r. k_expires_at r \<le> rd_seen ri i r) w n w1"
    using idempotency_keys_return [OF assms(1,2,4)] by blast
  obtain u x where w1: "w1 = w\<lparr>ticks := u, tx_now := x, idem_keys := idem_keys w1\<rparr>"
    using k' unfolding purged_def by blast
  have same: "rate_limits w1 = rate_limits w" by (subst w1) simp
  obtain m w2 where l: "purge_expired_rate_limits rr batch_size w1 = Some (m, w2)"
      and l': "purged rate_limits (\<lambda>t w. w\<lparr>rate_limits := t\<rparr>) bucket_of
        (\<lambda>i r. l_window_start r < rd_seen rr i r - hours 24) w1 m w2"
    using rate_limits_return [OF assms(1,3), of w1] assms(5) unfolding same by blast
  obtain v y where w2: "w2 = w1\<lparr>ticks := v, tx_now := y, rate_limits := rate_limits w2\<rparr>"
    using l' unfolding purged_def by blast
  have kept: "idem_keys w2 = idem_keys w1" by (subst w2) simp
  have "run_maintenance ri rr batch_size w = Some ((n, m), w2)" using k l by (simp add: run_maintenance_def)
  moreover have "w2 = w\<lparr>idem_keys := idem_keys w2, rate_limits := rate_limits w2, ticks := ticks w2, tx_now := tx_now w2\<rparr>"
  proof -
    have eq: "w2 = w\<lparr>idem_keys := idem_keys w1, rate_limits := rate_limits w2, ticks := v, tx_now := y\<rparr>"
    proof -
      note w2
      also have "w1\<lparr>ticks := v, tx_now := y, rate_limits := rate_limits w2\<rparr> =
          (w\<lparr>ticks := u, tx_now := x, idem_keys := idem_keys w1\<rparr>)\<lparr>ticks := v, tx_now := y, rate_limits := rate_limits w2\<rparr>"
        using w1 by (rule arg_cong)
      also have "... = w\<lparr>idem_keys := idem_keys w1, rate_limits := rate_limits w2, ticks := v, tx_now := y\<rparr>" by simp
      finally show ?thesis .
    qed
    have t: "ticks w2 = v" "tx_now w2 = y" using arg_cong [OF eq, of ticks] arg_cong [OF eq, of tx_now] by simp_all
    show ?thesis unfolding kept t by (rule eq)
  qed
  moreover have "\<forall>r \<in> set (idem_keys w) - set (idem_keys w2). \<exists>j. k_expires_at r \<le> rd_seen ri j r"
    "\<exists>j. \<forall>r \<in> set (idem_keys w2). rd_seen ri j r < k_expires_at r"
    "n + length (idem_keys w2) = length (idem_keys w)" "set (idem_keys w2) \<subseteq> set (idem_keys w)"
    using k' unfolding purged_def kept not_le by blast+
  moreover have "\<forall>r \<in> set (rate_limits w) - set (rate_limits w2). \<exists>j. l_window_start r < rd_seen rr j r - hours 24"
    "\<exists>j. \<forall>r \<in> set (rate_limits w2). rd_seen rr j r - hours 24 \<le> l_window_start r"
    "m + length (rate_limits w2) = length (rate_limits w)" "set (rate_limits w2) \<subseteq> set (rate_limits w)"
    using l' unfolding purged_def same not_less by blast+
  ultimately show ?thesis by blast
qed


definition ex_idem :: "uuid \<Rightarrow> time \<Rightarrow> idem_key" where
  "ex_idem k t = \<lparr>k_user_id = 7, k_key = k, k_request_hash = ''h'', k_response_status = None,
     k_response_body = None, k_response_headers = None, k_created_at = t - hours 24, k_expires_at = t\<rparr>"

definition ex_stale_db :: db where
  "ex_stale_db = (empty_db 0)\<lparr>idem_keys := [ex_idem 1 5, ex_idem 2 500, ex_idem 3 6, ex_idem 4 7]\<rparr>"

definition ex_idem_rounds :: "idem_key rounds" where
  "ex_idem_rounds = \<lparr>rd_seen = \<lambda>i r. 10, rd_scan = \<lambda>i t. if i = 1 then rev t else t\<rparr>"

definition ex_rate_rounds :: "rate_row rounds" where
  "ex_rate_rounds = \<lparr>rd_seen = \<lambda>i r. 10, rd_scan = \<lambda>i t. t\<rparr>"

text \<open>Batches of two on a table with three expired rows, read backwards by the second scan.\<close>

theorem run_maintenance_returns_witness:
  "\<exists>n m w'. run_maintenance ex_idem_rounds ex_rate_rounds 2 ex_stale_db = Some ((n, m), w') \<and>
    set (idem_keys w') \<subseteq> {ex_idem 2 500} \<and> n + length (idem_keys w') = 4"
proof -
  have perm: "scans_permute ex_idem_rounds" "scans_permute ex_rate_rounds"
    by (simp_all add: scans_permute_def ex_idem_rounds_def ex_rate_rounds_def)
  have keys: "distinct (map idem_key_of (idem_keys ex_stale_db))" "distinct (map bucket_of (rate_limits ex_stale_db))"
    by (simp_all add: ex_stale_db_def empty_db_def ex_idem_def idem_key_of_def)
  obtain n m w' where run: "run_maintenance ex_idem_rounds ex_rate_rounds 2 ex_stale_db = Some ((n, m), w')"
      and n: "n + length (idem_keys w') = length (idem_keys ex_stale_db)"
      and sub: "set (idem_keys w') \<subseteq> set (idem_keys ex_stale_db)"
      and live: "\<exists>j. \<forall>r \<in> set (idem_keys w'). rd_seen ex_idem_rounds j r < k_expires_at r"
    using run_maintenance_returns [OF _ perm keys, of 2] by auto
  have "set (idem_keys w') \<subseteq> {ex_idem 2 500}"
  proof
    fix r assume r: "r \<in> set (idem_keys w')"
    then have "10 < k_expires_at r" using live by (auto simp: ex_idem_rounds_def)
    moreover have "r \<in> {ex_idem 1 5, ex_idem 2 500, ex_idem 3 6, ex_idem 4 7}" using r sub by (auto simp: ex_stale_db_def)
    ultimately show "r \<in> {ex_idem 2 500}" by (auto simp: ex_idem_def)
  qed
  then show ?thesis using run n by (auto simp: ex_stale_db_def)
qed

end
