(* ===== verification/Conservation.thy ===== *)
theory Conservation
imports AdminRoutes Scheduler Dispatcher Maintenance
begin

text \<open>
  What the machinery around an operation does to an invariant of the five booking tables:
  transactions, guards, rate limits, idempotency and the outbox keep it when the operation
  inside does. The invariant is the parameter of a locale, which the well-formedness of the
  model interprets. Then the operations on sessions, outbox and receipts, which keep it too.
\<close>

section \<open>An invariant of the booking tables\<close>

definition keeps :: "(db \<Rightarrow> bool) \<Rightarrow> (db \<Rightarrow> ('a \<times> db) result) \<Rightarrow> bool" where
  "keeps I f = (\<forall>w x w'. I w \<longrightarrow> f w = Inr (x, w') \<longrightarrow> I w')"

lemma keepsI: "(\<And>w x w'. I w \<Longrightarrow> f w = Inr (x, w') \<Longrightarrow> I w') \<Longrightarrow> keeps I f"
  by (auto simp: keeps_def)

lemma keepsD: "keeps I f \<Longrightarrow> I w \<Longrightarrow> f w = Inr (x, w') \<Longrightarrow> I w'"
  by (auto simp: keeps_def)

lemma keeps_replying: "keeps I f \<Longrightarrow> keeps I (replying st hs f)"
  by (auto simp: keeps_def replying_def bind_r_Inr)

lemma same_tables_trans: "same_tables u v \<Longrightarrow> same_tables v w \<Longrightarrow> same_tables u w"
  by (simp add: same_tables_def)

locale table_invariant =
  fixes I :: "db \<Rightarrow> bool"
  assumes same: "same_tables w w' \<Longrightarrow> I w' = I w"
begin

lemma begun: "I (begin_tx w) = I w"
  by (rule same) (simp add: begin_tx_def same_tables_def)

lemma drawn: "I (w\<lparr>drawn := n\<rparr>) = I w"
  by (rule same) simp

lemma transaction: "keeps I f \<Longrightarrow> I w \<Longrightarrow> I (snd (in_transaction f w))"
  using begun by (auto simp: in_transaction_def split: sum.splits dest: keepsD)

lemma session: "keeps I f \<Longrightarrow> I w \<Longrightarrow> I (snd (in_session g f w))"
  unfolding in_session_def by (rule transaction) (auto simp: keeps_def bind_r_Inr)

lemma behind: "I (snd r) \<Longrightarrow> (\<And>w. I w \<Longrightarrow> I (snd (f w))) \<Longrightarrow> I (snd (after r f))"
  by (cases r) (auto simp: after_def split: sum.splits)

lemma limits:
  assumes "I w"
  shows "I (snd (check_mutation_rate_limit ev p now w))" "I (snd (check_read_rate_limit ev p now w))"
    "I (snd (check_ip_rate_limit ev peer fwd sc limit secs now w))" "I (snd (check_login_rate_limit ev peer fwd email now w))"
proof -
  have c: "I (snd (consume_rate_limits app_now bs w))" for app_now bs
    using consume_domain [of app_now bs w] same_domain_tables same assms by (metis prod.collapse)
  then show "I (snd (check_mutation_rate_limit ev p now w))" "I (snd (check_read_rate_limit ev p now w))"
    "I (snd (check_ip_rate_limit ev peer fwd sc limit secs now w))" "I (snd (check_login_rate_limit ev peer fwd email now w))"
    using assms by (auto simp: check_mutation_rate_limit_def check_read_rate_limit_def consume_user_bucket_def
        check_ip_rate_limit_def check_login_rate_limit_def split: sum.splits)
qed

lemma acquired:
  assumes "keeps I f"
  shows "I w \<Longrightarrow> acquire_or_replay n u k h f rivals w = Inr (x, w') \<Longrightarrow> I w'"
proof (induction n arbitrary: w)
  case 0
  then show ?case by simp
next
  case (Suc n)
  have keys: "I (v\<lparr>idem_keys := t\<rparr>) = I v" "I (v\<lparr>ticks := m\<rparr>) = I v" for v t m
    by (rule same; simp add: same_tables_def)+
  obtain acq w1 where a: "acquire_key u k h w = Inr (acq, w1)"
    using Suc.prems(2) by (auto simp: bind_r_Inr)
  have "I w1" using a Suc.prems(1) keys by (auto simp: acquire_key_def clock_timestamp_def Let_def split: if_splits)
  show ?case
  proof (cases acq)
    case True
    then obtain st w2 where "f w1 = Inr (st, w2)" "store_response u k st w2 = Inr w'"
      using a Suc.prems(2) by (auto simp: bind_r_Inr)
    then show ?thesis
      using keepsD [OF assms \<open>I w1\<close>] keys by (auto simp: store_response_def split: if_splits)
  next
    case False
    then show ?thesis
      using a Suc.prems(2) \<open>I w1\<close>
      by (auto simp: bind_r_Inr clock_timestamp_def Let_def keys split: list.splits if_splits dest!: Suc.IH [rotated])
  qed
qed

lemma once: "keeps I f \<Longrightarrow> keeps I (execute_create sha sc k meth path body f rivals)"
  by (rule keepsI) (auto simp: execute_create_def bind_r_Inr split: option.splits intro: acquired)

end

interpretation booking_tables: table_invariant db_ok
  by unfold_locales (rule db_ok_same)

section \<open>Members\<close>

lemma created_keeps:
  assumes "\<And>w b w'. db_ok w \<Longrightarrow> f w = Inr (b, w') \<Longrightarrow> db_ok w'"
  shows "keeps db_ok (\<lambda>w. let (t, w1) = clock_timestamp w in answer_creation i w1 (f w1) (\<lambda>b w2. Inr (g b, w2)))"
  by (rule keepsI) (auto simp: clock_timestamp_def answer_creation_def split: sum.splits option.splits dest!: assms [rotated])

lemma create_booking_operation_keeps: "keeps db_ok (create_booking_operation sc body)"
proof (rule keepsI)
  fix w st w'
  assume ok: "db_ok w" and run: "create_booking_operation sc body w = Inr (st, w')"
  let ?w1 = "w\<lparr>ticks := Suc (ticks w)\<rparr>"
  consider "w' = ?w1" | s e b w2 i where
      "insert_confirmed sc (bc_resource_id body) \<lparr>lower = s, upper = e\<rparr> Reservation ?w1 = Inr (b, w2)"
      "append_event EBookingConfirmed b (Some (clock w (ticks w))) w2 = Inr (i, w')"
    using run by (auto simp: create_booking_operation_def clock_timestamp_def bind_r_Inr answer_creation_Inr)
  then show "db_ok w'"
  proof cases
    case 1
    then show ?thesis using ok by simp
  next
    case 2
    have "db_ok ?w1" using ok by simp
    from insert_confirmed_keeps [OF this 2(1)] show ?thesis using append_event_keeps [OF _ _ 2(2)] by blast
  qed
qed

lemma create_blackout_operation_keeps: "keeps db_ok (create_blackout_operation sc i body)"
  unfolding create_blackout_operation_def [abs_def] by (rule created_keeps) (rule create_blackout_keeps)

lemmas service_keeps = cancel_booking_keeps join_waitlist_keeps decline_entry_keeps accept_offer_keeps cancel_blackout_keeps

section \<open>Sessions and accounts\<close>

lemma login_keeps: "keeps db_ok (login cr g email password now)"
proof (rule keepsI)
  fix w x w'
  assume "db_ok w" "login cr g email password now w = Inr (x, w')"
  moreover from this(2) have "same_tables w w'"
    by (auto simp: login_def mint_access_def start_family_def insert_refresh_def uuid4_def urandom_token_def bind_r_Inr Let_def
        same_tables_def split: sum.splits option.splits if_splits)
  ultimately show "db_ok w'" using db_ok_same by blast
qed

lemma issue_child_same: "issue_child cr g u t now w = Inr (x, w') \<Longrightarrow> same_tables w w'"
  by (auto simp: issue_child_def mark_used_def mint_access_def insert_refresh_def uuid4_def urandom_token_def bind_r_Inr Let_def
      same_tables_def split: option.splits if_splits)

lemma rotate_locked_same: "rotate_locked cr g raw now w = Inr (x, w') \<Longrightarrow> same_tables w w'"
  by (auto simp: rotate_locked_def bind_r_Inr split: option.splits if_splits dest: issue_child_same)

lemma revoke_family_same: "revoke_family cr raw now w = Inr w' \<Longrightarrow> same_tables w w'"
  by (auto simp: revoke_family_def revoke_where_def bind_r_Inr same_tables_def split: option.splits)

lemma report_reuse_keeps: "keeps db_ok (report_reuse cr raw u f req now)"
  by (rule keepsI) (auto simp: report_reuse_def bind_r_Inr dest!: append_audit_keeps revoke_family_same db_ok_same)

lemma rotate_refresh_keeps:
  assumes "db_ok w"
  shows "db_ok (snd (rotate_refresh cr g raw now w))"
proof -
  have "db_ok w1" if "rotate_locked cr g raw now (begin_tx w) = Inr (x, w1)" for x w1
    using rotate_locked_same [OF that] booking_tables.begun booking_tables.same assms by blast
  moreover have "db_ok (snd (in_transaction (report_reuse cr raw u f req now) (w\<lparr>drawn := n\<rparr>)))" for u f req n
    by (rule booking_tables.transaction [OF report_reuse_keeps]) (simp add: assms)
  ultimately show ?thesis
    using assms by (auto simp: rotate_refresh_def uuid4_def split: sum.splits prod.splits rotation.splits)
      (metis snd_conv)+
qed

lemma registration_conflict_Inr: "registration_conflict m = Inr x \<longleftrightarrow> m = Inr x"
  by (auto simp: registration_conflict_def split: sum.splits exn.splits if_splits)

lemma same_tables_invited: "same_tables w (w\<lparr>invitations := i\<rparr>)" "same_tables w (w\<lparr>invitations := i, drawn := n\<rparr>)"
  by (simp_all add: same_tables_def)

lemma register_keeps: "keeps db_ok (register cr d now req)"
proof (rule keepsI)
  fix w x w'
  assume ok: "db_ok w" and run: "register cr d now req w = Inr (x, w')"
  have "\<exists>u w2 w4 a ty tid actor r dd t. insert_user u (w\<lparr>drawn := Suc (drawn w)\<rparr>) = Inr w2 \<and> same_tables w2 w4 \<and>
      append_audit_log a ty tid actor r dd now w4 = Inr (t, w')"
    using run unfolding register_def
    by (cases req; clarsimp simp: uuid4_def bind_r_Inr Let_def registration_conflict_Inr split: sum.splits option.splits if_splits)
      (intro exI conjI, assumption, rule same_tables_invited, assumption)+
  then obtain u w2 w4 a ty tid actor r dd t where ins: "insert_user u (w\<lparr>drawn := Suc (drawn w)\<rparr>) = Inr w2"
    and mid: "same_tables w2 w4" and au: "append_audit_log a ty tid actor r dd now w4 = Inr (t, w')"
    by blast
  have w2: "w2 = w\<lparr>drawn := Suc (drawn w), users := users w @ [u]\<rparr>" "u_id u \<notin> u_id ` set (users w)"
    using ins by (auto simp: insert_user_def split: option.splits if_splits)
  have "db_ok w2" using db_ok_people [OF ok, of w2] w2 db_okD(1) [OF ok] by (auto simp: people_ok_def)
  then show "db_ok w'" using db_ok_same [OF mid] append_audit_keeps [OF au] by blast
qed

section \<open>The outbox and the dispatcher\<close>

lemma update_outbox_keeps:
  assumes ok: "db_ok w" and run: "update_outbox P f w = Inr (n, w')"
    and f: "\<And>r. o_id (f r) = o_id r" "\<And>r. o_aggregate_id (f r) = o_aggregate_id r"
      "\<And>r. o_aggregate_version (f r) = o_aggregate_version r" "\<And>r. o_event_type (f r) = o_event_type r"
  shows "db_ok w'"
proof -
  note parts = db_okD [OF ok]
  have w': "w' = w\<lparr>outbox := update_where P f (outbox w)\<rparr>"
    and chk: "\<And>r. r \<in> set (outbox w) \<Longrightarrow> P r \<Longrightarrow> outbox_check (f r) = None"
    using run by (auto simp: update_outbox_def first_error_None split: option.splits)
  have "outbox_ok (outbox w')"
    using parts(4) chk unfolding w' by (auto simp: events_ok_def outbox_ok_def map_update_where f set_update_where)
  moreover have "sorted_wrt (\<lambda>r s. \<not> same_event r s) (outbox w')"
  proof -
    have same: "same_event (if p then f x else x) (if q then f y else y) = same_event x y" for p q x y
      by (simp add: same_event_def f)
    have "sorted_wrt (\<lambda>r s. \<not> same_event r s) (outbox w)" using parts(4) by (simp add: events_ok_def)
    then show ?thesis unfolding w' update_where_def by (auto simp: same intro: sorted_wrt_map_mono)
  qed
  moreover have "\<forall>r \<in> set (outbox w'). \<exists>b \<in> set (bookings w). o_aggregate_id r = b_id b \<and> o_aggregate_version r \<le> b_version b"
    using parts(4) unfolding w' by (auto simp: events_ok_def set_update_where f)
  ultimately have "events_ok w'" by (simp add: events_ok_def w')
  then show ?thesis using parts by (simp add: db_ok_def w')
qed

lemma outbox_keeps:
  "keeps db_ok (claim_batch locked now)" "keeps db_ok (renew_lease l now)" "keeps db_ok (acknowledge l now)"
  "keeps db_ok (fail_lease l c now)" "keeps db_ok (recover_stale_leases now)"
  by (rule keepsI; auto simp: claim_batch_def renew_lease_def acknowledge_def fail_lease_def recover_stale_leases_def bind_r_Inr
      uuid4_def Let_def split: list.splits dest!: update_outbox_keeps [rotated])+

lemma receipt_same:
  assumes "get_or_create_receipt ev r w = Inr (d, w')"
  shows "same_tables w w'"
proof -
  have ins: "same_tables v w2" if "insert_receipt x v = Inr w2" for x v w2
    using that unfolding insert_receipt_def by (auto simp: same_tables_def split: if_splits)
  obtain x where "insert_receipt x (w\<lparr>drawn := Suc (drawn w)\<rparr>) = Inr w'"
    using assms unfolding get_or_create_receipt_def uuid4_def Let_def prod.case
    by (auto simp: bind_r_Inr split: option.splits)
  from ins [OF this] show ?thesis by (simp add: same_tables_def)
qed

lemma acknowledge_keeps: "acknowledge l now w = Inr (x, w') \<Longrightarrow> db_ok w \<Longrightarrow> db_ok w'"
  using keepsD [OF outbox_keeps(3)] by blast

lemma update_receipt_ok: "db_ok (update_receipt ev r f w) = db_ok w"
  by (rule db_ok_same) (simp add: update_receipt_def same_tables_def)

lemma prepare_keeps: "keeps db_ok (prepare l r b x)"
proof (rule keepsI)
  fix w y w'
  assume ok: "db_ok w" and run: "prepare l r b x w = Inr (y, w')"
  obtain d w2 where g: "get_or_create_receipt (l_event l) r (w\<lparr>ticks := Suc (ticks w)\<rparr>) = Inr (d, w2)"
    using run by (auto simp: prepare_def clock_timestamp_def bind_r_Inr)
  have "same_tables (w\<lparr>ticks := Suc (ticks w)\<rparr>) w2" by (rule receipt_same [OF g])
  then have "db_ok w2" using ok db_ok_same by (metis same_tables_simps(2))
  then show "db_ok w'"
    using run g
    by (auto simp: prepare_def clock_timestamp_def bind_r_Inr skip_receipt_def update_receipt_ok
        split: if_splits option.splits dest!: acknowledge_keeps)
qed

lemma settle_keeps: "keeps db_ok (record_sent l r m now)"
  by (rule keepsI) (auto simp: record_sent_def update_receipt_ok dest: acknowledge_keeps)

text \<open>A dispatch keeps the invariant if what others do while the mail is sent keeps it.\<close>

lemma record_failure_keeps: "db_ok w \<Longrightarrow> record_failure l c now w = (msg, res, w') \<Longrightarrow> db_ok w'"
  using booking_tables.transaction [OF outbox_keeps(4), of w l c now]
  by (auto simp: record_failure_def split: prod.splits sum.splits)

lemma send_message_keeps:
  assumes "db_ok w" "\<And>v. db_ok v \<Longrightarrow> db_ok (ml_meanwhile m v)" "send_message m l r name email now w = (msg, res, w')"
  shows "db_ok w'"
proof -
  let ?w1 = "ml_meanwhile m w"
  have w1: "db_ok ?w1" using assms(1,2) by blast
  have sent: "db_ok v" if "in_transaction (record_sent l r p now) ?w1 = (y, v)" for p y v
    using booking_tables.transaction [OF settle_keeps w1, of l r p now] that by simp
  show ?thesis
    using assms(3,1) record_failure_keeps [OF w1] sent
    by (auto simp: send_message_def Let_def split: sum.splits prod.splits exn.splits)
qed

lemma transaction_keeps: "keeps db_ok f \<Longrightarrow> in_transaction f w = (y, v) \<Longrightarrow> db_ok w \<Longrightarrow> db_ok v"
  using booking_tables.transaction [of f w] by simp

lemma dispatch_event_keeps:
  assumes ok: "db_ok w" and others: "\<And>v. db_ok v \<Longrightarrow> db_ok (ml_meanwhile m v)"
    and run: "dispatch_event m l now w = (msg, res, w')"
  shows "db_ok w'"
proof (cases "payload_recipient (l_payload l)")
  case (Inl e)
  then show ?thesis using run ok by (simp add: dispatch_event_def)
next
  case (Inr rcp)
  show ?thesis
  proof (cases rcp)
    case None
    obtain y v where t: "in_transaction (acknowledge l now) w = (y, v)" by fastforce
    then have "w' = v" using run Inr None by (auto simp: dispatch_event_def split: sum.splits)
    then show ?thesis using transaction_keeps [OF outbox_keeps(3) t ok] by simp
  next
    case (Some r)
    let ?ids = "bind_r (payload_uuid (l_payload l) ''booking_id'') (\<lambda>b.
                bind_r (payload_uuid (l_payload l) ''resource_id'') (\<lambda>x. Inr (b, x)))"
    show ?thesis
    proof (cases ?ids)
      case (Inl e)
      then show ?thesis using run ok Inr Some by (simp add: dispatch_event_def)
    next
      case ids: (Inr bx)
      obtain b x where bx: "bx = (b, x)" by fastforce
      obtain y v where t: "in_transaction (prepare l r b x) w = (y, v)" by fastforce
      have v: "db_ok v" by (rule transaction_keeps [OF prepare_keeps t ok])
      have "w' = v \<or> (\<exists>name email at. send_message m l r name email at v = (msg, res, w'))"
        using run Inr Some ids bx t by (auto simp: dispatch_event_def split: sum.splits plan.splits)
      then show ?thesis using v send_message_keeps [OF v others] by blast
    qed
  qed
qed

lemma dispatch_turn_keeps:
  assumes ok: "db_ok w" and others: "\<And>v. db_ok v \<Longrightarrow> db_ok (ml_meanwhile m v)"
    and run: "dispatch_turn m locked now renew_now w = (msg, res, w')"
  shows "db_ok w'"
proof -
  obtain y1 w1 where t1: "in_transaction (recover_stale_leases now) w = (y1, w1)" by fastforce
  obtain y2 w2 where t2: "in_transaction (claim_batch locked now) w1 = (y2, w2)" by fastforce
  have ok1: "db_ok w1" by (rule transaction_keeps [OF outbox_keeps(5) t1 ok])
  have ok2: "db_ok w2" by (rule transaction_keeps [OF outbox_keeps(1) t2 ok1])
  have "w' = w1 \<or> w' = w2 \<or> (\<exists>l y3 w3. in_transaction (renew_lease l renew_now) w2 = (y3, w3) \<and>
      (w' = w3 \<or> dispatch_event m l renew_now w3 = (msg, res, w')))"
    using run t1 t2 by (auto simp: dispatch_turn_def split: sum.splits prod.splits list.splits if_splits)
  then show ?thesis
    using ok1 ok2 transaction_keeps [OF outbox_keeps(2) _ ok2] dispatch_event_keeps [OF _ others] by blast
qed

section \<open>Maintenance\<close>

lemma purge_rounds_same:
  assumes "\<And>i v. same_tables v (snd (batch i v))" "purge_rounds batch b i acc w = Some (n, w')"
  shows "same_tables w w'"
proof -
  have "(\<forall>i v. same_tables v (snd (bat i v))) \<longrightarrow> same_tables v (snd y)"
    if "purge_rounds bat b i acc v = Some y" for bat b i acc v y
  proof (rule purge_rounds.raw_induct [where P = "\<lambda>bat _ _ _ v y. (\<forall>i v. same_tables v (snd (bat i v))) \<longrightarrow> same_tables v (snd y)", OF _ that])
    fix rec :: "(nat \<Rightarrow> db \<Rightarrow> nat \<times> db) \<Rightarrow> nat \<Rightarrow> nat \<Rightarrow> nat \<Rightarrow> db \<Rightarrow> (nat \<times> db) option"
    fix bat b i acc v y
    assume IH: "\<And>bat b i acc v y. rec bat b i acc v = Some y \<Longrightarrow>
        (\<forall>i v. same_tables v (snd (bat i v))) \<longrightarrow> same_tables v (snd y)"
      and run: "(case bat i (begin_tx v) of (d, v1) \<Rightarrow>
        if d < b then Some (acc + d, v1) else rec bat b (Suc i) (acc + d) v1) = Some y"
    show "(\<forall>i v. same_tables v (snd (bat i v))) \<longrightarrow> same_tables v (snd y)"
    proof
      assume same: "\<forall>i v. same_tables v (snd (bat i v))"
      obtain d v1 where v1: "bat i (begin_tx v) = (d, v1)" by fastforce
      have "same_tables v (begin_tx v)" by (simp add: begin_tx_def same_tables_def)
      moreover have "same_tables (begin_tx v) v1" using same v1 by (metis snd_conv)
      ultimately have s1: "same_tables v v1" by (rule same_tables_trans)
      show "same_tables v (snd y)"
      proof (cases "d < b")
        case True
        then show ?thesis using run v1 s1 by auto
      next
        case False
        then have "rec bat b (Suc i) (acc + d) v1 = Some y" using run v1 by simp
        then have "same_tables v1 (snd y)" using IH same by blast
        then show ?thesis by (rule same_tables_trans [OF s1])
      qed
    qed
  qed
  from this [OF assms(2)] assms(1) show ?thesis by simp
qed

lemma run_maintenance_keeps:
  assumes ok: "db_ok w" and run: "run_maintenance ri rr b w = Some (ns, w')"
  shows "db_ok w'"
proof -
  obtain n w1 m where k: "purge_expired_idempotency_keys ri b w = Some (n, w1)"
      and l: "purge_expired_rate_limits rr b w1 = Some (m, w')"
    using run by (auto simp: run_maintenance_def split: option.splits)
  have "same_tables w w1" using k unfolding purge_expired_idempotency_keys_def
    by (rule purge_rounds_same [rotated])
      (simp add: purge_expired_idempotency_keys_batch_def same_tables_def split: prod.split)
  moreover have "same_tables w1 w'" using l unfolding purge_expired_rate_limits_def
    by (rule purge_rounds_same [rotated])
      (simp add: purge_expired_rate_limits_batch_def same_tables_def split: prod.split)
  ultimately show ?thesis using ok db_ok_same by blast
qed

end
