(* ===== verification/Calendar.thy ===== *)
theory Calendar
imports Waitlist Catalog
begin

text \<open>
  The abstract calendar: what a member sees of a resource, namely the claims on its time and
  the queue of wishes, in lists without rows, versions, keysets, savepoints or events. The
  operations of the services implement those of the calendar: a creation claims, a
  cancellation releases and lets the queue settle, a promotion settles.
\<close>

section \<open>The specification\<close>

text \<open>A claim: its holder (None for a blackout) and its window. A wish: entry, member, window.\<close>

type_synonym claim = "uuid option \<times> trange"
type_synonym wish = "uuid \<times> uuid \<times> trange"

record calendar =
  claims :: "claim list"
  wishes :: "wish list"

definition unclaimed :: "trange \<Rightarrow> claim list \<Rightarrow> bool" where
  "unclaimed win cs = (\<forall>c \<in> set cs. \<not> overlaps (snd c) win)"

definition claim_window :: "uuid \<Rightarrow> trange \<Rightarrow> calendar \<Rightarrow> calendar option" where
  "claim_window u win c =
     (if unclaimed win (claims c) then Some (c\<lparr>claims := claims c @ [(Some u, win)]\<rparr>) else None)"

definition release :: "claim \<Rightarrow> calendar \<Rightarrow> calendar" where
  "release cl c = c\<lparr>claims := filter (\<lambda>x. x \<noteq> cl) (claims c)\<rparr>"

text \<open>
  The greedy settlement, oldest wish first: a wish of a disabled member or too close to its
  window is dropped, a blocked one is kept, any other becomes a claim. now n is the n-th
  reading of the clock; a granted wish takes two readings, the others one.
\<close>

fun settle :: "(nat \<Rightarrow> time) \<Rightarrow> (uuid \<Rightarrow> bool) \<Rightarrow> nat \<Rightarrow> claim list \<Rightarrow> wish list \<Rightarrow> claim list \<times> wish list" where
  "settle now enabled n cs [] = (cs, [])"
| "settle now enabled n cs ((i, u, win) # ws) =
     (if \<not> enabled u \<or> lower win < now n + minutes 15 then settle now enabled (Suc n) cs ws
      else if unclaimed win cs then settle now enabled (Suc (Suc n)) (cs @ [(Some u, win)]) ws
      else (case settle now enabled (Suc n) cs ws of (cs', ws') \<Rightarrow> (cs', (i, u, win) # ws')))"

definition settled :: "(nat \<Rightarrow> time) \<Rightarrow> (uuid \<Rightarrow> bool) \<Rightarrow> nat \<Rightarrow> calendar \<Rightarrow> calendar" where
  "settled now enabled n c =
     (case settle now enabled n (claims c) (wishes c) of (cs, ws) \<Rightarrow> \<lparr>claims = cs, wishes = ws\<rparr>)"

section \<open>The abstraction\<close>

definition claim_of :: "booking \<Rightarrow> claim" where "claim_of b = (b_user_id b, b_range b)"

definition wish_of :: "wait_entry \<Rightarrow> wish" where "wish_of e = (w_id e, w_user_id e, w_range e)"

definition claims_on :: "uuid \<Rightarrow> db \<Rightarrow> claim list" where
  "claims_on rid w = map claim_of (filter (\<lambda>b. b_resource_id b = rid \<and> active_booking b) (bookings w))"

definition calendar_of :: "uuid \<Rightarrow> db \<Rightarrow> calendar" where
  "calendar_of rid w =
     \<lparr>claims = claims_on rid w, wishes = map wish_of (sort_key wait_order (waiting_on rid w))\<rparr>"

definition enabled_in :: "db \<Rightarrow> uuid \<Rightarrow> bool" where
  "enabled_in w u = (\<exists>x \<in> set (users w). u_id x = u \<and> u_enabled x)"

lemma unclaimed_iff: "unclaimed (w_range e) (claims_on rid w) \<longleftrightarrow> \<not> (\<exists>b \<in> set (bookings w). blocked_by rid e b)"
  by (auto simp: unclaimed_def claims_on_def claim_of_def blocked_by_def)

lemma unclaimed_window:
  "unclaimed win (claims_on rid w)
   \<longleftrightarrow> \<not> (\<exists>c \<in> set (bookings w). b_resource_id c = rid \<and> active_booking c \<and> overlaps (b_range c) win)"
  by (auto simp: unclaimed_def claims_on_def claim_of_def)

section \<open>Promotion settles\<close>

lemma process_entry_settles:
  assumes ok: "db_ok w" and e: "e \<in> set (waitlist w)" "w_status e = WWaiting" "w_resource_id e = rid"
    and fresh: "fresh_ids (Suc (Suc k)) w" and run: "process_entry rid e w = Inr (got, w')"
  obtains
    (drop) "\<not> enabled_in w (w_user_id e) \<or> lower (w_range e) < clock w (ticks w) + minutes 15"
      "ticks w' = Suc (ticks w)" "claims_on rid w' = claims_on rid w" "e \<notin> set (waitlist w')"
  | (keep) "enabled_in w (w_user_id e)" "\<not> lower (w_range e) < clock w (ticks w) + minutes 15"
      "\<not> unclaimed (w_range e) (claims_on rid w)"
      "ticks w' = Suc (ticks w)" "claims_on rid w' = claims_on rid w" "e \<in> set (waitlist w')"
  | (grant) "enabled_in w (w_user_id e)" "\<not> lower (w_range e) < clock w (ticks w) + minutes 15"
      "unclaimed (w_range e) (claims_on rid w)"
      "ticks w' = Suc (Suc (ticks w))" "claims_on rid w' = claims_on rid w @ [(Some (w_user_id e), w_range e)]"
      "e \<notin> set (waitlist w')"
proof -
  have gone: "e \<notin> set (waitlist w')" if "x \<in> set (waitlist w')" "w_id x = w_id e" "w_status x \<noteq> WWaiting" "db_ok w'" for x
    using that e(2) db_okD(3) [OF that(4)] by (auto simp: entries_ok_def dest: distinct_key_eq)
  have ok': "db_ok w'" using process_entry_keeps [OF ok e run] .
  from process_entry_ok [OF ok e fresh] run obtain x obs where
    x: "x \<in> set (waitlist w')" "w_id x = w_id e" "fate rid e w obs x" "bookings w' = bookings w @ obs"
    by auto
  show thesis
    using run
  proof (cases rule: process_entry_cases)
    case expire
    have "expired_entry (clock w (ticks w)) e \<in> set (waitlist w')"
      using expire(2) e(1) by (auto simp: set_update_where pinned_entry_def)
    then have "e \<notin> set (waitlist w')" by (rule gone) (simp_all add: expired_entry_def ok')
    moreover have "\<not> enabled_in w (w_user_id e) \<or> lower (w_range e) < clock w (ticks w) + minutes 15"
      using expire(3) by (auto simp: enabled_in_def)
    ultimately show thesis using drop expire(2) by (simp add: claims_on_def)
  next
    case blocked
    then have "\<not> unclaimed (w_range e) (claims_on rid w)" by (auto simp: unclaimed_window)
    moreover have "enabled_in w (w_user_id e)" using blocked(4) by (auto simp: enabled_in_def)
    ultimately show thesis using keep blocked(2,5) e(1) by (simp add: claims_on_def)
  next
    case skipped
    then have "obs = []" "x = e" using x db_okD(3) [OF ok] e(1) by (auto simp: entries_ok_def dest: distinct_key_eq)
    then show thesis using x(3) skipped(4) e(2) by (auto simp: fate_def blocked_by_def)
  next
    case (offered r)
    have "offered_entry (uuid_src w (drawn w)) (clock w (Suc (ticks w))) e \<in> set (waitlist w')"
      using offered(2) e(1,2) by (auto simp: set_update_where pinned_entry_def)
    then have "e \<notin> set (waitlist w')" by (rule gone) (simp_all add: offered_entry_def ok')
    moreover have "unclaimed (w_range e) (claims_on rid w)" using offered(6) by (auto simp: unclaimed_window)
    moreover have "enabled_in w (w_user_id e)" using offered(4) by (auto simp: enabled_in_def)
    ultimately show thesis using grant offered(2,5)
      by (simp add: claims_on_def claim_of_def offered_booking_def active_booking_def)
  qed
qed

lemma process_entries_settles:
  assumes "db_ok w" "distinct (map w_id es)" "fresh_ids (2 * length es) w"
    and "\<forall>e \<in> set es. e \<in> set (waitlist w) \<and> w_status e = WWaiting \<and> w_resource_id e = rid"
    and "process_entries rid es w = Inr (got, w')"
  shows "settle (clock w) (enabled_in w) (ticks w) (claims_on rid w) (map wish_of es)
    = (claims_on rid w', map wish_of (filter (\<lambda>e. e \<in> set (waitlist w')) es))"
  using assms
proof (induction es arbitrary: w got)
  case Nil
  then show ?case by simp
next
  case (Cons e es)
  have e: "e \<in> set (waitlist w)" "w_status e = WWaiting" "w_resource_id e = rid"
    and fresh: "fresh_ids (Suc (Suc (2 * length es))) w"
    using Cons.prems by auto
  obtain got1 w1 got2 where step: "process_entry rid e w = Inr (got1, w1)"
    and rest: "process_entries rid es w1 = Inr (got2, w')"
    using Cons.prems(5) by (auto simp: bind_r_Inr)
  from process_entry_ok [OF Cons.prems(1) e fresh] step
  have ok1: "db_ok w1" and fresh1: "fresh_ids (2 * length es) w1" by auto
  have others: "w_id y \<noteq> w_id e" if "y \<in> set es" for y using Cons.prems(2) that by (auto simp: image_iff)
  have still: "\<forall>y \<in> set es. y \<in> set (waitlist w1) \<and> w_status y = WWaiting \<and> w_resource_id y = rid"
    using others untouched_kept [OF process_entry_untouched [OF step]] Cons.prems(4) by auto
  have frame: "clock w1 = clock w" "enabled_in w1 = enabled_in w"
    using process_entry_frame [OF step] by (auto simp: enabled_in_def fun_eq_iff)
  have same: "e \<in> set (waitlist w') \<longleftrightarrow> e \<in> set (waitlist w1)"
  proof
    assume "e \<in> set (waitlist w1)"
    moreover have "w_id e \<notin> w_id ` set es" using others by force
    ultimately show "e \<in> set (waitlist w')" by (rule untouched_kept [OF process_entries_untouched [OF rest]])
  next
    assume in': "e \<in> set (waitlist w')"
    have "waitlist_fate w1 w'" using process_entries_fate [OF rest] .
    then obtain i where "i < length (waitlist w1)" "entry_fate (waitlist w1 ! i) e"
      using in' unfolding waitlist_fate_def by (auto simp: list_all2_conv_all_nth in_set_conv_nth)
    then show "e \<in> set (waitlist w1)" using e(2) by (auto simp: entry_fate_def)
  qed
  have IH: "settle (clock w) (enabled_in w) (ticks w1) (claims_on rid w1) (map wish_of es)
      = (claims_on rid w', map wish_of (filter (\<lambda>e. e \<in> set (waitlist w')) es))"
    using Cons.IH [OF ok1 _ fresh1 still rest] Cons.prems(2) frame by simp
  have wish: "map wish_of (e # es) = (w_id e, w_user_id e, w_range e) # map wish_of es"
    "wish_of e = (w_id e, w_user_id e, w_range e)"
    by (simp_all add: wish_of_def)
  from Cons.prems(1) e fresh step show ?case
  proof (cases rule: process_entry_settles)
    case drop
    then show ?thesis using IH same wish by simp
  next
    case keep
    then show ?thesis using IH same wish by simp
  next
    case grant
    then show ?thesis using IH same wish by simp
  qed
qed

lemma calendar_of_cong:
  "bookings w' = bookings w \<Longrightarrow> waitlist w' = waitlist w \<Longrightarrow> calendar_of rid w' = calendar_of rid w"
  by (simp add: calendar_of_def claims_on_def waiting_on_def)

text \<open>After a scan those wait who waited before and still have their row as it was.\<close>

lemma waiting_after:
  assumes fate: "waitlist_fate w w'" and d: "distinct (map w_id (waitlist w))"
  shows "waiting_on rid w' = filter (\<lambda>e. e \<in> set (waitlist w')) (waiting_on rid w)"
proof -
  let ?Q = "\<lambda>e. w_resource_id e = rid \<and> w_status e = WWaiting"
  have d': "distinct (map w_id (waitlist w'))"
  proof -
    have "map w_id (waitlist w') = map w_id (waitlist w)"
      using fate unfolding waitlist_fate_def by (induction rule: list_all2_induct) (auto simp: entry_fate_def)
    then show ?thesis using d by simp
  qed
  have "filter ?Q t' = filter (\<lambda>e. e \<in> set t') (filter ?Q t)"
    if "list_all2 entry_fate t t'" "distinct (map w_id t)" "distinct (map w_id t')" for t t'
    using that
  proof (induction rule: list_all2_induct)
    case Nil
    then show ?case by simp
  next
    case (Cons x t y t')
    have x: "w_id x = w_id y" "?Q y \<Longrightarrow> y = x" "?Q y \<Longrightarrow> ?Q x" using Cons.hyps(1) by (auto simp: entry_fate_def)
    have ids: "w_id ` set t' = w_id ` set t"
      using Cons.hyps(2) by (induction rule: list_all2_induct) (auto simp: entry_fate_def)
    have "x \<notin> set t'"
    proof
      assume "x \<in> set t'"
      then have "w_id x \<in> w_id ` set t" using ids by blast
      then show False using Cons.prems(1) by simp
    qed
    moreover have "filter (\<lambda>e. e \<in> set (y # t')) (filter ?Q t) = filter (\<lambda>e. e \<in> set t') (filter ?Q t)"
      using Cons.prems(1) x(1) by (intro filter_cong) auto
    ultimately show ?case using Cons x by auto
  qed
  from this [OF _ d d'] fate show ?thesis by (simp add: waiting_on_def waitlist_fate_def)
qed

lemma promotion_settles:
  assumes ok: "db_ok w" and fresh: "fresh_ids (2 * length (waiting_on rid w)) w"
    and run: "promote_waiters rid w = Inr (got, w')"
  shows "calendar_of rid w' = settled (clock w) (enabled_in w) (ticks w) (calendar_of rid w)"
proof -
  let ?es = "queue_of rid None w"
  have d: "distinct (map w_id (waitlist w))" using db_okD(3) [OF ok] by (simp add: entries_ok_def)
  have run': "process_entries rid ?es w = Inr (got, w')" using run promote_waiters_queue [OF d] by simp
  have de: "distinct (map w_id ?es)" using distinct_map_filter [OF d] by (simp add: queue_of_def distinct_map)
  have es: "\<forall>e \<in> set ?es. e \<in> set (waitlist w) \<and> w_status e = WWaiting \<and> w_resource_id e = rid"
    by (auto simp: queue_of_def beyond_def)
  have fr: "fresh_ids (2 * length ?es) w" using fresh by (simp add: queue_of_waiting)
  have "settle (clock w) (enabled_in w) (ticks w) (claims_on rid w) (map wish_of ?es)
      = (claims_on rid w', map wish_of (filter (\<lambda>e. e \<in> set (waitlist w')) ?es))"
    by (rule process_entries_settles [OF ok de fr es run'])
  moreover have "filter (\<lambda>e. e \<in> set (waitlist w')) ?es = sort_key wait_order (waiting_on rid w')"
    unfolding waiting_after [OF process_entries_fate [OF run'] d] queue_of_waiting by (simp add: filter_sort)
  ultimately show ?thesis by (simp add: settled_def calendar_of_def queue_of_waiting)
qed

section \<open>A cancellation releases and settles\<close>

lemma claim_of_unique:
  assumes ok: "db_ok w" and b: "b \<in> set (bookings w)" "active_booking b"
    and c: "c \<in> set (bookings w)" "active_booking c" "b_resource_id c = b_resource_id b"
  shows "claim_of c = claim_of b \<longleftrightarrow> b_id c = b_id b"
proof
  assume "b_id c = b_id b"
  then have "c = b" using distinct_key_eq [of b_id, OF _ c(1) b(1)] db_okD(2) [OF ok] by (simp add: bookings_ok_def)
  then show "claim_of c = claim_of b" by simp
next
  assume same: "claim_of c = claim_of b"
  show "b_id c = b_id b"
  proof (rule ccontr)
    assume "b_id c \<noteq> b_id b"
    then have "c \<noteq> b" by auto
    then have "upper (b_range c) \<le> lower (b_range b) \<or> upper (b_range b) \<le> lower (b_range c)"
      using active_disjoint [OF ok c(1) b(1) _ c(2) b(2) c(3)] by blast
    moreover have "\<not> isempty (b_range b)"
      using bookings_okD(1) [OF db_okD(2) [OF ok] b(1)] by (simp add: booking_check_iff)
    ultimately show False using same by (auto simp: claim_of_def isempty_def)
  qed
qed

lemma cancel_rows_releases:
  assumes ok: "db_ok w" and b: "b \<in> set (bookings w)" "active_booking b"
  shows "calendar_of (b_resource_id b) (cancel_rows (b_id b) s t w)
    = release (claim_of b) (calendar_of (b_resource_id b) w)"
proof -
  let ?on = "\<lambda>x. b_resource_id x = b_resource_id b \<and> active_booking x"
  have "filter ?on (update_where (\<lambda>x. b_id x = i) (cancelled s t) l) = filter (\<lambda>x. b_id x \<noteq> i) (filter ?on l)" for i l
    by (induction l) (auto simp: update_where_def active_booking_def)
  moreover have "filter (\<lambda>x. b_id x \<noteq> b_id b) (filter ?on (bookings w))
      = filter (\<lambda>x. claim_of x \<noteq> claim_of b) (filter ?on (bookings w))"
    using claim_of_unique [OF ok b] by (intro filter_cong) auto
  ultimately have "claims_on (b_resource_id b) (cancel_rows (b_id b) s t w)
      = filter (\<lambda>x. x \<noteq> claim_of b) (claims_on (b_resource_id b) w)"
    by (simp add: claims_on_def cancel_rows_def cancel_row_def filter_map o_def)
  moreover have "waiting_on r (cancel_rows (b_id b) s t w) = waiting_on r w" for r
    by (rule waiting_on_update [where P = "linked_to (b_id b)" and f = "entry_restatus WCancelled t"])
      (auto simp: cancel_rows_def cancel_row_def linked_to_def)
  ultimately show ?thesis by (simp add: calendar_of_def release_def)
qed

lemma audit_cancel_clock:
  "audit_cancel sc i rid s t w = Inr w' \<Longrightarrow> ticks w' = ticks w \<and> clock w' = clock w"
  by (auto simp: audit_cancel_def request_id_or_new_def append_audit_log_def uuid4_def insert_audit_def bind_r_Inr Let_def
      split: if_splits option.splits prod.splits)

lemma carry_out_cancel_settles:
  assumes ok: "db_ok w" and b: "b \<in> set (bookings w)" "active_booking b"
    and actor: "\<forall>p. principal_id sc = Some p \<longrightarrow> p \<in> u_id ` set (users w)"
    and fresh: "fresh_ids (3 + 2 * length (waiting_on (b_resource_id b) w)) w"
    and run: "carry_out_cancel sc (b_resource_id b) (b_id b) (b_version b) s t w = Inr (out, w')"
  shows "calendar_of (b_resource_id b) w' = settled (clock w) (enabled_in w) (ticks w)
    (release (claim_of b) (calendar_of (b_resource_id b) w))"
proof -
  let ?rid = "b_resource_id b" and ?k = "2 * length (waiting_on (b_resource_id b) w)"
  let ?w2 = "cancel_rows (b_id b) s t w"
  obtain n w1 where upd: "update_bookings (\<lambda>x. b_id x = b_id b \<and> b_version x = b_version b) (cancelled s t) w = Inr (n, w1)"
    using run unfolding carry_out_cancel_def by (auto simp: bind_r_Inr)
  have dist: "distinct (map b_id (bookings w))" using db_okD(2) [OF ok] by (simp add: bookings_ok_def)
  have chk: "booking_check (cancelled s t b) = None" using update_bookings_Inr(1) [OF upd] b(1) by simp
  note steps = cancel_steps [OF ok b chk]
  obtain i w3 w4 got where run':
    "append_event EBookingCancelled (cancelled s t b) (Some t) ?w2 = Inr (i, w3)"
    "audit_cancel sc (b_id b) ?rid s t w3 = Inr w4" "promote_waiters ?rid w4 = Inr (got, w')"
    using run steps(1-3) unfolding carry_out_cancel_def by (auto simp: bind_r_Inr)
  have "fresh_ids (Suc (Suc (Suc ?k))) w" using fresh by (simp add: numeral_3_eq_3)
  then have fresh2: "fresh_ids (Suc (Suc (Suc ?k))) ?w2"
    by (rule fresh_ids_same [rotated 3]) (auto simp: cancel_rows_def cancel_row_def ids_def image_update_where)
  from append_event_total [OF steps(4,5,6) fresh2, of EBookingCancelled "Some t"] run'(1)
  have ok3: "db_ok w3" and fresh3: "fresh_ids (Suc (Suc ?k)) w3" by auto
  obtain r where w3: "w3 = ?w2\<lparr>drawn := Suc (drawn ?w2), outbox := outbox ?w2 @ [r]\<rparr>"
    using append_event_Inr [OF run'(1)] by blast
  have users: "users w3 = users w" and time: "ticks w3 = ticks w" "clock w3 = clock w"
    by (simp_all add: w3 cancel_rows_def cancel_row_def)
  have "\<forall>p. principal_id sc = Some p \<longrightarrow> p \<in> u_id ` set (users w3)" using actor users by simp
  from audit_cancel_total [OF fresh3 ok3 this, of "b_id b" ?rid s t] run'(2) have fresh4: "fresh_ids ?k w4" by auto
  note t4 = audit_cancel_keeps [OF run'(2)] and c4 = audit_cancel_clock [OF run'(2)]
  have cal: "calendar_of ?rid w4 = release (claim_of b) (calendar_of ?rid w)"
    using cancel_rows_releases [OF ok b] calendar_of_cong [of w4 w3] calendar_of_cong [of w3 ?w2] t4 w3 by simp
  have "waiting_on ?rid w4 = waiting_on ?rid w"
  proof -
    have "waiting_on ?rid ?w2 = waiting_on ?rid w"
      by (rule waiting_on_update [where P = "linked_to (b_id b)" and f = "entry_restatus WCancelled t"])
        (auto simp: cancel_rows_def cancel_row_def linked_to_def)
    then show ?thesis using waiting_on_cong [of w4 w3 ?rid] waiting_on_cong [of w3 ?w2 ?rid] t4 w3 by simp
  qed
  then have "fresh_ids (2 * length (waiting_on ?rid w4)) w4" using fresh4 by simp
  moreover have "db_ok w4" using t4 ok3 by blast
  ultimately have "calendar_of ?rid w' = settled (clock w4) (enabled_in w4) (ticks w4) (calendar_of ?rid w4)"
    using promotion_settles run'(3) by blast
  moreover have "enabled_in w4 = enabled_in w" using t4 users by (simp add: enabled_in_def fun_eq_iff)
  ultimately show ?thesis using cal c4 time by simp
qed

section \<open>The services implement the calendar\<close>

text \<open>
  C2: creation refines the claim of the calendar: with an active resource and a new id it
  succeeds exactly when the calendar admits the claim, refuses with SlotConflict otherwise,
  and commutes with the abstraction; the calendars of other resources stay as they are.
\<close>

theorem insert_confirmed_refines:
  assumes "db_ok w" "r \<in> set (resources w)" "r_active r" "principal_id sc = Some p" "p \<in> u_id ` set (users w)"
    and "\<not> isempty win" "fresh_ids 1 w"
  shows "case insert_confirmed sc (r_id r) win Reservation w of
      Inl e \<Rightarrow> e = SlotConflict \<and> claim_window p win (calendar_of (r_id r) w) = None
    | Inr (b, w') \<Rightarrow> claim_window p win (calendar_of (r_id r) w) = Some (calendar_of (r_id r) w') \<and>
        (\<forall>i. i \<noteq> r_id r \<longrightarrow> calendar_of i w' = calendar_of i w)"
proof (cases "unclaimed win (claims_on (r_id r) w)")
  case True
  let ?b = "new_booking (uuid_src w (drawn w)) sc (r_id r) win Reservation w"
  let ?w' = "w\<lparr>drawn := Suc (drawn w), bookings := bookings w @ [?b]\<rparr>"
  have "insert_confirmed sc (r_id r) win Reservation w = Inr (?b, ?w')"
    using insert_confirmed_runs [OF assms(1,2,4,5,6,7)] assms(3) True unfolding unclaimed_window by (simp add: Let_def)
  moreover have "claims_on i ?w' = claims_on i w @ (if i = r_id r then [(Some p, win)] else [])" for i
    using assms(4) by (simp add: claims_on_def claim_of_def active_booking_def)
  moreover have "waiting_on i ?w' = waiting_on i w" for i by (simp add: waiting_on_def)
  ultimately show ?thesis using True by (simp add: claim_window_def calendar_of_def)
next
  case False
  then have "insert_confirmed sc (r_id r) win Reservation w = Inl SlotConflict"
    using insert_confirmed_runs [OF assms(1,2,4,5,6,7)] assms(3) unfolding unclaimed_window by auto
  then show ?thesis using False by (simp add: claim_window_def calendar_of_def)
qed

text \<open>
  C3: promotion refines the greedy settlement of the calendar: through the abstraction, the
  paged scan with its savepoints, versions, event rows and clock readings computes exactly
  the settlement of the queue, oldest wish first.
\<close>

theorem promote_waiters_refines:
  assumes "db_ok w" "fresh_ids (2 * length (waiting_on rid w)) w" "promote_waiters rid w = Inr (got, w')"
  shows "calendar_of rid w' = settled (clock w) (enabled_in w) (ticks w) (calendar_of rid w)"
  using assms by (rule promotion_settles)

text \<open>
  C4: a cancellation refines a release followed by a settlement: whatever it does to rows,
  entries, events and audit, the calendar loses exactly the claim of the booking and then
  settles its queue.
\<close>

theorem cancel_booking_refines:
  assumes ok: "db_ok w" and b: "b \<in> set (bookings w)" "active_booking b"
    and sc: "scope_resource_id sc = Some (b_resource_id b)"
    and actor: "\<forall>p. principal_id sc = Some p \<longrightarrow> p \<in> u_id ` set (users w)"
    and fresh: "fresh_ids (3 + 2 * length (waiting_on (b_resource_id b) w)) w"
    and run: "cancel_booking sc (b_id b) v s w = Inr (out, w')"
  shows "calendar_of (b_resource_id b) w' = settled (clock w) (enabled_in w) (Suc (ticks w))
    (release (claim_of b) (calendar_of (b_resource_id b) w))"
proof -
  let ?w1 = "w\<lparr>ticks := Suc (ticks w)\<rparr>"
  obtain ps c where c: "scalar_one_or_none (filter (\<lambda>x. b_id x = b_id b \<and> b_kind x = Reservation \<and> conj_preds ps x)
      (bookings w)) = Inr (Some c)"
    and rest: "b_version c = v" "b_status c = BCancelled \<or>
      carry_out_cancel sc (b_resource_id b) (b_id b) v s (clock w (ticks w)) ?w1 = Inr (out, w')"
    using run sc unfolding cancel_booking_def
    by (auto simp: bind_r_Inr clock_timestamp_def active_booking_def split: option.splits if_splits)
  have "c \<in> set (filter (\<lambda>x. b_id x = b_id b \<and> b_kind x = Reservation \<and> conj_preds ps x) (bookings w))"
    using c by (simp add: scalar_Some)
  then have "c = b"
    using distinct_key_eq [of b_id, OF _ _ b(1)] db_okD(2) [OF ok] by (auto simp: bookings_ok_def)
  then have "carry_out_cancel sc (b_resource_id b) (b_id b) (b_version b) s (clock w (ticks w)) ?w1 = Inr (out, w')"
    using rest b(2) by (auto simp: active_booking_def)
  moreover have "fresh_ids (3 + 2 * length (waiting_on (b_resource_id b) ?w1)) ?w1"
    using fresh_ids_same [of ?w1 w] fresh waiting_on_cong [of ?w1 w] by (simp add: ids_def)
  ultimately have "calendar_of (b_resource_id b) w' = settled (clock ?w1) (enabled_in ?w1) (ticks ?w1)
      (release (claim_of b) (calendar_of (b_resource_id b) ?w1))"
    using carry_out_cancel_settles [of ?w1 b sc s "clock w (ticks w)" out w'] ok b actor by simp
  moreover have "enabled_in ?w1 = enabled_in w" by (simp add: enabled_in_def fun_eq_iff)
  ultimately show ?thesis using calendar_of_cong [of ?w1 w] by simp
qed

section \<open>On the small databases\<close>

lemma sort_two: "sort_key f [x, y] = (if f y < f x then [y, x] else [x, y])"
  by (auto simp: sort_key_def)

theorem insert_confirmed_refines_witness:
  "\<exists>b w'. insert_confirmed ex_scope 1000 \<lparr>lower = hours 14, upper = hours 15\<rparr> Reservation ex_db = Inr (b, w') \<and>
     claim_window 101 \<lparr>lower = hours 14, upper = hours 15\<rparr> (calendar_of 1000 ex_db) = Some (calendar_of 1000 w')"
proof -
  have r: "ex_resource \<in> set (resources ex_db)" "r_active ex_resource" "r_id ex_resource = 1000"
    by (simp_all add: ex_db_def ex_resource_def)
  have p: "principal_id ex_scope = Some 101" "101 \<in> u_id ` set (users ex_db)"
    by (simp_all add: ex_scope_def own_scope_def ex_db_def ex_user_def)
  have f: "fresh_ids 1 ex_db" by (rule fresh_ids_mono [OF ex_db_fresh]) simp
  have "claim_window 101 \<lparr>lower = hours 14, upper = hours 15\<rparr> (calendar_of 1000 ex_db) \<noteq> None"
    by (simp add: claim_window_def calendar_of_def claims_on_def unclaimed_def ex_db_def empty_db_def)
  then show ?thesis
    using insert_confirmed_refines [OF ex_db_ok r(1,2) p ex_db_no_conflict f] r(3) by (auto split: sum.splits)
qed

theorem promote_waiters_refines_witness:
  "\<exists>got w'. promote_waiters 1000 ex_db = Inr (got, w') \<and>
     calendar_of 1000 w' = \<lparr>claims = [(Some 101, \<lparr>lower = hours 14, upper = hours 15\<rparr>)], wishes = []\<rparr>"
proof -
  have len: "length (waiting_on 1000 ex_db) = 2" by (simp add: waiting_on_def ex_db_def ex_entry_def)
  have f: "fresh_ids (2 * length (waiting_on 1000 ex_db)) ex_db"
    unfolding len by (rule fresh_ids_mono [OF ex_db_fresh]) simp
  from promote_waiters_run [OF ex_db_ok f] obtain got w' where run: "promote_waiters 1000 ex_db = Inr (got, w')" by blast
  have "settled (clock ex_db) (enabled_in ex_db) (ticks ex_db) (calendar_of 1000 ex_db)
      = \<lparr>claims = [(Some 101, \<lparr>lower = hours 14, upper = hours 15\<rparr>)], wishes = []\<rparr>"
    by (simp add: settled_def calendar_of_def claims_on_def waiting_on_def wish_of_def wait_order_def sort_two
        enabled_in_def unclaimed_def ex_db_def empty_db_def ex_entry_def ex_user_def time_units)
  then have "calendar_of 1000 w' = \<lparr>claims = [(Some 101, \<lparr>lower = hours 14, upper = hours 15\<rparr>)], wishes = []\<rparr>"
    using promote_waiters_refines [OF ex_db_ok f run] by simp
  then show ?thesis using run by (intro exI conjI)
qed

theorem cancel_booking_refines_witness:
  "\<exists>out w'. cancel_booking ex_member_scope 301 1 ''ill'' ex_booked_db = Inr (out, w') \<and>
     calendar_of 1000 w' = \<lparr>claims = [(Some 101, \<lparr>lower = hours 14, upper = hours 15\<rparr>)], wishes = []\<rparr>"
proof -
  have id: "b_id ex_booking = 301" "b_version ex_booking = 1" "b_resource_id ex_booking = 1000" by (simp_all add: ex_booking_def)
  have w1: "length (waiting_on 1000 ex_booked_db) = 1" by code_simp
  have f: "fresh_ids (3 + 2 * length (waiting_on 1000 ex_booked_db)) ex_booked_db"
    unfolding w1 by (rule fresh_ids_mono [OF ex_booked_fresh]) simp
  have b: "ex_booking \<in> set (bookings ex_booked_db)" "b_kind ex_booking = Reservation" "active_booking ex_booking"
    by (simp_all add: ex_booked_db_def ex_booking_def active_booking_def)
  have p: "conj_preds [\<lambda>b. b_user_id b = Some 102] ex_booking" by (simp add: ex_booking_def)
  have u: "\<forall>p. principal_id ex_member_scope = Some p \<longrightarrow> p \<in> u_id ` set (users ex_booked_db)"
    by (simp add: ex_member_scope_simps ex_booked_db_def ex_user_def)
  have t: "clock ex_booked_db (ticks ex_booked_db)
      < (if allow_running ex_member_scope then upper (b_range ex_booking) else lower (b_range ex_booking))"
    by (simp add: ex_member_scope_simps ex_booked_db_def ex_db_def empty_db_def ex_booking_def time_units)
  have "length ''ill'' \<le> 500" by simp
  from cancel_booking_runs [OF ex_booked_db_ok b ex_member_scope_simps(1,3) p u t this f]
  obtain out w' where run: "cancel_booking ex_member_scope 301 1 ''ill'' ex_booked_db = Inr (out, w')"
    unfolding id by blast
  have "settled (clock ex_booked_db) (enabled_in ex_booked_db) (Suc (ticks ex_booked_db))
      (release (claim_of ex_booking) (calendar_of 1000 ex_booked_db))
    = \<lparr>claims = [(Some 101, \<lparr>lower = hours 14, upper = hours 15\<rparr>)], wishes = []\<rparr>"
    by (simp add: settled_def calendar_of_def claims_on_def waiting_on_def wish_of_def release_def claim_of_def
        enabled_in_def unclaimed_def ex_booked_db_def ex_booking_def ex_db_def empty_db_def ex_entry_def ex_user_def
        active_booking_def time_units)
  moreover have "calendar_of 1000 w' = settled (clock ex_booked_db) (enabled_in ex_booked_db) (Suc (ticks ex_booked_db))
      (release (claim_of ex_booking) (calendar_of 1000 ex_booked_db))"
    using cancel_booking_refines [OF ex_booked_db_ok b(1,3), of ex_member_scope, unfolded id, OF ex_member_scope_simps(1) u f run] .
  ultimately show ?thesis using run by simp
qed

end
