(* ===== verification/System.thy ===== *)
theory System
imports Conservation Calendar
begin

text \<open>
  The whole program as a transition system: its steps are the requests that change state,
  with any scope, guard, header, body and clock, and the turns of the background worker, in
  any order. What others do while a mail is being sent is itself a run of the system. The
  invariant of the booking tables holds in every reachable state.
\<close>

section \<open>Requests\<close>

inductive request :: "server \<Rightarrow> db \<Rightarrow> db \<Rightarrow> bool" for sv :: server where
  authorization: "authorize (sv_env sv) decode pol rq body w = (res, w') \<Longrightarrow> request sv w w'"
| book: "create_booking_endpoint sv meth path bc key sc g now w = (res, w') \<Longrightarrow> request sv w w'"
| cancel: "cancel_booking_endpoint reason sc g w = (res, w') \<Longrightarrow> request sv w w'"
| join: "join_waitlist_endpoint sv bc sc g now w = (res, w') \<Longrightarrow> request sv w w'"
| leave: "delete_waitlist_endpoint sc g w = (res, w') \<Longrightarrow> request sv w w'"
| accept: "accept_waitlist_endpoint sc g w = (res, w') \<Longrightarrow> request sv w w'"
| sign_up: "register_endpoint sv rg cl req_id now w = (res, w') \<Longrightarrow> request sv w w'"
| sign_in: "login_endpoint sv email password cl now w = (res, w') \<Longrightarrow> request sv w w'"
| refresh: "refresh_endpoint sv cl now w = (res, w') \<Longrightarrow> request sv w w'"
| sign_out: "logout_endpoint sv cl now w = (res, w') \<Longrightarrow> request sv w w'"
| new_resource: "create_resource_endpoint json sc g now w = (res, w') \<Longrightarrow> request sv w w'"
| change_resource: "update_resource_endpoint parse_bool json sc g w = (res, w') \<Longrightarrow> request sv w w'"
| archive: "archive_resource_endpoint sc g w = (res, w') \<Longrightarrow> request sv w w'"
| close: "create_blackout_endpoint sv meth path i bl key sc g w = (res, w') \<Longrightarrow> request sv w w'"
| reopen: "cancel_blackout_endpoint sc g w = (res, w') \<Longrightarrow> request sv w w'"
| revoke: "cancel_admin_booking_endpoint i reason sc g w = (res, w') \<Longrightarrow> request sv w w'"
| invite: "create_invitation_endpoint sv json sc g now w = (res, w') \<Longrightarrow> request sv w w'"
| change_user: "update_user_endpoint parse_bool json sc g now w = (res, w') \<Longrightarrow> request sv w w'"
| retry: "retry_outbox_endpoint sc g now w = (res, w') \<Longrightarrow> request sv w w'"
| give_feedback: "create_feedback_endpoint sv fb sc g now w = (res, w') \<Longrightarrow> request sv w w'"

section \<open>Runs\<close>

inductive reaches :: "server \<Rightarrow> db \<Rightarrow> db \<Rightarrow> bool" for sv :: server where
  start: "reaches sv w w"
| served: "reaches sv w w1 \<Longrightarrow> request sv w1 w2 \<Longrightarrow> reaches sv w w2"
| cycle: "reaches sv w w1 \<Longrightarrow> run_cycle seen locked batch_size only now cursor w1 = (res, cursor', w2) \<Longrightarrow> reaches sv w w2"
| beat: "reaches sv w w1 \<Longrightarrow> record_heartbeat seen_at scan_at now w1 = Inr w2 \<Longrightarrow> reaches sv w w2"
| dispatch: "reaches sv w w1 \<Longrightarrow> (\<And>v. reaches sv v (ml_meanwhile m v)) \<Longrightarrow>
    dispatch_turn m locked now renew_now w1 = (msg, res, w2) \<Longrightarrow> reaches sv w w2"
| upkeep: "reaches sv w w1 \<Longrightarrow> run_maintenance ri rr batch_size w1 = Some (ns, w2) \<Longrightarrow> reaches sv w w2"

section \<open>The invariant\<close>

lemma session_keeps: "keeps db_ok f \<Longrightarrow> in_session g f w = (res, w') \<Longrightarrow> db_ok w \<Longrightarrow> db_ok w'"
  using booking_tables.session [of f w g] by simp

lemma behind_keeps:
  assumes "after r f = (res, w')" "db_ok (snd r)" "\<And>w. db_ok w \<Longrightarrow> f w = (res, w') \<Longrightarrow> db_ok w'"
  shows "db_ok w'"
  using assms by (cases r) (auto simp: after_def split: sum.splits)

lemma book_keeps:
  assumes "db_ok w" "create_booking_endpoint sv meth path body key sc g now w = (res, w')"
  shows "db_ok w'"
  using assms
  by (auto simp: create_booking_endpoint_def split: sum.splits
      elim!: behind_keeps session_keeps [OF booking_tables.once [OF create_booking_operation_keeps]]
      intro: booking_tables.limits)

lemma cancel_keeps:
  assumes "db_ok w" "cancel_booking_endpoint reason sc g w = (res, w')"
  shows "db_ok w'"
proof -
  have k: "keeps db_ok (\<lambda>w1. bind_r (cancel_booking sc i v reason w1) (\<lambda>(b, w2). Inr (h b, w2)))" for i v h
    by (rule keepsI) (auto simp: bind_r_Inr intro: cancel_booking_keeps)
  show ?thesis
    using assms by (auto simp: cancel_booking_endpoint_def split: sum.splits option.splits
        elim!: behind_keeps session_keeps [OF k])
qed

lemma leave_keeps:
  assumes "db_ok w" "delete_waitlist_endpoint sc g w = (res, w')"
  shows "db_ok w'"
proof -
  have k: "keeps db_ok (\<lambda>w1. bind_r (decline_entry sc i v w1) (\<lambda>(b, w2). Inr (h b, w2)))" for i v h
    by (rule keepsI) (auto simp: bind_r_Inr intro: decline_entry_keeps)
  show ?thesis
    using assms by (auto simp: delete_waitlist_endpoint_def split: sum.splits option.splits elim!: session_keeps [OF k])
qed

lemma join_keeps:
  assumes "db_ok w" "join_waitlist_endpoint sv body sc g now w = (res, w')"
  shows "db_ok w'"
proof -
  have k: "keeps db_ok (\<lambda>w1. case clock_timestamp w1 of (t, w2) \<Rightarrow>
      bind_r (join_waitlist sc rid s e t w2) (\<lambda>(b, w3). Inr (h b, w3)))" for rid s e h
    by (rule keepsI) (auto simp: clock_timestamp_def bind_r_Inr dest!: join_waitlist_keeps [rotated])
  show ?thesis
    using assms by (auto simp: join_waitlist_endpoint_def split: sum.splits
        elim!: behind_keeps session_keeps [OF k] intro: booking_tables.limits)
qed

lemma accept_keeps:
  assumes "db_ok w" "accept_waitlist_endpoint sc g w = (res, w')"
  shows "db_ok w'"
proof -
  have k: "keeps db_ok (accept_offer sc i v)" for i v by (rule keepsI) (rule accept_offer_keeps)
  show ?thesis
    using assms by (auto simp: accept_waitlist_endpoint_def split: sum.splits option.splits elim!: session_keeps [OF k])
qed

lemma sign_up_keeps:
  assumes "db_ok w" "register_endpoint sv body cl req_id now w = (res, w')"
  shows "db_ok w'"
proof -
  have k: "keeps db_ok (\<lambda>w2. bind_r (register cr body now r w2) (\<lambda>(u, w3). Inr (h u, w3)))" for cr r h
    by (rule keepsI) (auto simp: bind_r_Inr dest: keepsD [OF register_keeps, rotated])
  have fresh: "db_ok w2" if "uuid4 w1 = (r, w2)" "db_ok w1" for w1 r w2
    using that by (auto simp: uuid4_def)
  show ?thesis
    using assms by (auto simp: register_endpoint_def split: option.splits prod.splits
        elim!: behind_keeps transaction_keeps [OF k] intro: booking_tables.limits fresh)
qed

lemma sign_in_keeps:
  assumes "db_ok w" "login_endpoint sv email password cl now w = (res, w')"
  shows "db_ok w'"
proof -
  have k: "keeps db_ok (\<lambda>w1. bind_r (login cr st email password now w1) (\<lambda>(u, w2). Inr (h u, w2)))" for cr st h
    by (rule keepsI) (auto simp: bind_r_Inr dest: keepsD [OF login_keeps, rotated])
  show ?thesis
    using assms by (auto simp: login_endpoint_def Let_def elim!: behind_keeps transaction_keeps [OF k] intro: booking_tables.limits)
qed

lemma refresh_keeps:
  assumes "db_ok w" "refresh_endpoint sv cl now w = (res, w')"
  shows "db_ok w'"
proof -
  have k: "db_ok v" if "rotate_refresh cr st raw now w1 = (y, v)" "db_ok w1" for cr st raw w1 y v
    using rotate_refresh_keeps [OF that(2), of cr st raw now] that(1) by simp
  show ?thesis
    using assms by (auto simp: refresh_endpoint_def Let_def elim!: behind_keeps intro: booking_tables.limits
        split: option.splits sum.splits prod.splits dest: k)
qed

lemma sign_out_keeps:
  assumes "db_ok w" "logout_endpoint sv cl now w = (res, w')"
  shows "db_ok w'"
proof -
  have k: "keeps db_ok (\<lambda>w1. bind_r (case c of None \<Rightarrow> Inr w1 | Some raw \<Rightarrow> revoke_family cr raw now w1) (\<lambda>w2. Inr (h, w2)))"
    for c cr and h :: session_reply
    by (rule keepsI) (auto simp: bind_r_Inr split: option.splits dest!: revoke_family_same db_ok_same)
  show ?thesis
    using assms by (auto simp: logout_endpoint_def Let_def elim!: behind_keeps transaction_keeps [OF k]
        intro: booking_tables.limits)
qed

text \<open>The administrative services.\<close>

lemma admin_services:
  "keeps db_ok (create_resource sc d now)" "keeps db_ok (update_resource sc p)" "keeps db_ok (archive_resource sc)"
  "keeps db_ok (cancel_blackout sc)" "keeps db_ok (cancel_booking sc i v reason)"
  "keeps db_ok (create_invitation cr st sc offer now)" "keeps db_ok (update_user sc up now)"
  "keeps db_ok (retry_event sc now)" "keeps db_ok (create_feedback sc fb now)"
proof -
  show "keeps db_ok (create_resource sc d now)" by (rule keepsI) (drule (1) create_resource_keeps, blast)
  show "keeps db_ok (update_resource sc p)" by (rule keepsI) (drule (1) update_resource_keeps, blast)
  show "keeps db_ok (archive_resource sc)" by (rule keepsI) (drule (1) archive_resource_keeps, blast)
  show "keeps db_ok (cancel_blackout sc)" by (rule keepsI) (rule cancel_blackout_keeps)
  show "keeps db_ok (cancel_booking sc i v reason)" by (rule keepsI) (rule cancel_booking_keeps)
  show "keeps db_ok (create_invitation cr st sc offer now)" by (rule keepsI) (drule (1) create_invitation_keeps, blast)
  show "keeps db_ok (update_user sc up now)" by (rule keepsI) (drule (1) update_user_steps, blast)
  show "keeps db_ok (retry_event sc now)" by (rule keepsI) (drule (1) retry_event_keeps, blast)
  show "keeps db_ok (create_feedback sc fb now)" by (rule keepsI) (drule (1) create_feedback_keeps, blast)
qed

lemma admin_keeps:
  assumes "db_ok w"
  shows "create_resource_endpoint body sc g now w = (res1, w') \<Longrightarrow> db_ok w'"
    "update_resource_endpoint pb body sc g w = (res1, w') \<Longrightarrow> db_ok w'"
    "archive_resource_endpoint sc g w = (res1, w') \<Longrightarrow> db_ok w'"
    "create_blackout_endpoint sv meth path i bl key sc g w = (res2, w') \<Longrightarrow> db_ok w'"
    "cancel_blackout_endpoint sc g w = (res3, w') \<Longrightarrow> db_ok w'"
    "cancel_admin_booking_endpoint i reason sc g w = (res3, w') \<Longrightarrow> db_ok w'"
    "create_invitation_endpoint sv body sc g now w = (res4, w') \<Longrightarrow> db_ok w'"
    "update_user_endpoint pb body sc g now w = (res5, w') \<Longrightarrow> db_ok w'"
    "retry_outbox_endpoint sc g now w = (res6, w') \<Longrightarrow> db_ok w'"
    "create_feedback_endpoint sv fb sc g now w = (res7, w') \<Longrightarrow> db_ok w'"
  using assms
  by (auto simp: create_resource_endpoint_def update_resource_endpoint_def archive_resource_endpoint_def
      create_blackout_endpoint_def cancel_blackout_endpoint_def cancel_admin_booking_endpoint_def
      create_invitation_endpoint_def update_user_endpoint_def retry_outbox_endpoint_def create_feedback_endpoint_def
      split: sum.splits option.splits if_splits
      elim!: behind_keeps session_keeps [OF keeps_replying, OF admin_services(1)] session_keeps [OF keeps_replying, OF admin_services(2)]
        session_keeps [OF keeps_replying, OF admin_services(3)] session_keeps [OF keeps_replying, OF admin_services(4)]
        session_keeps [OF keeps_replying, OF admin_services(5)] session_keeps [OF keeps_replying, OF admin_services(6)]
        session_keeps [OF keeps_replying, OF admin_services(7)] session_keeps [OF keeps_replying, OF admin_services(8)]
        session_keeps [OF keeps_replying, OF admin_services(9)]
        session_keeps [OF booking_tables.once [OF create_blackout_operation_keeps]]
      intro: booking_tables.limits)

lemma authorize_keeps:
  assumes "db_ok w" "authorize ev decode pol rq body w = (res, w')"
  shows "db_ok w'"
  using assms booking_tables.limits(1,2) [OF assms(1), of ev _ "e_now ev"]
  by (auto simp: authorize_def resolve_admin_scope_def split: if_splits sum.splits prod.splits option.splits) (metis snd_conv)+

lemma request_keeps: "request sv w w' \<Longrightarrow> db_ok w \<Longrightarrow> db_ok w'"
  by (induction rule: request.induct)
    (blast intro: authorize_keeps book_keeps cancel_keeps join_keeps leave_keeps accept_keeps sign_up_keeps sign_in_keeps
      refresh_keeps sign_out_keeps admin_keeps)+

lemma reaches_keeps: "reaches sv w w' \<Longrightarrow> db_ok w \<Longrightarrow> db_ok w'"
proof (induction rule: reaches.induct)
  case (dispatch w w1 m locked now renew_now msg res w2)
  then show ?case using dispatch_turn_keeps [of w1 m] by blast
qed (blast intro: request_keeps run_cycle_keeps record_heartbeat_keeps run_maintenance_keeps)+

text \<open>
  C1: in every state the system can reach, whatever requests, worker turns and interleavings
  lead to it: two active bookings of a resource do not overlap; every offered entry has its
  offered booking, for the same member, resource and window, and every offered booking its
  entry and a deadline no later than its start; and every event is of a booking that exists
  and has reached the version of the event.
\<close>

theorem reachable_states_sound:
  assumes "reaches sv w0 w" "db_ok w0"
  shows "(\<forall>a \<in> set (bookings w). \<forall>b \<in> set (bookings w). a \<noteq> b \<and> active_booking a \<and> active_booking b \<and>
        b_resource_id a = b_resource_id b \<longrightarrow>
        upper (b_range a) \<le> lower (b_range b) \<or> upper (b_range b) \<le> lower (b_range a)) \<and>
    (\<forall>e \<in> set (waitlist w). w_status e = WOffered \<longrightarrow>
        (\<exists>b \<in> set (bookings w). w_offered_booking_id e = Some (b_id b) \<and> b_status b = BOffered \<and>
           b_user_id b = Some (w_user_id e) \<and> b_resource_id b = w_resource_id e \<and> b_range b = w_range e)) \<and>
    (\<forall>b \<in> set (bookings w). b_status b = BOffered \<longrightarrow>
        (\<exists>e \<in> set (waitlist w). w_status e = WOffered \<and> w_offered_booking_id e = Some (b_id b)) \<and>
        (\<exists>t. b_expires_at b = Some t \<and> t \<le> lower (b_range b))) \<and>
    (\<forall>r \<in> set (outbox w). \<exists>b \<in> set (bookings w). o_aggregate_id r = b_id b \<and> o_aggregate_version r \<le> b_version b)"
proof -
  have ok: "db_ok w" using reaches_keeps assms by blast
  note parts = db_okD [OF ok]
  have held: "\<exists>t. b_expires_at b = Some t \<and> t \<le> lower (b_range b)" if "b \<in> set (bookings w)" "b_status b = BOffered" for b
    using bookings_okD(1) [OF parts(2) that(1)] that(2) by (auto simp: booking_check_iff split: option.splits)
  show ?thesis
    using active_disjoint [OF ok] parts(4,5) held by (fastforce simp: offers_linked_def offer_of_def events_ok_def)
qed

text \<open>A run of two steps: a member cancels, whereupon the waiting member holds an offer; a beat.\<close>

theorem reachable_states_sound_witness:
  "\<exists>w. reaches ex_server ex_booked_db w \<and> (\<exists>b \<in> set (bookings w). b_id b = 301 \<and> b_status b = BCancelled) \<and>
     (\<forall>b \<in> set (bookings w). b_status b = BOffered \<longrightarrow> (\<exists>e \<in> set (waitlist w). w_offered_booking_id e = Some (b_id b)))"
proof -
  let ?w1 = "begin_tx ex_booked_db"
  have len: "length (waiting_on 1000 ?w1) = 1" by code_simp
  have ok: "db_ok ?w1" using ex_booked_db_ok booking_tables.begun by blast
  have "fresh_ids 10 ?w1" using fresh_ids_same [OF _ _ _ ex_booked_fresh, of ?w1] by (simp add: begin_tx_def ids_def)
  then have f: "fresh_ids (3 + 2 * length (waiting_on 1000 ?w1)) ?w1" unfolding len by (rule fresh_ids_mono) simp
  have b: "ex_booking \<in> set (bookings ?w1)" "b_kind ex_booking = Reservation" "active_booking ex_booking"
    by (simp_all add: ex_booked_db_def ex_booking_def active_booking_def begin_tx_def)
  have p: "conj_preds [\<lambda>b. b_user_id b = Some 102] ex_booking" by (simp add: ex_booking_def)
  have u: "\<forall>p. principal_id ex_member_scope = Some p \<longrightarrow> p \<in> u_id ` set (users ?w1)"
    by (simp add: ex_member_scope_simps ex_booked_db_def ex_user_def begin_tx_def)
  have t: "clock ?w1 (ticks ?w1)
      < (if allow_running ex_member_scope then upper (b_range ex_booking) else lower (b_range ex_booking))"
    by (simp add: ex_member_scope_simps ex_booked_db_def ex_db_def empty_db_def ex_booking_def begin_tx_def time_units)
  have "length ''ill'' \<le> 500" by simp
  from cancel_booking_runs [OF ok b ex_member_scope_simps(1,3) p u t this f] obtain out w2 where
    run: "cancel_booking ex_member_scope (b_id ex_booking) (b_version ex_booking) ''ill'' ?w1 = Inr (out, w2)"
    and gone: "cancelled ''ill'' (clock ?w1 (ticks ?w1)) ex_booking \<in> set (bookings w2)" by blast
  obtain res where "cancel_booking_endpoint ''ill'' ex_member_scope None ex_booked_db = (res, w2)"
    using run by (auto simp: cancel_booking_endpoint_def reason_field_def raise_if_def require_principal_def in_session_def
        in_transaction_def assert_current_def ex_booking_def ex_member_scope_def own_scope_def)
  then have "request ex_server ex_booked_db w2" by (rule request.cancel)
  then have "reaches ex_server ex_booked_db w2" by (rule reaches.served [OF reaches.start])
  moreover obtain w3 where beat: "record_heartbeat True False None w2 = Inr w3" "bookings w3 = bookings w2"
    by (cases "heartbeat w2") (auto simp: record_heartbeat_def beat_time_def clock_timestamp_def Let_def)
  ultimately have r: "reaches ex_server ex_booked_db w3" using reaches.beat by blast
  have "b_id (cancelled ''ill'' t ex_booking) = 301" for t by (simp add: ex_booking_def)
  then have "\<exists>b \<in> set (bookings w3). b_id b = 301 \<and> b_status b = BCancelled"
    using gone beat(2) cancelled_simps(3) by metis
  moreover have "\<forall>b \<in> set (bookings w3). b_status b = BOffered \<longrightarrow> (\<exists>e \<in> set (waitlist w3). w_offered_booking_id e = Some (b_id b))"
    using reachable_states_sound [OF r ex_booked_db_ok] by blast
  ultimately show ?thesis using r by blast
qed

end
