(* ===== verification/Operators.thy ===== *)
theory Operators
imports Oversight Scheduler Envelope
begin

text \<open>
  The operator tools (scripts/seed.py, scripts/reset_password.py, scripts/retention.py) and
  the two fixtures of the test environment (scripts/expire_hold.py,
  scripts/seed_dead_outbox.py). Arguments are the parsed command line, what getpass reads
  (None where the input is aborted), the contents of the approval file if it exists, and the
  application clock. What is printed is left out.
\<close>

section \<open>How a tool ends\<close>

text \<open>sys.exit(1), an exception that leaves the tool, or its return value.\<close>

datatype 'a tool = Exited | Raised exn | Returned 'a

definition committed :: "'a result \<times> db \<Rightarrow> 'a tool \<times> db" where
  "committed r = (case r of (Inl e, w) \<Rightarrow> (Raised e, w) | (Inr x, w) \<Rightarrow> (Returned x, w))"

text \<open>not s, for an optional string.\<close>

definition blank :: "string option \<Rightarrow> bool" where "blank s = (s = None \<or> s = Some [])"

text \<open>The approval file must be named, exist and hold the expected text.\<close>

definition approved :: "(string \<Rightarrow> string option) \<Rightarrow> string option \<Rightarrow> string \<Rightarrow> bool" where
  "approved files path expected =
     (\<not> blank path \<and> (case files (the path) of None \<Rightarrow> False | Some content \<Rightarrow> py_strip content = expected))"

section \<open>The first administrator\<close>

definition bootstrap :: "crypto \<Rightarrow> string \<Rightarrow> string \<Rightarrow> string \<Rightarrow> uuid \<Rightarrow> time \<Rightarrow> db \<Rightarrow> (uuid \<times> db) result" where
  "bootstrap cr norm_email name password req now w =
     bind_r (hash_password (x_argon2 cr) password) (\<lambda>h.
     let (admin_id, w1) = uuid4 w in
     bind_r (insert_user \<lparr>u_id = admin_id, u_email = norm_email, u_password_hash = h, u_display_name = name,
         u_role = Admin, u_enabled = True, u_version = 1, u_created_at = tx_now w1, u_updated_at = tx_now w1\<rparr> w1) (\<lambda>w2.
     bind_r (append_audit_log ''admin.bootstrap'' ''user'' (Some admin_id) (Some admin_id) req
         (JObj [(''email'', JStr norm_email), (''role'', JStr ''admin'')]) now w2) (\<lambda>(_, w3).
     Inr (admin_id, w3))))"

definition run_seed ::
  "crypto \<Rightarrow> string \<Rightarrow> string \<Rightarrow> string option \<Rightarrow> time \<Rightarrow> db \<Rightarrow> uuid tool \<times> db" where
  "run_seed cr email display_name getpass now w =
     (case getpass of
        None \<Rightarrow> (Exited, w)
      | Some password \<Rightarrow>
          if password = [] then (Exited, w)
          else (case (validate_password_length password, normalize_email (x_validator cr) email) of
            (Inr _, Inr norm_email) \<Rightarrow>
              (let name = py_strip display_name in
               if \<not> (1 \<le> length name \<and> length name \<le> 80) then (Exited, w)
               else (let (req, w1) = uuid4 w in
                     if users w1 \<noteq> [] then (Exited, w1)
                     else committed (in_transaction (bootstrap cr norm_email name password req now) w1)))
          | _ \<Rightarrow> (Exited, w)))"

section \<open>Resetting a password\<close>

definition new_password :: "string \<Rightarrow> time \<Rightarrow> user \<Rightarrow> user" where
  "new_password h now u = u\<lparr>u_password_hash := h, u_version := u_version u + 1, u_updated_at := now\<rparr>"

definition reset_locked :: "crypto \<Rightarrow> uuid \<Rightarrow> string \<Rightarrow> uuid \<Rightarrow> time \<Rightarrow> db \<Rightarrow> (unit \<times> db) result" where
  "reset_locked cr target password req now w =
     bind_r (hash_password (x_argon2 cr) password) (\<lambda>h.
     bind_r (update_users (\<lambda>u. u_id u = target) (new_password h now) w) (\<lambda>(_, w1).
     let (revoked_count, w2) = revoke_user_refresh_tokens target now w1 in
     bind_r (append_audit_log ''operator.password_reset'' ''user'' (Some target) None req
       (JObj [(''user_id'', JStr (uuid_str target)), (''revoked_count'', JInt (int revoked_count))]) now w2) (\<lambda>(_, w3).
     Inr ((), w3))))"

text \<open>
  The user is read, and locked again, in one transaction; nothing between the two statements
  changes what they see of this row but a deletion, which the program has no statement for.
\<close>

definition run_reset ::
  "crypto \<Rightarrow> (string \<Rightarrow> string option) \<Rightarrow> string \<Rightarrow> bool \<Rightarrow> string option \<Rightarrow> string option \<Rightarrow> time \<Rightarrow> db \<Rightarrow> unit tool \<times> db" where
  "run_reset cr files user_id_str apply_it approval_file getpass now w =
     (case (parse_uuid user_id_str, getpass) of
        (Some target, Some password) \<Rightarrow>
          (case (password = [], validate_password_length password) of
             (False, Inr _) \<Rightarrow>
               (let (req, w1) = uuid4 w in
                case scalar_one_or_none (filter (\<lambda>u. u_id u = target) (users w1)) of
                  Inl e \<Rightarrow> (Raised e, w1)
                | Inr None \<Rightarrow> (Exited, w1)
                | Inr (Some _) \<Rightarrow>
                    if \<not> apply_it then (Returned (), w1)
                    else if \<not> approved files approval_file (uuid_str target) then (Exited, w1)
                    else committed (in_transaction (reset_locked cr target password req now) w1))
           | _ \<Rightarrow> (Exited, w))
      | _ \<Rightarrow> (Exited, w))"

section \<open>Retention\<close>

record retention =
  rt_target_scope :: "string option"
  rt_account_cutoff_days :: int
  rt_feedback_cutoff_days :: int
  rt_apply :: bool
  rt_approval_file :: "string option"
  rt_backup_ref :: "string option"

definition deleted_suffix :: string where "deleted_suffix = ''@deleted.invalid''"

definition eligible :: "time \<Rightarrow> user \<Rightarrow> bool" where
  "eligible cutoff u = (u_created_at u \<le> cutoff \<and> u_role u \<noteq> Admin \<and> \<not> has_suffix deleted_suffix (u_email u))"

definition anonymized :: "string \<Rightarrow> time \<Rightarrow> user \<Rightarrow> user" where
  "anonymized h now u =
     u\<lparr>u_email := uuid_str (u_id u) @ deleted_suffix, u_display_name := ''Deleted participant'',
       u_password_hash := h, u_enabled := False, u_version := u_version u + 1, u_updated_at := now\<rparr>"

text \<open>UPDATE users of one row by its id, with the CHECKs and the unique e-mail.\<close>

definition write_user :: "user \<Rightarrow> db \<Rightarrow> db result" where
  "write_user u w =
     (case user_check u of
        Some e \<Rightarrow> Inl e
      | None \<Rightarrow>
          if \<exists>x \<in> set (users w). u_id x \<noteq> u_id u \<and> u_email x = u_email u
          then Inl (IntegrityError ''23505'' ''users_email_key'')
          else Inr (w\<lparr>users := update_where (\<lambda>x. u_id x = u_id u) (\<lambda>_. u) (users w)\<rparr>))"

text \<open>
  The loop over the accounts read before; secret i is what os.urandom(32).hex() yields for
  the account i. Counted: accounts, and feedback rows removed with them.
\<close>

fun anonymize_each ::
  "crypto \<Rightarrow> (uuid \<Rightarrow> string) \<Rightarrow> time \<Rightarrow> uuid list \<Rightarrow> nat \<Rightarrow> nat \<Rightarrow> db \<Rightarrow> ((nat \<times> nat) \<times> db) result" where
  "anonymize_each cr secret now [] accounts fb w = Inr ((accounts, fb), w)"
| "anonymize_each cr secret now (i # targets) accounts fb w =
     bind_r (scalar_one_or_none (filter (\<lambda>u. u_id u = i) (users w))) (\<lambda>locked.
     case locked of
       None \<Rightarrow> anonymize_each cr secret now targets accounts fb w
     | Some u \<Rightarrow>
         if has_suffix deleted_suffix (u_email u) then anonymize_each cr secret now targets accounts fb w
         else
         bind_r (hash_password (x_argon2 cr) (secret i)) (\<lambda>h.
         bind_r (write_user (anonymized h now u) w) (\<lambda>w1.
         let w2 = snd (revoke_user_refresh_tokens i now w1);
             n = rowcount (\<lambda>f. f_user_id f = i) (feedback w2);
             w3 = w2\<lparr>feedback := filter (\<lambda>f. f_user_id f \<noteq> i) (feedback w2)\<rparr>
         in anonymize_each cr secret now targets (Suc accounts) (fb + n) w3)))"

definition opt_str :: "string option \<Rightarrow> json" where
  "opt_str s = (case s of None \<Rightarrow> JNull | Some x \<Rightarrow> JStr x)"

definition apply_retention ::
  "crypto \<Rightarrow> (uuid \<Rightarrow> string) \<Rightarrow> retention \<Rightarrow> uuid list \<Rightarrow> time \<Rightarrow> uuid \<Rightarrow> time \<Rightarrow> db \<Rightarrow> ((nat \<times> nat) \<times> db) result" where
  "apply_retention cr secret rt targets feedback_cutoff req now w =
     bind_r (anonymize_each cr secret now targets 0 0 w) (\<lambda>((accounts, fb), w1).
     let old = (\<lambda>f. f_created_at f \<le> feedback_cutoff);
         total = fb + rowcount old (feedback w1);
         w2 = w1\<lparr>feedback := filter (\<lambda>f. \<not> old f) (feedback w1)\<rparr>
     in bind_r (append_audit_log ''operator.retention'' ''retention'' None None req
          (JObj [(''accounts_anonymized'', JInt (int accounts)), (''feedback_deleted'', JInt (int total)),
                 (''backup_ref'', opt_str (rt_backup_ref rt)), (''target_scope'', opt_str (rt_target_scope rt)),
                 (''account_cutoff_days'', JInt (rt_account_cutoff_days rt)),
                 (''feedback_cutoff_days'', JInt (rt_feedback_cutoff_days rt))]) now w2) (\<lambda>(_, w3).
        Inr ((accounts, total), w3)))"

text \<open>
  The accounts are read in a session that closes before the one that changes them opens;
  others may commit in between (meanwhile).
\<close>

definition run_retention ::
  "crypto \<Rightarrow> (uuid \<Rightarrow> string) \<Rightarrow> (string \<Rightarrow> string option) \<Rightarrow> (db \<Rightarrow> db) \<Rightarrow> retention \<Rightarrow> time \<Rightarrow> db \<Rightarrow>
   (nat \<times> nat) tool \<times> db" where
  "run_retention cr secret files meanwhile rt now w =
     (case bind_r (dt_add now (- days (rt_account_cutoff_days rt))) (\<lambda>account_cutoff.
           bind_r (dt_add now (- days (rt_feedback_cutoff_days rt))) (\<lambda>feedback_cutoff.
           Inr (account_cutoff, feedback_cutoff))) of
        Inl e \<Rightarrow> (Raised e, w)
      | Inr (account_cutoff, feedback_cutoff) \<Rightarrow>
          (let (req, w1) = uuid4 w;
               targets = map u_id (filter (eligible account_cutoff) (users w1));
               feedback_count = rowcount (\<lambda>f. f_created_at f \<le> feedback_cutoff) (feedback w1)
           in if \<not> rt_apply rt then (Returned (length targets, feedback_count), w1)
              else if blank (rt_target_scope rt) then (Exited, w1)
              else if \<not> approved files (rt_approval_file rt) (''APPROVE_RETENTION:'' @ the (rt_target_scope rt))
                then (Exited, w1)
              else if blank (rt_backup_ref rt) then (Exited, w1)
              else committed (in_transaction (apply_retention cr secret rt targets feedback_cutoff req now) (meanwhile w1))))"

section \<open>The fixtures of the test environment\<close>

text \<open>seen b is clock\_timestamp() when the UPDATE meets b.\<close>

definition overdue_now :: "(booking \<Rightarrow> time) \<Rightarrow> booking \<Rightarrow> booking" where
  "overdue_now seen b = b\<lparr>b_expires_at := Some (seen b - seconds 5), b_version := b_version b + 1\<rparr>"

fun expire_listed :: "(uuid \<Rightarrow> resource \<Rightarrow> bool) \<Rightarrow> uuid list \<Rightarrow> nat \<Rightarrow> db \<Rightarrow> nat tool \<times> db" where
  "expire_listed locked [] total_expired w = (Returned total_expired, w)"
| "expire_listed locked (r # rs) total_expired w =
     (case in_transaction (expire_and_promote (locked r) r) w of
        (Inl e, w1) \<Rightarrow> (Raised e, w1)
      | (Inr n, w1) \<Rightarrow> expire_listed locked rs (total_expired + n) w1)"

text \<open>order is the order in which SELECT DISTINCT yields the resources.\<close>

definition run_expire_holds ::
  "(booking \<Rightarrow> time) \<Rightarrow> (uuid \<Rightarrow> resource \<Rightarrow> bool) \<Rightarrow> (uuid list \<Rightarrow> uuid list) \<Rightarrow> uuid option \<Rightarrow> uuid option \<Rightarrow> db \<Rightarrow>
   nat tool \<times> db" where
  "run_expire_holds seen locked order resource_id booking_id w =
     (let chosen = (\<lambda>b. b_status b = BOffered \<and>
            (case booking_id of Some i \<Rightarrow> b_id b = i
             | None \<Rightarrow> (case resource_id of Some r \<Rightarrow> b_resource_id b = r | None \<Rightarrow> True)));
          targets = (case booking_id of
              Some i \<Rightarrow> (case find (\<lambda>b. b_id b = i) (bookings w) of None \<Rightarrow> [] | Some b \<Rightarrow> [b_resource_id b])
            | None \<Rightarrow> (case resource_id of
                Some r \<Rightarrow> [r]
              | None \<Rightarrow> order (remdups (map b_resource_id (filter (\<lambda>b. b_status b = BOffered) (bookings w))))))
      in case in_transaction (update_bookings chosen (overdue_now seen)) w of
           (Inl e, w1) \<Rightarrow> (Raised e, w1)
         | (Inr _, w1) \<Rightarrow> expire_listed locked targets 0 w1)"

definition mark_dead :: "outbox_row \<Rightarrow> outbox_row" where
  "mark_dead r = r\<lparr>o_status := ODead, o_attempts := 5, o_last_error := Some ''Simulated delivery failure''\<rparr>"

text \<open>scan is the order in which the unordered queries see the rows.\<close>

definition seed_dead_outbox ::
  "(outbox_row list \<Rightarrow> outbox_row list) \<Rightarrow> (booking list \<Rightarrow> booking list) \<Rightarrow> db \<Rightarrow> (uuid \<times> db) result" where
  "seed_dead_outbox scan scan_b w =
     (case filter (\<lambda>r. o_status r = ODead) (scan (outbox w)) of
        r # _ \<Rightarrow> Inr (o_id r, w)
      | [] \<Rightarrow>
     (case filter (\<lambda>r. o_status r \<noteq> ODelivered) (scan (outbox w)) of
        r # _ \<Rightarrow> bind_r (update_outbox (\<lambda>x. o_id x = o_id r) mark_dead w) (\<lambda>(_, w1). Inr (o_id r, w1))
      | [] \<Rightarrow>
     (case scan_b (bookings w) of
        [] \<Rightarrow> Inl RuntimeError
      | b # _ \<Rightarrow>
          (let (i, w1) = uuid4 w in
           bind_r (insert_outbox \<lparr>o_id = i, o_event_type = EBookingConfirmed, o_aggregate_id = b_id b,
               o_aggregate_version = 1, o_payload = JObj [(''booking_id'', JStr (uuid_str (b_id b)))],
               o_status = ODead, o_attempts = 5, o_occurred_at = tx_now w1, o_available_at = tx_now w1,
               o_lease_until = None, o_lease_token = None, o_delivered_at = None,
               o_last_error = Some ''Simulated delivery failure''\<rparr> w1) (\<lambda>w2. Inr (i, w2))))))"

section \<open>What retention does\<close>

definition gone_user :: "crypto \<Rightarrow> (uuid \<Rightarrow> string) \<Rightarrow> time \<Rightarrow> user \<Rightarrow> user" where
  "gone_user cr secret now u = anonymized (x_argon2 cr (secret (u_id u))) now u"

lemma gone_user_simps [simp]:
  "u_id (gone_user cr secret now u) = u_id u" "u_enabled (gone_user cr secret now u) = False"
  "u_role (gone_user cr secret now u) = u_role u" "u_email (gone_user cr secret now u) = uuid_str (u_id u) @ deleted_suffix"
  by (simp_all add: gone_user_def anonymized_def)

definition revoked_by :: "time \<Rightarrow> uuid set \<Rightarrow> refresh_token list \<Rightarrow> refresh_token list" where
  "revoked_by now S ts = update_where (\<lambda>t. t_user_id t \<in> S \<and> t_revoked_at t = None) (\<lambda>t. t\<lparr>t_revoked_at := Some now\<rparr>) ts"

definition forgotten :: "crypto \<Rightarrow> (uuid \<Rightarrow> string) \<Rightarrow> time \<Rightarrow> uuid set \<Rightarrow> db \<Rightarrow> db" where
  "forgotten cr secret now S w =
     w\<lparr>users := update_where (\<lambda>u. u_id u \<in> S) (gone_user cr secret now) (users w),
       refresh_tokens := revoked_by now S (refresh_tokens w),
       feedback := filter (\<lambda>f. f_user_id f \<notin> S) (feedback w)\<rparr>"

lemma forgotten_step:
  assumes "i \<notin> S"
  shows "forgotten cr secret now S (forgotten cr secret now {i} w) = forgotten cr secret now (insert i S) w"
proof -
  have "update_where (\<lambda>u. u_id u \<in> S) (gone_user cr secret now) (update_where (\<lambda>u. u_id u \<in> {i}) (gone_user cr secret now) us)
      = update_where (\<lambda>u. u_id u \<in> insert i S) (gone_user cr secret now) us" for us
    using assms by (auto simp: update_where_def)
  moreover have "revoked_by now S (revoked_by now {i} ts) = revoked_by now (insert i S) ts" for ts
    by (auto simp: revoked_by_def update_where_def)
  moreover have "filter (\<lambda>f. f_user_id f \<notin> S) (filter (\<lambda>f. f_user_id f \<notin> {i}) fs) = filter (\<lambda>f. f_user_id f \<notin> insert i S) fs" for fs
    by (auto intro!: filter_cong)
  ultimately show ?thesis by (simp add: forgotten_def)
qed

lemma anonymize_one:
  assumes "write_user (anonymized (x_argon2 cr (secret i)) now u) w = Inr w1" "u \<in> set (users w)" "u_id u = i"
    and "distinct (map u_id (users w))"
  shows "(snd (revoke_user_refresh_tokens i now w1))\<lparr>feedback := filter (\<lambda>f. f_user_id f \<noteq> i) (feedback w1)\<rparr>
    = forgotten cr secret now {i} w" "feedback w1 = feedback w"
proof -
  have w1: "w1 = w\<lparr>users := update_where (\<lambda>x. u_id x = i) (\<lambda>_. anonymized (x_argon2 cr (secret i)) now u) (users w)\<rparr>"
    using assms(1,3) by (auto simp: write_user_def anonymized_def split: option.splits if_splits)
  have "update_where (\<lambda>x. u_id x = i) (\<lambda>_. anonymized (x_argon2 cr (secret i)) now u) (users w)
      = update_where (\<lambda>x. u_id x \<in> {i}) (gone_user cr secret now) (users w)"
    using distinct_key_eq [of u_id, OF assms(4) _ assms(2)] assms(3) by (auto simp: update_where_def gone_user_def)
  then show "(snd (revoke_user_refresh_tokens i now w1))\<lparr>feedback := filter (\<lambda>f. f_user_id f \<noteq> i) (feedback w1)\<rparr>
    = forgotten cr secret now {i} w"
    by (simp add: w1 forgotten_def revoke_user_refresh_tokens_def revoke_where_def revoked_by_def)
  show "feedback w1 = feedback w" by (simp add: w1)
qed

lemma anonymize_each_effect:
  assumes "anonymize_each cr secret now targets a f w = Inr ((n, m), w')"
    and "distinct (map u_id (users w))" "distinct targets"
    and "\<forall>i \<in> set targets. \<exists>u \<in> set (users w). u_id u = i \<and> \<not> has_suffix deleted_suffix (u_email u)"
  shows "w' = forgotten cr secret now (set targets) w \<and> n = a + length targets \<and>
    m = f + rowcount (\<lambda>x. f_user_id x \<in> set targets) (feedback w)"
  using assms
proof (induction targets arbitrary: a f w)
  case Nil
  then show ?case by (auto simp: forgotten_def revoked_by_def rowcount_def update_where_none)
next
  case (Cons i targets)
  obtain u where u: "u \<in> set (users w)" "u_id u = i" "\<not> has_suffix deleted_suffix (u_email u)"
    using Cons.prems(4) by auto
  have row: "scalar_one_or_none (filter (\<lambda>x. u_id x = i) (users w)) = Inr (Some u)"
    using filter_key_distinct [OF Cons.prems(2) u(1,2)] by simp
  let ?h = "x_argon2 cr (secret i)"
  obtain w1 where wrote: "write_user (anonymized ?h now u) w = Inr w1"
    and rest: "anonymize_each cr secret now targets (Suc a) (f + rowcount (\<lambda>x. f_user_id x = i) (feedback w1))
      ((snd (revoke_user_refresh_tokens i now w1))\<lparr>feedback := filter (\<lambda>x. f_user_id x \<noteq> i) (feedback w1)\<rparr>) = Inr ((n, m), w')"
    using Cons.prems(1) row u(3)
    by (auto simp: bind_r_Inr hash_password_def Let_def revoke_user_refresh_tokens_def revoke_where_def)
  note one = anonymize_one [where secret = secret and i = i, OF wrote u(1,2) Cons.prems(2)]
  let ?w2 = "forgotten cr secret now {i} w"
  have ids: "map u_id (users ?w2) = map u_id (users w)" by (simp add: forgotten_def map_update_where)
  have still: "\<forall>j \<in> set targets. \<exists>x \<in> set (users ?w2). u_id x = j \<and> \<not> has_suffix deleted_suffix (u_email x)"
  proof
    fix j assume j: "j \<in> set targets"
    then obtain x where "x \<in> set (users w)" "u_id x = j" "\<not> has_suffix deleted_suffix (u_email x)"
      using Cons.prems(4) by auto
    moreover have "j \<noteq> i" using Cons.prems(3) j by auto
    ultimately show "\<exists>x \<in> set (users ?w2). u_id x = j \<and> \<not> has_suffix deleted_suffix (u_email x)"
      by (intro bexI [of _ x]) (auto simp: forgotten_def set_update_where)
  qed
  have "w' = forgotten cr secret now (set targets) ?w2 \<and> n = Suc a + length targets \<and>
      m = f + rowcount (\<lambda>x. f_user_id x = i) (feedback w) + rowcount (\<lambda>x. f_user_id x \<in> set targets) (feedback ?w2)"
    using Cons.IH [of "Suc a" _ ?w2] rest one ids Cons.prems(2,3) still by simp
  moreover have "rowcount (\<lambda>x. f_user_id x = i) fs + rowcount (\<lambda>x. f_user_id x \<in> S) (filter (\<lambda>x. f_user_id x \<notin> {i}) fs)
      = rowcount (\<lambda>x. f_user_id x \<in> insert i S) fs" if "i \<notin> S" for S and fs :: "feedback_row list"
    using that by (induction fs) (auto simp: rowcount_def)
  ultimately show ?case
    using forgotten_step [of i "set targets"] Cons.prems(3) by (simp add: forgotten_def)
qed

text \<open>A target that is gone, or anonymized, by the time it is locked is passed over.\<close>

definition remains :: "db \<Rightarrow> uuid \<Rightarrow> bool" where
  "remains w i = (\<exists>u \<in> set (users w). u_id u = i \<and> \<not> has_suffix deleted_suffix (u_email u))"

lemma anonymize_each_skips:
  assumes "distinct (map u_id (users w))" "distinct targets"
  shows "anonymize_each cr secret now targets a f w = anonymize_each cr secret now (filter (remains w) targets) a f w"
  using assms
proof (induction targets arbitrary: a f w)
  case Nil
  then show ?case by simp
next
  case (Cons i targets)
  note IH = Cons.IH [OF Cons.prems(1)]
  show ?case
  proof (cases "\<exists>u \<in> set (users w). u_id u = i")
    case False
    then have "scalar_one_or_none (filter (\<lambda>u. u_id u = i) (users w)) = Inr None" "\<not> remains w i"
      by (auto simp: scalar_None filter_empty_conv remains_def)
    then show ?thesis using IH Cons.prems(2) by simp
  next
    case True
    then obtain u where u: "u \<in> set (users w)" "u_id u = i" by blast
    have row: "scalar_one_or_none (filter (\<lambda>x. u_id x = i) (users w)) = Inr (Some u)"
      using filter_key_distinct [OF Cons.prems(1) u] by simp
    have "x = u" if "x \<in> set (users w)" "u_id x = i" for x
      using distinct_key_eq [of u_id, OF Cons.prems(1) that(1) u(1)] that(2) u(2) by simp
    then have rem: "remains w i \<longleftrightarrow> \<not> has_suffix deleted_suffix (u_email u)"
      using u unfolding remains_def by blast
    have passed: "anonymize_each cr secret now (i # targets) a f w = anonymize_each cr secret now targets a f w"
      if "\<not> remains w i"
      using row rem that by simp
    show ?thesis
    proof (cases "write_user (anonymized (x_argon2 cr (secret i)) now u) w")
      case (Inl e)
      have "anonymize_each cr secret now (i # ts) b g w = bind_r (hash_password (x_argon2 cr) (secret i)) (\<lambda>_. Inl e)"
        if "remains w i" for ts b g
        using row rem that Inl by (cases "validate_password_length (secret i)") (simp_all add: hash_password_def)
      then show ?thesis
        using passed IH Cons.prems(2) by (cases "remains w i") (simp_all del: anonymize_each.simps)
    next
      case (Inr w1)
      note one = anonymize_one [where secret = secret and i = i, OF Inr u Cons.prems(1)]
      let ?w2 = "forgotten cr secret now {i} w"
      have "map u_id (users ?w2) = map u_id (users w)" by (simp add: forgotten_def map_update_where)
      then have IH2: "anonymize_each cr secret now targets b g ?w2
          = anonymize_each cr secret now (filter (remains ?w2) targets) b g ?w2" for b g
        using Cons.IH [of ?w2] Cons.prems by simp
      have "filter (remains ?w2) targets = filter (remains w) targets"
        using Cons.prems(2) by (intro filter_cong) (auto simp: remains_def forgotten_def set_update_where)
      moreover have "anonymize_each cr secret now (i # ts) b g w = bind_r (hash_password (x_argon2 cr) (secret i))
          (\<lambda>_. anonymize_each cr secret now ts (Suc b) (g + rowcount (\<lambda>f. f_user_id f = i) (feedback w1)) ?w2)"
        if "remains w i" for ts b g
      proof (cases "hash_password (x_argon2 cr) (secret i)")
        case (Inl e)
        then show ?thesis using row rem that by simp
      next
        case h: (Inr h)
        then have "h = x_argon2 cr (secret i)" by (auto simp: hash_password_def bind_r_Inr)
        then show ?thesis
          using row rem that h Inr one(1)
          by (simp add: Let_def) (simp add: revoke_user_refresh_tokens_def revoke_where_def)
      qed
      ultimately show ?thesis
        using passed IH IH2 Cons.prems(2) by (cases "remains w i") (simp_all del: anonymize_each.simps)
    qed
  qed
qed

lemma append_audit_row:
  "append_audit_log act ty tid actor r d t w = Inr (x, w') \<Longrightarrow> w' = w\<lparr>drawn := Suc (drawn w), audit_log := audit_log w @ [x]\<rparr> \<and>
     a_action x = act \<and> a_actor_id x = actor \<and> a_target_id x = tid \<and> a_details x = d"
  by (auto simp: append_audit_log_def insert_audit_def uuid4_def bind_r_Inr Let_def split: option.splits if_splits)

lemma apply_retention_effect:
  assumes run: "apply_retention cr secret rt targets cutoff req now w = Inr ((n, m), w')"
    and d: "distinct (map u_id (users w))" "distinct targets"
    and t: "\<forall>i \<in> set targets. \<exists>u \<in> set (users w). u_id u = i \<and> \<not> has_suffix deleted_suffix (u_email u)"
  shows "\<exists>a. w' = (forgotten cr secret now (set targets) w)\<lparr>drawn := Suc (drawn w),
        feedback := filter (\<lambda>f. f_user_id f \<notin> set targets \<and> \<not> f_created_at f \<le> cutoff) (feedback w), audit_log := audit_log w @ [a]\<rparr> \<and>
      a_action a = ''operator.retention'' \<and> n = length targets \<and> m + length (feedback w') = length (feedback w)"
proof -
  let ?S = "set targets" and ?old = "\<lambda>f. f_created_at f \<le> cutoff"
  obtain fb w1 where each: "anonymize_each cr secret now targets 0 0 w = Inr ((n, fb), w1)"
    and m: "m = fb + rowcount ?old (feedback w1)"
    and au: "\<exists>x d. append_audit_log ''operator.retention'' ''retention'' None None req d now
      (w1\<lparr>feedback := filter (\<lambda>f. \<not> ?old f) (feedback w1)\<rparr>) = Inr (x, w')"
    using run by (auto simp: apply_retention_def bind_r_Inr Let_def)
  note e = anonymize_each_effect [OF each d t]
  obtain x where x: "w' = (w1\<lparr>feedback := filter (\<lambda>f. \<not> ?old f) (feedback w1)\<rparr>)\<lparr>drawn := Suc (drawn w1), audit_log := audit_log w1 @ [x]\<rparr>"
      "a_action x = ''operator.retention''"
    using au by (auto dest!: append_audit_row)
  have fb1: "feedback w1 = filter (\<lambda>f. f_user_id f \<notin> ?S) (feedback w)" using e by (simp add: forgotten_def)
  have "rowcount (\<lambda>x. f_user_id x \<in> ?S) fs + rowcount ?old (filter (\<lambda>f. f_user_id f \<notin> ?S) fs)
      + length (filter (\<lambda>f. f_user_id f \<notin> ?S \<and> \<not> ?old f) fs) = length fs" for fs
    by (induction fs) (auto simp: rowcount_def)
  from this [of "feedback w"] have "m + length (feedback w') = length (feedback w)"
    using m e x(1) fb1 by (simp add: conj_commute)
  then show ?thesis
    using x e fb1 by (intro exI [of _ x]) (simp add: forgotten_def conj_commute)
qed

lemma eligible_targets:
  assumes "distinct (map u_id us)"
  shows "update_where (\<lambda>u. u_id u \<in> u_id ` set (filter P us)) f us = map (\<lambda>u. if P u then f u else u) us"
proof -
  have "u_id u \<in> u_id ` set (filter P us) \<longleftrightarrow> P u" if "u \<in> set us" for u
    using distinct_key_eq [of u_id, OF assms _ that] that by auto
  then show ?thesis by (auto simp: update_where_def)
qed

lemma committed_Returned: "committed r = (Returned x, w) \<longleftrightarrow> r = (Inr x, w)"
  by (cases r) (auto simp: committed_def split: sum.splits)

lemma retention_runs:
  assumes "run_retention cr secret files meanwhile rt now w = (Returned (n, m), w')" "rt_apply rt"
  shows "\<not> blank (rt_target_scope rt) \<and> \<not> blank (rt_backup_ref rt) \<and>
    approved files (rt_approval_file rt) (''APPROVE_RETENTION:'' @ the (rt_target_scope rt)) \<and>
    apply_retention cr secret rt (map u_id (filter (eligible (now - days (rt_account_cutoff_days rt))) (users w)))
      (now - days (rt_feedback_cutoff_days rt)) (uuid_src w (drawn w)) now
      (begin_tx (meanwhile (w\<lparr>drawn := Suc (drawn w)\<rparr>))) = Inr ((n, m), w')"
  using assms
  by (auto simp: run_retention_def dt_add_def uuid4_def Let_def committed_Returned in_transaction_def
      split: sum.splits if_splits)

text \<open>
  C28: an approved retention run reads the accounts that are old enough, not administrators
  and not anonymized before, and then, whatever others commit before its transaction opens,
  anonymizes exactly those of them that are still there and not anonymized yet: each is
  disabled, loses name, address, password, sessions and feedback. Feedback past its cutoff
  goes too, and the counts reported are right. Relative to the database its transaction opens
  on (v), every other account, the bookings, the queue and the events stay as they are, and
  the audit log gains one row.
\<close>

theorem retention_effect:
  assumes run: "run_retention cr secret files meanwhile rt now w = (Returned (n, m), w')" "rt_apply rt"
    and v: "v = meanwhile (w\<lparr>drawn := Suc (drawn w)\<rparr>)"
    and d: "distinct (map u_id (users w))" "distinct (map u_id (users v))"
  defines "read \<equiv> u_id ` set (filter (eligible (now - days (rt_account_cutoff_days rt))) (users w))"
  defines "old \<equiv> \<lambda>u. u_id u \<in> read \<and> \<not> has_suffix deleted_suffix (u_email u)"
  defines "S \<equiv> u_id ` set (filter old (users v))"
  shows "\<not> blank (rt_target_scope rt) \<and> \<not> blank (rt_backup_ref rt) \<and>
    approved files (rt_approval_file rt) (''APPROVE_RETENTION:'' @ the (rt_target_scope rt)) \<and>
    users w' = map (\<lambda>u. if old u then gone_user cr secret now u else u) (users v) \<and>
    n = length (filter old (users v)) \<and>
    (\<forall>t \<in> set (refresh_tokens w'). t_user_id t \<in> S \<longrightarrow> t_revoked_at t \<noteq> None) \<and>
    feedback w' = filter (\<lambda>f. f_user_id f \<notin> S \<and> now - days (rt_feedback_cutoff_days rt) < f_created_at f) (feedback v) \<and>
    m + length (feedback w') = length (feedback v) \<and>
    bookings w' = bookings v \<and> waitlist w' = waitlist v \<and> outbox w' = outbox v \<and>
    (\<exists>a. audit_log w' = audit_log v @ [a] \<and> a_action a = ''operator.retention'')"
proof -
  let ?w2 = "begin_tx v"
  define picked where "picked = map u_id (filter (eligible (now - days (rt_account_cutoff_days rt))) (users w))"
  let ?targets = "filter (remains ?w2) picked"
  note r = retention_runs [OF run, folded v picked_def]
  have users2: "users ?w2 = users v" by (simp add: begin_tx_def)
  have d': "distinct (map u_id (users ?w2))" "distinct picked" "distinct ?targets"
    using d distinct_map_filter [OF d(1)] unfolding users2 by (simp_all add: picked_def)
  have S: "set ?targets = S"
  proof -
    have "i \<in> S \<longleftrightarrow> i \<in> read \<and> (\<exists>u \<in> set (users v). u_id u = i \<and> \<not> has_suffix deleted_suffix (u_email u))" for i
      unfolding S_def old_def by auto
    moreover have "i \<in> set ?targets \<longleftrightarrow> i \<in> read \<and> (\<exists>u \<in> set (users v). u_id u = i \<and> \<not> has_suffix deleted_suffix (u_email u))" for i
      by (auto simp: read_def picked_def remains_def users2)
    ultimately show ?thesis by blast
  qed
  have len: "length ?targets = length (filter old (users v))"
  proof -
    have "distinct (map u_id (filter old (users v)))" by (rule distinct_map_filter [OF d(2)])
    moreover have "set (map u_id (filter old (users v))) = set ?targets" unfolding S by (simp add: S_def)
    ultimately show ?thesis using d'(3) by (metis distinct_card length_map)
  qed
  have applied: "apply_retention cr secret rt ?targets (now - days (rt_feedback_cutoff_days rt)) (uuid_src w (drawn w)) now ?w2
      = Inr ((n, m), w')"
    using r anonymize_each_skips [OF d'(1,2)] by (simp add: apply_retention_def)
  have t: "\<forall>i \<in> set ?targets. \<exists>u \<in> set (users ?w2). u_id u = i \<and> \<not> has_suffix deleted_suffix (u_email u)"
    by (simp add: remains_def)
  obtain a where w': "w' = (forgotten cr secret now S ?w2)\<lparr>drawn := Suc (drawn ?w2),
        feedback := filter (\<lambda>f. f_user_id f \<notin> S \<and> \<not> f_created_at f \<le> now - days (rt_feedback_cutoff_days rt)) (feedback ?w2),
        audit_log := audit_log ?w2 @ [a]\<rparr>"
      and a: "a_action a = ''operator.retention''" "n = length ?targets" "m + length (feedback w') = length (feedback ?w2)"
    using apply_retention_effect [OF applied d'(1,3) t] unfolding S by blast
  have "users w' = map (\<lambda>u. if old u then gone_user cr secret now u else u) (users v)"
    using eligible_targets [OF d(2), of old "gone_user cr secret now"] by (simp add: w' forgotten_def begin_tx_def S_def)
  moreover have "\<forall>t \<in> set (refresh_tokens w'). t_user_id t \<in> S \<longrightarrow> t_revoked_at t \<noteq> None"
    by (auto simp: w' forgotten_def revoked_by_def set_update_where)
  moreover have "n = length (filter old (users v))" using a(2) len by simp
  ultimately show ?thesis using r a(1,3) by (simp add: w' forgotten_def begin_tx_def not_le)
qed

text \<open>
  The role is not read again under the lock: an account that becomes an administrator
  between the two sessions is disabled all the same, the last administrator included.
\<close>

theorem retention_disables_promoted_admin:
  assumes run: "run_retention cr secret files meanwhile rt now w = (Returned (n, m), w')" "rt_apply rt"
    and u: "u \<in> set (users w)" "eligible (now - days (rt_account_cutoff_days rt)) u" "distinct (map u_id (users w))"
    and promoted: "meanwhile = (\<lambda>v. v\<lparr>users := update_where (\<lambda>x. u_id x = u_id u) (\<lambda>x. x\<lparr>u_role := Admin\<rparr>) (users v)\<rparr>)"
  shows "\<exists>x \<in> set (users w'). u_id x = u_id u \<and> u_role x = Admin \<and> \<not> u_enabled x"
proof -
  let ?w2 = "begin_tx (meanwhile (w\<lparr>drawn := Suc (drawn w)\<rparr>))"
  let ?targets = "map u_id (filter (eligible (now - days (rt_account_cutoff_days rt))) (users w))"
  have ids: "map u_id (users ?w2) = map u_id (users w)" by (simp add: begin_tx_def promoted map_update_where)
  have t: "\<forall>i \<in> set ?targets. \<exists>u \<in> set (users ?w2). u_id u = i \<and> \<not> has_suffix deleted_suffix (u_email u)"
  proof
    fix i assume "i \<in> set ?targets"
    then obtain y where y: "y \<in> set (users w)" "u_id y = i" "\<not> has_suffix deleted_suffix (u_email y)"
      by (auto simp: eligible_def)
    let ?y = "if u_id y = u_id u then y\<lparr>u_role := Admin\<rparr> else y"
    have "?y \<in> set (users ?w2)" using y(1) by (auto simp: begin_tx_def promoted update_where_def)
    then show "\<exists>u \<in> set (users ?w2). u_id u = i \<and> \<not> has_suffix deleted_suffix (u_email u)"
      by (rule bexI [rotated]) (use y in simp)
  qed
  have d: "distinct (map u_id (users ?w2))" "distinct ?targets"
    using u(3) distinct_map_filter [OF u(3)] ids by simp_all
  have users: "users w' = users (forgotten cr secret now (set ?targets) ?w2)"
    using apply_retention_effect [OF conjunct2 [OF conjunct2 [OF conjunct2 [OF retention_runs [OF run]]]] d t] by auto
  let ?x = "u\<lparr>u_role := Admin\<rparr>"
  have "?x \<in> set (users ?w2)" using u(1) by (auto simp: begin_tx_def promoted set_update_where)
  moreover have "u_id ?x \<in> set ?targets" using u(1,2) by auto
  ultimately have "gone_user cr secret now ?x \<in> set (users w')"
    by (auto simp: users forgotten_def set_update_where)
  then show ?thesis by (intro bexI [of _ "gone_user cr secret now ?x"]) simp_all
qed

section \<open>What the other tools do\<close>

text \<open>
  A password reset that is applied was approved by a file that holds the id of the user:
  it replaces the password of this user alone, counts the version up, and ends every
  session of the user while those of others go on.
\<close>

theorem reset_password_effect:
  assumes "run_reset cr files user_id_str True approval_file getpass now w = (Returned (), w')"
  shows "\<exists>target password. parse_uuid user_id_str = Some target \<and> getpass = Some password \<and>
    12 \<le> length password \<and> length password \<le> 128 \<and> approved files approval_file (uuid_str target) \<and>
    users w' = update_where (\<lambda>u. u_id u = target) (new_password (x_argon2 cr password) now) (users w) \<and>
    refresh_tokens w' = revoked_by now {target} (refresh_tokens w) \<and> bookings w' = bookings w \<and>
    (\<exists>a. audit_log w' = audit_log w @ [a] \<and> a_action a = ''operator.password_reset'' \<and> a_target_id a = Some target)"
proof -
  obtain target password where t: "parse_uuid user_id_str = Some target" "getpass = Some password"
      "12 \<le> length password" "length password \<le> 128" "approved files approval_file (uuid_str target)"
    and r: "reset_locked cr target password (uuid_src w (drawn w)) now (begin_tx (w\<lparr>drawn := Suc (drawn w)\<rparr>)) = Inr ((), w')"
    using assms
    by (auto simp: run_reset_def uuid4_def Let_def committed_Returned in_transaction_def validate_password_length_def
        split: option.splits sum.splits if_splits bool.splits)
  let ?w2 = "begin_tx (w\<lparr>drawn := Suc (drawn w)\<rparr>)" and ?f = "new_password (x_argon2 cr password) now"
  obtain n w3 x d where upd: "update_users (\<lambda>u. u_id u = target) ?f ?w2 = Inr (n, w3)"
    and au: "append_audit_log ''operator.password_reset'' ''user'' (Some target) None (uuid_src w (drawn w)) d now
      (revoke_where (\<lambda>t. t_user_id t = target) now w3) = Inr (x, w')"
    using r by (auto simp: reset_locked_def bind_r_Inr hash_password_def revoke_user_refresh_tokens_def Let_def)
  have "w3 = ?w2\<lparr>users := update_where (\<lambda>u. u_id u = target) ?f (users ?w2)\<rparr>"
    using upd by (auto simp: update_users_def split: option.splits)
  then show ?thesis
    using t append_audit_row [OF au]
    by (intro exI [of _ target] exI [of _ password]) (simp add: begin_tx_def revoke_where_def revoked_by_def)
qed

text \<open>
  The bootstrap tool creates the first administrator and nothing else: it succeeds only
  on a table without users, leaves exactly one enabled administrator with the normalized
  address, and refuses every later run.
\<close>

theorem seed_once:
  assumes "run_seed cr email display_name getpass now w = (Returned i, w')"
  shows "users w = [] \<and> (\<exists>u. users w' = [u] \<and> u_id u = i \<and> u_role u = Admin \<and> u_enabled u \<and>
      normalize_email (x_validator cr) email = Inr (u_email u)) \<and>
    fst (run_seed cr' email' name' getpass' now' w') = Exited \<and>
    users (snd (run_seed cr' email' name' getpass' now' w')) = users w'"
proof -
  let ?w1 = "w\<lparr>drawn := Suc (drawn w)\<rparr>"
  obtain e name password req where norm: "normalize_email (x_validator cr) email = Inr e"
    and w1: "users w = []"
    and b: "bootstrap cr e name password req now (begin_tx ?w1) = Inr (i, w')"
    using assms
    by (auto simp: run_seed_def uuid4_def Let_def committed_Returned in_transaction_def split: option.splits sum.splits if_splits)
  let ?w2 = "(begin_tx ?w1)\<lparr>drawn := Suc (drawn ?w1)\<rparr>"
  let ?u = "\<lambda>h. \<lparr>u_id = i, u_email = e, u_password_hash = h, u_display_name = name,
         u_role = Admin, u_enabled = True, u_version = 1, u_created_at = tx_now ?w2, u_updated_at = tx_now ?w2\<rparr>"
  obtain h w3 x where ins: "insert_user (?u h) ?w2 = Inr w3"
    and au: "append_audit_log ''admin.bootstrap'' ''user'' (Some i) (Some i) req
        (JObj [(''email'', JStr e), (''role'', JStr ''admin'')]) now w3 = Inr (x, w')"
    using b by (auto simp: bootstrap_def bind_r_Inr uuid4_def begin_tx_def Let_def)
  have "users w3 = [?u h]" using ins w1 by (auto simp: insert_user_def begin_tx_def split: option.splits if_splits)
  then have users: "users w' = [?u h]" using append_audit_row [OF au] by simp
  have "fst (run_seed cr' email' name' getpass' now' w') = Exited"
    "users (snd (run_seed cr' email' name' getpass' now' w')) = users w'"
    using users by (auto simp: run_seed_def uuid4_def Let_def split: option.splits sum.splits)
  then show ?thesis using norm w1 users by simp
qed

text \<open>
  The fixture that marks a row dead leaves the lease of a row in progress in place, which
  the constraint on leases forbids.
\<close>

lemma seed_dead_outbox_in_progress:
  assumes ok: "outbox_ok (outbox w)" and none: "\<forall>r \<in> set (outbox w). o_status r \<noteq> ODead"
    and scan: "scan (outbox w) = r # rest" "set (r # rest) = set (outbox w)" and r: "o_status r = OProcessing"
  shows "seed_dead_outbox scan scan_b w = Inl (IntegrityError ''23514'' ''outbox_lease_check'')"
proof -
  have dead: "filter (\<lambda>r. o_status r = ODead) (scan (outbox w)) = []" using none scan by (auto simp: filter_empty_conv)
  have mem: "r \<in> set (outbox w)" using scan by auto
  have only: "filter (\<lambda>x. o_id x = o_id r) (outbox w) = [r]"
    using ok mem by (auto simp: outbox_ok_def intro: filter_key_distinct)
  have "o_lease_until r \<noteq> None" using outbox_okD [OF ok mem] r by (simp add: outbox_check_iff)
  then have "outbox_check (mark_dead r) = Some (IntegrityError ''23514'' ''outbox_lease_check'')"
    by (simp add: outbox_check_def mark_dead_def check_def)
  then have "update_outbox (\<lambda>x. o_id x = o_id r) mark_dead w = Inl (IntegrityError ''23514'' ''outbox_lease_check'')"
    by (simp add: update_outbox_def only)
  then show ?thesis using dead scan(1) r by (simp add: seed_dead_outbox_def)
qed

section \<open>On small databases\<close>

lemma email_chars:
  "\<forall>c \<in> set (hexchars @ ''-@deleted.invalid''). lower_char c = c \<and> c \<noteq> CHR '' ''"
  by code_simp

lemma anonymized_check:
  assumes "0 < u_version u"
  shows "user_check (anonymized h now u) = None"
proof -
  let ?e = "uuid_str (u_id u) @ deleted_suffix"
  have sub: "set ?e \<subseteq> set (hexchars @ ''-@deleted.invalid'')"
    using set_uuid_str [of "u_id u"] by (auto simp: deleted_suffix_def)
  then have "strip_chars (\<lambda>c. c = CHR '' '') ?e = ?e" using email_chars by (intro strip_chars_absent) blast
  moreover have "py_lower ?e = ?e" unfolding py_lower_def using sub email_chars by (intro map_idI) blast
  moreover have "length (uuid_str (u_id u)) = 36" by (simp add: uuid_str_def Let_def)
  ultimately show ?thesis using assms by (simp add: user_check_def first_some_None anonymized_def deleted_suffix_def)
qed

definition ex_old_db :: db where
  "ex_old_db = (empty_db (days 200))\<lparr>users := [ex_user 101 Member, (ex_user 1 Admin)\<lparr>u_email := ''r@b.c''\<rparr>]\<rparr>"

definition ex_retention :: retention where
  "ex_retention = \<lparr>rt_target_scope = Some ''pilot'', rt_account_cutoff_days = 180, rt_feedback_cutoff_days = 90,
     rt_apply = True, rt_approval_file = Some ''ok'', rt_backup_ref = Some ''b''\<rparr>"

definition ex_file :: "string \<Rightarrow> string option" where
  "ex_file path = Some ''APPROVE_RETENTION:pilot ''"

lemma ex_approved: "approved ex_file (Some ''ok'') ''APPROVE_RETENTION:pilot''"
  by code_simp

lemma append_audit_succeeds:
  assumes "uuid_src w (drawn w) \<notin> a_id ` set (audit_log w)" "\<forall>u. actor = Some u \<longrightarrow> u \<in> u_id ` set (users w)"
  shows "\<exists>x w'. append_audit_log act ty tid actor req d now w = Inr (x, w')"
  using assms by (auto simp: append_audit_log_def insert_audit_def uuid4_def Let_def bind_r_Inr split: option.splits)

lemma no_sessions:
  "refresh_tokens w = [] \<Longrightarrow> snd (revoke_user_refresh_tokens i now w) = w"
  by (cases w) (simp add: revoke_user_refresh_tokens_def revoke_where_def update_where_def)

theorem retention_effect_witness:
  "\<exists>n m w'. run_retention ex_crypto (\<lambda>_. replicate 64 (CHR ''0'')) ex_file (\<lambda>v. v) ex_retention (days 200) ex_old_db = (Returned (n, m), w') \<and>
     n = 1 \<and> map u_enabled (users w') = [False, True]"
proof -
  let ?sec = "\<lambda>_::uuid. replicate 64 (CHR ''0'')"
  let ?old = "eligible (days 200 - days 180)"
  let ?u = "anonymized (replicate 64 (CHR ''0'')) (days 200) (ex_user 101 Member)"
  let ?v = "begin_tx (ex_old_db\<lparr>drawn := Suc (drawn ex_old_db)\<rparr>)"
  let ?w = "?v\<lparr>users := [?u, (ex_user 1 Admin)\<lparr>u_email := ''r@b.c''\<rparr>]\<rparr>"
  have suffix: "\<not> has_suffix deleted_suffix (u_email (ex_user 101 Member))" unfolding ex_user_def by code_simp
  have old: "?old (ex_user 101 Member)" "\<not> ?old ((ex_user 1 Admin)\<lparr>u_email := ''r@b.c''\<rparr>)"
    using suffix by (simp_all add: eligible_def ex_user_def days_def usec_def)
  have due: "filter ?old (users ex_old_db) = [ex_user 101 Member]" using old by (simp add: ex_old_db_def)
  have i: "u_id (ex_user 101 Member) = 101" "u_id ((ex_user 1 Admin)\<lparr>u_email := ''r@b.c''\<rparr>) = 1" by (simp_all add: ex_user_def)
  have v: "users ?v = [ex_user 101 Member, (ex_user 1 Admin)\<lparr>u_email := ''r@b.c''\<rparr>]" "feedback ?v = []"
      "refresh_tokens ?v = []" "audit_log ?v = []"
    by (simp_all add: begin_tx_def ex_old_db_def empty_db_def)
  have "user_check ?u = None" by (rule anonymized_check) (simp add: ex_user_def)
  then have wrote: "write_user ?u ?v = Inr ?w"
    using v i by (simp add: write_user_def update_where_def anonymized_def deleted_suffix_def)
  have "hash_password (x_argon2 ex_crypto) (?sec 101) = Inr (replicate 64 (CHR ''0''))"
    by (simp add: hash_password_def validate_password_length_def ex_crypto_def)
  moreover have "scalar_one_or_none (filter (\<lambda>u. u_id u = 101) (users ?v)) = Inr (Some (ex_user 101 Member))"
    unfolding v using i by (simp add: ex_user_def)
  moreover have "(snd (revoke_user_refresh_tokens 101 (days 200) ?w))\<lparr>feedback := []\<rparr> = ?w"
    using no_sessions [of ?w] v by (simp add: begin_tx_def ex_old_db_def empty_db_def)
  ultimately have "anonymize_each ex_crypto ?sec (days 200) [101] 0 0 ?v = Inr ((1, 0), ?w)"
    using wrote suffix v no_sessions [of ?w] by (simp add: rowcount_def Let_def)
  moreover have "\<exists>w' x. append_audit_log act ty None None req d now ?w = Inr (x, w')" for act ty req d now
    using append_audit_succeeds [of ?w None act ty None req d now] v by auto
  moreover have filled: "?w\<lparr>feedback := []\<rparr> = ?w" by (simp add: begin_tx_def ex_old_db_def empty_db_def)
  ultimately have ran: "\<exists>m w'. apply_retention ex_crypto ?sec ex_retention [101] (days 200 - days 90) req (days 200) ?v = Inr ((1, m), w')" for req
    using v by (auto simp: apply_retention_def bind_r_Inr Let_def filled simp del: anonymize_each.simps)
  have rt: "rt_account_cutoff_days ex_retention = 180" "rt_feedback_cutoff_days ex_retention = 90" "rt_apply ex_retention"
      "rt_target_scope ex_retention = Some ''pilot''" "rt_approval_file ex_retention = Some ''ok''" "rt_backup_ref ex_retention = Some ''b''"
    by (simp_all add: ex_retention_def)
  have cal: "in_calendar (days 200 - days 180)" "in_calendar (days 200 - days 90)" by code_simp+
  have "run_retention ex_crypto ?sec ex_file (\<lambda>v. v) ex_retention (days 200) ex_old_db
    = committed (in_transaction (apply_retention ex_crypto ?sec ex_retention [101] (days 200 - days 90) (uuid_src ex_old_db (drawn ex_old_db)) (days 200))
        (ex_old_db\<lparr>drawn := Suc (drawn ex_old_db)\<rparr>))"
    using due i ex_approved cal rt by (simp add: run_retention_def dt_add_def uuid4_def blank_def Let_def)
  moreover obtain m w' where "apply_retention ex_crypto ?sec ex_retention [101] (days 200 - days 90)
      (uuid_src ex_old_db (drawn ex_old_db)) (days 200) ?v = Inr ((1, m), w')"
    using ran by blast
  ultimately have run: "run_retention ex_crypto ?sec ex_file (\<lambda>v. v) ex_retention (days 200) ex_old_db = (Returned (1, m), w')"
    by (simp add: in_transaction_def committed_def)
  have ids: "distinct (map u_id (users ex_old_db))" by (simp add: ex_old_db_def ex_user_def)
  have "users w' = map (\<lambda>u. if u_id u \<in> u_id ` set (filter ?old (users ex_old_db)) \<and> \<not> has_suffix deleted_suffix (u_email u)
      then gone_user ex_crypto ?sec (days 200) u else u) (users ex_old_db)"
    using retention_effect [OF run rt(3) refl] ids unfolding rt(1) by simp
  then have "map u_enabled (users w') = [False, True]"
    unfolding due using suffix i by (simp add: ex_old_db_def) (simp add: ex_user_def)
  then show ?thesis using run by (intro exI conjI) (assumption | rule refl)+
qed

definition ex_reset_file :: "string \<Rightarrow> string option" where
  "ex_reset_file path = Some (uuid_str 101)"

lemma ex_reset_approved: "approved ex_reset_file (Some ''ok'') (uuid_str 101)"
proof -
  have "\<forall>c \<in> set (hexchars @ ''-''). \<not> py_space c" by code_simp
  then have "py_strip (uuid_str 101) = uuid_str 101"
    unfolding py_strip_def using set_uuid_str [of 101] by (intro strip_chars_absent) auto
  then show ?thesis by (simp add: approved_def ex_reset_file_def blank_def)
qed

theorem reset_password_effect_witness:
  "\<exists>w'. run_reset ex_crypto ex_reset_file (uuid_str 101) True (Some ''ok'') (Some ''correct horse'') 7 ex_old_db = (Returned (), w') \<and>
     map u_password_hash (users w') = [''correct horse'', []]"
proof -
  let ?v = "begin_tx (ex_old_db\<lparr>drawn := Suc (drawn ex_old_db)\<rparr>)" and ?f = "new_password ''correct horse'' 7"
  let ?w = "?v\<lparr>users := [?f (ex_user 101 Member), (ex_user 1 Admin)\<lparr>u_email := ''r@b.c''\<rparr>]\<rparr>"
  have v: "users ?v = [ex_user 101 Member, (ex_user 1 Admin)\<lparr>u_email := ''r@b.c''\<rparr>]" "refresh_tokens ?v = []" "audit_log ?v = []"
    by (simp_all add: begin_tx_def ex_old_db_def empty_db_def)
  have i: "u_id (ex_user 101 Member) = 101" "u_id (ex_user 1 Admin) = 1" by (simp_all add: ex_user_def)
  have "user_check (?f (ex_user 101 Member)) = None" by (simp add: ex_user_def new_password_def) code_simp
  then have upd: "update_users (\<lambda>u. u_id u = 101) ?f ?v = Inr (1, ?w)"
    using v i by (simp add: update_users_def update_where_def rowcount_def)
  have "\<exists>w' x. append_audit_log act ty (Some 101) None req d 7 ?w = Inr (x, w')" for act ty req d
    using append_audit_succeeds [of ?w None act ty "Some 101" req d 7] v by auto
  then have "\<exists>w'. reset_locked ex_crypto 101 ''correct horse'' req 7 ?v = Inr ((), w')" for req
    using upd no_sessions [of ?w] v
    by (simp add: reset_locked_def hash_password_def validate_password_length_def ex_crypto_def bind_r_Inr Let_def split_beta)
  then obtain w' where r: "reset_locked ex_crypto 101 ''correct horse'' (uuid_src ex_old_db (drawn ex_old_db)) 7 ?v = Inr ((), w')"
    by blast
  have "filter (\<lambda>u. u_id u = 101) (users ex_old_db) = [ex_user 101 Member]" by (simp add: ex_old_db_def i)
  then have run: "run_reset ex_crypto ex_reset_file (uuid_str 101) True (Some ''ok'') (Some ''correct horse'') 7 ex_old_db = (Returned (), w')"
    using ex_reset_approved r
    by (simp add: run_reset_def parse_uuid_str validate_password_length_def uuid4_def in_transaction_def committed_def)
  have "users w' = update_where (\<lambda>u. u_id u = 101) ?f (users ex_old_db)"
    using reset_password_effect [OF run] by (auto simp: parse_uuid_str ex_crypto_def)
  then show ?thesis
    using run by (simp add: ex_old_db_def update_where_def i) (simp add: new_password_def ex_user_def)
qed

theorem seed_once_witness:
  "\<exists>i w'. run_seed ex_crypto ''a@b.c'' ''Ada'' (Some ''correct horse'') 7 (empty_db 5) = (Returned i, w') \<and>
     fst (run_seed ex_crypto ''a@b.c'' ''Eve'' (Some ''correct horse'') 8 w') = Exited"
proof -
  have e: "normalize_email (x_validator ex_crypto) ''a@b.c'' = Inr ''a@b.c''" by (simp add: ex_crypto_def) code_simp
  have n: "py_strip ''Ada'' = ''Ada''" by code_simp
  let ?v = "(begin_tx ((empty_db 5)\<lparr>drawn := 1\<rparr>))\<lparr>drawn := 2\<rparr>"
  let ?u = "\<lparr>u_id = 2, u_email = ''a@b.c'', u_password_hash = ''correct horse'', u_display_name = ''Ada'',
         u_role = Admin, u_enabled = True, u_version = 1, u_created_at = 5, u_updated_at = 5\<rparr>"
  have ins: "insert_user ?u ?v = Inr (?v\<lparr>users := [?u]\<rparr>)"
  proof -
    have "user_check ?u = None" by code_simp
    then show ?thesis by (simp add: insert_user_def begin_tx_def empty_db_def)
  qed
  have "\<exists>w' x. append_audit_log act ty (Some 2) (Some 2) req d 7 (?v\<lparr>users := [?u]\<rparr>) = Inr (x, w')" for act ty req d
    using append_audit_succeeds [of "?v\<lparr>users := [?u]\<rparr>" "Some 2" act ty "Some 2" req d 7]
    by (auto simp: begin_tx_def empty_db_def)
  then have "\<exists>w'. bootstrap ex_crypto ''a@b.c'' ''Ada'' ''correct horse'' req 7 (begin_tx ((empty_db 5)\<lparr>drawn := 1\<rparr>)) = Inr (2, w')" for req
    using ins by (simp add: bootstrap_def hash_password_def validate_password_length_def ex_crypto_def uuid4_def begin_tx_def
        empty_db_def bind_r_Inr numeral_2_eq_2 Let_def)
  then obtain w' where r: "bootstrap ex_crypto ''a@b.c'' ''Ada'' ''correct horse'' 1 7 (begin_tx ((empty_db 5)\<lparr>drawn := 1\<rparr>)) = Inr (2, w')"
    by blast
  have run: "run_seed ex_crypto ''a@b.c'' ''Ada'' (Some ''correct horse'') 7 (empty_db 5) = (Returned 2, w')"
    using e n r by (simp add: run_seed_def validate_password_length_def uuid4_def in_transaction_def committed_def empty_db_def)
  show ?thesis using run seed_once [OF run] by blast
qed

end
