(* ===== verification/Observability.thy ===== *)
theory Observability
imports Envelope
begin

text \<open>
  What the application shows of itself: the operational metrics and their endpoint
  (app/observability/metrics.py), the redaction of log lines (app/observability/logging.py),
  what is scrubbed from Sentry events (app/observability/sentry.py), and the readiness
  probe with the schema check behind it (app/db/compatibility.py, app/main.py). Durations
  are integers of microseconds, where the code has floats of seconds.
\<close>

section \<open>Metrics\<close>

text \<open>
  The collectors, and the four module variables that remember the last collection. A
  counter has one value for every label. collected is \_last\_delivery\_counts, None before the
  baseline is established.
\<close>

record metrics =
  http_requests_total :: "string \<times> string \<times> string \<Rightarrow> nat"
  booking_conflicts_total :: "string \<Rightarrow> nat"
  idempotency_total :: "string \<Rightarrow> nat"
  outbox_deliveries_total :: "string \<Rightarrow> nat"
  outbox_pending :: nat
  outbox_lag :: time
  outbox_dead :: nat
  expired_holds_pending :: nat
  worker_heartbeat_age :: time
  db_pool_checked_out :: nat
  collection_age :: time
  collected :: "(string \<Rightarrow> nat) option"
  last_mono :: time
  last_wall :: time

definition inc :: "'l \<Rightarrow> nat \<Rightarrow> ('l \<Rightarrow> nat) \<Rightarrow> 'l \<Rightarrow> nat" where
  "inc l n c = c(l := c l + n)"

definition record_booking_conflict :: "string \<Rightarrow> metrics \<Rightarrow> metrics" where
  "record_booking_conflict operation m =
     (if operation \<in> {''create'', ''blackout'', ''promote''}
      then m\<lparr>booking_conflicts_total := inc operation 1 (booking_conflicts_total m)\<rparr> else m)"

definition record_idempotency_outcome :: "string \<Rightarrow> metrics \<Rightarrow> metrics" where
  "record_idempotency_outcome outcome m =
     (if outcome \<in> {''new'', ''replay'', ''mismatch''}
      then m\<lparr>idempotency_total := inc outcome 1 (idempotency_total m)\<rparr> else m)"

definition record_outbox_delivery :: "string \<Rightarrow> metrics \<Rightarrow> metrics" where
  "record_outbox_delivery outcome m =
     (if outcome \<in> {''sent'', ''skipped''}
      then m\<lparr>outbox_deliveries_total := inc outcome 1 (outbox_deliveries_total m)\<rparr> else m)"

section \<open>Collecting\<close>

text \<open>clock\_timestamp() of a read-only statement on w.\<close>

definition db_time :: "db \<Rightarrow> time" where "db_time w = clock w (ticks w)"

definition collect_pending :: "db \<Rightarrow> metrics \<Rightarrow> metrics" where
  "collect_pending w m = m\<lparr>outbox_pending := rowcount (\<lambda>r. o_status r = OPending) (outbox w)\<rparr>"

definition collect_lag :: "db \<Rightarrow> metrics \<Rightarrow> metrics" where
  "collect_lag w m =
     (let open_events = filter (\<lambda>r. o_status r \<in> {OPending, OProcessing}) (outbox w) in
      m\<lparr>outbox_lag := (if open_events = [] then 0 else db_time w - Min (o_occurred_at ` set open_events))\<rparr>)"

definition collect_dead :: "db \<Rightarrow> metrics \<Rightarrow> metrics" where
  "collect_dead w m = m\<lparr>outbox_dead := rowcount (\<lambda>r. o_status r = ODead) (outbox w)\<rparr>"

text \<open>The counts of the GROUP BY, with 0 for a state that has no group.\<close>

definition delivery_counts :: "db \<Rightarrow> string \<Rightarrow> nat" where
  "delivery_counts w state =
     (if state = ''sent'' then rowcount (\<lambda>d. d_state d = DSent) (deliveries w)
      else if state = ''skipped'' then rowcount (\<lambda>d. d_state d = DSkipped) (deliveries w)
      else 0)"

definition raised_by :: "(string \<Rightarrow> nat) \<Rightarrow> (string \<Rightarrow> nat) \<Rightarrow> string \<Rightarrow> (string \<Rightarrow> nat) \<Rightarrow> string \<Rightarrow> nat" where
  "raised_by previous current state c = (if current state > previous state then inc state (current state - previous state) c else c)"

definition collect_deliveries :: "db \<Rightarrow> metrics \<Rightarrow> metrics" where
  "collect_deliveries w m =
     (let current_counts = delivery_counts w in
      case collected m of
        None \<Rightarrow> m\<lparr>collected := Some current_counts\<rparr>
      | Some last_counts \<Rightarrow>
          m\<lparr>outbox_deliveries_total :=
              raised_by last_counts current_counts ''skipped''
                (raised_by last_counts current_counts ''sent'' (outbox_deliveries_total m)),
            collected := Some current_counts\<rparr>)"

definition collect_holds :: "db \<Rightarrow> metrics \<Rightarrow> metrics" where
  "collect_holds w m =
     m\<lparr>expired_holds_pending := rowcount (\<lambda>b. b_status b = BOffered \<and>
         (case b_expires_at b of None \<Rightarrow> False | Some t \<Rightarrow> t \<le> db_time w)) (bookings w)\<rparr>"

definition collect_heartbeat :: "db \<Rightarrow> metrics \<Rightarrow> metrics" where
  "collect_heartbeat w m =
     m\<lparr>worker_heartbeat_age := (case heartbeat w of None \<Rightarrow> seconds 999999 | Some h \<Rightarrow> db_time w - h_seen_at h)\<rparr>"

definition collection :: "(db \<Rightarrow> metrics \<Rightarrow> metrics) list" where
  "collection = [collect_pending, collect_lag, collect_dead, collect_deliveries, collect_holds, collect_heartbeat]"

text \<open>
  The six statements in a row, each on the database it sees. failure is the number of
  the statement that does not return (an error, or the deadline of a second) with its
  exception; pool is what the connection pool reports, None where that raises.
\<close>

fun collect_all :: "(db \<Rightarrow> metrics \<Rightarrow> metrics) list \<Rightarrow> nat \<Rightarrow> (nat \<Rightarrow> db) \<Rightarrow> metrics \<Rightarrow> metrics" where
  "collect_all [] k seen m = m"
| "collect_all (f # fs) k seen m = collect_all fs (Suc k) seen (f (seen k) m)"

definition refresh_operational_metrics ::
  "(nat \<times> exn) option \<Rightarrow> (nat \<Rightarrow> db) \<Rightarrow> nat option \<Rightarrow> time \<Rightarrow> time \<Rightarrow> metrics \<Rightarrow> unit result \<times> metrics" where
  "refresh_operational_metrics failure seen pool now_mono now_wall m =
     (case failure of
        Some (k, e) \<Rightarrow> (Inl e, collect_all (take k collection) 0 seen m)
      | None \<Rightarrow> (Inr (), (collect_all collection 0 seen m)
          \<lparr>db_pool_checked_out := (case pool of None \<Rightarrow> 0 | Some n \<Rightarrow> n),
           last_mono := now_mono, last_wall := now_wall, collection_age := 0\<rparr>))"

section \<open>The endpoint and the middleware\<close>

text \<open>The clocks when the scrape starts, and when the collection ends.\<close>

definition scrape ::
  "(nat \<times> exn) option \<Rightarrow> (nat \<Rightarrow> db) \<Rightarrow> nat option \<Rightarrow> time \<Rightarrow> time \<Rightarrow> time \<Rightarrow> time \<Rightarrow> metrics \<Rightarrow> metrics" where
  "scrape failure seen pool now_mono now_wall end_mono end_wall m =
     (if now_mono - last_mono m \<ge> seconds 15 then
        (case refresh_operational_metrics failure seen pool end_mono end_wall m of
           (Inr _, m1) \<Rightarrow> m1
         | (Inl _, m1) \<Rightarrow>
             m1\<lparr>collection_age := max (if last_wall m1 > 0 then now_wall - last_wall m1 else now_mono - last_mono m1) 0\<rparr>)
      else m)"

definition route_template :: "string option \<Rightarrow> string" where
  "route_template route = (case route of None \<Rightarrow> ''unmatched'' | Some p \<Rightarrow> p)"

definition status_class :: "int \<Rightarrow> string" where
  "status_class status_code = nat_str (nat (status_code div 100)) @ ''xx''"

definition count_request :: "string \<Rightarrow> string option \<Rightarrow> int \<Rightarrow> metrics \<Rightarrow> metrics" where
  "count_request meth route status_code m =
     m\<lparr>http_requests_total := inc (meth, route_template route, status_class status_code) 1 (http_requests_total m)\<rparr>"

definition fresh_metrics :: metrics where
  "fresh_metrics =
     \<lparr>http_requests_total = (\<lambda>_. 0), booking_conflicts_total = (\<lambda>_. 0), idempotency_total = (\<lambda>_. 0),
      outbox_deliveries_total = (\<lambda>_. 0), outbox_pending = 0, outbox_lag = 0, outbox_dead = 0,
      expired_holds_pending = 0, worker_heartbeat_age = 0, db_pool_checked_out = 0, collection_age = 0,
      collected = None, last_mono = - seconds 100, last_wall = 0\<rparr>"

section \<open>Counting deliveries once\<close>

record scrape_input =
  si_failure :: "(nat \<times> exn) option"
  si_seen :: "nat \<Rightarrow> db"
  si_pool :: "nat option"
  si_now_mono :: time
  si_now_wall :: time
  si_end_mono :: time
  si_end_wall :: time

definition scrape_with :: "scrape_input \<Rightarrow> metrics \<Rightarrow> metrics" where
  "scrape_with p = scrape (si_failure p) (si_seen p) (si_pool p) (si_now_mono p) (si_now_wall p) (si_end_mono p) (si_end_wall p)"

text \<open>The tallies that the fourth statement of a scrape finds, if it gets there.\<close>

definition tallies :: "scrape_input \<Rightarrow> string \<Rightarrow> nat" where
  "tallies p = delivery_counts (si_seen p 3)"

lemma collected_others [simp]:
  "collected (collect_pending w m) = collected m" "collected (collect_lag w m) = collected m"
  "collected (collect_dead w m) = collected m" "collected (collect_holds w m) = collected m"
  "collected (collect_heartbeat w m) = collected m"
  "outbox_deliveries_total (collect_pending w m) = outbox_deliveries_total m"
  "outbox_deliveries_total (collect_lag w m) = outbox_deliveries_total m"
  "outbox_deliveries_total (collect_dead w m) = outbox_deliveries_total m"
  "outbox_deliveries_total (collect_holds w m) = outbox_deliveries_total m"
  "outbox_deliveries_total (collect_heartbeat w m) = outbox_deliveries_total m"
  by (simp_all add: collect_pending_def collect_lag_def collect_dead_def collect_holds_def collect_heartbeat_def Let_def)

text \<open>What a scrape does to the delivery counter: nothing, or the fourth statement.\<close>

definition delivered_part :: "metrics \<Rightarrow> (string \<Rightarrow> nat) \<times> (string \<Rightarrow> nat) option" where
  "delivered_part m = (outbox_deliveries_total m, collected m)"

lemma delivered_part_collect:
  "delivered_part (collect_deliveries w m) =
     (case collected m of
        None \<Rightarrow> (outbox_deliveries_total m, Some (delivery_counts w))
      | Some c \<Rightarrow> (raised_by c (delivery_counts w) ''skipped'' (raised_by c (delivery_counts w) ''sent'' (outbox_deliveries_total m)),
          Some (delivery_counts w)))"
  by (auto simp: delivered_part_def collect_deliveries_def Let_def split: option.splits)

lemma collect_deliveries_cong:
  "delivered_part m = delivered_part m' \<Longrightarrow> delivered_part (collect_deliveries w m) = delivered_part (collect_deliveries w m')"
  by (auto simp: delivered_part_collect) (auto simp: delivered_part_def split: option.splits)

lemma delivered_part_same:
  "delivered_part (collect_pending w m) = delivered_part m" "delivered_part (collect_lag w m) = delivered_part m"
  "delivered_part (collect_dead w m) = delivered_part m" "delivered_part (collect_holds w m) = delivered_part m"
  "delivered_part (collect_heartbeat w m) = delivered_part m"
  by (simp_all add: delivered_part_def)

lemma collect_all_delivered:
  "delivered_part (collect_all (take k collection) 0 seen m) =
     delivered_part (if k \<le> 3 then m else collect_deliveries (seen 3) m)"
proof -
  have "delivered_part (collect_deliveries w (collect_dead a (collect_lag b (collect_pending c m)))) = delivered_part (collect_deliveries w m)" for w a b c
    by (rule collect_deliveries_cong) (simp add: delivered_part_same)
  moreover have "k = 0 \<or> k = 1 \<or> k = 2 \<or> k = 3 \<or> k = 4 \<or> k = 5 \<or> 6 \<le> k" by arith
  ultimately show ?thesis
    by (elim disjE) (simp_all add: collection_def delivered_part_same eval_nat_numeral)
qed

text \<open>
  The scrapes of a run that get to count the deliveries, from the timing and the failures
  alone: 15 seconds have passed since the last collection that was completed (since), and no
  statement up to the fourth fails.
\<close>

fun counting :: "time \<Rightarrow> scrape_input list \<Rightarrow> scrape_input list" where
  "counting since [] = []"
| "counting since (p # ps) =
     (if si_now_mono p - since < seconds 15 then counting since ps
      else (case si_failure p of
              None \<Rightarrow> p # counting (si_end_mono p) ps
            | Some (k, _) \<Rightarrow> if 3 < k then p # counting since ps else counting since ps))"

lemma last_mono_collect_all: "last_mono (collect_all (take k collection) 0 seen m) = last_mono m"
proof -
  have "k = 0 \<or> k = 1 \<or> k = 2 \<or> k = 3 \<or> k = 4 \<or> k = 5 \<or> 6 \<le> k" by arith
  then show ?thesis
    by (elim disjE) (simp_all add: collection_def eval_nat_numeral collect_pending_def collect_lag_def collect_dead_def
        collect_deliveries_def collect_holds_def collect_heartbeat_def Let_def split: option.splits)
qed

lemma scrape_step:
  "delivered_part (scrape_with p m) =
     delivered_part (if si_now_mono p - last_mono m < seconds 15 then m
       else (case si_failure p of None \<Rightarrow> collect_deliveries (si_seen p 3) m
             | Some (k, _) \<Rightarrow> if 3 < k then collect_deliveries (si_seen p 3) m else m))"
  "last_mono (scrape_with p m) =
     (if si_now_mono p - last_mono m < seconds 15 then last_mono m
      else case si_failure p of None \<Rightarrow> si_end_mono p | Some _ \<Rightarrow> last_mono m)"
proof -
  have all: "collect_all collection 0 seen m = collect_all (take 6 collection) 0 seen m" for seen
    by (simp add: collection_def)
  have rest: "delivered_part (m\<lparr>db_pool_checked_out := a\<rparr>) = delivered_part m" "delivered_part (m\<lparr>last_mono := b\<rparr>) = delivered_part m"
      "delivered_part (m\<lparr>last_wall := c\<rparr>) = delivered_part m" "delivered_part (m\<lparr>collection_age := d\<rparr>) = delivered_part m"
      for a b c d and m :: metrics
    by (simp_all add: delivered_part_def)
  show "delivered_part (scrape_with p m) =
     delivered_part (if si_now_mono p - last_mono m < seconds 15 then m
       else (case si_failure p of None \<Rightarrow> collect_deliveries (si_seen p 3) m
             | Some (k, _) \<Rightarrow> if 3 < k then collect_deliveries (si_seen p 3) m else m))"
    by (simp add: scrape_with_def scrape_def refresh_operational_metrics_def rest all collect_all_delivered split: option.splits)
  show "last_mono (scrape_with p m) =
     (if si_now_mono p - last_mono m < seconds 15 then last_mono m
      else case si_failure p of None \<Rightarrow> si_end_mono p | Some _ \<Rightarrow> last_mono m)"
    by (simp add: scrape_with_def scrape_def refresh_operational_metrics_def last_mono_collect_all split: option.splits)
qed

lemma raised_by_adds:
  assumes "\<forall>s. b s \<le> a s" "\<forall>s. s \<notin> {''sent'', ''skipped''} \<longrightarrow> a s = 0"
  shows "raised_by b a ''skipped'' (raised_by b a ''sent'' c) s = c s + (a s - b s)"
proof -
  have "b s \<le> a s" "s \<notin> {''sent'', ''skipped''} \<longrightarrow> a s = 0" using assms by blast+
  then show ?thesis by (cases "s = ''sent''"; cases "s = ''skipped''") (auto simp: raised_by_def inc_def)
qed

text \<open>The counter after a run: the tallies of the last counting scrape over the baseline b.\<close>

definition delivered_since :: "(string \<Rightarrow> nat) \<Rightarrow> (string \<Rightarrow> nat) \<Rightarrow> scrape_input list \<Rightarrow> (string \<Rightarrow> nat) \<times> (string \<Rightarrow> nat) option" where
  "delivered_since t b cs =
     (if cs = [] then (t, Some b) else (\<lambda>s. t s + (tallies (last cs) s - b s), Some (tallies (last cs))))"

lemma counting_set: "set (counting since ps) \<subseteq> set ps"
proof (induction ps arbitrary: since)
  case Nil
  then show ?case by simp
next
  case (Cons p ps)
  have "set (counting t ps) \<subseteq> insert p (set ps)" for t using Cons [of t] by blast
  then show ?case by (auto split: option.splits if_splits simp del: insert_iff simp: insert_subset)
qed

lemma collect_delivered_some:
  assumes "delivered_part m = (t, Some b)" "\<forall>s. b s \<le> tallies p s"
  shows "delivered_part (collect_deliveries (si_seen p 3) m) = (\<lambda>s. t s + (tallies p s - b s), Some (tallies p))"
proof -
  have "\<forall>s. s \<notin> {''sent'', ''skipped''} \<longrightarrow> tallies p s = 0" by (simp add: tallies_def delivery_counts_def)
  from raised_by_adds [OF assms(2) this] show ?thesis
    using assms(1) by (auto simp: delivered_part_def collect_deliveries_def Let_def tallies_def)
qed

lemma counted_from:
  assumes "delivered_part m = (t, Some b)" "\<forall>p \<in> set ps. \<forall>s. b s \<le> tallies p s"
    and "sorted_wrt (\<lambda>p q. \<forall>s. tallies p s \<le> tallies q s) ps"
  shows "delivered_part (fold scrape_with ps m) = delivered_since t b (counting (last_mono m) ps)"
  using assms
proof (induction ps arbitrary: m t b)
  case Nil
  then show ?case by (simp add: delivered_since_def)
next
  case (Cons p ps)
  let ?m = "scrape_with p m"
  have later: "\<forall>q \<in> set ps. \<forall>s. b s \<le> tallies q s" "\<forall>q \<in> set ps. \<forall>s. tallies p s \<le> tallies q s"
    "sorted_wrt (\<lambda>p q. \<forall>s. tallies p s \<le> tallies q s) ps" "\<forall>s. b s \<le> tallies p s"
    using Cons.prems(2,3) by auto
  have keep: "delivered_part ?m = (t, Some b) \<Longrightarrow>
      delivered_part (fold scrape_with ps ?m) = delivered_since t b (counting (last_mono ?m) ps)"
    using Cons.IH [OF _ later(1,3)] by blast
  have step: "delivered_part (fold scrape_with ps ?m) = delivered_since t b (p # counting (last_mono ?m) ps)"
    if "delivered_part ?m = delivered_part (collect_deliveries (si_seen p 3) m)"
  proof -
    let ?t = "\<lambda>s. t s + (tallies p s - b s)" and ?cs = "counting (last_mono ?m) ps"
    have "delivered_part ?m = (?t, Some (tallies p))"
      using that collect_delivered_some [OF Cons.prems(1) later(4)] by simp
    from Cons.IH [OF this later(2,3)] have now: "delivered_part (fold scrape_with ps ?m) = delivered_since ?t (tallies p) ?cs" .
    have "b s + (tallies p s - b s) = tallies p s" "tallies p s \<le> tallies q s" if "q \<in> set ps" for q s
      using later(2,4) that by auto
    moreover have "?cs \<noteq> [] \<Longrightarrow> last ?cs \<in> set ps" using counting_set last_in_set by blast
    ultimately have "?cs \<noteq> [] \<Longrightarrow> ?t s + (tallies (last ?cs) s - tallies p s) = t s + (tallies (last ?cs) s - b s)" for s
      by (metis (no_types, lifting) add.assoc le_add_diff_inverse diff_add_assoc2 add_diff_cancel_left' le_trans le_add1 later(4))
    then show ?thesis unfolding now by (auto simp: delivered_since_def)
  qed
  show ?case
    using keep step scrape_step [of p m] Cons.prems(1) by (auto split: option.splits if_splits)
qed

text \<open>
  C30: which deliveries the counter has counted, however the scrapes are timed, fail or run
  into their deadline, as long as the receipts of the table only grow. Of the scrapes that get
  to count (cs), the first sets the baseline; after the last one the counter stands, for
  each outcome, at exactly the settled deliveries it found over those of the baseline, so that
  none in between is missed or counted twice.
\<close>

theorem deliveries_counted_once:
  assumes "sorted_wrt (\<lambda>p q. \<forall>s. tallies p s \<le> tallies q s) ps"
    and m: "m = fold scrape_with ps fresh_metrics" and cs: "cs = counting (- seconds 100) ps"
  shows "if cs = [] then collected m = None \<and> outbox_deliveries_total m = (\<lambda>_. 0)
    else collected m = Some (tallies (last cs)) \<and>
      (\<forall>s. outbox_deliveries_total m s = tallies (last cs) s - tallies (hd cs) s)"
proof -
  have "if cs = [] then delivered_part m = (\<lambda>_. 0, None)
      else delivered_part m = delivered_since (\<lambda>_. 0) (tallies (hd cs)) (tl cs)"
    if "sorted_wrt (\<lambda>p q. \<forall>s. tallies p s \<le> tallies q s) ps" "delivered_part m0 = (\<lambda>_. 0, None)"
      "m = fold scrape_with ps m0" "cs = counting (last_mono m0) ps" for m0
    using that
  proof (induction ps arbitrary: m0)
    case Nil
    then show ?case by simp
  next
    case (Cons p ps)
    let ?m = "scrape_with p m0"
    have rest: "sorted_wrt (\<lambda>p q. \<forall>s. tallies p s \<le> tallies q s) ps" "\<forall>q \<in> set ps. \<forall>s. tallies p s \<le> tallies q s"
      using Cons.prems(1) by simp_all
    have base: "delivered_part (collect_deliveries (si_seen p 3) m0) = (\<lambda>_. 0, Some (tallies p))"
      using Cons.prems(2) by (auto simp: delivered_part_def collect_deliveries_def Let_def tallies_def)
    have first: "delivered_part (fold scrape_with ps ?m) = delivered_since (\<lambda>_. 0) (tallies p) (counting (last_mono ?m) ps)"
      if "delivered_part ?m = delivered_part (collect_deliveries (si_seen p 3) m0)"
      using counted_from [OF _ rest(2,1), of ?m] that base by simp
    show ?case
      using Cons.IH [OF rest(1), of ?m] first scrape_step [of p m0] Cons.prems(2-4)
      by (auto split: option.splits if_splits)
  qed
  from this [of fresh_metrics] assms have d: "if cs = [] then delivered_part m = (\<lambda>_. 0, None)
      else delivered_part m = delivered_since (\<lambda>_. 0) (tallies (hd cs)) (tl cs)"
    by (simp add: fresh_metrics_def delivered_part_def)
  show ?thesis
  proof (cases cs)
    case Nil
    then show ?thesis using d by (simp add: delivered_part_def)
  next
    case (Cons p qs)
    then show ?thesis using d by (auto simp: delivered_part_def delivered_since_def split: if_splits)
  qed
qed

definition ex_delivery :: "uuid \<Rightarrow> delivery_state \<Rightarrow> delivery" where
  "ex_delivery i st = \<lparr>d_id = i, d_event_id = i, d_recipient_id = 1, d_channel = ''email'', d_state = st,
     d_provider_message_id = None, d_sent_at = None\<rparr>"

definition ex_scrape :: "(nat \<times> exn) option \<Rightarrow> time \<Rightarrow> delivery_state list \<Rightarrow> scrape_input" where
  "ex_scrape failure t sts =
     \<lparr>si_failure = failure, si_seen = (\<lambda>_. (empty_db 0)\<lparr>deliveries := map (ex_delivery 5) sts\<rparr>), si_pool = Some 1,
      si_now_mono = t, si_now_wall = t, si_end_mono = t, si_end_wall = t\<rparr>"

text \<open>The second scrape fails behind its fourth statement, the third counts only what is new.\<close>

definition ex_scrapes :: "scrape_input list" where
  "ex_scrapes = [ex_scrape None 0 [DSent], ex_scrape (Some (5, RuntimeError)) (seconds 20) [DSent, DSent, DPending],
     ex_scrape None (seconds 40) [DSent, DSent, DSent]]"

theorem deliveries_counted_once_witness:
  "outbox_deliveries_total (fold scrape_with ex_scrapes fresh_metrics) ''sent'' = 2"
proof -
  let ?P = "\<lambda>p q. \<forall>s. tallies p s \<le> tallies q s"
  have t: "tallies (ex_scrape f t sts) s = (if s = ''sent'' then length (filter (\<lambda>d. d = DSent) sts)
      else if s = ''skipped'' then length (filter (\<lambda>d. d = DSkipped) sts) else 0)" for f t sts s
    by (simp add: tallies_def delivery_counts_def ex_scrape_def rowcount_def ex_delivery_def filter_map o_def)
  have "sorted_wrt ?P ex_scrapes" by (simp add: ex_scrapes_def t)
  moreover have "counting (- seconds 100) ex_scrapes = ex_scrapes"
    by (simp add: ex_scrapes_def) (simp add: ex_scrape_def time_units)
  ultimately have "outbox_deliveries_total (fold scrape_with ex_scrapes fresh_metrics) ''sent''
      = tallies (last ex_scrapes) ''sent'' - tallies (hd ex_scrapes) ''sent''"
    using deliveries_counted_once [OF _ refl refl, of ex_scrapes] by (simp add: ex_scrapes_def)
  then show ?thesis by (simp add: ex_scrapes_def t)
qed

section \<open>Readiness\<close>

datatype schema_error = SchemaIncompatibleError | AttributeError | Unreachable exn

fun py_text :: "(json \<Rightarrow> string) \<Rightarrow> json \<Rightarrow> string" where
  "py_text repr (JStr s) = s"
| "py_text repr v = repr v"

text \<open>
  config is what the file holds: None without a file, Some None where it is not JSON; repr
  is str() of a JSON value that is not a text.
\<close>

definition load_supported_revisions :: "(json \<Rightarrow> string) \<Rightarrow> json option option \<Rightarrow> schema_error + string list" where
  "load_supported_revisions repr config =
     (case config of
        None \<Rightarrow> Inl SchemaIncompatibleError
      | Some None \<Rightarrow> Inl SchemaIncompatibleError
      | Some (Some (JObj kvs)) \<Rightarrow>
          (case map_of kvs ''supported_revisions'' of
             Some (JArr (r # rs)) \<Rightarrow> Inr (map (py_text repr) (r # rs))
           | _ \<Rightarrow> Inl SchemaIncompatibleError)
      | Some (Some _) \<Rightarrow> Inl AttributeError)"

text \<open>rows is what SELECT version\_num FROM alembic\_version yields.\<close>

definition validate_schema_compatibility ::
  "(schema_error + string list) \<Rightarrow> string list result \<Rightarrow> schema_error + string" where
  "validate_schema_compatibility supported rows =
     (case supported of
        Inl e \<Rightarrow> Inl e
      | Inr allowed \<Rightarrow>
          (case rows of
             Inl e \<Rightarrow> Inl (Unreachable e)
           | Inr [] \<Rightarrow> Inl SchemaIncompatibleError
           | Inr [head] \<Rightarrow> if head \<in> set allowed then Inr head else Inl SchemaIncompatibleError
           | Inr (_ # _ # _) \<Rightarrow> Inl SchemaIncompatibleError))"

definition healthz :: "string \<Rightarrow> json" where
  "healthz release_sha = JObj [(''status'', JStr ''ok''), (''version'', JStr release_sha)]"

text \<open>timely: the check ends within its two seconds.\<close>

definition readyz :: "string \<Rightarrow> bool \<Rightarrow> (schema_error + string) \<Rightarrow> stored_response" where
  "readyz release_sha timely checked =
     (case checked of
        Inr _ \<Rightarrow>
          if timely
          then \<lparr>sr_status = 200, sr_body = JObj [(''status'', JStr ''ready''), (''version'', JStr release_sha)], sr_headers = []\<rparr>
          else make_error_response 503 ''RETRYABLE_UNAVAILABLE'' ''Service unavailable'' (JObj []) [(''Retry-After'', ''1'')]
      | Inl _ \<Rightarrow> make_error_response 503 ''RETRYABLE_UNAVAILABLE'' ''Service unavailable'' (JObj []) [(''Retry-After'', ''1'')])"

text \<open>
  The probe reports ready exactly when the check ends in time, the file allows some
  revisions, and the database has one head, which is among them. Otherwise it answers the
  constant 503 that asks for a retry, without a word about the reason.
\<close>

theorem readyz_iff:
  "readyz sha timely (validate_schema_compatibility (load_supported_revisions repr config) rows) =
     (if timely \<and> (\<exists>kvs rs head. config = Some (Some (JObj kvs)) \<and> map_of kvs ''supported_revisions'' = Some (JArr rs) \<and>
            rows = Inr [head] \<and> head \<in> py_text repr ` set rs)
      then \<lparr>sr_status = 200, sr_body = JObj [(''status'', JStr ''ready''), (''version'', JStr sha)], sr_headers = []\<rparr>
      else make_error_response 503 ''RETRYABLE_UNAVAILABLE'' ''Service unavailable'' (JObj []) [(''Retry-After'', ''1'')])"
  unfolding readyz_def validate_schema_compatibility_def load_supported_revisions_def
  by (auto split: sum.splits option.splits json.splits list.splits)

section \<open>Sentry events\<close>

definition secret_headers :: "string list" where
  "secret_headers = [''authorization'', ''cookie'', ''proxy-authorization'', ''x-metrics-token'']"

definition redacted_value :: json where "redacted_value = JStr ''[REDACTED]''"

fun scrub_headers :: "json \<Rightarrow> json" where
  "scrub_headers (JObj hs) = JObj (map (\<lambda>(k, v). (k, if k \<in> set secret_headers then redacted_value else v)) hs)"
| "scrub_headers v = v"

fun scrub_request :: "json \<Rightarrow> json" where
  "scrub_request (JObj kvs) = JObj (map (\<lambda>(k, v).
     (k, if k = ''headers'' then scrub_headers v
         else if k = ''data'' \<or> k = ''query_string'' then redacted_value else v)) kvs)"
| "scrub_request v = v"

fun before_send :: "json \<Rightarrow> json" where
  "before_send (JObj kvs) = JObj (map (\<lambda>(k, v). (k, if k = ''request'' then scrub_request v else v)) kvs)"
| "before_send v = v"

lemma map_of_values: "map_of (map (\<lambda>(k, v). (k, f k v)) kvs) k = map_option (f k) (map_of kvs k)"
  by (induction kvs) auto

lemma If_value: "If True x = (\<lambda>_. x)" "If False x = (\<lambda>y. y)"
  by (simp_all add: fun_eq_iff)

text \<open>Body, query string and the four headers never leave; everything else does, unchanged.\<close>

lemma before_send_scrubs:
  assumes "json_get event ''request'' = Some (JObj rq)"
  shows "\<exists>rq'. json_get (before_send event) ''request'' = Some (JObj rq') \<and> map fst rq' = map fst rq \<and>
    (\<forall>k \<in> {''data'', ''query_string''}. map_of rq' k \<in> {None, Some redacted_value}) \<and>
    (\<forall>hs h. map_of rq ''headers'' = Some (JObj hs) \<longrightarrow>
       (\<exists>hs'. map_of rq' ''headers'' = Some (JObj hs') \<and>
          map_of hs' h = (if h \<in> set secret_headers then map_option (\<lambda>_. redacted_value) (map_of hs h) else map_of hs h)))"
proof -
  obtain kvs where e: "event = JObj kvs" "map_of kvs ''request'' = Some (JObj rq)"
    using assms by (cases event) auto
  then show ?thesis by (auto simp: map_of_values case_prod_beta o_def If_value option.map_ident)
qed

section \<open>Redacting log lines\<close>

text \<open>["']? at the head of a text: what it takes and the rest.\<close>

definition quote_char :: "char \<Rightarrow> bool" where "quote_char c = (code c = 34 \<or> code c = 39)"

definition opt_quote :: "string \<Rightarrow> string \<times> string" where
  "opt_quote s = (if s \<noteq> [] \<and> quote_char (hd s) then ([hd s], tl s) else ([], s))"

text \<open>(?:bearer\s+)? at the head of a text, when a value follows; else nothing is taken.\<close>

definition opt_bearer :: "(char \<Rightarrow> bool) \<Rightarrow> string \<Rightarrow> string \<times> string" where
  "opt_bearer val s =
     (let r1 = drop 6 s; r2 = dropWhile py_space r1 in
      if prefix ''bearer'' (py_lower s) \<and> r1 \<noteq> [] \<and> py_space (hd r1) \<and> r2 \<noteq> [] \<and> val (hd r2)
      then (take 6 s @ takeWhile py_space r1, r2) else ([], s))"

text \<open>
  (?i)(["']?keyword["']?\s*[:=]\s*["']?(?:bearer\s+)?)[...]+ at the head of a text: group 1
  and what stands behind the match. The quotes, the keyword and the white space before the
  separator never give back; the white space behind it does when the class of the value
  (val) admits white space and nothing else is there to match.
\<close>

definition match_field :: "string \<Rightarrow> bool \<Rightarrow> (char \<Rightarrow> bool) \<Rightarrow> string \<Rightarrow> (string \<times> string) option" where
  "match_field keyword bearer val s =
     (let (q0, s1) = opt_quote s in
      if \<not> prefix keyword (py_lower s1) then None
      else
      (let kw = take (length keyword) s1;
           (q1, s2) = opt_quote (drop (length keyword) s1);
           w1 = takeWhile py_space s2; s3 = dropWhile py_space s2
       in if s3 = [] \<or> hd s3 \<notin> {CHR '':'', CHR ''=''} then None
       else
       (let w2 = takeWhile py_space (tl s3); s4 = dropWhile py_space (tl s3);
            (q2, s5) = opt_quote s4;
            (b, s6) = (if bearer then opt_bearer val s5 else ([], s5));
            front = q0 @ kw @ q1 @ w1 @ [hd s3]
        in if s6 \<noteq> [] \<and> val (hd s6) then Some (front @ w2 @ q2 @ b, dropWhile val s6)
           else (case filter (\<lambda>i. val (w2 ! i)) (rev [0..<length w2]) of
                   [] \<Rightarrow> None
                 | i # _ \<Rightarrow> Some (front @ take i w2, dropWhile val (drop i (tl s3)))))))"

text \<open>The e-mail pattern at the head of a text: what stands behind the match.\<close>

definition local_char :: "char \<Rightarrow> bool" where
  "local_char c = (let n = code c in
     65 \<le> n \<and> n \<le> 90 \<or> 97 \<le> n \<and> n \<le> 122 \<or> 48 \<le> n \<and> n \<le> 57 \<or> c \<in> set ''_.+-'')"

definition domain_char :: "char \<Rightarrow> bool" where
  "domain_char c = (let n = code c in
     65 \<le> n \<and> n \<le> 90 \<or> 97 \<le> n \<and> n \<le> 122 \<or> 48 \<le> n \<and> n \<le> 57 \<or> c = CHR ''-'')"

definition match_email :: "string \<Rightarrow> string option" where
  "match_email s =
     (let r1 = dropWhile local_char s; r2 = dropWhile domain_char (tl r1) in
      if takeWhile local_char s \<noteq> [] \<and> r1 \<noteq> [] \<and> hd r1 = CHR ''@'' \<and> takeWhile domain_char (tl r1) \<noteq> []
         \<and> r2 \<noteq> [] \<and> hd r2 = CHR ''.'' \<and> takeWhile (\<lambda>c. domain_char c \<or> c = CHR ''.'') (tl r2) \<noteq> []
      then Some (dropWhile (\<lambda>c. domain_char c \<or> c = CHR ''.'') (tl r2)) else None)"

text \<open>
  re.sub: from left to right, every match is replaced and the search goes on behind it. mt
  gives the replacement and the rest behind the match, which is never empty here.
\<close>

function resub :: "(string \<Rightarrow> (string \<times> string) option) \<Rightarrow> string \<Rightarrow> string" where
  "resub mt [] = []"
| "resub mt (c # s) =
     (case mt (c # s) of
        None \<Rightarrow> c # resub mt s
      | Some (t, r) \<Rightarrow> if length r \<le> length s then t @ resub mt r else c # resub mt s)"
  by pat_completeness auto
termination by (relation "measure (length \<circ> snd)") auto

definition redact_field :: "string \<Rightarrow> bool \<Rightarrow> (char \<Rightarrow> bool) \<Rightarrow> string \<Rightarrow> string" where
  "redact_field keyword bearer val =
     resub (\<lambda>s. map_option (\<lambda>(g, r). (g @ ''[REDACTED]'', r)) (match_field keyword bearer val s))"

definition plain_value :: "char \<Rightarrow> bool" where
  "plain_value c = (\<not> quote_char c \<and> \<not> py_space c \<and> c \<notin> {CHR '','', CHR ''}''})"

definition cookie_value :: "char \<Rightarrow> bool" where
  "cookie_value c = (\<not> quote_char c \<and> code c \<noteq> 13 \<and> code c \<noteq> 10 \<and> c \<notin> {CHR '','', CHR ''}''})"

definition redact_emails :: "string \<Rightarrow> string" where
  "redact_emails = resub (\<lambda>s. map_option (Pair ''[REDACTED_EMAIL]'') (match_email s))"

definition redact_sensitive_text :: "string \<Rightarrow> string" where
  "redact_sensitive_text t =
     redact_emails
    (redact_field ''smtp_password'' False plain_value
    (redact_field ''invitation_token'' False plain_value
    (redact_field ''password'' False plain_value
    (redact_field ''cookie'' False cookie_value
    (redact_field ''authorization'' True plain_value t)))))"

text \<open>
  What the patterns miss: a scheme other than Bearer leaves its credential, and a quoted
  key inside a message, whose quotes json.dumps escapes, is not recognised at all.
\<close>

lemma redact_leaks:
  "redact_field ''authorization'' True plain_value ''authorization: Basic Q='' = ''authorization: [REDACTED] Q=''"
  "redact_field ''password'' False plain_value (''password'' @ [CHR 92, CHR 34] @ '': hunter2'')
     = ''password'' @ [CHR 92, CHR 34] @ '': hunter2''"
  by code_simp+

section \<open>No e-mail address is logged\<close>

lemma match_email_shorter:
  assumes "match_email (c # s) = Some r"
  shows "length r \<le> length s"
proof -
  let ?r1 = "dropWhile local_char (c # s)"
  have r: "r = dropWhile (\<lambda>c. domain_char c \<or> c = CHR ''.'') (tl (dropWhile domain_char (tl ?r1)))"
    using assms by (auto simp: match_email_def Let_def split: if_splits)
  have "length r \<le> length (tl (dropWhile domain_char (tl ?r1)))" unfolding r by (rule length_dropWhile_le)
  also have "\<dots> \<le> length (dropWhile domain_char (tl ?r1))" by simp
  also have "\<dots> \<le> length (tl ?r1)" by (rule length_dropWhile_le)
  also have "\<dots> \<le> length s" using length_dropWhile_le [of local_char "c # s"] by simp
  finally show ?thesis .
qed

text \<open>A part that stops before a bracket stops in the same place whatever follows there.\<close>

lemma stops_before_bracket:
  assumes "dropWhile P (p @ z) \<noteq> []" "hd (dropWhile P (p @ z)) \<noteq> CHR ''[''" "z = [] \<or> hd z = CHR ''[''" "\<not> P (CHR ''['')"
  shows "dropWhile P (p @ x) = dropWhile P p @ x" "takeWhile P (p @ x) = takeWhile P p" "dropWhile P p \<noteq> []"
proof -
  have "dropWhile P p \<noteq> []"
  proof
    assume none: "dropWhile P p = []"
    then have "\<forall>c \<in> set p. P c" by simp
    then have "dropWhile P (p @ z) = dropWhile P z" by (simp add: dropWhile_append2)
    then show False using assms by (cases z) auto
  qed
  then show "dropWhile P p \<noteq> []" "dropWhile P (p @ x) = dropWhile P p @ x" "takeWhile P (p @ x) = takeWhile P p"
    by (auto simp: dropWhile_append1 takeWhile_append1)
qed

lemma match_email_parts:
  assumes "dropWhile local_char s = a # s2" "dropWhile domain_char s2 = b # s3"
  shows "match_email s \<noteq> None \<longleftrightarrow> takeWhile local_char s \<noteq> [] \<and> a = CHR ''@'' \<and> takeWhile domain_char s2 \<noteq> [] \<and>
    b = CHR ''.'' \<and> takeWhile (\<lambda>c. domain_char c \<or> c = CHR ''.'') s3 \<noteq> []"
  using assms by (simp add: match_email_def del: takeWhile_eq_Nil_iff dropWhile_eq_Nil_conv)

lemma match_email_prefix:
  assumes m: "match_email (p @ z) \<noteq> None" and z: "z = [] \<or> hd z = CHR ''[''"
  shows "match_email (p @ q) \<noteq> None"
proof -
  have no: "\<not> local_char (CHR ''['')" "\<not> domain_char (CHR ''['')" by code_simp+
  have l: "dropWhile local_char (p @ z) \<noteq> []" "hd (dropWhile local_char (p @ z)) = CHR ''@''"
    and d: "dropWhile domain_char (tl (dropWhile local_char (p @ z))) \<noteq> []"
      "hd (dropWhile domain_char (tl (dropWhile local_char (p @ z)))) = CHR ''.''"
    using m unfolding match_email_def Let_def by presburger+
  obtain a p2 where a: "dropWhile local_char p = a # p2"
    using stops_before_bracket(3) [OF l(1) _ z no(1)] l(2) by (cases "dropWhile local_char p") simp_all
  have p1: "dropWhile local_char (p @ x) = a # p2 @ x" "takeWhile local_char (p @ x) = takeWhile local_char p" for x
    using stops_before_bracket(1,2) [OF l(1) _ z no(1), of x] l(2) a by simp_all
  have d2: "dropWhile domain_char (p2 @ z) \<noteq> []" "hd (dropWhile domain_char (p2 @ z)) \<noteq> CHR ''[''"
    using d p1(1) [of z] by simp_all
  obtain b p3 where b: "dropWhile domain_char p2 = b # p3"
    using stops_before_bracket(3) [OF d2 z no(2)] by (cases "dropWhile domain_char p2") simp_all
  have p2: "dropWhile domain_char (p2 @ x) = b # p3 @ x" "takeWhile domain_char (p2 @ x) = takeWhile domain_char p2" for x
    using stops_before_bracket(1,2) [OF d2 z no(2), of x] b by simp_all
  note parts = match_email_parts [OF p1(1) p2(1)]
  have "takeWhile (\<lambda>c. domain_char c \<or> c = CHR ''.'') (p3 @ z) \<noteq> []" using m parts [of z] by blast
  then have "takeWhile (\<lambda>c. domain_char c \<or> c = CHR ''.'') (p3 @ q) \<noteq> []"
    using z no(2) by (cases p3; cases z) (auto split: if_splits)
  then show ?thesis using m parts [of z] parts [of q] p1(2) p2(2) by simp
qed

lemma match_email_literal:
  assumes "l \<noteq> []" "CHR ''@'' \<notin> set l" "\<not> local_char (last l)"
  shows "match_email (l @ y) = None"
proof -
  have "last l \<in> set l" using assms(1) by simp
  then have "dropWhile local_char (l @ y) = dropWhile local_char l @ y" "dropWhile local_char l \<noteq> []"
    using assms(3) by (auto simp: dropWhile_append1)
  moreover have "hd (dropWhile local_char l) \<in> set l" using calculation(2) by (meson hd_in_set set_dropWhileD subsetD)
  ultimately show ?thesis using assms(2) by (auto simp: match_email_def Let_def)
qed

lemma redact_emails_Nil [simp]: "redact_emails [] = []"
  by (simp add: redact_emails_def)

lemma redact_emails_Cons:
  "redact_emails (c # s) = (case match_email (c # s) of None \<Rightarrow> c # redact_emails s | Some r \<Rightarrow> ''[REDACTED_EMAIL]'' @ redact_emails r)"
  using match_email_shorter [of c s] by (auto simp: redact_emails_def split: option.splits)

lemma redact_emails_front:
  "redact_emails s = s \<or> (\<exists>p q z. s = p @ q \<and> redact_emails s = p @ CHR ''['' # z)"
proof (induction s)
  case (Cons c s)
  show ?case
  proof (cases "match_email (c # s)")
    case None
    then show ?thesis using Cons by (auto simp: redact_emails_Cons) (metis append_Cons)
  next
    case (Some r)
    then have "c # s = [] @ c # s \<and> redact_emails (c # s) = [] @ CHR ''['' # ''REDACTED_EMAIL]'' @ redact_emails r"
      by (simp add: redact_emails_Cons)
    then show ?thesis by blast
  qed
qed simp

text \<open>
  C31: no e-mail address is logged: nowhere in a redacted text is there a part that the
  address pattern matches, whatever the text was and whatever the other patterns made of it.
\<close>

theorem no_email_survives: "match_email (drop i (redact_sensitive_text t)) = None"
proof -
  have "match_email (drop i (redact_emails s)) = None" for i s
  proof (induction "length s" arbitrary: s i rule: less_induct)
    case less
    show ?case
    proof (cases s)
      case Nil
      then show ?thesis by (simp add: match_email_def)
    next
      case (Cons c s')
      show ?thesis
      proof (cases "match_email s")
        case (Some r)
        let ?l = "''[REDACTED_EMAIL]''"
        have e: "redact_emails s = ?l @ redact_emails r" using Some Cons by (simp add: redact_emails_Cons)
        have "length r < length s" using Some Cons match_email_shorter [of c s' r] by simp
        then have later: "match_email (drop j (redact_emails r)) = None" for j using less by simp
        show ?thesis
        proof (cases "i < length ?l")
          case True
          have "CHR ''@'' \<notin> set ?l" "\<not> local_char (last ?l)" by code_simp+
          then have "match_email (drop i ?l @ redact_emails r) = None"
            using True by (intro match_email_literal) (auto dest: in_set_dropD simp del: drop_Cons')
          moreover have "drop i (l @ y) = drop i l @ y" if "i < length l" for l y :: string using that by simp
          ultimately show ?thesis unfolding e using True by metis
        next
          case False
          then have "drop i (?l @ redact_emails r) = drop (i - length ?l) (redact_emails r)" by (simp only: drop_append) simp
          then show ?thesis using later unfolding e by simp
        qed
      next
        case None
        have e: "redact_emails s = c # redact_emails s'" using None Cons by (simp add: redact_emails_Cons)
        show ?thesis
        proof (cases i)
          case 0
          show ?thesis
          proof (rule ccontr)
            assume "match_email (drop i (redact_emails s)) \<noteq> None"
            then have some: "match_email (c # redact_emails s') \<noteq> None" using e 0 by simp
            then have "redact_emails s' \<noteq> s'" using None Cons by auto
            then obtain p q z where "s' = p @ q" "redact_emails s' = p @ CHR ''['' # z"
              using redact_emails_front [of s'] by blast
            then show False using some match_email_prefix [of "c # p" "CHR ''['' # z" q] None Cons by simp
          qed
        next
          case (Suc j)
          then show ?thesis using less [of s' j] Cons e by simp
        qed
      qed
    qed
  qed
  then show ?thesis by (simp add: redact_sensitive_text_def)
qed

end
