(* ===== verification/Logging.thy ===== *)
theory Logging
imports Observability
begin

text \<open>
  The access log (app/observability/logging.py and the middleware of app/main.py): how a log
  record becomes a line, what the middleware records of a request, and the events of the
  worker. Levels, clocks and the text of a duration are given.
\<close>

section \<open>Log lines\<close>

definition exact_log_fields :: "string list" where
  "exact_log_fields =
     [''timestamp'', ''level'', ''service'', ''release_sha'', ''event'', ''request_id'', ''route'', ''method'', ''status_code'',
      ''duration_ms'', ''trace_id'', ''error_code'', ''outbox_id'', ''attempt'']"

text \<open>A float is the text json.dumps gives it.\<close>

datatype log_value = Json json | Float string

definition log_text :: "log_value \<Rightarrow> string" where
  "log_text v = (case v of Json j \<Rightarrow> dumps j | Float t \<Rightarrow> t)"

text \<open>lr\_attributes: what the call passed as extra.\<close>

record log_record =
  lr_level :: string
  lr_message :: string
  lr_attributes :: "(string \<times> log_value) list"

definition attribute :: "log_record \<Rightarrow> string \<Rightarrow> log_value \<Rightarrow> log_value" where
  "attribute r name dflt = (case map_of (lr_attributes r) name of None \<Rightarrow> dflt | Some v \<Rightarrow> v)"

definition log_data :: "string \<Rightarrow> string \<Rightarrow> string \<Rightarrow> log_record \<Rightarrow> (string \<times> log_value) list" where
  "log_data service release_sha timestamp r =
     [(''timestamp'', Json (JStr timestamp)), (''level'', Json (JStr (lr_level r))),
      (''service'', attribute r ''service'' (Json (JStr service))),
      (''release_sha'', attribute r ''release_sha'' (Json (JStr release_sha))),
      (''event'', attribute r ''event'' (Json (JStr (lr_message r))))]
     @ map (\<lambda>k. (k, attribute r k (Json JNull)))
         [''request_id'', ''route'', ''method'', ''status_code'', ''duration_ms'', ''trace_id'', ''error_code'', ''outbox_id'', ''attempt'']"

definition ordered_data :: "(string \<times> log_value) list \<Rightarrow> (string \<times> log_value) list" where
  "ordered_data d = map (\<lambda>k. (k, case map_of d k of None \<Rightarrow> Json JNull | Some v \<Rightarrow> v)) exact_log_fields"

text \<open>json.dumps of a flat dictionary, with its blanks.\<close>

definition dump_line :: "(string \<times> log_value) list \<Rightarrow> string" where
  "dump_line d = ''{'' @ join_with '', '' (map (\<lambda>(k, v). quoted k @ '': '' @ log_text v) d) @ ''}''"

definition format_record :: "string \<Rightarrow> string \<Rightarrow> string \<Rightarrow> log_record \<Rightarrow> string" where
  "format_record service release_sha timestamp r =
     redact_sensitive_text (dump_line (ordered_data (log_data service release_sha timestamp r)))"

section \<open>The middleware\<close>

text \<open>
  What the application gave for a request: the outcome of an endpoint, or one of the 404
  answers that put their code into the state of the request.
\<close>

datatype outcome = Endpoint "stored_response result" | Unmatched stored_response

text \<open>An exception without a handler of its own passes the middleware; the server answers it outside.\<close>

definition handled :: "exn \<Rightarrow> bool" where
  "handled e =
     (plain_status e \<noteq> None \<or>
      (case e of RateLimitExceeded _ \<Rightarrow> True | IncompleteIdempotencyRecord \<Rightarrow> True | RequestValidationError \<Rightarrow> True
       | DBAPIError _ \<Rightarrow> True | IntegrityError _ _ \<Rightarrow> True | HTTPException _ _ _ \<Rightarrow> True | _ \<Rightarrow> False))"

text \<open>getattr(exc, "code", "INTERNAL\_ERROR"): the errors of SQLAlchemy have a code, which is None.\<close>

definition uncaught_code :: "exn \<Rightarrow> string option" where
  "uncaught_code e =
     (case e of MultipleResultsFound \<Rightarrow> None | NoResultFound \<Rightarrow> None | InvalidRequestError \<Rightarrow> None | _ \<Rightarrow> Some ''INTERNAL_ERROR'')"

definition text_or_null :: "string option \<Rightarrow> log_value" where
  "text_or_null t = Json (opt_json JStr t)"

definition access_record :: "string \<Rightarrow> string option \<Rightarrow> string \<Rightarrow> int \<Rightarrow> string \<Rightarrow> string option \<Rightarrow> string option \<Rightarrow> log_record" where
  "access_record rid route_path meth status_code duration trace err_code =
     \<lparr>lr_level = ''INFO'', lr_message = ''http_request'', lr_attributes =
       [(''service'', Json (JStr ''api'')), (''event'', Json (JStr ''http_request'')), (''request_id'', Json (JStr rid)),
        (''route'', Json (JStr (case route_path of Some p \<Rightarrow> p | None \<Rightarrow> ''unmatched''))), (''method'', Json (JStr meth)),
        (''status_code'', Json (JInt status_code)), (''duration_ms'', Float duration), (''trace_id'', text_or_null trace),
        (''error_code'', text_or_null err_code), (''outbox_id'', Json JNull), (''attempt'', Json JNull)]\<rparr>"

definition with_request_id :: "string \<Rightarrow> stored_response \<Rightarrow> stored_response" where
  "with_request_id rid st = st\<lparr>sr_headers := (''X-Request-ID'', rid) # filter (\<lambda>(k, _). k \<noteq> ''X-Request-ID'') (sr_headers st)\<rparr>"

text \<open>The response with its header or the exception raised on, the record, and the state. message and errors belong to the exception.\<close>

definition request_id_and_logging_middleware ::
  "string \<Rightarrow> validation_error list \<Rightarrow> string option \<Rightarrow> string option \<Rightarrow> string \<Rightarrow> string \<Rightarrow> string option \<Rightarrow> outcome \<Rightarrow> db \<Rightarrow>
   stored_response result \<times> log_record \<times> db" where
  "request_id_and_logging_middleware message errors inbound route_path meth duration trace app w =
     (let (rid, w1) = request_id_text inbound w;
          logged = (\<lambda>status err_code. access_record rid route_path meth status duration trace err_code)
      in case app of
           Endpoint (Inr st) \<Rightarrow> (Inr (with_request_id rid st), logged (sr_status st) None, w1)
         | Unmatched st \<Rightarrow> (Inr (with_request_id rid st), logged (sr_status st) (Some ''NOT_FOUND''), w1)
         | Endpoint (Inl e) \<Rightarrow>
             if handled e
             then (let st = exception_handler message errors e in (Inr (with_request_id rid st), logged (sr_status st) None, w1))
             else (Inl e, logged 500 (uncaught_code e), w1))"

text \<open>The class of the same name in logging.py does the same; the application does not install it.\<close>

definition structured_logging_middleware ::
  "string \<Rightarrow> validation_error list \<Rightarrow> string option \<Rightarrow> string option \<Rightarrow> string \<Rightarrow> string \<Rightarrow> string option \<Rightarrow> outcome \<Rightarrow> db \<Rightarrow>
   stored_response result \<times> log_record \<times> db" where
  "structured_logging_middleware = request_id_and_logging_middleware"

definition log_worker_event ::
  "string \<Rightarrow> string \<Rightarrow> string option \<Rightarrow> int option \<Rightarrow> string option \<Rightarrow> string option \<Rightarrow> string \<Rightarrow> db \<Rightarrow> log_record \<times> db" where
  "log_worker_event level event outbox_id attempt err_code duration service w =
     (let (u, w1) = uuid4 w in
      (\<lparr>lr_level = level, lr_message = event, lr_attributes =
         [(''service'', Json (JStr service)), (''event'', Json (JStr event)), (''request_id'', Json (JStr (uuid_str u))),
          (''route'', Json JNull), (''method'', Json JNull), (''status_code'', Json JNull),
          (''duration_ms'', case duration of None \<Rightarrow> Json JNull | Some d \<Rightarrow> Float d), (''trace_id'', Json JNull),
          (''error_code'', text_or_null err_code), (''outbox_id'', text_or_null outbox_id),
          (''attempt'', Json (opt_json JInt attempt))]\<rparr>, w1))"

section \<open>Properties\<close>

text \<open>Whatever a record carries, its line has the fourteen fields, each once, and a field of the record is in it.\<close>

lemma ordered_data_fields: "map fst (ordered_data d) = exact_log_fields"
  by (simp add: ordered_data_def o_def)

lemma ordered_data_lookup: "k \<in> set exact_log_fields \<Longrightarrow> map_of d k = Some v \<Longrightarrow> map_of (ordered_data d) k = Some v"
  by (simp add: ordered_data_def map_of_map_restrict)

lemma log_data_complete: "set (map fst (log_data service release timestamp r)) = set exact_log_fields"
  by (simp add: log_data_def exact_log_fields_def insert_commute)

lemma unhandled_internal: "\<not> handled e \<Longrightarrow> exception_handler message errors e = internal_error"
  by (cases e) (auto simp: handled_def exception_handler_def split: option.splits)

text \<open>
  The record of a request and what the client is told agree: the id of the record is the
  header of the response, its status the status of the answer (500 where the exception is
  raised on, which the server then answers). But the code of a domain error is not in the
  log: the handlers do not hand the request to make\_error\_response, so error\_code is null.
\<close>

lemma access_log_agrees:
  assumes "request_id_and_logging_middleware message errors inbound route_path meth duration trace app w = (res, r, w')"
  shows "attribute r ''request_id'' v = Json (JStr (fst (request_id_text inbound w))) \<and>
    (\<forall>st. res = Inr st \<longrightarrow> map_of (sr_headers st) ''X-Request-ID'' = Some (fst (request_id_text inbound w)) \<and>
       attribute r ''status_code'' v = Json (JInt (sr_status st))) \<and>
    (\<forall>e. res = Inl e \<longrightarrow> attribute r ''status_code'' v = Json (JInt (sr_status (exception_handler message errors e))) \<and>
       attribute r ''error_code'' v = text_or_null (uncaught_code e)) \<and>
    (\<forall>e. app = Endpoint (Inl e) \<and> handled e \<longrightarrow> attribute r ''error_code'' v = Json JNull)"
  using assms unhandled_internal
  by (auto simp: request_id_and_logging_middleware_def Let_def attribute_def access_record_def with_request_id_def text_or_null_def
      opt_json_def internal_error_def make_error_response_def split: prod.splits outcome.splits sum.splits if_splits)

end
