(* ===== verification/EvidenceCache.thy ===== *)
theory EvidenceCache
imports Envelope "HOL-Library.Char_ord" "HOL-Library.List_Lexorder"
begin

text \<open>
  The evidence cache of the verification runner (scripts/verification_cache.py): which files
  are the inputs of a gate, their fingerprint, and when the recorded evidence of an earlier
  run may stand for a new one. The repository is the list of its regular files, each a path
  in parts with its mode and bytes; SHA-256 is a parameter.
\<close>

section \<open>Inputs of a gate\<close>

type_synonym path = "string list"

record input_file =
  if_path :: path
  if_mode :: nat
  if_bytes :: string

definition excluded_dir_names :: "string list" where
  "excluded_dir_names =
     [''.venv'', ''node_modules'', ''__pycache__'', ''.ruff_cache'', ''.mypy_cache'', ''.pytest_cache'', ''.git'',
      ''evidence'', ''dist'', ''build'', ''.vite'']"

definition should_exclude :: "path \<Rightarrow> bool" where
  "should_exclude rel_path =
     (list_ex (\<lambda>part. part \<in> set excluded_dir_names) rel_path \<or>
      rel_path \<noteq> [] \<and> (last rel_path = ''.DS_Store'' \<or> has_suffix ''.pyc'' (last rel_path)
        \<or> has_suffix ''.tsbuildinfo'' (last rel_path)))"

text \<open>add\_tree, add\_file and add\_glob, each as the files it admits.\<close>

definition add_tree :: "path \<Rightarrow> path \<Rightarrow> bool" where
  "add_tree dir_path p = (prefix dir_path p \<and> length dir_path < length p \<and> \<not> should_exclude p)"

definition add_file :: "path \<Rightarrow> path \<Rightarrow> bool" where
  "add_file f_path p = (p = f_path \<and> \<not> should_exclude p)"

definition add_glob :: "string \<Rightarrow> string \<Rightarrow> path \<Rightarrow> bool" where
  "add_glob front ending p =
     (length p = 1 \<and> prefix front (hd p) \<and> has_suffix ending (drop (length front) (hd p)) \<and> \<not> should_exclude p)"

definition common_input :: "string \<Rightarrow> path \<Rightarrow> bool" where
  "common_input gate p =
     (add_file [''backend'', ''pyproject.toml''] p \<or> add_file [''backend'', ''uv.lock''] p \<or> add_tree [''scripts''] p
      \<or> add_tree [''.github''] p \<or> add_file [''.env''] p \<or> add_file [''docs'', ''schema.sql''] p
      \<or> add_file [''docs'', ''openapi.json''] p \<or> add_file [''openapi.json''] p
      \<or> gate \<notin> {''integration'', ''concurrency'', ''permissions'', ''race-lab''} \<and> add_tree [''frontend''] p
      \<or> add_file [''scripts'', ''verification.json''] p \<or> add_tree [''scripts'', ''verification.d''] p)"

definition stack_input :: "path \<Rightarrow> bool" where
  "stack_input p =
     (add_tree [''backend''] p \<or> add_tree [''scripts''] p \<or> add_glob ''compose'' ''.yaml'' p
      \<or> add_glob ''compose'' ''.yml'' p \<or> add_tree [''infra''] p)"

definition gate_input :: "string \<Rightarrow> path \<Rightarrow> bool" where
  "gate_input gate p =
     (common_input gate p \<or>
      (if gate \<in> {''concurrency'', ''permissions'', ''race-lab''} then
         stack_input p \<or> add_tree [''.github''] p \<or> add_file [''schema.sql''] p \<or> add_file [''openapi.json''] p
       else if gate = ''lint'' then
         add_tree [''backend''] p \<or> add_tree [''frontend'', ''src''] p \<or> add_tree [''frontend'', ''tests''] p
         \<or> add_file [''frontend'', ''eslint.config.js''] p \<or> add_file [''frontend'', ''tsconfig.json''] p
         \<or> add_file [''frontend'', ''vite.config.ts''] p \<or> add_file [''frontend'', ''vitest.config.ts''] p
       else if gate = ''unit'' then
         add_file [''backend'', ''tests'', ''conftest.py''] p \<or> add_file [''backend'', ''tests'', ''factories.py''] p
         \<or> add_tree [''backend'', ''app''] p \<or> add_tree [''backend'', ''tests'', ''unit''] p
         \<or> add_tree [''frontend'', ''src''] p \<or> add_tree [''frontend'', ''tests''] p
         \<or> add_file [''frontend'', ''vitest.config.ts''] p
       else stack_input p))"

fun as_posix :: "path \<Rightarrow> string" where
  "as_posix [] = ''.''"
| "as_posix [x] = x"
| "as_posix (x # y # ys) = x @ ''/'' @ as_posix (y # ys)"

definition get_gate_inputs :: "string \<Rightarrow> input_file list \<Rightarrow> input_file list" where
  "get_gate_inputs gate repo = sort_key (\<lambda>f. as_posix (if_path f)) (filter (\<lambda>f. gate_input gate (if_path f)) repo)"

section \<open>The fingerprint\<close>

definition nul :: char where "nul = CHR 0x00"

text \<open>What is fed to the hash: fields, each closed by a NUL byte.\<close>

definition file_fields :: "input_file \<Rightarrow> string list" where
  "file_fields f = [as_posix (if_path f), nat_str (if_mode f), if_bytes f]"

definition hashed_bytes :: "string \<Rightarrow> input_file list \<Rightarrow> string" where
  "hashed_bytes gate files = concat (map (\<lambda>field. field @ [nul]) (gate # concat (map file_fields files)))"

definition compute_fingerprint :: "(string \<Rightarrow> string) \<Rightarrow> string \<Rightarrow> input_file list \<Rightarrow> string" where
  "compute_fingerprint sha256_hex gate repo = sha256_hex (hashed_bytes gate (get_gate_inputs gate repo))"

section \<open>Reuse\<close>

text \<open>dict == dict, for a dictionary of texts on the right.\<close>

definition dict_of_texts :: "json \<Rightarrow> (string \<times> string) list \<Rightarrow> bool" where
  "dict_of_texts v d = (case v of JObj kvs \<Rightarrow> set kvs = set (map (\<lambda>(k, s). (k, JStr s)) d) | _ \<Rightarrow> False)"

definition get_or :: "(string \<times> json) list \<Rightarrow> string \<Rightarrow> json \<Rightarrow> json" where
  "get_or data k dflt = (case map_of data k of None \<Rightarrow> dflt | Some v \<Rightarrow> v)"

definition hex_char :: "char \<Rightarrow> bool" where
  "hex_char c = (let n = code c in 48 \<le> n \<and> n \<le> 57 \<or> 97 \<le> n \<and> n \<le> 102)"

definition git_sha_ok :: "json option \<Rightarrow> bool" where
  "git_sha_ok v = (case v of Some (JStr s) \<Rightarrow> length s = 40 \<and> list_all hex_char s | _ \<Rightarrow> False)"

text \<open>
  artifact name is what the file of that name beside the manifest holds, None where it does
  not resolve to a file below the directory of the manifest. In Python False equals 0.
\<close>

definition check_stream ::
  "(string \<Rightarrow> string) \<Rightarrow> (string \<Rightarrow> string option) \<Rightarrow> (string \<times> json) list \<Rightarrow> string \<Rightarrow> string option" where
  "check_stream sha256_hex artifact command stream =
     (case get_or command (stream @ ''_file'') (JStr []) of
        JStr name \<Rightarrow>
          (case (if name = [] then None else artifact name) of
             None \<Rightarrow> Some ''Missing command artifact''
           | Some bytes \<Rightarrow>
               if map_of command (stream @ ''_sha256'') = Some (JStr (sha256_hex bytes)) then None
               else Some ''Invalid command artifact hash'')
      | _ \<Rightarrow> Some ''Invalid command artifact path'')"

definition check_command :: "(string \<Rightarrow> string) \<Rightarrow> (string \<Rightarrow> string option) \<Rightarrow> json \<Rightarrow> string option" where
  "check_command sha256_hex artifact command =
     (case command of
        JObj kvs \<Rightarrow>
          if map_of kvs ''exit_code'' \<notin> {Some (JInt 0), Some (JBool False)} then Some ''Failed or invalid child command''
          else first_some [check_stream sha256_hex artifact kvs ''stdout'', check_stream sha256_hex artifact kvs ''stderr'']
      | _ \<Rightarrow> Some ''Failed or invalid child command'')"

record candidate =
  cd_gate :: string
  cd_fingerprint :: string
  cd_tools :: "(string \<times> string) list"
  cd_profile :: string
  cd_locks :: "(string \<times> string) list"

definition refuse_unless :: "bool \<Rightarrow> string \<Rightarrow> string option" where
  "refuse_unless ok reason = (if ok then None else Some reason)"

text \<open>Why the manifest of an original run of this gate is refused; None if it is accepted.\<close>

definition check_manifest ::
  "(string \<Rightarrow> string) \<Rightarrow> (string \<Rightarrow> string option) \<Rightarrow> candidate \<Rightarrow> (string \<times> json) list \<Rightarrow> string option" where
  "check_manifest sha256_hex artifact cd data =
     first_some
      [refuse_unless (map_of data ''exit_code'' = Some (JInt 0)) ''Source run failed; cannot reuse failed execution evidence'',
       refuse_unless (cd_fingerprint cd \<noteq> [] \<and> map_of data ''input_fingerprint'' = Some (JStr (cd_fingerprint cd))) ''Fingerprint mismatch'',
       refuse_unless (dict_of_texts (get_or data ''tool_versions'' (JObj [])) (cd_tools cd)) ''Tool versions do not match source run'',
       refuse_unless (get_or data ''test_profile'' (JStr ''standard'') = JStr (cd_profile cd)) ''Test profile mismatch'',
       refuse_unless (map_of data ''evidence_version'' = Some (JInt 2) \<and> map_of data ''execution_type'' = Some (JStr ''fresh''))
         ''Missing validated execution provenance'',
       refuse_unless (git_sha_ok (map_of data ''git_sha'')) ''Missing source SHA'',
       (case map_of data ''commands'' of
          Some (JArr (c # cs)) \<Rightarrow> first_some
            (refuse_unless (cd_tools cd \<noteq> [] \<and> list_all (\<lambda>(k, v). v \<notin> {''unknown'', ''not-found'', ''''}) (cd_tools cd))
               ''Uncertain tool versions''
             # map (check_command sha256_hex artifact) (c # cs))
        | _ \<Rightarrow> Some ''Missing executed commands''),
       refuse_unless (cd_locks cd \<noteq> [] \<longrightarrow>
           (case map_of data ''dependency_locks'' of None \<Rightarrow> True | Some v \<Rightarrow> dict_of_texts v (cd_locks cd)))
         ''Dependency lock mismatch'']"

text \<open>
  The manifests below the evidence directory, newest first, each with its path, what its
  file parses to (None where it does not), and the artifacts beside it.
\<close>

record manifest =
  mf_path :: string
  mf_data :: "json option"
  mf_artifact :: "string \<Rightarrow> string option"

fun check_manifests ::
  "(string \<Rightarrow> string) \<Rightarrow> candidate \<Rightarrow> manifest list \<Rightarrow> bool \<times> string \<times> ((string \<times> json) list \<times> string) option" where
  "check_manifests sha256_hex cd [] = (False, ''No prior matching evidence found'', None)"
| "check_manifests sha256_hex cd (m # ms) =
     (case mf_data m of
        None \<Rightarrow> (False, ''Invalid evidence manifest; fresh execution required'', None)
      | Some (JObj data) \<Rightarrow>
          if map_of data ''target'' \<noteq> Some (JStr (cd_gate cd)) then check_manifests sha256_hex cd ms
          else if map_of data ''reused'' = Some (JBool True) then check_manifests sha256_hex cd ms
          else (case check_manifest sha256_hex (mf_artifact m) cd data of
                  Some reason \<Rightarrow> (False, reason, None)
                | None \<Rightarrow> (True, ''Valid matching execution evidence found for reuse'', Some (data, mf_path m)))
      | Some _ \<Rightarrow> (False, ''Invalid evidence manifest'', None))"

text \<open>evidence is None where the directory does not exist.\<close>

definition check_reuse_eligibility ::
  "(string \<Rightarrow> string) \<Rightarrow> candidate \<Rightarrow> manifest list option \<Rightarrow> bool \<Rightarrow> bool \<times> string \<times> ((string \<times> json) list \<times> string) option" where
  "check_reuse_eligibility sha256_hex cd evidence fresh =
     (if fresh then (False, ''Fresh execution requested (--fresh)'', None)
      else (case evidence of
              None \<Rightarrow> (False, ''No evidence directory found'', None)
            | Some ms \<Rightarrow> check_manifests sha256_hex cd ms))"

text \<open>The manifest written for a reused result.\<close>

definition create_reused_manifest ::
  "(string \<Rightarrow> string) \<Rightarrow> string \<Rightarrow> (string \<times> json) list \<Rightarrow> string \<Rightarrow> string \<Rightarrow> string \<Rightarrow> string \<Rightarrow> string \<Rightarrow> string \<Rightarrow> (string \<times> json) list" where
  "create_reused_manifest sha256_hex gate source source_bytes source_path candidate_sha candidate_fingerprint run_id timestamp =
     [(''timestamp'', JStr timestamp), (''run_id'', JStr run_id), (''reused'', JBool True), (''execution_type'', JStr ''reused''),
      (''label'', JStr ''reused, never rerun''), (''target'', JStr gate),
      (''source_verified_sha'',
        (case map_of source ''source_verified_sha'' of
           Some v \<Rightarrow> if v \<in> {JNull, JBool False, JInt 0, JStr [], JArr [], JObj []} then get_or source ''git_sha'' (JStr ''unknown'') else v
         | None \<Rightarrow> get_or source ''git_sha'' (JStr ''unknown''))),
      (''candidate_sha'', JStr candidate_sha), (''source_manifest_hash'', JStr (sha256_hex source_bytes)),
      (''source_manifest_path'', JStr source_path), (''input_fingerprint'', JStr candidate_fingerprint),
      (''tool_versions'', get_or source ''tool_versions'' (JObj [])), (''test_profile'', get_or source ''test_profile'' (JStr ''standard'')),
      (''commands'', get_or source ''commands'' (JArr [])), (''exit_code'', JInt 0)]"

section \<open>What the fingerprint determines\<close>

lemma closed_field_eq:
  "c \<notin> set x \<Longrightarrow> c \<notin> set y \<Longrightarrow> x @ c # a = y @ c # b \<longleftrightarrow> x = y \<and> a = b"
  by (auto simp: append_eq_append_conv2 append_eq_Cons_conv Cons_eq_append_conv)

lemma closed_fields_inject:
  assumes "concat (map (\<lambda>field. field @ [c]) xs) = concat (map (\<lambda>field. field @ [c]) ys)"
    and "\<forall>x \<in> set xs. c \<notin> set x" "\<forall>y \<in> set ys. c \<notin> set y"
  shows "xs = ys"
  using assms
proof (induction xs arbitrary: ys)
  case Nil
  then show ?case by (cases ys) auto
next
  case (Cons x xs)
  then obtain y ys' where y: "ys = y # ys'" by (cases ys) auto
  have "x @ c # concat (map (\<lambda>field. field @ [c]) xs) = y @ c # concat (map (\<lambda>field. field @ [c]) ys')"
    using Cons.prems(1) y by simp
  moreover have "c \<notin> set x" "c \<notin> set y" using Cons.prems y by auto
  ultimately have "x = y \<and> concat (map (\<lambda>field. field @ [c]) xs) = concat (map (\<lambda>field. field @ [c]) ys')"
    using closed_field_eq [of c x y] by blast
  then show ?case using Cons.IH [of ys'] Cons.prems y by auto
qed

lemma nat_str_inject: "nat_str m = nat_str n \<Longrightarrow> m = n"
  using nat_str_canonical [of m] nat_str_canonical [of n] by metis

lemma nat_str_no_nul: "nul \<notin> set (nat_str n)"
proof -
  have "list_all is_digit (nat_str n)" using nat_str_canonical [of n] by (simp add: canonical_def)
  moreover have "\<not> is_digit nul" by code_simp
  ultimately show ?thesis by (auto simp: list_all_iff)
qed

definition without_nul :: "input_file \<Rightarrow> bool" where
  "without_nul f = (nul \<notin> set (as_posix (if_path f)) \<and> nul \<notin> set (if_bytes f))"

definition fingerprinted :: "input_file \<Rightarrow> string \<times> nat \<times> string" where
  "fingerprinted f = (as_posix (if_path f), if_mode f, if_bytes f)"

lemma file_fields_inject:
  "concat (map file_fields xs) = concat (map file_fields ys) \<Longrightarrow> map fingerprinted xs = map fingerprinted ys"
proof (induction xs arbitrary: ys)
  case Nil
  then show ?case by (cases ys) (auto simp: file_fields_def)
next
  case (Cons x xs)
  have three: "length (file_fields f) = 3" for f by (simp add: file_fields_def)
  show ?case
  proof (cases ys)
    case Nil
    then show ?thesis using Cons.prems by (simp add: file_fields_def)
  next
    case (Cons y ys')
    then have split: "file_fields x = file_fields y" "concat (map file_fields xs) = concat (map file_fields ys')"
      using Cons.prems append_eq_append_conv [of "file_fields x" "file_fields y"] three by simp_all
    have "fingerprinted x = fingerprinted y"
      using split(1) by (auto simp: file_fields_def fingerprinted_def dest: nat_str_inject)
    then show ?thesis using Cons.IH [OF split(2)] Cons by simp
  qed
qed

text \<open>
  C34: on files without NUL bytes, and unless SHA-256 collides on the two inputs, equal
  fingerprints mean the same gate and the same inputs: path, mode and content of every file.
\<close>

theorem fingerprint_determines_inputs:
  assumes "compute_fingerprint sha g repo = compute_fingerprint sha g' repo'"
    and "sha (hashed_bytes g (get_gate_inputs g repo)) = sha (hashed_bytes g' (get_gate_inputs g' repo')) \<Longrightarrow>
      hashed_bytes g (get_gate_inputs g repo) = hashed_bytes g' (get_gate_inputs g' repo')"
    and "nul \<notin> set g" "nul \<notin> set g'" "\<forall>f \<in> set (repo @ repo'). without_nul f"
  shows "g = g' \<and> map fingerprinted (get_gate_inputs g repo) = map fingerprinted (get_gate_inputs g' repo')"
proof -
  let ?fields = "\<lambda>g r. g # concat (map file_fields (get_gate_inputs g r))"
  have clean: "\<forall>x \<in> set (?fields h r). nul \<notin> set x" if "nul \<notin> set h" "\<forall>f \<in> set r. without_nul f" for h r
    using that nat_str_no_nul by (auto simp: get_gate_inputs_def file_fields_def without_nul_def)
  have "concat (map (\<lambda>field. field @ [nul]) (?fields g repo)) = concat (map (\<lambda>field. field @ [nul]) (?fields g' repo'))"
    using assms(1,2) by (simp add: compute_fingerprint_def hashed_bytes_def)
  then have all: "?fields g repo = ?fields g' repo'"
    using assms(3-5) clean [of g repo] clean [of g' repo'] by (intro closed_fields_inject) auto
  note parts = all [unfolded list.inject]
  have "g = g'" "concat (map file_fields (get_gate_inputs g repo)) = concat (map file_fields (get_gate_inputs g' repo'))"
    by (rule conjunct1 [OF parts], rule conjunct2 [OF parts])
  then show ?thesis using file_fields_inject by blast
qed

text \<open>
  With a NUL byte in a file it does not: a file can be made to look like two, and the two
  repositories have one fingerprint.
\<close>

definition ex_one_file :: "input_file list" where
  "ex_one_file = [\<lparr>if_path = [''scripts'', ''a''], if_mode = 420,
     if_bytes = ''x'' @ [nul] @ ''scripts/b'' @ [nul] @ ''420'' @ [nul] @ ''y''\<rparr>]"

definition ex_two_files :: "input_file list" where
  "ex_two_files = [\<lparr>if_path = [''scripts'', ''a''], if_mode = 420, if_bytes = ''x''\<rparr>,
     \<lparr>if_path = [''scripts'', ''b''], if_mode = 420, if_bytes = ''y''\<rparr>]"

lemma fingerprint_framing:
  "compute_fingerprint sha ''lint'' ex_one_file = compute_fingerprint sha ''lint'' ex_two_files"
proof -
  have "get_gate_inputs ''lint'' ex_one_file = ex_one_file" "get_gate_inputs ''lint'' ex_two_files = ex_two_files"
    by code_simp+
  moreover have "hashed_bytes ''lint'' ex_one_file = hashed_bytes ''lint'' ex_two_files" by code_simp
  ultimately show ?thesis by (simp add: compute_fingerprint_def)
qed

theorem fingerprint_determines_inputs_witness:
  "map fingerprinted (get_gate_inputs ''lint'' ex_two_files) = map fingerprinted (get_gate_inputs ''lint'' (rev ex_two_files))"
proof -
  have same: "get_gate_inputs ''lint'' ex_two_files = ex_two_files" "get_gate_inputs ''lint'' (rev ex_two_files) = ex_two_files"
    by code_simp+
  have e: "compute_fingerprint (\<lambda>s. s) ''lint'' ex_two_files = compute_fingerprint (\<lambda>s. s) ''lint'' (rev ex_two_files)"
    by (simp add: compute_fingerprint_def same)
  have n: "nul \<notin> set ''lint''" by code_simp
  have "\<forall>f \<in> set (ex_two_files @ rev ex_two_files). without_nul f" by code_simp
  from fingerprint_determines_inputs [OF e _ n n this]
  show ?thesis by simp
qed

section \<open>Reuse is sound\<close>

lemma check_manifest_accepts:
  assumes "check_manifest sha artifact cd data = None"
  shows "map_of data ''exit_code'' = Some (JInt 0) \<and> map_of data ''input_fingerprint'' = Some (JStr (cd_fingerprint cd)) \<and>
    dict_of_texts (get_or data ''tool_versions'' (JObj [])) (cd_tools cd) \<and> (\<forall>(k, v) \<in> set (cd_tools cd). v \<noteq> ''unknown'') \<and>
    get_or data ''test_profile'' (JStr ''standard'') = JStr (cd_profile cd) \<and> map_of data ''execution_type'' = Some (JStr ''fresh'') \<and>
    (\<exists>cs. map_of data ''commands'' = Some (JArr cs) \<and> cs \<noteq> [] \<and> (\<forall>c \<in> set cs. check_command sha artifact c = None)) \<and>
    (cd_locks cd \<noteq> [] \<longrightarrow> (\<forall>v. map_of data ''dependency_locks'' = Some v \<longrightarrow> dict_of_texts v (cd_locks cd)))"
proof -
  have refuse: "refuse_unless ok r = None \<longleftrightarrow> ok" for ok r by (simp add: refuse_unless_def)
  obtain c cs where c: "map_of data ''commands'' = Some (JArr (c # cs))"
    using assms by (auto simp: check_manifest_def first_some_None split: option.splits json.splits list.splits)
  show ?thesis
    using assms c by (auto simp: check_manifest_def first_some_None refuse list_all_iff split: option.splits)
qed

lemma check_command_zero:
  "check_command sha artifact (JObj kvs) = None \<Longrightarrow> map_of kvs ''exit_code'' \<in> {Some (JInt 0), Some (JBool False)}"
  by (auto simp: check_command_def split: if_splits)

lemma check_command_accepts:
  assumes "check_command sha artifact (JObj kvs) = None" "stream \<in> {''stdout'', ''stderr''}"
  shows "\<exists>name bytes. map_of kvs (stream @ ''_file'') = Some (JStr name) \<and> artifact name = Some bytes \<and>
    map_of kvs (stream @ ''_sha256'') = Some (JStr (sha bytes))"
proof -
  have "check_stream sha artifact kvs stream = None"
    using assms by (auto simp: check_command_def first_some_None split: if_splits)
  then show ?thesis
    by (auto simp: check_stream_def get_or_def split: option.splits json.splits if_splits)
qed

lemma check_manifests_accepts:
  "check_manifests sha cd ms = (True, reason, source) \<Longrightarrow>
   \<exists>newer m older data. ms = newer @ m # older \<and> source = Some (data, mf_path m) \<and> mf_data m = Some (JObj data) \<and>
    (\<forall>x \<in> set newer. \<exists>kvs. mf_data x = Some (JObj kvs) \<and>
       (map_of kvs ''target'' \<noteq> Some (JStr (cd_gate cd)) \<or> map_of kvs ''reused'' = Some (JBool True))) \<and>
    map_of data ''target'' = Some (JStr (cd_gate cd)) \<and> map_of data ''reused'' \<noteq> Some (JBool True) \<and>
    check_manifest sha (mf_artifact m) cd data = None"
proof (induction ms)
  case (Cons m ms)
  obtain data where d: "mf_data m = Some (JObj data)"
    using Cons.prems by (auto split: option.splits json.splits)
  show ?case
  proof (cases "map_of data ''target'' = Some (JStr (cd_gate cd)) \<and> map_of data ''reused'' \<noteq> Some (JBool True)")
    case True
    then have "check_manifest sha (mf_artifact m) cd data = None \<and> source = Some (data, mf_path m)"
      using Cons.prems d by (auto split: option.splits)
    then show ?thesis using d True by (intro exI [of _ "[]"] exI [of _ m] exI [of _ ms] exI [of _ data]) simp
  next
    case False
    then have "check_manifests sha cd ms = (True, reason, source)" using Cons.prems d by (auto split: if_splits)
    from Cons.IH [OF this] obtain newer x older data' where
      "ms = newer @ x # older" "source = Some (data', mf_path x)" "mf_data x = Some (JObj data')"
      "\<forall>x \<in> set newer. \<exists>kvs. mf_data x = Some (JObj kvs) \<and>
         (map_of kvs ''target'' \<noteq> Some (JStr (cd_gate cd)) \<or> map_of kvs ''reused'' = Some (JBool True))"
      "map_of data' ''target'' = Some (JStr (cd_gate cd))" "map_of data' ''reused'' \<noteq> Some (JBool True)"
      "check_manifest sha (mf_artifact x) cd data' = None" by blast
    then show ?thesis using d False
      by (intro exI [of _ "m # newer"] exI [of _ x] exI [of _ older] exI [of _ data']) auto
  qed
qed simp

text \<open>
  Evidence is reused only from an original run of the same gate, newer runs of the
  gate that were not themselves reuses there being none: it succeeded on the same
  fingerprint, with the same known tools and profile, every command of it succeeded, and
  each output recorded is there and has the hash recorded.
\<close>

theorem reuse_sound:
  assumes "check_reuse_eligibility sha cd (Some ms) fresh = (True, reason, source)"
  shows "\<not> fresh \<and> (\<exists>newer m older data. ms = newer @ m # older \<and> source = Some (data, mf_path m) \<and> mf_data m = Some (JObj data) \<and>
    (\<forall>x \<in> set newer. \<exists>kvs. mf_data x = Some (JObj kvs) \<and>
       (map_of kvs ''target'' \<noteq> Some (JStr (cd_gate cd)) \<or> map_of kvs ''reused'' = Some (JBool True))) \<and>
    map_of data ''target'' = Some (JStr (cd_gate cd)) \<and> map_of data ''reused'' \<noteq> Some (JBool True) \<and>
    map_of data ''exit_code'' = Some (JInt 0) \<and> map_of data ''input_fingerprint'' = Some (JStr (cd_fingerprint cd)) \<and>
    dict_of_texts (get_or data ''tool_versions'' (JObj [])) (cd_tools cd) \<and>
    get_or data ''test_profile'' (JStr ''standard'') = JStr (cd_profile cd) \<and>
    (\<exists>cs. map_of data ''commands'' = Some (JArr cs) \<and> cs \<noteq> [] \<and>
       (\<forall>c \<in> set cs. \<exists>kvs. c = JObj kvs \<and> map_of kvs ''exit_code'' \<in> {Some (JInt 0), Some (JBool False)} \<and>
         (\<forall>stream \<in> {''stdout'', ''stderr''}. \<exists>name bytes.
            map_of kvs (stream @ ''_file'') = Some (JStr name) \<and> mf_artifact m name = Some bytes \<and>
            map_of kvs (stream @ ''_sha256'') = Some (JStr (sha bytes))))))"
proof -
  have run: "\<not> fresh" "check_manifests sha cd ms = (True, reason, source)"
    using assms by (auto simp: check_reuse_eligibility_def split: if_splits)
  obtain newer m older data where m: "ms = newer @ m # older" "source = Some (data, mf_path m)" "mf_data m = Some (JObj data)"
    "\<forall>x \<in> set newer. \<exists>kvs. mf_data x = Some (JObj kvs) \<and>
       (map_of kvs ''target'' \<noteq> Some (JStr (cd_gate cd)) \<or> map_of kvs ''reused'' = Some (JBool True))"
    "map_of data ''target'' = Some (JStr (cd_gate cd))" "map_of data ''reused'' \<noteq> Some (JBool True)"
    "check_manifest sha (mf_artifact m) cd data = None"
    using check_manifests_accepts [OF run(2)] by blast
  note acc = check_manifest_accepts [OF m(7)]
  obtain cs where cs: "map_of data ''commands'' = Some (JArr cs)" "cs \<noteq> []" "\<forall>c \<in> set cs. check_command sha (mf_artifact m) c = None"
    using acc by blast
  have obj: "\<exists>kvs. c = JObj kvs \<and> check_command sha (mf_artifact m) (JObj kvs) = None" if "c \<in> set cs" for c
    using bspec [OF cs(3) that] by (cases c) (simp_all add: check_command_def)
  have "\<forall>c \<in> set cs. \<exists>kvs. c = JObj kvs \<and> map_of kvs ''exit_code'' \<in> {Some (JInt 0), Some (JBool False)} \<and>
      (\<forall>stream \<in> {''stdout'', ''stderr''}. \<exists>name bytes.
          map_of kvs (stream @ ''_file'') = Some (JStr name) \<and> mf_artifact m name = Some bytes \<and>
          map_of kvs (stream @ ''_sha256'') = Some (JStr (sha bytes)))"
    using obj check_command_accepts [of sha "mf_artifact m"] check_command_zero [of sha "mf_artifact m"] by meson
  then show ?thesis
    using run(1) m(1-6) acc cs(1,2) by (intro conjI exI [of _ newer] exI [of _ m] exI [of _ older] exI [of _ data] exI [of _ cs]) simp_all
qed

definition ex_candidate :: candidate where
  "ex_candidate = \<lparr>cd_gate = ''unit'', cd_fingerprint = ''f'', cd_tools = [(''uv'', ''1'')], cd_profile = ''standard'', cd_locks = []\<rparr>"

definition ex_manifest :: manifest where
  "ex_manifest = \<lparr>mf_path = ''run1'', mf_data = Some (JObj
     [(''target'', JStr ''unit''), (''exit_code'', JInt 0), (''input_fingerprint'', JStr ''f''),
      (''tool_versions'', JObj [(''uv'', JStr ''1'')]), (''evidence_version'', JInt 2), (''execution_type'', JStr ''fresh''),
      (''git_sha'', JStr (replicate 40 (CHR ''a''))),
      (''commands'', JArr [JObj [(''exit_code'', JInt 0), (''stdout_file'', JStr ''o''), (''stdout_sha256'', JStr ''o''),
         (''stderr_file'', JStr ''e''), (''stderr_sha256'', JStr ''e'')]])]),
     mf_artifact = (\<lambda>name. Some name)\<rparr>"

definition ex_reused :: manifest where
  "ex_reused = \<lparr>mf_path = ''run2'', mf_data = Some (JObj [(''target'', JStr ''unit''), (''reused'', JBool True)]),
     mf_artifact = (\<lambda>_. None)\<rparr>"

theorem reuse_sound_witness:
  "\<exists>reason data. check_reuse_eligibility (\<lambda>s. s) ex_candidate (Some [ex_reused, ex_manifest]) False = (True, reason, Some (data, ''run1'')) \<and>
     map_of data ''exit_code'' = Some (JInt 0)"
proof -
  have "case check_reuse_eligibility (\<lambda>s. s) ex_candidate (Some [ex_reused, ex_manifest]) False of
      (True, _, Some (_, p)) \<Rightarrow> p = ''run1'' | _ \<Rightarrow> False"
    by code_simp
  then obtain reason data where
    run: "check_reuse_eligibility (\<lambda>s. s) ex_candidate (Some [ex_reused, ex_manifest]) False = (True, reason, Some (data, ''run1''))"
    by (auto split: prod.splits bool.splits option.splits)
  from reuse_sound [OF run] show ?thesis using run by blast
qed

text \<open>A reused manifest never is a source itself: the check passes over it.\<close>

lemma reused_is_no_source:
  assumes "mf_data m = Some (JObj (create_reused_manifest sha g source bytes path c fp run t))"
  shows "check_manifests sha cd (m # ms) = check_manifests sha cd ms"
  using assms by (simp add: create_reused_manifest_def)

end
