(* ===== verification/RaceLab.thy ===== *)
theory RaceLab
imports Scope
begin

text \<open>
  The race lab (scripts/race_demo.py): a demonstration, on a database of its own, that two
  transactions which check and then insert can both book a window, and that the exclusion
  constraint of the service lets one of them through. Its guards decide on which server and
  database it may act. The host name that urlsplit reads from the URL, the IPv6 reader of
  ipaddress and SHA-256 are parameters; a schedule says which writer moves next.
\<close>

section \<open>Guards\<close>

datatype lab_error = RaceLabSafetyError | LabTypeError | LabDatabaseError | LabRuntimeError

definition unless :: "bool \<Rightarrow> lab_error \<Rightarrow> lab_error option" where
  "unless ok e = (if ok then None else Some e)"

definition excluded_database_names :: "string list" where
  "excluded_database_names =
     [''commonsbook'', ''commonsbook_production'', ''commonsbook_staging'', ''commonsbook_test'',
      ''postgres'', ''template0'', ''template1'']"

definition disposable_prefix :: string where "disposable_prefix = ''commonsbook_racelab_''"

text \<open>The pattern [a-zA-Z0-9\_-]+, matched in full.\<close>

definition run_char :: "char \<Rightarrow> bool" where
  "run_char c = (let n = code c in
     65 \<le> n \<and> n \<le> 90 \<or> 97 \<le> n \<and> n \<le> 122 \<or> 48 \<le> n \<and> n \<le> 57 \<or> c \<in> set ''_-'')"

definition run_name :: "string \<Rightarrow> bool" where "run_name s = (s \<noteq> [] \<and> list_all run_char s)"

definition occurs_in :: "string \<Rightarrow> string \<Rightarrow> bool" where
  "occurs_in pat s = list_ex (\<lambda>i. prefix pat (drop i s)) [0..<Suc (length s)]"

text \<open>A truthy text.\<close>

definition given :: "string option \<Rightarrow> bool" where "given s = (s \<noteq> None \<and> s \<noteq> Some [])"

definition validate_database_name :: "string \<Rightarrow> string option \<Rightarrow> lab_error option" where
  "validate_database_name db_name expected_run_id =
     (let name = py_strip db_name; run_id_part = drop (length disposable_prefix) name in
      first_some
       [unless (db_name \<noteq> []) RaceLabSafetyError,
        unless (py_lower name \<notin> set excluded_database_names) RaceLabSafetyError,
        unless (\<forall>keyword \<in> set [''production'', ''prod'', ''staging'']. \<not> occurs_in keyword (py_lower name)) RaceLabSafetyError,
        unless (prefix disposable_prefix name) RaceLabSafetyError,
        unless (run_name run_id_part) RaceLabSafetyError,
        unless (given expected_run_id \<longrightarrow> run_id_part = the expected_run_id) RaceLabSafetyError])"

text \<open>
  ipaddress.ip\_address: dotted quads of decimal octets without leading zeros, and IPv6
  through the parameter: None where it is no address, else whether it is the loopback.
\<close>

fun octets :: "string \<Rightarrow> string list" where
  "octets [] = [[]]"
| "octets (c # s) = (if c = CHR ''.'' then [] # octets s else (case octets s of [] \<Rightarrow> [[c]] | p # ps \<Rightarrow> (c # p) # ps))"

definition octet :: "string \<Rightarrow> nat option" where
  "octet s =
     (if s \<noteq> [] \<and> list_all is_digit s \<and> length s \<le> 3 \<and> (length s > 1 \<longrightarrow> hd s \<noteq> CHR ''0'')
      then (let n = undigits 10 (map digit_val s) in if n \<le> 255 then Some n else None) else None)"

definition ipv4_loopback :: "string \<Rightarrow> bool option" where
  "ipv4_loopback s =
     (case map octet (octets s) of
        [Some a, Some b, Some c, Some d] \<Rightarrow> Some (a = 127)
      | _ \<Rightarrow> None)"

definition validate_host :: "(string \<Rightarrow> bool option) \<Rightarrow> string option \<Rightarrow> lab_error option" where
  "validate_host ipv6_loopback host =
     (if \<not> given host then Some RaceLabSafetyError
      else (let host_lower = py_lower (py_strip (the host)) in
            if host_lower \<in> {''localhost'', ''127.0.0.1'', ''::1''} then None
            else (case (case ipv4_loopback host_lower of Some l \<Rightarrow> Some l | None \<Rightarrow> ipv6_loopback host_lower) of
                    Some True \<Rightarrow> None
                  | _ \<Rightarrow> Some RaceLabSafetyError)))"

text \<open>The token, or its hash: exactly one decides, and the hash needs the token presented.\<close>

definition falsy_json :: "json \<Rightarrow> bool" where
  "falsy_json v = (v \<in> {JNull, JBool False, JInt 0, JStr [], JArr [], JObj []})"

definition not_null :: "json option \<Rightarrow> json option" where
  "not_null v = (if v = Some JNull then None else v)"

definition check_token :: "(string \<Rightarrow> string) \<Rightarrow> json option \<Rightarrow> json option \<Rightarrow> string option \<Rightarrow> lab_error option" where
  "check_token sha256_hex token token_sha256 expected_token =
     (case not_null token of
        Some (JStr t) \<Rightarrow> first_some
          [unless (16 \<le> length (py_strip t)) RaceLabSafetyError,
           unless (given expected_token \<longrightarrow> py_strip t = py_strip (the expected_token)) RaceLabSafetyError,
           unless (case token_sha256 of None \<Rightarrow> True
             | Some h \<Rightarrow> falsy_json h \<or> h = JStr (sha256_hex (py_strip t))) RaceLabSafetyError]
      | Some _ \<Rightarrow> Some RaceLabSafetyError
      | None \<Rightarrow>
          (case not_null token_sha256 of
             None \<Rightarrow> Some RaceLabSafetyError
           | Some h \<Rightarrow> first_some
               [unless (given expected_token \<and> 16 \<le> length (py_strip (the expected_token))) RaceLabSafetyError,
                unless (h = JStr (sha256_hex (py_strip (the expected_token)))) RaceLabSafetyError]))"

definition host_aliases :: "string list" where "host_aliases = [''localhost'', ''127.0.0.1'']"

definition check_host ::
  "(string \<Rightarrow> bool option) \<Rightarrow> json option \<Rightarrow> string option \<Rightarrow> lab_error option" where
  "check_host ipv6_loopback host expected_host =
     (case host of
        Some (JStr h) \<Rightarrow> first_some
          [validate_host ipv6_loopback (Some h),
           unless (given expected_host \<longrightarrow>
             (let norm_expected = py_lower (the expected_host); norm_actual = py_lower h in
              norm_actual = norm_expected \<or> norm_expected \<in> set host_aliases \<and> norm_actual \<in> set host_aliases)) RaceLabSafetyError]
      | None \<Rightarrow> Some RaceLabSafetyError
      | Some v \<Rightarrow> Some (if falsy_json v then RaceLabSafetyError else LabTypeError))"

definition check_actions :: "json option \<Rightarrow> string \<Rightarrow> lab_error option" where
  "check_actions actions required_action =
     (case actions of Some (JArr xs) \<Rightarrow> unless (JStr required_action \<in> set xs) RaceLabSafetyError | _ \<Rightarrow> Some RaceLabSafetyError)"

text \<open>approval is the parsed document.\<close>

definition validate_approval ::
  "(string \<Rightarrow> string) \<Rightarrow> (string \<Rightarrow> bool option) \<Rightarrow> json \<Rightarrow> string \<Rightarrow> string option \<Rightarrow> string option \<Rightarrow> string option \<Rightarrow> string option \<Rightarrow>
   lab_error option" where
  "validate_approval sha256_hex ipv6_loopback approval required_action expected_run_id expected_db expected_host expected_token =
     (case approval of
        JObj kvs \<Rightarrow>
          (case check_token sha256_hex (map_of kvs ''token'') (map_of kvs ''token_sha256'') expected_token of
             Some e \<Rightarrow> Some e
           | None \<Rightarrow>
          (case map_of kvs ''run_id'' of
             Some (JStr run_id) \<Rightarrow>
               (let expected_name = disposable_prefix @ py_strip run_id in
                first_some
                 [unless (run_name (py_strip run_id)) RaceLabSafetyError,
                  unless (given expected_run_id \<longrightarrow> py_strip run_id = py_strip (the expected_run_id)) RaceLabSafetyError,
                  unless (map_of kvs ''database'' = Some (JStr expected_name)) RaceLabSafetyError,
                  validate_database_name expected_name (Some (py_strip run_id)),
                  unless (given expected_db \<longrightarrow> expected_name = the expected_db) RaceLabSafetyError,
                  check_host ipv6_loopback (map_of kvs ''host'') expected_host,
                  check_actions (map_of kvs ''actions'') required_action])
           | _ \<Rightarrow> Some RaceLabSafetyError))
      | _ \<Rightarrow> Some RaceLabSafetyError)"

text \<open>document is what the file holds: None without a file, Some None where it is not JSON.\<close>

definition load_approval_file :: "json option option \<Rightarrow> lab_error + json" where
  "load_approval_file document =
     (case document of Some (Some (JObj kvs)) \<Rightarrow> Inr (JObj kvs) | _ \<Rightarrow> Inl RaceLabSafetyError)"

definition normalize_asyncpg_url :: "string \<Rightarrow> string" where
  "normalize_asyncpg_url url =
     (if prefix ''postgresql+asyncpg://'' url then ''postgresql://'' @ drop (length ''postgresql+asyncpg://'') url
      else if prefix ''postgres://'' url then ''postgresql://'' @ drop (length ''postgres://'') url
      else url)"

section \<open>The disposable database\<close>

text \<open>
  A server maps the names of its databases to the two lab tables, None before
  setup\_lab\_schema. An identifier in a statement is cut to 63 characters; a parameter of
  type name of that length or more is refused.
\<close>

record lab_row =
  lr_id :: uuid
  lr_resource :: uuid
  lr_range :: trange

type_synonym lab_tables = "(lab_row list \<times> lab_row list) option"
type_synonym server_state = "string \<rightharpoonup> lab_tables"

definition ident :: "string \<Rightarrow> string" where "ident s = take 63 s"

definition db_exists :: "string \<Rightarrow> server_state \<Rightarrow> lab_error + bool" where
  "db_exists db_name sv = (if length db_name \<ge> 64 then Inl LabDatabaseError else Inr (sv db_name \<noteq> None))"

definition create_database :: "string \<Rightarrow> server_state \<Rightarrow> (lab_error + unit) \<times> server_state" where
  "create_database db_name sv =
     (if sv (ident db_name) \<noteq> None then (Inl LabDatabaseError, sv) else (Inr (), sv(ident db_name \<mapsto> None)))"

definition drop_database :: "string \<Rightarrow> server_state \<Rightarrow> server_state" where
  "drop_database db_name sv = sv(ident db_name := None)"

record lab_env =
  le_sha256 :: "string \<Rightarrow> string"
  le_ipv6 :: "string \<Rightarrow> bool option"
  le_hostname :: "string option"
  le_approval :: json
  le_token :: "string option"

definition authorized :: "lab_env \<Rightarrow> string \<Rightarrow> string \<Rightarrow> string \<Rightarrow> lab_error option" where
  "authorized env action run_id db_name =
     validate_approval (le_sha256 env) (le_ipv6 env) (le_approval env) action (Some run_id) (Some db_name)
       (le_hostname env) (le_token env)"

text \<open>Statements commit one by one, so an error keeps what was done before it.\<close>

definition create_disposable_database ::
  "lab_env \<Rightarrow> string \<Rightarrow> string \<Rightarrow> server_state \<Rightarrow> (lab_error + unit) \<times> server_state" where
  "create_disposable_database env db_name run_id sv =
     (case first_some [validate_database_name db_name (Some run_id), validate_host (le_ipv6 env) (le_hostname env),
             authorized env ''create'' run_id db_name] of
        Some e \<Rightarrow> (Inl e, sv)
      | None \<Rightarrow>
          (case db_exists db_name sv of
             Inl e \<Rightarrow> (Inl e, sv)
           | Inr False \<Rightarrow> create_database db_name sv
           | Inr True \<Rightarrow>
               (case authorized env ''reset'' run_id db_name of
                  Some e \<Rightarrow> (Inl e, sv)
                | None \<Rightarrow> create_database db_name (drop_database db_name sv))))"

definition setup_lab_schema :: "string \<Rightarrow> server_state \<Rightarrow> (lab_error + unit) \<times> server_state" where
  "setup_lab_schema db_name sv =
     (case sv db_name of
        Some None \<Rightarrow> (Inr (), sv(db_name \<mapsto> Some ([], [])))
      | _ \<Rightarrow> (Inl LabDatabaseError, sv))"

definition cleanup_disposable_database ::
  "lab_env \<Rightarrow> string \<Rightarrow> string \<Rightarrow> server_state \<Rightarrow> (lab_error + unit) \<times> server_state" where
  "cleanup_disposable_database env db_name run_id sv =
     (case first_some [validate_database_name db_name (Some run_id), validate_host (le_ipv6 env) (le_hostname env),
             authorized env ''cleanup'' run_id db_name] of
        Some e \<Rightarrow> (Inl e, sv)
      | None \<Rightarrow>
          (let sv1 = drop_database db_name sv in
           case db_exists db_name sv1 of
             Inl e \<Rightarrow> (Inl e, sv1)
           | Inr still_exists \<Rightarrow> ((if still_exists then Inl RaceLabSafetyError else Inr ()), sv1)))"

section \<open>Two writers\<close>

text \<open>
  Fresh before its check, Checked n after it counted n overlapping rows, Pending n with its
  row inserted and not committed, Committed n, and Rejected n after the constraint refused
  the row (23P01). The barrier lets nobody insert before both have checked. An insert into
  the protected table waits while the other writer's overlapping row is uncommitted.
\<close>

datatype phase = Fresh | Checked nat | Pending nat | Committed nat | Rejected nat

record lab =
  lab_rows :: "lab_row list"
  lab_phase :: "bool \<Rightarrow> phase"

definition writer_row :: "(bool \<Rightarrow> uuid) \<Rightarrow> uuid \<Rightarrow> trange \<Rightarrow> bool \<Rightarrow> lab_row" where
  "writer_row wid resource_id rng i = \<lparr>lr_id = wid i, lr_resource = resource_id, lr_range = rng\<rparr>"

definition lab_overlapping :: "uuid \<Rightarrow> trange \<Rightarrow> lab_row list \<Rightarrow> lab_row list" where
  "lab_overlapping resource_id rng rows = filter (\<lambda>r. lr_resource r = resource_id \<and> overlaps (lr_range r) rng) rows"

fun is_pending :: "phase \<Rightarrow> bool" where
  "is_pending (Pending _) = True" | "is_pending _ = False"

definition move :: "bool \<Rightarrow> (bool \<Rightarrow> uuid) \<Rightarrow> uuid \<Rightarrow> trange \<Rightarrow> bool \<Rightarrow> lab \<Rightarrow> lab option" where
  "move guarded wid resource_id rng i s =
     (case lab_phase s i of
        Fresh \<Rightarrow> Some (s\<lparr>lab_phase := (lab_phase s)(i := Checked (length (lab_overlapping resource_id rng (lab_rows s))))\<rparr>)
      | Checked n \<Rightarrow>
          (if lab_phase s (\<not> i) = Fresh then None
           else if guarded \<and> lab_overlapping resource_id rng (lab_rows s) \<noteq> []
             then Some (s\<lparr>lab_phase := (lab_phase s)(i := Rejected n)\<rparr>)
           else if guarded \<and> is_pending (lab_phase s (\<not> i)) then None
           else Some (s\<lparr>lab_phase := (lab_phase s)(i := Pending n)\<rparr>))
      | Pending n \<Rightarrow>
          Some \<lparr>lab_rows = lab_rows s @ [writer_row wid resource_id rng i], lab_phase = (lab_phase s)(i := Committed n)\<rparr>
      | _ \<Rightarrow> None)"

text \<open>A schedule names the writer that moves next; one that is blocked or done stays put.\<close>

fun lab_run :: "bool \<Rightarrow> (bool \<Rightarrow> uuid) \<Rightarrow> uuid \<Rightarrow> trange \<Rightarrow> bool list \<Rightarrow> lab \<Rightarrow> lab" where
  "lab_run guarded wid resource_id rng [] s = s"
| "lab_run guarded wid resource_id rng (i # is) s =
     lab_run guarded wid resource_id rng is (case move guarded wid resource_id rng i s of None \<Rightarrow> s | Some s' \<Rightarrow> s')"

fun finished :: "phase \<Rightarrow> bool" where
  "finished (Committed _) = True" | "finished (Rejected _) = True" | "finished _ = False"

definition all_done :: "lab \<Rightarrow> bool" where "all_done s = (finished (lab_phase s True) \<and> finished (lab_phase s False))"

definition lab_start :: "lab_row list \<Rightarrow> lab" where "lab_start rows = \<lparr>lab_rows = rows, lab_phase = (\<lambda>_. Fresh)\<rparr>"

text \<open>What the two functions check when both writers have returned.\<close>

definition active_rows :: "uuid \<Rightarrow> lab_row list \<Rightarrow> lab_row list" where
  "active_rows resource_id rows = filter (\<lambda>r. lr_resource r = resource_id) rows"

definition overlap_pairs :: "uuid \<Rightarrow> lab_row list \<Rightarrow> (lab_row \<times> lab_row) list" where
  "overlap_pairs resource_id rows =
     filter (\<lambda>(a, b). lr_id a < lr_id b \<and> lr_resource a = lr_resource b \<and> overlaps (lr_range a) (lr_range b)
         \<and> lr_resource a = resource_id) (List.product rows rows)"

definition run_unprotected_race ::
  "(bool \<Rightarrow> uuid) \<Rightarrow> uuid \<Rightarrow> trange \<Rightarrow> bool list \<Rightarrow> lab_row list \<Rightarrow> (lab_error + (bool \<Rightarrow> phase)) \<times> lab_row list" where
  "run_unprotected_race wid resource_id rng schedule rows =
     (let s = lab_run False wid resource_id rng schedule (lab_start rows) in
      (if length (active_rows resource_id (lab_rows s)) \<noteq> 2 then Inl LabRuntimeError
       else if length (overlap_pairs resource_id (lab_rows s)) < 1 then Inl LabRuntimeError
       else Inr (lab_phase s), lab_rows s))"

definition outcomes :: "(phase \<Rightarrow> bool) \<Rightarrow> (bool \<Rightarrow> phase) \<Rightarrow> nat" where
  "outcomes P ph = length (filter P [ph True, ph False])"

definition is_committed :: "phase \<Rightarrow> bool" where "is_committed p = (case p of Committed _ \<Rightarrow> True | _ \<Rightarrow> False)"
definition is_rejected :: "phase \<Rightarrow> bool" where "is_rejected p = (case p of Rejected _ \<Rightarrow> True | _ \<Rightarrow> False)"

definition run_protected_race ::
  "(bool \<Rightarrow> uuid) \<Rightarrow> uuid \<Rightarrow> trange \<Rightarrow> bool list \<Rightarrow> lab_row list \<Rightarrow> (lab_error + (bool \<Rightarrow> phase)) \<times> lab_row list" where
  "run_protected_race wid resource_id rng schedule rows =
     (let s = lab_run True wid resource_id rng schedule (lab_start rows) in
      (if outcomes is_committed (lab_phase s) \<noteq> 1 \<or> outcomes is_rejected (lab_phase s) \<noteq> 1 then Inl LabRuntimeError
       else if length (active_rows resource_id (lab_rows s)) \<noteq> 1 then Inl LabRuntimeError
       else Inr (lab_phase s), lab_rows s))"

section \<open>The demonstration\<close>

definition lab_range :: trange where
  "lab_range = \<lparr>lower = days 20741 + hours 14, upper = days 20741 + hours 15\<rparr>"

text \<open>
  async\_main\_logic up to the evidence files: resource\_id, the ids of the writers and the
  schedules of the two races are given. A TypeError or a failed statement ends the run where
  it stands; the rows of the two tables stay with the database.
\<close>

record lab_run_input =
  li_run_id :: string
  li_cleanup :: bool
  li_resource :: uuid
  li_ids1 :: "bool \<Rightarrow> uuid"
  li_ids2 :: "bool \<Rightarrow> uuid"
  li_schedule1 :: "bool list"
  li_schedule2 :: "bool list"

definition lab_races :: "lab_run_input \<Rightarrow> string \<Rightarrow> server_state \<Rightarrow> (lab_error + (bool \<Rightarrow> phase) \<times> (bool \<Rightarrow> phase)) \<times> server_state" where
  "lab_races inp db_name sv =
     (case sv db_name of
        Some (Some (unprotected, guarded)) \<Rightarrow>
          (case run_unprotected_race (li_ids1 inp) (li_resource inp) lab_range (li_schedule1 inp) unprotected of
             (Inl e, u) \<Rightarrow> (Inl e, sv(db_name \<mapsto> Some (u, guarded)))
           | (Inr before, u) \<Rightarrow>
               (case run_protected_race (li_ids2 inp) (li_resource inp) lab_range (li_schedule2 inp) guarded of
                  (Inl e, g) \<Rightarrow> (Inl e, sv(db_name \<mapsto> Some (u, g)))
                | (Inr after, g) \<Rightarrow> (Inr (before, after), sv(db_name \<mapsto> Some (u, g)))))
      | _ \<Rightarrow> (Inl LabDatabaseError, sv))"

definition async_main_logic ::
  "lab_env \<Rightarrow> lab_run_input \<Rightarrow> server_state \<Rightarrow> (lab_error + (bool \<Rightarrow> phase) \<times> (bool \<Rightarrow> phase)) \<times> server_state" where
  "async_main_logic env inp sv =
     (let db_name = disposable_prefix @ li_run_id inp in
      case first_some [validate_host (le_ipv6 env) (le_hostname env), validate_database_name db_name (Some (li_run_id inp))] of
        Some e \<Rightarrow> (Inl e, sv)
      | None \<Rightarrow>
     (case create_disposable_database env db_name (li_run_id inp) sv of
        (Inl e, sv1) \<Rightarrow> (Inl e, sv1)
      | (Inr _, sv1) \<Rightarrow>
     (case setup_lab_schema db_name sv1 of
        (Inl e, sv2) \<Rightarrow> (Inl e, sv2)
      | (Inr _, sv2) \<Rightarrow>
     (case lab_races inp db_name sv2 of
        (Inl e, sv3) \<Rightarrow> (Inl e, sv3)
      | (Inr res, sv3) \<Rightarrow>
          if li_cleanup inp
          then (case cleanup_disposable_database env db_name (li_run_id inp) sv3 of
                  (Inl e, sv4) \<Rightarrow> (Inl e, sv4)
                | (Inr _, sv4) \<Rightarrow> (Inr res, sv4))
          else (Inr res, sv3)))))"

section \<open>Only the approved database is touched\<close>

lemma first_some_Cons: "first_some (x # xs) = (case x of None \<Rightarrow> first_some xs | Some y \<Rightarrow> Some y)"
  by (cases x) simp_all

lemma unless_None [simp]: "unless ok e = None \<longleftrightarrow> ok"
  by (simp add: unless_def)

lemma run_char_no_space: "run_char c \<Longrightarrow> \<not> py_space c"
  by (auto simp: run_char_def py_space_def code_def Let_def)

lemma run_name_no_space: "run_name s \<Longrightarrow> \<forall>c \<in> set s. \<not> py_space c"
  using run_char_no_space by (auto simp: run_name_def list_all_iff)

section \<open>The races\<close>

text \<open>
  The states of the two writers, with those that have committed in their order, when nobody
  else has booked the resource.
\<close>

definition lab_states :: "bool \<Rightarrow> (phase \<times> phase \<times> bool list) set" where
  "lab_states guarded =
     {(Fresh, Fresh, []), (Checked 0, Fresh, []), (Fresh, Checked 0, []), (Checked 0, Checked 0, []),
      (Pending 0, Checked 0, []), (Checked 0, Pending 0, []), (Committed 0, Checked 0, [True]), (Checked 0, Committed 0, [False])} \<union>
     (if guarded then {(Committed 0, Rejected 0, [True]), (Rejected 0, Committed 0, [False])}
      else {(Pending 0, Pending 0, []), (Committed 0, Pending 0, [True]), (Pending 0, Committed 0, [False]),
            (Committed 0, Committed 0, [True, False]), (Committed 0, Committed 0, [False, True])})"

definition lab_inv :: "bool \<Rightarrow> (bool \<Rightarrow> uuid) \<Rightarrow> uuid \<Rightarrow> trange \<Rightarrow> lab_row list \<Rightarrow> lab \<Rightarrow> bool" where
  "lab_inv guarded wid resource_id rng rows s =
     (\<exists>ws. lab_rows s = rows @ map (writer_row wid resource_id rng) ws \<and>
        (lab_phase s True, lab_phase s False, ws) \<in> lab_states guarded)"

lemma lab_inv_start: "lab_inv guarded wid resource_id rng rows (lab_start rows)"
  by (auto simp: lab_inv_def lab_start_def lab_states_def intro!: exI [of _ "[]"])

lemma overlapping_writers:
  assumes "active_rows resource_id rows = []" "\<not> isempty rng"
  shows "lab_overlapping resource_id rng (rows @ map (writer_row wid resource_id rng) ws) = map (writer_row wid resource_id rng) ws"
proof -
  have "lab_overlapping resource_id rng rows = []"
    using assms(1) by (auto simp: lab_overlapping_def active_rows_def filter_empty_conv)
  moreover have "overlaps rng rng" using assms(2) by (auto simp: overlaps_def isempty_def)
  ultimately show ?thesis by (simp add: lab_overlapping_def writer_row_def filter_map o_def)
qed

text \<open>How many moves a writer still has.\<close>

fun moves_left :: "phase \<Rightarrow> nat" where
  "moves_left Fresh = 3" | "moves_left (Checked _) = 2" | "moves_left (Pending _) = 1" | "moves_left _ = 0"

definition lab_left :: "lab \<Rightarrow> nat" where "lab_left s = moves_left (lab_phase s True) + moves_left (lab_phase s False)"

lemma lab_inv_move:
  assumes inv: "lab_inv guarded wid resource_id rng rows s" and m: "move guarded wid resource_id rng i s = Some s'"
    and free: "active_rows resource_id rows = []" "\<not> isempty rng"
  shows "lab_inv guarded wid resource_id rng rows s' \<and> lab_left s' < lab_left s"
proof -
  obtain ws where ws: "lab_rows s = rows @ map (writer_row wid resource_id rng) ws"
      "(lab_phase s True, lab_phase s False, ws) \<in> lab_states guarded"
    using inv by (auto simp: lab_inv_def)
  note over = overlapping_writers [OF free, of wid ws, folded ws(1)]
  have keep: "lab_rows s' = rows @ map (writer_row wid resource_id rng) ws' \<Longrightarrow>
      (lab_phase s' True, lab_phase s' False, ws') \<in> lab_states guarded \<Longrightarrow> lab_inv guarded wid resource_id rng rows s'" for ws'
    by (auto simp: lab_inv_def)
  show ?thesis
    using ws(2) m over ws(1) keep [of ws] keep [of "ws @ [i]"]
    by (cases i; cases guarded) (auto simp: lab_states_def move_def lab_left_def split: if_splits)
qed

lemma lab_inv_progress:
  assumes inv: "lab_inv guarded wid resource_id rng rows s" and "\<not> all_done s"
    and free: "active_rows resource_id rows = []" "\<not> isempty rng"
  shows "\<exists>i s'. move guarded wid resource_id rng i s = Some s'"
proof -
  obtain ws where ws: "lab_rows s = rows @ map (writer_row wid resource_id rng) ws"
      "(lab_phase s True, lab_phase s False, ws) \<in> lab_states guarded"
    using inv by (auto simp: lab_inv_def)
  note over = overlapping_writers [OF free, of wid ws, folded ws(1)]
  have "move guarded wid resource_id rng True s \<noteq> None \<or> move guarded wid resource_id rng False s \<noteq> None"
    using ws(2) over assms(2) by (cases guarded) (auto simp: lab_states_def move_def all_done_def)
  then show ?thesis by blast
qed

lemma lab_inv_run:
  assumes "active_rows resource_id rows = []" "\<not> isempty rng" "lab_inv guarded wid resource_id rng rows s"
  shows "lab_inv guarded wid resource_id rng rows (lab_run guarded wid resource_id rng sched s)"
  using assms(3)
proof (induction sched arbitrary: s)
  case (Cons i sched)
  then show ?case using lab_inv_move [OF Cons.prems _ assms(1,2)] by (cases "move guarded wid resource_id rng i s") auto
qed simp

lemma lab_run_append:
  "lab_run guarded wid resource_id rng (xs @ ys) s = lab_run guarded wid resource_id rng ys (lab_run guarded wid resource_id rng xs s)"
  by (induction xs arbitrary: s) simp_all

lemma lab_can_finish:
  assumes "active_rows resource_id rows = []" "\<not> isempty rng" "lab_inv guarded wid resource_id rng rows s"
  shows "\<exists>more. length more \<le> lab_left s \<and> all_done (lab_run guarded wid resource_id rng more s)"
  using assms(3)
proof (induction "lab_left s" arbitrary: s rule: less_induct)
  case less
  show ?case
  proof (cases "all_done s")
    case True
    then show ?thesis by (intro exI [of _ "[]"]) simp
  next
    case False
    obtain i s' where m: "move guarded wid resource_id rng i s = Some s'"
      using lab_inv_progress [OF less.prems False assms(1,2)] by blast
    note next_state = lab_inv_move [OF less.prems m assms(1,2)]
    then obtain more where "length more \<le> lab_left s'" "all_done (lab_run guarded wid resource_id rng more s')"
      using less.hyps [of s'] by blast
    then show ?thesis using m next_state by (intro exI [of _ "i # more"]) simp
  qed
qed

lemma lab_done_states:
  assumes "lab_inv guarded wid resource_id rng rows s" "all_done s"
  shows "if guarded then \<exists>i. lab_phase s i = Committed 0 \<and> lab_phase s (\<not> i) = Rejected 0 \<and> lab_rows s = rows @ [writer_row wid resource_id rng i]
    else (\<exists>i. lab_rows s = rows @ [writer_row wid resource_id rng i, writer_row wid resource_id rng (\<not> i)]) \<and> lab_phase s True = Committed 0 \<and> lab_phase s False = Committed 0"
proof -
  obtain ws where ws: "lab_rows s = rows @ map (writer_row wid resource_id rng) ws"
      "(lab_phase s True, lab_phase s False, ws) \<in> lab_states guarded"
    using assms(1) by (auto simp: lab_inv_def)
  show ?thesis
  proof (cases guarded)
    case True
    from ws(2) assms(2) True consider "ws = [True]" "lab_phase s True = Committed 0" "lab_phase s False = Rejected 0"
      | "ws = [False]" "lab_phase s False = Committed 0" "lab_phase s True = Rejected 0"
      by (auto simp: lab_states_def all_done_def)
    then show ?thesis
    proof cases
      case 1
      then show ?thesis using ws(1) True by (auto intro!: exI [of _ True])
    next
      case 2
      then show ?thesis using ws(1) True by (auto intro!: exI [of _ False])
    qed
  next
    case False
    from ws(2) assms(2) False have "(ws = [True, False] \<or> ws = [False, True]) \<and> lab_phase s True = Committed 0 \<and> lab_phase s False = Committed 0"
      by (auto simp: lab_states_def all_done_def)
    then show ?thesis using ws(1) False by (auto intro: exI [of _ True] exI [of _ False])
  qed
qed

lemma writer_row_simps [simp]:
  "lr_id (writer_row wid r rng i) = wid i" "lr_resource (writer_row wid r rng i) = r" "lr_range (writer_row wid r rng i) = rng"
  by (simp_all add: writer_row_def)

lemma two_writers_overlap:
  assumes "wid True \<noteq> wid False" "\<not> isempty rng"
  shows "overlap_pairs resource_id (rows @ [writer_row wid resource_id rng i, writer_row wid resource_id rng (\<not> i)]) \<noteq> []"
proof -
  let ?row = "writer_row wid resource_id rng"
  have o: "overlaps rng rng" using assms(2) by (auto simp: overlaps_def isempty_def)
  obtain j where j: "wid j < wid (\<not> j)" using assms(1) by (metis linorder_less_linear)
  then have "(?row j, ?row (\<not> j)) \<in> set (overlap_pairs resource_id (rows @ [?row i, ?row (\<not> i)]))"
    using o by (cases i; cases j) (auto simp: overlap_pairs_def)
  then show ?thesis by auto
qed



section \<open>What the lab may touch\<close>

text \<open>The approval names this database and grants this action on it.\<close>

definition granted :: "lab_env \<Rightarrow> string \<Rightarrow> string \<Rightarrow> bool" where
  "granted env action db_name =
     (\<exists>kvs xs. le_approval env = JObj kvs \<and> map_of kvs ''database'' = Some (JStr db_name) \<and>
        map_of kvs ''actions'' = Some (JArr xs) \<and> JStr action \<in> set xs)"

lemma authorized_granted:
  assumes "authorized env action run_id db_name = None" "db_name \<noteq> []"
  shows "granted env action db_name \<and> (\<exists>r. db_name = disposable_prefix @ r \<and> run_name r)"
proof -
  obtain kvs where k: "le_approval env = JObj kvs" "check_token (le_sha256 env) (map_of kvs ''token'') (map_of kvs ''token_sha256'') (le_token env) = None"
    using assms(1) by (auto simp: authorized_def validate_approval_def split: json.splits option.splits)
  obtain rid where "map_of kvs ''run_id'' = Some (JStr rid)"
    using assms(1) k by (auto simp: authorized_def validate_approval_def split: json.splits option.splits)
  then show ?thesis
    using assms k
    by (auto simp: authorized_def validate_approval_def first_some_None granted_def given_def check_actions_def Let_def
        split: json.splits option.splits)
qed

lemma valid_name_not_excluded:
  assumes "validate_database_name db_name e = None" "db_name = disposable_prefix @ r" "run_name r"
  shows "py_lower db_name \<notin> set excluded_database_names"
proof -
  have "\<forall>c \<in> set disposable_prefix. \<not> py_space c" by code_simp
  then have "py_strip db_name = db_name"
    unfolding py_strip_def using run_name_no_space [OF assms(3)] assms(2) by (intro strip_chars_absent) auto
  then show ?thesis using assms(1) by (simp add: validate_database_name_def first_some_None Let_def)
qed

lemma ident_short: "length s < 64 \<Longrightarrow> ident s = s"
  by (simp add: ident_def)

lemma create_disposable_effect:
  assumes "create_disposable_database env db_name run_id sv = (res, sv')"
  shows "sv' = sv \<and> (\<exists>e. res = Inl e) \<or> ident db_name = db_name \<and> (\<exists>t. sv' = sv(db_name := t)) \<and> granted env ''create'' db_name \<and>
     (sv db_name \<noteq> None \<longrightarrow> granted env ''reset'' db_name) \<and>
     py_lower db_name \<notin> set excluded_database_names \<and> validate_host (le_ipv6 env) (le_hostname env) = None"
proof (cases "first_some [validate_database_name db_name (Some run_id), validate_host (le_ipv6 env) (le_hostname env),
             authorized env ''create'' run_id db_name]")
  case None
  then have v: "validate_database_name db_name (Some run_id) = None" "validate_host (le_ipv6 env) (le_hostname env) = None"
      "authorized env ''create'' run_id db_name = None"
    by (auto simp: first_some_None)
  have ne: "db_name \<noteq> []" using v(1) by (auto simp: validate_database_name_def first_some_None Let_def)
  obtain r where r: "granted env ''create'' db_name" "db_name = disposable_prefix @ r" "run_name r"
    using authorized_granted [OF v(3) ne] by blast
  note out = valid_name_not_excluded [OF v(1) r(2,3)]
  show ?thesis
  proof (cases "length db_name \<ge> 64")
    case True
    then show ?thesis using assms None by (auto simp: create_disposable_database_def db_exists_def)
  next
    case False
    then have i: "ident db_name = db_name" by (simp add: ident_short)
    show ?thesis
    proof (cases "sv db_name")
      case None
      then show ?thesis
        using assms \<open>first_some _ = None\<close> False i r(1) out v(2)
        by (auto simp: create_disposable_database_def db_exists_def create_database_def)
    next
      case (Some t)
      show ?thesis
      proof (cases "authorized env ''reset'' run_id db_name")
        case None
        then have "granted env ''reset'' db_name" using authorized_granted [OF _ ne] by blast
        moreover have "sv' = sv(db_name \<mapsto> None)"
          using assms \<open>first_some _ = None\<close> False i Some None
          by (simp add: create_disposable_database_def db_exists_def create_database_def drop_database_def)
        ultimately show ?thesis using r(1) out v(2) i by blast
      next
        case (Some e)
        then show ?thesis
          using assms \<open>first_some _ = None\<close> False \<open>sv db_name = Some t\<close> by (auto simp: create_disposable_database_def db_exists_def)
      qed
    qed
  qed
qed (use assms in \<open>auto simp: create_disposable_database_def\<close>)

lemma setup_effect: "setup_lab_schema db_name sv = (res, sv') \<Longrightarrow> \<exists>t. sv' = sv(db_name := t)"
  by (auto simp: setup_lab_schema_def split: option.splits) (metis fun_upd_triv)+

lemma races_effect: "lab_races inp db_name sv = (res, sv') \<Longrightarrow> \<exists>t. sv' = sv(db_name := t)"
  by (auto simp: lab_races_def split: option.splits prod.splits sum.splits) (metis fun_upd_triv)+

lemma cleanup_effect:
  "cleanup_disposable_database env db_name run_id sv = (res, sv') \<Longrightarrow> ident db_name = db_name \<Longrightarrow>
     (\<exists>t. sv' = sv(db_name := t)) \<and> (res = Inr () \<longrightarrow> sv' db_name = None \<and> granted env ''cleanup'' db_name)"
  using authorized_granted [of env "''cleanup''" run_id db_name]
  by (auto simp: cleanup_disposable_database_def drop_database_def db_exists_def first_some_None validate_database_name_def Let_def
      split: option.splits sum.splits if_splits) (metis fun_upd_triv)+

text \<open>
  C32: a run of the lab changes no database but the one its run id names, and that one only
  on a loopback host, with an approval that names it and grants its creation (and its reset,
  if it existed before), and never under a name of the application; a run that succeeds with
  cleanup had that granted too and leaves the database gone.
\<close>

theorem lab_touches_approved_only:
  assumes "async_main_logic env inp sv = (res, sv')"
  defines "db_name \<equiv> disposable_prefix @ li_run_id inp"
  shows "(\<forall>d. d \<noteq> db_name \<longrightarrow> sv' d = sv d) \<and>
    (sv' \<noteq> sv \<longrightarrow> granted env ''create'' db_name \<and> (sv db_name \<noteq> None \<longrightarrow> granted env ''reset'' db_name) \<and>
       py_lower db_name \<notin> set excluded_database_names \<and> validate_host (le_ipv6 env) (le_hostname env) = None) \<and>
    (\<forall>x. res = Inr x \<longrightarrow> li_cleanup inp \<longrightarrow> granted env ''cleanup'' db_name \<and> sv' db_name = None)"
proof (cases "first_some [validate_host (le_ipv6 env) (le_hostname env), validate_database_name db_name (Some (li_run_id inp))]")
  case (Some e)
  then show ?thesis using assms(1) by (auto simp: async_main_logic_def db_name_def)
next
  case None
  obtain r1 sv1 where c: "create_disposable_database env db_name (li_run_id inp) sv = (r1, sv1)" by fastforce
  note ce = create_disposable_effect [OF c]
  show ?thesis
  proof (cases r1)
    case (Inl e)
    then show ?thesis using assms(1) None c ce by (auto simp: async_main_logic_def Let_def simp flip: db_name_def)
  next
    case (Inr u)
    have made: "ident db_name = db_name"
      "granted env ''create'' db_name" "sv db_name \<noteq> None \<longrightarrow> granted env ''reset'' db_name"
      "py_lower db_name \<notin> set excluded_database_names" "validate_host (le_ipv6 env) (le_hostname env) = None"
      using ce Inr by auto
    obtain r2 sv2 where s: "setup_lab_schema db_name sv1 = (r2, sv2)" by fastforce
    obtain r3 sv3 where l: "lab_races inp db_name sv2 = (r3, sv3)" by fastforce
    obtain r4 sv4 where k: "cleanup_disposable_database env db_name (li_run_id inp) sv3 = (r4, sv4)" by fastforce
    have t: "\<forall>d. d \<noteq> db_name \<longrightarrow> sv1 d = sv d \<and> sv2 d = sv d \<and> sv3 d = sv d \<and> sv4 d = sv d"
      using ce setup_effect [OF s] races_effect [OF l] cleanup_effect [OF k made(1)] by auto
    show ?thesis
      using assms(1) None c s l k Inr made t cleanup_effect [OF k made(1)]
      by (auto simp: async_main_logic_def Let_def simp flip: db_name_def split: sum.splits if_splits)
  qed
qed

definition ex_lab_env :: lab_env where
  "ex_lab_env =
     \<lparr>le_sha256 = (\<lambda>s. s), le_ipv6 = (\<lambda>_. None), le_hostname = Some ''127.0.0.2'',
      le_approval = JObj [(''token'', JStr (replicate 16 (CHR ''t''))), (''run_id'', JStr ''r1''),
        (''database'', JStr ''commonsbook_racelab_r1''), (''host'', JStr ''127.0.0.2''),
        (''actions'', JArr [JStr ''create'', JStr ''cleanup''])],
      le_token = None\<rparr>"

definition ex_lab_input :: lab_run_input where
  "ex_lab_input =
     \<lparr>li_run_id = ''r1'', li_cleanup = True, li_resource = 7, li_ids1 = (\<lambda>i. if i then 1 else 2),
      li_ids2 = (\<lambda>i. if i then 3 else 4), li_schedule1 = [True, False, True, False, True, False],
      li_schedule2 = [True, False, False, True, False, True]\<rparr>"

definition ex_lab_server :: server_state where "ex_lab_server = [''postgres'' \<mapsto> None]"

lemma ex_lab_name: "validate_database_name ''commonsbook_racelab_r1'' (Some ''r1'') = None"
  by code_simp

lemma ex_lab_host: "validate_host (le_ipv6 ex_lab_env) (Some ''127.0.0.2'') = None"
  by code_simp

lemma ex_lab_authorized:
  "list_all (\<lambda>a. authorized ex_lab_env a ''r1'' ''commonsbook_racelab_r1'' = None) [''create'', ''cleanup'']"
  by code_simp

lemma ex_lab_unprotected:
  "case run_unprotected_race (li_ids1 ex_lab_input) (li_resource ex_lab_input) lab_range (li_schedule1 ex_lab_input) [] of
     (Inr _, _) \<Rightarrow> True | (Inl _, _) \<Rightarrow> False"
  by code_simp

lemma ex_lab_protected:
  "case run_protected_race (li_ids2 ex_lab_input) (li_resource ex_lab_input) lab_range (li_schedule2 ex_lab_input) [] of
     (Inr _, _) \<Rightarrow> True | (Inl _, _) \<Rightarrow> False"
  by code_simp

lemma ex_lab_runs: "\<exists>x. fst (async_main_logic ex_lab_env ex_lab_input ex_lab_server) = Inr x"
proof -
  let ?db = "''commonsbook_racelab_r1''"
  have db: "disposable_prefix @ li_run_id ex_lab_input = ?db" "ident ?db = ?db" "li_run_id ex_lab_input = ''r1''"
      "le_hostname ex_lab_env = Some ''127.0.0.2''" "li_cleanup ex_lab_input" "ex_lab_server ?db = None"
    by (simp_all add: disposable_prefix_def ex_lab_input_def ident_def ex_lab_env_def ex_lab_server_def)
  have auth: "authorized ex_lab_env ''create'' ''r1'' ?db = None" "authorized ex_lab_env ''cleanup'' ''r1'' ?db = None"
    using ex_lab_authorized by simp_all
  have create: "create_disposable_database ex_lab_env ?db ''r1'' ex_lab_server = (Inr (), ex_lab_server(?db \<mapsto> None))"
    using ex_lab_name ex_lab_host auth db
    by (simp add: create_disposable_database_def db_exists_def create_database_def)
  have tables: "setup_lab_schema ?db (ex_lab_server(?db \<mapsto> None)) = (Inr (), ex_lab_server(?db \<mapsto> Some ([], [])))"
    by (simp add: setup_lab_schema_def)
  obtain before u where u: "run_unprotected_race (li_ids1 ex_lab_input) (li_resource ex_lab_input) lab_range (li_schedule1 ex_lab_input) [] = (Inr before, u)"
    using ex_lab_unprotected by (auto split: prod.splits sum.splits)
  obtain after g where g: "run_protected_race (li_ids2 ex_lab_input) (li_resource ex_lab_input) lab_range (li_schedule2 ex_lab_input) [] = (Inr after, g)"
    using ex_lab_protected by (auto split: prod.splits sum.splits)
  have races: "lab_races ex_lab_input ?db (ex_lab_server(?db \<mapsto> Some ([], []))) = (Inr (before, after), ex_lab_server(?db \<mapsto> Some (u, g)))"
    using u g by (simp add: lab_races_def)
  have clean: "fst (cleanup_disposable_database ex_lab_env ?db ''r1'' (ex_lab_server(?db \<mapsto> Some (u, g)))) = Inr ()"
    using ex_lab_name ex_lab_host auth db
    by (simp add: cleanup_disposable_database_def db_exists_def drop_database_def)
  show ?thesis
    using create tables races clean db ex_lab_name ex_lab_host by (simp add: async_main_logic_def disposable_prefix_def Let_def split_beta)
qed

theorem lab_touches_approved_only_witness:
  "\<exists>x sv'. async_main_logic ex_lab_env ex_lab_input ex_lab_server = (Inr x, sv') \<and>
     sv' ''postgres'' = Some None \<and> sv' ''commonsbook_racelab_r1'' = None"
proof -
  obtain x sv' where run: "async_main_logic ex_lab_env ex_lab_input ex_lab_server = (Inr x, sv')"
    using ex_lab_runs by (metis prod.collapse)
  have "disposable_prefix @ li_run_id ex_lab_input = ''commonsbook_racelab_r1''" "li_cleanup ex_lab_input"
    by (simp_all add: disposable_prefix_def ex_lab_input_def)
  with lab_touches_approved_only [OF run] run show ?thesis by (simp add: ex_lab_server_def)
qed

end
