(* ===== verification/GateText.thy ===== *)
theory GateText
imports EvidenceCache Observability RaceLab
begin

text \<open>
  What the verification runner (scripts/verify.py) decides on texts and documents: whether
  the output of a test tool is acceptable, the masking of credentials and the scan for
  those that were missed, the manifests of the tickets, the scope of a change, and the
  switch of the evidence cache.
\<close>

section \<open>No test may be skipped\<close>

text \<open>\w on Latin-1.\<close>

definition word_char :: "char \<Rightarrow> bool" where
  "word_char c =
     (let n = code c in
      is_digit c \<or> 65 \<le> n \<and> n \<le> 90 \<or> 97 \<le> n \<and> n \<le> 122 \<or> n \<in> {95, 170, 178, 179, 181, 185, 186, 188, 189, 190}
        \<or> 192 \<le> n \<and> n \<noteq> 215 \<and> n \<noteq> 247)"

text \<open>(\d+)\s+word\b at the head of a text: group 1.\<close>

definition count_at :: "string \<Rightarrow> string \<Rightarrow> string option" where
  "count_at word s =
     (let r1 = dropWhile is_digit s; r2 = dropWhile py_space r1; r3 = drop (length word) r2 in
      if takeWhile is_digit s \<noteq> [] \<and> r1 \<noteq> [] \<and> py_space (hd r1) \<and> prefix word r2 \<and> (r3 = [] \<or> \<not> word_char (hd r3))
      then Some (takeWhile is_digit s) else None)"

text \<open>re.search of \b(\d+)\s+word\b; the flag says that a word character stands before.\<close>

fun search_count :: "string \<Rightarrow> bool \<Rightarrow> string \<Rightarrow> string option" where
  "search_count word inside [] = None"
| "search_count word inside (c # s) =
     (case (if inside then None else count_at word (c # s)) of
        Some ds \<Rightarrow> Some ds
      | None \<Rightarrow> search_count word (word_char c) s)"

text \<open>int() of a run of digits is not zero.\<close>

definition nonzero :: "string \<Rightarrow> bool" where "nonzero ds = list_ex (\<lambda>d. d \<noteq> CHR ''0'') ds"

definition skipped :: "string \<Rightarrow> string option" where
  "skipped out = (case search_count ''skipped'' False out of Some ds \<Rightarrow> if nonzero ds then Some ds else None | None \<Rightarrow> None)"

definition none_collected :: "string \<Rightarrow> string" where
  "none_collected tool = ''Policy violation: 0 tests collected in '' @ tool @ '' execution''"

definition skip_violation :: "string \<Rightarrow> string \<Rightarrow> string" where
  "skip_violation ds tool = ''Policy violation: '' @ ds @ '' test(s) skipped in '' @ tool"

definition check_no_skips :: "string \<Rightarrow> string \<Rightarrow> string option" where
  "check_no_skips out tool =
     (if tool = ''pytest'' then
        (case skipped out of
           Some ds \<Rightarrow> Some (skip_violation ds tool)
         | None \<Rightarrow> if sublist ''collected 0 items'' out \<or> sublist ''no tests ran'' out then Some (none_collected tool) else None)
      else if tool = ''vitest'' then
        (case skipped out of
           Some ds \<Rightarrow> Some (skip_violation ds tool)
         | None \<Rightarrow>
             if sublist ''Tests  0 passed'' out \<or> sublist ''No test files found'' out \<or> sublist ''collected 0 items'' out
             then Some (none_collected tool) else None)
      else if tool = ''playwright'' then
        (case skipped out of
           Some ds \<Rightarrow> Some (skip_violation ds tool)
         | None \<Rightarrow>
             if sublist ''0 passed'' out \<or> sublist ''No tests found'' out \<or> sublist ''no tests found'' (py_lower out)
             then Some (none_collected tool)
             else (case search_count ''passed'' False out of
                     None \<Rightarrow> Some ''Policy violation: 0 tests passed in playwright execution''
                   | Some ds \<Rightarrow> if nonzero ds then None else Some ''Policy violation: 0 tests passed in playwright execution''))
      else None)"

text \<open>
  A defect of the check: ''0 passed'' is looked for as a part of the text, so a run of ten
  passing tests (or of any multiple of ten) is refused as one that collected none.
\<close>

lemma ten_passed_refused:
  "check_no_skips ''  10 passed (4.2s)'' ''playwright'' = Some (none_collected ''playwright'')"
  "check_no_skips ''  11 passed (4.2s)'' ''playwright'' = None"
  by code_simp+

section \<open>Masking credentials\<close>

text \<open>
  ://(user+):(password+)@ at the head of a text, with the two character classes given: the
  user, the password and what stands behind. The classes exclude the character that ends
  them, so matching never backtracks.
\<close>

definition match_cred :: "(char \<Rightarrow> bool) \<Rightarrow> (char \<Rightarrow> bool) \<Rightarrow> string \<Rightarrow> (string \<times> string \<times> string) option" where
  "match_cred user pw s =
     (let s1 = drop 3 s; s2 = dropWhile user s1; s3 = dropWhile pw (tl s2) in
      if prefix ''://'' s \<and> takeWhile user s1 \<noteq> [] \<and> s2 \<noteq> [] \<and> hd s2 = CHR '':'' \<and> takeWhile pw (tl s2) \<noteq> []
         \<and> s3 \<noteq> [] \<and> hd s3 = CHR ''@''
      then Some (takeWhile user s1, takeWhile pw (tl s2), tl s3) else None)"

definition mask_credentials :: "(char \<Rightarrow> bool) \<Rightarrow> (char \<Rightarrow> bool) \<Rightarrow> string \<Rightarrow> string" where
  "mask_credentials user pw = resub (\<lambda>s. map_option (\<lambda>(u, p, r). (''://'' @ u @ '':***@'', r)) (match_cred user pw s))"

fun sanitize_args :: "bool \<Rightarrow> string list \<Rightarrow> string list" where
  "sanitize_args redact_next [] = (if redact_next then [''[REDACTED]''] else [])"
| "sanitize_args True (arg # args) = ''[REDACTED]'' # sanitize_args False args"
| "sanitize_args False (arg # args) =
     (if arg = ''--approval-token'' then arg # sanitize_args True args
      else if prefix ''--approval-token='' arg then ''--approval-token=[REDACTED]'' # sanitize_args False args
      else mask_credentials (\<lambda>c. c \<noteq> CHR '':'') (\<lambda>c. c \<noteq> CHR ''@'') arg # sanitize_args False args)"

definition sanitize_command :: "string list \<Rightarrow> string list" where
  "sanitize_command = sanitize_args False"

definition user_char :: "char \<Rightarrow> bool" where
  "user_char c = (c \<noteq> CHR '':'' \<and> \<not> py_space c \<and> \<not> quote_char c)"

definition pw_char :: "char \<Rightarrow> bool" where
  "pw_char c = (c \<noteq> CHR ''@'' \<and> \<not> py_space c \<and> \<not> quote_char c)"

text \<open>str.replace, for a text that is not empty.\<close>

definition replace_all :: "string \<Rightarrow> string \<Rightarrow> string \<Rightarrow> string" where
  "replace_all old fresh = resub (\<lambda>s. if prefix old s then Some (fresh, drop (length old) s) else None)"

definition sanitize_text :: "string \<Rightarrow> string list \<Rightarrow> string" where
  "sanitize_text t secrets =
     fold (\<lambda>s masked. if 4 \<le> length s then replace_all s ''[REDACTED]'' masked else masked) secrets
       (mask_credentials user_char pw_char t)"

text \<open>re.finditer: the passwords of the matches, from left to right.\<close>

function passwords_in :: "string \<Rightarrow> string list" where
  "passwords_in [] = []"
| "passwords_in (c # s) =
     (case match_cred user_char pw_char (c # s) of
        None \<Rightarrow> passwords_in s
      | Some (u, p, r) \<Rightarrow> if length r \<le> length s then p # passwords_in r else p # passwords_in s)"
  by pat_completeness auto
termination by (relation "measure length") auto

text \<open>The files of the evidence directory with their texts, in the order of their paths.\<close>

definition scan_evidence_for_leaks :: "(string \<times> string) list \<Rightarrow> string list \<Rightarrow> string list" where
  "scan_evidence_for_leaks files known_secrets =
     concat (map (\<lambda>(rel, content).
       map (\<lambda>_. ''Unmasked password in '' @ rel) (filter (\<lambda>p. p \<noteq> ''***'') (passwords_in content)) @
       map (\<lambda>_. ''Known secret leaked in '' @ rel) (filter (\<lambda>s. 6 \<le> length s \<and> sublist s content) known_secrets)) files)"


section \<open>What is masked passes the scan\<close>

lemma match_cred_Some:
  assumes "match_cred user pw s = Some (u, p, r)"
  shows "s = ''://'' @ u @ '':'' @ p @ ''@'' @ r \<and> u \<noteq> [] \<and> p \<noteq> [] \<and> list_all user u \<and> list_all pw p"
proof -
  let ?s1 = "drop 3 s"
  let ?s2 = "dropWhile user ?s1"
  let ?s3 = "dropWhile pw (tl ?s2)"
  have m: "prefix ''://'' s" "u = takeWhile user ?s1" "u \<noteq> []" "?s2 \<noteq> []" "hd ?s2 = CHR '':''"
    "p = takeWhile pw (tl ?s2)" "p \<noteq> []" "?s3 \<noteq> []" "hd ?s3 = CHR ''@''" "r = tl ?s3"
    using assms unfolding match_cred_def Let_def by (auto split: if_splits simp del: dropWhile_eq_Nil_conv takeWhile_eq_Nil_iff)
  have "?s3 = CHR ''@'' # r" using m(8-10) by (metis list.collapse)
  moreover have "?s2 = CHR '':'' # tl ?s2" using m(4,5) by (metis list.collapse)
  moreover have "s = ''://'' @ ?s1" using m(1) by (auto simp: prefix_def)
  ultimately have "s = ''://'' @ u @ '':'' @ p @ ''@'' @ r"
    using takeWhile_dropWhile_id [of user ?s1] takeWhile_dropWhile_id [of pw "tl ?s2"] m(2,6) by (metis append_Cons append_Nil)
  then show ?thesis using m by (auto simp: list_all_iff dest: set_takeWhileD)
qed

lemma match_cred_shorter: "match_cred user pw (c # s) = Some (u, p, r) \<Longrightarrow> length r \<le> length s"
  by (drule match_cred_Some) (auto dest: arg_cong [where f = length])

abbreviation "masked \<equiv> mask_credentials user_char pw_char"
abbreviation "cred \<equiv> match_cred user_char pw_char"

lemma mask_Nil [simp]: "masked [] = []"
  by (simp add: mask_credentials_def)

lemma mask_Cons: "masked (c # s) = (case cred (c # s) of None \<Rightarrow> c # masked s | Some (u, p, r) \<Rightarrow> ''://'' @ u @ '':***@'' @ masked r)"
  using match_cred_shorter [of user_char pw_char c s] by (auto simp: mask_credentials_def split: option.splits)

text \<open>The run of password characters at the head of a text ends at an at sign.\<close>

fun at_end :: "string \<Rightarrow> bool" where
  "at_end [] = False"
| "at_end (c # s) = (if pw_char c then at_end s else c = CHR ''@'')"

lemma at_end_iff: "at_end s \<longleftrightarrow> dropWhile pw_char s \<noteq> [] \<and> hd (dropWhile pw_char s) = CHR ''@''"
  by (induction s) (auto simp: pw_char_def)

lemma at_end_run: "list_all (\<lambda>c. pw_char c \<or> c = CHR ''@'') ys \<Longrightarrow> at_end (ys @ CHR ''@'' # zs)"
  by (induction ys) (auto simp: pw_char_def)

lemma at_end_extend: "at_end (a @ x) \<Longrightarrow> at_end y \<Longrightarrow> at_end (a @ y)"
  by (induction a) (auto split: if_splits)

lemma cred_iff:
  "cred (''://'' @ s) \<noteq> None \<longleftrightarrow>
   s \<noteq> [] \<and> user_char (hd s) \<and> dropWhile user_char s \<noteq> [] \<and> hd (dropWhile user_char s) = CHR '':'' \<and>
   tl (dropWhile user_char s) \<noteq> [] \<and> pw_char (hd (tl (dropWhile user_char s))) \<and> at_end (tl (dropWhile user_char s))"
proof -
  have t: "takeWhile P x \<noteq> [] \<longleftrightarrow> x \<noteq> [] \<and> P (hd x)" for P and x :: string by (cases x) auto
  show ?thesis
    by (simp add: match_cred_def Let_def t at_end_iff del: dropWhile_eq_Nil_conv takeWhile_eq_Nil_iff)
qed

lemma cred_starts: "cred s \<noteq> None \<Longrightarrow> \<exists>t. s = ''://'' @ t"
  by (auto simp: match_cred_def Let_def prefix_def split: if_splits)

lemma dropWhile_stops: "\<not> P k \<Longrightarrow> dropWhile P (x @ k # w) = dropWhile P (x @ [k]) @ w"
  by (induction x) auto

lemma takeWhile_stops: "\<not> P k \<Longrightarrow> takeWhile P (x @ k # w) = takeWhile P (x @ [k])"
  by (induction x) auto

text \<open>
  A text that has no match at its head has none after a later one was masked: the user
  part ends at the latest where that one starts, and the password part would have ended
  at the at sign of it, if not before.
\<close>

lemma mask_makes_no_match:
  assumes up: "list_all user_char u" "list_all pw_char p"
    and new: "cred (c # a @ ''://'' @ u @ '':***@'' @ z) \<noteq> None"
  shows "cred (c # a @ ''://'' @ u @ '':'' @ p @ ''@'' @ r) \<noteq> None"
proof -
  obtain t where "c # a @ ''://'' @ u @ '':***@'' @ z = ''://'' @ t" using cred_starts [OF new] by blast
  then obtain a' where a: "c # a = ''://'' @ a'"
    by (cases a; cases "tl a") (auto simp: append_eq_Cons_conv Cons_eq_append_conv)
  let ?D = "dropWhile user_char (a' @ '':'')"
  have no: "\<not> user_char (CHR '':'')" by (simp add: user_char_def)
  have D: "dropWhile user_char (a' @ ''://'' @ w) = ?D @ ''//'' @ w" "?D \<noteq> []" for w
    using dropWhile_stops [where P = user_char and k = "CHR '':''" and x = a' and w = "''//'' @ w", OF no] no by (simp_all add: dropWhile_eq_Nil_conv)
  have split: "c # a @ w = ''://'' @ (a' @ w)" for w using a by (metis append_Cons append_assoc)
  note n = new [unfolded split cred_iff D(1)]
  have rest: "at_end (''//'' @ u @ '':'' @ p @ ''@'' @ r)"
  proof -
    have "list_all (\<lambda>c. pw_char c \<or> c = CHR ''@'') (''//'' @ u @ '':'' @ p)"
      using up by (auto simp: list_all_iff user_char_def pw_char_def quote_char_def py_space_def code_def)
    from at_end_run [OF this, of r] show ?thesis by simp
  qed
  have tl: "tl (?D @ w) = tl ?D @ w" "hd (?D @ w) = hd ?D" for w using D(2) by simp_all
  have "at_end (tl ?D @ ''//'' @ u @ '':'' @ p @ ''@'' @ r)"
    using n at_end_extend [OF _ rest] unfolding tl by blast
  moreover have "pw_char (hd (tl ?D @ ''//'' @ w))" for w
    using n unfolding tl by (cases "tl ?D") (simp_all add: pw_char_def quote_char_def py_space_def code_def)
  moreover have "user_char (hd (a' @ ''://'' @ w))" for w using n by (cases a') simp_all
  ultimately show ?thesis using n unfolding split cred_iff D(1) tl by simp
qed

lemma mask_front:
  "masked s = s \<or> (\<exists>a u p r z. s = a @ ''://'' @ u @ '':'' @ p @ ''@'' @ r \<and> masked s = a @ ''://'' @ u @ '':***@'' @ z \<and>
     list_all user_char u \<and> list_all pw_char p)"
proof (induction s)
  case (Cons c s)
  show ?case
  proof (cases "cred (c # s)")
    case None
    then have e: "masked (c # s) = c # masked s" by (simp add: mask_Cons)
    from Cons show ?thesis
    proof (elim disjE exE conjE)
      fix a u p r z
      assume "s = a @ ''://'' @ u @ '':'' @ p @ ''@'' @ r" "masked s = a @ ''://'' @ u @ '':***@'' @ z"
        "list_all user_char u" "list_all pw_char p"
      then have "c # s = (c # a) @ ''://'' @ u @ '':'' @ p @ ''@'' @ r \<and> masked (c # s) = (c # a) @ ''://'' @ u @ '':***@'' @ z \<and>
        list_all user_char u \<and> list_all pw_char p" using e by simp
      then show ?thesis by blast
    qed (simp add: e)
  next
    case (Some m)
    then obtain u p r where m: "cred (c # s) = Some (u, p, r)" by (cases m) auto
    have "c # s = [] @ ''://'' @ u @ '':'' @ p @ ''@'' @ r \<and> masked (c # s) = [] @ ''://'' @ u @ '':***@'' @ masked r \<and>
        list_all user_char u \<and> list_all pw_char p"
      using match_cred_Some [OF m] m by (simp add: mask_Cons)
    then show ?thesis by blast
  qed
qed simp

lemma masked_literal:
  assumes "0 < i" "i < length u + 8" "list_all user_char u"
  shows "cred (drop i (''://'' @ u @ '':***@'') @ y) = None"
proof (rule ccontr)
  let ?l = "''://'' @ u @ '':***@''"
  assume "cred (drop i ?l @ y) \<noteq> None"
  then obtain t where t: "drop i ?l @ y = ''://'' @ t" using cred_starts by blast
  have len: "i < length ?l" using assms(2) by simp
  then have "drop i ?l \<noteq> []" by simp
  have colon: "?l ! i = CHR '':''" using t len by (metis append_Cons hd_append2 hd_drop_conv_nth list.sel(1) \<open>drop i ?l \<noteq> []\<close>)
  have "i = length u + 3"
  proof (rule ccontr)
    assume ne: "i \<noteq> length u + 3"
    have star: "''***@'' ! k \<noteq> CHR '':''" if "k < 4" for k
      using that by (auto simp: less_Suc_eq numeral_eq_Suc)
    consider "i = 1" | "i = 2" | "3 \<le> i" "i < length u + 3" | "length u + 4 \<le> i"
      using assms(1) ne by linarith
    then show False
    proof cases
      case 3
      then have "?l ! i = u ! (i - 3)" by (simp add: nth_append nth_Cons numeral_eq_Suc split: nat.splits)
      then show False using colon assms(3) 3 by (auto simp: list_all_length user_char_def)
    next
      case 4
      then have "((''://'' @ u @ '':'') @ ''***@'') ! i = ''***@'' ! (i - (length u + 4))"
        by (simp only: nth_append) (simp add: numeral_eq_Suc)
      then have "?l ! i = ''***@'' ! (i - (length u + 4))" by simp
      then show False using colon star [of "i - (length u + 4)"] 4 assms(2) by simp
    qed (use colon in auto)
  qed
  then have "drop i ?l = '':***@''" by (simp add: numeral_eq_Suc)
  then show False using t by simp
qed

lemma cred_mask: "cred (drop i (masked s)) = Some (u, p, r) \<Longrightarrow> p = ''***''"
proof (induction "length s" arbitrary: s i rule: less_induct)
  case less
  show ?case
  proof (cases s)
    case Nil
    then show ?thesis using less.prems by (simp add: match_cred_def)
  next
    case (Cons c s')
    show ?thesis
    proof (cases "cred s")
      case None
      then have e: "masked s = c # masked s'" using Cons by (simp add: mask_Cons)
      show ?thesis
      proof (cases i)
        case 0
        from mask_front [of s'] show ?thesis
        proof (elim disjE exE conjE)
          fix a u' p' r' z
          assume "s' = a @ ''://'' @ u' @ '':'' @ p' @ ''@'' @ r'" "masked s' = a @ ''://'' @ u' @ '':***@'' @ z"
            "list_all user_char u'" "list_all pw_char p'"
          then show ?thesis using mask_makes_no_match [of u' p' c a z r'] None Cons e 0 less.prems by simp
        qed (use None Cons e 0 less.prems in simp)
      next
        case (Suc j)
        then show ?thesis using less.hyps [of s' j] less.prems Cons e by simp
      qed
    next
      case (Some m)
      then obtain u' p' r' where m: "cred (c # s') = Some (u', p', r')" using Cons by (cases m) auto
      let ?l = "''://'' @ u' @ '':***@''"
      have e: "masked s = ?l @ masked r'" using m Cons by (simp add: mask_Cons)
      have parts: "u' \<noteq> []" "list_all user_char u'" using match_cred_Some [OF m] by simp_all
      consider "i = 0" | "0 < i" "i < length ?l" | "length ?l \<le> i" by linarith
      then show ?thesis
      proof cases
        case 1
        have "dropWhile user_char (u' @ '':***@'' @ y) = '':***@'' @ y" "takeWhile user_char (u' @ '':***@'' @ y) = u'" for y
          using parts(2) by (induction u') (auto simp: user_char_def)
        note run = this
        have c: "pw_char (CHR ''*'')" "\<not> pw_char (CHR ''@'')" by code_simp+
        have "cred (''://'' @ u' @ '':***@'' @ masked r') = Some (u', ''***'', masked r')"
          unfolding match_cred_def Let_def using parts(1) c run [of "masked r'"]
          by (simp del: dropWhile_eq_Nil_conv takeWhile_eq_Nil_iff append_Cons append_Nil takeWhile_append1 dropWhile_append1) simp
        then show ?thesis using less.prems e 1 by simp
      next
        case 2
        have "drop i (?l @ masked r') = drop i ?l @ masked r'" using 2(2) by (metis drop_append diff_is_0_eq' drop0 less_imp_le)
        then show ?thesis using masked_literal [of i u' "masked r'"] 2 parts(2) less.prems e by simp
      next
        case 3
        then have "drop i (?l @ masked r') = drop (i - length ?l) (masked r')" by (metis append_Nil drop_all drop_append)
        moreover have "length r' < length s" using Cons match_cred_shorter [OF m] by simp
        ultimately show ?thesis using less.hyps [of r' "i - length ?l"] less.prems e by metis
      qed
    qed
  qed
qed

lemma passwords_in_Cons:
  "passwords_in (c # s) = (case cred (c # s) of None \<Rightarrow> passwords_in s | Some (u, p, r) \<Rightarrow> p # passwords_in r)"
  using match_cred_shorter [of user_char pw_char c s] by (auto split: option.splits)

declare passwords_in.simps(2) [simp del]

lemma passwords_in_at: "q \<in> set (passwords_in s) \<Longrightarrow> \<exists>i u r. cred (drop i s) = Some (u, q, r)"
proof (induction "length s" arbitrary: s rule: less_induct)
  case less
  then obtain c s' where s: "s = c # s'" by (cases s) auto
  show ?case
  proof (cases "cred s")
    case None
    then have "q \<in> set (passwords_in s')" using less.prems s by (simp add: passwords_in_Cons)
    then obtain i u r where "cred (drop i s') = Some (u, q, r)" using less.hyps [of s'] s by auto
    then show ?thesis using s by (intro exI [of _ "Suc i"]) auto
  next
    case (Some m)
    then obtain u p r where m: "cred (c # s') = Some (u, p, r)" using s by (cases m) auto
    have lt: "length r < length s" using match_cred_shorter [OF m] s by simp
    have "q = p \<or> q \<in> set (passwords_in r)" using less.prems s m by (simp add: passwords_in_Cons)
    then show ?thesis
    proof
      assume "q = p"
      then show ?thesis using m s by (intro exI [of _ 0]) auto
    next
      assume "q \<in> set (passwords_in r)"
      then obtain i u' r' where "cred (drop i r) = Some (u', q, r')" using less.hyps [OF lt] by blast
      moreover have "s = (''://'' @ u @ '':'' @ p @ ''@'') @ r" using match_cred_Some [OF m] s by simp
      then have "\<exists>k. r = drop k s" by (metis append_eq_conv_conj)
      ultimately show ?thesis by (metis drop_drop)
    qed
  qed
qed


end
