(* ===== verification/GateEvidence.thy ===== *)
theory GateEvidence
imports GateRunner
begin

text \<open>
  What a run of the verification runner leaves behind, for every target and every behaviour
  of the child processes: evidence for each command in the log, no database of its own, and a
  manifest that the evidence cache accepts exactly when the run was good.
\<close>

section \<open>What every step of a run retains\<close>

definition retains :: "(runner \<Rightarrow> bool) \<Rightarrow> 'a gate \<Rightarrow> bool" where
  "retains I m \<longleftrightarrow> (\<forall>s. I s \<longrightarrow> I (snd (m s)))"

named_theorems retains_intros

lemma retainsD: "retains I m \<Longrightarrow> I s \<Longrightarrow> I (snd (m s))"
  by (simp add: retains_def)

lemma retains_pure [retains_intros]:
  "retains I (ret x)" "retains I (raise_g e)" "retains I (gets_g f)" "retains I (lift_g r)" "retains I (find_tool h name)"
  "retains I (find_free_port h port)" "retains I (await_server what url sv)"
  by (simp_all add: retains_def ret_def raise_g_def gets_g_def lift_g_def find_tool_def find_free_port_def await_server_def
      split: list.split)

lemma retains_bind [retains_intros]: "retains I m \<Longrightarrow> (\<And>x. retains I (f x)) \<Longrightarrow> retains I (bind_g m f)"
  unfolding retains_def bind_g_def by (auto split: prod.splits sum.splits)

lemma retains_and_then [retains_intros]: "retains I m \<Longrightarrow> retains I m' \<Longrightarrow> retains I (and_then m m')"
  unfolding and_then_def by (intro retains_bind) (simp_all add: retains_pure)

lemma retains_finally [retains_intros]: "retains I m \<Longrightarrow> retains I c \<Longrightarrow> retains I (finally_g m c)"
  by (auto simp: retains_def finally_g_def split: prod.splits sum.splits)

lemma retains_swallow [retains_intros]: "retains I m \<Longrightarrow> retains I (swallow m)"
  by (simp add: retains_def swallow_def)

lemma retains_if [retains_intros]: "(c \<Longrightarrow> retains I m) \<Longrightarrow> (\<not> c \<Longrightarrow> retains I m') \<Longrightarrow> retains I (if c then m else m')"
  by simp

lemma retains_Let [retains_intros]: "(\<And>x. retains I (f x)) \<Longrightarrow> retains I (let x = t in f x)"
  by simp

lemma retains_option [retains_intros]:
  "retains I m \<Longrightarrow> (\<And>x. retains I (f x)) \<Longrightarrow> retains I (case v of None \<Rightarrow> m | Some x \<Rightarrow> f x)"
  by (cases v) simp_all

lemma retains_sum [retains_intros]:
  "(\<And>a b. retains I (f a b)) \<Longrightarrow> (\<And>x. retains I (g x)) \<Longrightarrow> retains I (case v of Inl (a, b) \<Rightarrow> f a b | Inr x \<Rightarrow> g x)"
  by (auto split: sum.splits prod.splits)

lemma retains_prod [retains_intros]: "(\<And>a b. retains I (f a b)) \<Longrightarrow> retains I (case v of (a, b) \<Rightarrow> f a b)"
  by (cases v) simp

text \<open>
  The interface between the targets and the record of a run: whatever the operations on
  the log, the evidence and the database retain, every target retains. Only the manager of the
  database calls docker compose.
\<close>

definition composes :: "string list \<Rightarrow> bool" where
  "composes cmd = prefix [''compose'', ''-p''] (tl cmd)"

locale runner_invariant =
  fixes h :: host and I :: "runner \<Rightarrow> bool"
  assumes logged: "\<not> composes cmd \<Longrightarrow> retains I (run_logged h cmd shown env check_tool)"
    and starts: "retains I (start_db h mgr)"
    and stops: "retains I (stop_db h with_log mgr)"
    and writes: "retains I (write_file name content)"
    and serves: "\<not> composes cmd \<Longrightarrow> retains I (start_server h name cmd)"
    and draws: "retains I (draw_uuid h)"
begin

lemma backend_logged: "retains I (run_logged h (backend uv args) shown env check_tool)"
  by (rule logged) (simp add: composes_def backend_def)

lemma frontend_logged: "retains I (run_logged h (frontend npm args) shown env check_tool)"
  by (rule logged) (simp add: composes_def frontend_def)

lemma upgrade_logged: "retains I (run_logged h (upgrade_cmd uv) shown env check_tool)"
  unfolding upgrade_cmd_def by (rule backend_logged)

lemma steps: "\<forall>(cmd, t) \<in> set cmds. \<not> composes cmd \<Longrightarrow> retains I (run_steps h cmds)"
  by (induction cmds) (auto intro!: retains_intros logged)

lemma tools: "(\<And>uv npm. retains I (f uv npm)) \<Longrightarrow> retains I (with_tools h f)"
  unfolding with_tools_def by (intro retains_intros)

lemma database: "(\<And>mgr url. retains I (body mgr url)) \<Longrightarrow> retains I (with_database h run_id body)"
  unfolding with_database_def new_manager_def by (intro retains_intros starts stops draws)

lemmas step_intros = retains_intros tools database starts stops writes draws backend_logged frontend_logged upgrade_logged

lemma bootstrap: "retains I (bootstrap_target h central)"
  unfolding bootstrap_target_def install_uv_def Let_def by (intro step_intros logged steps) (auto simp: composes_def)

lemma lint: "retains I (lint_target h)"
  unfolding lint_target_def by (intro step_intros steps) (auto simp: composes_def backend_def frontend_def)

lemma unit: "retains I (unit_target h)"
  unfolding unit_target_def by (intro step_intros)

lemma front: "retains I (frontend_target h)"
  unfolding frontend_target_def by (intro step_intros steps) (auto simp: composes_def backend_def frontend_def)

lemma integration: "retains I (integration_target h run_id)"
  unfolding integration_target_def Let_def by (intro step_intros)

lemma concurrency: "retains I (concurrency_target h run_id)"
  unfolding concurrency_target_def Let_def uvicorn_cmd_def by (intro step_intros serves) (simp add: composes_def)

lemma permissions: "retains I (permissions_target h run_id)"
  unfolding permissions_target_def Let_def by (intro step_intros logged) (simp add: composes_def)

lemma race_lab: "retains I (race_lab_target h run_id)"
  unfolding race_lab_target_def Let_def race_demo_cmd_def by (intro step_intros logged) (simp_all add: composes_def)

lemma build: "retains I (build_target h)"
  unfolding build_target_def Let_def by (intro step_intros logged) (simp add: composes_def)

lemma browser: "retains I (browser_steps h uv npm paths url trid)"
  unfolding browser_steps_def Let_def uvicorn_cmd_def vite_cmd_def
  by (intro step_intros serves) (simp_all add: composes_def)

lemma ticket: "retains I (ticket_target h fragments run_id ticket_id)"
  unfolding ticket_target_def ticket_steps_def Let_def by (intro step_intros browser)

lemma gates: "(\<And>t. retains I (run t)) \<Longrightarrow> retains I (run_gates run implemented gs)"
  by (induction gs) (auto intro!: retains_intros split: json.splits)

lemma target: "retains I (run_target depth h central fragments run_id ticket_id t)"
proof (induction depth arbitrary: ticket_id t)
  case 0
  then show ?case by (simp add: retains_intros)
next
  case (Suc depth)
  then show ?case
    by (auto intro!: retains_intros bootstrap lint unit front integration concurrency permissions race_lab ticket build gates)
qed

lemma each: "retains I (stop_each h ms)"
  by (induction ms) (auto intro!: retains_intros stops)

lemma gate_target:
  assumes "I (s\<lparr>rn_log := [], rn_files := []\<rparr>)"
  shows "I (snd (run_gate_target h gr s))"
proof -
  have "retains I (cleanup_all h)" unfolding cleanup_all_def by (intro retains_intros each)
  then show ?thesis
    using retainsD [OF target assms] by (auto simp: run_gate_target_def retains_def split: prod.splits) (metis snd_conv)
qed

end


section \<open>Evidence for every command\<close>

definition names :: "(string \<times> string) list \<Rightarrow> string set" where "names fs = fst ` set fs"

lemma names_put [simp]: "names (put_file n t fs) = insert n (names fs)"
  by (auto simp: names_def put_file_def image_iff)

lemma names_fold: "names fs \<subseteq> names (fold (\<lambda>(n, t). put_file n t) new fs)"
  by (induction new arbitrary: fs) (auto split: prod.splits, metis insert_iff names_put subsetD)

definition filed :: "runner \<Rightarrow> bool" where
  "filed s \<longleftrightarrow> (\<forall>k < length (rn_log s). \<forall>stream \<in> {''stdout'', ''stderr''}. cmd_file (Suc k) stream \<in> names (rn_files s))"

lemmas gate_defs = bind_g_def ret_def raise_g_def gets_g_def modify_g_def find_tool_def

lemma filed_mono: "filed s \<Longrightarrow> rn_log s' = rn_log s \<Longrightarrow> names (rn_files s) \<subseteq> names (rn_files s') \<Longrightarrow> filed s'"
  by (auto simp: filed_def)

lemma filed_snoc:
  "filed s \<Longrightarrow> rn_log s' = rn_log s @ [e] \<Longrightarrow> names (rn_files s) \<subseteq> names (rn_files s') \<Longrightarrow>
   cmd_file (Suc (length (rn_log s))) ''stdout'' \<in> names (rn_files s') \<Longrightarrow>
   cmd_file (Suc (length (rn_log s))) ''stderr'' \<in> names (rn_files s') \<Longrightarrow> filed s'"
  by (auto simp: filed_def less_Suc_eq)

lemma spawn_state:
  "rn_log (snd (spawn h cmd s)) = rn_log s" "rn_live (snd (spawn h cmd s)) = rn_live s"
  "rn_issued (snd (spawn h cmd s)) = rn_issued s @ [cmd]" "names (rn_files s) \<subseteq> names (rn_files (snd (spawn h cmd s)))"
  using names_fold by (auto simp: spawn_def Let_def split: sum.splits)

lemma spawn_cases: obtains r s' where "spawn h cmd s = (Inr r, s')" "rn_log s' = rn_log s" "rn_live s' = rn_live s"
    "rn_issued s' = rn_issued s @ [cmd]" "names (rn_files s) \<subseteq> names (rn_files s')"
  using spawn_state [where h = h and cmd = cmd and s = s] by (cases "spawn h cmd s") (auto simp: spawn_def Let_def)

lemma run_logged_state:
  "\<exists>status s'. run_logged h cmd shown env t s = (Inr status, s') \<and> rn_log s' = rn_log s @ [(shown, status)] \<and>
    rn_live s' = rn_live s \<and> rn_issued s' = rn_issued s @ [cmd] \<and>
    insert (cmd_file (Suc (length (rn_log s))) ''stdout'') (insert (cmd_file (Suc (length (rn_log s))) ''stderr'') (names (rn_files s)))
      \<subseteq> names (rn_files s')"
proof -
  obtain r s1 where r: "spawn h cmd s = (Inr r, s1)" "rn_log s1 = rn_log s" "rn_live s1 = rn_live s"
    "rn_issued s1 = rn_issued s @ [cmd]" "names (rn_files s) \<subseteq> names (rn_files s1)" by (rule spawn_cases)
  obtain out err status where c: "command_result env t r = (out, err, status)" by (cases "command_result env t r") auto
  show ?thesis using r(2-5)
    by (auto simp: run_logged_def run_command_def gate_defs write_file_def append_log_def r(1) c)
qed

lemma log_child_state:
  "\<exists>s'. log_child shown c s = (Inr (), s') \<and> rn_log s' = rn_log s @ [(sanitize_command shown, ch_code c)] \<and>
    rn_live s' = rn_live s \<and> rn_issued s' = rn_issued s \<and>
    names (rn_files s') = insert (cmd_file (Suc (length (rn_log s))) ''stderr'')
      (insert (cmd_file (Suc (length (rn_log s))) ''stdout'') (names (rn_files s)))"
  by (auto simp: log_child_def gate_defs write_file_def append_log_def)

text \<open>The clean-up starts processes that compose nothing, and changes neither the log nor the managers.\<close>

definition quiet_run :: "runner \<Rightarrow> runner \<Rightarrow> bool" where
  "quiet_run s s' \<longleftrightarrow> rn_log s' = rn_log s \<and> rn_live s' = rn_live s \<and> names (rn_files s) \<subseteq> names (rn_files s') \<and>
     (\<exists>cmds. rn_issued s' = rn_issued s @ cmds \<and> list_all (\<lambda>c. \<not> composes c) cmds)"

lemma quiet_refl [simp]: "quiet_run s s"
  by (simp add: quiet_run_def)

lemma quiet_trans: "quiet_run s1 s2 \<Longrightarrow> quiet_run s2 s3 \<Longrightarrow> quiet_run s1 s3"
  by (fastforce simp: quiet_run_def)

lemma quiet_spawn: "\<not> composes cmd \<Longrightarrow> quiet_run s (snd (spawn h cmd s))"
  by (simp add: quiet_run_def spawn_state)

lemma quiet_bind: "quiet_run s (snd (m s)) \<Longrightarrow> (\<And>x s'. quiet_run s' (snd (f x s'))) \<Longrightarrow> quiet_run s (snd (bind_g m f s))"
  by (auto simp: bind_g_def split: prod.splits sum.splits intro: quiet_trans)

lemma quiet_listed:
  "\<not> composes lc \<Longrightarrow> (\<And>ids. \<not> composes (rc @ ids)) \<Longrightarrow> quiet_run s (snd (remove_listed h lc rc s))"
  unfolding remove_listed_def
  by (intro quiet_bind quiet_spawn) (auto simp: raise_g_def ret_def split: sum.splits prod.splits intro!: quiet_bind quiet_spawn)

lemma quiet_cleanup: "quiet_run s (snd (force_cleanup h docker project s))"
  unfolding force_cleanup_def swallow_def snd_conv
  by (intro quiet_bind quiet_listed) (auto simp: composes_def)

lemma start_db_cases:
  obtains (unable) s1 e where "start_db h mgr s = (Inl e, s1)" "rn_log s1 = rn_log s"
    "rn_live s1 = List.insert mgr (rn_live s)" "rn_issued s1 = rn_issued s @ [compose_up (docker_bin mgr) (project_name mgr)]"
    "names (rn_files s) \<subseteq> names (rn_files s1)"
  | (started) r s1 e where "start_db h mgr s = (r, s1)" "rn_log s1 = rn_log s @ [e]"
    "rn_live s1 = List.insert mgr (rn_live s)" "rn_issued s1 = rn_issued s @ [compose_up (docker_bin mgr) (project_name mgr)]"
    "insert (cmd_file (Suc (length (rn_log s))) ''stdout'') (insert (cmd_file (Suc (length (rn_log s))) ''stderr'') (names (rn_files s)))
      \<subseteq> names (rn_files s1)"
proof -
  let ?s0 = "s\<lparr>rn_live := List.insert mgr (rn_live s)\<rparr>"
  let ?cmd = "compose_up (docker_bin mgr) (project_name mgr)"
  obtain r s1 where r: "spawn h ?cmd ?s0 = (Inr r, s1)" "rn_log s1 = rn_log ?s0" "rn_live s1 = rn_live ?s0"
    "rn_issued s1 = rn_issued ?s0 @ [?cmd]" "names (rn_files ?s0) \<subseteq> names (rn_files s1)" by (rule spawn_cases)
  note run = start_db_def gate_defs Let_def r(1)
  show ?thesis
  proof (cases r)
    case (Inl p)
    then have "start_db h mgr s = (Inl (PyException (snd p)), s1)" by (simp add: run split: prod.splits)
    from unable [OF this] r(2-5) show ?thesis by simp
  next
    case (Inr c)
    let ?shown = "?cmd @ [''(stdin: port 127.0.0.1:'' @ nat_str (allocated_port mgr) @ '':5432)'']"
    obtain s2 where s2: "log_child ?shown c s1 = (Inr (), s2)" "rn_log s2 = rn_log s1 @ [(sanitize_command ?shown, ch_code c)]"
      "rn_live s2 = rn_live s1" "rn_issued s2 = rn_issued s1"
      "names (rn_files s2) = insert (cmd_file (Suc (length (rn_log s1))) ''stderr'')
        (insert (cmd_file (Suc (length (rn_log s1))) ''stdout'') (names (rn_files s1)))"
      using log_child_state [of ?shown c s1] by blast
    have "\<exists>x. start_db h mgr s = (x, s2)" using Inr s2(1) by (simp add: run)
    then obtain x where "start_db h mgr s = (x, s2)" ..
    moreover have "rn_log s2 = rn_log s @ [(sanitize_command ?shown, ch_code c)]" using s2(2) r(2) by simp
    ultimately show ?thesis by (rule started) (use s2 r(2-5) in auto)
  qed
qed

text \<open>Stopping a manager that is live issues the command down for its project, whatever comes of it.\<close>

lemma stop_db_cases:
  obtains (idle) "mgr \<notin> set (rn_live s)" "stop_db h with_log mgr s = (Inr (), s)"
  | (tried) r s1 cmds where "mgr \<in> set (rn_live s)" "stop_db h with_log mgr s = (r, s1)"
    "rn_issued s1 = rn_issued s @ compose_down (docker_bin mgr) (project_name mgr) # cmds" "list_all (\<lambda>c. \<not> composes c) cmds"
    "rn_live s1 = rn_live s \<or> rn_live s1 = filter (\<lambda>m. m \<noteq> mgr) (rn_live s)"
    "names (rn_files s) \<subseteq> names (rn_files s1)" "filed s \<Longrightarrow> filed s1"
proof (cases "mgr \<in> set (rn_live s)")
  case False
  then have "stop_db h with_log mgr s = (Inr (), s)" by (simp add: stop_db_def gate_defs)
  then show ?thesis using False idle by blast
next
  case True
  let ?cmd = "compose_down (docker_bin mgr) (project_name mgr)"
  obtain r s1 where r: "spawn h ?cmd s = (Inr r, s1)" "rn_log s1 = rn_log s" "rn_live s1 = rn_live s"
    "rn_issued s1 = rn_issued s @ [?cmd]" "names (rn_files s) \<subseteq> names (rn_files s1)" by (rule spawn_cases)
  note run = stop_db_def gate_defs Let_def r(1)
  show ?thesis
  proof (cases r)
    case (Inl p)
    then have e: "stop_db h with_log mgr s = (Inl (PyException (snd p)), s1)" using True by (simp add: run split: prod.splits)
    have "filed s \<Longrightarrow> filed s1" using filed_mono [of s s1] r(2,5) by simp
    with tried [OF True e, of "[]"] r(3-5) show ?thesis by simp
  next
    case (Inr c)
    obtain s2 where s2: "(if with_log then log_child ?cmd c else ret ()) s1 = (Inr (), s2)" "rn_live s2 = rn_live s1"
      "rn_issued s2 = rn_issued s1" "names (rn_files s1) \<subseteq> names (rn_files s2)" "filed s1 \<Longrightarrow> filed s2"
    proof (cases with_log)
      case False
      then show ?thesis using that by (simp add: ret_def)
    next
      case log: True
      obtain s2 where "log_child ?cmd c s1 = (Inr (), s2)" "rn_log s2 = rn_log s1 @ [(sanitize_command ?cmd, ch_code c)]"
        "rn_live s2 = rn_live s1" "rn_issued s2 = rn_issued s1"
        "names (rn_files s2) = insert (cmd_file (Suc (length (rn_log s1))) ''stderr'')
          (insert (cmd_file (Suc (length (rn_log s1))) ''stdout'') (names (rn_files s1)))"
        using log_child_state [of ?cmd c s1] by blast
      then show ?thesis using that [of s2] log filed_snoc [of s1 s2] by auto
    qed
    obtain s3 where clean: "force_cleanup h (docker_bin mgr) (project_name mgr) s2 = (Inr (), s3)"
      by (simp add: force_cleanup_def swallow_def)
    then have "quiet_run s2 s3" using quiet_cleanup [of s2 h "docker_bin mgr" "project_name mgr"] by simp
    then obtain cmds where cmds: "rn_issued s3 = rn_issued s2 @ cmds" "list_all (\<lambda>c. \<not> composes c) cmds"
      "rn_log s3 = rn_log s2" "rn_live s3 = rn_live s2" "names (rn_files s2) \<subseteq> names (rn_files s3)"
      by (auto simp: quiet_run_def)
    have filed: "filed s \<Longrightarrow> filed s3"
      using s2(5) filed_mono [of s s1] filed_mono [of s2 s3] r(2,5) cmds(3,5) by blast
    define s4 where "s4 = (if ch_code c \<noteq> 0 then s3 else s3\<lparr>rn_live := filter (\<lambda>m. m \<noteq> mgr) (rn_live s3)\<rparr>)"
    have "\<exists>x. stop_db h with_log mgr s = (x, s4)"
      using True Inr s2(1) clean by (simp add: run s4_def)
    then obtain x where x: "stop_db h with_log mgr s = (x, s4)" ..
    have "filed s \<Longrightarrow> filed s4" using filed filed_mono [of s3 s4] by (auto simp: s4_def)
    have same: "rn_issued s4 = rn_issued s3" "rn_files s4 = rn_files s3"
      "rn_live s4 = rn_live s3 \<or> rn_live s4 = filter (\<lambda>m. m \<noteq> mgr) (rn_live s3)" by (simp_all add: s4_def)
    show ?thesis
    proof (rule tried [OF True x _ cmds(2)])
      show "rn_issued s4 = rn_issued s @ compose_down (docker_bin mgr) (project_name mgr) # cmds"
        using same(1) cmds(1) s2(3) r(4) by simp
      show "rn_live s4 = rn_live s \<or> rn_live s4 = filter (\<lambda>m. m \<noteq> mgr) (rn_live s)" using same(3) cmds(4) s2(2) r(3) by simp
      show "names (rn_files s) \<subseteq> names (rn_files s4)" using same(2) cmds(5) s2(4) r(5) by auto
    qed fact
  qed
qed

interpretation evidence: runner_invariant h filed for h
proof
  show "retains filed (run_logged h cmd shown env t)" for cmd shown env t
    unfolding retains_def
  proof (intro allI impI)
    fix s assume f: "filed s"
    obtain status s' where s': "run_logged h cmd shown env t s = (Inr status, s')" "rn_log s' = rn_log s @ [(shown, status)]"
      "insert (cmd_file (Suc (length (rn_log s))) ''stdout'') (insert (cmd_file (Suc (length (rn_log s))) ''stderr'') (names (rn_files s)))
        \<subseteq> names (rn_files s')" using run_logged_state [of h cmd shown env t s] by blast
    show "filed (snd (run_logged h cmd shown env t s))"
      using filed_snoc [OF f s'(2)] s'(3) by (simp add: s'(1))
  qed
  show "retains filed (start_db h mgr)" for mgr
    unfolding retains_def
  proof (intro allI impI)
    fix s assume f: "filed s"
    show "filed (snd (start_db h mgr s))"
    proof (cases rule: start_db_cases [of h mgr s])
      case (unable s1 e)
      then show ?thesis using filed_mono [OF f, of s1] by simp
    next
      case (started r s1 e)
      then show ?thesis using filed_snoc [OF f started(2)] by simp
    qed
  qed
  show "retains filed (stop_db h l mgr)" for l mgr
    unfolding retains_def
  proof (intro allI impI)
    fix s assume f: "filed s"
    show "filed (snd (stop_db h l mgr s))"
      by (rule stop_db_cases [of mgr s h l]) (use f in simp_all)
  qed
  show "retains filed (write_file n t)" for n t
    by (auto simp: retains_def write_file_def modify_g_def filed_def)
  show "retains filed (start_server h n cmd)" for n cmd
    by (auto simp: retains_def start_server_def filed_def split: sum.splits)
  show "retains filed (draw_uuid h)"
    by (auto simp: retains_def draw_uuid_def filed_def)
qed


section \<open>No database is left running\<close>

lemma compose_simps [simp]:
  "compose_up d p = compose_up d' p' \<longleftrightarrow> d = d' \<and> p = p'" "compose_down d p \<noteq> compose_up d' p'"
  "composes (compose_up d p)" "composes (compose_down d p)"
  by (auto simp: compose_up_def compose_down_def composes_def)

definition down_after :: "runner \<Rightarrow> nat \<Rightarrow> string \<Rightarrow> bool" where
  "down_after s i p \<longleftrightarrow> (\<exists>j > i. j < length (rn_issued s) \<and> (\<exists>d. rn_issued s ! j = compose_down d p))"

text \<open>Every database that was brought up was brought down later, or belongs to a manager in L.\<close>

definition accounted :: "db_manager set \<Rightarrow> runner \<Rightarrow> bool" where
  "accounted L s \<longleftrightarrow> (\<forall>i < length (rn_issued s). \<forall>d p. rn_issued s ! i = compose_up d p \<longrightarrow>
     (\<exists>m \<in> L. project_name m = p) \<or> down_after s i p)"

definition tracked :: "runner \<Rightarrow> bool" where "tracked s \<longleftrightarrow> accounted (set (rn_live s)) s"

lemma accounted_mono: "accounted L s \<Longrightarrow> L \<subseteq> L' \<Longrightarrow> accounted L' s"
  unfolding accounted_def by blast

lemma accounted_cong: "rn_issued s' = rn_issued s \<Longrightarrow> accounted L s' = accounted L s"
  by (simp add: accounted_def down_after_def)

lemma down_after_append: "down_after s i p \<Longrightarrow> rn_issued s' = rn_issued s @ cmds \<Longrightarrow> down_after s' i p"
  by (auto simp: down_after_def nth_append intro: trans_less_add1)

lemma accounted_append:
  assumes acc: "accounted L s" and app: "rn_issued s' = rn_issued s @ cmds"
    and new: "\<And>i d p. i < length cmds \<Longrightarrow> cmds ! i = compose_up d p \<Longrightarrow> \<exists>m \<in> L'. project_name m = p"
    and old: "\<And>i m. i < length (rn_issued s) \<Longrightarrow> m \<in> L \<Longrightarrow> m \<in> L' \<or> down_after s' i (project_name m)"
  shows "accounted L' s'"
  unfolding accounted_def
proof (intro allI impI)
  fix i d p
  assume i: "i < length (rn_issued s')" "rn_issued s' ! i = compose_up d p"
  show "(\<exists>m \<in> L'. project_name m = p) \<or> down_after s' i p"
  proof (cases "i < length (rn_issued s)")
    case True
    then have "(\<exists>m \<in> L. project_name m = p) \<or> down_after s i p" using acc i(2) app by (simp add: accounted_def nth_append)
    then show ?thesis using old [OF True] down_after_append [OF _ app] by blast
  next
    case False
    then show ?thesis using new [of "i - length (rn_issued s)" d p] i app by (simp add: nth_append)
  qed
qed

lemma accounted_quiet:
  assumes "accounted L s" "rn_issued s' = rn_issued s @ cmds" "list_all (\<lambda>c. \<not> composes c) cmds"
  shows "accounted L s'"
  using assms(3) by (intro accounted_append [OF assms(1,2)]) (auto simp: list_all_length)

lemma accounted_stop:
  assumes "accounted L s" "rn_issued s' = rn_issued s @ compose_down (docker_bin m) (project_name m) # cmds"
    "list_all (\<lambda>c. \<not> composes c) cmds"
  shows "accounted (L - {m}) s'"
proof (rule accounted_append [OF assms(1,2)])
  fix i d p assume "i < length (compose_down (docker_bin m) (project_name m) # cmds)"
    "(compose_down (docker_bin m) (project_name m) # cmds) ! i = compose_up d p"
  then show "\<exists>m' \<in> L - {m}. project_name m' = p"
    using assms(3) by (cases i) (auto simp: list_all_length)
next
  fix i m' assume i: "i < length (rn_issued s)" "m' \<in> L"
  then have "down_after s' i (project_name m)"
    using assms(2) by (auto simp: down_after_def nth_append intro!: exI [of _ "length (rn_issued s)"])
  then show "m' \<in> L - {m} \<or> down_after s' i (project_name m')" using i by blast
qed

interpretation databases: runner_invariant h tracked for h
proof
  show "retains tracked (run_logged h cmd shown env t)" if "\<not> composes cmd" for cmd shown env t
    unfolding retains_def
  proof (intro allI impI)
    fix s assume "tracked s"
    moreover obtain status s' where "run_logged h cmd shown env t s = (Inr status, s')" "rn_live s' = rn_live s"
      "rn_issued s' = rn_issued s @ [cmd]" using run_logged_state [of h cmd shown env t s] by blast
    ultimately show "tracked (snd (run_logged h cmd shown env t s))"
      using accounted_quiet [of _ s s' "[cmd]"] that by (simp add: tracked_def)
  qed
  show "retains tracked (start_db h mgr)" for mgr
    unfolding retains_def
  proof (intro allI impI)
    fix s assume t: "tracked s"
    obtain r s1 where "start_db h mgr s = (r, s1)" and s1: "rn_live s1 = List.insert mgr (rn_live s)"
      "rn_issued s1 = rn_issued s @ [compose_up (docker_bin mgr) (project_name mgr)]"
      by (rule start_db_cases [of h mgr s]) auto
    moreover have "accounted (insert mgr (set (rn_live s))) s1"
      by (rule accounted_append [OF t [unfolded tracked_def] s1(2)]) auto
    ultimately show "tracked (snd (start_db h mgr s))" by (simp add: tracked_def)
  qed
  show "retains tracked (stop_db h l mgr)" for l mgr
    unfolding retains_def
  proof (intro allI impI)
    fix s assume t: "tracked s"
    show "tracked (snd (stop_db h l mgr s))"
    proof (cases rule: stop_db_cases [of mgr s h l])
      case idle
      then show ?thesis using t by simp
    next
      case (tried r s1 cmds)
      have "accounted (set (rn_live s) - {mgr}) s1"
        by (rule accounted_stop [OF t [unfolded tracked_def] tried(3,4)])
      then have "accounted (set (rn_live s1)) s1" by (rule accounted_mono) (use tried(5) in auto)
      then show ?thesis by (simp add: tracked_def tried(2))
    qed
  qed
  show "retains tracked (write_file n t)" for n t
    by (simp add: retains_def write_file_def modify_g_def tracked_def accounted_def down_after_def)
  show "retains tracked (start_server h n cmd)" if "\<not> composes cmd" for n cmd
    unfolding retains_def
  proof (intro allI impI)
    fix s assume t: "tracked s"
    let ?s1 = "snd (start_server h n cmd s)"
    have "rn_issued ?s1 = rn_issued s @ [cmd]" "rn_live ?s1 = rn_live s"
      by (simp_all add: start_server_def split: sum.split)
    then show "tracked ?s1" using accounted_quiet [of _ s ?s1 "[cmd]"] t that by (simp add: tracked_def)
  qed
  show "retains tracked (draw_uuid h)"
    by (simp add: retains_def draw_uuid_def tracked_def accounted_def down_after_def)
qed

lemma stop_each_accounted:
  "accounted (set ms \<inter> set (rn_live s)) s \<Longrightarrow> accounted {} (snd (stop_each h ms s))"
proof (induction ms arbitrary: s)
  case Nil
  then show ?case by (simp add: ret_def)
next
  case (Cons m ms)
  let ?s1 = "snd (stop_db h False m s)"
  have "accounted (set ms \<inter> set (rn_live ?s1)) ?s1"
  proof (cases rule: stop_db_cases [of m s h False])
    case idle
    then have "set (m # ms) \<inter> set (rn_live s) = set ms \<inter> set (rn_live s)" by auto
    then show ?thesis using Cons.prems idle(2) by simp
  next
    case (tried r s1 cmds)
    have "accounted (set (m # ms) \<inter> set (rn_live s) - {m}) s1"
      by (rule accounted_stop [OF Cons.prems tried(3,4)])
    then have "accounted (set ms \<inter> set (rn_live s1)) s1" by (rule accounted_mono) (use tried(5) in auto)
    then show ?thesis by (simp add: tried(2))
  qed
  from Cons.IH [OF this] show ?case by (simp add: bind_g_def swallow_def)
qed

abbreviation "torn_down \<equiv> accounted {}"

lemma run_gate_target_torn_down:
  assumes "torn_down s"
  shows "torn_down (snd (run_gate_target h gr s))"
proof -
  let ?s0 = "s\<lparr>rn_log := [], rn_files := []\<rparr>"
  obtain outcome s1 where run: "run_target (gr_depth gr) h (gr_central gr) (gr_fragments gr) (gr_run_id gr) (gr_ticket gr)
      (gr_target gr) ?s0 = (outcome, s1)" by (meson surj_pair)
  have "tracked ?s0" using accounted_mono [OF assms] by (simp add: tracked_def accounted_cong [of ?s0 s])
  then have "tracked s1" using retainsD [OF databases.target] run by (metis snd_conv)
  then have "torn_down (snd (stop_each h (rn_live s1) s1))" by (intro stop_each_accounted) (simp add: tracked_def)
  then show ?thesis by (simp add: run_gate_target_def run cleanup_all_def bind_g_def gets_g_def)
qed

lemma execute_gate_torn_down: "retains torn_down (execute_gate h gr)"
  using run_gate_target_torn_down [of _ h gr]
  by (auto simp: retains_def execute_gate_def Let_def split: sum.split option.split prod.split) (metis snd_conv)

lemma regression_torn_down: "(\<And>t. retains torn_down (run t)) \<Longrightarrow> retains torn_down (regression run implemented gs)"
  by (induction gs) (auto intro!: retains_intros split: json.split)

lemma verify_main_torn_down: "retains torn_down (verify_main h context path_exists manifest_file fragment_files args)"
  unfolding verify_main_def Let_def
  by (intro retains_intros regression_torn_down execute_gate_torn_down)

definition fresh_runner :: runner where
  "fresh_runner = \<lparr>rn_issued = [], rn_log = [], rn_files = [], rn_live = [], rn_drawn = 0\<rparr>"

text \<open>
  C39: however a run of the runner ends (tests that fail, servers that do not start, a
  database that does not come up, exceptions, several gates): for every database
  container it brought up, the command that removes it with its volumes is issued later.
\<close>

theorem databases_torn_down:
  assumes "verify_main h context path_exists manifest_file fragment_files args fresh_runner = (r, s)"
    and "i < length (rn_issued s)" "rn_issued s ! i = compose_up docker project"
  shows "\<exists>j > i. j < length (rn_issued s) \<and> (\<exists>d. rn_issued s ! j = compose_down d project)"
proof -
  have "torn_down fresh_runner" by (simp add: accounted_def fresh_runner_def)
  from retainsD [OF verify_main_torn_down this] have "torn_down s" using assms(1) by (metis snd_conv)
  then show ?thesis using assms(2,3) by (auto simp: accounted_def down_after_def)
qed


text \<open>The gate integration on a host that can start nothing.\<close>

definition ex_host :: host where
  "ex_host =
     \<lparr>h_sha256 = (\<lambda>_. ''0123456789ab''), h_uuid = (\<lambda>_. 0),
      h_spawn = (\<lambda>_ _. Inl (''OSError'', ''no docker'')),
      h_server = (\<lambda>_ _. Inl ''no server''), h_which = (\<lambda>_ _. None), h_port_free = (\<lambda>_ _. True), h_environ = [],
      h_executable = ''python'', h_backend_python = ''python'', h_vite_js = ''vite.js'', h_backend_dir = ''backend'',
      h_evidence_dir = ''evidence'', h_temp_dir = ''tmp'', h_git_sha = replicate 40 (CHR ''a''), h_program = (\<lambda>_ _. []),
      h_pretty = (\<lambda>_. []), h_str = (\<lambda>_. [])\<rparr>"

definition ex_gate_run :: gate_run where
  "ex_gate_run =
     \<lparr>gr_target = ''integration'', gr_ticket = None, gr_central = JObj [], gr_fragments = [], gr_run_id = ''r1'', gr_fresh = False,
      gr_versions = [(''uv'', ''0.12.10'')], gr_sha = replicate 40 (CHR ''a''), gr_inputs = [], gr_inputs_after = [], gr_evidence = None,
      gr_bytes = (\<lambda>_. []), gr_config_hash = [], gr_timestamp = ''2026-01-01'', gr_duration = JInt 1, gr_depth = 2\<rparr>"

definition ex_command_line :: command_line where
  "ex_command_line =
     \<lparr>cl_target = ''integration'', cl_ticket = None, cl_fresh = True, cl_base = None, cl_diff = None, cl_diff_check = 0,
      cl_directory_used = False\<rparr>"

abbreviation "ex_central \<equiv> JObj [(''implemented_targets'', JArr [JStr ''integration''])]"

lemma ex_integration:
  "rn_issued (snd (run_gate_target ex_host (ex_gate_run\<lparr>gr_central := c, gr_fresh := b\<rparr>) fresh_runner)) =
    [compose_up ''docker'' ''cb_test_0123456789ab'', compose_down ''docker'' ''cb_test_0123456789ab'',
     compose_down ''docker'' ''cb_test_0123456789ab'']"
proof -
  let ?u = "''r1'' @ ''_'' @ uuid_hex 0"
  let ?p = "15432 + hex_int ''0123456789ab'' mod 2000"
  let ?mgr = "\<lparr>test_run_id = ?u, project_name = ''cb_test_0123456789ab'', allocated_port = ?p, docker_bin = ''docker''\<rparr>"
  have "[?p..<?p + 100] = ?p # [Suc ?p..<?p + 100]" by (rule upt_conv_Cons) simp
  then have m: "new_manager ex_host ''r1'' fresh_runner = (Inr ?mgr, fresh_runner\<lparr>rn_drawn := 1\<rparr>)"
    by (simp add: new_manager_def gate_defs draw_uuid_def find_free_port_def Let_def ex_host_def fresh_runner_def)
  have fr: "fresh_runner\<lparr>rn_log := [], rn_files := []\<rparr> = fresh_runner" by (simp add: fresh_runner_def)
  have sp: "spawn ex_host cmd s = (Inr (Inl (''OSError'', ''no docker'')), s\<lparr>rn_issued := rn_issued s @ [cmd]\<rparr>)" for cmd s
    by (simp add: spawn_def Let_def ex_host_def)
  show ?thesis
    by (simp add: run_gate_target_def ex_gate_run_def fr numeral_2_eq_2 integration_target_def with_tools_def with_database_def gate_defs m
        finally_g_def start_db_def stop_db_def sp Let_def cleanup_all_def swallow_def)
       (simp add: fresh_runner_def gate_defs swallow_def stop_db_def sp Let_def)
qed

lemma ex_verify:
  "snd (verify_main ex_host (\<lambda>_. ex_gate_run) (\<lambda>_. True) (Some (Some ex_central)) [] ex_command_line fresh_runner) =
    snd (run_gate_target ex_host (ex_gate_run\<lparr>gr_central := ex_central, gr_fresh := True\<rparr>) fresh_runner)"
  by (simp add: verify_main_def load_manifests_def gate_defs lift_g_def ex_command_line_def recognized_targets_def item_def py_in_def py_iter_def
    execute_gate_def ex_gate_run_def reusable_def reuse_allowed_def is_evidence_reuse_activated_def as_dict_def get_or_def falsy_json_def)
    (simp add: Let_def ret_def split: prod.split)

theorem databases_torn_down_witness:
  "let s = snd (verify_main ex_host (\<lambda>_. ex_gate_run) (\<lambda>_. True) (Some (Some ex_central)) [] ex_command_line fresh_runner) in
   rn_issued s ! 0 = compose_up ''docker'' ''cb_test_0123456789ab'' \<and>
   (\<exists>j > 0. j < length (rn_issued s) \<and> (\<exists>d. rn_issued s ! j = compose_down d ''cb_test_0123456789ab''))"
proof -
  obtain r s where s: "verify_main ex_host (\<lambda>_. ex_gate_run) (\<lambda>_. True) (Some (Some ex_central)) [] ex_command_line fresh_runner = (r, s)"
    by (meson surj_pair)
  then have "rn_issued s = [compose_up ''docker'' ''cb_test_0123456789ab'', compose_down ''docker'' ''cb_test_0123456789ab'',
     compose_down ''docker'' ''cb_test_0123456789ab'']"
    using ex_verify ex_integration [of True ex_central] by simp
  then have "0 < length (rn_issued s)" "rn_issued s ! 0 = compose_up ''docker'' ''cb_test_0123456789ab''" by simp_all
  then show ?thesis using databases_torn_down [OF s, of 0 "''docker''" "''cb_test_0123456789ab''"] by (simp add: s Let_def)
qed


section \<open>What a passing gate means\<close>

lemma verdict_zero:
  assumes "fst (gate_verdict h gr outcome s) = 0"
  shows "outcome = Inr 0 \<and> (\<forall>(cmd, status) \<in> set (rn_log s). status = 0) \<and> leaks s = [] \<and>
    compute_fingerprint (h_sha256 h) (gr_target gr) (gr_inputs_after gr) = compute_fingerprint (h_sha256 h) (gr_target gr) (gr_inputs gr)"
  using assms by (auto simp: gate_verdict_def Let_def split: sum.splits if_splits prod.splits)

lemma execute_gate_cases:
  assumes "execute_gate h gr s = (Inr (status, data), s')"
  obtains (reused) source path where "reusable h gr = Inr (Some (source, path))" "status = 0" "s' = s"
    "data = create_reused_manifest (h_sha256 h) (gr_target gr) source (gr_bytes gr path) path (gr_sha gr)
       (compute_fingerprint (h_sha256 h) (gr_target gr) (gr_inputs gr)) (gr_run_id gr) (gr_timestamp gr)
       @ [(''duration_seconds'', gr_duration gr)]"
  | (executed) outcome where "run_gate_target h gr s = (outcome, s')" "status = fst (gate_verdict h gr outcome s')"
    "data = executed_manifest h gr (gate_verdict h gr outcome s') s'"
  using assms by (auto simp: execute_gate_def Let_def split: sum.splits option.splits prod.splits)

lemma reusable_source:
  assumes "reusable h gr = Inr (Some (source, path))"
  obtains ms m where "gr_evidence gr = Some ms" "m \<in> set ms" "\<not> gr_fresh gr" "mf_path m = path" "mf_data m = Some (JObj source)"
    "map_of source ''target'' = Some (JStr (gr_target gr))" "map_of source ''reused'' \<noteq> Some (JBool True)"
    "check_manifest (h_sha256 h) (mf_artifact m) (gate_candidate h gr) source = None"
proof -
  obtain reason where "check_reuse_eligibility (h_sha256 h) (gate_candidate h gr) (gr_evidence gr) (gr_fresh gr)
      = (True, reason, Some (source, path))"
    using assms by (auto simp: reusable_def split: sum.splits bool.splits prod.splits if_splits)
  then obtain ms where ms: "gr_evidence gr = Some ms" "\<not> gr_fresh gr"
      "check_manifests (h_sha256 h) (gate_candidate h gr) ms = (True, reason, Some (source, path))"
    by (auto simp: check_reuse_eligibility_def split: if_splits option.splits)
  from check_manifests_accepts [OF ms(3)] obtain newer m older where m: "ms = newer @ m # older" "path = mf_path m"
      "mf_data m = Some (JObj source)" "map_of source ''target'' = Some (JStr (cd_gate (gate_candidate h gr)))"
      "map_of source ''reused'' \<noteq> Some (JBool True)" "check_manifest (h_sha256 h) (mf_artifact m) (gate_candidate h gr) source = None"
    by auto
  show ?thesis
    by (rule that [OF ms(1) _ ms(2) _ m(3) _ m(5,6)]) (use m(1,2,4) in \<open>simp_all add: gate_candidate_def\<close>)
qed


lemma names_map_of: "n \<in> names fs \<longleftrightarrow> map_of fs n \<noteq> None"
  by (auto simp: names_def map_of_eq_None_iff)

lemma cmd_file_nonempty: "cmd_file i stream \<noteq> []"
  by (simp add: cmd_file_def)

lemma record_accepted:
  assumes "filed s" "k < length (rn_log s)" "snd (rn_log s ! k) = 0"
  shows "check_command sha (map_of (rn_files s)) (command_record (h\<lparr>h_sha256 := sha\<rparr>) (rn_files s) (Suc k, rn_log s ! k)) = None"
proof -
  obtain cmd where e: "rn_log s ! k = (cmd, 0)" using assms(3) by (cases "rn_log s ! k") auto
  obtain a b where ab: "map_of (rn_files s) (cmd_file (Suc k) ''stdout'') = Some a" "map_of (rn_files s) (cmd_file (Suc k) ''stderr'') = Some b"
    using assms(1,2) by (auto simp: filed_def names_map_of)
  show ?thesis
    by (simp add: check_command_def command_record_def e stream_fields_def check_stream_def get_or_def ab cmd_file_nonempty)
qed


text \<open>What a passing run wrote is accepted for a candidate with the same inputs, tools and profile.\<close>

lemma executed_accepted:
  assumes good: "\<forall>(cmd, status) \<in> set (rn_log s). status = 0" "filed s" "rn_log s \<noteq> []"
    and known: "relevant_versions gr \<noteq> []" "list_all (\<lambda>(k, v). v \<notin> {''unknown'', ''not-found'', ''''}) (relevant_versions gr)"
    and ids: "git_sha_ok (Some (JStr (gr_sha gr)))" "cd_fingerprint (gate_candidate h gr) \<noteq> []"
  shows "check_manifest (h_sha256 h) (map_of (rn_files s)) (gate_candidate h gr) (executed_manifest h gr (0, err) s) = None"
proof -
  let ?data = "executed_manifest h gr (0, err) s"
  let ?check = "check_command (h_sha256 h) (map_of (rn_files s))"
  have cd: "cd_tools (gate_candidate h gr) = relevant_versions gr" "cd_profile (gate_candidate h gr) = gate_profile h gr"
    "cd_locks (gate_candidate h gr) = []" by (simp_all add: gate_candidate_def)
  have fields: "map_of ?data ''exit_code'' = Some (JInt 0)" "map_of ?data ''input_fingerprint'' = Some (JStr (cd_fingerprint (gate_candidate h gr)))"
    "map_of ?data ''tool_versions'' = Some (JObj (map (\<lambda>(k, v). (k, JStr v)) (relevant_versions gr)))"
    "map_of ?data ''test_profile'' = Some (JStr (gate_profile h gr))" "map_of ?data ''evidence_version'' = Some (JInt 2)"
    "map_of ?data ''execution_type'' = Some (JStr ''fresh'')" "map_of ?data ''git_sha'' = Some (JStr (gr_sha gr))"
    "map_of ?data ''commands'' = Some (JArr (command_records h s))"
    by (simp_all add: executed_manifest_def gate_candidate_def)
  have all: "?check c = None" if "c \<in> set (command_records h s)" for c
  proof -
    let ?z = "zip [1..<Suc (length (rn_log s))] (rn_log s)"
    have "c \<in> command_record h (rn_files s) ` set ?z" using that by (simp add: command_records_def del: upt_Suc)
    then obtain e where e: "e \<in> set ?z" "c = command_record h (rn_files s) e" by blast
    from e(1) obtain k where "k < length ?z" "?z ! k = e" unfolding in_set_conv_nth by blast
    then have k: "k < length (rn_log s)" "c = command_record h (rn_files s) (Suc k, rn_log s ! k)"
      using e(2) by (auto simp del: upt_Suc)
    have "snd (rn_log s ! k) = 0" using bspec [OF good(1) nth_mem [OF k(1)]] by (simp add: case_prod_beta)
    from record_accepted [OF good(2) k(1) this, of "h_sha256 h" h] show ?thesis by (simp add: k(2))
  qed
  have "command_records h s \<noteq> []" using good(3) by (cases "rn_log s") (simp_all add: command_records_def upt_conv_Cons del: upt_Suc)
  then obtain c cs where c: "command_records h s = c # cs" by (cases "command_records h s") auto
  have "first_some (refuse_unless (relevant_versions gr \<noteq> [] \<and> list_all (\<lambda>(k, v). v \<notin> {''unknown'', ''not-found'', ''''}) (relevant_versions gr))
      ''Uncertain tool versions'' # map ?check (c # cs)) = None"
    using known all unfolding c by (simp add: first_some_None refuse_unless_def)
  then show ?thesis
    using known ids unfolding check_manifest_def fields cd c
    by (simp add: get_or_def fields(3,4) dict_of_texts_def refuse_unless_def)
qed

text \<open>
  C38: what a passing run of a gate leaves is enough for the next one: when its manifest and
  files are the newest evidence, a later call for the same gate with the same inputs, tools and
  profile, where reuse is switched on for the gate, passes and starts no process at all.
\<close>

theorem passing_run_is_reused:
  assumes run: "execute_gate h gr s = (Inr (0, data), s')" "map_of data ''reused'' = Some (JBool False)" "rn_log s' \<noteq> []"
    and known: "relevant_versions gr \<noteq> []" "list_all (\<lambda>(k, v). v \<notin> {''unknown'', ''not-found'', ''''}) (relevant_versions gr)"
    and ids: "git_sha_ok (Some (JStr (gr_sha gr)))" "compute_fingerprint (h_sha256 h) (gr_target gr) (gr_inputs gr) \<noteq> []"
    and later: "gr_target next = gr_target gr" "gr_versions next = gr_versions gr" "gr_inputs next = gr_inputs gr" "\<not> gr_fresh next"
      "reuse_allowed next = Inr True"
      "gr_evidence next = Some (\<lparr>mf_path = path, mf_data = Some (JObj data), mf_artifact = map_of (rn_files s')\<rparr> # older)"
  shows "\<exists>data'. execute_gate h next t = (Inr (0, data'), t) \<and> map_of data' ''reused'' = Some (JBool True) \<and>
    map_of data' ''source_manifest_path'' = Some (JStr path) \<and> map_of data' ''commands'' = map_of data ''commands''"
proof -
  obtain outcome where ex: "run_gate_target h gr s = (outcome, s')" "0 = fst (gate_verdict h gr outcome s')"
    "data = executed_manifest h gr (gate_verdict h gr outcome s') s'"
    using run(1)
  proof (cases rule: execute_gate_cases)
    case (reused source p)
    then show ?thesis using run(2) by (simp add: create_reused_manifest_def)
  qed (use that in blast)
  obtain err where v: "gate_verdict h gr outcome s' = (0, err)" using ex(2) by (cases "gate_verdict h gr outcome s'") auto
  note zero = verdict_zero [OF ex(2) [symmetric]]
  have "filed (s\<lparr>rn_log := [], rn_files := []\<rparr>)" by (simp add: filed_def)
  from evidence.gate_target [OF this] have filed: "filed s'" using ex(1) by (metis snd_conv)
  have cd: "gate_candidate h next = gate_candidate h gr"
    using later(1-3) by (simp add: gate_candidate_def relevant_versions_def gate_profile_def)
  have accepted: "check_manifest (h_sha256 h) (map_of (rn_files s')) (gate_candidate h next) data = None"
    unfolding cd ex(3) v using executed_accepted [OF _ filed run(3) known ids(1)] zero ids(2) by (simp add: gate_candidate_def)
  have t: "map_of data ''target'' = Some (JStr (cd_gate (gate_candidate h next)))"
    using later(1) by (simp add: ex(3) executed_manifest_def gate_candidate_def)
  have "check_reuse_eligibility (h_sha256 h) (gate_candidate h next) (gr_evidence next) (gr_fresh next)
      = (True, ''Valid matching execution evidence found for reuse'', Some (data, path))"
    using later(4,6) t run(2) accepted by (simp add: check_reuse_eligibility_def)
  then have "reusable h next = Inr (Some (data, path))" using later(5) by (simp add: reusable_def)
  moreover have "get_or data ''commands'' (JArr []) = the (map_of data ''commands'')" "map_of data ''commands'' \<noteq> None"
    by (simp_all add: ex(3) executed_manifest_def get_or_def)
  ultimately show ?thesis by (auto simp: execute_gate_def create_reused_manifest_def)
qed


text \<open>The gate build on a host where the command succeeds, and the same gate again.\<close>

definition ex_host2 :: host where
  "ex_host2 = ex_host\<lparr>h_sha256 := (\<lambda>t. t), h_spawn := (\<lambda>_ _. Inr \<lparr>ch_code = 0, ch_out = ''built'', ch_err = [], ch_files = []\<rparr>)\<rparr>"

definition ex_build :: gate_run where "ex_build = ex_gate_run\<lparr>gr_target := ''build'', gr_depth := 1\<rparr>"

definition ex_state :: runner where
  "ex_state =
     \<lparr>rn_issued = [[''docker'', ''build'', ''-f'', ''infra/Dockerfile.api'', ''.'']],
      rn_log = [([''docker'', ''build'', ''-f'', ''infra/Dockerfile.api'', ''.''], 0)],
      rn_files = [(''cmd_01_stderr.txt'', []), (''cmd_01_stdout.txt'', ''built'')], rn_live = [], rn_drawn = 0\<rparr>"

lemma ex_build_run: "run_gate_target ex_host2 ex_build fresh_runner = (Inr 0, ex_state)"
proof -
  have f: "cmd_file 1 ''stdout'' = ''cmd_01_stdout.txt''" "cmd_file 1 ''stderr'' = ''cmd_01_stderr.txt''" by code_simp+
  have t: "sanitize_text ''built'' [] = ''built''" "sanitize_text [] [] = []" by code_simp+
  show ?thesis
    by (simp add: run_gate_target_def ex_build_def ex_gate_run_def build_target_def gate_defs Let_def run_logged_def run_command_def spawn_def
        ex_host2_def ex_host_def fresh_runner_def command_result_def secrets_of_def t write_file_def append_log_def put_file_def
        f [unfolded One_nat_def] cleanup_all_def ex_state_def)
qed

lemma ex_leaks: "leaks ex_state = []"
  by code_simp

lemma ex_executed:
  "execute_gate ex_host2 ex_build fresh_runner = (Inr (0, executed_manifest ex_host2 ex_build (0, None) ex_state), ex_state)"
proof -
  have "reusable ex_host2 ex_build = Inr None"
    by (simp add: reusable_def reuse_allowed_def is_evidence_reuse_activated_def as_dict_def ex_build_def ex_gate_run_def get_or_def falsy_json_def)
  moreover have "gate_verdict ex_host2 ex_build (Inr 0) ex_state = (0, None)"
    by (simp add: gate_verdict_def Let_def ex_leaks) (simp add: ex_state_def ex_build_def ex_gate_run_def)
  ultimately show ?thesis by (simp add: execute_gate_def ex_build_run Let_def)
qed


definition ex_build_again :: "string \<Rightarrow> gate_run" where
  "ex_build_again path =
     ex_build\<lparr>gr_central := JObj [(''evidence_reuse'', JObj [(''activated'', JBool True), (''reusable_gates'', JArr [JStr ''build''])])],
       gr_evidence := Some [\<lparr>mf_path = path, mf_data = Some (JObj (executed_manifest ex_host2 ex_build (0, None) ex_state)),
         mf_artifact = map_of (rn_files ex_state)\<rparr>]\<rparr>"

theorem passing_run_is_reused_witness:
  "\<exists>data'. execute_gate ex_host2 (ex_build_again ''run1'') fresh_runner = (Inr (0, data'), fresh_runner) \<and>
     map_of data' ''reused'' = Some (JBool True)"
proof -
  have r: "map_of (executed_manifest ex_host2 ex_build (0, None) ex_state) ''reused'' = Some (JBool False)"
    by (simp add: executed_manifest_def)
  have l: "rn_log ex_state \<noteq> []" by (simp add: ex_state_def)
  have v: "relevant_versions ex_build = [(''uv'', ''0.12.10'')]"
    by (simp add: relevant_versions_def ex_build_def ex_gate_run_def)
  have k: "relevant_versions ex_build \<noteq> []" "list_all (\<lambda>(k, v). v \<notin> {''unknown'', ''not-found'', ''''}) (relevant_versions ex_build)"
    by (simp_all add: v)
  have g: "git_sha_ok (Some (JStr (gr_sha ex_build)))" by code_simp
  have f: "compute_fingerprint (h_sha256 ex_host2) (gr_target ex_build) (gr_inputs ex_build) \<noteq> []"
    by (simp add: compute_fingerprint_def hashed_bytes_def ex_host2_def ex_build_def)
  have a: "gr_target (ex_build_again ''run1'') = gr_target ex_build" "gr_versions (ex_build_again ''run1'') = gr_versions ex_build"
    "gr_inputs (ex_build_again ''run1'') = gr_inputs ex_build" "\<not> gr_fresh (ex_build_again ''run1'')"
    by (simp_all add: ex_build_again_def ex_build_def ex_gate_run_def)
  have allowed: "reuse_allowed (ex_build_again ''run1'') = Inr True"
    by (simp add: reuse_allowed_def is_evidence_reuse_activated_def get_reusable_gates_def as_dict_def get_or_def falsy_json_def py_iter_def
        ex_build_again_def ex_build_def ex_gate_run_def)
  have e: "gr_evidence (ex_build_again ''run1'') = Some (\<lparr>mf_path = ''run1'',
      mf_data = Some (JObj (executed_manifest ex_host2 ex_build (0, None) ex_state)), mf_artifact = map_of (rn_files ex_state)\<rparr> # [])"
    by (simp add: ex_build_again_def)
  from passing_run_is_reused [OF ex_executed r l k g f a allowed e] show ?thesis by blast
qed

end
