(* ===== verification/Supervisor.thy ===== *)
theory Supervisor
imports Prelude
begin

text \<open>
  The supervision of the background worker (WorkerSupervisor and main of app/worker.py): its
  tasks run concurrently; one that fails stops the others, a signal asks all to stop, and
  the process ends when all are done, with an exit status. asyncio delivers events one at a
  time, so a run is a sequence of steps; what the tasks do inside is modelled elsewhere.
\<close>

section \<open>Tasks and the supervisor\<close>

text \<open>CancelRequested: cancel() was called and the task has not yet ended.\<close>

datatype task_status = Active | CancelRequested | Finished | Failed exn | Cancelled

fun task_done :: "task_status \<Rightarrow> bool" where
  "task_done Active = False" | "task_done CancelRequested = False" | "task_done _ = True"

text \<open>How run() ends: normally, with an exception of a task, or cancelled from outside.\<close>

datatype ending = Clean | Fatal exn | RunCancelled

text \<open>
  Gathering: run awaits gather. Draining: it is in \_shutdown and waits for the tasks within
  the budget. Reaping: the budget is spent, the rest was cancelled and is awaited.
\<close>

datatype run_phase = Gathering | Draining ending | Reaping ending | Stopped ending

record supervisor =
  is_stopping :: bool
  fatal_error :: "exn option"
  running_tasks :: "task_status list"
  run_phase :: run_phase

definition builtin_tasks :: nat where "builtin_tasks = 3"

definition started :: "nat \<Rightarrow> supervisor" where
  "started customs =
     \<lparr>is_stopping = False, fatal_error = None, running_tasks = replicate (builtin_tasks + customs) Active, run_phase = Gathering\<rparr>"

definition request_shutdown :: "supervisor \<Rightarrow> supervisor" where
  "request_shutdown s = s\<lparr>is_stopping := True\<rparr>"

definition cancel_task :: "task_status \<Rightarrow> task_status" where
  "cancel_task t = (if task_done t then t else CancelRequested)"

text \<open>The except branch of \_wrap\_task for task i.\<close>

definition task_failed :: "nat \<Rightarrow> exn \<Rightarrow> supervisor \<Rightarrow> supervisor" where
  "task_failed i e s =
     request_shutdown (s\<lparr>fatal_error := Some e, running_tasks := (map cancel_task (running_tasks s))[i := Failed e]\<rparr>)"

definition outcome_of_failure :: "supervisor \<Rightarrow> ending" where
  "outcome_of_failure s = (case fatal_error s of Some e \<Rightarrow> Fatal e | None \<Rightarrow> RunCancelled)"

definition begin_shutdown :: "ending \<Rightarrow> supervisor \<Rightarrow> supervisor" where
  "begin_shutdown en s = (request_shutdown s)\<lparr>run_phase := Draining en\<rparr>"

definition budget_spent :: "ending \<Rightarrow> supervisor \<Rightarrow> supervisor" where
  "budget_spent en s = s\<lparr>running_tasks := map cancel_task (running_tasks s), run_phase := Reaping en\<rparr>"

text \<open>sys.exit(1) in main after any exception, 0 otherwise.\<close>

definition exit_status :: "ending \<Rightarrow> nat" where
  "exit_status en = (if en = Clean then 0 else 1)"

section \<open>Steps\<close>

text \<open>
  The loops of the supervisor return only when they see the stop event; a registered task
  may return when it likes. gather raises as soon as one task has failed or was cancelled,
  and returns when all have finished.
\<close>

inductive supervisor_step :: "supervisor \<Rightarrow> supervisor \<Rightarrow> bool" where
  signalled: "supervisor_step s (request_shutdown s)"
| returns: "i < length (running_tasks s) \<Longrightarrow> \<not> task_done (running_tasks s ! i) \<Longrightarrow> (i < builtin_tasks \<Longrightarrow> is_stopping s) \<Longrightarrow>
     supervisor_step s (s\<lparr>running_tasks := (running_tasks s)[i := Finished]\<rparr>)"
| raises: "i < length (running_tasks s) \<Longrightarrow> \<not> task_done (running_tasks s ! i) \<Longrightarrow> supervisor_step s (task_failed i e s)"
| cancelled: "i < length (running_tasks s) \<Longrightarrow> running_tasks s ! i = CancelRequested \<Longrightarrow>
     supervisor_step s (s\<lparr>running_tasks := (running_tasks s)[i := Cancelled]\<rparr>)"
| gather_raises: "run_phase s = Gathering \<Longrightarrow> t \<in> set (running_tasks s) \<Longrightarrow> t = Cancelled \<or> t = Failed e \<Longrightarrow>
     supervisor_step s (begin_shutdown (outcome_of_failure s) s)"
| gather_returns: "run_phase s = Gathering \<Longrightarrow> set (running_tasks s) \<subseteq> {Finished} \<Longrightarrow>
     supervisor_step s (begin_shutdown Clean s)"
| expires: "run_phase s = Draining en \<Longrightarrow> supervisor_step s (budget_spent en s)"
| ends: "run_phase s = Draining en \<or> run_phase s = Reaping en \<Longrightarrow> list_all task_done (running_tasks s) \<Longrightarrow>
     supervisor_step s (s\<lparr>run_phase := Stopped en\<rparr>)"

inductive_cases supervisor_stepE: "supervisor_step s s'"

inductive supervised :: "nat \<Rightarrow> supervisor \<Rightarrow> bool" for customs :: nat where
  start: "supervised customs (started customs)"
| more: "supervised customs s \<Longrightarrow> supervisor_step s s' \<Longrightarrow> supervised customs s'"

section \<open>Invariant\<close>

text \<open>The ending the phase carries.\<close>

fun phase_ending :: "run_phase \<Rightarrow> ending option" where
  "phase_ending Gathering = None"
| "phase_ending (Draining en) = Some en"
| "phase_ending (Reaping en) = Some en"
| "phase_ending (Stopped en) = Some en"

fun ending_ok :: "task_status list \<Rightarrow> ending option \<Rightarrow> bool" where
  "ending_ok ts None = True"
| "ending_ok ts (Some Clean) = (set ts \<subseteq> {Finished})"
| "ending_ok ts (Some (Fatal e)) = (Failed e \<in> set ts)"
| "ending_ok ts (Some RunCancelled) = False"

definition failure_ok :: "exn option \<Rightarrow> task_status list \<Rightarrow> bool \<Rightarrow> bool \<Rightarrow> bool" where
  "failure_ok fatal ts stopping gathering =
     (case fatal of
        None \<Rightarrow> (\<forall>e. Failed e \<notin> set ts) \<and> (gathering \<longrightarrow> set ts \<subseteq> {Active, Finished})
      | Some e \<Rightarrow> Failed e \<in> set ts \<and> Active \<notin> set ts \<and> stopping)"

definition supervisor_inv :: "supervisor \<Rightarrow> bool" where
  "supervisor_inv s =
     (failure_ok (fatal_error s) (running_tasks s) (is_stopping s) (run_phase s = Gathering) \<and>
      ending_ok (running_tasks s) (phase_ending (run_phase s)) \<and>
      ((\<exists>en. run_phase s = Stopped en) \<longrightarrow> list_all task_done (running_tasks s)))"

lemma supervisor_inv_start: "supervisor_inv (started customs)"
  by (auto simp: supervisor_inv_def started_def failure_ok_def)

lemma still_in: "x \<in> set xs \<Longrightarrow> \<not> task_done (xs ! i) \<Longrightarrow> task_done x \<Longrightarrow> x \<in> set (xs[i := y])"
  by (metis in_set_conv_nth length_list_update nth_list_update_neq)

lemma cancelled_in: "x \<in> set xs \<Longrightarrow> task_done x \<Longrightarrow> x \<in> set (map cancel_task xs)"
  by (force simp: cancel_task_def)

lemma in_cancelled: "x \<in> set (map cancel_task xs) \<Longrightarrow> x \<in> set xs \<and> task_done x \<or> x = CancelRequested"
  by (auto simp: cancel_task_def)

lemma in_updated: "x \<in> set (xs[i := y]) \<Longrightarrow> x = y \<or> x \<in> set xs"
  using set_update_subset_insert [of xs i y] by auto

text \<open>A task that is not done yet may change; that cannot touch the ending of the run.\<close>

lemma ending_ok_update:
  assumes "ending_ok ts en" "i < length ts" "\<not> task_done (ts ! i)"
  shows "ending_ok (ts[i := y]) en"
proof -
  have "ts ! i \<in> set ts" using assms(2) by simp
  then have "\<not> set ts \<subseteq> {Finished}" using assms(3) by auto
  then show ?thesis using assms still_in [OF _ assms(3)] by (cases "(ts, en)" rule: ending_ok.cases) auto
qed

lemma ending_ok_cancel: "ending_ok ts en \<Longrightarrow> ending_ok (map cancel_task ts) en"
  using cancelled_in [of _ ts] by (cases "(ts, en)" rule: ending_ok.cases) (auto simp: cancel_task_def)

lemma not_stopped:
  assumes "supervisor_inv s" "i < length (running_tasks s)" "\<not> task_done (running_tasks s ! i)"
  shows "run_phase s \<noteq> Stopped en"
  using assms by (auto simp: supervisor_inv_def list_all_length)

lemma supervisor_inv_step:
  assumes inv: "supervisor_inv s" and step: "supervisor_step s s'"
  shows "supervisor_inv s'"
  using step
proof cases
  case signalled
  then show ?thesis using inv by (auto simp: supervisor_inv_def request_shutdown_def failure_ok_def split: option.splits)
next
  case (returns i)
  have "failure_ok (fatal_error s) ((running_tasks s)[i := Finished]) (is_stopping s) (run_phase s = Gathering)"
    using inv still_in [OF _ returns(3)] by (auto simp: supervisor_inv_def failure_ok_def split: option.splits dest!: in_updated)
  then show ?thesis
    using inv returns not_stopped [OF inv returns(2,3)] ending_ok_update [OF _ returns(2,3)] by (auto simp: supervisor_inv_def)
next
  case (raises i e)
  let ?ts = "map cancel_task (running_tasks s)"
  have i: "i < length ?ts" "\<not> task_done (?ts ! i)" using raises(2,3) by (simp_all add: cancel_task_def)
  have "Active \<notin> set (?ts[i := Failed e])" using in_cancelled [of Active "running_tasks s"] by (auto dest!: in_updated)
  moreover have "Failed e \<in> set (?ts[i := Failed e])" using i(1) by (simp add: set_update_memI)
  moreover have "ending_ok (?ts[i := Failed e]) (phase_ending (run_phase s))"
    using inv by (intro ending_ok_update [OF ending_ok_cancel i]) (simp add: supervisor_inv_def)
  ultimately show ?thesis
    using raises(1) not_stopped [OF inv raises(2,3)] by (simp add: supervisor_inv_def task_failed_def request_shutdown_def failure_ok_def)
next
  case (cancelled i)
  have live: "\<not> task_done (running_tasks s ! i)" using cancelled(3) by simp
  have "CancelRequested \<in> set (running_tasks s)" using cancelled(2,3) nth_mem by metis
  then have "failure_ok (fatal_error s) ((running_tasks s)[i := Cancelled]) (is_stopping s) (run_phase s = Gathering)"
    using inv still_in [OF _ live] by (auto simp: supervisor_inv_def failure_ok_def split: option.splits dest!: in_updated)
  then show ?thesis
    using inv cancelled(1) not_stopped [OF inv cancelled(2) live] ending_ok_update [OF _ cancelled(2) live] by (auto simp: supervisor_inv_def)
next
  case (gather_raises t e)
  then show ?thesis using inv
    by (auto simp: supervisor_inv_def begin_shutdown_def request_shutdown_def outcome_of_failure_def failure_ok_def split: option.splits)
next
  case gather_returns
  then show ?thesis using inv
    by (auto simp: supervisor_inv_def begin_shutdown_def request_shutdown_def failure_ok_def split: option.splits)
next
  case (expires en)
  have "failure_ok (fatal_error s) (map cancel_task (running_tasks s)) (is_stopping s) False"
    using inv cancelled_in [of _ "running_tasks s"]
    by (auto simp: supervisor_inv_def failure_ok_def split: option.splits dest!: in_cancelled simp del: set_map)
  then show ?thesis using inv expires ending_ok_cancel [of "running_tasks s" "Some en"]
    by (simp add: supervisor_inv_def budget_spent_def)
next
  case (ends en)
  then show ?thesis using inv by (auto simp: supervisor_inv_def failure_ok_def split: option.splits)
qed

lemma supervised_inv: "supervised customs s \<Longrightarrow> supervisor_inv s"
  by (induction rule: supervised.induct) (auto intro: supervisor_inv_start supervisor_inv_step)



lemmas supervised_more = supervised.more [OF _ supervisor_step.signalled] supervised.more [OF _ supervisor_step.returns]
  supervised.more [OF _ supervisor_step.raises] supervised.more [OF _ supervisor_step.cancelled]
  supervised.more [OF _ supervisor_step.gather_raises] supervised.more [OF _ supervisor_step.gather_returns]
  supervised.more [OF _ supervisor_step.ends]

text \<open>A run in which the second task fails while the others are still at work.\<close>

lemma failing_run:
  "supervised 0 \<lparr>is_stopping = True, fatal_error = Some RuntimeError,
     running_tasks = [Cancelled, Failed RuntimeError, Finished], run_phase = Stopped (Fatal RuntimeError)\<rparr>"
proof -
  have "supervised 0 (task_failed 1 RuntimeError (started 0))"
    by (rule supervised_more(3) [OF supervised.start]) (simp_all add: started_def builtin_tasks_def)
  then have "supervised 0 \<lparr>is_stopping = True, fatal_error = Some RuntimeError,
      running_tasks = [CancelRequested, Failed RuntimeError, CancelRequested], run_phase = Gathering\<rparr>"
    by (simp add: started_def task_failed_def request_shutdown_def cancel_task_def builtin_tasks_def numeral_3_eq_3)
  from supervised_more(5) [OF this, of "Failed RuntimeError" RuntimeError]
  have "supervised 0 \<lparr>is_stopping = True, fatal_error = Some RuntimeError,
      running_tasks = [CancelRequested, Failed RuntimeError, CancelRequested], run_phase = Draining (Fatal RuntimeError)\<rparr>"
    by (simp add: begin_shutdown_def request_shutdown_def outcome_of_failure_def)
  from supervised_more(4) [OF this, of 0] supervised_more(2) [OF this, of 2]
  have "supervised 0 \<lparr>is_stopping = True, fatal_error = Some RuntimeError,
      running_tasks = [Cancelled, Failed RuntimeError, CancelRequested], run_phase = Draining (Fatal RuntimeError)\<rparr>"
    by simp
  from supervised_more(2) [OF this, of 2]
  have "supervised 0 \<lparr>is_stopping = True, fatal_error = Some RuntimeError,
      running_tasks = [Cancelled, Failed RuntimeError, Finished], run_phase = Draining (Fatal RuntimeError)\<rparr>"
    by simp
  from supervised_more(7) [OF this, of "Fatal RuntimeError"] show ?thesis by simp
qed


end
