(* ===== verification/Spec2Isabelle.thy ===== *)
theory Spec2Isabelle
imports System Operators Logging GateEvidence Supervisor
begin

text \<open>
  \<^bold>\<open>CommonsBook, the booking service\<close>

  Shared resources are booked in half-hour windows; a window that is taken has a waitlist;
  a place that frees up is offered to the queue for a limited time; members are told by
  e-mail through a transactional outbox. The program is a FastAPI application over
  PostgreSQL (src/backend/app) with a background worker and a handful of operator tools
  (src/scripts). This development translates its services, routes, worker turns and tools
  into HOL functions on one record, the database, and proves what makes them correct.

  \<^bold>\<open>How code becomes definitions\<close>

  \<^item> A table is the list of its rows, a row a record with the columns of app/*/models.py,
    a nullable column an option, a UUID a 128-bit word, an instant an int of microseconds.
    The record db (Schema) holds the twelve tables, the heartbeat row, the database clock and
    the random sources as streams with a position, and the start of the transaction.
  \<^item> A service function is a function from its arguments and a db to a result: Inl an
    exception (datatype exn, Prelude), Inr the value and the new db. Inl leaves the database
    as it was: it is the rollback. A route that commits in more than one transaction returns
    the result and the database side by side. bind\_r sequences, begin\_tx and
    in\_transaction open a transaction.
  \<^item> A statement is what SQL says of lists: filter, a conditional map with its rowcount, a
    sorted prefix for ORDER BY and LIMIT; INSERT and UPDATE check the CHECK, UNIQUE, foreign
    key and EXCLUDE constraints in the order PostgreSQL does and raise IntegrityError with
    SQLSTATE and name. A savepoint that is rolled back restores the tables; the uuid drawn in
    it is drawn again, which no other transaction can observe.
  \<^item> Rows that the code locks FOR UPDATE are stable until the transaction ends; where the
    code lets others commit in between (the idempotency key under a unique index, the sending
    of a mail, the two sessions of the retention tool) what they do is an argument. Whole
    transactions interleave freely in System.
  \<^item> What is not in the repository is an argument: Argon2, SHA-256, HMAC, JWT encoding and
    verification, the e-mail validator, datetime.fromisoformat, pydantic's coercion of bools,
    the collation, local time, the SMTP conversation, the file system, the order of an
    unordered scan. A text is a list of Latin-1 characters.

  \<^bold>\<open>Theories\<close>

  \<^item> Prelude, Wire, Schema, Windows, Text: identifiers, exceptions and relational
    operations; JSON, UUID and timestamp texts; tables, constraints and the booking trigger
    (alembic/versions, app/*/models.py); the three window policies; the text operations and
    sanitize\_error\_category.
  \<^item> Outbox (app/notifications/outbox.py): events, leases, backoff, recovery, with the
    locale fenced\_leases and its interpretation. Scope and Access (app/auth/dependencies.py,
    app/admin/audit.py): policies, If-Match, own-object scopes, the authorization dependency
    and the closures that revalidate it inside a transaction.
  \<^item> Wellformed and Holds: the invariant db\_ok of the booking tables, and the paired row
    changes of an offer. Promotion, Waitlist (app/waitlist/service.py), Bookings
    (app/bookings/service.py), Scheduler (app/waitlist/scheduler.py).
  \<^item> Idempotency (app/bookings/idempotency.py), Limits (app/config.py,
    app/auth/passwords.py, app/auth/rate\_limit.py), Tokens (app/auth/service.py), Catalog
    (app/resources/service.py), Inventory and Oversight (app/admin/service.py, schemas.py and
    feedback.py).
  \<^item> Envelope (app/main.py), Routes (the four routers of members), AdminRoutes
    (app/admin/router.py): the endpoints, composed as the code composes them.
  \<^item> Templates, Dispatcher (app/notifications/templates.py, adapters.py, handler.py and the
    dispatcher loop of app/worker.py), Maintenance (app/notifications/maintenance.py).
  \<^item> Calendar: the abstract specification, claims and wishes of a resource, and the
    refinements. Conservation: what transactions, guards, limits, keys and the outbox do to
    an invariant of the booking tables (locale table\_invariant). System: the program as a
    transition system of requests and worker turns.
  \<^item> Operators: scripts/seed.py, reset\_password.py, retention.py, expire\_hold.py,
    seed\_dead\_outbox.py. RaceLab: scripts/race\_demo.py, its guards and approval, the
    disposable database, the two races. EvidenceCache: scripts/verification\_cache.py.
    GateText, GateRunner and GateEvidence: scripts/verify.py, its decisions on texts and
    documents, its targets as sequences of child processes, and (with the locale
    runner\_invariant and its two interpretations) what every run leaves behind.
  \<^item> Observability: app/observability (metrics.py and the scrape, the redaction of
    logging.py, sentry.py), app/db/compatibility.py and the probes of app/main.py. Logging:
    the log records, their lines and the middleware that writes them.
    Supervisor: WorkerSupervisor and main of app/worker.py as a transition system.

  \<^bold>\<open>What is shown\<close>

  \<^item> In every reachable state, for every interleaving, no two active claims of a resource
    overlap, offers and queue entries stay paired, and all constraints hold (System).
  \<^item> Creation, cancellation and promotion refine a claim, a release and a greedy settlement
    of the abstract calendar (Calendar); promotion returns, is work conserving and fair, and
    keyset paging visits each entry once (Promotion).
  \<^item> The outcome of each operation on every branch, the errors and their precedence
    (Bookings, Waitlist, Scheduler, Inventory, Oversight, Envelope).
  \<^item> A keyed request runs once, whatever rivals do (Idempotency, Routes); an event is settled
    by one lease and mailed at most once per recipient (Outbox, Dispatcher); a refresh token
    rotates once and its reuse kills the family (Tokens).
  \<^item> Policies, limits and bounds (Access, Windows, Limits, Scope), liveness of the scheduler,
    termination of maintenance, and the effect of the operator tools.
  \<^item> Deliveries are counted once over any scrapes, and no e-mail address survives the
    redaction (Observability); a failed task of the worker stops the others and decides the
    exit status (Supervisor); the race lab touches only the database that is approved, and
    its races end as it claims under every schedule (RaceLab).
  \<^item> A gate passes only on an original run that was good, its evidence is accepted again for
    the same inputs and only for these, every database brought up is torn down, and masked
    output passes the scan for credentials (EvidenceCache, GateText, GateEvidence).
  \<^item> Behaviours that a maintainer should know are theorems too: last\_admin\_bypass,
    retention\_disables\_promoted\_admin, parse\_if\_match\_overlong,
    sanitize\_error\_category\_leaks, purge\_rounds\_zero, seed\_dead\_outbox\_in\_progress,
    redact\_leaks, fingerprint\_framing, ten\_passed\_refused.

  \<^bold>\<open>Loops and fuel\<close>

  \<^item> promote\_waiters is a function by a measure, the waiting entries beyond the cursor. The
    loop of execute\_create has the code's own bound of five attempts. The purge loop of
    maintenance is a partial\_function (option), as a batch of size zero never ends; that it
    returns for every positive size is proved. The depth of run\_target is what is left of
    Python's stack: one level for a gate, two for a regression; a server is polled 60 times,
    as the code does. Every other loop is structural.

  \<^bold>\<open>Not modelled\<close>

  \<^item> The front end, infrastructure, and tests; the connection pool and sessions of
    app/db/session.py beyond begin and commit; CORS and the FastAPI machinery; the
    set-up of loggers and the text format of the metrics; the intervals of the worker's loops; the
    evidence files and command line of race\_demo.py; of scripts/verify.py the Python programs
    it passes to -c, the probing of tool versions and what it prints. Child processes and
    containers are arguments.
  \<^item> Deadlocks and serialization failures: transactions are atomic, as their row locks make
    them, so the 503 of a retryable database error arises only as a value of exn.
\<close>

end
